(* ===== verification/Squash_Base.thy ===== *)
theory Squash_Base
  imports Main "HOL-Library.Word"
begin

text \<open>
  The prelude: what every component of the model shares.

  \<^item> The outcome of a C routine.  A routine returns a value, or it ends in a
    fault: a read through a null pointer, a read or write outside an object, a
    use of freed memory, a conversion of a \<open>double\<close> to \<open>int\<close> that C leaves
    undefined, a conversion of \<open>printf()\<close> that has no argument, or a call of
    \<open>squash_error()\<close> (which takes the player down).
  \<^item> The parts of the C library that the program's logic rests on:
    \<open>strcasecmp\<close>, \<open>strncasecmp\<close>, \<open>atoi\<close>, \<open>atol\<close> and the \<open>%d\<close>/\<open>%ld\<close>
    conversions of \<open>fprintf\<close>.  A C string is the list of its characters
    without the terminating NUL.
  \<^item> The collections of facts that the component theories fill.
\<close>

named_theorems outcome_intros \<open>rules that show that a routine does not fault\<close>
named_theorems queue_simps \<open>the effect of the queue operations on the list a queue stands for\<close>
named_theorems frame_simps \<open>fields an operation leaves alone\<close>

section \<open>Outcomes\<close>

datatype fault =
    Null_Deref
  | Out_Of_Bounds
  | Use_After_Free
  | Undefined_Conversion
  | Missing_Argument
  | Squash_Error

type_synonym 'a result = "fault + 'a"

definition and_then :: "'a result \<Rightarrow> ('a \<Rightarrow> 'b result) \<Rightarrow> 'b result" where
  "and_then m f = (case m of Inl e \<Rightarrow> Inl e | Inr x \<Rightarrow> f x)"

definition map_result :: "('a \<Rightarrow> 'b) \<Rightarrow> 'a result \<Rightarrow> 'b result" where
  "map_result f m = and_then m (\<lambda>x. Inr (f x))"

definition returns :: "'a result \<Rightarrow> bool" where
  "returns m = (case m of Inl _ \<Rightarrow> False | Inr _ \<Rightarrow> True)"

lemma and_then_simps [simp]:
  "and_then (Inl e) f = Inl e"
  "and_then (Inr x) f = f x"
  by (simp_all add: and_then_def)

lemma map_result_simps [simp]:
  "map_result f (Inl e) = Inl e"
  "map_result f (Inr x) = Inr (f x)"
  by (simp_all add: map_result_def)

lemma returns_simps [simp]:
  "\<not> returns (Inl e)"
  "returns (Inr x)"
  by (simp_all add: returns_def)

lemma returns_iff: "returns m \<longleftrightarrow> (\<exists>x. m = Inr x)"
  by (cases m) auto

lemma and_then_eq_Inr [simp]:
  "and_then m f = Inr y \<longleftrightarrow> (\<exists>x. m = Inr x \<and> f x = Inr y)"
  by (cases m) auto

lemma and_then_eq_Inl:
  "and_then m f = Inl e \<longleftrightarrow> m = Inl e \<or> (\<exists>x. m = Inr x \<and> f x = Inl e)"
  by (cases m) auto

lemma map_result_eq_Inr [simp]:
  "map_result f m = Inr y \<longleftrightarrow> (\<exists>x. m = Inr x \<and> y = f x)"
  by (cases m) auto

lemma returns_and_then [outcome_intros]:
  "m = Inr x \<Longrightarrow> returns (f x) \<Longrightarrow> returns (and_then m f)"
  by simp

lemma and_then_assoc [simp]:
  "and_then (and_then m f) g = and_then m (\<lambda>x. and_then (f x) g)"
  by (cases m) simp_all

text \<open>A loop over a list whose body may fault stops at the first fault.\<close>

fun fold_result :: "('a \<Rightarrow> 's \<Rightarrow> 's result) \<Rightarrow> 'a list \<Rightarrow> 's \<Rightarrow> 's result" where
  "fold_result f [] s = Inr s"
| "fold_result f (x # xs) s = and_then (f x s) (fold_result f xs)"

lemma fold_result_append [simp]:
  "fold_result f (xs @ ys) s = and_then (fold_result f xs s) (fold_result f ys)"
  by (induction xs arbitrary: s) (auto simp: and_then_def split: sum.splits)

lemma fold_result_Inr: "fold_result (\<lambda>x s. Inr (f x s)) xs s = Inr (fold f xs s)"
  by (induction xs arbitrary: s) simp_all

lemma fold_result_invariant:
  assumes "P s" and "fold_result f xs s = Inr s'"
    and "\<And>x s s'. x \<in> set xs \<Longrightarrow> P s \<Longrightarrow> f x s = Inr s' \<Longrightarrow> P s'"
  shows "P s'"
  using assms
proof (induction xs arbitrary: s)
  case Nil
  then show ?case by simp
next
  case (Cons x xs)
  from Cons.prems(2) obtain t where t: "f x s = Inr t" and rest: "fold_result f xs t = Inr s'"
    by auto
  have "P t" using Cons.prems(3) [OF _ Cons.prems(1) t] by simp
  then show ?case using rest Cons.IH Cons.prems(3) by (metis list.set_intros(2))
qed

section \<open>Characters\<close>

abbreviation NUL :: char where "NUL \<equiv> CHR 0x00"
abbreviation TAB :: char where "TAB \<equiv> CHR 0x09"
abbreviation LF :: char where "LF \<equiv> CHR 0x0A"
abbreviation CR :: char where "CR \<equiv> CHR 0x0D"

definition is_space :: "char \<Rightarrow> bool" where
  "is_space c \<longleftrightarrow> c = CHR '' '' \<or> (9 \<le> (of_char c :: nat) \<and> (of_char c :: nat) \<le> 13)"

definition is_digit :: "char \<Rightarrow> bool" where
  "is_digit c \<longleftrightarrow> 48 \<le> (of_char c :: nat) \<and> (of_char c :: nat) \<le> 57"

definition to_lower :: "char \<Rightarrow> char" where
  "to_lower c = (if 65 \<le> (of_char c :: nat) \<and> (of_char c :: nat) \<le> 90
                 then char_of ((of_char c :: nat) + 32) else c)"

text \<open>What a reader of a \<open>char *\<close> sees of a run of bytes: everything before the first NUL.\<close>

definition c_str :: "string \<Rightarrow> string" where
  "c_str bs = takeWhile (\<lambda>c. c \<noteq> NUL) bs"

lemma c_str_id: "NUL \<notin> set bs \<Longrightarrow> c_str bs = bs"
  unfolding c_str_def by (rule takeWhile_eq_all_conv [THEN iffD2]) auto

section \<open>String comparison\<close>

text \<open>The two comparisons are used only as tests against 0, so the model returns that test.\<close>

definition strcasecmp0 :: "string \<Rightarrow> string \<Rightarrow> bool" where
  "strcasecmp0 a b \<longleftrightarrow> map to_lower a = map to_lower b"

fun strncasecmp0 :: "string \<Rightarrow> string \<Rightarrow> nat \<Rightarrow> bool" where
  "strncasecmp0 a b 0 = True"
| "strncasecmp0 [] [] (Suc n) = True"
| "strncasecmp0 [] (b # bs) (Suc n) = False"
| "strncasecmp0 (a # as) [] (Suc n) = False"
| "strncasecmp0 (a # as) (b # bs) (Suc n) = (to_lower a = to_lower b \<and> strncasecmp0 as bs n)"

fun strncmp0 :: "string \<Rightarrow> string \<Rightarrow> nat \<Rightarrow> bool" where
  "strncmp0 a b 0 = True"
| "strncmp0 [] [] (Suc n) = True"
| "strncmp0 [] (b # bs) (Suc n) = False"
| "strncmp0 (a # as) [] (Suc n) = False"
| "strncmp0 (a # as) (b # bs) (Suc n) = (a = b \<and> strncmp0 as bs n)"

lemma strcasecmp0_refl [simp]: "strcasecmp0 a a"
  by (simp add: strcasecmp0_def)

lemma strcasecmp0_sym: "strcasecmp0 a b \<longleftrightarrow> strcasecmp0 b a"
  by (auto simp: strcasecmp0_def)

lemma strcasecmp0_trans: "strcasecmp0 a b \<Longrightarrow> strcasecmp0 b c \<Longrightarrow> strcasecmp0 a c"
  by (simp add: strcasecmp0_def)

text \<open>A bound past the end of the first string makes the bounded comparison exact.\<close>

lemma strncasecmp0_exact: "length a < n \<Longrightarrow> strncasecmp0 a b n = strcasecmp0 a b"
  by (induction a b n rule: strncasecmp0.induct) (auto simp: strcasecmp0_def)

lemma strncmp0_exact: "length a < n \<Longrightarrow> strncmp0 a b n = (a = b)"
  by (induction a b n rule: strncmp0.induct) auto

lemma strncmp0_prefix: "strncmp0 a (a @ b) (length a)"
  by (induction a) simp_all

lemma strncmp0_length: "strncmp0 a b (length a) \<longleftrightarrow> take (length a) b = a"
proof (induction a arbitrary: b)
  case Nil
  then show ?case by simp
next
  case (Cons x a)
  then show ?case by (cases b) auto
qed

section \<open>Decimal numbers\<close>

fun digits_value :: "nat \<Rightarrow> string \<Rightarrow> nat" where
  "digits_value acc [] = acc"
| "digits_value acc (c # cs) =
     (if is_digit c then digits_value (10 * acc + (of_char c - 48)) cs else acc)"

definition strtol10 :: "string \<Rightarrow> int" where
  "strtol10 s = (case dropWhile is_space s of
       [] \<Rightarrow> 0
     | c # r \<Rightarrow> (if c = CHR ''-'' then - int (digits_value 0 r)
                else if c = CHR ''+'' then int (digits_value 0 r)
                else int (digits_value 0 (c # r))))"

text \<open>\<open>long\<close> has 64 bits and \<open>strtol\<close> saturates; \<open>atoi\<close> is \<open>(int) strtol(s, NULL, 10)\<close>.\<close>

definition atol :: "string \<Rightarrow> int" where
  "atol s = max (- (2 ^ 63)) (min (strtol10 s) (2 ^ 63 - 1))"

definition atoi :: "string \<Rightarrow> int" where
  "atoi s = signed_take_bit 31 (atol s)"

definition digit_char :: "nat \<Rightarrow> char" where
  "digit_char d = char_of (48 + d)"

fun show_nat :: "nat \<Rightarrow> string" where
  "show_nat n = (if n < 10 then [digit_char n] else show_nat (n div 10) @ [digit_char (n mod 10)])"

declare show_nat.simps [simp del]

definition show_int :: "int \<Rightarrow> string" where
  "show_int i = (if i < 0 then CHR ''-'' # show_nat (nat (- i)) else show_nat (nat i))"

lemma of_char_digit_char [simp]: "d < 10 \<Longrightarrow> (of_char (digit_char d) :: nat) = 48 + d"
  by (simp add: digit_char_def)

lemma is_digit_digit_char [simp]: "d < 10 \<Longrightarrow> is_digit (digit_char d)"
  by (simp add: is_digit_def)

lemma show_nat_digits: "\<forall>c \<in> set (show_nat n). is_digit c"
proof (induction n rule: show_nat.induct)
  case (1 n)
  then show ?case by (subst show_nat.simps) auto
qed

lemma show_nat_nonempty [simp]: "show_nat n \<noteq> []"
  by (subst show_nat.simps) simp

lemma digits_value_append:
  "\<forall>c \<in> set xs. is_digit c \<Longrightarrow> digits_value a (xs @ ys) = digits_value (digits_value a xs) ys"
  by (induction xs arbitrary: a) simp_all

lemma digits_value_show_nat: "digits_value 0 (show_nat n) = n"
proof (induction n rule: show_nat.induct)
  case (1 n)
  show ?case
  proof (cases "n < 10")
    case True
    then show ?thesis by (subst show_nat.simps) simp
  next
    case False
    then have eq: "show_nat n = show_nat (n div 10) @ [digit_char (n mod 10)]"
      by (subst show_nat.simps) simp
    from False "1" show ?thesis
      by (simp add: eq digits_value_append show_nat_digits)
  qed
qed

lemma digit_not_special:
  "is_digit c \<Longrightarrow> \<not> is_space c \<and> c \<noteq> CHR ''-'' \<and> c \<noteq> CHR ''+'' \<and> c \<noteq> CHR ''='' \<and>
     c \<noteq> CHR ''#'' \<and> c \<noteq> CHR ''['' \<and> c \<noteq> NUL \<and> c \<noteq> CHR '' ''"
  by (auto simp: is_digit_def is_space_def)

lemma strtol10_show_int [simp]: "strtol10 (show_int i) = i"
proof -
  obtain c cs where s: "show_nat (nat i) = c # cs"
    by (cases "show_nat (nat i)") auto
  have d: "is_digit c" using show_nat_digits [of "nat i"] s by simp
  have "\<not> is_space (CHR ''-'')" by (simp add: is_space_def)
  then show ?thesis
    using digits_value_show_nat [of "nat i"] digits_value_show_nat [of "nat (- i)"]
      digit_not_special [OF d] s
    by (auto simp: show_int_def strtol10_def)
qed

lemma atol_show_int:
  assumes "- (2 ^ 63) \<le> i" and "i < 2 ^ 63"
  shows "atol (show_int i) = i"
  using assms by (simp add: atol_def)

lemma atoi_show_int:
  assumes "- (2 ^ 31) \<le> i" and "i < 2 ^ 31"
  shows "atoi (show_int i) = i"
proof -
  have "atol (show_int i) = i" using assms by (simp add: atol_show_int)
  then show ?thesis using assms by (simp add: atoi_def signed_take_bit_int_eq_self)
qed

lemma atoi_range: "- (2 ^ 31) \<le> atoi s \<and> atoi s < 2 ^ 31"
  using signed_take_bit_int_greater_eq_minus_exp [of 31 "atol s"]
    signed_take_bit_int_less_exp [of 31 "atol s"]
  unfolding atoi_def by simp

text \<open>What a printed number is made of: enough to see that the file parser hands it back whole.\<close>

lemma show_int_chars: "c \<in> set (show_int i) \<Longrightarrow> is_digit c \<or> c = CHR ''-''"
  using show_nat_digits by (auto simp: show_int_def split: if_splits)

lemma show_int_nonempty [simp]: "show_int i \<noteq> []"
  by (simp add: show_int_def)

section \<open>Lists indexed by a C integer\<close>

text \<open>A read of \<open>xs[i]\<close> faults outside the array; so does a write.\<close>

definition read_at :: "'a list \<Rightarrow> int \<Rightarrow> 'a result" where
  "read_at xs i = (if 0 \<le> i \<and> i < int (length xs) then Inr (xs ! nat i) else Inl Out_Of_Bounds)"

definition write_at :: "'a list \<Rightarrow> int \<Rightarrow> 'a \<Rightarrow> 'a list result" where
  "write_at xs i v =
     (if 0 \<le> i \<and> i < int (length xs) then Inr (xs[nat i := v]) else Inl Out_Of_Bounds)"

lemma read_at_Inr: "read_at xs i = Inr x \<longleftrightarrow> 0 \<le> i \<and> i < int (length xs) \<and> x = xs ! nat i"
  by (auto simp: read_at_def)

lemma read_at_nat [simp]: "n < length xs \<Longrightarrow> read_at xs (int n) = Inr (xs ! n)"
  by (simp add: read_at_def)

lemma write_at_nat [simp]: "n < length xs \<Longrightarrow> write_at xs (int n) v = Inr (xs[n := v])"
  by (simp add: write_at_def)

section \<open>Refinement of operations on a state\<close>

text \<open>
  The contract between a component that works on concrete data and its
  specification: each operation, run on a state that stands for an abstract
  value, returns and leaves a state that stands for the value the specification
  gives.  Any sequence of operations then does.
\<close>

locale refinement =
  fixes stands_for :: "'s \<Rightarrow> 'a \<Rightarrow> bool" and run :: "'op \<Rightarrow> 's \<Rightarrow> 's result" and spec :: "'op \<Rightarrow> 'a \<Rightarrow> 'a"
  assumes step: "stands_for s a \<Longrightarrow> \<exists>s'. run c s = Inr s' \<and> stands_for s' (spec c a)"
begin

lemma run_all:
  assumes "stands_for s a"
  shows "\<exists>s'. fold_result run cs s = Inr s' \<and> stands_for s' (fold spec cs a)"
  using assms
proof (induction cs arbitrary: s a)
  case Nil
  then show ?case by simp
next
  case (Cons c cs)
  obtain s1 where "run c s = Inr s1" "stands_for s1 (spec c a)" using step [OF Cons.prems] by blast
  with Cons.IH [of s1 "spec c a"] show ?case by simp
qed

lemma never_faults: "stands_for s a \<Longrightarrow> returns (fold_result run cs s)"
  using run_all [of s a cs] by (auto simp: returns_iff)

end

end
