(* ===== verification/Parse_File.thy ===== *)
theory Parse_File
  imports Squash_Base
begin

text \<open>
  The key/value file parser of \<open>src/src/global.c\<close>: \<open>copy_string()\<close> and
  \<open>parse_file()\<close>.  Configuration files, info files, stat files and the saved
  state all go through it.

  The file is mapped into memory; the parser keeps two positions into it
  (\<open>cur_start\<close> and \<open>cur_end\<close>, pointers that may be null), the header and key
  copied so far and the six states of its automaton.  Positions are indices
  into the mapped file; a copy that reaches outside the mapping is a fault.
  \<open>add_data\<close> is the caller's callback, with the caller's data as its state.
\<close>

section \<open>Definitions\<close>

datatype parse_state =
    STATE_IN_COMMENT
  | STATE_BEFORE_TOKEN
  | STATE_IN_HEADER
  | STATE_IN_KEY
  | STATE_BEFORE_VALUE
  | STATE_IN_VALUE

record 'd parser =
  pstate :: parse_state
  cur_start :: "nat option"
  cur_end :: "nat option"
  cur_header :: "string option"
  cur_key :: "string option"
  pdata :: 'd

type_synonym 'd add_data = "string option \<Rightarrow> string option \<Rightarrow> string option \<Rightarrow> 'd \<Rightarrow> 'd result"

text \<open>
  \<open>copy_string(start, end)\<close>: null for a null pointer or a range of negative
  length, otherwise the bytes from \<open>start\<close> to \<open>end\<close> inclusive, read back as a
  C string.
\<close>

definition copy_string :: "string \<Rightarrow> nat option \<Rightarrow> nat option \<Rightarrow> string option result" where
  "copy_string mem start end =
     (case start of
        None \<Rightarrow> Inr None
      | Some s \<Rightarrow>
        (case end of
           None \<Rightarrow> Inr None
         | Some e \<Rightarrow>
           (let len = int e - int s + 2 in
            if len \<le> 0 then Inr None
            else if s + nat (len - 1) \<le> length mem
                 then Inr (Some (c_str (take (nat (len - 1)) (drop s mem))))
                 else Inl Out_Of_Bounds)))"

definition init_parser :: "'d \<Rightarrow> 'd parser" where
  "init_parser d =
     \<lparr>pstate = STATE_BEFORE_TOKEN, cur_start = None, cur_end = None,
      cur_header = None, cur_key = None, pdata = d\<rparr>"

text \<open>The callback, followed by \<open>cur_key = NULL\<close>.\<close>

definition emit :: "'d add_data \<Rightarrow> string option \<Rightarrow> 'd parser \<Rightarrow> 'd parser result" where
  "emit add value p =
     and_then (add (cur_header p) (cur_key p) value (pdata p))
       (\<lambda>d. Inr (p\<lparr>pdata := d, cur_key := None\<rparr>))"

text \<open>The body of the loop: one character of the file.\<close>

definition parse_char :: "'d add_data \<Rightarrow> string \<Rightarrow> nat \<Rightarrow> char \<Rightarrow> 'd parser \<Rightarrow> 'd parser result" where
  "parse_char add mem pos c p =
     (case pstate p of
        STATE_IN_COMMENT \<Rightarrow>
          if c = LF then Inr (p\<lparr>pstate := STATE_BEFORE_TOKEN\<rparr>) else Inr p
      | STATE_BEFORE_TOKEN \<Rightarrow>
          if c = CHR ''#'' then Inr (p\<lparr>pstate := STATE_IN_COMMENT\<rparr>)
          else if c = CHR '' '' \<or> c = TAB \<or> c = CR \<or> c = LF then Inr p
          else if c = CHR ''['' then
            Inr (p\<lparr>pstate := STATE_IN_HEADER, cur_start := Some pos, cur_end := Some pos\<rparr>)
          else Inr (p\<lparr>pstate := STATE_IN_KEY, cur_start := Some pos, cur_end := Some pos\<rparr>)
      | STATE_IN_HEADER \<Rightarrow>
          if c = CHR '']'' then
            (let p = p\<lparr>pstate := STATE_BEFORE_TOKEN, cur_header := None,
                       cur_start := map_option Suc (cur_start p)\<rparr> in
             case cur_start p of
               None \<Rightarrow> Inl Null_Deref
             | Some s \<Rightarrow>
               (case cur_end p of
                  None \<Rightarrow> Inl Null_Deref
                | Some e \<Rightarrow>
                  if s \<le> e
                  then and_then (copy_string mem (Some s) (Some e)) (\<lambda>h. Inr (p\<lparr>cur_header := h\<rparr>))
                  else Inr p))
          else if c = CR \<or> c = LF then Inr (p\<lparr>pstate := STATE_BEFORE_TOKEN\<rparr>)
          else Inr (p\<lparr>cur_end := Some pos\<rparr>)
      | STATE_IN_KEY \<Rightarrow>
          if c = CHR ''='' then
            and_then (copy_string mem (cur_start p) (cur_end p))
              (\<lambda>k. Inr (p\<lparr>pstate := STATE_BEFORE_VALUE, cur_key := k\<rparr>))
          else if c = CHR '' '' \<or> c = TAB then Inr p
          else if c = CR \<or> c = LF then Inr (p\<lparr>pstate := STATE_BEFORE_TOKEN\<rparr>)
          else Inr (p\<lparr>cur_end := Some pos\<rparr>)
      | STATE_BEFORE_VALUE \<Rightarrow>
          if c = CHR '' '' \<or> c = TAB then Inr p
          else if c = CR \<or> c = LF then emit add None (p\<lparr>pstate := STATE_BEFORE_TOKEN\<rparr>)
          else Inr (p\<lparr>pstate := STATE_IN_VALUE, cur_start := Some pos, cur_end := Some pos\<rparr>)
      | STATE_IN_VALUE \<Rightarrow>
          if c = CHR '' '' \<or> c = TAB then Inr p
          else if c = CR \<or> c = LF then
            and_then (copy_string mem (cur_start p) (cur_end p))
              (\<lambda>v. emit add v (p\<lparr>pstate := STATE_BEFORE_TOKEN\<rparr>))
          else Inr (p\<lparr>cur_end := Some pos\<rparr>))"

text \<open>The loop over the mapped file; the last argument is the part not yet read.\<close>

fun parse_loop :: "'d add_data \<Rightarrow> string \<Rightarrow> nat \<Rightarrow> string \<Rightarrow> 'd parser \<Rightarrow> 'd parser result" where
  "parse_loop add mem pos [] p = Inr p"
| "parse_loop add mem pos (c # cs) p =
     and_then (parse_char add mem pos c p) (parse_loop add mem (Suc pos) cs)"

text \<open>After the loop: a key or value that the end of the file cut off.\<close>

definition parse_finish :: "'d add_data \<Rightarrow> string \<Rightarrow> 'd parser \<Rightarrow> 'd parser result" where
  "parse_finish add mem p =
     (case pstate p of
        STATE_BEFORE_VALUE \<Rightarrow> emit add None p
      | STATE_IN_VALUE \<Rightarrow>
          and_then (copy_string mem (cur_start p) (cur_end p)) (\<lambda>v. emit add v p)
      | _ \<Rightarrow> Inr p)"

definition parse_data :: "'d add_data \<Rightarrow> string \<Rightarrow> 'd \<Rightarrow> 'd result" where
  "parse_data add mem d =
     and_then (parse_loop add mem 0 mem (init_parser d))
       (\<lambda>p. map_result pdata (parse_finish add mem p))"

text \<open>
  \<open>parse_file\<close> on what \<open>fopen\<close> and \<open>mmap\<close> make of the name: no file is
  failure, and so is an empty one, since a mapping of length 0 is refused.
  The result is the return value with the caller's data.
\<close>

definition parse_file :: "string option \<Rightarrow> 'd add_data \<Rightarrow> 'd \<Rightarrow> (bool \<times> 'd) result" where
  "parse_file content add d =
     (case content of
        None \<Rightarrow> Inr (False, d)
      | Some mem \<Rightarrow>
          if mem = [] then Inr (False, d)
          else map_result (\<lambda>d. (True, d)) (parse_data add mem d))"

lemma pdata_init_parser [simp]: "pdata (init_parser d) = d"
  by (simp add: init_parser_def)

section \<open>The parser never leaves the file\<close>

text \<open>
  What holds between two characters: inside a token both positions are set, in
  order and behind the reading position, and once a key has been read it is
  there.
\<close>

definition parser_inv :: "nat \<Rightarrow> 'd parser \<Rightarrow> bool" where
  "parser_inv pos p \<longleftrightarrow>
     (pstate p \<in> {STATE_IN_HEADER, STATE_IN_KEY, STATE_IN_VALUE} \<longrightarrow>
        (\<exists>s e. cur_start p = Some s \<and> cur_end p = Some e \<and> s \<le> e \<and> e < pos)) \<and>
     (pstate p \<in> {STATE_BEFORE_VALUE, STATE_IN_VALUE} \<longrightarrow> (\<exists>k. cur_key p = Some k))"

lemma parser_inv_init [simp]: "parser_inv 0 (init_parser d)"
  by (simp add: parser_inv_def init_parser_def)

lemma copy_string_inside:
  assumes "s \<le> Suc e" and "e < length mem"
  shows "copy_string mem (Some s) (Some e) = Inr (Some (c_str (take (Suc e - s) (drop s mem))))"
proof -
  have "nat (int e - int s + 2 - 1) = Suc e - s" using assms(1) by arith
  then show ?thesis using assms by (simp add: copy_string_def Let_def)
qed

lemma copy_string_token:
  assumes "cur_start p = Some s" "cur_end p = Some e" "s \<le> e" "e < pos" "pos \<le> length mem"
  shows "\<exists>v. copy_string mem (cur_start p) (cur_end p) = Inr (Some v)"
  using copy_string_inside [of s e mem] assms by auto

text \<open>
  The contract between the parser and its callback, as an interface: the
  callback keeps the invariant of its data and does not fault on any key that
  is there.  The lemmas of the client, \<open>parse_file()\<close>, are proved under it.
\<close>

locale data_callback =
  fixes I :: "'d \<Rightarrow> bool" and add :: "'d add_data"
  assumes accepts: "I d \<Longrightarrow> \<exists>d'. add h (Some k) v d = Inr d' \<and> I d'"
begin

lemma emit_ok:
  assumes "I (pdata p)" "cur_key p = Some k"
  shows "\<exists>d'. emit add v p = Inr (p\<lparr>pdata := d', cur_key := None\<rparr>) \<and> I d'"
  using accepts [OF assms(1), of "cur_header p" k v] assms(2) by (auto simp: emit_def)

lemma parse_char_ok:
  assumes inv: "parser_inv pos p" and I: "I (pdata p)"
    and pos: "pos < length mem"
  shows "\<exists>p'. parse_char add mem pos c p = Inr p' \<and> parser_inv (Suc pos) p' \<and> I (pdata p')"
proof (cases "pstate p")
  case STATE_IN_COMMENT
  then show ?thesis using I by (auto simp: parse_char_def parser_inv_def)
next
  case STATE_BEFORE_TOKEN
  then show ?thesis using I by (auto simp: parse_char_def parser_inv_def)
next
  case STATE_IN_HEADER
  then obtain s e where se: "cur_start p = Some s" "cur_end p = Some e" "s \<le> e" "e < pos"
    using inv by (auto simp: parser_inv_def)
  have "\<exists>h. copy_string mem (Some (Suc s)) (Some e) = Inr h"
    using copy_string_inside [of "Suc s" e mem] se pos by auto
  then show ?thesis
    using STATE_IN_HEADER I se by (auto simp: parse_char_def parser_inv_def Let_def)
next
  case STATE_IN_KEY
  then obtain s e where se: "cur_start p = Some s" "cur_end p = Some e" "s \<le> e" "e < pos"
    using inv by (auto simp: parser_inv_def)
  then obtain k where "copy_string mem (cur_start p) (cur_end p) = Inr (Some k)"
    using copy_string_token pos by (metis less_imp_le)
  then show ?thesis
    using STATE_IN_KEY I se by (auto simp: parse_char_def parser_inv_def)
next
  case STATE_BEFORE_VALUE
  then obtain k where k: "cur_key p = Some k" using inv by (auto simp: parser_inv_def)
  from emit_ok [of "p\<lparr>pstate := STATE_BEFORE_TOKEN\<rparr>" k None] k I
  show ?thesis using STATE_BEFORE_VALUE k I
    by (fastforce simp: parse_char_def parser_inv_def)
next
  case STATE_IN_VALUE
  then obtain s e k where se: "cur_start p = Some s" "cur_end p = Some e" "s \<le> e" "e < pos"
    and k: "cur_key p = Some k"
    using inv by (auto simp: parser_inv_def)
  then obtain v where v: "copy_string mem (cur_start p) (cur_end p) = Inr (Some v)"
    using copy_string_token pos by (metis less_imp_le)
  from emit_ok [of "p\<lparr>pstate := STATE_BEFORE_TOKEN\<rparr>" k "Some v"] k I
  show ?thesis using STATE_IN_VALUE se k I v
    by (fastforce simp: parse_char_def parser_inv_def)
qed

lemma parse_loop_ok:
  assumes "parser_inv pos p" "I (pdata p)" "pos + length cs \<le> length mem"
  shows "\<exists>p'. parse_loop add mem pos cs p = Inr p' \<and> parser_inv (pos + length cs) p' \<and> I (pdata p')"
  using assms
proof (induction cs arbitrary: pos p)
  case Nil
  then show ?case by simp
next
  case (Cons c cs)
  then obtain q where q: "parse_char add mem pos c p = Inr q" "parser_inv (Suc pos) q" "I (pdata q)"
    using parse_char_ok [of pos p mem c] by auto
  with Cons.IH [of "Suc pos" q] Cons.prems show ?case by auto
qed

lemma parse_finish_ok:
  assumes "parser_inv pos p" "I (pdata p)" "pos \<le> length mem"
  shows "\<exists>p'. parse_finish add mem p = Inr p' \<and> I (pdata p')"
proof (cases "pstate p")
  case STATE_BEFORE_VALUE
  then obtain k where "cur_key p = Some k" using assms(1) by (auto simp: parser_inv_def)
  with emit_ok [OF assms(2) this, of None] STATE_BEFORE_VALUE show ?thesis
    by (auto simp: parse_finish_def)
next
  case STATE_IN_VALUE
  then obtain s e k where se: "cur_start p = Some s" "cur_end p = Some e" "s \<le> e" "e < pos"
    and k: "cur_key p = Some k"
    using assms(1) by (auto simp: parser_inv_def)
  then obtain v where "copy_string mem (cur_start p) (cur_end p) = Inr (Some v)"
    using copy_string_token assms(3) by metis
  with emit_ok [OF assms(2) k, of "Some v"] STATE_IN_VALUE show ?thesis
    by (auto simp: parse_finish_def)
qed (use assms(2) in \<open>auto simp: parse_finish_def\<close>)

lemma parse_data_ok:
  assumes "I d"
  shows "\<exists>d'. parse_data add mem d = Inr d' \<and> I d'"
proof -
  obtain p where p: "parse_loop add mem 0 mem (init_parser d) = Inr p"
    "parser_inv (length mem) p" "I (pdata p)"
    using parse_loop_ok [of 0 "init_parser d" mem mem] assms by auto
  from parse_finish_ok [OF p(2,3), of mem] p(1) show ?thesis
    by (auto simp: parse_data_def)
qed

lemma parse_file_ok:
  assumes "I d"
  shows "\<exists>b d'. parse_file content add d = Inr (b, d') \<and> I d'"
  using parse_data_ok [OF assms] assms
  by (cases content) (fastforce simp: parse_file_def)+

end

section \<open>What the parser reads out of a file written line by line\<close>

text \<open>
  A reference description of the format: a file is a list of lines, a line is a
  comment, a header, a key with or without a value, or blank.
\<close>

datatype line =
    Pair string string
  | Key_Only string
  | Header string
  | Comment string
  | Blank

fun render_line :: "line \<Rightarrow> string" where
  "render_line (Pair k v) = k @ CHR ''='' # v @ [LF]"
| "render_line (Key_Only k) = k @ [CHR ''='', LF]"
| "render_line (Header h) = CHR ''['' # h @ [CHR '']'', LF]"
| "render_line (Comment t) = CHR ''#'' # t @ [LF]"
| "render_line Blank = [LF]"

definition render_lines :: "line list \<Rightarrow> string" where
  "render_lines ls = concat (map render_line ls)"

definition blank :: "char \<Rightarrow> bool" where
  "blank c \<longleftrightarrow> c = CHR '' '' \<or> c = TAB"

definition value_ok :: "string \<Rightarrow> bool" where
  "value_ok v \<longleftrightarrow> v \<noteq> [] \<and> \<not> blank (hd v) \<and> \<not> blank (last v) \<and> set v \<inter> {CR, LF, NUL} = {}"

definition key_ok :: "string \<Rightarrow> bool" where
  "key_ok k \<longleftrightarrow> value_ok k \<and> CHR ''='' \<notin> set k \<and> hd k \<noteq> CHR ''#'' \<and> hd k \<noteq> CHR ''[''"

fun line_ok :: "line \<Rightarrow> bool" where
  "line_ok (Pair k v) = (key_ok k \<and> value_ok v)"
| "line_ok (Key_Only k) = key_ok k"
| "line_ok (Header h) = (h \<noteq> [] \<and> set h \<inter> {CHR '']'', CR, LF, NUL} = {})"
| "line_ok (Comment t) = (LF \<notin> set t)"
| "line_ok Blank = True"

text \<open>What the callback should see: the current header and each key with its value.\<close>

fun run_lines :: "'d add_data \<Rightarrow> string option \<Rightarrow> line list \<Rightarrow> 'd \<Rightarrow> (string option \<times> 'd) result" where
  "run_lines add h [] d = Inr (h, d)"
| "run_lines add h (Pair k v # ls) d =
     and_then (add h (Some k) (Some v) d) (run_lines add h ls)"
| "run_lines add h (Key_Only k # ls) d = and_then (add h (Some k) None d) (run_lines add h ls)"
| "run_lines add h (Header g # ls) d = run_lines add (Some g) ls d"
| "run_lines add h (Comment t # ls) d = run_lines add h ls d"
| "run_lines add h (Blank # ls) d = run_lines add h ls d"

lemma parse_loop_append:
  "parse_loop add mem pos (xs @ ys) p =
     and_then (parse_loop add mem pos xs p) (parse_loop add mem (pos + length xs) ys)"
proof (induction xs arbitrary: pos p)
  case Nil
  then show ?case by simp
next
  case (Cons x xs)
  then show ?case by (cases "parse_char add mem pos x p") simp_all
qed

lemma parse_loop_trans:
  "parse_loop add mem pos xs p = Inr q \<Longrightarrow> parse_loop add mem (pos + length xs) ys q = r \<Longrightarrow>
     parse_loop add mem pos (xs @ ys) p = r"
  by (simp add: parse_loop_append)

lemma parse_loop_single:
  "parse_char add mem pos c p = Inr q \<Longrightarrow> parse_loop add mem pos [c] p = Inr q"
  by simp

lemma cur_end_same: "p\<lparr>cur_end := cur_end p\<rparr> = p"
  by (cases p) simp

lemma parse_char_token:
  assumes "pstate p = STATE_IN_VALUE \<or> pstate p = STATE_IN_KEY \<and> c \<noteq> CHR ''=''"
    and "c \<noteq> CR" and "c \<noteq> LF"
  shows "parse_char add mem pos c p = Inr (p\<lparr>cur_end := if blank c then cur_end p else Some pos\<rparr>)"
proof (cases "blank c")
  case True
  have "parse_char add mem pos c p = Inr p"
    using assms(1)
  proof
    assume "pstate p = STATE_IN_VALUE"
    with True show ?thesis by (simp add: parse_char_def blank_def)
  next
    assume "pstate p = STATE_IN_KEY \<and> c \<noteq> CHR ''=''"
    with True show ?thesis by (simp add: parse_char_def blank_def)
  qed
  with True show ?thesis by (simp only: if_True cur_end_same)
next
  case False
  show ?thesis
    using assms(1)
  proof
    assume "pstate p = STATE_IN_VALUE"
    with False assms(2,3) show ?thesis by (simp add: parse_char_def blank_def)
  next
    assume "pstate p = STATE_IN_KEY \<and> c \<noteq> CHR ''=''"
    with False assms(2,3) show ?thesis by (simp add: parse_char_def blank_def)
  qed
qed

text \<open>Scanning the inside of a key or a value only moves \<open>cur_end\<close>.\<close>

lemma scan_token:
  assumes "pstate p = STATE_IN_VALUE \<or> pstate p = STATE_IN_KEY \<and> CHR ''='' \<notin> set cs"
    and "set cs \<inter> {CR, LF} = {}"
  shows "\<exists>e. parse_loop add mem pos cs p = Inr (p\<lparr>cur_end := e\<rparr>)"
  using assms
proof (induction cs arbitrary: pos p)
  case Nil
  have "parse_loop add mem pos [] p = Inr (p\<lparr>cur_end := cur_end p\<rparr>)" by (simp add: cur_end_same)
  then show ?case ..
next
  case (Cons c cs)
  let ?p = "p\<lparr>cur_end := if blank c then cur_end p else Some pos\<rparr>"
  have one: "parse_char add mem pos c p = Inr ?p"
    using Cons.prems by (intro parse_char_token) auto
  have "\<exists>e. parse_loop add mem (Suc pos) cs ?p = Inr (?p\<lparr>cur_end := e\<rparr>)"
    using Cons.prems by (intro Cons.IH) auto
  then obtain e where "parse_loop add mem (Suc pos) cs ?p = Inr (?p\<lparr>cur_end := e\<rparr>)" ..
  with one have "parse_loop add mem pos (c # cs) p = Inr (p\<lparr>cur_end := e\<rparr>)"
    by (simp del: if_split)
  then show ?case ..
qed

lemma scan_token_end:
  assumes "pstate p = STATE_IN_VALUE \<or> pstate p = STATE_IN_KEY \<and> CHR ''='' \<notin> set cs"
    and "set cs \<inter> {CR, LF} = {}" and "cs \<noteq> []" and "\<not> blank (last cs)"
  shows "parse_loop add mem pos cs p = Inr (p\<lparr>cur_end := Some (pos + length cs - 1)\<rparr>)"
proof -
  obtain bs c where cs: "cs = bs @ [c]" using assms(3) by (cases cs rule: rev_cases) auto
  obtain e where "parse_loop add mem pos bs p = Inr (p\<lparr>cur_end := e\<rparr>)"
    using scan_token [of p bs add mem pos] assms cs by auto
  moreover have "parse_char add mem (pos + length bs) c (p\<lparr>cur_end := e\<rparr>) =
      Inr (p\<lparr>cur_end := Some (pos + length bs)\<rparr>)"
    using assms cs by (subst parse_char_token) auto
  ultimately show ?thesis using cs by (simp add: parse_loop_append)
qed

lemma copy_string_slice:
  assumes "mem = pre @ w @ post" and "w \<noteq> []" and "NUL \<notin> set w"
  shows "copy_string mem (Some (length pre)) (Some (length pre + length w - 1)) = Inr (Some w)"
proof -
  have "Suc (length pre + length w - 1) - length pre = length w"
    using assms(2) by (cases w) auto
  moreover have "length pre \<le> Suc (length pre + length w - 1)" by simp
  moreover have "length pre + length w - 1 < length mem"
    using assms(1,2) by (cases w) auto
  ultimately show ?thesis
    using assms by (subst copy_string_inside) (auto simp: c_str_id)
qed

text \<open>From the start of a line, a key up to and including its \<open>=\<close>.\<close>

lemma scan_key:
  assumes k: "key_ok k" and mem: "mem = pre @ k @ CHR ''='' # post"
    and p: "pstate p = STATE_BEFORE_TOKEN"
  shows "parse_loop add mem (length pre) (k @ [CHR ''='']) p =
    Inr (p\<lparr>pstate := STATE_BEFORE_VALUE, cur_start := Some (length pre),
           cur_end := Some (length pre + length k - 1), cur_key := Some k\<rparr>)"
proof -
  obtain c cs where kc: "k = c # cs" using k by (cases k) (auto simp: key_ok_def value_ok_def)
  let ?p = "p\<lparr>pstate := STATE_IN_KEY, cur_start := Some (length pre), cur_end := Some (length pre)\<rparr>"
  have first: "parse_char add mem (length pre) c p = Inr ?p"
    using k p kc by (auto simp: key_ok_def value_ok_def parse_char_def blank_def)
  have rest: "parse_loop add mem (Suc (length pre)) cs ?p =
      Inr (?p\<lparr>cur_end := Some (length pre + length k - 1)\<rparr>)"
  proof (cases "cs = []")
    case True
    then show ?thesis using kc by simp
  next
    case False
    then show ?thesis using k kc
      by (subst scan_token_end) (auto simp: key_ok_def value_ok_def)
  qed
  have "copy_string mem (Some (length pre)) (Some (length pre + length k - 1)) = Inr (Some k)"
    using k mem by (intro copy_string_slice [of _ _ _ "CHR ''='' # post"])
      (auto simp: key_ok_def value_ok_def)
  then have "parse_char add mem (length pre + length k) (CHR ''='')
       (?p\<lparr>cur_end := Some (length pre + length k - 1)\<rparr>) =
     Inr (p\<lparr>pstate := STATE_BEFORE_VALUE, cur_start := Some (length pre),
           cur_end := Some (length pre + length k - 1), cur_key := Some k\<rparr>)"
    by (simp add: parse_char_def)
  then show ?thesis using first rest kc by (simp add: parse_loop_append)
qed

text \<open>A value up to its last character, after the key's \<open>=\<close>.\<close>

lemma scan_value:
  assumes v: "value_ok v" and p: "pstate p = STATE_BEFORE_VALUE"
  shows "parse_loop add mem pos v p =
    Inr (p\<lparr>pstate := STATE_IN_VALUE, cur_start := Some pos, cur_end := Some (pos + length v - 1)\<rparr>)"
proof -
  obtain c cs where vc: "v = c # cs" using v by (cases v) (auto simp: value_ok_def)
  let ?p = "p\<lparr>pstate := STATE_IN_VALUE, cur_start := Some pos, cur_end := Some pos\<rparr>"
  have first: "parse_char add mem pos c p = Inr ?p"
    using v p vc by (auto simp: value_ok_def parse_char_def blank_def)
  have "parse_loop add mem (Suc pos) cs ?p = Inr (?p\<lparr>cur_end := Some (pos + length v - 1)\<rparr>)"
  proof (cases "cs = []")
    case True
    then show ?thesis using vc by simp
  next
    case False
    then show ?thesis using v vc by (subst scan_token_end) (auto simp: value_ok_def)
  qed
  with first vc show ?thesis by simp
qed

text \<open>At the start of a line: the state, the header and the data; the rest does not matter.\<close>

definition at_line :: "string option \<Rightarrow> 'd \<Rightarrow> 'd parser \<Rightarrow> bool" where
  "at_line h d p \<longleftrightarrow> pstate p = STATE_BEFORE_TOKEN \<and> cur_header p = h \<and> pdata p = d"

lemma scan_pair_emits:
  assumes ok: "key_ok k" "value_ok v" and mem: "mem = pre @ render_line (Pair k v) @ post"
    and p: "at_line h d p"
  shows "\<exists>q. at_line h d q \<and> cur_key q = Some k \<and>
    parse_loop add mem (length pre) (render_line (Pair k v)) p = emit add (Some v) q"
proof -
  let ?pos = "length pre + length k + 1"
  have key: "parse_loop add mem (length pre) (k @ [CHR ''='']) p =
    Inr (p\<lparr>pstate := STATE_BEFORE_VALUE, cur_start := Some (length pre),
           cur_end := Some (length pre + length k - 1), cur_key := Some k\<rparr>)" (is "_ = Inr ?q")
    using ok p mem by (intro scan_key [of _ _ _ "v @ LF # post"]) (auto simp: at_line_def)
  have val: "parse_loop add mem ?pos v ?q =
    Inr (?q\<lparr>pstate := STATE_IN_VALUE, cur_start := Some ?pos, cur_end := Some (?pos + length v - 1)\<rparr>)"
    (is "_ = Inr ?r") using ok by (intro scan_value) auto
  have "copy_string mem (Some (length (pre @ k @ [CHR ''='']))) (Some (length (pre @ k @ [CHR ''='']) + length v - 1)) = Inr (Some v)"
    using ok mem by (intro copy_string_slice [of _ _ _ "LF # post"]) (auto simp: value_ok_def)
  then have "copy_string mem (Some ?pos) (Some (?pos + length v - 1)) = Inr (Some v)" by simp
  then have lf: "parse_loop add mem (?pos + length v) [LF] ?r = emit add (Some v) (?r\<lparr>pstate := STATE_BEFORE_TOKEN\<rparr>)"
    by (cases "emit add (Some v) (?r\<lparr>pstate := STATE_BEFORE_TOKEN\<rparr>)") (simp_all add: parse_char_def)
  have "parse_loop add mem (length pre) ((k @ [CHR ''='']) @ v @ [LF]) p =
      emit add (Some v) (?r\<lparr>pstate := STATE_BEFORE_TOKEN\<rparr>)"
  proof (rule parse_loop_trans [OF key])
    have pos: "length pre + length (k @ [CHR ''='']) = ?pos" by simp
    show "parse_loop add mem (length pre + length (k @ [CHR ''=''])) (v @ [LF]) ?q =
      emit add (Some v) (?r\<lparr>pstate := STATE_BEFORE_TOKEN\<rparr>)"
      unfolding pos by (rule parse_loop_trans [OF val lf])
  qed
  then show ?thesis using p by (intro exI [of _ "?r\<lparr>pstate := STATE_BEFORE_TOKEN\<rparr>"]) (simp add: at_line_def)
qed

lemma scan_pair:
  assumes "key_ok k" "value_ok v" and "mem = pre @ render_line (Pair k v) @ post"
    and "at_line h d p" and "add h (Some k) (Some v) d = Inr d'"
  shows "\<exists>p'. parse_loop add mem (length pre) (render_line (Pair k v)) p = Inr p' \<and> at_line h d' p'"
  using scan_pair_emits [OF assms(1-4), of add] assms(5) by (auto simp: emit_def at_line_def)

lemma scan_pair_fault:
  assumes "key_ok k" "value_ok v" and "mem = pre @ render_line (Pair k v) @ post"
    and "at_line h d p" and "add h (Some k) (Some v) d = Inl e"
  shows "parse_loop add mem (length pre) (render_line (Pair k v)) p = Inl e"
  using scan_pair_emits [OF assms(1-4), of add] assms(5) by (auto simp: emit_def at_line_def)

lemma scan_key_only:
  assumes ok: "key_ok k" and mem: "mem = pre @ render_line (Key_Only k) @ post"
    and p: "at_line h d p" and d': "add h (Some k) None d = Inr d'"
  shows "\<exists>p'. parse_loop add mem (length pre) (render_line (Key_Only k)) p = Inr p' \<and> at_line h d' p'"
proof -
  have key: "parse_loop add mem (length pre) (k @ [CHR ''='']) p =
    Inr (p\<lparr>pstate := STATE_BEFORE_VALUE, cur_start := Some (length pre),
           cur_end := Some (length pre + length k - 1), cur_key := Some k\<rparr>)" (is "_ = Inr ?q")
    using ok p mem by (intro scan_key [of _ _ _ "LF # post"]) (auto simp: at_line_def)
  have lf: "parse_char add mem (length pre + length (k @ [CHR ''=''])) LF ?q =
      Inr (?q\<lparr>pstate := STATE_BEFORE_TOKEN, pdata := d', cur_key := None\<rparr>)"
    using p d' by (simp add: parse_char_def emit_def at_line_def)
  have "parse_loop add mem (length pre) ((k @ [CHR ''='']) @ [LF]) p =
      Inr (?q\<lparr>pstate := STATE_BEFORE_TOKEN, pdata := d', cur_key := None\<rparr>)"
    by (rule parse_loop_trans [OF key parse_loop_single [OF lf]])
  then show ?thesis using p by (auto simp: at_line_def)
qed

lemma scan_comment:
  assumes "LF \<notin> set t" and "pstate p = STATE_IN_COMMENT"
  shows "parse_loop add mem pos (t @ [LF]) p = Inr (p\<lparr>pstate := STATE_BEFORE_TOKEN\<rparr>)"
  using assms by (induction t arbitrary: pos) (auto simp: parse_char_def)

lemma scan_header_name:
  assumes "set cs \<inter> {CHR '']'', CR, LF} = {}" and "pstate p = STATE_IN_HEADER"
    and "cur_end p = Some (pos - 1)" and "0 < pos"
  shows "parse_loop add mem pos cs p = Inr (p\<lparr>cur_end := Some (pos + length cs - 1)\<rparr>)"
  using assms
proof (induction cs arbitrary: pos p)
  case Nil
  then show ?case by simp
next
  case (Cons c cs)
  have "c \<noteq> CHR '']''" "c \<noteq> CR" "c \<noteq> LF" using Cons.prems(1) by auto
  then have "parse_char add mem pos c p = Inr (p\<lparr>cur_end := Some pos\<rparr>)"
    using Cons.prems(2) by (simp add: parse_char_def)
  then show ?case using Cons.IH [of "p\<lparr>cur_end := Some pos\<rparr>" "Suc pos"] Cons.prems by simp
qed

lemma scan_header:
  assumes ok: "line_ok (Header g)" and mem: "mem = pre @ render_line (Header g) @ post"
    and p: "at_line h d p"
  shows "\<exists>p'. parse_loop add mem (length pre) (render_line (Header g)) p = Inr p' \<and> at_line (Some g) d p'"
proof -
  let ?p = "p\<lparr>pstate := STATE_IN_HEADER, cur_start := Some (length pre), cur_end := Some (length pre)\<rparr>"
  have open_: "parse_char add mem (length pre) (CHR ''['') p = Inr ?p"
    using p by (simp add: parse_char_def at_line_def)
  have name: "parse_loop add mem (Suc (length pre)) g ?p =
      Inr (?p\<lparr>cur_end := Some (length pre + length g)\<rparr>)"
    using ok by (subst scan_header_name) auto
  have "copy_string mem (Some (length (pre @ ''[''))) (Some (length (pre @ ''['') + length g - 1)) = Inr (Some g)"
    using ok mem by (intro copy_string_slice [of _ _ _ "'']'' @ LF # post"]) auto
  then have close_: "parse_char add mem (Suc (length pre) + length g) (CHR '']'')
       (?p\<lparr>cur_end := Some (length pre + length g)\<rparr>) =
     Inr (p\<lparr>pstate := STATE_BEFORE_TOKEN, cur_start := Some (Suc (length pre)),
            cur_end := Some (length pre + length g), cur_header := Some g\<rparr>)" (is "_ = Inr ?q")
    using ok by (cases g) (simp_all add: parse_char_def Let_def)
  have lf: "parse_char add mem pos LF ?q = Inr ?q" for pos
    by (simp add: parse_char_def)
  have "parse_loop add mem (Suc (length pre)) (g @ [CHR '']'', LF]) ?p = Inr ?q"
    by (rule parse_loop_trans [OF name]) (simp only: parse_loop.simps close_ lf and_then_simps)
  with open_ have "parse_loop add mem (length pre) (render_line (Header g)) p = Inr ?q" by simp
  then show ?thesis using p by (auto simp: at_line_def)
qed

lemma scan_line:
  assumes ok: "line_ok l" and mem: "mem = pre @ render_line l @ post" and p: "at_line h d p"
    and run: "run_lines add h [l] d = Inr (h', d')"
  shows "\<exists>p'. parse_loop add mem (length pre) (render_line l) p = Inr p' \<and> at_line h' d' p'"
proof (cases l)
  case (Pair k v)
  then show ?thesis using scan_pair [of k v mem pre post h d p add d'] assms by auto
next
  case (Key_Only k)
  then show ?thesis using scan_key_only [of k mem pre post h d p add d'] assms by auto
next
  case (Header g)
  then show ?thesis using scan_header [of g mem pre post h d p add] assms by auto
next
  case (Comment t)
  have "parse_char add mem (length pre) (CHR ''#'') p = Inr (p\<lparr>pstate := STATE_IN_COMMENT\<rparr>)"
    using p by (simp add: parse_char_def at_line_def)
  then show ?thesis
    using scan_comment [of t "p\<lparr>pstate := STATE_IN_COMMENT\<rparr>" add mem "Suc (length pre)"] Comment assms
    by (auto simp: at_line_def)
next
  case Blank
  then show ?thesis using assms by (auto simp: parse_char_def at_line_def)
qed

lemma run_lines_Cons:
  "run_lines add h (l # ls) d = and_then (run_lines add h [l] d) (\<lambda>(h', d'). run_lines add h' ls d')"
  by (cases l) (auto simp: and_then_def split: sum.splits)

lemma scan_lines:
  assumes "\<forall>l \<in> set ls. line_ok l" and "mem = pre @ render_lines ls @ post" and "at_line h d p"
    and "run_lines add h ls d = Inr (h', d')"
  shows "\<exists>p'. parse_loop add mem (length pre) (render_lines ls) p = Inr p' \<and> at_line h' d' p'"
  using assms
proof (induction ls arbitrary: pre h d p)
  case Nil
  then show ?case by (auto simp: render_lines_def)
next
  case (Cons l ls)
  obtain h1 d1 where one: "run_lines add h [l] d = Inr (h1, d1)"
    and rest: "run_lines add h1 ls d1 = Inr (h', d')"
    using Cons.prems(4) by (subst (asm) run_lines_Cons) auto
  obtain p1 where p1: "parse_loop add mem (length pre) (render_line l) p = Inr p1" "at_line h1 d1 p1"
    using scan_line [of l mem pre "render_lines ls @ post" h d p add h1 d1] Cons.prems one
    by (auto simp: render_lines_def)
  have "\<exists>p'. parse_loop add mem (length (pre @ render_line l)) (render_lines ls) p1 = Inr p' \<and> at_line h' d' p'"
    using Cons.prems p1 rest by (intro Cons.IH) (auto simp: render_lines_def)
  then show ?case using p1(1) by (auto simp: render_lines_def parse_loop_append)
qed

lemma parse_data_render:
  assumes "\<forall>l \<in> set ls. line_ok l" and "run_lines add None ls d = Inr (h, d')"
  shows "parse_data add (render_lines ls) d = Inr d'"
proof -
  have "\<exists>p'. parse_loop add (render_lines ls) (length ([] :: string)) (render_lines ls) (init_parser d) = Inr p' \<and> at_line h d' p'"
    using assms by (intro scan_lines [where post = "[]"]) (auto simp: at_line_def init_parser_def)
  then show ?thesis
    by (auto simp: parse_data_def parse_finish_def at_line_def)
qed

text \<open>A key whose callback faults ends the parse with that fault.\<close>

lemma parse_data_fault:
  assumes lines: "\<forall>l \<in> set ls. line_ok l" and run: "run_lines add None ls d = Inr (h, d')"
    and ok: "key_ok k" "value_ok v" and fault: "add h (Some k) (Some v) d' = Inl e"
  shows "parse_data add (render_lines (ls @ Pair k v # rest)) d = Inl e"
proof -
  let ?mem = "render_lines (ls @ Pair k v # rest)"
  have mem: "?mem = [] @ render_lines ls @ render_line (Pair k v) @ render_lines rest"
    by (simp add: render_lines_def)
  have "at_line None d (init_parser d)" by (simp add: at_line_def init_parser_def)
  from scan_lines [OF lines mem this run] obtain p where
    p: "parse_loop add ?mem 0 (render_lines ls) (init_parser d) = Inr p" "at_line h d' p" by auto
  have mem': "?mem = render_lines ls @ render_line (Pair k v) @ render_lines rest" using mem by simp
  have "parse_loop add ?mem (length (render_lines ls)) (render_line (Pair k v)) p = Inl e"
    by (rule scan_pair_fault [where add = add and h = h and d = d', OF ok mem' p(2) fault])
  with p(1) have "parse_loop add ?mem 0 ?mem (init_parser d) = Inl e"
    by (subst (2) mem') (simp add: parse_loop_append del: render_line.simps)
  then show ?thesis by (simp add: parse_data_def)
qed

lemma parse_file_render:
  assumes "\<forall>l \<in> set ls. line_ok l" and "ls \<noteq> []" and "run_lines add None ls d = Inr (h, d')"
  shows "parse_file (Some (render_lines ls)) add d = Inr (True, d')"
proof -
  have "render_lines ls \<noteq> []"
    using assms(2) by (cases ls; cases "hd ls") (auto simp: render_lines_def)
  then show ?thesis using parse_data_render [OF assms(1,3)] by (simp add: parse_file_def)
qed

section \<open>What the callback keeps, the parse keeps\<close>

text \<open>
  The same for a callback that may fault: whatever holds of the data through every call
  that returns, holds after a parse that returns.
\<close>

locale data_invariant =
  fixes P :: "'d \<Rightarrow> bool" and add :: "'d add_data"
  assumes kept: "add h k v d = Inr d' \<Longrightarrow> P d \<Longrightarrow> P d'"
begin

lemma emit_kept: "emit add v p = Inr p' \<Longrightarrow> P (pdata p) \<Longrightarrow> P (pdata p')"
  by (auto simp: emit_def dest: kept)

lemma parse_char_kept: "parse_char add mem pos c p = Inr p' \<Longrightarrow> P (pdata p) \<Longrightarrow> P (pdata p')"
  by (cases "pstate p")
    (auto simp: parse_char_def Let_def split: if_splits option.splits dest!: emit_kept)

lemma parse_loop_kept: "parse_loop add mem pos cs p = Inr p' \<Longrightarrow> P (pdata p) \<Longrightarrow> P (pdata p')"
  by (induction cs arbitrary: pos p) (auto dest: parse_char_kept)

lemma parse_file_kept:
  assumes "parse_file content add d = Inr (ok, d')" and "P d"
  shows "P d'"
proof (cases "content = None \<or> content = Some []")
  case True
  then show ?thesis using assms by (auto simp: parse_file_def)
next
  case False
  then obtain mem where "parse_data add mem d = Inr d'"
    using assms(1) by (auto simp: parse_file_def split: if_splits)
  then obtain p q where p: "parse_loop add mem 0 mem (init_parser d) = Inr p"
      and q: "parse_finish add mem p = Inr q" "pdata q = d'"
    unfolding parse_data_def and_then_eq_Inr map_result_eq_Inr by metis
  have "P (pdata p)" using parse_loop_kept [OF p] assms(2) by simp
  then show ?thesis
    using q by (cases "pstate p") (auto simp: parse_finish_def dest!: emit_kept)
qed

end

end
