(* ===== verification/Songs.thy ===== *)
theory Songs
  imports Parse_File Complex_Main
begin

text \<open>
  The data the components share: the build options, the configuration, songs
  and their statistics, the database (\<open>src/include/global.h\<close>), the part of the
  operating system's file interface the program calls, and the helpers of
  \<open>src/src/global.c\<close> that work on song file names: \<open>get_song_type()\<close>,
  \<open>build_fullfilename()\<close> and \<open>create_path()\<close>.

  A \<open>song_info_t *\<close> into the database is the song's index.  \<open>song_count\<close> is the
  number of elements in use, the length of the list \<open>songs\<close>;
  \<open>song_count_allocated\<close> is kept as the code keeps it.  A C \<open>double\<close> is a real
  number: rounding is not modelled.
\<close>

section \<open>Build options and configuration\<close>

record build =
  EMPEG :: bool
  EMPEG_DSP :: bool
  NO_NCURSES :: bool
  USE_MAGIC :: bool
  NO_VORBIS_COMMENT :: bool
  NO_ID3LIB :: bool

datatype basename_type = BASENAME_SONG | BASENAME_META | BASENAME_STAT

record config =
  db_paths :: "basename_type \<Rightarrow> string option"
  db_masterlist_path :: "string option"
  db_readonly :: int
  db_saveinfo :: int
  db_overwriteinfo :: int
  db_manual_rating_bias :: real
  global_state_path :: "string option"
  input_fifo_path :: "string option"
  playlist_manager_playlist_size :: int
  playlist_manager_pastlist_size :: int
  min_save_volume :: int
  max_save_volume :: int

section \<open>Songs\<close>

datatype song_type = TYPE_UNKNOWN | TYPE_OGG | TYPE_MP3 | TYPE_FLAC

datatype meta_type = TYPE_META | TYPE_STAT

text \<open>A key with its values; a value may be a null pointer.\<close>

record meta_key =
  mkey :: string
  mvalues :: "string option list"

record stat_info =
  play_count :: int
  skip_count :: int
  repeat_counter :: int
  manual_rating :: int
  stat_changed :: bool

text \<open>
  \<open>meta_key_count\<close> is \<open>-1\<close> until the meta data is loaded, \<open>play_length\<close> is \<open>-1\<close>
  until it is known, and \<open>song_type\<close> is \<open>None\<close> where the code stores \<open>-1\<close>.
\<close>

record song_info =
  basename :: "basename_type \<Rightarrow> string"
  filename :: string
  meta_keys :: "meta_key list"
  meta_key_count :: int
  stat :: stat_info
  play_length :: int
  song_type :: "song_type option"

record database_info =
  songs :: "song_info list"
  song_count_allocated :: int
  stats_loaded :: bool
  db_sum :: real
  db_sqr_sum :: real
  play_sum :: int
  play_sqr_sum :: int
  skip_sum :: int
  skip_sqr_sum :: int

definition song_count :: "database_info \<Rightarrow> int" where
  "song_count db = int (length (songs db))"

section \<open>Files\<close>

text \<open>
  The files by name, the directories, and which names the process may create
  or write.  Names are compared as they are spelled.
\<close>

record filesys =
  files :: "string \<Rightarrow> string option"
  is_dir :: "string \<Rightarrow> bool"
  can_write :: "string \<Rightarrow> bool"

text \<open>\<open>strrchr(s, '/')\<close>, as an index.\<close>

fun strrchr_slash :: "string \<Rightarrow> nat option" where
  "strrchr_slash [] = None"
| "strrchr_slash (c # cs) =
     (case strrchr_slash cs of
        Some i \<Rightarrow> Some (Suc i)
      | None \<Rightarrow> (if c = CHR ''/'' then Some 0 else None))"

definition parent_exists :: "filesys \<Rightarrow> string \<Rightarrow> bool" where
  "parent_exists fs p =
     (case strrchr_slash p of None \<Rightarrow> True | Some i \<Rightarrow> i = 0 \<or> is_dir fs (take i p))"

definition path_exists :: "filesys \<Rightarrow> string \<Rightarrow> bool" where
  "path_exists fs p \<longleftrightarrow> is_dir fs p \<or> files fs p \<noteq> None"

text \<open>\<open>fopen(p, "w")\<close>, the text written, and \<open>fclose\<close>; failing to open is \<open>squash_error\<close>.\<close>

definition write_file :: "string \<Rightarrow> string \<Rightarrow> filesys \<Rightarrow> filesys result" where
  "write_file p text fs =
     (if can_write fs p \<and> parent_exists fs p \<and> \<not> is_dir fs p
      then Inr (fs\<lparr>files := (files fs)(p \<mapsto> text)\<rparr>)
      else Inl Squash_Error)"

text \<open>
  \<open>mkdir(d)\<close> as \<open>create_path\<close> uses it: an existing name (\<open>EEXIST\<close>) is accepted,
  any other failure is \<open>squash_error\<close>.
\<close>

definition mkdir_or_exists :: "string \<Rightarrow> filesys \<Rightarrow> filesys result" where
  "mkdir_or_exists d fs =
     (if path_exists fs d then Inr fs
      else if can_write fs d \<and> parent_exists fs d
           then Inr (fs\<lparr>is_dir := (is_dir fs)(d := True)\<rparr>)
           else Inl Squash_Error)"

text \<open>
  \<open>create_path(dir)\<close>: every prefix that ends before a slash (but not the empty
  one), then the whole name.  The argument \<open>pre\<close> is the part the cursor has
  passed.
\<close>

fun create_prefixes :: "string \<Rightarrow> string \<Rightarrow> filesys \<Rightarrow> filesys result" where
  "create_prefixes pre [] fs = Inr fs"
| "create_prefixes pre (c # cs) fs =
     (if c = CHR ''/'' \<and> pre \<noteq> []
      then and_then (mkdir_or_exists pre fs) (create_prefixes (pre @ [c]) cs)
      else create_prefixes (pre @ [c]) cs fs)"

definition create_path :: "string \<Rightarrow> filesys \<Rightarrow> filesys result" where
  "create_path dir fs = and_then (create_prefixes [] dir fs) (mkdir_or_exists dir)"

section \<open>File names and types of songs\<close>

definition extension :: "meta_type \<Rightarrow> string" where
  "extension t = (case t of TYPE_META \<Rightarrow> ''info'' | TYPE_STAT \<Rightarrow> ''stat'')"

text \<open>\<open>snprintf(buf, length, ...)\<close> keeps at most \<open>length - 1\<close> characters.\<close>

definition build_fullfilename :: "song_info \<Rightarrow> basename_type \<Rightarrow> string" where
  "build_fullfilename song type =
     (let length1 = length (basename song type) + length (filename song) + 2 in
      if type \<noteq> BASENAME_SONG then
        (let ext = (if type = BASENAME_META then TYPE_META else TYPE_STAT);
             length2 = length1 + length (extension ext) + 1 in
         take (length2 - 1)
           (basename song type @ ''/'' @ filename song @ ''.'' @ extension ext))
      else take (length1 - 1) (basename song type @ ''/'' @ filename song))"

text \<open>
  The comparison of the end of a name with a suffix,
  \<open>strncasecmp(name + len - n, suffix, n)\<close>: with a name shorter than the suffix
  the pointer lies before the string.
\<close>

definition suffix_matches :: "string \<Rightarrow> string \<Rightarrow> bool result" where
  "suffix_matches name suffix =
     (if length name < length suffix then Inl Out_Of_Bounds
      else Inr (strncasecmp0 (drop (length name - length suffix) name) suffix (length suffix)))"

text \<open>The magic bytes, read when \<open>USE_MAGIC\<close> is built in and the name said nothing.\<close>

definition magic_type :: "string \<Rightarrow> song_type" where
  "magic_type content =
     (let buf = take 4 (content @ replicate 4 NUL) in
      if (buf ! 0 = CHR 0xFF \<and> and (of_char (buf ! 1) :: nat) 0xE0 = 0xE0) \<or>
         (buf ! 0 = CHR ''I'' \<and> buf ! 1 = CHR ''D'' \<and> buf ! 2 = CHR ''3'' \<and> buf ! 3 = CHR 0x03)
      then TYPE_MP3
      else if buf = ''OggS'' then TYPE_OGG
      else if buf = ''fLaC'' then TYPE_FLAC
      else TYPE_UNKNOWN)"

definition get_song_type :: "build \<Rightarrow> filesys \<Rightarrow> string option \<Rightarrow> string option \<Rightarrow> song_type result" where
  "get_song_type b fs base_name file_name =
     (case file_name of
        None \<Rightarrow> Inr TYPE_UNKNOWN
      | Some name \<Rightarrow>
        if name = [] then Inr TYPE_UNKNOWN
        else
          and_then (suffix_matches name ''.mp3'') (\<lambda>mp3.
          and_then (if mp3 then Inr TYPE_MP3 else
            and_then (suffix_matches name ''.ogg'') (\<lambda>ogg.
            if ogg then Inr TYPE_OGG else
            and_then (suffix_matches name ''.flac'') (\<lambda>flac.
            Inr (if flac then TYPE_FLAC else TYPE_UNKNOWN)))) (\<lambda>type.
          if USE_MAGIC b \<and> type = TYPE_UNKNOWN then
            (case files fs (case base_name of None \<Rightarrow> name | Some base \<Rightarrow> base @ ''/'' @ name) of
               None \<Rightarrow> Inl Squash_Error
             | Some content \<Rightarrow> Inr (magic_type content))
          else Inr type)))"

section \<open>Lemmas\<close>

lemma build_fullfilename_eq:
  "build_fullfilename song type =
     (case type of
        BASENAME_SONG \<Rightarrow> basename song BASENAME_SONG @ ''/'' @ filename song
      | BASENAME_META \<Rightarrow> basename song BASENAME_META @ ''/'' @ filename song @ ''.info''
      | BASENAME_STAT \<Rightarrow> basename song BASENAME_STAT @ ''/'' @ filename song @ ''.stat'')"
  by (cases type) (auto simp: build_fullfilename_def extension_def Let_def)

lemma get_song_type_short:
  assumes "0 < length name" and "length name < 4"
  shows "get_song_type b fs base (Some name) = Inl Out_Of_Bounds"
  using assms by (simp add: get_song_type_def suffix_matches_def)

lemma get_song_type_returns:
  assumes "5 \<le> length name" and "\<not> USE_MAGIC b"
  shows "returns (get_song_type b fs base (Some name))"
proof -
  have "name \<noteq> []" using assms(1) by auto
  then show ?thesis using assms by (auto simp: get_song_type_def suffix_matches_def)
qed

text \<open>What \<open>mkdir\<close> leaves: the name exists, and nothing that existed is lost.\<close>

definition fs_extends :: "filesys \<Rightarrow> filesys \<Rightarrow> bool" where
  "fs_extends fs fs' \<longleftrightarrow>
     files fs' = files fs \<and> can_write fs' = can_write fs \<and> (\<forall>d. is_dir fs d \<longrightarrow> is_dir fs' d)"

lemma fs_extends_refl [simp]: "fs_extends fs fs"
  by (simp add: fs_extends_def)

lemma fs_extends_trans: "fs_extends a b \<Longrightarrow> fs_extends b c \<Longrightarrow> fs_extends a c"
  by (auto simp: fs_extends_def)

lemma mkdir_or_exists_extends:
  "mkdir_or_exists d fs = Inr fs' \<Longrightarrow> fs_extends fs fs' \<and> path_exists fs' d"
  by (auto simp: mkdir_or_exists_def fs_extends_def path_exists_def split: if_splits)

lemma path_exists_extends: "fs_extends fs fs' \<Longrightarrow> path_exists fs p \<Longrightarrow> path_exists fs' p"
  by (auto simp: fs_extends_def path_exists_def)

lemma create_prefixes_exist:
  assumes "create_prefixes pre cs fs = Inr fs'"
  shows "fs_extends fs fs' \<and>
     (\<forall>xs ys. cs = xs @ CHR ''/'' # ys \<longrightarrow> pre @ xs \<noteq> [] \<longrightarrow> path_exists fs' (pre @ xs))"
  using assms
proof (induction cs arbitrary: pre fs)
  case Nil
  then show ?case by simp
next
  case (Cons c cs)
  obtain fs1 where one: "fs_extends fs fs1"
    "c = CHR ''/'' \<and> pre \<noteq> [] \<longrightarrow> path_exists fs1 pre"
    and rest: "create_prefixes (pre @ [c]) cs fs1 = Inr fs'"
  proof (cases "c = CHR ''/'' \<and> pre \<noteq> []")
    case True
    then show ?thesis using that Cons.prems mkdir_or_exists_extends [of pre fs] by auto
  next
    case False
    then show ?thesis using that [of fs] Cons.prems by auto
  qed
  from Cons.IH [OF rest] have ext: "fs_extends fs1 fs'"
    and IH: "\<And>xs ys. cs = xs @ CHR ''/'' # ys \<Longrightarrow> path_exists fs' ((pre @ [c]) @ xs)" by auto
  show ?case
  proof (intro conjI allI impI)
    show "fs_extends fs fs'" using one(1) ext by (rule fs_extends_trans)
    fix xs ys assume split: "c # cs = xs @ CHR ''/'' # ys" and ne: "pre @ xs \<noteq> []"
    show "path_exists fs' (pre @ xs)"
    proof (cases xs)
      case Nil
      then show ?thesis using split ne one(2) path_exists_extends [OF ext] by simp
    next
      case (Cons x xs')
      then show ?thesis using IH [of xs' ys] split by simp
    qed
  qed
qed

lemma create_path_exists:
  assumes "create_path dir fs = Inr fs'"
  shows "path_exists fs' dir"
    and "fs_extends fs fs'"
    and "dir = xs @ CHR ''/'' # ys \<Longrightarrow> xs \<noteq> [] \<Longrightarrow> path_exists fs' xs"
proof -
  obtain fs1 where 1: "create_prefixes [] dir fs = Inr fs1" "mkdir_or_exists dir fs1 = Inr fs'"
    using assms by (auto simp: create_path_def)
  note a = create_prefixes_exist [OF 1(1)] and b = mkdir_or_exists_extends [OF 1(2)]
  show "path_exists fs' dir" using b by simp
  show "fs_extends fs fs'" using a b by (blast intro: fs_extends_trans)
  show "dir = xs @ CHR ''/'' # ys \<Longrightarrow> xs \<noteq> [] \<Longrightarrow> path_exists fs' xs"
    using a b path_exists_extends by auto
qed

end
