(* ===== verification/Database.thy ===== *)
theory Database
  imports Songs
begin

text \<open>
  The song database, \<open>src/src/database.c\<close>: loading file names (from the
  directory tree or the masterlist), meta data and statistics of songs, looking
  songs up, and writing statistics and info files back.

  What the tag libraries find in a song file is the parameter \<open>tags\<close>: the keys
  and values that \<open>ogg_load_meta()\<close>, \<open>mp3_load_meta()\<close> and \<open>flac_load_meta()\<close> pass to
  \<open>insert_meta_data()\<close>, in order.
\<close>

section \<open>Meta data of one song\<close>

fun find_key_index :: "string \<Rightarrow> meta_key list \<Rightarrow> nat option" where
  "find_key_index k [] = None"
| "find_key_index k (m # ms) =
     (if strcasecmp0 k (mkey m) then Some 0 else map_option Suc (find_key_index k ms))"

definition get_meta_data :: "song_info option \<Rightarrow> string \<Rightarrow> meta_key option" where
  "get_meta_data song key =
     (case song of
        None \<Rightarrow> None
      | Some s \<Rightarrow>
        (let ms = take (nat (meta_key_count s)) (meta_keys s) in
         map_option (\<lambda>i. ms ! i) (find_key_index key ms)))"

text \<open>
  \<open>meta_keys[meta_key_count - 1]\<close> after the increment: with the count still
  \<open>-1\<close> (meta data not loaded) that is one before the array.
\<close>

definition insert_meta_data :: "song_info add_data" where
  "insert_meta_data header key value song =
     (case key of
        None \<Rightarrow> Inr song
      | Some k \<Rightarrow>
        (case find_key_index k (take (nat (meta_key_count song)) (meta_keys song)) of
           Some i \<Rightarrow>
             Inr (song\<lparr>meta_keys := (meta_keys song)[i := (meta_keys song ! i)
                          \<lparr>mvalues := mvalues (meta_keys song ! i) @ [value]\<rparr>]\<rparr>)
         | None \<Rightarrow>
             (let n = meta_key_count song + 1 in
              if n - 1 < 0 then Inl Out_Of_Bounds
              else Inr (song\<lparr>meta_key_count := n,
                             meta_keys := take (nat (n - 1)) (meta_keys song) @
                               [\<lparr>mkey = k, mvalues = [value]\<rparr>]\<rparr>))))"

definition clear_song_meta :: "song_info \<Rightarrow> song_info" where
  "clear_song_meta song =
     song\<lparr>meta_keys := [], meta_key_count := 0, stat := (stat song)\<lparr>stat_changed := False\<rparr>\<rparr>"

text \<open>\<open>fprintf("%s")\<close> of a null pointer prints \<open>(null)\<close> in the GNU C library.\<close>

definition show_value :: "string option \<Rightarrow> string" where
  "show_value v = (case v of None \<Rightarrow> ''(null)'' | Some s \<Rightarrow> s)"

definition save_meta_data :: "song_info \<Rightarrow> string" where
  "save_meta_data song =
     concat (map (\<lambda>m. concat (map (\<lambda>v. mkey m @ ''='' @ show_value v @ [LF]) (mvalues m)))
       (take (nat (meta_key_count song)) (meta_keys song))) @ [LF]"

section \<open>Statistics of one song\<close>

definition set_stat_data :: "song_info add_data" where
  "set_stat_data header key value song =
     (case key of
        None \<Rightarrow> Inr song
      | Some k \<Rightarrow>
        (case value of
           None \<Rightarrow> Inl Null_Deref
         | Some v \<Rightarrow>
           (let int_value = atoi v; s = stat song in
            Inr (song\<lparr>stat :=
              (if strncasecmp0 ''play_count'' k 11 then s\<lparr>play_count := play_count s + int_value\<rparr>
               else if strncasecmp0 ''repeat_counter'' k 15 then s\<lparr>repeat_counter := int_value\<rparr>
               else if strncasecmp0 ''skip_count'' k 11 then s\<lparr>skip_count := skip_count s + int_value\<rparr>
               else if strncasecmp0 ''manual_rating'' k 14 then
                 (if manual_rating s = -1 then s\<lparr>manual_rating := int_value\<rparr> else s)
               else s)\<rparr>))))"

definition is_stat_data_changed :: "song_info \<Rightarrow> bool" where
  "is_stat_data_changed song = stat_changed (stat song)"

definition save_stat_data :: "song_info \<Rightarrow> string \<times> song_info" where
  "save_stat_data song =
     (''play_count='' @ show_int (play_count (stat song)) @ [LF] @
      ''skip_count='' @ show_int (skip_count (stat song)) @ [LF] @
      ''repeat_counter='' @ show_int (repeat_counter (stat song)) @ [LF] @
      ''manual_rating='' @ show_int (manual_rating (stat song)) @ [LF] @
      [LF],
      song\<lparr>stat := (stat song)\<lparr>stat_changed := False\<rparr>\<rparr>)"

section \<open>Saving a song\<close>

text \<open>The table \<open>db_extensions[]\<close> of \<open>src/src/global.c\<close>.\<close>

record db_extension =
  ext_type :: meta_type
  which_basename :: basename_type
  add_data :: "song_info add_data"
  save_data :: "song_info \<Rightarrow> string \<times> song_info"
  is_changed :: "(song_info \<Rightarrow> bool) option"

definition db_extension_for :: "meta_type \<Rightarrow> db_extension" where
  "db_extension_for t =
     (case t of
        TYPE_META \<Rightarrow>
          \<lparr>ext_type = TYPE_META, which_basename = BASENAME_META, add_data = insert_meta_data,
           save_data = (\<lambda>s. (save_meta_data s, s)), is_changed = None\<rparr>
      | TYPE_STAT \<Rightarrow>
          \<lparr>ext_type = TYPE_STAT, which_basename = BASENAME_STAT, add_data = set_stat_data,
           save_data = save_stat_data, is_changed = Some is_stat_data_changed\<rparr>)"

text \<open>Create the directory part of a file name, if it has one.\<close>

definition create_dir_of :: "string \<Rightarrow> filesys \<Rightarrow> filesys result" where
  "create_dir_of name fs =
     (case strrchr_slash name of None \<Rightarrow> Inr fs | Some i \<Rightarrow> create_path (take i name) fs)"

definition save_extension ::
  "bool \<Rightarrow> db_extension \<Rightarrow> song_info \<times> filesys \<Rightarrow> (song_info \<times> filesys) result" where
  "save_extension loaded e sf =
     (case sf of (song, fs) \<Rightarrow>
       (case is_changed e of
          None \<Rightarrow> Inr (song, fs)
        | Some changed \<Rightarrow>
          if \<not> changed song then Inr (song, fs)
          else if which_basename e = BASENAME_STAT \<and> \<not> loaded then Inr (song, fs)
          else
            (let cur_filename = build_fullfilename song (which_basename e) in
             and_then (create_dir_of cur_filename fs) (\<lambda>fs.
             (case save_data e song of (text, song') \<Rightarrow>
               and_then (write_file cur_filename text fs) (\<lambda>fs. Inr (song', fs)))))))"

definition save_song ::
  "config \<Rightarrow> bool \<Rightarrow> song_info \<Rightarrow> filesys \<Rightarrow> (song_info \<times> filesys) result" where
  "save_song cfg loaded song fs =
     (if db_readonly cfg \<noteq> 0 then Inr (song, fs)
      else fold_result (save_extension loaded)
             [db_extension_for TYPE_META, db_extension_for TYPE_STAT] (song, fs))"

section \<open>Loading the meta data or the statistics of a song\<close>

type_synonym tags = "song_type \<Rightarrow> string \<Rightarrow> (string \<times> string) list"

definition load_tags :: "build \<Rightarrow> tags \<Rightarrow> song_type \<Rightarrow> string \<Rightarrow> song_info \<Rightarrow> song_info result" where
  "load_tags b tags type name song =
     (if type = TYPE_OGG \<and> NO_VORBIS_COMMENT b \<or> type = TYPE_MP3 \<and> NO_ID3LIB b then Inr song
      else fold_result (\<lambda>(k, v). insert_meta_data None (Some k) (Some v)) (tags type name) song)"

text \<open>The name to read: on the empeg, a song ending in 0 has its meta data in the file ending in 1.\<close>

definition meta_name :: "build \<Rightarrow> meta_type \<Rightarrow> song_info \<Rightarrow> string" where
  "meta_name b which song =
     (if EMPEG b \<and> which = TYPE_META \<and> filename song \<noteq> [] \<and> last (filename song) = CHR ''0''
      then build_fullfilename (song\<lparr>filename := butlast (filename song) @ ''1''\<rparr>) BASENAME_SONG
      else build_fullfilename song (which_basename (db_extension_for which)))"

text \<open>The part after a failed parse: read the tags and write an info file.\<close>

definition load_from_song ::
  "build \<Rightarrow> config \<Rightarrow> tags \<Rightarrow> string \<Rightarrow> song_info \<Rightarrow> filesys \<Rightarrow> (song_info \<times> filesys) result" where
  "load_from_song b cfg tags metaname song fs =
     and_then (case song_type song of
                 Some t \<Rightarrow> Inr t
               | None \<Rightarrow> get_song_type b fs (Some (basename song BASENAME_SONG)) (Some (filename song)))
       (\<lambda>type.
     let song = song\<lparr>song_type := Some type\<rparr> in
     if type = TYPE_UNKNOWN then Inr (song, fs)
     else
       and_then (load_tags b tags type (build_fullfilename song BASENAME_SONG) song) (\<lambda>song.
       if db_saveinfo cfg \<noteq> 0 \<and> \<not> (NO_VORBIS_COMMENT b \<and> type = TYPE_OGG) \<and>
          \<not> (NO_ID3LIB b \<and> type = TYPE_MP3)
       then
         and_then (create_dir_of metaname fs) (\<lambda>fs.
         if \<not> path_exists fs metaname \<or> db_overwriteinfo cfg \<noteq> 0
         then and_then (write_file metaname (save_meta_data song) fs) (\<lambda>fs. Inr (song, fs))
         else Inr (song, fs))
       else Inr (song, fs)))"

definition load_meta_data ::
  "build \<Rightarrow> config \<Rightarrow> tags \<Rightarrow> meta_type \<Rightarrow> song_info \<Rightarrow> filesys \<Rightarrow> (song_info \<times> filesys) result" where
  "load_meta_data b cfg tags which song fs =
     (let song = (if which = TYPE_META \<and> meta_key_count song = -1
                  then song\<lparr>meta_key_count := 0\<rparr> else song);
          metaname = meta_name b which song in
      and_then
        (if db_overwriteinfo cfg \<noteq> 0 \<and> db_saveinfo cfg \<noteq> 0 \<and> which = TYPE_META
         then Inr (False, song)
         else parse_file (files fs metaname) (add_data (db_extension_for which)) song)
        (\<lambda>(success, song).
      if \<not> success \<and> which = TYPE_META then load_from_song b cfg tags metaname song fs
      else Inr (song, fs)))"

text \<open>A pass over all songs, each step reading and writing the files.\<close>

fun for_songs ::
  "(song_info \<Rightarrow> filesys \<Rightarrow> (song_info \<times> filesys) result) \<Rightarrow> song_info list \<Rightarrow> filesys \<Rightarrow>
     (song_info list \<times> filesys) result" where
  "for_songs f [] fs = Inr ([], fs)"
| "for_songs f (s # ss) fs =
     and_then (f s fs) (\<lambda>(s', fs'). map_result (\<lambda>(ss', fs''). (s' # ss', fs'')) (for_songs f ss fs'))"

definition save_all_songs :: "config \<Rightarrow> database_info \<Rightarrow> filesys \<Rightarrow> (database_info \<times> filesys) result" where
  "save_all_songs cfg db fs =
     map_result (\<lambda>(ss, fs). (db\<lparr>songs := ss\<rparr>, fs))
       (for_songs (save_song cfg (stats_loaded db)) (songs db) fs)"

definition load_all_meta_data ::
  "build \<Rightarrow> config \<Rightarrow> tags \<Rightarrow> meta_type \<Rightarrow> database_info \<Rightarrow> filesys \<Rightarrow>
     (database_info \<times> filesys) result" where
  "load_all_meta_data b cfg tags which db fs =
     and_then (for_songs (\<lambda>song fs.
         if which = TYPE_META \<and> meta_key_count song \<noteq> -1 then Inr (song, fs)
         else load_meta_data b cfg tags which song fs) (songs db) fs)
       (\<lambda>(ss, fs). save_all_songs cfg (db\<lparr>songs := ss\<rparr>) fs)"

section \<open>Looking songs up\<close>

text \<open>
  \<open>&filename[basename_length+1]\<close> may lie beyond the end of the name: then the
  comparison reads outside the string.
\<close>

fun find_song_from :: "string \<Rightarrow> nat \<Rightarrow> song_info list \<Rightarrow> nat option result" where
  "find_song_from name i [] = Inr None"
| "find_song_from name i (song # ss) =
     (let bl = length (basename song BASENAME_SONG) in
      if length name < bl + 1 then Inl Out_Of_Bounds
      else if filename song = drop (bl + 1) name \<and> name ! bl = CHR ''/'' \<and>
              strncmp0 (basename song BASENAME_SONG) name bl
      then Inr (Some i)
      else find_song_from name (Suc i) ss)"

definition find_song_by_filename :: "database_info \<Rightarrow> string option \<Rightarrow> nat option result" where
  "find_song_by_filename db name =
     (case name of None \<Rightarrow> Inr None | Some n \<Rightarrow> find_song_from n 0 (songs db))"

text \<open>\<open>squash_ensure_alloc(ensure, current, ..., initial, *=2)\<close>.\<close>

definition ensure_alloc :: "int \<Rightarrow> int \<Rightarrow> int \<Rightarrow> int" where
  "ensure_alloc ensure current initial =
     (if ensure \<ge> current then (if ensure = 0 then initial else current * 2) else current)"

text \<open>\<open>strstr(haystack, needle) != NULL\<close>.\<close>

fun strstr_found :: "string \<Rightarrow> string \<Rightarrow> bool" where
  "strstr_found [] needle = (needle = [])"
| "strstr_found (c # cs) needle = (take (length needle) (c # cs) = needle \<or> strstr_found cs needle)"

text \<open>
  The result set grows by doubling; its capacity is kept in \<open>song_count\<close> until
  the end.  The state is that capacity with the songs found.
\<close>

definition add_match :: "nat \<Rightarrow> int \<times> nat list \<Rightarrow> (int \<times> nat list) result" where
  "add_match i cf =
     (case cf of (cap, found) \<Rightarrow>
       (let cap = ensure_alloc (int (length found)) cap 10 in
        if int (length found) < cap then Inr (cap, found @ [i]) else Inl Out_Of_Bounds))"

definition match_value :: "string \<Rightarrow> nat \<Rightarrow> string option \<Rightarrow> int \<times> nat list \<Rightarrow> (int \<times> nat list) result" where
  "match_value keyword i v cf =
     (case v of
        None \<Rightarrow> Inl Null_Deref
      | Some s \<Rightarrow> if strstr_found keyword s then add_match i cf else Inr cf)"

definition match_song :: "string \<Rightarrow> string \<Rightarrow> nat \<times> song_info \<Rightarrow> int \<times> nat list \<Rightarrow> (int \<times> nat list) result" where
  "match_song key keyword is cf =
     (case is of (i, song) \<Rightarrow>
       (case find (\<lambda>m. mkey m = key) (take (nat (meta_key_count song)) (meta_keys song)) of
          None \<Rightarrow> Inr cf
        | Some m \<Rightarrow> fold_result (match_value keyword i) (mvalues m) cf))"

definition find_matches :: "database_info \<Rightarrow> string \<Rightarrow> string \<Rightarrow> nat list result" where
  "find_matches db key keyword =
     map_result snd (fold_result (match_song key keyword) (enumerate 0 (songs db)) (0, []))"

section \<open>Loading the file names\<close>

definition INITIAL_DB_SIZE :: int where
  "INITIAL_DB_SIZE = 2500"

definition path_of :: "config \<Rightarrow> basename_type \<Rightarrow> string" where
  "path_of cfg t = (case db_paths cfg t of None \<Rightarrow> [] | Some p \<Rightarrow> p)"

definition new_song :: "config \<Rightarrow> string \<Rightarrow> song_info" where
  "new_song cfg name =
     \<lparr>basename = path_of cfg, filename = name, meta_keys = [], meta_key_count = -1,
      stat = \<lparr>play_count = 0, skip_count = 0, repeat_counter = 0, manual_rating = -1,
              stat_changed = False\<rparr>,
      play_length = -1, song_type = None\<rparr>"

definition load_file ::
  "build \<Rightarrow> config \<Rightarrow> filesys \<Rightarrow> string option \<Rightarrow> bool \<Rightarrow> database_info \<Rightarrow> database_info result" where
  "load_file b cfg fs name trust db =
     (case name of
        None \<Rightarrow> Inr db
      | Some n \<Rightarrow>
        and_then (if trust then Inr TYPE_UNKNOWN
                  else get_song_type b fs (db_paths cfg BASENAME_SONG) (Some n)) (\<lambda>type.
        if type \<noteq> TYPE_UNKNOWN \<or> trust then
          (let cap = ensure_alloc (song_count db) (song_count_allocated db) INITIAL_DB_SIZE in
           if song_count db < cap
           then Inr (db\<lparr>song_count_allocated := cap, songs := songs db @ [new_song cfg n]\<rparr>)
           else Inl Out_Of_Bounds)
        else Inr db))"

text \<open>
  What \<open>readdir\<close> and \<open>stat\<close> show: a directory's entries by name, or nothing if it
  cannot be opened; a name that cannot be examined; any other file.
\<close>

datatype node =
    Regular
  | Unstatable
  | Directory "(string \<times> node) list option"

text \<open>
  \<open>_walk_filesystem(base_dir, _load_file)\<close>.  The path buffers have 257 bytes
  after the directory's name: a slash, the entry's name and a NUL.
\<close>

definition join_path :: "string option \<Rightarrow> string \<Rightarrow> string" where
  "join_path base name = (case base of None \<Rightarrow> name | Some d \<Rightarrow> d @ ''/'' @ name)"

fun walk_filesystem ::
  "(string \<Rightarrow> database_info \<Rightarrow> database_info result) \<Rightarrow> string option \<Rightarrow> node \<Rightarrow> database_info \<Rightarrow>
     database_info result"
  and walk_entries ::
  "(string \<Rightarrow> database_info \<Rightarrow> database_info result) \<Rightarrow> string option \<Rightarrow> (string \<times> node) list \<Rightarrow>
     database_info \<Rightarrow> database_info result" where
  "walk_filesystem loader base (Directory (Some es)) db = walk_entries loader base es db"
| "walk_filesystem loader base (Directory None) db = Inr db"
| "walk_filesystem loader base Regular db = Inr db"
| "walk_filesystem loader base Unstatable db = Inr db"
| "walk_entries loader base [] db = Inr db"
| "walk_entries loader base ((name, e) # es) db =
     (if name = ''.'' \<or> name = ''..'' then walk_entries loader base es db
      else if 257 < 1 + length name + 1 then Inl Out_Of_Bounds
      else and_then
        (case e of
           Unstatable \<Rightarrow> Inr db
         | Directory d \<Rightarrow> walk_filesystem loader (Some (join_path base name)) (Directory d) db
         | Regular \<Rightarrow> loader (join_path base name) db)
        (walk_entries loader base es))"

text \<open>
  \<open>load_masterlist()\<close>: the file is mapped whole and cut at line feeds up to the
  first NUL.  The mapping is filled with zero bytes up to the end of its last
  page; a file that fills its last page and has no NUL of its own is read past
  the mapping.
\<close>

definition PAGE_SIZE :: nat where
  "PAGE_SIZE = 4096"

fun split_lines :: "string \<Rightarrow> string list" where
  "split_lines [] = [[]]"
| "split_lines (c # cs) =
     (if c = LF then [] # split_lines cs
      else (case split_lines cs of [] \<Rightarrow> [[c]] | l # ls \<Rightarrow> (c # l) # ls))"

definition masterlist_line_used :: "string \<Rightarrow> bool" where
  "masterlist_line_used l \<longleftrightarrow> l \<noteq> [] \<and> hd l \<noteq> CHR ''#''"

definition load_masterlist ::
  "build \<Rightarrow> config \<Rightarrow> filesys \<Rightarrow> database_info \<Rightarrow> database_info result" where
  "load_masterlist b cfg fs db =
     (case db_masterlist_path cfg of
        None \<Rightarrow> Inr db
      | Some path \<Rightarrow>
        (case files fs path of
           None \<Rightarrow> Inr db
         | Some mem \<Rightarrow>
           if mem = [] then Inr db
           else if length mem mod PAGE_SIZE = 0 \<and> NUL \<notin> set mem then Inl Out_Of_Bounds
           else fold_result (\<lambda>l. load_file b cfg fs (Some l) True)
                  (filter masterlist_line_used (split_lines (c_str mem))) db))"

definition save_masterlist :: "config \<Rightarrow> string \<Rightarrow> database_info \<Rightarrow> filesys \<Rightarrow> filesys result" where
  "save_masterlist cfg ctime db fs =
     (if db_readonly cfg \<noteq> 0 then Inr fs
      else (case db_masterlist_path cfg of
              None \<Rightarrow> Inl Null_Deref
            | Some path \<Rightarrow>
              write_file path
                (''# Saved Squash masterlist'' @ [LF] @ ''# Auto-Generated on '' @ ctime @ [LF] @
                 concat (map (\<lambda>s. filename s @ [LF]) (songs db))) fs))"

definition load_db_filenames ::
  "build \<Rightarrow> config \<Rightarrow> string \<Rightarrow> node \<Rightarrow> database_info \<Rightarrow> filesys \<Rightarrow>
     (database_info \<times> filesys) result" where
  "load_db_filenames b cfg ctime root_dir db fs =
     (let db = (if song_count_allocated db \<noteq> 0
                then db\<lparr>songs := [], song_count_allocated := 0, stats_loaded := False\<rparr> else db) in
      and_then
        (if (case db_masterlist_path cfg of None \<Rightarrow> False | Some p \<Rightarrow> path_exists fs p)
         then load_masterlist b cfg fs db
         else if (case db_paths cfg BASENAME_SONG of None \<Rightarrow> False | Some p \<Rightarrow> path_exists fs p)
         then walk_filesystem (\<lambda>n. load_file b cfg fs (Some n) False) None root_dir db
         else Inl Squash_Error) (\<lambda>db.
      if song_count db = 0 then Inl Squash_Error
      else
        (let db = db\<lparr>song_count_allocated := song_count db\<rparr> in
         map_result (\<lambda>fs. (db, fs))
           (if db_masterlist_path cfg \<noteq> None then save_masterlist cfg ctime db fs else Inr fs))))"

definition clear_db :: "database_info \<Rightarrow> database_info" where
  "clear_db db = db\<lparr>songs := [], song_count_allocated := 0\<rparr>"

section \<open>The meta data of a song is a multimap with case-insensitive keys\<close>

definition song_meta_ok :: "song_info \<Rightarrow> bool" where
  "song_meta_ok song \<longleftrightarrow> meta_key_count song = int (length (meta_keys song)) \<and>
     (\<forall>m \<in> set (meta_keys song). mvalues m \<noteq> []) \<and>
     distinct (map (\<lambda>m. map to_lower (mkey m)) (meta_keys song))"

definition meta_values :: "song_info \<Rightarrow> string \<Rightarrow> string option list" where
  "meta_values song k =
     (case get_meta_data (Some song) k of None \<Rightarrow> [] | Some m \<Rightarrow> mvalues m)"

text \<open>
  The contract of a store that a file is read into: an insertion succeeds, keeps
  the invariant, and appends the value under every spelling of its key and
  nowhere else.
\<close>

locale multimap_store =
  fixes inv :: "'s \<Rightarrow> bool" and ins :: "'s add_data" and vals :: "'s \<Rightarrow> string \<Rightarrow> string option list"
  assumes ins_ok: "inv s \<Longrightarrow> \<exists>s'. ins h (Some k) v s = Inr s' \<and> inv s' \<and>
    (\<forall>k'. vals s' k' = vals s k' @ (if strcasecmp0 k k' then [v] else []))"
begin

lemma data_callback: "data_callback inv ins"
  using ins_ok by unfold_locales blast

end

sublocale multimap_store \<subseteq> data_callback inv ins
  by (rule data_callback)

fun line_pairs :: "line list \<Rightarrow> (string \<times> string option) list" where
  "line_pairs [] = []"
| "line_pairs (Pair k v # ls) = (k, Some v) # line_pairs ls"
| "line_pairs (Key_Only k # ls) = (k, None) # line_pairs ls"
| "line_pairs (Header h # ls) = line_pairs ls"
| "line_pairs (Comment t # ls) = line_pairs ls"
| "line_pairs (Blank # ls) = line_pairs ls"

definition pairs_under :: "string \<Rightarrow> (string \<times> string option) list \<Rightarrow> string option list" where
  "pairs_under k' ps = map snd (filter (\<lambda>(k, v). strcasecmp0 k k') ps)"

lemma pairs_under_simps [simp]:
  "pairs_under k' [] = []"
  "pairs_under k' ((k, v) # ps) = (if strcasecmp0 k k' then [v] else []) @ pairs_under k' ps"
  by (simp_all add: pairs_under_def)

context multimap_store begin

lemma run_lines_vals:
  assumes "inv s"
  shows "\<exists>h' s'. run_lines ins h ls s = Inr (h', s') \<and> inv s' \<and>
    (\<forall>k'. vals s' k' = vals s k' @ pairs_under k' (line_pairs ls))"
  using assms
proof (induction ls arbitrary: h s)
  case Nil
  then show ?case by simp
next
  case (Cons l ls)
  have put: "\<exists>h' s'. and_then (ins h (Some k) v s) (run_lines ins h ls) = Inr (h', s') \<and> inv s' \<and>
      (\<forall>k'. vals s' k' = vals s k' @ pairs_under k' ((k, v) # line_pairs ls))" for k v
  proof -
    obtain s1 where s1: "ins h (Some k) v s = Inr s1" "inv s1"
      "\<forall>k'. vals s1 k' = vals s k' @ (if strcasecmp0 k k' then [v] else [])"
      using ins_ok [OF Cons.prems, of h k v] by blast
    obtain h' s' where "run_lines ins h ls s1 = Inr (h', s')" "inv s'"
      "\<forall>k'. vals s' k' = vals s1 k' @ pairs_under k' (line_pairs ls)"
      using Cons.IH [OF s1(2), of h] by blast
    then show ?thesis using s1 by simp
  qed
  show ?case
  proof (cases l)
    case (Pair k v)
    then show ?thesis using put [of k "Some v"] by simp
  next
    case (Key_Only k)
    then show ?thesis using put [of k None] by simp
  qed (use Cons.IH [OF Cons.prems] in auto)
qed

lemma parse_file_vals:
  assumes "inv s" and "\<forall>l \<in> set ls. line_ok l" and "ls \<noteq> []"
  shows "\<exists>s'. parse_file (Some (render_lines ls)) ins s = Inr (True, s') \<and> inv s' \<and>
    (\<forall>k'. vals s' k' = vals s k' @ pairs_under k' (line_pairs ls))"
proof -
  obtain h' s' where r: "run_lines ins None ls s = Inr (h', s')" "inv s'"
    "\<forall>k'. vals s' k' = vals s k' @ pairs_under k' (line_pairs ls)"
    using run_lines_vals [OF assms(1), of None ls] by blast
  from parse_file_render [OF assms(2,3) r(1)] r(2,3) show ?thesis by blast
qed

end

lemma find_key_index_None:
  "find_key_index k ms = None \<longleftrightarrow> (\<forall>m \<in> set ms. \<not> strcasecmp0 k (mkey m))"
  by (induction ms) auto

lemma find_key_index_Some:
  "find_key_index k ms = Some i \<Longrightarrow> i < length ms \<and> strcasecmp0 k (mkey (ms ! i))"
  by (induction ms arbitrary: i) (auto split: if_splits)

text \<open>With distinct keys the index found is the only one with that key.\<close>

lemma find_key_index_unique:
  assumes "distinct (map (\<lambda>m. map to_lower (mkey m)) ms)"
    and "i < length ms" and "strcasecmp0 k (mkey (ms ! i))"
  shows "find_key_index k ms = Some i"
proof -
  have "\<not> (\<forall>m \<in> set ms. \<not> strcasecmp0 k (mkey m))" using assms(2,3) nth_mem by blast
  then obtain j where j: "find_key_index k ms = Some j" using find_key_index_None by blast
  from find_key_index_Some [OF this] assms have "j = i"
    by (auto simp: strcasecmp0_def distinct_conv_nth)
  with j show ?thesis by simp
qed

lemma find_key_index_append:
  "find_key_index k (xs @ ys) =
     (case find_key_index k xs of Some i \<Rightarrow> Some i
      | None \<Rightarrow> map_option ((+) (length xs)) (find_key_index k ys))"
proof (induction xs)
  case Nil
  then show ?case by (cases "find_key_index k ys") simp_all
next
  case (Cons x xs)
  then show ?case by (cases "find_key_index k ys") (auto split: option.splits)
qed

lemma find_key_index_same_keys:
  "map mkey xs = map mkey ys \<Longrightarrow> find_key_index k xs = find_key_index k ys"
proof (induction xs arbitrary: ys)
  case Nil
  then show ?case by simp
next
  case (Cons x xs)
  then obtain y zs where "ys = y # zs" "mkey x = mkey y" "map mkey xs = map mkey zs"
    by (cases ys) simp_all
  then show ?case using Cons.IH by simp
qed

lemma find_key_index_cong:
  "strcasecmp0 k k' \<Longrightarrow> find_key_index k ms = find_key_index k' ms"
  by (induction ms) (auto simp: strcasecmp0_def)

lemma meta_values_eq:
  "song_meta_ok s \<Longrightarrow> meta_values s k =
     (case find_key_index k (meta_keys s) of None \<Rightarrow> [] | Some i \<Rightarrow> mvalues (meta_keys s ! i))"
  by (auto simp: meta_values_def get_meta_data_def song_meta_ok_def Let_def split: option.splits)

lemma insert_existing:
  fixes v :: "string option"
  assumes ok: "song_meta_ok s" and i: "find_key_index k (meta_keys s) = Some i"
  defines "m \<equiv> meta_keys s ! i"
  defines "s' \<equiv> s\<lparr>meta_keys := (meta_keys s)[i := m\<lparr>mvalues := mvalues m @ [v]\<rparr>]\<rparr>"
  shows "insert_meta_data h (Some k) v s = Inr s'" "song_meta_ok s'"
    "meta_values s' k' = meta_values s k' @ (if strcasecmp0 k k' then [v] else [])"
proof -
  have il: "i < length (meta_keys s)" and ki: "strcasecmp0 k (mkey m)"
    using find_key_index_Some [OF i] by (auto simp: m_def)
  have keys: "map mkey (meta_keys s') = map mkey (meta_keys s)"
    using il by (intro nth_equalityI) (auto simp: s'_def m_def nth_list_update)
  show "insert_meta_data h (Some k) v s = Inr s'"
    using ok i by (simp add: insert_meta_data_def song_meta_ok_def s'_def m_def)
  have lower: "map (\<lambda>m. map to_lower (mkey m)) xs = map (map to_lower) (map mkey xs)" for xs
    by simp
  show ok': "song_meta_ok s'"
    using ok keys set_update_subset_insert [of "meta_keys s" i "m\<lparr>mvalues := mvalues m @ [v]\<rparr>"]
    unfolding song_meta_ok_def lower keys by (auto simp: s'_def)
  have idx: "find_key_index k' (meta_keys s') = find_key_index k' (meta_keys s)"
    by (rule find_key_index_same_keys [OF keys])
  show "meta_values s' k' = meta_values s k' @ (if strcasecmp0 k k' then [v] else [])"
  proof (cases "strcasecmp0 k k'")
    case True
    then have "find_key_index k' (meta_keys s) = Some i" using i find_key_index_cong by metis
    then show ?thesis using True il idx by (simp add: meta_values_eq ok ok') (simp add: s'_def m_def)
  next
    case False
    have "find_key_index k' (meta_keys s) \<noteq> Some i"
      using find_key_index_Some [of k' "meta_keys s" i] False ki strcasecmp0_sym strcasecmp0_trans
      unfolding m_def by blast
    then show ?thesis using False idx
      by (cases "find_key_index k' (meta_keys s)")
        (simp_all add: meta_values_eq ok ok', simp_all add: s'_def)
  qed
qed

lemma insert_new:
  fixes v :: "string option"
  assumes ok: "song_meta_ok s" and new: "find_key_index k (meta_keys s) = None"
  defines "s' \<equiv> s\<lparr>meta_key_count := meta_key_count s + 1,
                   meta_keys := meta_keys s @ [\<lparr>mkey = k, mvalues = [v]\<rparr>]\<rparr>"
  shows "insert_meta_data h (Some k) v s = Inr s'" "song_meta_ok s'"
    "meta_values s' k' = meta_values s k' @ (if strcasecmp0 k k' then [v] else [])"
proof -
  show "insert_meta_data h (Some k) v s = Inr s'"
    using ok new by (simp add: insert_meta_data_def song_meta_ok_def s'_def Let_def)
  have "\<forall>m \<in> set (meta_keys s). \<not> strcasecmp0 k (mkey m)" using new find_key_index_None by blast
  then show ok': "song_meta_ok s'"
    using ok by (auto simp: song_meta_ok_def s'_def strcasecmp0_def)
  have idx: "find_key_index k' (meta_keys s') = (case find_key_index k' (meta_keys s) of Some i \<Rightarrow> Some i
      | None \<Rightarrow> if strcasecmp0 k k' then Some (length (meta_keys s)) else None)"
    by (auto simp: s'_def find_key_index_append strcasecmp0_def split: option.splits)
  show "meta_values s' k' = meta_values s k' @ (if strcasecmp0 k k' then [v] else [])"
  proof (cases "find_key_index k' (meta_keys s)")
    case None
    then show ?thesis using idx by (simp add: meta_values_eq ok ok') (simp add: s'_def)
  next
    case (Some i)
    then have "\<not> strcasecmp0 k k'" using new find_key_index_cong [of k k' "meta_keys s"] by auto
    then show ?thesis using Some idx find_key_index_Some [OF Some]
      by (simp add: meta_values_eq ok ok') (simp add: s'_def nth_append)
  qed
qed

interpretation meta: multimap_store song_meta_ok insert_meta_data meta_values
proof unfold_locales
  fix s h k v
  assume ok: "song_meta_ok s"
  show "\<exists>s'. insert_meta_data h (Some k) v s = Inr s' \<and> song_meta_ok s' \<and>
    (\<forall>k'. meta_values s' k' = meta_values s k' @ (if strcasecmp0 k k' then [v] else []))"
  proof (cases "find_key_index k (meta_keys s)")
    case None
    from insert_new(1) [OF ok None, of h v] insert_new(2) [OF ok None, of v]
      insert_new(3) [OF ok None, of v]
    show ?thesis by blast
  next
    case (Some i)
    from insert_existing(1) [OF ok Some, of h v] insert_existing(2) [OF ok Some, of v]
      insert_existing(3) [OF ok Some, of v]
    show ?thesis by blast
  qed
qed

section \<open>Statistics and masterlist: what is written can be read back\<close>

lemma number_char_plain:
  "is_digit c \<or> c = CHR ''-'' \<Longrightarrow> \<not> blank c \<and> c \<noteq> CR \<and> c \<noteq> LF \<and> c \<noteq> NUL"
  by (auto simp: blank_def is_digit_def)

lemma show_int_value_ok [simp]: "value_ok (show_int i)"
proof -
  have *: "\<not> blank c \<and> c \<noteq> CR \<and> c \<noteq> LF \<and> c \<noteq> NUL" if "c \<in> set (show_int i)" for c
    using show_int_chars [OF that] by (rule number_char_plain)
  have "\<not> blank (hd (show_int i))" "\<not> blank (last (show_int i))"
    using * [OF hd_in_set] * [OF last_in_set] by simp_all
  then show ?thesis using * by (auto simp: value_ok_def)
qed

definition stat_lines :: "stat_info \<Rightarrow> line list" where
  "stat_lines s =
     [Pair ''play_count'' (show_int (play_count s)), Pair ''skip_count'' (show_int (skip_count s)),
      Pair ''repeat_counter'' (show_int (repeat_counter s)),
      Pair ''manual_rating'' (show_int (manual_rating s)), Blank]"

lemma save_stat_data_render: "fst (save_stat_data song) = render_lines (stat_lines (stat song))"
  by (simp add: save_stat_data_def stat_lines_def render_lines_def)

lemma stat_keys_ok:
  "key_ok ''play_count''" "key_ok ''skip_count''" "key_ok ''repeat_counter''" "key_ok ''manual_rating''"
  by (simp_all add: key_ok_def value_ok_def blank_def)

lemma stat_lines_ok: "\<forall>l \<in> set (stat_lines s). line_ok l"
  by (simp add: stat_lines_def stat_keys_ok)

lemma stat_keys_distinct:
  "strncasecmp0 ''play_count'' ''play_count'' 11"
  "\<not> strncasecmp0 ''play_count'' ''skip_count'' 11"
  "\<not> strncasecmp0 ''play_count'' ''repeat_counter'' 11"
  "\<not> strncasecmp0 ''play_count'' ''manual_rating'' 11"
  "\<not> strncasecmp0 ''repeat_counter'' ''skip_count'' 15"
  "strncasecmp0 ''repeat_counter'' ''repeat_counter'' 15"
  "\<not> strncasecmp0 ''repeat_counter'' ''manual_rating'' 15"
  "strncasecmp0 ''skip_count'' ''skip_count'' 11"
  "\<not> strncasecmp0 ''skip_count'' ''manual_rating'' 11"
  "strncasecmp0 ''manual_rating'' ''manual_rating'' 14"
  by (simp_all add: strncasecmp0_exact strcasecmp0_def to_lower_def)

definition int32 :: "int \<Rightarrow> bool" where
  "int32 i \<longleftrightarrow> - (2 ^ 31) \<le> i \<and> i < 2 ^ 31"

lemma atoi_show_int32 [simp]: "int32 i \<Longrightarrow> atoi (show_int i) = i"
  by (simp add: int32_def atoi_show_int)

definition stat_int32 :: "stat_info \<Rightarrow> bool" where
  "stat_int32 s \<longleftrightarrow> int32 (play_count s) \<and> int32 (skip_count s) \<and>
     int32 (repeat_counter s) \<and> int32 (manual_rating s)"

text \<open>Reading a stat file adds the counts, and keeps a rating that is already there.\<close>

definition merge_stat :: "stat_info \<Rightarrow> stat_info \<Rightarrow> stat_info" where
  "merge_stat s t =
     s\<lparr>play_count := play_count s + play_count t, skip_count := skip_count s + skip_count t,
       repeat_counter := repeat_counter t,
       manual_rating := (if manual_rating s = -1 then manual_rating t else manual_rating s)\<rparr>"

lemma run_stat_lines:
  assumes "stat_int32 t"
  shows "run_lines set_stat_data None (stat_lines t) song =
    Inr (None, song\<lparr>stat := merge_stat (stat song) t\<rparr>)"
  using assms
  by (simp add: stat_lines_def set_stat_data_def stat_keys_distinct stat_int32_def merge_stat_def Let_def)

lemma parse_saved_stat:
  assumes "stat_int32 (stat song)"
  shows "parse_file (Some (fst (save_stat_data song))) set_stat_data other =
    Inr (True, other\<lparr>stat := merge_stat (stat other) (stat song)\<rparr>)"
  unfolding save_stat_data_render
  by (rule parse_file_render [OF stat_lines_ok _ run_stat_lines [OF assms]])
    (simp add: stat_lines_def)

lemma split_lines_nonempty [simp]: "split_lines xs \<noteq> []"
  by (cases xs) (auto split: list.splits)

lemma split_lines_line: "LF \<notin> set l \<Longrightarrow> split_lines (l @ LF # r) = l # split_lines r"
  by (induction l) (auto split: list.splits)

lemma split_lines_names:
  assumes "\<forall>n \<in> set ns. LF \<notin> set n"
  shows "split_lines (concat (map (\<lambda>n. n @ [LF]) ns)) = ns @ [[]]"
  using assms by (induction ns) (simp_all add: split_lines_line)

definition name_ok :: "string \<Rightarrow> bool" where
  "name_ok n \<longleftrightarrow> masterlist_line_used n \<and> LF \<notin> set n \<and> NUL \<notin> set n"

text \<open>The database's arrays: what is in use is allocated.\<close>

definition db_ok :: "database_info \<Rightarrow> bool" where
  "db_ok db \<longleftrightarrow> song_count db \<le> song_count_allocated db"

lemma ensure_alloc_room:
  assumes "0 \<le> n" and "n \<le> cap" and "0 < initial"
  shows "n < ensure_alloc n cap initial"
  using assms by (auto simp: ensure_alloc_def)

lemma load_file_trusted:
  assumes "db_ok db"
  shows "\<exists>db'. load_file b cfg fs (Some n) True db = Inr db' \<and> db_ok db' \<and>
    songs db' = songs db @ [new_song cfg n]"
  using ensure_alloc_room [of "song_count db" "song_count_allocated db" INITIAL_DB_SIZE] assms
  by (auto simp: load_file_def db_ok_def song_count_def INITIAL_DB_SIZE_def Let_def)

lemma load_file_untrusted:
  assumes "db_ok db" and "get_song_type b fs (db_paths cfg BASENAME_SONG) (Some n) = Inr t"
  shows "\<exists>db'. load_file b cfg fs (Some n) False db = Inr db' \<and> db_ok db' \<and>
    songs db' = songs db @ (if t = TYPE_UNKNOWN then [] else [new_song cfg n])"
  using ensure_alloc_room [of "song_count db" "song_count_allocated db" INITIAL_DB_SIZE] assms
  by (auto simp: load_file_def db_ok_def song_count_def INITIAL_DB_SIZE_def Let_def)

lemma load_names_trusted:
  assumes "db_ok db"
  shows "\<exists>db'. fold_result (\<lambda>l. load_file b cfg fs (Some l) True) ns db = Inr db' \<and> db_ok db' \<and>
    songs db' = songs db @ map (new_song cfg) ns"
  using assms
proof (induction ns arbitrary: db)
  case Nil
  then show ?case by simp
next
  case (Cons n ns)
  obtain db1 where 1: "load_file b cfg fs (Some n) True db = Inr db1" "db_ok db1"
    "songs db1 = songs db @ [new_song cfg n]"
    using load_file_trusted [OF Cons.prems] by blast
  from Cons.IH [OF 1(2)] 1 show ?case by auto
qed

lemma filename_new_song [simp]: "filename (new_song cfg n) = n"
  by (simp add: new_song_def)

lemma write_file_content:
  "write_file p text fs = Inr fs' \<Longrightarrow> files fs' p = Some text"
  by (auto simp: write_file_def split: if_splits)

text \<open>The text of a masterlist, cut into lines.\<close>

definition masterlist_text :: "string \<Rightarrow> string list \<Rightarrow> string" where
  "masterlist_text ctime ns =
     ''# Saved Squash masterlist'' @ [LF] @ ''# Auto-Generated on '' @ ctime @ [LF] @
     concat (map (\<lambda>n. n @ [LF]) ns)"

lemma masterlist_lines:
  assumes "ctime = t @ [LF]" and "LF \<notin> set t" and "NUL \<notin> set t" and "\<forall>n \<in> set ns. name_ok n"
  shows "filter masterlist_line_used (split_lines (c_str (masterlist_text ctime ns))) = ns"
proof -
  have nul: "NUL \<notin> set (masterlist_text ctime ns)"
    using assms by (auto simp: masterlist_text_def name_ok_def)
  have head: "split_lines (''# Saved Squash masterlist'' @ LF # r) = ''# Saved Squash masterlist'' # split_lines r"
    for r by (rule split_lines_line) simp
  have date: "split_lines ((''# Auto-Generated on '' @ t) @ LF # r) = (''# Auto-Generated on '' @ t) # split_lines r"
    for r using assms(2) by (intro split_lines_line) simp
  have empty: "split_lines ([] @ LF # r) = [] # split_lines r" for r
    by simp
  have whole: "masterlist_text ctime ns =
     ''# Saved Squash masterlist'' @ LF # (''# Auto-Generated on '' @ t) @ LF # [] @ LF # concat (map (\<lambda>n. n @ [LF]) ns)"
    by (simp add: masterlist_text_def assms(1))
  have names: "split_lines (concat (map (\<lambda>n. n @ [LF]) ns)) = ns @ [[]]"
    using assms(4) by (intro split_lines_names) (simp add: name_ok_def)
  have "split_lines (masterlist_text ctime ns) =
     [''# Saved Squash masterlist'', ''# Auto-Generated on '' @ t, []] @ ns @ [[]]"
    unfolding whole head date empty names by simp
  then show ?thesis
    using assms(4) by (simp add: c_str_id [OF nul] masterlist_line_used_def name_ok_def filter_id_conv)
qed

section \<open>The walk over the directory tree visits exactly its files\<close>

text \<open>The files of a tree in the order of the walk.\<close>

fun tree_files :: "string option \<Rightarrow> node \<Rightarrow> string list"
  and entry_files :: "string option \<Rightarrow> (string \<times> node) list \<Rightarrow> string list" where
  "tree_files base (Directory (Some es)) = entry_files base es"
| "tree_files base (Directory None) = []"
| "tree_files base Regular = []"
| "tree_files base Unstatable = []"
| "entry_files base [] = []"
| "entry_files base ((name, e) # es) =
     (if name = ''.'' \<or> name = ''..'' then entry_files base es
      else (case e of
              Unstatable \<Rightarrow> []
            | Directory d \<Rightarrow> tree_files (Some (join_path base name)) (Directory d)
            | Regular \<Rightarrow> [join_path base name]) @ entry_files base es)"

text \<open>No name is longer than a directory entry can hold (\<open>NAME_MAX\<close>, 255).\<close>

fun names_fit :: "node \<Rightarrow> bool" and entries_fit :: "(string \<times> node) list \<Rightarrow> bool" where
  "names_fit (Directory (Some es)) = entries_fit es"
| "names_fit (Directory None) = True"
| "names_fit Regular = True"
| "names_fit Unstatable = True"
| "entries_fit [] = True"
| "entries_fit ((name, e) # es) = (length name \<le> 255 \<and> names_fit e \<and> entries_fit es)"

lemma walk_is_fold:
  "names_fit n \<Longrightarrow> walk_filesystem loader base n db = fold_result loader (tree_files base n) db"
  "entries_fit es \<Longrightarrow> walk_entries loader base es db = fold_result loader (entry_files base es) db"
proof (induction loader base n db and loader base es db rule: walk_filesystem_walk_entries.induct)
  case (6 loader base name e es db)
  show ?case
  proof (cases "name = ''.'' \<or> name = ''..''")
    case True
    then show ?thesis using 6 by auto
  next
    case False
    with 6 show ?thesis
      by (cases e) (auto simp: and_then_def split: sum.splits)
  qed
qed simp_all

end
