(* ===== verification/Database_Correct.thy ===== *)
theory Database_Correct
  imports Database
begin

text \<open>
  What the database code guarantees: files written are read back, the song list
  is the one on the disk or in the masterlist, the arrays hold what is put into
  them, and lookups find what was loaded.
\<close>

section \<open>Example values\<close>

text \<open>A configuration, a build and a file system on which the statements are tried.\<close>

definition ex_build :: build where
  "ex_build = \<lparr>EMPEG = False, EMPEG_DSP = False, NO_NCURSES = False, USE_MAGIC = False,
               NO_VORBIS_COMMENT = False, NO_ID3LIB = False\<rparr>"

definition ex_config :: config where
  "ex_config =
     \<lparr>db_paths = (\<lambda>t. case t of BASENAME_SONG \<Rightarrow> Some ''/m'' | BASENAME_META \<Rightarrow> Some ''/i''
                              | BASENAME_STAT \<Rightarrow> Some ''/s''),
      db_masterlist_path = Some ''/l'', db_readonly = 0, db_saveinfo = 0, db_overwriteinfo = 0,
      db_manual_rating_bias = 1 / 2, global_state_path = Some ''/st'', input_fifo_path = None,
      playlist_manager_playlist_size = 2, playlist_manager_pastlist_size = 2,
      min_save_volume = 0, max_save_volume = 100\<rparr>"

definition ex_fs :: filesys where
  "ex_fs = \<lparr>files = (\<lambda>_. None), is_dir = (\<lambda>d. d = ''/s''), can_write = (\<lambda>_. True)\<rparr>"

definition ex_song :: song_info where
  "ex_song = (new_song ex_config ''a.mp3'')
     \<lparr>meta_keys := [\<lparr>mkey = ''artist'', mvalues = [Some ''x'', Some ''y'']\<rparr>,
                    \<lparr>mkey = ''title'', mvalues = [Some ''z'']\<rparr>], meta_key_count := 2,
      stat := \<lparr>play_count = 3, skip_count = 1, repeat_counter = 4, manual_rating = 7, stat_changed = True\<rparr>\<rparr>"

definition ex_db :: database_info where
  "ex_db = \<lparr>songs = [], song_count_allocated = 0, stats_loaded = False, db_sum = 0, db_sqr_sum = 0,
            play_sum = 0, play_sqr_sum = 0, skip_sum = 0, skip_sqr_sum = 0\<rparr>"

section \<open>Info files\<close>

lemma new_song_meta_ok: "song_meta_ok (song\<lparr>meta_keys := [], meta_key_count := 0\<rparr>)"
  by (simp add: song_meta_ok_def)

text \<open>C10. Whatever bytes an info file holds, reading it returns: the parser never
  leaves the mapped file and every callback finds its key, so no read or write
  goes wrong; and the song's keys stay distinct up to case, each with at least
  one value, and as many as \<open>meta_key_count\<close> says.\<close>

theorem info_file_never_faults:
  assumes "song_meta_ok song"
  shows "\<exists>ok song'. parse_file content insert_meta_data song = Inr (ok, song') \<and> song_meta_ok song'"
  using assms by (rule meta.parse_file_ok)

lemma ex_song_meta_ok: "song_meta_ok ex_song"
  by (simp add: song_meta_ok_def ex_song_def to_lower_def)

theorem info_file_never_faults_witness:
  "\<exists>ok song'. parse_file (Some ''[a=]b= =c'') insert_meta_data ex_song = Inr (ok, song') \<and> song_meta_ok song'"
  by (rule info_file_never_faults) (rule ex_song_meta_ok)

definition info_lines :: "song_info \<Rightarrow> line list" where
  "info_lines song =
     concat (map (\<lambda>m. map (\<lambda>v. Pair (mkey m) (show_value v)) (mvalues m)) (meta_keys song)) @ [Blank]"

text \<open>Keys and values that the file format can carry.\<close>

definition meta_storable :: "song_info \<Rightarrow> bool" where
  "meta_storable song \<longleftrightarrow>
     (\<forall>m \<in> set (meta_keys song). key_ok (mkey m) \<and>
        (\<forall>v \<in> set (mvalues m). case v of None \<Rightarrow> False | Some s \<Rightarrow> value_ok s))"

lemma render_lines_append: "render_lines (xs @ ys) = render_lines xs @ render_lines ys"
  by (simp add: render_lines_def)

lemma render_pairs:
  "render_lines (concat (map (\<lambda>m. map (\<lambda>v. Pair (mkey m) (show_value v)) (mvalues m)) ms)) =
     concat (map (\<lambda>m. concat (map (\<lambda>v. mkey m @ ''='' @ show_value v @ [LF]) (mvalues m))) ms)"
  by (induction ms) (simp_all add: render_lines_def comp_def)

lemma save_meta_data_render:
  "song_meta_ok song \<Longrightarrow> save_meta_data song = render_lines (info_lines song)"
  using render_pairs [of "meta_keys song"]
  by (simp add: save_meta_data_def info_lines_def song_meta_ok_def render_lines_append)
    (simp add: render_lines_def)

lemma info_lines_ok: "meta_storable song \<Longrightarrow> \<forall>l \<in> set (info_lines song). line_ok l"
  by (auto simp: info_lines_def meta_storable_def show_value_def split: option.splits)

lemma line_pairs_append [simp]: "line_pairs (xs @ ys) = line_pairs xs @ line_pairs ys"
  by (induction xs rule: line_pairs.induct) simp_all

lemma pairs_under_append [simp]: "pairs_under k (xs @ ys) = pairs_under k xs @ pairs_under k ys"
  by (simp add: pairs_under_def)

lemma line_pairs_of_key:
  assumes "\<forall>v \<in> set vs. v \<noteq> None"
  shows "pairs_under k (line_pairs (map (\<lambda>v. Pair m (show_value v)) vs)) = (if strcasecmp0 m k then vs else [])"
  using assms by (induction vs) (auto simp: show_value_def)

lemma pairs_under_keys:
  assumes "distinct (map (\<lambda>m. map to_lower (mkey m)) ms)"
    and "\<forall>m \<in> set ms. \<forall>v \<in> set (mvalues m). v \<noteq> None"
  shows "pairs_under k (line_pairs (concat (map (\<lambda>m. map (\<lambda>v. Pair (mkey m) (show_value v)) (mvalues m)) ms))) =
    (case find_key_index k ms of None \<Rightarrow> [] | Some i \<Rightarrow> mvalues (ms ! i))"
  using assms
proof (induction ms)
  case Nil
  then show ?case by simp
next
  case (Cons m ms)
  have rest: "find_key_index k ms = None" if "strcasecmp0 k (mkey m)"
    using Cons.prems(1) that by (force simp: find_key_index_None strcasecmp0_def)
  show ?case
    using Cons rest by (cases "find_key_index k ms")
      (auto simp: line_pairs_of_key strcasecmp0_sym [of "mkey m" k])
qed

lemma info_lines_pairs:
  assumes "song_meta_ok song" and "meta_storable song"
  shows "pairs_under k (line_pairs (info_lines song)) = meta_values song k"
proof -
  have "\<forall>m \<in> set (meta_keys song). \<forall>v \<in> set (mvalues m). v \<noteq> None"
    using assms(2) unfolding meta_storable_def by (metis option.simps(4))
  then show ?thesis
    using assms(1) pairs_under_keys [of "meta_keys song" k]
    by (simp add: info_lines_def meta_values_eq song_meta_ok_def)
qed

lemma meta_values_empty [simp]: "meta_values (song\<lparr>meta_keys := [], meta_key_count := 0\<rparr>) k = []"
  by (simp add: meta_values_def get_meta_data_def)

text \<open>C4. An info file round trip: \<open>load_meta_data()\<close> on a song whose meta data is not
  loaded, with an info file that \<open>save_meta_data()\<close> wrote, gives under every
  spelling of every key the values of the song that was written, in order.\<close>

theorem info_file_roundtrip:
  assumes "song_meta_ok song" and "meta_storable song"
    and "files fs (meta_name b TYPE_META fresh) = Some (save_meta_data song)"
    and "meta_keys fresh = []" and "meta_key_count fresh = -1"
    and "db_overwriteinfo cfg = 0"
  shows "\<exists>song'. load_meta_data b cfg tags TYPE_META fresh fs = Inr (song', fs) \<and>
    song_meta_ok song' \<and> (\<forall>k. meta_values song' k = meta_values song k)"
proof -
  let ?f = "fresh\<lparr>meta_key_count := 0\<rparr>"
  have f: "?f = fresh\<lparr>meta_keys := [], meta_key_count := 0\<rparr>" using assms(4) by simp
  obtain s' where s': "parse_file (Some (render_lines (info_lines song))) insert_meta_data ?f = Inr (True, s')"
    "song_meta_ok s'" "\<forall>k. meta_values s' k = meta_values ?f k @ pairs_under k (line_pairs (info_lines song))"
    using meta.parse_file_vals [of ?f "info_lines song"] new_song_meta_ok [of fresh]
      info_lines_ok [OF assms(2)] unfolding f by (auto simp: info_lines_def)
  have vals: "meta_values s' k = meta_values song k" for k
    using s'(3) info_lines_pairs [OF assms(1,2), of k] unfolding f by simp
  have name: "meta_name b TYPE_META ?f = meta_name b TYPE_META fresh"
    by (simp add: meta_name_def build_fullfilename_def)
  have add: "add_data (db_extension_for TYPE_META) = insert_meta_data"
    by (simp add: db_extension_for_def)
  have "load_meta_data b cfg tags TYPE_META fresh fs = Inr (s', fs)"
    using s'(1) assms(3,5,6) by (simp add: load_meta_data_def Let_def name add save_meta_data_render [OF assms(1)])
  with s'(2) vals show ?thesis by blast
qed

lemma ex_song_storable: "meta_storable ex_song"
  by (simp add: meta_storable_def ex_song_def key_ok_def value_ok_def blank_def)

theorem info_file_roundtrip_witness:
  "\<exists>song'. load_meta_data ex_build ex_config (\<lambda>_ _. []) TYPE_META (new_song ex_config ''a.mp3'')
      (ex_fs\<lparr>files := [''/i/a.mp3.info'' \<mapsto> save_meta_data ex_song]\<rparr>) =
      Inr (song', ex_fs\<lparr>files := [''/i/a.mp3.info'' \<mapsto> save_meta_data ex_song]\<rparr>) \<and>
    song_meta_ok song' \<and> (\<forall>k. meta_values song' k = meta_values ex_song k)"
  by (rule info_file_roundtrip [OF ex_song_meta_ok ex_song_storable])
    (simp_all add: meta_name_def ex_build_def new_song_def build_fullfilename_eq db_extension_for_def
      path_of_def ex_config_def)

section \<open>Stat files\<close>

lemma write_file_frame:
  "write_file p text fs = Inr fs' \<Longrightarrow> q \<noteq> p \<Longrightarrow> files fs' q = files fs q"
  by (auto simp: write_file_def split: if_splits)

lemma create_dir_of_extends: "create_dir_of name fs = Inr fs' \<Longrightarrow> fs_extends fs fs'"
  using create_path_exists(2) by (auto simp: create_dir_of_def split: option.splits)

text \<open>When \<open>save_song()\<close> has something to do, and the file it writes.\<close>

definition needs_save :: "config \<Rightarrow> bool \<Rightarrow> song_info \<Rightarrow> bool" where
  "needs_save cfg loaded song \<longleftrightarrow> db_readonly cfg = 0 \<and> loaded \<and> stat_changed (stat song)"

abbreviation stat_file :: "song_info \<Rightarrow> string" where
  "stat_file song \<equiv> build_fullfilename song BASENAME_STAT"

lemma save_song_cases:
  "save_song cfg loaded song fs =
     (if needs_save cfg loaded song
      then and_then (create_dir_of (stat_file song) fs) (\<lambda>fs.
           and_then (write_file (stat_file song) (fst (save_stat_data song)) fs) (\<lambda>fs.
           Inr (snd (save_stat_data song), fs)))
      else Inr (song, fs))"
  by (auto simp: save_song_def save_extension_def db_extension_for_def needs_save_def
      is_stat_data_changed_def save_stat_data_def Let_def and_then_def split: sum.splits)

lemma needs_save_after: "\<not> needs_save cfg loaded (snd (save_stat_data song))"
  by (simp add: needs_save_def save_stat_data_def)

lemma saved_song_frame:
  "save_song cfg loaded song fs = Inr (song', fs') \<Longrightarrow>
     basename song' = basename song \<and> filename song' = filename song \<and>
     stat song' = (stat song)\<lparr>stat_changed := stat_changed (stat song) \<and> \<not> needs_save cfg loaded song\<rparr>"
  by (auto simp: save_song_cases save_stat_data_def split: if_splits)

text \<open>What \<open>save_song()\<close> does to the disk: nothing unless the database may be
  written, its statistics have been loaded and the song's have changed; then
  exactly the song's stat file is written and the change mark is cleared, so
  that saving again does nothing.\<close>

theorem save_song_effect:
  assumes "save_song cfg loaded song fs = Inr (song', fs')"
  shows "(needs_save cfg loaded song \<longrightarrow>
            files fs' (stat_file song) = Some (fst (save_stat_data song)) \<and> \<not> stat_changed (stat song')) \<and>
         (\<not> needs_save cfg loaded song \<longrightarrow> song' = song \<and> fs' = fs) \<and>
         (\<forall>q. q \<noteq> stat_file song \<longrightarrow> files fs' q = files fs q) \<and>
         save_song cfg loaded song' fs' = Inr (song', fs')"
proof (cases "needs_save cfg loaded song")
  case False
  then show ?thesis using assms by (simp add: save_song_cases)
next
  case True
  then obtain fs1 where 1: "create_dir_of (stat_file song) fs = Inr fs1"
    "write_file (stat_file song) (fst (save_stat_data song)) fs1 = Inr fs'"
    "song' = snd (save_stat_data song)"
    using assms by (auto simp: save_song_cases)
  have "save_song cfg loaded song' fs' = Inr (song', fs')"
    using needs_save_after by (simp add: save_song_cases 1(3))
  moreover have "files fs1 = files fs" using create_dir_of_extends [OF 1(1)] by (simp add: fs_extends_def)
  moreover have "\<not> stat_changed (stat song')" by (simp add: 1(3) save_stat_data_def)
  ultimately show ?thesis
    using True write_file_content [OF 1(2)] write_file_frame [OF 1(2)] by simp
qed

theorem save_song_effect_witness:
  "\<exists>song' fs'. save_song ex_config True ex_song ex_fs = Inr (song', fs') \<and>
     files fs' ''/s/a.mp3.stat'' = Some (fst (save_stat_data ex_song)) \<and> \<not> stat_changed (stat song')"
proof -
  have f: "stat_file ex_song = ''/s/a.mp3.stat''" and n: "needs_save ex_config True ex_song"
    by (simp_all add: build_fullfilename_eq ex_song_def new_song_def path_of_def ex_config_def needs_save_def)
  have "\<exists>song' fs'. save_song ex_config True ex_song ex_fs = Inr (song', fs')"
    by (simp add: save_song_cases n f create_dir_of_def create_path_def mkdir_or_exists_def
        path_exists_def ex_fs_def write_file_def parent_exists_def)
  then obtain song' fs' where "save_song ex_config True ex_song ex_fs = Inr (song', fs')" by blast
  with save_song_effect [OF this] n f show ?thesis by auto
qed

text \<open>What reading a stat file does to a song.\<close>

lemma load_stat:
  assumes "stat_int32 (stat song)"
    and "files fs (stat_file song) = Some (fst (save_stat_data song))"
    and "basename other = basename song" and "filename other = filename song"
  shows "load_meta_data b cfg tags TYPE_STAT other fs =
    Inr (other\<lparr>stat := merge_stat (stat other) (stat song)\<rparr>, fs)"
proof -
  have name: "meta_name b TYPE_STAT other = stat_file song"
    using assms(3,4) by (simp add: meta_name_def db_extension_for_def build_fullfilename_eq)
  have add: "add_data (db_extension_for TYPE_STAT) = set_stat_data"
    by (simp add: db_extension_for_def)
  show ?thesis
    using parse_saved_stat [OF assms(1)]
    by (simp add: load_meta_data_def Let_def name add assms(2))
qed

lemma saved_stat_file:
  assumes "save_song cfg loaded song fs = Inr (song', fs')" and "needs_save cfg loaded song"
  shows "files fs' (stat_file song) = Some (fst (save_stat_data song))"
  using assms write_file_content by (auto simp: save_song_cases)

text \<open>C13. Statistics survive a restart: when a changed song is saved and its stat file is
  then read into a song entry as \<open>_load_file()\<close> makes it, the entry has the
  saved statistics.  Counts are within the range of a C \<open>int\<close>.\<close>

theorem stat_file_roundtrip:
  assumes "save_song cfg loaded song fs = Inr (song', fs')" and "needs_save cfg loaded song"
    and "stat_int32 (stat song)" and "basename song = path_of cfg"
  shows "load_meta_data b cfg tags TYPE_STAT (new_song cfg (filename song)) fs' =
    Inr ((new_song cfg (filename song))\<lparr>stat := stat song'\<rparr>, fs')"
proof -
  have "merge_stat (stat (new_song cfg (filename song))) (stat song) = stat song'"
    using saved_song_frame [OF assms(1)] assms(2) by (simp add: merge_stat_def new_song_def)
  then show ?thesis
    using load_stat [OF assms(3) saved_stat_file [OF assms(1,2)], of "new_song cfg (filename song)"] assms(4)
    by (simp add: new_song_def)
qed

lemma ex_song_saves:
  obtains fs' where "save_song ex_config True ex_song ex_fs = Inr (snd (save_stat_data ex_song), fs')"
proof -
  have f: "stat_file ex_song = ''/s/a.mp3.stat''" and n: "needs_save ex_config True ex_song"
    by (simp_all add: build_fullfilename_eq ex_song_def new_song_def path_of_def ex_config_def needs_save_def)
  show ?thesis
    by (rule that) (simp add: save_song_cases n f create_dir_of_def create_path_def mkdir_or_exists_def
        path_exists_def ex_fs_def write_file_def parent_exists_def)
qed

lemma ex_song_facts:
  "needs_save ex_config True ex_song" "stat_int32 (stat ex_song)" "basename ex_song = path_of ex_config"
  "filename ex_song = ''a.mp3''" "play_count (stat ex_song) = 3" "skip_count (stat ex_song) = 1"
  by (simp_all add: needs_save_def ex_song_def ex_config_def stat_int32_def int32_def new_song_def)

theorem stat_file_roundtrip_witness:
  "\<exists>fs' s. load_meta_data ex_build ex_config (\<lambda>_ _. []) TYPE_STAT (new_song ex_config ''a.mp3'') fs' =
     Inr (s, fs') \<and> play_count (stat s) = 3"
proof -
  obtain fs' where "save_song ex_config True ex_song ex_fs = Inr (snd (save_stat_data ex_song), fs')"
    by (rule ex_song_saves)
  from stat_file_roundtrip [OF this ex_song_facts(1-3), of ex_build "\<lambda>_ _. []"] ex_song_facts(4,5)
  show ?thesis by (intro exI) (auto simp: save_stat_data_def)
qed

text \<open>Reading the statistics of a song again, as the edit command does after saving
  it, adds the counts of the file to those in memory: every count is doubled.\<close>

theorem stat_reload_doubles:
  assumes "save_song cfg loaded song fs = Inr (song', fs')" and "needs_save cfg loaded song"
    and "stat_int32 (stat song)"
  shows "\<exists>song''. load_meta_data b cfg tags TYPE_STAT song' fs' = Inr (song'', fs') \<and>
    play_count (stat song'') = 2 * play_count (stat song) \<and>
    skip_count (stat song'') = 2 * skip_count (stat song)"
  using load_stat [OF assms(3) saved_stat_file [OF assms(1,2)], of song' b cfg tags]
    saved_song_frame [OF assms(1)]
  by (simp add: merge_stat_def)

theorem stat_reload_doubles_witness:
  "\<exists>fs' s. load_meta_data ex_build ex_config (\<lambda>_ _. []) TYPE_STAT (snd (save_stat_data ex_song)) fs' =
     Inr (s, fs') \<and> play_count (stat s) = 6"
proof -
  obtain fs' where "save_song ex_config True ex_song ex_fs = Inr (snd (save_stat_data ex_song), fs')"
    by (rule ex_song_saves)
  from stat_reload_doubles [OF this ex_song_facts(1,2), of ex_build "\<lambda>_ _. []"] ex_song_facts(5)
  show ?thesis by auto
qed

section \<open>The list of songs\<close>

lemma db_ok_empty [simp]: "db_ok (db\<lparr>songs := [], song_count_allocated := 0\<rparr>)"
  by (simp add: db_ok_def song_count_def)

text \<open>The mapping of a masterlist file can be read up to a NUL.\<close>

definition mapping_terminated :: "string \<Rightarrow> bool" where
  "mapping_terminated mem \<longleftrightarrow> length mem mod PAGE_SIZE \<noteq> 0 \<or> NUL \<in> set mem"

lemma save_masterlist_text:
  assumes "save_masterlist cfg ctime db fs = Inr fs'" and "db_readonly cfg = 0"
  obtains path where "db_masterlist_path cfg = Some path"
    "files fs' path = Some (masterlist_text ctime (map filename (songs db)))"
proof -
  obtain path where p: "db_masterlist_path cfg = Some path"
    using assms by (auto simp: save_masterlist_def split: option.splits)
  have "masterlist_text ctime (map filename (songs db)) =
      ''# Saved Squash masterlist'' @ [LF] @ ''# Auto-Generated on '' @ ctime @ [LF] @
      concat (map (\<lambda>s. filename s @ [LF]) (songs db))"
    by (simp add: masterlist_text_def comp_def)
  then have "write_file path (masterlist_text ctime (map filename (songs db))) fs = Inr fs'"
    using assms p by (simp add: save_masterlist_def)
  then show ?thesis using that p write_file_content by blast
qed

text \<open>C11. A masterlist round trip: loading a masterlist that \<open>save_masterlist()\<close> wrote
  appends exactly the saved songs, in their order, to the database.  Names
  must be ones a line can carry (not empty, not starting with \<open>#\<close>, no line feed
  or NUL), and the file must not fill its last memory page.\<close>

theorem masterlist_roundtrip:
  assumes "save_masterlist cfg ctime db fs = Inr fs'" and "db_readonly cfg = 0"
    and "ctime = t @ [LF]" and "LF \<notin> set t" and "NUL \<notin> set t"
    and "\<forall>song \<in> set (songs db). name_ok (filename song)"
    and "mapping_terminated (masterlist_text ctime (map filename (songs db)))"
    and "db_ok db0"
  shows "\<exists>db'. load_masterlist b cfg fs' db0 = Inr db' \<and> db_ok db' \<and>
    songs db' = songs db0 @ map (\<lambda>song. new_song cfg (filename song)) (songs db)"
proof -
  let ?ns = "map filename (songs db)"
  obtain path where p: "db_masterlist_path cfg = Some path"
    "files fs' path = Some (masterlist_text ctime ?ns)"
    using save_masterlist_text [OF assms(1,2)] by blast
  have lines: "filter masterlist_line_used (split_lines (c_str (masterlist_text ctime ?ns))) = ?ns"
    using assms(6) by (intro masterlist_lines [OF assms(3-5)]) auto
  have "masterlist_text ctime ?ns \<noteq> []" by (simp add: masterlist_text_def)
  then have "load_masterlist b cfg fs' db0 =
      fold_result (\<lambda>l. load_file b cfg fs' (Some l) True) ?ns db0"
    using assms(7) p lines by (auto simp: load_masterlist_def mapping_terminated_def)
  then show ?thesis
    using load_names_trusted [OF assms(8), of b cfg fs' ?ns] by (simp add: comp_def)
qed

theorem masterlist_roundtrip_witness:
  "\<exists>fs' db'. save_masterlist ex_config ''now\<newline>'' (ex_db\<lparr>songs := [ex_song]\<rparr>) ex_fs = Inr fs' \<and>
     load_masterlist ex_build ex_config fs' ex_db = Inr db' \<and>
     map filename (songs db') = [''a.mp3'']"
proof -
  let ?db = "ex_db\<lparr>songs := [ex_song]\<rparr>"
  have n: "filename ex_song = ''a.mp3''" by (simp add: ex_song_def)
  have "\<exists>fs'. save_masterlist ex_config ''now\<newline>'' ?db ex_fs = Inr fs'"
    by (simp add: save_masterlist_def ex_config_def write_file_def ex_fs_def parent_exists_def)
  then obtain fs' where save: "save_masterlist ex_config ''now\<newline>'' ?db ex_fs = Inr fs'" by blast
  have "\<exists>db'. load_masterlist ex_build ex_config fs' ex_db = Inr db' \<and> db_ok db' \<and>
    songs db' = songs ex_db @ map (\<lambda>song. new_song ex_config (filename song)) (songs ?db)"
    by (rule masterlist_roundtrip [OF save, of "''now''"])
      (simp_all add: ex_config_def n name_ok_def masterlist_line_used_def mapping_terminated_def
        masterlist_text_def PAGE_SIZE_def db_ok_def song_count_def ex_db_def)
  then show ?thesis using save n by (auto simp: ex_db_def)
qed

text \<open>A masterlist of exactly one or more whole pages without a NUL byte is read
  past the end of its mapping.\<close>

theorem masterlist_page_overrun:
  assumes "db_masterlist_path cfg = Some path" and "files fs path = Some mem"
    and "mem \<noteq> []" and "\<not> mapping_terminated mem"
  shows "load_masterlist b cfg fs db = Inl Out_Of_Bounds"
  using assms by (simp add: load_masterlist_def mapping_terminated_def)

theorem masterlist_page_overrun_witness:
  "load_masterlist ex_build ex_config (ex_fs\<lparr>files := [''/l'' \<mapsto> replicate 4096 (CHR ''a'')]\<rparr>) ex_db = Inl Out_Of_Bounds"
  by (rule masterlist_page_overrun [where path = "''/l''" and mem = "replicate 4096 (CHR ''a'')"])
    (simp_all add: ex_config_def mapping_terminated_def PAGE_SIZE_def)

text \<open>The names that the walk keeps: those that the type test recognises.\<close>

definition is_song_name :: "build \<Rightarrow> config \<Rightarrow> filesys \<Rightarrow> string \<Rightarrow> bool" where
  "is_song_name b cfg fs n =
     (case get_song_type b fs (db_paths cfg BASENAME_SONG) (Some n) of
        Inl _ \<Rightarrow> False | Inr t \<Rightarrow> t \<noteq> TYPE_UNKNOWN)"

lemma load_names_untrusted:
  assumes "db_ok db" and "\<forall>n \<in> set ns. returns (get_song_type b fs (db_paths cfg BASENAME_SONG) (Some n))"
  shows "\<exists>db'. fold_result (\<lambda>n. load_file b cfg fs (Some n) False) ns db = Inr db' \<and> db_ok db' \<and>
    songs db' = songs db @ map (new_song cfg) (filter (is_song_name b cfg fs) ns)"
  using assms
proof (induction ns arbitrary: db)
  case Nil
  then show ?case by simp
next
  case (Cons n ns)
  obtain t where t: "get_song_type b fs (db_paths cfg BASENAME_SONG) (Some n) = Inr t"
    using Cons.prems(2) by (auto simp: returns_iff)
  from load_file_untrusted [OF Cons.prems(1) t] obtain db1 where 1:
    "load_file b cfg fs (Some n) False db = Inr db1" "db_ok db1"
    "songs db1 = songs db @ (if t = TYPE_UNKNOWN then [] else [new_song cfg n])" by blast
  from Cons.IH [OF 1(2)] Cons.prems(2) 1 t show ?case by (auto simp: is_song_name_def)
qed

text \<open>C12. The walk over the song directory loads the files of the tree that are songs,
  each once, in the order of the walk, and never writes outside the array of
  songs.  Every name has at least five characters; the build has no magic test.\<close>

theorem walk_loads_songs:
  assumes "names_fit root_dir" and "db_ok db" and "\<not> USE_MAGIC b"
    and "\<forall>n \<in> set (tree_files None root_dir). 5 \<le> length n"
  shows "\<exists>db'. walk_filesystem (\<lambda>n. load_file b cfg fs (Some n) False) None root_dir db = Inr db' \<and>
    db_ok db' \<and>
    songs db' = songs db @ map (new_song cfg) (filter (is_song_name b cfg fs) (tree_files None root_dir))"
  unfolding walk_is_fold(1) [OF assms(1)]
  using assms by (intro load_names_untrusted) (auto intro: get_song_type_returns)

definition ex_tree :: node where
  "ex_tree = Directory (Some [(''.'', Directory None), (''a.mp3'', Regular), (''notes'', Regular),
     (''d'', Directory (Some [(''..'', Directory None), (''b.ogg'', Regular)]))])"

theorem walk_loads_songs_witness:
  "\<exists>db'. walk_filesystem (\<lambda>n. load_file ex_build ex_config ex_fs (Some n) False) None ex_tree ex_db = Inr db' \<and>
     map filename (songs db') = [''a.mp3'', ''d/b.ogg'']"
proof -
  have "\<exists>db'. walk_filesystem (\<lambda>n. load_file ex_build ex_config ex_fs (Some n) False) None ex_tree ex_db = Inr db' \<and>
    db_ok db' \<and> songs db' = songs ex_db @ map (new_song ex_config)
      (filter (is_song_name ex_build ex_config ex_fs) (tree_files None ex_tree))"
    by (rule walk_loads_songs)
      (simp_all add: ex_tree_def ex_build_def ex_db_def db_ok_def song_count_def join_path_def)
  then show ?thesis
    by (auto simp: ex_tree_def join_path_def ex_db_def is_song_name_def get_song_type_def
        suffix_matches_def strncasecmp0_exact to_lower_def ex_build_def)
qed

lemma find_song_from_same_base:
  assumes "\<forall>song \<in> set ss. basename song BASENAME_SONG = base"
    and "distinct (map filename ss)" and "i < length ss"
    and "name = base @ ''/'' @ filename (ss ! i)"
  shows "find_song_from name k ss = Inr (Some (k + i))"
  using assms
proof (induction ss arbitrary: i k)
  case Nil
  then show ?case by simp
next
  case (Cons s ss)
  show ?case
  proof (cases i)
    case 0
    then show ?thesis using Cons.prems strncmp0_prefix [of base] by (simp add: Let_def)
  next
    case (Suc j)
    then have "filename s \<noteq> filename (ss ! j)" using Cons.prems(2,3) by auto
    then show ?thesis using Cons Suc by (simp add: Let_def)
  qed
qed

text \<open>A song is found by its full file name, as the saved state stores it: in a database
  whose songs lie under one directory and have distinct names, looking up
  what \<open>build_fullfilename()\<close> gives for a song returns that song.\<close>

theorem find_song_by_fullname:
  assumes "\<forall>song \<in> set (songs db). basename song BASENAME_SONG = base"
    and "distinct (map filename (songs db))" and "i < length (songs db)"
  shows "find_song_by_filename db (Some (build_fullfilename (songs db ! i) BASENAME_SONG)) = Inr (Some i)"
  using find_song_from_same_base [OF assms, of _ 0] assms(1,3)
  by (simp add: find_song_by_filename_def build_fullfilename_eq)

theorem find_song_by_fullname_witness:
  "find_song_by_filename (ex_db\<lparr>songs := map (new_song ex_config) [''a.mp3'', ''b.mp3'']\<rparr>)
     (Some (build_fullfilename (new_song ex_config ''b.mp3'') BASENAME_SONG)) = Inr (Some 1)"
  using find_song_by_fullname [of "ex_db\<lparr>songs := map (new_song ex_config) [''a.mp3'', ''b.mp3'']\<rparr>" "''/m''" 1]
  by (simp add: new_song_def path_of_def ex_config_def)

text \<open>After \<open>create_path()\<close> the directory and every prefix of it that ends before a
  slash exist, and nothing that existed is lost.\<close>

theorem create_path_makes_prefixes:
  assumes "create_path dir fs = Inr fs'"
  shows "path_exists fs' dir \<and> fs_extends fs fs' \<and>
    (\<forall>xs ys. dir = xs @ CHR ''/'' # ys \<longrightarrow> xs \<noteq> [] \<longrightarrow> path_exists fs' xs)"
  using create_path_exists [OF assms] by blast

theorem create_path_makes_prefixes_witness:
  "\<exists>fs'. create_path ''/s/a/b'' ex_fs = Inr fs' \<and> path_exists fs' ''/s/a'' \<and> path_exists fs' ''/s/a/b''"
proof -
  have "\<exists>fs'. create_path ''/s/a/b'' ex_fs = Inr fs'"
    by (simp add: create_path_def mkdir_or_exists_def path_exists_def ex_fs_def parent_exists_def)
  then obtain fs' where "create_path ''/s/a/b'' ex_fs = Inr fs'" by blast
  with create_path_makes_prefixes [OF this] show ?thesis by (auto dest: spec [of _ "''/s/a''"])
qed

text \<open>The type test looks at the last four characters of a name before it knows that
  there are four: on a name of one to three characters it reads before the
  string.\<close>

theorem song_type_of_short_name:
  assumes "0 < length name" and "length name < 4"
  shows "get_song_type b fs base (Some name) = Inl Out_Of_Bounds"
  using assms by (rule get_song_type_short)

theorem song_type_of_short_name_witness: "get_song_type ex_build ex_fs None (Some ''abc'') = Inl Out_Of_Bounds"
  by (rule song_type_of_short_name) simp_all

end
