(* ===== verification/Stat.thy ===== *)
theory Stat
  imports Database
begin

text \<open>
  Ratings and the choice of the next song, \<open>src/src/stat.c\<close>: \<open>get_rating()\<close>,
  \<open>start_song_picker()\<close>, \<open>normal_test()\<close>, \<open>pick_song()\<close> and \<open>feedback()\<close>.

  Arithmetic on \<open>double\<close> is exact real arithmetic with the not-a-number and
  infinity that a division by zero gives; rounding is not modelled.  The values
  of \<open>rand()\<close> are a list that a routine consumes; running out of it means that the
  routine has not returned yet (\<open>None\<close>).
\<close>

section \<open>Ratings\<close>

definition get_rating :: "real \<Rightarrow> stat_info \<Rightarrow> real" where
  "get_rating bias st =
     (let auto_rating = real_of_int (play_count st - skip_count st) /
                        real_of_int (play_count st + skip_count st + 1) in
      if manual_rating st = -1 then auto_rating
      else auto_rating * (1 - bias) + (real_of_int (manual_rating st) - 5) / 5 * bias)"

definition add_song_stat :: "real \<Rightarrow> song_info \<Rightarrow> database_info \<Rightarrow> database_info" where
  "add_song_stat bias song db =
     (let rating = get_rating bias (stat song); p = play_count (stat song); k = skip_count (stat song) in
      db\<lparr>db_sum := db_sum db + rating,
         db_sqr_sum := db_sqr_sum db + rating * rating,
         play_sum := play_sum db + p,
         play_sqr_sum := play_sqr_sum db + p * p,
         skip_sum := skip_sum db + k,
         skip_sqr_sum := skip_sqr_sum db + k * k\<rparr>)"

definition start_song_picker :: "config \<Rightarrow> database_info \<Rightarrow> database_info" where
  "start_song_picker cfg db =
     (fold (add_song_stat (db_manual_rating_bias cfg)) (songs db)
        (db\<lparr>db_sum := 0, db_sqr_sum := 0, play_sum := 0, play_sqr_sum := 0,
            skip_sum := 0, skip_sqr_sum := 0\<rparr>))\<lparr>stats_loaded := True\<rparr>"

text \<open>
  \<open>feedback(song, direction)\<close>; a negative direction is a skip.  A null song is
  dereferenced at once.
\<close>

definition feedback_stat :: "int \<Rightarrow> stat_info \<Rightarrow> stat_info" where
  "feedback_stat direction st =
     (if direction < 0 then st\<lparr>skip_count := skip_count st + 1, stat_changed := True\<rparr>
      else st\<lparr>play_count := play_count st + 1, stat_changed := True\<rparr>)"

definition feedback ::
  "config \<Rightarrow> nat option \<Rightarrow> int \<Rightarrow> database_info \<Rightarrow> filesys \<Rightarrow> (database_info \<times> filesys) result" where
  "feedback cfg song direction db fs =
     (case song of
        None \<Rightarrow> Inl Null_Deref
      | Some i \<Rightarrow>
        and_then (read_at (songs db) (int i)) (\<lambda>s.
        let st = stat s;
            rating = get_rating (db_manual_rating_bias cfg) st;
            db = db\<lparr>db_sum := db_sum db - rating, db_sqr_sum := db_sqr_sum db - rating * rating\<rparr>;
            st' = feedback_stat direction st;
            db = (if direction < 0 then
                    db\<lparr>skip_sqr_sum := skip_sqr_sum db - skip_count st * skip_count st +
                         skip_count st' * skip_count st',
                       skip_sum := skip_sum db + 1\<rparr>
                  else
                    db\<lparr>play_sqr_sum := play_sqr_sum db - play_count st * play_count st +
                         play_count st' * play_count st',
                       play_sum := play_sum db + 1\<rparr>);
            rating' = get_rating (db_manual_rating_bias cfg) st';
            db = db\<lparr>db_sum := db_sum db + rating', db_sqr_sum := db_sqr_sum db + rating' * rating'\<rparr>
        in
        map_result (\<lambda>(s', fs'). (db\<lparr>songs := (songs db)[i := s']\<rparr>, fs'))
          (save_song cfg (stats_loaded db) (s\<lparr>stat := st'\<rparr>) fs)))"

section \<open>The normal test\<close>

datatype zscore = Z real | Z_Infinite | Z_NaN

definition z_score :: "real \<Rightarrow> real \<Rightarrow> real \<Rightarrow> zscore" where
  "z_score x a s = (if s = 0 then (if x = a then Z_NaN else Z_Infinite) else Z ((x - a) / s))"

definition pdf_table :: "real list" where
  "pdf_table = [0, 3413 / 10000, 4772 / 10000, 4987 / 10000, 5000 / 10000]"

text \<open>The area under the bell between 0 and \<open>z\<close>, interpolated in the table.\<close>

definition table_area :: "real \<Rightarrow> real" where
  "table_area z =
     (let pdf_pos = \<lceil>z\<rceil> in
      if z = 0 then 0
      else if pdf_pos > 4 then 5 / 10
      else (let ratio = real_of_int pdf_pos - z in
            pdf_table ! nat (pdf_pos - 1) * ratio + pdf_table ! nat pdf_pos * (1 - ratio)))"

definition normal_area :: "real \<Rightarrow> real" where
  "normal_area z = (if z < 0 then 5 / 10 - table_area \<bar>z\<bar> else 5 / 10 + table_area \<bar>z\<bar>)"

definition RAND_MAX :: nat where
  "RAND_MAX = 2147483647"

definition rand_fraction :: "nat \<Rightarrow> real" where
  "rand_fraction r = real r / (real RAND_MAX + 1)"

text \<open>
  \<open>pdf_pos = ceil(z)\<close> converts a \<open>double\<close> to \<open>int\<close>, which is undefined when it does
  not fit.  The result is the verdict with the random values left over.
\<close>

definition normal_test :: "real \<Rightarrow> real \<Rightarrow> real \<Rightarrow> nat list \<Rightarrow> (bool \<times> nat list) option result" where
  "normal_test x a s rands =
     (case z_score x a s of
        Z_NaN \<Rightarrow> Inr (Some (True, rands))
      | Z_Infinite \<Rightarrow> Inl Undefined_Conversion
      | Z z \<Rightarrow>
        if \<lceil>\<bar>z\<bar>\<rceil> > 2147483647 then Inl Undefined_Conversion
        else (case rands of
                [] \<Rightarrow> Inr None
              | r # rs \<Rightarrow> Inr (Some (normal_area z > rand_fraction r, rs))))"

section \<open>Picking a song\<close>

definition average :: "database_info \<Rightarrow> real" where
  "average db = db_sum db / real_of_int (song_count db)"

definition std_dev :: "database_info \<Rightarrow> real" where
  "std_dev db = sqrt \<bar>db_sqr_sum db / real_of_int (song_count db) - average db * average db\<bar>"

definition candidate :: "database_info \<Rightarrow> nat \<Rightarrow> int" where
  "candidate db r = \<lfloor>real_of_int (song_count db) * real r / (real RAND_MAX + 1)\<rfloor>"

definition set_stat :: "nat \<Rightarrow> stat_info \<Rightarrow> database_info \<Rightarrow> database_info" where
  "set_stat i st db = db\<lparr>songs := (songs db)[i := (songs db ! i)\<lparr>stat := st\<rparr>]\<rparr>"

text \<open>
  One accepted candidate: it is marked changed and its counter goes down; if
  the counter had reached 0 it is set to 10 and the song is the choice.
\<close>

definition accept_candidate :: "nat \<Rightarrow> database_info \<Rightarrow> bool \<times> database_info" where
  "accept_candidate c db =
     (let st = stat (songs db ! c) in
      if repeat_counter st \<noteq> 0
      then (False, set_stat c (st\<lparr>stat_changed := True, repeat_counter := repeat_counter st - 1\<rparr>) db)
      else (True, set_stat c (st\<lparr>stat_changed := True, repeat_counter := 10\<rparr>) db))"

function pick_loop ::
  "real \<Rightarrow> real \<Rightarrow> real \<Rightarrow> database_info \<Rightarrow> nat list \<Rightarrow> (nat \<times> database_info) option result" where
  "pick_loop bias avg sd db [] = Inr None"
| "pick_loop bias avg sd db (r # rs) =
     and_then (read_at (songs db) (candidate db r)) (\<lambda>song.
     case normal_test (get_rating bias (stat song)) avg sd rs of
       Inl e \<Rightarrow> Inl e
     | Inr None \<Rightarrow> Inr None
     | Inr (Some (ok, rs')) \<Rightarrow>
       if length rs < length rs' then Inr None
       else if \<not> ok then pick_loop bias avg sd db rs'
       else (case accept_candidate (nat (candidate db r)) db of
               (done, db') \<Rightarrow>
                 if done then Inr (Some (nat (candidate db r), db'))
                 else pick_loop bias avg sd db' rs'))"
  by pat_completeness auto
termination
  by (relation "measure (\<lambda>(bias, avg, sd, db, rs). length rs)") auto

definition pick_song ::
  "config \<Rightarrow> database_info \<Rightarrow> nat list \<Rightarrow> (nat \<times> database_info) option result" where
  "pick_song cfg db rands =
     pick_loop (db_manual_rating_bias cfg) (average db) (std_dev db) db rands"

end
