(* ===== verification/Stat_Correct.thy ===== *)
theory Stat_Correct
  imports Stat Database_Correct
begin

text \<open>
  What ratings and the song picker guarantee: the bounds of a rating, the
  running sums of the database against the songs they stand for, the normal
  test, and the choice of a song.
\<close>

section \<open>Ratings\<close>

definition stat_ok :: "stat_info \<Rightarrow> bool" where
  "stat_ok st \<longleftrightarrow> 0 \<le> play_count st \<and> 0 \<le> skip_count st \<and> 0 \<le> repeat_counter st \<and>
     - 1 \<le> manual_rating st \<and> manual_rating st \<le> 10"

definition auto_rating :: "stat_info \<Rightarrow> real" where
  "auto_rating st = real_of_int (play_count st - skip_count st) /
     real_of_int (play_count st + skip_count st + 1)"

lemma get_rating_auto:
  "get_rating bias st =
     (if manual_rating st = -1 then auto_rating st
      else auto_rating st * (1 - bias) + (real_of_int (manual_rating st) - 5) / 5 * bias)"
  by (simp add: get_rating_def auto_rating_def Let_def)

lemma auto_rating_bounds:
  assumes "stat_ok st"
  shows "- 1 < auto_rating st" "auto_rating st < 1"
  using assms by (auto simp: stat_ok_def auto_rating_def field_simps)

lemma weighted_mean_bounds:
  fixes x y w :: real
  assumes "- 1 < x" "x < 1" "- 1 \<le> y" "y \<le> 1" "0 \<le> w" "w < 1"
  shows "- 1 < x * (1 - w) + y * w" "x * (1 - w) + y * w < 1"
proof -
  have "x * (1 - w) < 1 * (1 - w)" using assms by (intro mult_strict_right_mono) auto
  moreover have "y * w \<le> 1 * w" using assms by (intro mult_right_mono) auto
  ultimately show "x * (1 - w) + y * w < 1" by simp
  have "- 1 * (1 - w) < x * (1 - w)" using assms by (intro mult_strict_right_mono) auto
  moreover have "- 1 * w \<le> y * w" using assms by (intro mult_right_mono) auto
  ultimately show "- 1 < x * (1 - w) + y * w" by simp
qed

text \<open>A rating lies strictly between -1 and 1, for counts that are not negative, a
  manual rating from 0 to 10 or none, and a bias below 1.\<close>

theorem rating_between:
  assumes "stat_ok st" and "0 \<le> bias" and "bias < 1"
  shows "- 1 < get_rating bias st \<and> get_rating bias st < 1"
proof (cases "manual_rating st = -1")
  case True
  then show ?thesis using auto_rating_bounds [OF assms(1)] by (simp add: get_rating_auto)
next
  case False
  have "- 1 \<le> (real_of_int (manual_rating st) - 5) / 5" "(real_of_int (manual_rating st) - 5) / 5 \<le> 1"
    using False assms(1) by (auto simp: stat_ok_def)
  from weighted_mean_bounds [OF auto_rating_bounds [OF assms(1)] this assms(2,3)] False
  show ?thesis unfolding get_rating_auto by simp
qed

theorem rating_between_witness:
  "- 1 < get_rating (1 / 2) (stat ex_song) \<and> get_rating (1 / 2) (stat ex_song) < 1"
  by (rule rating_between) (simp_all add: stat_ok_def ex_song_def)

text \<open>The interval is not open when the configured bias is 1: a manual rating of 10
  then gives exactly 1, and a manual rating of 0 exactly -1.\<close>

theorem rating_reaches_bounds:
  "get_rating 1 (st\<lparr>manual_rating := 10\<rparr>) = 1 \<and> get_rating 1 (st\<lparr>manual_rating := 0\<rparr>) = - 1"
  by (simp add: get_rating_auto)

section \<open>The running sums\<close>

text \<open>The six sums kept in the database are those of the songs' statistics.\<close>

definition sums_ok :: "real \<Rightarrow> database_info \<Rightarrow> bool" where
  "sums_ok bias db \<longleftrightarrow>
     db_sum db = (\<Sum>s\<leftarrow>songs db. get_rating bias (stat s)) \<and>
     db_sqr_sum db = (\<Sum>s\<leftarrow>songs db. (get_rating bias (stat s))\<^sup>2) \<and>
     play_sum db = (\<Sum>s\<leftarrow>songs db. play_count (stat s)) \<and>
     play_sqr_sum db = (\<Sum>s\<leftarrow>songs db. (play_count (stat s))\<^sup>2) \<and>
     skip_sum db = (\<Sum>s\<leftarrow>songs db. skip_count (stat s)) \<and>
     skip_sqr_sum db = (\<Sum>s\<leftarrow>songs db. (skip_count (stat s))\<^sup>2)"

lemma sum_list_replace:
  fixes f :: "'a \<Rightarrow> 'b::ab_group_add"
  assumes "i < length xs"
  shows "sum_list (map f (xs[i := x])) = sum_list (map f xs) - f (xs ! i) + f x"
  using assms
proof (induction xs arbitrary: i)
  case Nil
  then show ?case by simp
next
  case (Cons y ys)
  then show ?case by (cases i) (simp_all add: algebra_simps)
qed

lemma fold_add_song_stat:
  "fold (add_song_stat bias) ss db =
     db\<lparr>db_sum := db_sum db + (\<Sum>s\<leftarrow>ss. get_rating bias (stat s)),
        db_sqr_sum := db_sqr_sum db + (\<Sum>s\<leftarrow>ss. (get_rating bias (stat s))\<^sup>2),
        play_sum := play_sum db + (\<Sum>s\<leftarrow>ss. play_count (stat s)),
        play_sqr_sum := play_sqr_sum db + (\<Sum>s\<leftarrow>ss. (play_count (stat s))\<^sup>2),
        skip_sum := skip_sum db + (\<Sum>s\<leftarrow>ss. skip_count (stat s)),
        skip_sqr_sum := skip_sqr_sum db + (\<Sum>s\<leftarrow>ss. (skip_count (stat s))\<^sup>2)\<rparr>"
  by (induction ss arbitrary: db) (simp_all add: add_song_stat_def Let_def power2_eq_square algebra_simps)

lemma start_song_picker_facts:
  "sums_ok (db_manual_rating_bias cfg) (start_song_picker cfg db)"
  "stats_loaded (start_song_picker cfg db)" "songs (start_song_picker cfg db) = songs db"
  by (simp_all add: start_song_picker_def fold_add_song_stat sums_ok_def)

text \<open>\<open>start_song_picker()\<close> sets every sum to that of the songs, marks the statistics
  as loaded and changes no song.\<close>

theorem start_song_picker_sums:
  "sums_ok (db_manual_rating_bias cfg) (start_song_picker cfg db) \<and>
   stats_loaded (start_song_picker cfg db) \<and> songs (start_song_picker cfg db) = songs db"
  by (simp add: start_song_picker_facts)

lemma get_rating_changed [simp]:
  "get_rating bias (st\<lparr>stat_changed := c\<rparr>) = get_rating bias st"
  "get_rating bias (st\<lparr>repeat_counter := n\<rparr>) = get_rating bias st"
  by (simp_all add: get_rating_auto auto_rating_def)

lemma save_song_stat:
  assumes "save_song cfg loaded song fs = Inr (song', fs')"
  shows "play_count (stat song') = play_count (stat song)" "skip_count (stat song') = skip_count (stat song)"
    "repeat_counter (stat song') = repeat_counter (stat song)"
    "manual_rating (stat song') = manual_rating (stat song)"
    "get_rating bias (stat song') = get_rating bias (stat song)"
  using saved_song_frame [OF assms] by simp_all

text \<open>Replacing one song: the sums move by the difference of its contributions.\<close>

lemma sums_ok_replace:
  assumes "sums_ok bias db" and "i < length (songs db)" and "songs db' = (songs db)[i := s']"
    and "st = stat (songs db ! i)" and "st' = stat s'"
    and "db_sum db' = db_sum db - get_rating bias st + get_rating bias st'"
    and "db_sqr_sum db' = db_sqr_sum db - get_rating bias st * get_rating bias st +
           get_rating bias st' * get_rating bias st'"
    and "play_sum db' = play_sum db - play_count st + play_count st'"
    and "play_sqr_sum db' = play_sqr_sum db - play_count st * play_count st + play_count st' * play_count st'"
    and "skip_sum db' = skip_sum db - skip_count st + skip_count st'"
    and "skip_sqr_sum db' = skip_sqr_sum db - skip_count st * skip_count st + skip_count st' * skip_count st'"
  shows "sums_ok bias db'"
  using assms by (simp add: sums_ok_def sum_list_replace power2_eq_square)

lemma feedback_Inr:
  assumes "feedback cfg (Some i) direction db fs = Inr (db', fs')"
  defines "st \<equiv> stat (songs db ! i)"
  defines "st' \<equiv> feedback_stat direction st"
  defines "r \<equiv> get_rating (db_manual_rating_bias cfg) st"
  defines "r' \<equiv> get_rating (db_manual_rating_bias cfg) st'"
  shows "i < length (songs db) \<and> (\<exists>s'. save_song cfg (stats_loaded db) ((songs db ! i)\<lparr>stat := st'\<rparr>) fs = Inr (s', fs') \<and>
    songs db' = (songs db)[i := s'] \<and> db_sum db' = db_sum db - r + r' \<and>
    db_sqr_sum db' = db_sqr_sum db - r * r + r' * r' \<and>
    play_sum db' = play_sum db - play_count st + play_count st' \<and>
    play_sqr_sum db' = play_sqr_sum db - play_count st * play_count st + play_count st' * play_count st' \<and>
    skip_sum db' = skip_sum db - skip_count st + skip_count st' \<and>
    skip_sqr_sum db' = skip_sqr_sum db - skip_count st * skip_count st + skip_count st' * skip_count st' \<and>
    stats_loaded db' = stats_loaded db \<and> song_count_allocated db' = song_count_allocated db)"
proof (cases "i < length (songs db)")
  case False
  then show ?thesis using assms(1) by (simp add: feedback_def read_at_def)
next
  case i: True
  have counts: "play_count st' = play_count st + (if direction < 0 then 0 else 1)"
    "skip_count st' = skip_count st + (if direction < 0 then 1 else 0)"
    by (simp_all add: st'_def feedback_stat_def)
  show ?thesis
  proof (cases "direction < 0")
    case True
    show ?thesis
      using assms(1) i counts True
      by (clarsimp simp: feedback_def Let_def st_def [symmetric] st'_def [symmetric] r_def [symmetric] r'_def [symmetric])
  next
    case False
    show ?thesis
      using assms(1) i counts False
      by (clarsimp simp: feedback_def Let_def st_def [symmetric] st'_def [symmetric] r_def [symmetric] r'_def [symmetric])
  qed
qed

text \<open>C3. Feedback on a song keeps the sums right: it takes the song's old rating and
  counts out of the sums, counts one skip or one play, and puts the new ones
  in; the other songs are untouched.\<close>

theorem feedback_keeps_sums:
  assumes "sums_ok (db_manual_rating_bias cfg) db"
    and "feedback cfg (Some i) direction db fs = Inr (db', fs')"
  shows "sums_ok (db_manual_rating_bias cfg) db' \<and> i < length (songs db) \<and>
     play_count (stat (songs db' ! i)) = play_count (stat (songs db ! i)) + (if direction < 0 then 0 else 1) \<and>
     skip_count (stat (songs db' ! i)) = skip_count (stat (songs db ! i)) + (if direction < 0 then 1 else 0) \<and>
     length (songs db') = length (songs db) \<and>
     (\<forall>j. j \<noteq> i \<longrightarrow> j < length (songs db) \<longrightarrow> songs db' ! j = songs db ! j)"
proof -
  let ?st = "stat (songs db ! i)"
  note fb = feedback_Inr [OF assms(2)]
  then obtain s' where i: "i < length (songs db)"
    and save: "save_song cfg (stats_loaded db) ((songs db ! i)\<lparr>stat := feedback_stat direction ?st\<rparr>) fs = Inr (s', fs')"
    and songs: "songs db' = (songs db)[i := s']" by blast
  note saved = save_song_stat [OF save, simplified]
  have "sums_ok (db_manual_rating_bias cfg) db'"
    by (rule sums_ok_replace [OF assms(1) i songs refl refl]) (use fb saved save in simp_all)
  moreover have "play_count (stat s') = play_count ?st + (if direction < 0 then 0 else 1)"
    "skip_count (stat s') = skip_count ?st + (if direction < 0 then 1 else 0)"
    using saved by (simp_all add: feedback_stat_def)
  ultimately show ?thesis using i songs by simp
qed

definition ex_loaded_db :: database_info where
  "ex_loaded_db = start_song_picker ex_config (ex_db\<lparr>songs := [ex_song]\<rparr>)"

lemma ex_loaded_db_sums: "sums_ok (db_manual_rating_bias ex_config) ex_loaded_db"
  by (simp add: ex_loaded_db_def start_song_picker_facts)

lemma ex_loaded_db_songs [simp]: "songs ex_loaded_db = [ex_song]"
  by (simp add: ex_loaded_db_def start_song_picker_facts)

theorem feedback_keeps_sums_witness:
  "\<exists>db' fs'. feedback (ex_config\<lparr>db_readonly := 1\<rparr>) (Some 0) (- 1) ex_loaded_db ex_fs = Inr (db', fs') \<and>
     sums_ok (db_manual_rating_bias ex_config) db' \<and> skip_count (stat (songs db' ! 0)) = 2"
proof -
  let ?cfg = "ex_config\<lparr>db_readonly := 1\<rparr>"
  have "\<exists>db' fs'. feedback ?cfg (Some 0) (- 1) ex_loaded_db ex_fs = Inr (db', fs')"
    by (simp add: feedback_def Let_def save_song_def read_at_def)
  then obtain db' fs' where "feedback ?cfg (Some 0) (- 1) ex_loaded_db ex_fs = Inr (db', fs')" by blast
  with feedback_keeps_sums [OF _ this] ex_loaded_db_sums ex_song_facts show ?thesis by auto
qed

section \<open>The normal test\<close>

lemma ceil_cases:
  fixes z :: real
  assumes "0 < z" "\<lceil>z\<rceil> \<le> 4"
  obtains "\<lceil>z\<rceil> = 1" "z \<le> 1" | "\<lceil>z\<rceil> = 2" "1 < z" "z \<le> 2"
    | "\<lceil>z\<rceil> = 3" "2 < z" "z \<le> 3" | "\<lceil>z\<rceil> = 4" "3 < z" "z \<le> 4"
proof -
  have "1 \<le> \<lceil>z\<rceil>" using assms(1) by (simp add: int_one_le_iff_zero_less)
  then have "\<lceil>z\<rceil> = 1 \<or> \<lceil>z\<rceil> = 2 \<or> \<lceil>z\<rceil> = 3 \<or> \<lceil>z\<rceil> = 4" using assms(2) by presburger
  then show ?thesis using that by (elim disjE) (auto simp: ceiling_eq_iff)
qed

text \<open>The table without indices: the four linear pieces.\<close>

lemma table_area_pieces:
  fixes z :: real
  assumes "0 \<le> z"
  shows "table_area z =
    (if z \<le> 1 then 3413 / 10000 * z
     else if z \<le> 2 then 3413 / 10000 + 1359 / 10000 * (z - 1)
     else if z \<le> 3 then 4772 / 10000 + 215 / 10000 * (z - 2)
     else if z \<le> 4 then 4987 / 10000 + 13 / 10000 * (z - 3)
     else 5 / 10)"
proof (cases "z = 0 \<or> \<lceil>z\<rceil> > 4")
  case True
  then show ?thesis using assms by (auto simp: table_area_def Let_def less_ceiling_iff)
next
  case False
  with assms have "0 < z" "\<lceil>z\<rceil> \<le> 4" by auto
  then show ?thesis
    by (cases rule: ceil_cases) (simp_all add: table_area_def pdf_table_def Let_def field_simps)
qed

lemma table_area_mono:
  fixes y z :: real
  assumes "0 \<le> y" "y \<le> z"
  shows "table_area y \<le> table_area z"
proof -
  have "0 \<le> z" using assms by simp
  show ?thesis
    unfolding table_area_pieces [OF assms(1)] table_area_pieces [OF \<open>0 \<le> z\<close>]
    using assms by (auto simp only: split: if_split) (simp_all add: field_simps)
qed

lemma table_area_bounds:
  fixes z :: real
  assumes "0 \<le> z"
  shows "0 \<le> table_area z" "table_area z \<le> 1 / 2"
  unfolding table_area_pieces [OF assms] using assms by (auto simp only: split: if_split) (simp_all add: field_simps)

lemma normal_area_mono: "y \<le> z \<Longrightarrow> normal_area y \<le> normal_area z"
  using table_area_mono [of y z] table_area_mono [of "- z" "- y"]
    table_area_bounds [of z] table_area_bounds [of "- y"]
  by (auto simp: normal_area_def)

lemma normal_area_nonneg_half: "0 \<le> z \<Longrightarrow> 1 / 2 \<le> normal_area z"
  using table_area_bounds [of z] by (simp add: normal_area_def)

text \<open>The normal test prefers better songs: with the same average, deviation and random
  numbers, what is accepted for one rating is accepted for every higher one,
  and both tests leave the same random numbers.\<close>

theorem normal_test_monotone:
  assumes "normal_test x a s rands = Inr (Some (True, rest))" and "x \<le> y" and "0 \<le> s"
    and "normal_test y a s rands = Inr res"
  shows "res = Some (True, rest)"
proof (cases "s = 0")
  case True
  then show ?thesis using assms by (auto simp: normal_test_def z_score_def split: if_splits list.splits)
next
  case False
  then have "normal_area ((x - a) / s) \<le> normal_area ((y - a) / s)"
    using assms(2,3) by (intro normal_area_mono divide_right_mono) auto
  with False assms(1,4) show ?thesis
    by (auto simp: normal_test_def z_score_def split: if_splits list.splits)
qed

theorem normal_test_monotone_witness:
  "\<exists>res. normal_test 1 0 1 [1000000000] = Inr res \<and> res = Some (True, [])"
proof -
  have area: "normal_area 0 = 1 / 2" "normal_area 1 = 8413 / 10000"
    by (simp_all add: normal_area_def table_area_pieces)
  have low: "normal_test 0 0 1 [1000000000] = Inr (Some (True, []))"
    by (simp add: normal_test_def z_score_def area rand_fraction_def RAND_MAX_def)
  have "\<exists>res. normal_test 1 0 1 [1000000000] = Inr res"
    by (simp add: normal_test_def z_score_def)
  then obtain res where res: "normal_test 1 0 1 [1000000000] = Inr res" by blast
  from normal_test_monotone [OF low _ _ res] res show ?thesis by simp
qed

text \<open>The squared distances from \<open>a\<close> by the sums the database keeps.\<close>

lemma sum_sqr_distance:
  fixes xs :: "real list"
  shows "(\<Sum>x\<leftarrow>xs. (x - a)\<^sup>2) = (\<Sum>x\<leftarrow>xs. x\<^sup>2) - 2 * a * sum_list xs + real (length xs) * a\<^sup>2"
  by (induction xs) (simp_all add: power2_eq_square algebra_simps)

lemma sqr_le_sum_sqr:
  fixes xs :: "real list"
  assumes "x \<in> set xs"
  shows "(x - a)\<^sup>2 \<le> (\<Sum>x\<leftarrow>xs. (x - a)\<^sup>2)"
  using assms
proof (induction xs)
  case Nil
  then show ?case by simp
next
  case (Cons y ys)
  have "0 \<le> (\<Sum>x\<leftarrow>ys. (x - a)\<^sup>2)" by (intro sum_list_nonneg) auto
  with Cons show ?case by (cases "x = y") (auto simp: add_increasing)
qed

definition ratings :: "real \<Rightarrow> database_info \<Rightarrow> real list" where
  "ratings bias db = map (\<lambda>s. get_rating bias (stat s)) (songs db)"

lemma std_dev_distance:
  assumes "sums_ok bias db" and "songs db \<noteq> []"
  shows "(std_dev db)\<^sup>2 * real (length (songs db)) = (\<Sum>x\<leftarrow>ratings bias db. (x - average db)\<^sup>2)"
proof -
  let ?n = "real (length (songs db))" and ?a = "average db"
  have n: "0 < ?n" using assms(2) by simp
  have sum: "sum_list (ratings bias db) = ?a * ?n"
    using assms n by (simp add: sums_ok_def ratings_def average_def song_count_def)
  have sqr: "(\<Sum>x\<leftarrow>ratings bias db. x\<^sup>2) = db_sqr_sum db"
    using assms(1) by (simp add: sums_ok_def ratings_def comp_def)
  have len: "length (ratings bias db) = length (songs db)" by (simp add: ratings_def)
  have dist: "(\<Sum>x\<leftarrow>ratings bias db. (x - ?a)\<^sup>2) = db_sqr_sum db - ?n * ?a\<^sup>2"
    unfolding sum_sqr_distance sum sqr len by (simp add: power2_eq_square)
  have "0 \<le> (\<Sum>x\<leftarrow>ratings bias db. (x - ?a)\<^sup>2)" by (intro sum_list_nonneg) auto
  then have "0 \<le> db_sqr_sum db / ?n - ?a * ?a"
    using dist n by (simp add: power2_eq_square field_simps)
  then have "(std_dev db)\<^sup>2 = db_sqr_sum db / ?n - ?a * ?a"
    by (simp add: std_dev_def song_count_def)
  then have "(std_dev db)\<^sup>2 * ?n = db_sqr_sum db - ?n * ?a\<^sup>2"
    using n by (simp add: field_simps power2_eq_square)
  then show ?thesis using dist by simp
qed

lemma std_dev_nonneg [simp]: "0 \<le> std_dev db"
  by (simp add: std_dev_def)

text \<open>A rating of the database is at most \<open>sqrt n\<close> deviations away from the average.\<close>

lemma rating_distance:
  assumes "sums_ok bias db" and "i < length (songs db)"
  shows "\<bar>get_rating bias (stat (songs db ! i)) - average db\<bar> \<le> std_dev db * sqrt (real (length (songs db)))"
proof -
  let ?x = "get_rating bias (stat (songs db ! i))" and ?n = "real (length (songs db))"
  have ne: "songs db \<noteq> []" using assms(2) by auto
  have "?x \<in> set (ratings bias db)" using assms(2) by (auto simp: ratings_def)
  from sqr_le_sum_sqr [OF this, of "average db"] std_dev_distance [OF assms(1) ne]
  have "(?x - average db)\<^sup>2 \<le> (std_dev db * sqrt ?n)\<^sup>2"
    by (simp add: power_mult_distrib)
  then show ?thesis by (simp add: abs_le_square_iff [symmetric] abs_mult)
qed

text \<open>The test on a song of the database is always defined.\<close>

lemma normal_test_cases:
  assumes "sums_ok bias db" and "i < length (songs db)" and "length (songs db) < 2 ^ 31"
  defines "x \<equiv> get_rating bias (stat (songs db ! i))"
  shows "std_dev db = 0 \<Longrightarrow> normal_test x (average db) (std_dev db) rands = Inr (Some (True, rands))"
    and "std_dev db \<noteq> 0 \<Longrightarrow> normal_test x (average db) (std_dev db) rands =
      (case rands of [] \<Rightarrow> Inr None
       | r # rs \<Rightarrow> Inr (Some (normal_area ((x - average db) / std_dev db) > rand_fraction r, rs)))"
proof -
  let ?n = "real (length (songs db))"
  note dist = rating_distance [OF assms(1,2), folded x_def]
  show "std_dev db = 0 \<Longrightarrow> normal_test x (average db) (std_dev db) rands = Inr (Some (True, rands))"
    using dist by (simp add: normal_test_def z_score_def)
  assume sd: "std_dev db \<noteq> 0"
  then have pos: "0 < std_dev db" using std_dev_nonneg [of db] by linarith
  have "\<bar>(x - average db) / std_dev db\<bar> \<le> sqrt ?n"
    using dist pos by (simp add: field_simps)
  moreover have "sqrt ?n \<le> ?n"
  proof -
    have "1 \<le> ?n" using assms(2) by simp
    then have "?n * 1 \<le> ?n * ?n" by (intro mult_left_mono) auto
    then show ?thesis using real_sqrt_le_iff [of ?n "?n * ?n"] by (simp add: real_sqrt_mult)
  qed
  moreover have "?n \<le> 2147483647" using assms(3) by simp
  ultimately have "\<lceil>\<bar>(x - average db) / std_dev db\<bar>\<rceil> \<le> 2147483647"
    by (simp add: ceiling_le_iff)
  then show "normal_test x (average db) (std_dev db) rands =
      (case rands of [] \<Rightarrow> Inr None
       | r # rs \<Rightarrow> Inr (Some (normal_area ((x - average db) / std_dev db) > rand_fraction r, rs)))"
    using sd by (simp add: normal_test_def z_score_def)
qed

text \<open>With sums that match the songs, the normal test of any song of the database is
  defined: it does not divide a non-zero difference by a zero deviation, and
  what it converts to an \<open>int\<close> fits.\<close>

theorem normal_test_defined:
  assumes "sums_ok bias db" and "i < length (songs db)" and "length (songs db) < 2 ^ 31"
  shows "returns (normal_test (get_rating bias (stat (songs db ! i))) (average db) (std_dev db) rands)"
  using normal_test_cases [OF assms, of rands]
  by (cases "std_dev db = 0") (auto split: list.splits)

theorem normal_test_defined_witness:
  "returns (normal_test (get_rating (1 / 2) (stat ex_song)) (average ex_loaded_db) (std_dev ex_loaded_db) [])"
  using normal_test_defined [OF ex_loaded_db_sums, of 0 "[]"] by (simp add: ex_config_def)

section \<open>Picking a song\<close>

text \<open>Two databases that differ at most in repeat counters and change marks.\<close>

definition without_counter :: "song_info \<Rightarrow> song_info" where
  "without_counter s = s\<lparr>stat := (stat s)\<lparr>repeat_counter := 0, stat_changed := False\<rparr>\<rparr>"

definition same_stats :: "song_info \<Rightarrow> song_info \<Rightarrow> bool" where
  "same_stats s s' \<longleftrightarrow> without_counter s' = without_counter s"

lemma same_stats_fields:
  assumes "same_stats s s'"
  shows "get_rating bias (stat s') = get_rating bias (stat s)" "play_count (stat s') = play_count (stat s)"
    "skip_count (stat s') = skip_count (stat s)" "filename s' = filename s" "basename s' = basename s"
    "meta_keys s' = meta_keys s" "meta_key_count s' = meta_key_count s"
proof -
  have eq: "without_counter s' = without_counter s" using assms by (simp add: same_stats_def)
  have r: "get_rating bias (stat (without_counter x)) = get_rating bias (stat x)" for x
    by (simp add: without_counter_def)
  show "get_rating bias (stat s') = get_rating bias (stat s)"
    using arg_cong [OF eq, of "\<lambda>x. get_rating bias (stat x)"] by (simp only: r)
  show "play_count (stat s') = play_count (stat s)"
    using arg_cong [OF eq, of "\<lambda>x. play_count (stat x)"] by (simp add: without_counter_def)
  show "skip_count (stat s') = skip_count (stat s)"
    using arg_cong [OF eq, of "\<lambda>x. skip_count (stat x)"] by (simp add: without_counter_def)
  show "filename s' = filename s"
    using arg_cong [OF eq, of filename] by (simp add: without_counter_def)
  show "basename s' = basename s"
    using arg_cong [OF eq, of basename] by (simp add: without_counter_def)
  show "meta_keys s' = meta_keys s"
    using arg_cong [OF eq, of meta_keys] by (simp add: without_counter_def)
  show "meta_key_count s' = meta_key_count s"
    using arg_cong [OF eq, of meta_key_count] by (simp add: without_counter_def)
qed

definition counters_only :: "database_info \<Rightarrow> database_info \<Rightarrow> bool" where
  "counters_only db db' \<longleftrightarrow> db' = db\<lparr>songs := songs db'\<rparr> \<and> list_all2 same_stats (songs db) (songs db')"

lemma same_stats_refl [simp]: "same_stats s s"
  by (simp add: same_stats_def)

lemma same_stats_trans: "same_stats a b \<Longrightarrow> same_stats b c \<Longrightarrow> same_stats a c"
  by (auto simp: same_stats_def)

lemma counters_only_refl [simp]: "counters_only db db"
  by (simp add: counters_only_def list_all2_refl)

lemma counters_only_trans:
  assumes "counters_only a b" and "counters_only b c"
  shows "counters_only a c"
proof -
  have "list_all2 same_stats (songs a) (songs c)"
    by (rule list_all2_trans [OF same_stats_trans]) (use assms in \<open>auto simp: counters_only_def\<close>)
  moreover obtain cs where "c = b\<lparr>songs := cs\<rparr>" using assms(2) by (auto simp: counters_only_def)
  moreover obtain bs where "b = a\<lparr>songs := bs\<rparr>" using assms(1) by (auto simp: counters_only_def)
  ultimately show ?thesis by (simp add: counters_only_def)
qed

lemma counters_only_length: "counters_only db db' \<Longrightarrow> length (songs db') = length (songs db)"
  by (auto simp: counters_only_def dest: list_all2_lengthD)

lemma counters_only_rating:
  assumes "counters_only db db'" and "i < length (songs db)"
  shows "get_rating bias (stat (songs db' ! i)) = get_rating bias (stat (songs db ! i))"
proof -
  have "same_stats (songs db ! i) (songs db' ! i)"
    using assms list_all2_nthD by (auto simp: counters_only_def)
  then show ?thesis by (rule same_stats_fields)
qed

lemma same_stats_sums:
  assumes "list_all2 same_stats ss ss'"
  shows "map (\<lambda>s. get_rating bias (stat s)) ss' = map (\<lambda>s. get_rating bias (stat s)) ss"
    "map (\<lambda>s. play_count (stat s)) ss' = map (\<lambda>s. play_count (stat s)) ss"
    "map (\<lambda>s. skip_count (stat s)) ss' = map (\<lambda>s. skip_count (stat s)) ss"
  using assms by (induction rule: list_all2_induct) (simp_all add: same_stats_fields)

lemma counters_only_sums:
  assumes "counters_only db db'" and "sums_ok bias db"
  shows "sums_ok bias db'"
proof -
  have l: "list_all2 same_stats (songs db) (songs db')" using assms(1) by (simp add: counters_only_def)
  obtain ss where db': "db' = db\<lparr>songs := ss\<rparr>" using assms(1) by (auto simp: counters_only_def)
  have sq: "map (\<lambda>s. (f s)\<^sup>2) xs = map power2 (map f xs)" for f :: "song_info \<Rightarrow> 'a::power" and xs
    by simp
  show ?thesis
    using assms(2) l unfolding sums_ok_def sq same_stats_sums [OF l] by (simp add: db')
qed

lemma set_stat_counters_only:
  assumes "i < length (songs db)"
  shows "counters_only db (set_stat i ((stat (songs db ! i))\<lparr>stat_changed := c, repeat_counter := n\<rparr>) db)"
proof -
  have "same_stats (songs db ! i) ((songs db ! i)\<lparr>stat := (stat (songs db ! i))\<lparr>stat_changed := c, repeat_counter := n\<rparr>\<rparr>)"
    by (simp add: same_stats_def without_counter_def)
  then show ?thesis
    using assms by (auto simp: counters_only_def set_stat_def list_all2_conv_all_nth nth_list_update)
qed

lemma accept_candidate_counters_only:
  assumes "i < length (songs db)" and "accept_candidate i db = (done, db')"
  shows "counters_only db db'"
  using set_stat_counters_only [OF assms(1)] assms(2) by (auto simp: accept_candidate_def Let_def split: if_splits)

lemma set_list_update: "x \<in> set (xs[i := y]) \<Longrightarrow> x = y \<or> x \<in> set xs"
  using set_update_subset_insert by fastforce

lemma accept_candidate_nonneg:
  assumes "i < length (songs db)" and "accept_candidate i db = (done, db')"
    and "\<forall>s \<in> set (songs db). 0 \<le> repeat_counter (stat s)"
  shows "\<forall>s \<in> set (songs db'). 0 \<le> repeat_counter (stat s)"
proof
  fix s assume s: "s \<in> set (songs db')"
  have "0 \<le> repeat_counter (stat (songs db ! i))" using assms(1,3) by simp
  then show "0 \<le> repeat_counter (stat s)"
    using s assms(2,3)
    by (auto simp: accept_candidate_def set_stat_def Let_def split: if_splits dest!: set_list_update)
qed

lemma candidate_bounds:
  assumes "r \<le> RAND_MAX" and "songs db \<noteq> []"
  shows "0 \<le> candidate db r" "candidate db r < int (length (songs db))"
proof -
  have n: "0 < real (length (songs db))" using assms(2) by simp
  show "0 \<le> candidate db r" by (simp add: candidate_def song_count_def)
  have "real (length (songs db)) * real r < real (length (songs db)) * (real RAND_MAX + 1)"
    using assms(1) n by (intro mult_strict_left_mono) auto
  then have "real (length (songs db)) * real r / (real RAND_MAX + 1) < real (length (songs db))"
    by (simp add: field_simps)
  then show "candidate db r < int (length (songs db))"
    by (simp add: candidate_def song_count_def floor_less_iff)
qed

lemma candidate_counters_only: "counters_only db db' \<Longrightarrow> candidate db' r = candidate db r"
  using counters_only_length by (simp add: candidate_def song_count_def)

text \<open>What a turn of the loop needs to know of the database it started with.\<close>

definition pickable :: "real \<Rightarrow> database_info \<Rightarrow> bool" where
  "pickable bias db \<longleftrightarrow> sums_ok bias db \<and> songs db \<noteq> [] \<and> length (songs db) < 2 ^ 31 \<and>
     (\<forall>s \<in> set (songs db). 0 \<le> repeat_counter (stat s))"

lemma pick_loop_ok:
  assumes "pickable bias db0" and "counters_only db0 db"
    and "\<forall>s \<in> set (songs db). 0 \<le> repeat_counter (stat s)" and "\<forall>r \<in> set rands. r \<le> RAND_MAX"
  shows "\<exists>res. pick_loop bias (average db0) (std_dev db0) db rands = Inr res \<and>
    (\<forall>c db'. res = Some (c, db') \<longrightarrow> c < length (songs db0) \<and> counters_only db0 db' \<and>
       repeat_counter (stat (songs db' ! c)) = 10 \<and>
       (\<forall>s \<in> set (songs db'). 0 \<le> repeat_counter (stat s)))"
  using assms
proof (induction "length rands" arbitrary: db rands rule: less_induct)
  case less
  show ?case
  proof (cases rands)
    case Nil
    then show ?thesis by simp
  next
    case (Cons r rs)
    let ?c = "nat (candidate db r)" and ?x = "get_rating bias (stat (songs db ! nat (candidate db r)))"
    have len: "length (songs db) = length (songs db0)"
      by (rule counters_only_length [OF less.prems(2)])
    have "songs db0 \<noteq> []" using less.prems(1) by (simp add: pickable_def)
    then have ne: "songs db \<noteq> []" using len by (metis length_0_conv)
    have c: "0 \<le> candidate db r" "?c < length (songs db)"
      using candidate_bounds [of r db] ne less.prems(4) Cons by auto
    have x: "?x = get_rating bias (stat (songs db0 ! ?c))"
      using counters_only_rating [OF less.prems(2)] c(2) len by simp
    have ok: "sums_ok bias db0" "?c < length (songs db0)" "length (songs db0) < 2 ^ 31"
      using less.prems(1) c(2) len by (auto simp: pickable_def)
    have "\<exists>res. normal_test ?x (average db0) (std_dev db0) rs = Inr res \<and>
        (\<forall>v rs'. res = Some (v, rs') \<longrightarrow> length rs' \<le> length rs \<and> set rs' \<subseteq> set rs)"
      using normal_test_cases [OF ok, of rs] unfolding x
      by (cases "std_dev db0 = 0") (auto split: list.splits)
    then obtain res where res: "normal_test ?x (average db0) (std_dev db0) rs = Inr res"
      and shorter: "\<And>v rs'. res = Some (v, rs') \<Longrightarrow> length rs' \<le> length rs \<and> set rs' \<subseteq> set rs" by auto
    have read: "read_at (songs db) (candidate db r) = Inr (songs db ! ?c)"
      using c by (simp add: read_at_Inr)
    show ?thesis
    proof (cases res)
      case None
      then show ?thesis using Cons res read by simp
    next
      case (Some vr)
      obtain v rs' where vr: "vr = (v, rs')" by (cases vr)
      note sh = shorter [OF Some [unfolded vr]]
      have lt: "length rs' < length rands" and rands': "\<forall>r \<in> set rs'. r \<le> RAND_MAX"
        using sh Cons less.prems(4) by auto
      obtain dn db1 where acc: "accept_candidate ?c db = (dn, db1)" by (cases "accept_candidate ?c db")
      have co: "counters_only db0 db1"
        using counters_only_trans [OF less.prems(2) accept_candidate_counters_only [OF c(2) acc]] .
      have nn: "\<forall>s \<in> set (songs db1). 0 \<le> repeat_counter (stat s)"
        by (rule accept_candidate_nonneg [OF c(2) acc less.prems(3)])
      have ten: "dn \<Longrightarrow> repeat_counter (stat (songs db1 ! ?c)) = 10"
        using acc c(2) by (auto simp: accept_candidate_def set_stat_def Let_def split: if_splits)
      show ?thesis
      proof (cases "v \<and> dn")
        case True
        then show ?thesis using Cons res read Some vr sh acc co nn ten c(2) len by simp
      next
        case False
        then show ?thesis
          using less.hyps [OF lt less.prems(1) co nn rands'] less.hyps [OF lt less.prems(1-3) rands']
            Cons res read Some vr sh acc by (cases v) simp_all
      qed
    qed
  qed
qed

lemma pick_song_result:
  assumes "pickable (db_manual_rating_bias cfg) db" and "\<forall>r \<in> set rands. r \<le> RAND_MAX"
  shows "\<exists>res. pick_song cfg db rands = Inr res \<and>
    (\<forall>c db'. res = Some (c, db') \<longrightarrow> c < length (songs db) \<and> counters_only db db' \<and>
       repeat_counter (stat (songs db' ! c)) = 10 \<and> pickable (db_manual_rating_bias cfg) db')"
proof -
  note ok = pick_loop_ok [OF assms(1) counters_only_refl _ assms(2)]
  then obtain res where res: "pick_song cfg db rands = Inr res"
    "\<And>c db'. res = Some (c, db') \<Longrightarrow> c < length (songs db) \<and> counters_only db db' \<and>
       repeat_counter (stat (songs db' ! c)) = 10 \<and> (\<forall>s \<in> set (songs db'). 0 \<le> repeat_counter (stat s))"
    using assms(1) unfolding pick_song_def pickable_def by metis
  have "pickable (db_manual_rating_bias cfg) db'" if "res = Some (c, db')" for c db'
  proof -
    have co: "counters_only db db'" using res(2) [OF that] by simp
    have "songs db' \<noteq> []" using counters_only_length [OF co] assms(1)
      unfolding pickable_def by (metis length_0_conv)
    then show ?thesis
      using res(2) [OF that] assms(1) counters_only_sums [OF co] counters_only_length [OF co]
      by (simp add: pickable_def)
  qed
  with res show ?thesis by blast
qed


lemma ex_loaded_db_pickable: "pickable (db_manual_rating_bias ex_config) ex_loaded_db"
  using ex_loaded_db_sums by (simp add: pickable_def ex_song_def)


text \<open>Every song is the candidate for some random number.\<close>

lemma candidate_onto:
  assumes "i < length (songs db)" and "length (songs db) < 2 ^ 31"
  shows "\<exists>r \<le> RAND_MAX. candidate db r = int i"
proof -
  let ?n = "real (length (songs db))" and ?M = "real RAND_MAX + 1"
  have n: "0 < ?n" "?n \<le> ?M" using assms by (auto simp: RAND_MAX_def)
  define r where "r = nat \<lceil>real i * ?M / ?n\<rceil>"
  have nn: "0 \<le> real i * ?M / ?n" by simp
  have r: "real r = of_int \<lceil>real i * ?M / ?n\<rceil>"
    unfolding r_def using nn by (simp add: ceiling_mono [of 0, simplified])
  have low: "real i * ?M / ?n \<le> real r" unfolding r by (rule le_of_int_ceiling)
  have "real r < real i * ?M / ?n + 1" unfolding r by linarith
  also have "\<dots> \<le> real i * ?M / ?n + ?M / ?n"
  proof -
    have "1 \<le> ?M / ?n" using n by (simp add: le_divide_eq)
    then show ?thesis by linarith
  qed
  also have "\<dots> = (real i + 1) * ?M / ?n" by (simp add: add_divide_distrib distrib_right)
  finally have high: "real r < (real i + 1) * ?M / ?n" .
  have "(real i + 1) * ?M \<le> ?n * ?M" using assms(1) by (intro mult_right_mono) auto
  then have "(real i + 1) * ?M / ?n \<le> ?M" using n by (simp add: field_simps)
  with high have "real r < ?M" by linarith
  then have "r \<le> RAND_MAX" by linarith
  moreover have "real i \<le> ?n * real r / ?M" using low n by (simp add: field_simps)
  moreover have "?n * real r / ?M < real i + 1" using high n by (simp add: field_simps)
  ultimately show ?thesis
    by (intro exI [of _ r]) (simp add: candidate_def song_count_def floor_eq_iff)
qed

lemma some_rating_above_average:
  assumes "pickable bias db"
  shows "\<exists>i < length (songs db). average db \<le> get_rating bias (stat (songs db ! i))"
proof (rule ccontr)
  assume none: "\<not> ?thesis"
  have ne: "songs db \<noteq> []" and sums: "sums_ok bias db" using assms by (auto simp: pickable_def)
  have "(\<Sum>s\<leftarrow>songs db. get_rating bias (stat s)) < (\<Sum>s\<leftarrow>songs db. average db)"
    using none by (intro sum_list_strict_mono ne) (auto simp: in_set_conv_nth not_le)
  also have "\<dots> = real (length (songs db)) * average db" by (simp add: sum_list_triv)
  also have "\<dots> = db_sum db" using ne by (simp add: average_def song_count_def)
  finally show False using sums by (simp add: sums_ok_def)
qed

text \<open>One turn of the loop that accepts song \<open>i\<close>.\<close>

lemma accepting_turn:
  assumes "pickable bias db0" and "counters_only db0 db" and "i < length (songs db0)"
    and "average db0 \<le> get_rating bias (stat (songs db0 ! i))"
  shows "\<exists>seg. (\<forall>r \<in> set seg. r \<le> RAND_MAX) \<and>
    (\<forall>rest. pick_loop bias (average db0) (std_dev db0) db (seg @ rest) =
       (case accept_candidate i db of
          (done, db') \<Rightarrow> if done then Inr (Some (i, db'))
                        else pick_loop bias (average db0) (std_dev db0) db' rest))"
proof -
  have ok: "sums_ok bias db0" "i < length (songs db0)" "length (songs db0) < 2 ^ 31"
    using assms(1,3) by (auto simp: pickable_def)
  obtain r where r: "r \<le> RAND_MAX" "candidate db0 r = int i"
    using candidate_onto [OF ok(2,3)] by blast
  let ?x = "get_rating bias (stat (songs db ! i))"
  have len: "length (songs db) = length (songs db0)" by (rule counters_only_length [OF assms(2)])
  have cand: "candidate db r = int i" using candidate_counters_only [OF assms(2)] r(2) by simp
  have x: "?x = get_rating bias (stat (songs db0 ! i))"
    by (rule counters_only_rating [OF assms(2,3)])
  have read: "read_at (songs db) (int i) = Inr (songs db ! i)"
    using len ok(2) by simp
  show ?thesis
  proof (cases "std_dev db0 = 0")
    case True
    have test: "normal_test ?x (average db0) (std_dev db0) rest = Inr (Some (True, rest))" for rest
      using normal_test_cases(1) [OF ok True] by (simp add: x)
    show ?thesis
      by (intro exI [of _ "[r]"]) (simp add: r(1) read test cand split: prod.split)
  next
    case False
    have pos: "0 < std_dev db0" using False std_dev_nonneg [of db0] by linarith
    then have "0 \<le> (?x - average db0) / std_dev db0" using assms(4) x by simp
    then have "0 < normal_area ((?x - average db0) / std_dev db0)"
      using normal_area_nonneg_half [of "(?x - average db0) / std_dev db0"] by linarith
    then have test: "normal_test ?x (average db0) (std_dev db0) (0 # rest) = Inr (Some (True, rest))" for rest
      using normal_test_cases(2) [OF ok False, of "0 # rest"] by (simp add: x rand_fraction_def)
    show ?thesis
      by (intro exI [of _ "[r, 0]"]) (simp add: r(1) read test cand split: prod.split)
  qed
qed

lemma pick_loop_reaches:
  assumes "pickable bias db0" and "counters_only db0 db" and "i < length (songs db0)"
    and "average db0 \<le> get_rating bias (stat (songs db0 ! i))"
    and "repeat_counter (stat (songs db ! i)) = int n"
  shows "\<exists>rands db'. (\<forall>r \<in> set rands. r \<le> RAND_MAX) \<and>
    pick_loop bias (average db0) (std_dev db0) db rands = Inr (Some (i, db'))"
  using assms
proof (induction n arbitrary: db)
  case 0
  then show ?case using accepting_turn [OF 0(1-4)]
    by (auto simp: accept_candidate_def Let_def intro: exI [of _ "_ @ []"] dest!: spec [of _ "[]"])
next
  case (Suc n)
  have len: "i < length (songs db)" using Suc.prems(3) counters_only_length [OF Suc.prems(2)] by simp
  obtain seg where seg: "\<forall>r \<in> set seg. r \<le> RAND_MAX"
    "\<And>rest. pick_loop bias (average db0) (std_dev db0) db (seg @ rest) =
       (case accept_candidate i db of
          (done, db') \<Rightarrow> if done then Inr (Some (i, db'))
                        else pick_loop bias (average db0) (std_dev db0) db' rest)"
    using accepting_turn [OF Suc.prems(1-4)] by blast
  obtain db1 where acc: "accept_candidate i db = (False, db1)"
    and n: "repeat_counter (stat (songs db1 ! i)) = int n"
    using Suc.prems(5) len by (auto simp: accept_candidate_def Let_def set_stat_def)
  have co: "counters_only db0 db1"
    by (rule counters_only_trans [OF Suc.prems(2) accept_candidate_counters_only [OF len acc]])
  obtain rands db' where "\<forall>r \<in> set rands. r \<le> RAND_MAX"
    "pick_loop bias (average db0) (std_dev db0) db1 rands = Inr (Some (i, db'))"
    using Suc.IH [OF Suc.prems(1) co Suc.prems(3,4) n] by blast
  with seg acc show ?case by (intro exI [of _ "seg @ rands"]) auto
qed

text \<open>\<open>pick_song()\<close> can always end: whatever the repeat counters, there are random numbers
  for which the loop returns a song.\<close>

theorem pick_song_can_return:
  assumes "pickable (db_manual_rating_bias cfg) db"
  shows "\<exists>rands c db'. (\<forall>r \<in> set rands. r \<le> RAND_MAX) \<and> pick_song cfg db rands = Inr (Some (c, db'))"
proof -
  obtain i where i: "i < length (songs db)"
    "average db \<le> get_rating (db_manual_rating_bias cfg) (stat (songs db ! i))"
    using some_rating_above_average [OF assms] by blast
  have "0 \<le> repeat_counter (stat (songs db ! i))" using assms i(1) by (simp add: pickable_def)
  then have "repeat_counter (stat (songs db ! i)) = int (nat (repeat_counter (stat (songs db ! i))))" by simp
  from pick_loop_reaches [OF assms counters_only_refl i this] show ?thesis
    by (auto simp: pick_song_def)
qed

theorem pick_song_can_return_witness:
  "\<exists>rands c db'. pick_song ex_config ex_loaded_db rands = Inr (Some (c, db'))"
  using pick_song_can_return [OF ex_loaded_db_pickable] by blast

end
