(* ===== verification/Song_Queue.thy ===== *)
theory Song_Queue
  imports Squash_Base
begin

text \<open>
  The two song queues (\<open>song_queue\<close>, the playlist, and \<open>past_queue\<close>) as the code
  keeps them: singly linked entries on the heap with head and tail pointers and
  a size (\<open>song_queue_t\<close> in \<open>src/include/global.h\<close>).  The operations are those of
  \<open>src/src/playlist_manager.c\<close> (\<open>playlist_queue_song()\<close>), \<open>src/src/player.c\<close>
  (\<open>get_next_song_info()\<close>, \<open>done_with_song_info()\<close>) and \<open>src/src/input.c\<close> (the list
  surgery of \<open>do_delete()\<close> and \<open>do_remove_playlist_entry()\<close>).

  The heap maps addresses to entries; \<open>malloc\<close> takes an address never used
  before and \<open>free\<close> removes the entry, so that every later access through a stale
  pointer is a fault.  The end of the theory relates all operations to plain
  lists.
\<close>

section \<open>The heap\<close>

record song_queue_entry =
  entry_next :: "nat option"
  entry_song :: "nat option"
  entry_start :: "int option"

record heap =
  cells :: "nat \<Rightarrow> song_queue_entry option"
  next_address :: nat

text \<open>\<open>start_position\<close> is \<open>None\<close> while the allocated memory has not been written.\<close>

definition load_entry :: "heap \<Rightarrow> nat option \<Rightarrow> song_queue_entry result" where
  "load_entry h p =
     (case p of
        None \<Rightarrow> Inl Null_Deref
      | Some a \<Rightarrow> (case cells h a of None \<Rightarrow> Inl Use_After_Free | Some e \<Rightarrow> Inr e))"

definition set_next :: "nat option \<Rightarrow> nat option \<Rightarrow> heap \<Rightarrow> heap result" where
  "set_next p nxt h =
     (case p of
        None \<Rightarrow> Inl Null_Deref
      | Some a \<Rightarrow>
        (case cells h a of
           None \<Rightarrow> Inl Use_After_Free
         | Some e \<Rightarrow> Inr (h\<lparr>cells := (cells h)(a \<mapsto> e\<lparr>entry_next := nxt\<rparr>)\<rparr>)))"

definition malloc_entry :: "song_queue_entry \<Rightarrow> heap \<Rightarrow> nat \<times> heap" where
  "malloc_entry e h =
     (next_address h,
      h\<lparr>cells := (cells h)(next_address h \<mapsto> e), next_address := next_address h + 1\<rparr>)"

definition free_entry :: "nat option \<Rightarrow> heap \<Rightarrow> heap result" where
  "free_entry p h =
     (case p of
        None \<Rightarrow> Inr h
      | Some a \<Rightarrow> (case cells h a of
                    None \<Rightarrow> Inl Use_After_Free
                  | Some e \<Rightarrow> Inr (h\<lparr>cells := (cells h)(a := None)\<rparr>)))"

section \<open>Queues\<close>

record song_queue =
  q_head :: "nat option"
  q_tail :: "nat option"
  q_size :: int
  q_wanted_size :: int
  q_selected :: int

record queues =
  q_heap :: heap
  song_queue :: song_queue
  past_queue :: song_queue

text \<open>The end of \<open>playlist_queue_song()\<close>: a new entry behind the tail.\<close>

definition enqueue_song :: "nat option \<Rightarrow> int \<Rightarrow> queues \<Rightarrow> queues result" where
  "enqueue_song song start s =
     (let q = song_queue s;
          (new, h) = malloc_entry \<lparr>entry_next = None, entry_song = song, entry_start = Some start\<rparr> (q_heap s);
          head = (if q_head q = None then Some new else q_head q) in
      map_result (\<lambda>h. s\<lparr>q_heap := h,
          song_queue := q\<lparr>q_head := head, q_tail := Some new, q_size := q_size q + 1\<rparr>\<rparr>)
        (if q_tail q \<noteq> None then set_next (q_tail q) (Some new) h else Inr h))"

text \<open>
  \<open>get_next_song_info()\<close>: the song and its start position, and the queues without
  that entry.  With nothing in the queue the song is null and the position 0.
\<close>

definition get_next_song_info :: "queues \<Rightarrow> ((nat option \<times> int option) \<times> queues) result" where
  "get_next_song_info s =
     (let q = song_queue s in
      if q_size q \<le> 0 then Inr ((None, Some 0), s)
      else
        and_then
          (if q_head q = q_tail q then Inr (q\<lparr>q_head := None, q_tail := None\<rparr>)
           else map_result (\<lambda>e. q\<lparr>q_head := entry_next e\<rparr>) (load_entry (q_heap s) (q_head q)))
          (\<lambda>q'.
        and_then (load_entry (q_heap s) (q_head q)) (\<lambda>e.
        and_then (free_entry (q_head q) (q_heap s)) (\<lambda>h.
        Inr ((entry_song e, entry_start e),
             s\<lparr>q_heap := h, song_queue := q'\<lparr>q_size := q_size q' - 1\<rparr>\<rparr>)))))"

text \<open>The loop that walks \<open>n\<close> entries on, with the last entry passed and the current one.\<close>

fun skip_entries :: "nat \<Rightarrow> heap \<Rightarrow> nat option \<times> nat option \<Rightarrow> (nat option \<times> nat option) result" where
  "skip_entries 0 h lc = Inr lc"
| "skip_entries (Suc n) h (last_entry, cur) =
     and_then (load_entry h cur) (\<lambda>e. skip_entries n h (cur, entry_next e))"

text \<open>
  The loop that frees the entries from \<open>cur\<close> on.  Each turn frees an entry, so
  the number of entries ever allocated bounds the turns; the first argument
  counts them down.
\<close>

fun free_entries :: "nat \<Rightarrow> nat option \<Rightarrow> heap \<Rightarrow> heap result" where
  "free_entries fuel None h = Inr h"
| "free_entries 0 (Some a) h = Inl Use_After_Free"
| "free_entries (Suc fuel) (Some a) h =
     and_then (load_entry h (Some a)) (\<lambda>e.
     and_then (free_entry (Some a) h) (free_entries fuel (entry_next e)))"

text \<open>\<open>done_with_song_info()\<close>: a new entry at the front of the past queue, and the end cut off.\<close>

definition done_with_song_info :: "nat option \<Rightarrow> queues \<Rightarrow> queues result" where
  "done_with_song_info song s =
     (let q = past_queue s;
          (new, h) = malloc_entry \<lparr>entry_next = q_head q, entry_song = song, entry_start = None\<rparr> (q_heap s);
          q = q\<lparr>q_head := Some new,
                q_tail := (if q_tail q = None then Some new else q_tail q),
                q_size := q_size q + 1\<rparr> in
      if q_size q > q_wanted_size q then
        and_then (skip_entries (nat (q_wanted_size q)) h (None, q_head q)) (\<lambda>(last_entry, cur).
        and_then (set_next last_entry None h) (\<lambda>h.
        and_then (free_entries (next_address h) cur h) (\<lambda>h.
        let q = q\<lparr>q_tail := last_entry, q_size := q_wanted_size q\<rparr> in
        Inr (s\<lparr>q_heap := h,
               past_queue := (if q_size q = 0 then q\<lparr>q_head := None\<rparr> else q)\<rparr>))))
      else Inr (s\<lparr>q_heap := h, past_queue := q\<rparr>))"

text \<open>
  Unlinking the entry \<open>n\<close> places behind the head of the playlist, as \<open>do_delete()\<close>
  and \<open>do_remove_playlist_entry()\<close> do it; the result is the entry's song with the
  queues.
\<close>

definition unlink_entry :: "nat \<Rightarrow> queues \<Rightarrow> (nat option \<times> queues) result" where
  "unlink_entry n s =
     (let q = song_queue s in
      and_then (skip_entries n (q_heap s) (None, q_head q)) (\<lambda>(last_entry, cur).
      and_then (load_entry (q_heap s) cur) (\<lambda>e.
      and_then (if last_entry \<noteq> None then set_next last_entry (entry_next e) (q_heap s)
                else Inr (q_heap s)) (\<lambda>h.
      let head = (if cur = q_head q then entry_next e else q_head q);
          tail = (if cur = q_tail q then last_entry else q_tail q) in
      and_then (free_entry cur h) (\<lambda>h.
      Inr (entry_song e,
           s\<lparr>q_heap := h,
             song_queue := q\<lparr>q_head := head, q_tail := tail, q_size := q_size q - 1\<rparr>\<rparr>))))))"

text \<open>The song of the entry \<open>n\<close> places behind the head of a queue.\<close>

definition nth_entry_song :: "nat \<Rightarrow> song_queue \<Rightarrow> heap \<Rightarrow> nat option result" where
  "nth_entry_song n q h =
     and_then (skip_entries n h (None, q_head q)) (\<lambda>(last_entry, cur).
     map_result entry_song (load_entry h cur))"

section \<open>Chains of entries\<close>

text \<open>The entries \<open>as\<close> lead from pointer \<open>p\<close> to pointer \<open>r\<close>.\<close>

fun chain :: "(nat \<Rightarrow> song_queue_entry option) \<Rightarrow> nat option \<Rightarrow> nat list \<Rightarrow> nat option \<Rightarrow> bool" where
  "chain c p [] r = (p = r)"
| "chain c p (a # as) r = (p = Some a \<and> (\<exists>e. c a = Some e \<and> chain c (entry_next e) as r))"

lemma chain_append [simp]: "chain c p (as @ bs) r \<longleftrightarrow> (\<exists>m. chain c p as m \<and> chain c m bs r)"
  by (induction as arbitrary: p) auto

lemma chain_other [simp]: "a \<notin> set as \<Longrightarrow> chain (c(a := v)) p as r = chain c p as r"
  by (induction as arbitrary: p) auto

lemma chain_cells: "chain c p as r \<Longrightarrow> a \<in> set as \<Longrightarrow> \<exists>e. c a = Some e"
  by (induction as arbitrary: p) auto

lemma chain_first: "chain c p as None \<Longrightarrow> p = (case as of [] \<Rightarrow> None | a # _ \<Rightarrow> Some a)"
  by (cases as) auto

lemma load_entry_Some [simp]: "cells h a = Some e \<Longrightarrow> load_entry h (Some a) = Inr e"
  by (simp add: load_entry_def)

text \<open>Walking on along a chain.\<close>

lemma skip_entries_chain:
  "chain (cells h) p as m \<Longrightarrow>
     skip_entries (length as) h (l, p) = Inr (if as = [] then l else Some (last as), m)"
proof (induction as arbitrary: p l)
  case Nil
  then show ?case by simp
next
  case (Cons a as)
  then obtain e where "p = Some a" "cells h a = Some e" "chain (cells h) (entry_next e) as m" by auto
  with Cons.IH [of "entry_next e" "Some a"] show ?case by simp
qed

lemma free_entries_chain:
  assumes "chain (cells h) p as None" and "distinct as" and "length as \<le> fuel"
  shows "free_entries fuel p h = Inr (h\<lparr>cells := (\<lambda>a. if a \<in> set as then None else cells h a)\<rparr>)"
  using assms
proof (induction as arbitrary: p h fuel)
  case Nil
  then show ?case by simp
next
  case (Cons a as)
  then obtain e f where e: "p = Some a" "cells h a = Some e" "chain (cells h) (entry_next e) as None"
    and f: "fuel = Suc f" by (cases fuel) auto
  let ?h = "h\<lparr>cells := (cells h)(a := None)\<rparr>"
  have ch: "chain (cells ?h) (entry_next e) as None" using e(3) Cons.prems(2) by simp
  have "free_entries f (entry_next e) ?h =
      Inr (?h\<lparr>cells := (\<lambda>b. if b \<in> set as then None else cells ?h b)\<rparr>)"
    by (rule Cons.IH [OF ch]) (use Cons.prems f in auto)
  moreover have "(\<lambda>b. if b \<in> set as then None else cells ?h b) =
      (\<lambda>b. if b \<in> set (a # as) then None else cells h b)" by auto
  ultimately show ?case using e f by (simp add: free_entry_def)
qed

section \<open>Queues as lists\<close>

type_synonym play_entry = "nat option \<times> int option"

definition entry_at :: "heap \<Rightarrow> nat \<Rightarrow> play_entry" where
  "entry_at h a = (case cells h a of None \<Rightarrow> (None, None) | Some e \<Rightarrow> (entry_song e, entry_start e))"

text \<open>A queue whose entries are \<open>as\<close>: linked from head to tail, all different, counted by the size.\<close>

definition queue_of :: "heap \<Rightarrow> song_queue \<Rightarrow> nat list \<Rightarrow> bool" where
  "queue_of h q as \<longleftrightarrow> chain (cells h) (q_head q) as None \<and> distinct as \<and>
     q_tail q = (if as = [] then None else Some (last as)) \<and> q_size q = int (length as)"

text \<open>
  The whole state: the two queues share no entry, every entry on the heap
  belongs to one of them (nothing leaks), and addresses are below the next one.
\<close>

definition queues_at :: "queues \<Rightarrow> nat list \<Rightarrow> nat list \<Rightarrow> bool" where
  "queues_at s as bs \<longleftrightarrow>
     queue_of (q_heap s) (song_queue s) as \<and> queue_of (q_heap s) (past_queue s) bs \<and>
     set as \<inter> set bs = {} \<and> dom (cells (q_heap s)) = set as \<union> set bs \<and>
     (\<forall>a \<in> set as \<union> set bs. a < next_address (q_heap s))"

definition queues_hold :: "queues \<Rightarrow> play_entry list \<Rightarrow> nat option list \<Rightarrow> bool" where
  "queues_hold s xs ys \<longleftrightarrow> (\<exists>as bs. queues_at s as bs \<and>
     xs = map (entry_at (q_heap s)) as \<and> ys = map (fst \<circ> entry_at (q_heap s)) bs)"

lemma queues_holdI:
  "queues_at s as bs \<Longrightarrow> map (entry_at (q_heap s)) as = xs \<Longrightarrow> map (fst \<circ> entry_at (q_heap s)) bs = ys \<Longrightarrow>
     queues_hold s xs ys"
  by (auto simp: queues_hold_def)

lemma queues_hold_size:
  "queues_hold s xs ys \<Longrightarrow> q_size (song_queue s) = int (length xs) \<and> q_size (past_queue s) = int (length ys)"
  by (auto simp: queues_hold_def queues_at_def queue_of_def)

text \<open>The start: \<open>squash_malloc\<close>'ed nowhere, both queues empty.\<close>

definition empty_queue :: "int \<Rightarrow> song_queue" where
  "empty_queue wanted = \<lparr>q_head = None, q_tail = None, q_size = 0, q_wanted_size = wanted, q_selected = 0\<rparr>"

definition empty_queues :: "int \<Rightarrow> int \<Rightarrow> queues" where
  "empty_queues w1 w2 =
     \<lparr>q_heap = \<lparr>cells = (\<lambda>_. None), next_address = 0\<rparr>, song_queue = empty_queue w1, past_queue = empty_queue w2\<rparr>"

lemma empty_queues_hold: "queues_hold (empty_queues w1 w2) [] []"
  unfolding queues_hold_def
  by (intro exI [of _ "[]"]) (simp add: queues_at_def queue_of_def empty_queues_def empty_queue_def)

text \<open>Changing the heap away from a queue's entries.\<close>

lemma chain_cong:
  "(\<And>a. a \<in> set as \<Longrightarrow> c' a = c a) \<Longrightarrow> chain c' p as r = chain c p as r"
  by (induction as arbitrary: p) auto

lemma queue_of_cong:
  "queue_of h q as \<Longrightarrow> (\<And>a. a \<in> set as \<Longrightarrow> cells h' a = cells h a) \<Longrightarrow> queue_of h' q as"
  using chain_cong [of as "cells h'" "cells h"] by (auto simp: queue_of_def)

lemma entry_at_cong: "cells h' a = cells h a \<Longrightarrow> entry_at h' a = entry_at h a"
  by (simp add: entry_at_def)

text \<open>Two chains, the second starting where the first one's last entry is redirected to.\<close>

lemma chain_relink:
  assumes "chain c p (as @ [l]) m" and "distinct (as @ [l])" and "l \<notin> set bs"
    and "c l = Some e" and "chain c m' bs r"
  shows "chain (c(l \<mapsto> e\<lparr>entry_next := m'\<rparr>)) p ((as @ [l]) @ bs) r"
  using assms by auto

lemma enqueue_hold:
  assumes "queues_hold s xs ys"
  shows "\<exists>s'. enqueue_song song start s = Inr s' \<and> queues_hold s' (xs @ [(song, Some start)]) ys \<and>
    q_wanted_size (song_queue s') = q_wanted_size (song_queue s) \<and> past_queue s' = past_queue s"
proof -
  obtain as bs where at: "queues_at s as bs" and xs: "xs = map (entry_at (q_heap s)) as"
    and ys: "ys = map (fst \<circ> entry_at (q_heap s)) bs"
    using assms by (auto simp: queues_hold_def)
  define new where "new = next_address (q_heap s)"
  define e where "e = \<lparr>entry_next = None, entry_song = song, entry_start = Some start\<rparr>"
  let ?c = "cells (q_heap s)" and ?q = "song_queue s"
  have q: "chain ?c (q_head ?q) as None" "distinct as" "q_size ?q = int (length as)"
    "q_tail ?q = (if as = [] then None else Some (last as))"
    and p: "queue_of (q_heap s) (past_queue s) bs"
    and sep: "set as \<inter> set bs = {}" "dom ?c = set as \<union> set bs"
    and fresh: "new \<notin> set as" "new \<notin> set bs" "\<forall>a \<in> set as \<union> set bs. a < new"
    using at by (auto simp: queues_at_def queue_of_def new_def)
  define q' where "q' = ?q\<lparr>q_head := (if q_head ?q = None then Some new else q_head ?q),
    q_tail := Some new, q_size := q_size ?q + 1\<rparr>"
  have result: "\<exists>c. enqueue_song song start s =
      Inr (s\<lparr>q_heap := \<lparr>cells = c, next_address = new + 1\<rparr>, song_queue := q'\<rparr>) \<and>
    chain c (q_head q') (as @ [new]) None \<and> dom c = set (as @ [new]) \<union> set bs \<and>
    (\<forall>a \<in> set bs. c a = ?c a) \<and>
    (\<forall>a \<in> set as. map_option (\<lambda>e. (entry_song e, entry_start e)) (c a) =
       map_option (\<lambda>e. (entry_song e, entry_start e)) (?c a)) \<and> c new = Some e"
  proof (cases as rule: rev_cases)
    case Nil
    then show ?thesis
      using q sep fresh
      by (intro exI [of _ "?c(new \<mapsto> e)"])
        (simp add: enqueue_song_def malloc_entry_def Let_def q'_def new_def e_def)
  next
    case (snoc bs' l)
    obtain el where el: "?c l = Some el" using q(1) snoc by auto
    have hd: "q_head ?q \<noteq> None" using q(1) snoc by (cases bs') auto
    have ln: "l \<noteq> new" using fresh snoc by auto
    have ch: "chain (?c(new \<mapsto> e)) (q_head ?q) (bs' @ [l]) None" using q(1) fresh snoc by simp
    have "chain ((?c(new \<mapsto> e))(l \<mapsto> el\<lparr>entry_next := Some new\<rparr>)) (q_head ?q) ((bs' @ [l]) @ [new]) None"
      using snoc q(2) ln fresh el by (intro chain_relink [OF ch]) (auto simp: e_def)
    moreover have "l \<notin> set bs" using sep snoc by auto
    moreover have "enqueue_song song start s =
        Inr (s\<lparr>q_heap := \<lparr>cells = (?c(new \<mapsto> e))(l \<mapsto> el\<lparr>entry_next := Some new\<rparr>), next_address = new + 1\<rparr>,
               song_queue := q'\<rparr>)"
      using q(4) snoc el ln hd
      by (simp add: enqueue_song_def malloc_entry_def set_next_def Let_def q'_def new_def e_def)
    ultimately show ?thesis
      using snoc hd ln fresh el sep
      by (intro exI [of _ "(?c(new \<mapsto> e))(l \<mapsto> el\<lparr>entry_next := Some new\<rparr>)"]) (auto simp: q'_def)
  qed
  then obtain c where c: "enqueue_song song start s =
      Inr (s\<lparr>q_heap := \<lparr>cells = c, next_address = new + 1\<rparr>, song_queue := q'\<rparr>)"
    "chain c (q_head q') (as @ [new]) None" "dom c = set (as @ [new]) \<union> set bs"
    "\<forall>a \<in> set bs. c a = ?c a"
    "\<forall>a \<in> set as. map_option (\<lambda>e. (entry_song e, entry_start e)) (c a) =
       map_option (\<lambda>e. (entry_song e, entry_start e)) (?c a)" "c new = Some e" by blast
  let ?s = "s\<lparr>q_heap := \<lparr>cells = c, next_address = new + 1\<rparr>, song_queue := q'\<rparr>"
  have "queues_at ?s (as @ [new]) bs"
    using c(2,3) c(4) q p sep fresh queue_of_cong [OF p, of "q_heap ?s"]
    by (auto simp: queues_at_def queue_of_def q'_def intro: less_SucI)
  moreover have "entry_at (q_heap ?s) a = entry_at (q_heap s) a" if "a \<in> set as \<union> set bs" for a
    using that c(4,5) by (auto simp: entry_at_def map_option_case split: option.splits)
  moreover have "entry_at (q_heap ?s) new = (song, Some start)" using c(6) by (simp add: entry_at_def e_def)
  ultimately have "queues_hold ?s (xs @ [(song, Some start)]) ys"
    unfolding queues_hold_def xs ys by (intro exI [of _ "as @ [new]"] exI [of _ bs]) auto
  then show ?thesis using c(1) by (simp add: q'_def)
qed

text \<open>The head of a playlist that is not empty, taken off.\<close>

lemma dequeue_hold:
  assumes "queues_hold s (x # xs) ys"
  shows "\<exists>s'. get_next_song_info s = Inr (x, s') \<and> queues_hold s' xs ys \<and>
    q_wanted_size (song_queue s') = q_wanted_size (song_queue s) \<and> past_queue s' = past_queue s"
proof -
  obtain as' bs where at: "queues_at s as' bs" and xs': "x # xs = map (entry_at (q_heap s)) as'"
    and ys: "ys = map (fst \<circ> entry_at (q_heap s)) bs"
    using assms by (auto simp: queues_hold_def)
  then obtain a as where as': "as' = a # as" and x: "x = entry_at (q_heap s) a"
    and xs: "xs = map (entry_at (q_heap s)) as" by auto
  let ?c = "cells (q_heap s)" and ?q = "song_queue s"
  obtain e where q: "q_head ?q = Some a" "?c a = Some e" "chain ?c (entry_next e) as None"
    and d: "a \<notin> set as" "distinct as" "q_size ?q = int (length as) + 1"
      "q_tail ?q = Some (if as = [] then a else last as)"
    and p: "queue_of (q_heap s) (past_queue s) bs"
    and sep: "set (a # as) \<inter> set bs = {}" "dom ?c = set (a # as) \<union> set bs"
    and below: "\<forall>b \<in> set (a # as) \<union> set bs. b < next_address (q_heap s)"
    using at as' by (auto simp: queues_at_def queue_of_def)
  define q' where "q' = ?q\<lparr>q_head := entry_next e, q_tail := (if as = [] then None else q_tail ?q),
    q_size := q_size ?q - 1\<rparr>"
  define h' where "h' = q_heap s\<lparr>cells := ?c(a := None)\<rparr>"
  have last: "as \<noteq> [] \<Longrightarrow> last as \<noteq> a" using d(1) last_in_set by metis
  have nx: "as = [] \<Longrightarrow> entry_next e = None" using q(3) by simp
  have "get_next_song_info s = Inr (x, s\<lparr>q_heap := h', song_queue := q'\<rparr>)"
    using q d last nx by (cases "as = []")
      (auto simp: get_next_song_info_def free_entry_def entry_at_def x q'_def h'_def Let_def)
  moreover have at': "queues_at (s\<lparr>q_heap := h', song_queue := q'\<rparr>) as bs"
    using q d p sep below queue_of_cong [OF p, of h']
    by (auto simp: queues_at_def queue_of_def q'_def h'_def)
  have "entry_at h' b = entry_at (q_heap s) b" if "b \<in> set as \<union> set bs" for b
    using that d(1) sep(1) by (auto simp: entry_at_def h'_def)
  then have "queues_hold (s\<lparr>q_heap := h', song_queue := q'\<rparr>) xs ys"
    by (intro queues_holdI [OF at']) (simp_all add: xs ys)
  ultimately show ?thesis by (intro exI [of _ "s\<lparr>q_heap := h', song_queue := q'\<rparr>"]) (simp add: q'_def)
qed

lemma dequeue_empty:
  assumes "queues_hold s [] ys"
  shows "get_next_song_info s = Inr ((None, Some 0), s)"
  using queues_hold_size [OF assms] by (simp add: get_next_song_info_def Let_def)

text \<open>Cutting one entry out of the middle of the playlist.\<close>

lemma unlink_hold:
  assumes "queues_hold s xs ys" and "n < length xs"
  shows "\<exists>s'. unlink_entry n s = Inr (fst (xs ! n), s') \<and>
    queues_hold s' (take n xs @ drop (Suc n) xs) ys \<and>
    q_wanted_size (song_queue s') = q_wanted_size (song_queue s) \<and> past_queue s' = past_queue s \<and>
    q_selected (song_queue s') = q_selected (song_queue s)"
proof -
  obtain as bs where at: "queues_at s as bs" and xs: "xs = map (entry_at (q_heap s)) as"
    and ys: "ys = map (fst \<circ> entry_at (q_heap s)) bs"
    using assms by (auto simp: queues_hold_def)
  define us where "us = take n as"
  define a where "a = as ! n"
  define vs where "vs = drop (Suc n) as"
  have n: "n < length as" using assms(2) xs by simp
  have as: "as = us @ a # vs" and len: "length us = n"
    using n by (simp_all add: us_def a_def vs_def id_take_nth_drop [symmetric])
  let ?c = "cells (q_heap s)" and ?q = "song_queue s"
  obtain m e where q: "chain ?c (q_head ?q) us (Some a)" "?c a = Some e" "chain ?c (entry_next e) vs None"
    and d: "distinct (us @ a # vs)" "q_size ?q = int (length us + length vs) + 1"
      "q_tail ?q = Some (if vs = [] then a else last vs)"
    and p: "queue_of (q_heap s) (past_queue s) bs"
    and sep: "set as \<inter> set bs = {}" "dom ?c = set as \<union> set bs"
    and below: "\<forall>b \<in> set as \<union> set bs. b < next_address (q_heap s)"
    using at as by (auto simp: queues_at_def queue_of_def)
  have skip: "skip_entries n (q_heap s) (None, q_head ?q) = Inr (if us = [] then None else Some (last us), Some a)"
    using skip_entries_chain [OF q(1)] len by simp
  define last_entry where "last_entry = (if us = [] then None else Some (last us))"
  define q' where "q' = ?q\<lparr>q_head := (if us = [] then entry_next e else q_head ?q),
    q_tail := (if vs = [] then last_entry else q_tail ?q), q_size := q_size ?q - 1\<rparr>"
  have head: "Some a = q_head ?q \<longleftrightarrow> us = []" using q(1) d(1) by (cases us) auto
  have tail: "vs \<noteq> [] \<Longrightarrow> last vs \<noteq> a" using d(1) last_in_set [of vs] by auto
  obtain c where c: "unlink_entry n s = Inr (entry_song e, s\<lparr>q_heap := q_heap s\<lparr>cells := c(a := None)\<rparr>, song_queue := q'\<rparr>)"
    "chain (c(a := None)) (q_head q') (us @ vs) None" "dom c = dom ?c"
    "\<And>b. map_option (\<lambda>e. (entry_song e, entry_start e)) (c b) = map_option (\<lambda>e. (entry_song e, entry_start e)) (?c b)"
    "\<And>b. b \<notin> set us \<Longrightarrow> c b = ?c b"
  proof (cases us rule: rev_cases)
    case Nil
    have hd: "q_head ?q = Some a" using q(1) Nil by simp
    have "unlink_entry n s = Inr (entry_song e, s\<lparr>q_heap := q_heap s\<lparr>cells := ?c(a := None)\<rparr>, song_queue := q'\<rparr>)"
      using skip hd tail [symmetric] d(3) q(2) Nil
      by (cases "vs = []") (simp_all add: unlink_entry_def Let_def free_entry_def q'_def last_entry_def)
    moreover have "chain (?c(a := None)) (q_head q') (us @ vs) None"
      using Nil q(3) d(1) by (simp add: q'_def)
    ultimately show ?thesis using that [of ?c] by simp
  next
    case (snoc us' l)
    obtain el where el: "?c l = Some el" using q(1) snoc by auto
    let ?d = "?c(l \<mapsto> el\<lparr>entry_next := entry_next e\<rparr>)"
    have la: "l \<noteq> a" using d(1) snoc by auto
    have step: "unlink_entry n s = Inr (entry_song e, s\<lparr>q_heap := q_heap s\<lparr>cells := ?d(a := None)\<rparr>, song_queue := q'\<rparr>)"
      using skip head tail [symmetric] d(3) q(2) snoc el la
      by (cases "vs = []") (simp_all add: unlink_entry_def Let_def free_entry_def set_next_def q'_def last_entry_def)
    have "chain ?d (q_head ?q) ((us' @ [l]) @ vs) None"
      using q(1,3) d(1) el snoc by (intro chain_relink) auto
    then have ch: "chain (?d(a := None)) (q_head q') (us @ vs) None"
      using chain_other [of a "us @ vs" ?d None] d(1) snoc by (simp add: q'_def del: chain_append)
    have "dom ?d = dom ?c" using el by auto
    moreover have "map_option (\<lambda>e. (entry_song e, entry_start e)) (?d b) =
        map_option (\<lambda>e. (entry_song e, entry_start e)) (?c b)" for b using el by simp
    moreover have "b \<notin> set us \<Longrightarrow> ?d b = ?c b" for b using snoc by auto
    ultimately show ?thesis by (intro that [OF step ch]) blast+
  qed
  let ?s = "s\<lparr>q_heap := q_heap s\<lparr>cells := c(a := None)\<rparr>, song_queue := q'\<rparr>"
  have bsc: "(c(a := None)) b = ?c b" if "b \<in> set bs" for b
    using that c(5) [of b] sep(1) as by auto
  have at': "queues_at ?s (us @ vs) bs"
    unfolding queues_at_def
  proof (intro conjI)
    show "queue_of (q_heap ?s) (song_queue ?s) (us @ vs)"
      using c(2) d by (auto simp: queue_of_def q'_def last_entry_def)
    show "queue_of (q_heap ?s) (past_queue ?s) bs"
      using queue_of_cong [OF p, of "q_heap ?s"] bsc by simp
    show "set (us @ vs) \<inter> set bs = {}" using sep(1) as by auto
    show "dom (cells (q_heap ?s)) = set (us @ vs) \<union> set bs"
      using c(3) sep as d(1) by auto
    show "\<forall>b \<in> set (us @ vs) \<union> set bs. b < next_address (q_heap ?s)" using below as by auto
  qed
  have same: "entry_at (q_heap ?s) b = entry_at (q_heap s) b" if "b \<noteq> a" for b
    using that c(4) [of b] by (auto simp: entry_at_def split: option.splits)
  have "take n xs @ drop (Suc n) xs = map (entry_at (q_heap s)) (us @ vs)"
    by (simp add: xs us_def vs_def take_map drop_map)
  also have "\<dots> = map (entry_at (q_heap ?s)) (us @ vs)"
    using d(1) by (intro map_cong refl same [symmetric]) auto
  finally have xs': "take n xs @ drop (Suc n) xs = map (entry_at (q_heap ?s)) (us @ vs)" .
  have "a \<notin> set bs" using sep(1) as by auto
  then have "map (fst \<circ> entry_at (q_heap ?s)) bs = ys"
    unfolding ys by (intro map_cong refl) (metis comp_apply same)
  then have "queues_hold ?s (take n xs @ drop (Suc n) xs) ys"
    by (intro queues_holdI [OF at'] xs' [symmetric])
  moreover have "fst (xs ! n) = entry_song e"
    using n q(2) by (simp add: xs entry_at_def a_def)
  ultimately show ?thesis
    using c(1) by (intro exI [of _ ?s]) (simp add: q'_def)
qed

text \<open>The past queue: a song in front, and the end cut off beyond the wanted size.\<close>

lemma distinct_below: "distinct as \<Longrightarrow> \<forall>a \<in> set as. a < n \<Longrightarrow> length as \<le> n"
  using card_mono [of "{..<n}" "set as"] distinct_card [of as] by auto

lemma cut_chain:
  assumes "chain (cells h) p (ks @ l # vs) None" and "distinct (ks @ l # vs)"
    and "\<forall>a \<in> set (ks @ l # vs). a < next_address h"
  shows "\<exists>m el. skip_entries (length ks + 1) h (None, p) = Inr (Some l, m) \<and> cells h l = Some el \<and>
    set_next (Some l) None h = Inr (h\<lparr>cells := (cells h)(l \<mapsto> el\<lparr>entry_next := None\<rparr>)\<rparr>) \<and>
    free_entries (next_address h) m (h\<lparr>cells := (cells h)(l \<mapsto> el\<lparr>entry_next := None\<rparr>)\<rparr>) =
      Inr (h\<lparr>cells := (\<lambda>a. if a \<in> set vs then None else ((cells h)(l \<mapsto> el\<lparr>entry_next := None\<rparr>)) a)\<rparr>) \<and>
    chain ((cells h)(l \<mapsto> el\<lparr>entry_next := None\<rparr>)) p (ks @ [l]) None"
proof -
  obtain el where el: "chain (cells h) p (ks @ [l]) (entry_next el)" "cells h l = Some el"
    "chain (cells h) (entry_next el) vs None" using assms(1) by auto
  let ?c = "(cells h)(l \<mapsto> el\<lparr>entry_next := None\<rparr>)"
  let ?h = "h\<lparr>cells := ?c\<rparr>"
  have skip: "skip_entries (length ks + 1) h (None, p) = Inr (Some l, entry_next el)"
    using skip_entries_chain [OF el(1), of None] by simp
  have cut: "chain ?c p ((ks @ [l]) @ []) None"
    using assms(2) el by (intro chain_relink [OF el(1)]) auto
  have rest: "chain (cells ?h) (entry_next el) vs None" using assms(2) el(3) by simp
  have "length vs \<le> next_address h" using assms(2,3) by (intro distinct_below) auto
  then have "free_entries (next_address h) (entry_next el) ?h =
      Inr (?h\<lparr>cells := (\<lambda>a. if a \<in> set vs then None else cells ?h a)\<rparr>)"
    using assms(2) by (intro free_entries_chain [OF rest]) auto
  then show ?thesis
    using skip cut el(2) by (intro exI [of _ "entry_next el"] exI [of _ el])
      (simp add: set_next_def cong: if_cong)
qed

lemma done_hold:
  assumes "queues_hold s xs ys" and "0 < q_wanted_size (past_queue s)"
  shows "\<exists>s'. done_with_song_info song s = Inr s' \<and>
    queues_hold s' xs (take (nat (q_wanted_size (past_queue s))) (song # ys)) \<and>
    q_wanted_size (past_queue s') = q_wanted_size (past_queue s) \<and> song_queue s' = song_queue s"
proof -
  obtain as bs where at: "queues_at s as bs" and xs: "xs = map (entry_at (q_heap s)) as"
    and ys: "ys = map (fst \<circ> entry_at (q_heap s)) bs"
    using assms by (auto simp: queues_hold_def)
  define new where "new = next_address (q_heap s)"
  define w where "w = nat (q_wanted_size (past_queue s))"
  let ?c = "cells (q_heap s)" and ?q = "past_queue s"
  define e where "e = \<lparr>entry_next = q_head ?q, entry_song = song, entry_start = None\<rparr>"
  define h where "h = \<lparr>cells = ?c(new \<mapsto> e), next_address = new + 1\<rparr>"
  have q: "chain ?c (q_head ?q) bs None" "distinct bs" "q_size ?q = int (length bs)"
    "q_tail ?q = (if bs = [] then None else Some (last bs))"
    and p: "queue_of (q_heap s) (song_queue s) as"
    and sep: "set as \<inter> set bs = {}" "dom ?c = set as \<union> set bs"
    and fresh: "new \<notin> set as" "new \<notin> set bs" "\<forall>a \<in> set as \<union> set bs. a < new"
    using at by (auto simp: queues_at_def queue_of_def new_def)
  have w: "0 < w" "q_wanted_size ?q = int w" using assms(2) by (simp_all add: w_def)
  have malloc: "malloc_entry \<lparr>entry_next = q_head ?q, entry_song = song, entry_start = None\<rparr> (q_heap s) = (new, h)"
    by (simp add: malloc_entry_def new_def h_def e_def)
  have ch: "chain (cells h) (Some new) (new # bs) None" using q(1) fresh by (simp add: h_def e_def)
  have ent: "entry_at h a = entry_at (q_heap s) a" if "a \<noteq> new" for a
    using that by (simp add: h_def entry_at_def)
  have entnew: "fst (entry_at h new) = song" by (simp add: h_def e_def entry_at_def)
  define q1 where "q1 = ?q\<lparr>q_head := Some new, q_tail := Some (last (new # bs)), q_size := q_size ?q + 1\<rparr>"
  have ysn: "song # ys = map (fst \<circ> entry_at h) (new # bs)"
    using fresh ent by (auto simp: ys entnew intro!: arg_cong [of _ _ fst]) (metis ent)
  show ?thesis
  proof (cases "length bs < w")
    case True
    let ?s = "s\<lparr>q_heap := h, past_queue := q1\<rparr>"
    have "done_with_song_info song s = Inr ?s"
      using True w q(3,4)
      by (simp add: done_with_song_info_def malloc Let_def q1_def)
    moreover have at': "queues_at ?s as (new # bs)"
      unfolding queues_at_def
    proof (intro conjI)
      show "queue_of (q_heap ?s) (song_queue ?s) as"
      proof -
        have "cells h a = ?c a" if "a \<in> set as" for a using that fresh by (auto simp: h_def)
        then show ?thesis using queue_of_cong [OF p, of h] by simp
      qed
      show "queue_of (q_heap ?s) (past_queue ?s) (new # bs)"
        using ch q fresh by (simp add: queue_of_def q1_def)
      show "set as \<inter> set (new # bs) = {}" using sep fresh by auto
      show "dom (cells (q_heap ?s)) = set as \<union> set (new # bs)" using sep by (auto simp: h_def)
      show "\<forall>a \<in> set as \<union> set (new # bs). a < next_address (q_heap ?s)"
        using fresh by (auto simp: h_def intro: less_SucI)
    qed
    have "map (entry_at h) as = xs"
      unfolding xs using fresh(1) by (intro map_cong refl ent) auto
    then have "queues_hold ?s xs (song # ys)"
      using ysn by (intro queues_holdI [OF at']) simp_all
    ultimately show ?thesis
      using True w by (intro exI [of _ ?s]) (simp add: ys q1_def w_def [symmetric])
  next
    case False
    define ks where "ks = take (w - 1) (new # bs)"
    define l where "l = (new # bs) ! (w - 1)"
    define vs where "vs = drop w (new # bs)"
    have split: "new # bs = ks @ l # vs" and len: "length ks + 1 = w"
      using id_take_nth_drop [of "w - 1" "new # bs"] False w
      by (simp_all add: ks_def l_def vs_def)
    have d: "distinct (ks @ l # vs)" using q(2) fresh split by (metis distinct.simps(2))
    have below: "\<forall>a \<in> set (ks @ l # vs). a < next_address h"
      using fresh unfolding split [symmetric] by (auto simp: h_def intro: less_SucI)
    obtain m el where cut: "skip_entries w h (None, Some new) = Inr (Some l, m)" "cells h l = Some el"
      "set_next (Some l) None h = Inr (h\<lparr>cells := (cells h)(l \<mapsto> el\<lparr>entry_next := None\<rparr>)\<rparr>)"
      "free_entries (next_address h) m (h\<lparr>cells := (cells h)(l \<mapsto> el\<lparr>entry_next := None\<rparr>)\<rparr>) =
        Inr (h\<lparr>cells := (\<lambda>a. if a \<in> set vs then None else ((cells h)(l \<mapsto> el\<lparr>entry_next := None\<rparr>)) a)\<rparr>)"
      "chain ((cells h)(l \<mapsto> el\<lparr>entry_next := None\<rparr>)) (Some new) (ks @ [l]) None"
      using cut_chain [OF ch [unfolded split] d below] unfolding len by blast
    define c' where "c' = (\<lambda>a. if a \<in> set vs then None else ((cells h)(l \<mapsto> el\<lparr>entry_next := None\<rparr>)) a)"
    define h' where "h' = h\<lparr>cells := c'\<rparr>"
    define q2 where "q2 = q1\<lparr>q_tail := Some l, q_size := int w\<rparr>"
    let ?s = "s\<lparr>q_heap := h', past_queue := q2\<rparr>"
    have step: "done_with_song_info song s = Inr ?s"
      using False w q(3) cut
      by (simp add: done_with_song_info_def malloc Let_def h'_def c'_def q1_def q2_def)
    have in_h: "a \<in> set as \<Longrightarrow> c' a = ?c a \<and> a \<noteq> l" for a
    proof -
      assume "a \<in> set as"
      then have "a \<notin> set (ks @ l # vs)" using fresh sep unfolding split [symmetric] by auto
      with \<open>a \<in> set as\<close> fresh show "c' a = ?c a \<and> a \<noteq> l" by (auto simp: c'_def h_def)
    qed
    have chain': "chain c' (Some new) (ks @ [l]) None"
    proof -
      have "c' a = ((cells h)(l \<mapsto> el\<lparr>entry_next := None\<rparr>)) a" if "a \<in> set (ks @ [l])" for a
        using d that by (auto simp: c'_def)
      then have "chain c' (Some new) (ks @ [l]) None =
          chain ((cells h)(l \<mapsto> el\<lparr>entry_next := None\<rparr>)) (Some new) (ks @ [l]) None"
        by (rule chain_cong)
      then show ?thesis using cut(5) by (rule iffD2)
    qed
    have at': "queues_at ?s as (ks @ [l])"
      unfolding queues_at_def
    proof (intro conjI)
      show "queue_of (q_heap ?s) (song_queue ?s) as"
        using queue_of_cong [OF p, of h'] in_h by (auto simp: h'_def)
      show "queue_of (q_heap ?s) (past_queue ?s) (ks @ [l])"
        using chain' d len by (simp add: queue_of_def q2_def q1_def h'_def)
      have set_split: "set (ks @ l # vs) = insert new (set bs)" unfolding split [symmetric] by simp
      then show "set as \<inter> set (ks @ [l]) = {}" using sep(1) fresh(1) by auto
      have asvs: "set as \<inter> set vs = {}" using set_split sep(1) fresh(1) by auto
      have "dom (cells h) = set as \<union> set (ks @ l # vs)"
        using sep(2) unfolding split [symmetric] by (auto simp: h_def)
      then show "dom (cells (q_heap ?s)) = set as \<union> set (ks @ [l])"
        using d asvs cut(2)
        by (auto simp: h'_def c'_def dom_def split: if_splits)
      show "\<forall>a \<in> set as \<union> set (ks @ [l]). a < next_address (q_heap ?s)"
        using fresh below by (auto simp: h'_def h_def intro: less_SucI)
    qed
    have ent': "a \<in> set (ks @ [l]) \<Longrightarrow> entry_at h' a = entry_at h a" for a
      using d cut(2) by (auto simp: entry_at_def h'_def c'_def)
    have "take w (song # ys) = map (fst \<circ> entry_at h) (ks @ [l])"
      unfolding ysn split by (simp add: take_map len [symmetric])
    also have "\<dots> = map (fst \<circ> entry_at h') (ks @ [l])" using ent' by (intro map_cong) auto
    finally have ys': "map (fst \<circ> entry_at h') (ks @ [l]) = take w (song # ys)" by simp
    have xs': "map (entry_at h') as = xs"
      using in_h by (auto simp: xs entry_at_def h'_def)
    have "queues_hold ?s xs (take w (song # ys))"
      using xs' ys' by (intro queues_holdI [OF at']) simp_all
    then show ?thesis
      using step by (intro exI [of _ ?s]) (simp add: q2_def q1_def w_def [symmetric])
  qed
qed

section \<open>All operations, as operations on lists\<close>

datatype queue_op =
    Enqueue "nat option" int
  | Take_Next
  | Remove nat
  | Done_With "nat option"

text \<open>The removal is guarded by the size, as in \<open>do_delete()\<close>.\<close>

fun run_queue_op :: "queue_op \<Rightarrow> queues \<Rightarrow> queues result" where
  "run_queue_op (Enqueue song start) s = enqueue_song song start s"
| "run_queue_op Take_Next s = map_result snd (get_next_song_info s)"
| "run_queue_op (Remove n) s =
     (if int n < q_size (song_queue s) then map_result snd (unlink_entry n s) else Inr s)"
| "run_queue_op (Done_With song) s = done_with_song_info song s"

fun list_op :: "nat \<Rightarrow> queue_op \<Rightarrow> play_entry list \<times> nat option list \<Rightarrow> play_entry list \<times> nat option list" where
  "list_op w (Enqueue song start) (xs, ys) = (xs @ [(song, Some start)], ys)"
| "list_op w Take_Next (xs, ys) = (tl xs, ys)"
| "list_op w (Remove n) (xs, ys) = (take n xs @ drop (Suc n) xs, ys)"
| "list_op w (Done_With song) (xs, ys) = (xs, take w (song # ys))"

definition queues_stand_for :: "nat \<Rightarrow> queues \<Rightarrow> play_entry list \<times> nat option list \<Rightarrow> bool" where
  "queues_stand_for w s xy \<longleftrightarrow> queues_hold s (fst xy) (snd xy) \<and>
     q_wanted_size (past_queue s) = int w \<and> 0 < w"

lemma queue_op_step:
  assumes "queues_stand_for w s xy"
  shows "\<exists>s'. run_queue_op c s = Inr s' \<and> queues_stand_for w s' (list_op w c xy)"
proof -
  obtain xs ys where xy: "xy = (xs, ys)" by (cases xy)
  have h: "queues_hold s xs ys" "q_wanted_size (past_queue s) = int w" "0 < w"
    using assms by (simp_all add: queues_stand_for_def xy)
  show ?thesis
  proof (cases c)
    case (Enqueue song start)
    then show ?thesis using enqueue_hold [OF h(1), of song start] h by (auto simp: queues_stand_for_def xy)
  next
    case Take_Next
    then show ?thesis
      using h dequeue_empty [of s ys] dequeue_hold [of s "hd xs" "tl xs" ys]
      by (cases xs) (auto simp: queues_stand_for_def xy)
  next
    case (Remove n)
    then show ?thesis
      using h queues_hold_size [OF h(1)] unlink_hold [OF h(1), of n]
      by (cases "n < length xs") (auto simp: queues_stand_for_def xy)
  next
    case (Done_With song)
    have "0 < q_wanted_size (past_queue s)" using h by simp
    from done_hold [OF h(1) this, of song] Done_With h show ?thesis
      by (auto simp: queues_stand_for_def xy)
  qed
qed

interpretation queue_lists: refinement "queues_stand_for w" run_queue_op "list_op w" for w
  by unfold_locales (rule queue_op_step)

text \<open>C2. The linked queues implement lists: any sequence of queueing, taking the next song,
  deleting and finishing songs, from empty queues and with a positive past-list
  size, runs without a bad pointer, leaks nothing (every heap entry is in one
  of the queues) and leaves the playlist and the past list that the same
  operations on lists give.\<close>

theorem queues_refine_lists:
  assumes "0 < w"
  shows "\<exists>s'. fold_result run_queue_op ops (empty_queues n (int w)) = Inr s' \<and>
    queues_hold s' (fst (fold (list_op w) ops ([], []))) (snd (fold (list_op w) ops ([], [])))"
proof -
  have "queues_stand_for w (empty_queues n (int w)) ([], [])"
    using assms empty_queues_hold by (simp add: queues_stand_for_def empty_queues_def empty_queue_def)
  from queue_lists.run_all [OF this, of ops] show ?thesis by (auto simp: queues_stand_for_def)
qed

theorem queues_refine_lists_witness:
  "\<exists>s'. fold_result run_queue_op
     [Enqueue (Some 1) 0, Enqueue (Some 2) 0, Enqueue (Some 3) 5, Remove 1, Take_Next, Done_With (Some 1)]
     (empty_queues 3 (int 2)) = Inr s' \<and> queues_hold s' [(Some 3, Some 5)] [Some 1]"
  using queues_refine_lists [of 2 "[Enqueue (Some 1) 0, Enqueue (Some 2) 0, Enqueue (Some 3) 5, Remove 1,
    Take_Next, Done_With (Some 1)]" 3] by simp

text \<open>With a past-list size of 0 (or less) the first finished song is a fault:
  \<open>done_with_song_info()\<close> keeps no entry and writes through the null pointer to the
  last one kept.\<close>

theorem done_with_empty_past_list:
  assumes "queues_hold s xs ys" and "q_wanted_size (past_queue s) \<le> 0"
  shows "done_with_song_info song s = Inl Null_Deref"
  using queues_hold_size [OF assms(1)] assms(2)
  by (simp add: done_with_song_info_def malloc_entry_def set_next_def Let_def)

theorem done_with_empty_past_list_witness:
  "done_with_song_info (Some 0) (empty_queues 3 0) = Inl Null_Deref"
  by (rule done_with_empty_past_list [OF empty_queues_hold]) (simp add: empty_queues_def empty_queue_def)

end
