(* ===== verification/Playlist.thy ===== *)
theory Playlist
  imports Stat_Correct Song_Queue
begin

text \<open>
  The playlist manager, \<open>src/src/playlist_manager.c\<close>: making sure that a song is
  fully loaded before it is queued, queueing it, and the turns of the thread that
  keeps the playlist filled.

  What a decoder library finds out about the length of a song is the parameter
  \<open>dur\<close>: for a type and a file name the duration, or nothing if the file cannot
  be opened.
\<close>

section \<open>Definitions\<close>

type_synonym durations = "song_type \<Rightarrow> string \<Rightarrow> int option"

text \<open>The length from the meta data, or else from the decoder.\<close>

definition load_play_length :: "durations \<Rightarrow> song_info \<Rightarrow> song_info result" where
  "load_play_length dur song =
     (let meta_length =
        (case get_meta_data (Some song) ''duration'' of
           None \<Rightarrow> get_meta_data (Some song) ''length''
         | Some m \<Rightarrow> Some m) in
      case (case meta_length of None \<Rightarrow> [] | Some m \<Rightarrow> mvalues m) of
        Some v # _ \<Rightarrow> Inr (song\<lparr>play_length := atoi v\<rparr>)
      | None # _ \<Rightarrow> Inl Null_Deref
      | [] \<Rightarrow>
        (case song_type song of
           Some t \<Rightarrow>
             if t = TYPE_UNKNOWN then Inr song
             else (case dur t (basename song BASENAME_SONG @ ''/'' @ filename song) of
                     None \<Rightarrow> Inl Squash_Error
                   | Some l \<Rightarrow> Inr (song\<lparr>play_length := l\<rparr>))
         | None \<Rightarrow> Inl Out_Of_Bounds))"

definition ensure_song_fully_loaded ::
  "build \<Rightarrow> config \<Rightarrow> tags \<Rightarrow> durations \<Rightarrow> song_info \<Rightarrow> filesys \<Rightarrow> (song_info \<times> filesys) result" where
  "ensure_song_fully_loaded b cfg tags dur song fs =
     and_then (if song_type song = None
               then map_result (\<lambda>t. song\<lparr>song_type := Some t\<rparr>)
                      (get_song_type b fs (Some (basename song BASENAME_SONG)) (Some (filename song)))
               else Inr song) (\<lambda>song.
     and_then (if meta_key_count song = -1 then load_meta_data b cfg tags TYPE_META song fs
               else Inr (song, fs)) (\<lambda>(song, fs).
     map_result (\<lambda>song. (song, fs))
       (if play_length song = -1 then load_play_length dur song else Inr song)))"

text \<open>What the threads share: the database, the files and the queues.\<close>

record world =
  w_db :: database_info
  w_fs :: filesys
  w_queues :: queues

definition playlist_queue_song ::
  "build \<Rightarrow> config \<Rightarrow> tags \<Rightarrow> durations \<Rightarrow> nat option \<Rightarrow> int \<Rightarrow> world \<Rightarrow> world result" where
  "playlist_queue_song b cfg tags dur song start w =
     and_then
       (case song of
          None \<Rightarrow> Inr w
        | Some i \<Rightarrow>
          and_then (read_at (songs (w_db w)) (int i)) (\<lambda>s.
          map_result (\<lambda>(s', fs'). w\<lparr>w_db := (w_db w)\<lparr>songs := (songs (w_db w))[i := s']\<rparr>, w_fs := fs'\<rparr>)
            (ensure_song_fully_loaded b cfg tags dur s (w_fs w)))) (\<lambda>w.
     map_result (\<lambda>q. w\<lparr>w_queues := q\<rparr>) (enqueue_song song start (w_queues w)))"

text \<open>
  One turn of the thread once it holds its locks.  \<open>None\<close> is a turn that goes
  back to waiting, or whose choice of a song has not come to an end with the
  random numbers given.
\<close>

definition playlist_manager_turn ::
  "build \<Rightarrow> config \<Rightarrow> tags \<Rightarrow> durations \<Rightarrow> nat list \<Rightarrow> world \<Rightarrow> world option result" where
  "playlist_manager_turn b cfg tags dur rands w =
     (let q = song_queue (w_queues w) in
      if q_size q \<ge> q_wanted_size q then Inr None
      else if song_count (w_db w) \<le> 0 then Inl Squash_Error
      else if \<not> stats_loaded (w_db w) then Inr None
      else
        and_then (pick_song cfg (w_db w) rands) (\<lambda>picked.
        case picked of
          None \<Rightarrow> Inr None
        | Some (c, db) \<Rightarrow>
          and_then (playlist_queue_song b cfg tags dur (Some c) 0 (w\<lparr>w_db := db\<rparr>)) (\<lambda>w.
          map_result Some
            (let q = song_queue (w_queues w) in
             if q_size q \<ge> q_wanted_size q
             then map_result (\<lambda>(db, fs). w\<lparr>w_db := db, w_fs := fs\<rparr>) (save_all_songs cfg (w_db w) (w_fs w))
             else Inr w))))"

section \<open>Loading a song before it is queued\<close>

definition fully_loaded :: "song_info \<Rightarrow> bool" where
  "fully_loaded song \<longleftrightarrow> song_type song \<noteq> None \<and> meta_key_count song \<noteq> -1 \<and>
     (play_length song \<noteq> -1 \<or> song_type song = Some TYPE_UNKNOWN \<and> load_play_length (\<lambda>_ _. None) song = Inr song)"

lemma fully_loaded_again:
  assumes "fully_loaded song"
  shows "ensure_song_fully_loaded b cfg tags dur song fs = Inr (song, fs)"
proof -
  obtain t where t: "song_type song = Some t" using assms by (auto simp: fully_loaded_def)
  show ?thesis
  proof (cases "play_length song = -1")
    case False
    then show ?thesis using assms t by (simp add: fully_loaded_def ensure_song_fully_loaded_def)
  next
    case True
    then have u: "t = TYPE_UNKNOWN" and l: "load_play_length (\<lambda>_ _. None) song = Inr song"
      using assms t by (auto simp: fully_loaded_def)
    have "load_play_length dur song = load_play_length (\<lambda>_ _. None) song"
      using t u by (auto simp: load_play_length_def Let_def split: list.splits option.splits)
    then show ?thesis using assms True l t by (simp add: fully_loaded_def ensure_song_fully_loaded_def)
  qed
qed

text \<open>Meta data that is either not loaded at all or well formed.\<close>

definition song_sound :: "song_info \<Rightarrow> bool" where
  "song_sound song \<longleftrightarrow> meta_key_count song = -1 \<and> meta_keys song = [] \<or> song_meta_ok song"

lemma new_song_sound [simp]: "song_sound (new_song cfg n)"
  by (simp add: song_sound_def new_song_def)

definition without_meta :: "song_info \<Rightarrow> song_info" where
  "without_meta s = s\<lparr>meta_keys := [], meta_key_count := 0\<rparr>"

lemma without_meta_fields:
  assumes "without_meta s' = without_meta s"
  shows "stat s' = stat s" "basename s' = basename s" "filename s' = filename s"
    "play_length s' = play_length s" "song_type s' = song_type s"
  using arg_cong [OF assms, of stat] arg_cong [OF assms, of basename] arg_cong [OF assms, of filename]
    arg_cong [OF assms, of play_length] arg_cong [OF assms, of song_type]
  by (simp_all add: without_meta_def)

lemma insert_meta_data_frame:
  "insert_meta_data h k v s = Inr s' \<Longrightarrow> without_meta s' = without_meta s"
  by (auto simp: insert_meta_data_def without_meta_def Let_def split: option.splits if_splits)

text \<open>Both facts together are an invariant that a file can be read under.\<close>

definition meta_of :: "song_info \<Rightarrow> song_info \<Rightarrow> bool" where
  "meta_of s0 s \<longleftrightarrow> song_meta_ok s \<and> without_meta s = without_meta s0"

interpretation meta_of: data_callback "meta_of s0" insert_meta_data for s0
proof unfold_locales
  fix d h k v
  assume "meta_of s0 d"
  then obtain d' where "insert_meta_data h (Some k) v d = Inr d'" "song_meta_ok d'"
    using meta.accepts [of d h k v] by (auto simp: meta_of_def)
  with insert_meta_data_frame [OF this(1)] \<open>meta_of s0 d\<close>
  show "\<exists>d'. insert_meta_data h (Some k) v d = Inr d' \<and> meta_of s0 d'"
    by (auto simp: meta_of_def)
qed

lemma load_tags_ok:
  assumes "meta_of s0 s"
  shows "\<exists>s'. load_tags b tags t n s = Inr s' \<and> meta_of s0 s'"
proof -
  have "\<exists>s'. fold_result (\<lambda>(k, v). insert_meta_data None (Some k) (Some v)) kvs s = Inr s' \<and> meta_of s0 s'" for kvs
    using assms
  proof (induction kvs arbitrary: s)
    case Nil
    then show ?case by simp
  next
    case (Cons kv kvs)
    obtain s1 where "insert_meta_data None (Some (fst kv)) (Some (snd kv)) s = Inr s1" "meta_of s0 s1"
      using meta_of.accepts [OF Cons.prems, of None "fst kv" "Some (snd kv)"] by blast
    with Cons.IH [of s1] show ?case by (simp add: case_prod_beta)
  qed
  then show ?thesis using assms by (simp add: load_tags_def)
qed

lemma meta_of_type: "meta_of s0 s \<Longrightarrow> meta_of (s0\<lparr>song_type := t\<rparr>) (s\<lparr>song_type := t\<rparr>)"
proof -
  assume m: "meta_of s0 s"
  have w: "without_meta (x\<lparr>song_type := t\<rparr>) = (without_meta x)\<lparr>song_type := t\<rparr>" for x
    by (simp add: without_meta_def)
  have "without_meta (s\<lparr>song_type := t\<rparr>) = without_meta (s0\<lparr>song_type := t\<rparr>)"
    unfolding w using m by (simp add: meta_of_def)
  with m show ?thesis by (simp add: meta_of_def song_meta_ok_def)
qed

lemma load_from_song_ok:
  assumes "load_from_song b cfg tags n s fs = Inr (s', fs')" and "meta_of s0 s"
  shows "\<exists>t. song_type s' = Some t \<and> meta_of (s0\<lparr>song_type := Some t\<rparr>) s' \<and> (\<forall>u. song_type s = Some u \<longrightarrow> t = u)"
proof -
  obtain t where t: "(case song_type s of Some t \<Rightarrow> Inr t
      | None \<Rightarrow> get_song_type b fs (Some (basename s BASENAME_SONG)) (Some (filename s))) = Inr t"
    using assms(1) by (auto simp: load_from_song_def)
  let ?s = "s\<lparr>song_type := Some t\<rparr>" and ?base = "s0\<lparr>song_type := Some t\<rparr>"
  have m: "meta_of ?base ?s" by (rule meta_of_type [OF assms(2)])
  obtain s1 where s1: "load_tags b tags t (build_fullfilename ?s BASENAME_SONG) ?s = Inr s1" "meta_of ?base s1"
    using load_tags_ok [OF m] by blast
  have "s' = ?s \<or> s' = s1"
    using assms(1) t s1(1) by (auto simp: load_from_song_def Let_def split: if_splits)
  then have "meta_of ?base s'" using m s1(2) by auto
  moreover have "song_type s' = Some t"
    using calculation without_meta_fields(5) [of s' ?base] by (simp add: meta_of_def)
  ultimately show ?thesis using t by (intro exI [of _ t]) auto
qed

lemma load_meta_ok:
  assumes "load_meta_data b cfg tags TYPE_META s fs = Inr (s', fs')" and "song_sound s"
  shows "\<exists>t. meta_of (s\<lparr>song_type := t\<rparr>) s' \<and> (\<forall>u. song_type s = Some u \<longrightarrow> t = Some u)"
proof -
  define s1 where "s1 = (if meta_key_count s = -1 then s\<lparr>meta_key_count := 0\<rparr> else s)"
  have s1: "(if TYPE_META = TYPE_META \<and> meta_key_count s = -1 then s\<lparr>meta_key_count := 0\<rparr> else s) = s1"
    by (simp add: s1_def)
  have m1: "meta_of s s1"
    using assms(2) by (auto simp: s1_def song_sound_def meta_of_def song_meta_ok_def without_meta_def)
  have "\<exists>ok s2. (if db_overwriteinfo cfg \<noteq> 0 \<and> db_saveinfo cfg \<noteq> 0 then Inr (False, s1)
      else parse_file (files fs (meta_name b TYPE_META s1)) insert_meta_data s1) = Inr (ok, s2) \<and> meta_of s s2"
    using meta_of.parse_file_ok [OF m1] m1 by auto
  then obtain ok s2 where s2: "(if db_overwriteinfo cfg \<noteq> 0 \<and> db_saveinfo cfg \<noteq> 0 then Inr (False, s1)
      else parse_file (files fs (meta_name b TYPE_META s1)) insert_meta_data s1) = Inr (ok, s2)" "meta_of s s2" by blast
  have add: "add_data (db_extension_for TYPE_META) = insert_meta_data"
    by (simp add: db_extension_for_def)
  have res: "(if ok then Inr (s2, fs) else load_from_song b cfg tags (meta_name b TYPE_META s1) s2 fs) = Inr (s', fs')"
    using assms(1) s2(1) unfolding load_meta_data_def s1 add Let_def by (simp split: if_splits)
  show ?thesis
  proof (cases ok)
    case True
    then show ?thesis using res s2(2) by (intro exI [of _ "song_type s"]) simp
  next
    case False
    then have "load_from_song b cfg tags (meta_name b TYPE_META s1) s2 fs = Inr (s', fs')" using res by simp
    from load_from_song_ok [OF this s2(2)] without_meta_fields(5) [of s2 s] s2(2)
    show ?thesis by (auto simp: meta_of_def)
  qed
qed

lemma load_play_length_frame:
  "load_play_length dur s = Inr s' \<Longrightarrow> \<exists>l. s' = s\<lparr>play_length := l\<rparr>"
proof -
  have same: "\<exists>l. s = s\<lparr>play_length := l\<rparr>" by (rule exI [of _ "play_length s"]) simp
  show "load_play_length dur s = Inr s' \<Longrightarrow> \<exists>l. s' = s\<lparr>play_length := l\<rparr>"
    using same by (auto simp: load_play_length_def Let_def split: list.splits option.splits if_splits)
qed

lemma song_sound_upd [simp]:
  "song_sound (s\<lparr>play_length := l\<rparr>) = song_sound s"
  "song_sound (s\<lparr>song_type := t\<rparr>) = song_sound s"
  "song_sound (s\<lparr>stat := st\<rparr>) = song_sound s"
  by (simp_all add: song_sound_def song_meta_ok_def)

text \<open>The three steps, each with what it leaves behind.\<close>

lemma ensure_steps:
  assumes "ensure_song_fully_loaded b cfg tags dur s fs = Inr (s', fs')" and "song_sound s"
  shows "song_sound s' \<and> (\<exists>t. song_type s' = Some t) \<and> 0 \<le> meta_key_count s' \<and> stat s' = stat s \<and>
    filename s' = filename s \<and> basename s' = basename s"
proof -
  obtain s1 t where s1: "s1 = s\<lparr>song_type := Some t\<rparr>"
    and rest: "and_then (if meta_key_count s1 = -1 then load_meta_data b cfg tags TYPE_META s1 fs else Inr (s1, fs))
      (\<lambda>(song, fs). map_result (\<lambda>song. (song, fs))
         (if play_length song = -1 then load_play_length dur song else Inr song)) = Inr (s', fs')"
  proof (cases "song_type s")
    case None
    then obtain t where t: "get_song_type b fs (Some (basename s BASENAME_SONG)) (Some (filename s)) = Inr t"
      using assms(1) by (auto simp: ensure_song_fully_loaded_def)
    show ?thesis by (rule that [OF refl]) (use assms(1) None t in \<open>simp add: ensure_song_fully_loaded_def\<close>)
  next
    case (Some t)
    have eq: "s = s\<lparr>song_type := Some t\<rparr>" using Some by simp
    show ?thesis by (rule that [OF eq]) (use assms(1) Some in \<open>simp add: ensure_song_fully_loaded_def\<close>)
  qed
  have sound1: "song_sound s1" using assms(2) s1 by simp
  obtain s2 fs2 where s2: "(if meta_key_count s1 = -1 then load_meta_data b cfg tags TYPE_META s1 fs else Inr (s1, fs)) = Inr (s2, fs2)"
    and last: "map_result (\<lambda>song. (song, fs2)) (if play_length s2 = -1 then load_play_length dur s2 else Inr s2) = Inr (s', fs')"
    using rest by (auto simp del: map_result_eq_Inr)
  have two: "song_meta_ok s2 \<and> without_meta s2 = without_meta s1"
  proof (cases "meta_key_count s1 = -1")
    case True
    from load_meta_ok [OF _ sound1, of b cfg tags fs s2 fs2] s2 True s1
    have "meta_of (s1\<lparr>song_type := Some t\<rparr>) s2" by auto
    then show ?thesis by (simp add: meta_of_def s1)
  next
    case False
    then show ?thesis using s2 sound1 by (simp add: song_sound_def)
  qed
  note f = without_meta_fields [OF conjunct2 [OF two]]
  have "\<exists>l. s' = s2\<lparr>play_length := l\<rparr>"
  proof (cases "play_length s2 = -1")
    case True
    then show ?thesis using last load_play_length_frame [of dur s2] by auto
  next
    case False
    then show ?thesis using last by (intro exI [of _ "play_length s2"]) simp
  qed
  then obtain l where s': "s' = s2\<lparr>play_length := l\<rparr>" ..
  have "song_sound s2" "0 \<le> meta_key_count s2" using two by (auto simp: song_sound_def song_meta_ok_def)
  then show ?thesis using f s1 by (simp add: s')
qed

text \<open>A song that is queued is loaded: when \<open>ensure_song_fully_loaded()\<close> returns, the
  song's type and meta data are there, its meta data is well formed, its
  statistics and name are what they were, and, once its length is known, asking
  again does nothing at all.\<close>

theorem ensure_song_loads:
  assumes "ensure_song_fully_loaded b cfg tags dur s fs = Inr (s', fs')" and "song_sound s"
  shows "song_meta_ok s' \<and> song_type s' \<noteq> None \<and> stat s' = stat s \<and> filename s' = filename s \<and>
    (play_length s' \<noteq> -1 \<longrightarrow> ensure_song_fully_loaded b cfg tags dur s' fs' = Inr (s', fs'))"
proof -
  note e = ensure_steps [OF assms]
  have "song_meta_ok s'" using e by (auto simp: song_sound_def)
  moreover have "play_length s' \<noteq> -1 \<longrightarrow> fully_loaded s'" using e by (auto simp: fully_loaded_def)
  ultimately show ?thesis using e fully_loaded_again by blast
qed

theorem ensure_song_loads_witness:
  "\<exists>s' fs'. ensure_song_fully_loaded ex_build ex_config (\<lambda>_ _. []) (\<lambda>_ _. Some 7) ex_song ex_fs = Inr (s', fs') \<and>
     song_meta_ok s' \<and> song_type s' \<noteq> None \<and> play_length s' = 7"
proof -
  have run: "ensure_song_fully_loaded ex_build ex_config (\<lambda>_ _. []) (\<lambda>_ _. Some 7) ex_song ex_fs =
    Inr (ex_song\<lparr>song_type := Some TYPE_MP3, play_length := 7\<rparr>, ex_fs)"
    by (simp add: ensure_song_fully_loaded_def ex_song_def new_song_def get_song_type_def suffix_matches_def
        strncasecmp0_exact strcasecmp0_def to_lower_def ex_build_def load_play_length_def get_meta_data_def Let_def)
  have "song_sound ex_song" using ex_song_meta_ok by (simp add: song_sound_def)
  from ensure_song_loads [OF run this] run show ?thesis by auto
qed

section \<open>The turns of the playlist manager\<close>

lemma for_songs_all2:
  assumes "for_songs f ss fs = Inr (ss', fs')"
    and "\<And>s fs s' fs'. f s fs = Inr (s', fs') \<Longrightarrow> P s s'"
  shows "list_all2 P ss ss'"
  using assms(1)
proof (induction ss arbitrary: fs ss')
  case Nil
  then show ?case by simp
next
  case (Cons s ss)
  then obtain s1 fs1 ss1 where "f s fs = Inr (s1, fs1)" "for_songs f ss fs1 = Inr (ss1, fs')" "ss' = s1 # ss1"
    by auto
  then show ?case using assms(2) Cons.IH by auto
qed

lemma save_song_same: "save_song cfg loaded s fs = Inr (s', fs') \<Longrightarrow>
  same_stats s s' \<and> repeat_counter (stat s') = repeat_counter (stat s) \<and> meta_keys s' = meta_keys s \<and>
  meta_key_count s' = meta_key_count s \<and> song_type s' = song_type s"
  by (auto simp: save_song_cases save_stat_data_def same_stats_def without_counter_def split: if_splits)

text \<open>What the manager relies on: sums that match, counters that are not negative, sound meta data.\<close>

definition library_ok :: "config \<Rightarrow> database_info \<Rightarrow> bool" where
  "library_ok cfg db \<longleftrightarrow> pickable (db_manual_rating_bias cfg) db \<and> (\<forall>s \<in> set (songs db). song_sound s)"

text \<open>Songs replaced by ones with the same ratings and counters.\<close>

definition same_for_picking :: "song_info \<Rightarrow> song_info \<Rightarrow> bool" where
  "same_for_picking s s' \<longleftrightarrow> play_count (stat s') = play_count (stat s) \<and> skip_count (stat s') = skip_count (stat s) \<and>
     manual_rating (stat s') = manual_rating (stat s) \<and> repeat_counter (stat s') = repeat_counter (stat s)"

lemma same_for_picking_rating:
  "same_for_picking s s' \<Longrightarrow> get_rating bias (stat s') = get_rating bias (stat s)"
  by (simp add: same_for_picking_def get_rating_auto auto_rating_def)

lemma library_ok_same:
  assumes "library_ok cfg db" and "list_all2 same_for_picking (songs db) ss"
    and "\<forall>s \<in> set ss. song_sound s"
  shows "library_ok cfg (db\<lparr>songs := ss\<rparr>)"
proof -
  let ?bias = "db_manual_rating_bias cfg"
  have m: "map (\<lambda>s. get_rating ?bias (stat s)) ss = map (\<lambda>s. get_rating ?bias (stat s)) (songs db)"
    "map (\<lambda>s. play_count (stat s)) ss = map (\<lambda>s. play_count (stat s)) (songs db)"
    "map (\<lambda>s. skip_count (stat s)) ss = map (\<lambda>s. skip_count (stat s)) (songs db)"
    "map (\<lambda>s. repeat_counter (stat s)) ss = map (\<lambda>s. repeat_counter (stat s)) (songs db)"
    using assms(2) by (induction rule: list_all2_induct)
      (simp_all add: same_for_picking_rating, simp_all add: same_for_picking_def)
  have sq: "map (\<lambda>s. (f s)\<^sup>2) xs = map power2 (map f xs)" for f :: "song_info \<Rightarrow> 'a::power" and xs by simp
  have sums: "sums_ok ?bias (db\<lparr>songs := ss\<rparr>)"
    using assms(1) unfolding library_ok_def pickable_def sums_ok_def sq by (simp add: m)
  have len: "length ss = length (songs db)" using assms(2) by (simp add: list_all2_lengthD)
  have "\<forall>s \<in> set ss. 0 \<le> repeat_counter (stat s)"
  proof
    fix s assume "s \<in> set ss"
    then have "repeat_counter (stat s) \<in> set (map (\<lambda>s. repeat_counter (stat s)) ss)" by simp
    then have "repeat_counter (stat s) \<in> set (map (\<lambda>s. repeat_counter (stat s)) (songs db))" by (simp only: m)
    then show "0 \<le> repeat_counter (stat s)" using assms(1) by (auto simp: library_ok_def pickable_def)
  qed
  moreover have "ss \<noteq> []" using len assms(1) unfolding library_ok_def pickable_def by (metis length_0_conv)
  ultimately show ?thesis
    using assms(1,3) sums len by (simp add: library_ok_def pickable_def)
qed

lemma save_all_library:
  assumes "save_all_songs cfg db fs = Inr (db', fs')" and "library_ok cfg db"
  shows "library_ok cfg db' \<and> length (songs db') = length (songs db) \<and>
    (\<forall>i < length (songs db). song_meta_ok (songs db' ! i) = song_meta_ok (songs db ! i) \<and>
       song_type (songs db' ! i) = song_type (songs db ! i) \<and> same_for_picking (songs db ! i) (songs db' ! i))"
proof -
  obtain ss where ss: "for_songs (save_song cfg (stats_loaded db)) (songs db) fs = Inr (ss, fs')"
    and db': "db' = db\<lparr>songs := ss\<rparr>" using assms(1) by (auto simp: save_all_songs_def)
  define P where "P s s' \<longleftrightarrow> same_for_picking s s' \<and> song_sound s' = song_sound s \<and>
     song_meta_ok s' = song_meta_ok s \<and> song_type s' = song_type s" for s s'
  have "P s s'" if "save_song cfg (stats_loaded db) s fs1 = Inr (s', fs1')" for s fs1 s' fs1'
    using save_song_same [OF that] save_song_stat [OF that]
    by (simp add: P_def same_for_picking_def song_sound_def song_meta_ok_def)
  then have all: "list_all2 P (songs db) ss" using for_songs_all2 [OF ss, of P] by blast
  then have "list_all2 same_for_picking (songs db) ss" by (rule list_all2_mono) (simp add: P_def)
  moreover have "song_sound (songs db ! i)" if "i < length (songs db)" for i
    using assms(2) that by (simp add: library_ok_def)
  then have "\<forall>s \<in> set ss. song_sound s"
    using all by (auto simp: list_all2_conv_all_nth P_def in_set_conv_nth)
  ultimately have "library_ok cfg db'" unfolding db' by (intro library_ok_same assms(2))
  then show ?thesis using all by (auto simp: db' list_all2_conv_all_nth P_def)
qed

lemma queue_song_library:
  assumes "playlist_queue_song b cfg tags dur (Some c) start w = Inr w'" and "library_ok cfg (w_db w)"
    and "queues_hold (w_queues w) xs ys"
  shows "library_ok cfg (w_db w') \<and> queues_hold (w_queues w') (xs @ [(Some c, Some start)]) ys \<and>
    q_wanted_size (song_queue (w_queues w')) = q_wanted_size (song_queue (w_queues w)) \<and>
    c < length (songs (w_db w)) \<and> length (songs (w_db w')) = length (songs (w_db w)) \<and>
    song_meta_ok (songs (w_db w') ! c) \<and> song_type (songs (w_db w') ! c) \<noteq> None \<and>
    stat (songs (w_db w') ! c) = stat (songs (w_db w) ! c)"
proof -
  obtain s' fs' q where c: "c < length (songs (w_db w))"
    and e: "ensure_song_fully_loaded b cfg tags dur (songs (w_db w) ! c) (w_fs w) = Inr (s', fs')"
    and q: "enqueue_song (Some c) start (w_queues w) = Inr q"
    and w': "w' = w\<lparr>w_db := (w_db w)\<lparr>songs := (songs (w_db w))[c := s']\<rparr>, w_fs := fs', w_queues := q\<rparr>"
    using assms(1) by (auto simp: playlist_queue_song_def read_at_Inr)
  have sound: "song_sound (songs (w_db w) ! c)" using assms(2) c by (simp add: library_ok_def)
  note l = ensure_steps [OF e sound]
  have "list_all2 same_for_picking (songs (w_db w)) ((songs (w_db w))[c := s'])"
    using c l by (auto simp: list_all2_conv_all_nth nth_list_update same_for_picking_def)
  moreover have "\<forall>s \<in> set ((songs (w_db w))[c := s']). song_sound s"
    using assms(2) l by (auto simp: library_ok_def dest!: set_list_update)
  ultimately have "library_ok cfg (w_db w')" unfolding w' using library_ok_same [OF assms(2)] by simp
  moreover have "queues_hold q (xs @ [(Some c, Some start)]) ys \<and>
      q_wanted_size (song_queue q) = q_wanted_size (song_queue (w_queues w))"
    using enqueue_hold [OF assms(3), of "Some c" start] q by auto
  moreover have "song_meta_ok s'" using l by (auto simp: song_sound_def)
  ultimately show ?thesis using c l by (simp add: w')
qed

text \<open>C8. A turn of the playlist manager that does something adds exactly one song to the end
  of the playlist: a song of the database, with its type and meta data loaded and
  its repeat counter at 10, to start at 0.  The playlist does not grow past its
  wanted size, the past list is untouched, and the sums still match the songs.\<close>

theorem playlist_turn_adds_song:
  assumes "playlist_manager_turn b cfg tags dur rands w = Inr (Some w')"
    and "library_ok cfg (w_db w)" and "queues_hold (w_queues w) xs ys" and "\<forall>r \<in> set rands. r \<le> RAND_MAX"
  shows "\<exists>c < length (songs (w_db w)).
     queues_hold (w_queues w') (xs @ [(Some c, Some 0)]) ys \<and>
     int (length xs + 1) \<le> q_wanted_size (song_queue (w_queues w')) \<and>
     song_meta_ok (songs (w_db w') ! c) \<and> song_type (songs (w_db w') ! c) \<noteq> None \<and>
     repeat_counter (stat (songs (w_db w') ! c)) = 10 \<and> library_ok cfg (w_db w')"
proof -
  note size = queues_hold_size [OF assms(3)]
  obtain c db w1 where room: "q_size (song_queue (w_queues w)) < q_wanted_size (song_queue (w_queues w))"
    and pick: "pick_song cfg (w_db w) rands = Inr (Some (c, db))"
    and w1: "playlist_queue_song b cfg tags dur (Some c) 0 (w\<lparr>w_db := db\<rparr>) = Inr w1"
    and fin: "w' = w1 \<or> (\<exists>db' fs'. save_all_songs cfg (w_db w1) (w_fs w1) = Inr (db', fs') \<and>
       w' = w1\<lparr>w_db := db', w_fs := fs'\<rparr>)"
    using assms(1) by (auto simp: playlist_manager_turn_def Let_def split: if_splits option.splits)
  have p: "c < length (songs (w_db w))" "counters_only (w_db w) db"
    "repeat_counter (stat (songs db ! c)) = 10" "pickable (db_manual_rating_bias cfg) db"
    using pick_song_result [of cfg "w_db w" rands] assms(2,4) pick by (auto simp: library_ok_def)
  have "song_sound s' = song_sound s" if "same_stats s s'" for s s'
    using same_stats_fields [OF that] by (simp add: song_sound_def song_meta_ok_def)
  then have "\<forall>s \<in> set (songs db). song_sound s"
    using p(2) assms(2) by (fastforce simp: counters_only_def library_ok_def list_all2_conv_all_nth in_set_conv_nth)
  then have lib: "library_ok cfg db" using p(4) by (simp add: library_ok_def)
  note q = queue_song_library [OF w1, of xs ys, simplified, OF lib assms(3)]
  have len: "length (songs db) = length (songs (w_db w))" by (rule counters_only_length [OF p(2)])
  have size': "int (length xs + 1) \<le> q_wanted_size (song_queue (w_queues w1))"
    using room size q by simp
  from fin show ?thesis
  proof
    assume "w' = w1"
    then show ?thesis using q p len size' by (intro exI [of _ c]) auto
  next
    assume "\<exists>db' fs'. save_all_songs cfg (w_db w1) (w_fs w1) = Inr (db', fs') \<and> w' = w1\<lparr>w_db := db', w_fs := fs'\<rparr>"
    then obtain db' fs' where save: "save_all_songs cfg (w_db w1) (w_fs w1) = Inr (db', fs')"
      and w': "w' = w1\<lparr>w_db := db', w_fs := fs'\<rparr>" by blast
    from save_all_library [OF save] q have lib': "library_ok cfg db'"
      "\<forall>i < length (songs (w_db w1)). song_meta_ok (songs db' ! i) = song_meta_ok (songs (w_db w1) ! i) \<and>
       song_type (songs db' ! i) = song_type (songs (w_db w1) ! i) \<and>
       same_for_picking (songs (w_db w1) ! i) (songs db' ! i)" by auto
    then have "song_meta_ok (songs db' ! c)" "song_type (songs db' ! c) \<noteq> None"
      "repeat_counter (stat (songs db' ! c)) = 10"
      using q p(1,3) len by (auto simp: same_for_picking_def)
    then show ?thesis using q p(1) size' lib'(1) by (intro exI [of _ c]) (auto simp: w')
  qed
qed

definition ex_ready_song :: song_info where
  "ex_ready_song = ex_song\<lparr>song_type := Some TYPE_MP3, play_length := 7,
     stat := (stat ex_song)\<lparr>repeat_counter := 0\<rparr>\<rparr>"

definition ex_world :: world where
  "ex_world = \<lparr>w_db = start_song_picker ex_config (ex_db\<lparr>songs := [ex_ready_song]\<rparr>),
     w_fs = ex_fs, w_queues = empty_queues 2 2\<rparr>"

lemma ex_world_library: "library_ok ex_config (w_db ex_world)"
proof -
  have "song_sound ex_ready_song" using ex_song_meta_ok by (simp add: ex_ready_song_def song_sound_def song_meta_ok_def)
  then show ?thesis
    by (simp add: library_ok_def pickable_def ex_world_def start_song_picker_facts ex_ready_song_def)
qed

lemma one_song_pick:
  assumes "pickable (db_manual_rating_bias cfg) db" and "songs db = [s]" and "repeat_counter (stat s) = 0"
  shows "\<exists>db'. pick_song cfg db [0] = Inr (Some (0, db')) \<and> songs db' = [s\<lparr>stat := (stat s)\<lparr>stat_changed := True, repeat_counter := 10\<rparr>\<rparr>] \<and>
    stats_loaded db' = stats_loaded db"
proof -
  let ?bias = "db_manual_rating_bias cfg"
  have sums: "sums_ok ?bias db" using assms(1) by (simp add: pickable_def)
  then have "average db = get_rating ?bias (stat s)" "std_dev db = 0"
    using assms(2) by (simp_all add: sums_ok_def average_def std_dev_def song_count_def power2_eq_square)
  then have "normal_test (get_rating ?bias (stat s)) (average db) (std_dev db) [] = Inr (Some (True, []))"
    by (simp add: normal_test_def z_score_def)
  moreover have "candidate db 0 = 0" by (simp add: candidate_def)
  ultimately show ?thesis
    using assms(2,3)
    by (simp add: pick_song_def read_at_def accept_candidate_def set_stat_def Let_def)
qed

theorem playlist_turn_adds_song_witness:
  "\<exists>w'. playlist_manager_turn ex_build ex_config (\<lambda>_ _. []) (\<lambda>_ _. Some 7) [0] ex_world = Inr (Some w') \<and>
     queues_hold (w_queues w') [(Some 0, Some 0)] []"
proof -
  have songs: "songs (w_db ex_world) = [ex_ready_song]" "stats_loaded (w_db ex_world)"
    by (simp_all add: ex_world_def start_song_picker_facts)
  obtain db' where pick: "pick_song ex_config (w_db ex_world) [0] = Inr (Some (0, db'))"
    and db': "songs db' = [ex_ready_song\<lparr>stat := (stat ex_ready_song)\<lparr>stat_changed := True, repeat_counter := 10\<rparr>\<rparr>]"
    using one_song_pick [OF _ songs(1), of ex_config] ex_world_library
    by (auto simp: library_ok_def ex_ready_song_def)
  have "fully_loaded (hd (songs db'))"
    by (simp add: db' fully_loaded_def ex_ready_song_def ex_song_def)
  then have ready: "ensure_song_fully_loaded ex_build ex_config (\<lambda>_ _. []) (\<lambda>_ _. Some 7) (songs db' ! 0) fs = Inr (songs db' ! 0, fs)" for fs
    using fully_loaded_again [of "hd (songs db')"] by (simp add: db')
  have "\<exists>w1. playlist_queue_song ex_build ex_config (\<lambda>_ _. []) (\<lambda>_ _. Some 7) (Some 0) 0 (ex_world\<lparr>w_db := db'\<rparr>) = Inr w1 \<and>
      q_size (song_queue (w_queues w1)) = 1 \<and> q_wanted_size (song_queue (w_queues w1)) = 2"
    using ready db'
    by (simp add: playlist_queue_song_def read_at_def ex_world_def empty_queues_def empty_queue_def
        enqueue_song_def malloc_entry_def)
  then obtain w1 where w1: "playlist_queue_song ex_build ex_config (\<lambda>_ _. []) (\<lambda>_ _. Some 7) (Some 0) 0 (ex_world\<lparr>w_db := db'\<rparr>) = Inr w1"
    "q_size (song_queue (w_queues w1)) = 1" "q_wanted_size (song_queue (w_queues w1)) = 2" by blast
  have "song_queue (w_queues ex_world) = empty_queue 2" by (simp add: ex_world_def empty_queues_def)
  then have "playlist_manager_turn ex_build ex_config (\<lambda>_ _. []) (\<lambda>_ _. Some 7) [0] ex_world = Inr (Some w1)"
    using pick w1 songs by (simp add: playlist_manager_turn_def Let_def song_count_def empty_queue_def)
  then have "\<exists>w'. playlist_manager_turn ex_build ex_config (\<lambda>_ _. []) (\<lambda>_ _. Some 7) [0] ex_world = Inr (Some w')"
    by blast
  then obtain w' where w': "playlist_manager_turn ex_build ex_config (\<lambda>_ _. []) (\<lambda>_ _. Some 7) [0] ex_world = Inr (Some w')" ..
  have q: "queues_hold (w_queues ex_world) [] []" using empty_queues_hold by (simp add: ex_world_def)
  from playlist_turn_adds_song [OF w' ex_world_library q] songs(1) w' show ?thesis by auto
qed

end
