(* ===== verification/State_File.thy ===== *)
theory State_File
  imports Playlist
begin

text \<open>
  The saved state of the player: \<open>save_state()\<close> in \<open>src/src/global.c\<close>, which the
  thread \<open>state_saver()\<close> calls every two minutes, and \<open>load_state_callback()\<close> and
  \<open>load_state()\<close> in \<open>src/src/global_squash.c\<close>.

  \<open>raw_songs\<close> is the array as allocated: its length is the number of slots, and a
  slot whose file name has not been written holds \<open>None\<close> (reading that name is a
  fault); \<open>Some None\<close> is a null pointer.
\<close>

section \<open>Definitions\<close>

record raw_song =
  rs_filename :: "string option option"
  rs_position :: int

record state_info =
  raw_songs :: "raw_song list"
  raw_song_count :: int
  raw_song_alloc :: int
  current_song :: int
  window_states :: "int list"
  cur_window_number :: int
  si_volume :: int
  si_brightness :: int

definition WIN_COUNT :: nat where
  "WIN_COUNT = 6"

definition WIN_STATE_NORMAL :: int where
  "WIN_STATE_NORMAL = 0"

definition unwritten :: raw_song where
  "unwritten = \<lparr>rs_filename = None, rs_position = 0\<rparr>"

definition grow_raw_songs :: "state_info \<Rightarrow> state_info" where
  "grow_raw_songs s =
     (let alloc = ensure_alloc (raw_song_count s) (raw_song_alloc s) 10 in
      s\<lparr>raw_song_alloc := alloc,
        raw_songs := take (nat alloc) (raw_songs s) @ replicate (nat alloc - length (raw_songs s)) unwritten\<rparr>)"

definition number_of :: "(string \<Rightarrow> int) \<Rightarrow> string option \<Rightarrow> (int \<Rightarrow> 'a result) \<Rightarrow> 'a result" where
  "number_of conv value f = (case value of None \<Rightarrow> Inl Null_Deref | Some v \<Rightarrow> f (conv v))"

definition load_state_callback :: "build \<Rightarrow> state_info add_data" where
  "load_state_callback b header key value s =
     (let s = grow_raw_songs s in
      case key of
        None \<Rightarrow> Inl Null_Deref
      | Some k \<Rightarrow>
        if strncasecmp0 ''entry_filename'' k 16 then
          map_result (\<lambda>rs. s\<lparr>raw_songs := rs\<rparr>)
            (write_at (raw_songs s) (raw_song_count s) \<lparr>rs_filename = Some value, rs_position = 0\<rparr>)
        else if strncasecmp0 ''entry_position'' k 16 then
          number_of atol value (\<lambda>n.
          and_then (read_at (raw_songs s) (raw_song_count s)) (\<lambda>r.
          map_result (\<lambda>rs. s\<lparr>raw_songs := rs, raw_song_count := raw_song_count s + 1\<rparr>)
            (write_at (raw_songs s) (raw_song_count s) (r\<lparr>rs_position := n\<rparr>))))
        else if strncasecmp0 ''current_entry'' k 15 then
          number_of atol value (\<lambda>n. Inr (s\<lparr>current_song := n\<rparr>))
        else if EMPEG_DSP b \<and> strncasecmp0 ''volume'' k 7 then
          number_of atoi value (\<lambda>n. Inr (s\<lparr>si_volume := n\<rparr>))
        else if EMPEG b \<and> strncasecmp0 ''brightness'' k 11 then
          number_of atoi value (\<lambda>n. Inr (s\<lparr>si_brightness := n\<rparr>))
        else if \<not> NO_NCURSES b \<and> strncasecmp0 ''window_number'' k 14 then
          number_of atoi value (\<lambda>n. Inr (s\<lparr>cur_window_number := n\<rparr>))
        else if \<not> NO_NCURSES b \<and> strncasecmp0 ''window_state'' k 13 then
          number_of atoi value (\<lambda>n.
          map_result (\<lambda>ws. s\<lparr>window_states := ws\<rparr>)
            (write_at (window_states s) (cur_window_number s) n))
        else Inr s)"

text \<open>The first part of \<open>load_state()\<close>: the initial values and the parse.\<close>

definition init_state_info :: state_info where
  "init_state_info =
     \<lparr>raw_songs = [], raw_song_count = 0, raw_song_alloc = 0, current_song = 0,
      window_states = replicate WIN_COUNT WIN_STATE_NORMAL, cur_window_number = 0,
      si_volume = 50, si_brightness = 100\<rparr>"

definition read_state :: "build \<Rightarrow> config \<Rightarrow> filesys \<Rightarrow> state_info result" where
  "read_state b cfg fs =
     map_result snd
       (parse_file (case global_state_path cfg of None \<Rightarrow> None | Some p \<Rightarrow> files fs p)
          (load_state_callback b) init_state_info)"

text \<open>One turn of the loop that queues the songs; the locks are free between turns.\<close>

definition load_state_turn ::
  "build \<Rightarrow> config \<Rightarrow> tags \<Rightarrow> durations \<Rightarrow> state_info \<times> world \<Rightarrow> (state_info \<times> world) result" where
  "load_state_turn b cfg tags dur siw =
     (case siw of (si, w) \<Rightarrow>
       and_then (read_at (raw_songs si) (current_song si)) (\<lambda>raw.
       case rs_filename raw of
         None \<Rightarrow> Inl Use_After_Free
       | Some name \<Rightarrow>
         and_then (find_song_by_filename (w_db w) name) (\<lambda>song.
         map_result (\<lambda>w. (si\<lparr>current_song := current_song si + 1\<rparr>, w))
           (case song of
              None \<Rightarrow> Inr w
            | Some i \<Rightarrow> playlist_queue_song b cfg tags dur (Some i) (rs_position raw) w))))"

text \<open>The whole loop; the first argument bounds its turns.\<close>

fun load_state_loop ::
  "nat \<Rightarrow> build \<Rightarrow> config \<Rightarrow> tags \<Rightarrow> durations \<Rightarrow> state_info \<times> world \<Rightarrow> (state_info \<times> world) option result" where
  "load_state_loop 0 b cfg tags dur siw =
     (if current_song (fst siw) < raw_song_count (fst siw) then Inr None else Inr (Some siw))"
| "load_state_loop (Suc n) b cfg tags dur siw =
     (if current_song (fst siw) < raw_song_count (fst siw)
      then and_then (load_state_turn b cfg tags dur siw) (load_state_loop n b cfg tags dur)
      else Inr (Some siw))"

definition load_state ::
  "build \<Rightarrow> config \<Rightarrow> tags \<Rightarrow> durations \<Rightarrow> world \<Rightarrow> (state_info \<times> world) option result" where
  "load_state b cfg tags dur w =
     and_then (read_state b cfg (w_fs w)) (\<lambda>si.
     map_result (map_option (\<lambda>(si, w).
         (si\<lparr>raw_songs := [], current_song := 0, raw_song_count := 0, raw_song_alloc := 0\<rparr>, w)))
       (load_state_loop (nat (raw_song_count si - current_song si)) b cfg tags dur (si, w)))"

text \<open>What \<open>save_state()\<close> reads of the player and the display.\<close>

record status =
  st_song :: "nat option"
  st_position :: int
  st_volume :: "int option"
  st_brightness :: int
  st_windows :: "int list"

definition song_name :: "database_info \<Rightarrow> nat option \<Rightarrow> string result" where
  "song_name db song =
     (case song of
        None \<Rightarrow> Inl Null_Deref
      | Some i \<Rightarrow>
        map_result (\<lambda>s. basename s BASENAME_SONG @ ''/'' @ filename s) (read_at (songs db) (int i)))"

definition entry_text :: "string \<Rightarrow> int \<Rightarrow> string" where
  "entry_text name pos =
     ''entry_filename='' @ name @ [LF] @ ''entry_position='' @ show_int pos @ [LF]"

text \<open>The walk over the playlist; the first argument bounds its turns.\<close>

fun queue_text :: "nat \<Rightarrow> database_info \<Rightarrow> heap \<Rightarrow> nat option \<Rightarrow> string result" where
  "queue_text fuel db h None = Inr []"
| "queue_text 0 db h (Some a) = Inl Use_After_Free"
| "queue_text (Suc fuel) db h (Some a) =
     and_then (load_entry h (Some a)) (\<lambda>e.
     and_then (song_name db (entry_song e)) (\<lambda>name.
     case entry_start e of
       None \<Rightarrow> Inl Use_After_Free
     | Some pos \<Rightarrow> map_result (\<lambda>rest. entry_text name pos @ rest) (queue_text fuel db h (entry_next e))))"

text \<open>The songs a \<open>load_state()\<close> still has to queue.\<close>

definition raw_text :: "raw_song \<Rightarrow> string result" where
  "raw_text r =
     (case rs_filename r of
        None \<Rightarrow> Inl Use_After_Free
      | Some name \<Rightarrow> Inr (entry_text (show_value name) (rs_position r)))"

definition pending_text :: "state_info \<Rightarrow> string result" where
  "pending_text si =
     fold_result (\<lambda>r acc. map_result (\<lambda>t. acc @ t) (raw_text r))
       (take (nat (raw_song_count si - current_song si)) (drop (nat (current_song si)) (raw_songs si))) []"

definition save_state ::
  "build \<Rightarrow> config \<Rightarrow> string \<Rightarrow> status \<Rightarrow> world \<Rightarrow> state_info \<Rightarrow> (state_info \<times> filesys) result" where
  "save_state b cfg ctime st w si =
     (if db_readonly cfg \<noteq> 0 then Inr (si, w_fs w)
      else (case global_state_path cfg of
        None \<Rightarrow> Inl Null_Deref
      | Some path \<Rightarrow>
        and_then (if st_song st = None then Inr []
                  else map_result (\<lambda>name. entry_text name (st_position st)) (song_name (w_db w) (st_song st)))
          (\<lambda>playing.
        and_then (queue_text (next_address (q_heap (w_queues w))) (w_db w) (q_heap (w_queues w))
                    (q_head (song_queue (w_queues w)))) (\<lambda>queued.
        and_then (pending_text si) (\<lambda>pending.
        let volume = (case st_volume st of
                        None \<Rightarrow> []
                      | Some v \<Rightarrow>
                        ''volume='' @ show_int (if v > max_save_volume cfg then max_save_volume cfg
                          else if v < min_save_volume cfg then min_save_volume cfg else v) @ [LF]) in
        map_result (\<lambda>fs. (si\<lparr>current_song := max (current_song si) (raw_song_count si)\<rparr>, fs))
          (write_file path
            (''# Saved Squash state'' @ [LF] @ ''# Auto-Generated on '' @ ctime @ [LF] @
             ''current_entry=0'' @ [LF] @ playing @ queued @ pending @
             (if EMPEG_DSP b then volume else []) @
             (if EMPEG b then ''brightness='' @ show_int (st_brightness st) @ [LF] else []) @
             (if NO_NCURSES b then []
              else concat (map (\<lambda>(i, ws). ''window_number='' @ show_int (int i) @ [LF] @
                                         ''window_state='' @ show_int ws @ [LF])
                     (enumerate 0 (take WIN_COUNT (st_windows st))))))
            (w_fs w)))))))"

section \<open>Reading back what was saved\<close>

definition raws_are :: "state_info \<Rightarrow> (string \<times> int) list \<Rightarrow> bool" where
  "raws_are s rs \<longleftrightarrow> raw_song_count s = int (length rs) \<and> raw_song_count s \<le> raw_song_alloc s \<and>
     length (raw_songs s) = nat (raw_song_alloc s) \<and>
     take (length rs) (raw_songs s) = map (\<lambda>(n, p). \<lparr>rs_filename = Some (Some n), rs_position = p\<rparr>) rs"

lemma init_raws: "raws_are init_state_info []"
  by (simp add: raws_are_def init_state_info_def)

lemma grow_raws:
  assumes "raws_are s rs"
  shows "raws_are (grow_raw_songs s) rs \<and> length rs < length (raw_songs (grow_raw_songs s))"
proof -
  have n: "raw_song_count s = int (length rs)" "length (raw_songs s) = nat (raw_song_alloc s)"
    "int (length rs) \<le> raw_song_alloc s" using assms by (simp_all add: raws_are_def)
  let ?a = "ensure_alloc (raw_song_count s) (raw_song_alloc s) 10"
  have lt: "int (length rs) < ?a" using ensure_alloc_room [of "raw_song_count s" "raw_song_alloc s" 10] n by simp
  have ge: "nat (raw_song_alloc s) \<le> nat ?a" using n by (auto simp: ensure_alloc_def)
  have "take (length rs) (raw_songs (grow_raw_songs s)) = take (length rs) (raw_songs s)"
    using n ge by (simp add: grow_raw_songs_def Let_def)
  then show ?thesis
    using assms lt ge n by (simp add: raws_are_def grow_raw_songs_def Let_def)
qed

lemma grow_fields [simp]:
  "window_states (grow_raw_songs s) = window_states s" "cur_window_number (grow_raw_songs s) = cur_window_number s"
  "si_volume (grow_raw_songs s) = si_volume s" "si_brightness (grow_raw_songs s) = si_brightness s"
  "current_song (grow_raw_songs s) = current_song s" "raw_song_count (grow_raw_songs s) = raw_song_count s"
  by (simp_all add: grow_raw_songs_def Let_def)

text \<open>The fields other than the array of songs.\<close>

definition settings :: "state_info \<Rightarrow> int list \<times> int \<times> int \<times> int" where
  "settings s = (window_states s, si_volume s, si_brightness s, current_song s)"

lemma state_key_tests [simp]:
  "strncasecmp0 ''entry_filename'' ''entry_filename'' 16"
  "\<not> strncasecmp0 ''entry_filename'' ''entry_position'' 16"
  "\<not> strncasecmp0 ''entry_filename'' ''current_entry'' 16" "\<not> strncasecmp0 ''entry_filename'' ''volume'' 16"
  "\<not> strncasecmp0 ''entry_filename'' ''brightness'' 16" "\<not> strncasecmp0 ''entry_filename'' ''window_number'' 16"
  "\<not> strncasecmp0 ''entry_filename'' ''window_state'' 16"
  "strncasecmp0 ''entry_position'' ''entry_position'' 16"
  "\<not> strncasecmp0 ''entry_position'' ''current_entry'' 16" "\<not> strncasecmp0 ''entry_position'' ''volume'' 16"
  "\<not> strncasecmp0 ''entry_position'' ''brightness'' 16" "\<not> strncasecmp0 ''entry_position'' ''window_number'' 16"
  "\<not> strncasecmp0 ''entry_position'' ''window_state'' 16"
  "strncasecmp0 ''current_entry'' ''current_entry'' 15"
  "\<not> strncasecmp0 ''current_entry'' ''volume'' 15" "\<not> strncasecmp0 ''current_entry'' ''brightness'' 15"
  "\<not> strncasecmp0 ''current_entry'' ''window_number'' 15" "\<not> strncasecmp0 ''current_entry'' ''window_state'' 15"
  "strncasecmp0 ''volume'' ''volume'' 7" "\<not> strncasecmp0 ''volume'' ''brightness'' 7"
  "\<not> strncasecmp0 ''volume'' ''window_number'' 7" "\<not> strncasecmp0 ''volume'' ''window_state'' 7"
  "strncasecmp0 ''brightness'' ''brightness'' 11" "\<not> strncasecmp0 ''brightness'' ''window_number'' 11"
  "\<not> strncasecmp0 ''brightness'' ''window_state'' 11"
  "strncasecmp0 ''window_number'' ''window_number'' 14" "\<not> strncasecmp0 ''window_number'' ''window_state'' 14"
  "strncasecmp0 ''window_state'' ''window_state'' 13"
  by (simp_all add: strncasecmp0_exact strcasecmp0_def to_lower_def)

definition int64 :: "int \<Rightarrow> bool" where
  "int64 i \<longleftrightarrow> - (2 ^ 63) \<le> i \<and> i < 2 ^ 63"

lemma atol_show [simp]: "int64 i \<Longrightarrow> atol (show_int i) = i"
  by (simp add: int64_def atol_show_int)

lemma raws_settings_upd:
  "raws_are (s\<lparr>window_states := ws\<rparr>) rs = raws_are s rs" "raws_are (s\<lparr>si_volume := v\<rparr>) rs = raws_are s rs"
  "raws_are (s\<lparr>si_brightness := v\<rparr>) rs = raws_are s rs" "raws_are (s\<lparr>current_song := v\<rparr>) rs = raws_are s rs"
  "raws_are (s\<lparr>cur_window_number := v\<rparr>) rs = raws_are s rs"
  by (simp_all add: raws_are_def)

lemma take_Suc_update:
  "n < length xs \<Longrightarrow> take (Suc n) (xs[n := x]) = take n xs @ [x]"
  by (simp add: take_Suc_conv_app_nth)

lemma entry_filename_step:
  assumes "raws_are s rs"
  shows "\<exists>s'. load_state_callback b h (Some ''entry_filename'') (Some n) s = Inr s' \<and>
    raws_are s' rs \<and> raw_songs s' ! length rs = \<lparr>rs_filename = Some (Some n), rs_position = 0\<rparr> \<and>
    length rs < length (raw_songs s') \<and> settings s' = settings s"
  using grow_raws [OF assms] assms
  by (auto simp: load_state_callback_def Let_def raws_are_def settings_def)

lemma entry_position_step:
  assumes "raws_are s rs" and "raw_songs s ! length rs = \<lparr>rs_filename = Some (Some n), rs_position = 0\<rparr>"
    and "length rs < length (raw_songs s)" and "int64 p"
  shows "\<exists>s'. load_state_callback b h (Some ''entry_position'') (Some (show_int p)) s = Inr s' \<and>
    raws_are s' (rs @ [(n, p)]) \<and> settings s' = settings s"
proof -
  let ?g = "grow_raw_songs s"
  have g: "raws_are ?g rs" "length rs < length (raw_songs ?g)" using grow_raws [OF assms(1)] by auto
  have len: "length (raw_songs s) \<le> nat (ensure_alloc (raw_song_count s) (raw_song_alloc s) 10)"
    using assms(1) by (auto simp: raws_are_def ensure_alloc_def)
  have same: "raw_songs ?g ! length rs = raw_songs s ! length rs"
    using assms(3) len by (simp add: grow_raw_songs_def Let_def nth_append)
  have count: "raw_song_count s = int (length rs)" using assms(1) by (simp add: raws_are_def)
  then have "load_state_callback b h (Some ''entry_position'') (Some (show_int p)) s =
      Inr (?g\<lparr>raw_songs := (raw_songs ?g)[length rs := \<lparr>rs_filename = Some (Some n), rs_position = p\<rparr>],
              raw_song_count := raw_song_count s + 1\<rparr>)"
    using g(2) assms(2,4) same
    by (simp add: load_state_callback_def Let_def number_of_def)
  moreover have "raws_are (?g\<lparr>raw_songs := (raw_songs ?g)[length rs := \<lparr>rs_filename = Some (Some n), rs_position = p\<rparr>],
              raw_song_count := raw_song_count s + 1\<rparr>) (rs @ [(n, p)])"
    using g count by (auto simp: raws_are_def take_Suc_update)
  ultimately show ?thesis by (auto simp: settings_def)
qed

text \<open>The lines of one saved song, then of all.\<close>

definition entry_lines :: "string \<times> int \<Rightarrow> line list" where
  "entry_lines np = [Pair ''entry_filename'' (fst np), Pair ''entry_position'' (show_int (snd np))]"

lemma run_entry_lines:
  assumes "raws_are s rs" and "int64 (snd np)"
  shows "\<exists>s'. run_lines (load_state_callback b) h (entry_lines np) s = Inr (h, s') \<and> raws_are s' (rs @ [np]) \<and>
    settings s' = settings s"
proof -
  obtain s1 where 1: "load_state_callback b h (Some ''entry_filename'') (Some (fst np)) s = Inr s1"
    "raws_are s1 rs" "raw_songs s1 ! length rs = \<lparr>rs_filename = Some (Some (fst np)), rs_position = 0\<rparr>"
    "length rs < length (raw_songs s1)" "settings s1 = settings s"
    using entry_filename_step [OF assms(1)] by blast
  from entry_position_step [OF 1(2-4) assms(2)] 1(1,5) show ?thesis by (auto simp: entry_lines_def)
qed

lemma run_lines_append:
  "run_lines add h (xs @ ys) d = and_then (run_lines add h xs d) (\<lambda>(h', d'). run_lines add h' ys d')"
proof (induction xs arbitrary: h d)
  case Nil
  then show ?case by simp
next
  case (Cons l ls)
  then show ?case
    using run_lines_Cons [of add h l "ls @ ys" d] run_lines_Cons [of add h l ls d]
    by (cases "run_lines add h [l] d") auto
qed

lemma run_all_entries:
  assumes "raws_are s rs" and "\<forall>np \<in> set nps. int64 (snd np)"
  shows "\<exists>s'. run_lines (load_state_callback b) h (concat (map entry_lines nps)) s = Inr (h, s') \<and>
    raws_are s' (rs @ nps) \<and> settings s' = settings s"
  using assms
proof (induction nps arbitrary: s rs)
  case Nil
  then show ?case by simp
next
  case (Cons np nps)
  obtain s1 where 1: "run_lines (load_state_callback b) h (entry_lines np) s = Inr (h, s1)"
    "raws_are s1 (rs @ [np])" "settings s1 = settings s"
    using run_entry_lines [OF Cons.prems(1), of np b h] Cons.prems(2) by auto
  have "\<forall>np \<in> set nps. int64 (snd np)" using Cons.prems(2) by simp
  from Cons.IH [OF 1(2) this] obtain s2 where
    "run_lines (load_state_callback b) h (concat (map entry_lines nps)) s1 = Inr (h, s2)"
    "raws_are s2 ((rs @ [np]) @ nps)" "settings s2 = settings s1" by blast
  with 1 show ?case by (intro exI [of _ s2]) (simp add: run_lines_append)
qed

text \<open>The lines with the settings.\<close>

lemma show_zero: "show_int 0 = ''0''"
  by code_simp

lemma run_current_entry:
  assumes "raws_are s rs"
  shows "\<exists>s'. run_lines (load_state_callback b) h [Pair ''current_entry'' ''0''] s = Inr (h, s') \<and> raws_are s' rs \<and>
    settings s' = (window_states s, si_volume s, si_brightness s, 0)"
proof -
  have "atol ''0'' = 0" using atol_show [of 0] by (simp add: show_zero int64_def)
  then show ?thesis
    using grow_raws [OF assms]
    by (simp add: load_state_callback_def Let_def number_of_def raws_settings_upd settings_def)
qed

definition volume_lines :: "build \<Rightarrow> int option \<Rightarrow> line list" where
  "volume_lines b v = (case v of
     Some v \<Rightarrow> if EMPEG_DSP b then [Pair ''volume'' (show_int v)] else [] | None \<Rightarrow> [])"

lemma run_volume:
  assumes "raws_are s rs" and "\<And>v. vo = Some v \<Longrightarrow> int32 v"
  shows "\<exists>s'. run_lines (load_state_callback b) h (volume_lines b vo) s = Inr (h, s') \<and> raws_are s' rs \<and>
    settings s' = (window_states s, if EMPEG_DSP b \<and> vo \<noteq> None then the vo else si_volume s,
      si_brightness s, current_song s)"
  using grow_raws [OF assms(1)] assms
  by (cases vo)
    (simp_all add: volume_lines_def load_state_callback_def Let_def number_of_def raws_settings_upd settings_def)

definition brightness_lines :: "build \<Rightarrow> int \<Rightarrow> line list" where
  "brightness_lines b v = (if EMPEG b then [Pair ''brightness'' (show_int v)] else [])"

lemma run_brightness:
  assumes "raws_are s rs" and "int32 v"
  shows "\<exists>s'. run_lines (load_state_callback b) h (brightness_lines b v) s = Inr (h, s') \<and> raws_are s' rs \<and>
    settings s' = (window_states s, si_volume s, if EMPEG b then v else si_brightness s, current_song s)"
  using grow_raws [OF assms(1)] assms
  by (simp add: brightness_lines_def load_state_callback_def Let_def number_of_def raws_settings_upd settings_def)

definition window_lines :: "nat \<times> int \<Rightarrow> line list" where
  "window_lines iw = [Pair ''window_number'' (show_int (int (fst iw))), Pair ''window_state'' (show_int (snd iw))]"

lemma run_window:
  assumes "raws_are s rs" and "\<not> NO_NCURSES b" and "k < length (window_states s)" and "length (window_states s) = WIN_COUNT"
    and "int32 v"
  shows "\<exists>s'. run_lines (load_state_callback b) h (window_lines (k, v)) s = Inr (h, s') \<and> raws_are s' rs \<and>
    settings s' = ((window_states s)[k := v], si_volume s, si_brightness s, current_song s)"
proof -
  define s1 where "s1 = (grow_raw_songs s)\<lparr>cur_window_number := int k\<rparr>"
  have "int32 (int k)" using assms(3,4) by (simp add: int32_def WIN_COUNT_def)
  then have 1: "load_state_callback b h (Some ''window_number'') (Some (show_int (int k))) s = Inr s1"
    using assms(2) by (simp add: load_state_callback_def Let_def number_of_def s1_def)
  have r1: "raws_are s1 rs" using grow_raws [OF assms(1)] by (simp add: s1_def raws_settings_upd)
  define s2 where "s2 = (grow_raw_songs s1)\<lparr>window_states := (window_states s)[k := v]\<rparr>"
  have "load_state_callback b h (Some ''window_state'') (Some (show_int v)) s1 = Inr s2"
    using assms(2,3,5) by (simp add: load_state_callback_def Let_def number_of_def s2_def s1_def)
  moreover have "raws_are s2 rs" using grow_raws [OF r1] by (simp add: s2_def raws_settings_upd)
  ultimately show ?thesis using 1 by (auto simp: window_lines_def settings_def s2_def s1_def)
qed

lemma run_windows:
  assumes "raws_are s rs" and "\<not> NO_NCURSES b" and "length (window_states s) = WIN_COUNT"
    and "k + length vs \<le> WIN_COUNT" and "\<forall>v \<in> set vs. int32 v"
  shows "\<exists>s'. run_lines (load_state_callback b) h (concat (map window_lines (enumerate k vs))) s = Inr (h, s') \<and>
    raws_are s' rs \<and>
    settings s' = (take k (window_states s) @ vs @ drop (k + length vs) (window_states s),
      si_volume s, si_brightness s, current_song s)"
  using assms
proof (induction vs arbitrary: k s)
  case Nil
  then show ?case by (simp add: settings_def)
next
  case (Cons v vs)
  have k: "k < length (window_states s)" using Cons.prems(3,4) by simp
  obtain s1 where 1: "run_lines (load_state_callback b) h (window_lines (k, v)) s = Inr (h, s1)"
    "raws_are s1 rs" "settings s1 = ((window_states s)[k := v], si_volume s, si_brightness s, current_song s)"
    using run_window [OF Cons.prems(1,2) k Cons.prems(3), of v h] Cons.prems(5) by auto
  have len: "length (window_states s1) = WIN_COUNT" using 1(3) Cons.prems(3) by (simp add: settings_def)
  obtain s2 where 2: "run_lines (load_state_callback b) h (concat (map window_lines (enumerate (Suc k) vs))) s1 = Inr (h, s2)"
    "raws_are s2 rs" "settings s2 = (take (Suc k) (window_states s1) @ vs @ drop (Suc k + length vs) (window_states s1),
      si_volume s1, si_brightness s1, current_song s1)"
    using Cons.IH [OF 1(2) Cons.prems(2) len, of "Suc k"] Cons.prems(4,5) by auto
  have "take (Suc k) (window_states s1) = take k (window_states s) @ [v]"
    using 1(3) k by (simp add: settings_def take_Suc_update)
  moreover have "drop (Suc k + length vs) (window_states s1) = drop (k + length (v # vs)) (window_states s)"
    using 1(3) by (simp add: settings_def)
  ultimately show ?case using 1 2 by (intro exI [of _ s2]) (simp add: run_lines_append settings_def)
qed

text \<open>The whole file.\<close>

definition state_lines :: "build \<Rightarrow> string \<Rightarrow> (string \<times> int) list \<Rightarrow> int option \<Rightarrow> int \<Rightarrow> int list \<Rightarrow> line list" where
  "state_lines b t nps vo br ws =
     [Comment '' Saved Squash state'', Comment ('' Auto-Generated on '' @ t), Blank, Pair ''current_entry'' ''0''] @
     concat (map entry_lines nps) @ volume_lines b vo @ brightness_lines b br @
     (if NO_NCURSES b then [] else concat (map window_lines (enumerate 0 ws)))"

lemma run_state_lines:
  assumes "\<forall>np \<in> set nps. int64 (snd np)" and "\<And>v. vo = Some v \<Longrightarrow> int32 v" and "int32 br"
    and "\<forall>v \<in> set ws. int32 v" and "length ws = WIN_COUNT"
  shows "\<exists>si. run_lines (load_state_callback b) None (state_lines b t nps vo br ws) init_state_info = Inr (None, si) \<and>
    raws_are si nps \<and> current_song si = 0 \<and>
    window_states si = (if NO_NCURSES b then replicate WIN_COUNT WIN_STATE_NORMAL else ws) \<and>
    si_volume si = (if EMPEG_DSP b \<and> vo \<noteq> None then the vo else 50) \<and>
    si_brightness si = (if EMPEG b then br else 100)"
proof -
  let ?run = "run_lines (load_state_callback b) None"
  obtain s1 where 1: "?run [Pair ''current_entry'' ''0''] init_state_info = Inr (None, s1)" "raws_are s1 []"
    "settings s1 = (replicate WIN_COUNT WIN_STATE_NORMAL, 50, 100, 0)"
    using run_current_entry [OF init_raws, of b None] by (auto simp: init_state_info_def)
  obtain s2 where 2: "?run (concat (map entry_lines nps)) s1 = Inr (None, s2)" "raws_are s2 nps" "settings s2 = settings s1"
    using run_all_entries [OF 1(2) assms(1), of b None] by auto
  obtain s3 where 3: "?run (volume_lines b vo) s2 = Inr (None, s3)" "raws_are s3 nps"
    "settings s3 = (window_states s2, if EMPEG_DSP b \<and> vo \<noteq> None then the vo else si_volume s2,
      si_brightness s2, current_song s2)"
    using run_volume [OF 2(2), of vo b None] assms(2) by auto
  obtain s4 where 4: "?run (brightness_lines b br) s3 = Inr (None, s4)" "raws_are s4 nps"
    "settings s4 = (window_states s3, si_volume s3, if EMPEG b then br else si_brightness s3, current_song s3)"
    using run_brightness [OF 3(2) assms(3), of b None] by auto
  obtain s5 where 5: "?run (if NO_NCURSES b then [] else concat (map window_lines (enumerate 0 ws))) s4 = Inr (None, s5)"
    "raws_are s5 nps" "settings s5 = (if NO_NCURSES b then window_states s4 else ws,
      si_volume s4, si_brightness s4, current_song s4)"
  proof (cases "NO_NCURSES b")
    case True
    then show ?thesis using 4 that [of s4] by (simp add: settings_def)
  next
    case False
    have "length (window_states s4) = WIN_COUNT" using 1(3) 2(3) 3(3) 4(3) by (simp add: settings_def)
    then show ?thesis
      using run_windows [OF 4(2) False, of 0 ws None] assms(4,5) that False by auto
  qed
  have head: "run_lines (load_state_callback b) None (state_lines b t nps vo br ws) init_state_info =
      ?run ([Pair ''current_entry'' ''0''] @ concat (map entry_lines nps) @ volume_lines b vo @ brightness_lines b br @
        (if NO_NCURSES b then [] else concat (map window_lines (enumerate 0 ws)))) init_state_info"
    by (simp add: state_lines_def)
  have "run_lines (load_state_callback b) None (state_lines b t nps vo br ws) init_state_info = Inr (None, s5)"
    unfolding head by (simp only: run_lines_append 1(1) 2(1) 3(1) 4(1) 5(1) and_then_simps prod.case)
  then show ?thesis
    using 1(3) 2(3) 3(3) 4(3) 5 by (intro exI [of _ s5]) (auto simp: settings_def)
qed

section \<open>What is saved\<close>

text \<open>The playlist as file names and positions.\<close>

definition full_name :: "song_info \<Rightarrow> string" where
  "full_name s = basename s BASENAME_SONG @ ''/'' @ filename s"

definition entries_ok :: "database_info \<Rightarrow> play_entry list \<Rightarrow> bool" where
  "entries_ok db xs \<longleftrightarrow> (\<forall>x \<in> set xs. \<exists>i pos. x = (Some i, Some pos) \<and> i < length (songs db) \<and> int64 pos)"

definition saved_entry :: "database_info \<Rightarrow> play_entry \<Rightarrow> string \<times> int" where
  "saved_entry db x = (full_name (songs db ! the (fst x)), the (snd x))"

lemma queue_text_chain:
  assumes "chain (cells h) p as None" and "entries_ok db (map (entry_at h) as)" and "length as \<le> fuel"
  shows "queue_text fuel db h p =
    Inr (concat (map (\<lambda>x. case saved_entry db x of (n, pos) \<Rightarrow> entry_text n pos) (map (entry_at h) as)))"
  using assms
proof (induction as arbitrary: p fuel)
  case Nil
  then show ?case by simp
next
  case (Cons a as)
  then obtain e f where e: "p = Some a" "cells h a = Some e" "chain (cells h) (entry_next e) as None"
    and f: "fuel = Suc f" "length as \<le> f" by (cases fuel) auto
  obtain i pos where i: "entry_song e = Some i" "entry_start e = Some pos" "i < length (songs db)"
    using Cons.prems(2) e(2) by (auto simp: entries_ok_def entry_at_def)
  have "entries_ok db (map (entry_at h) as)" using Cons.prems(2) by (simp add: entries_ok_def)
  from Cons.IH [OF e(3) this f(2)] show ?case
    using e(1,2) f(1) i by (simp add: song_name_def saved_entry_def full_name_def entry_at_def)
qed

lemma queue_text_hold:
  assumes "queues_hold s xs ys" and "entries_ok db xs"
  shows "queue_text (next_address (q_heap s)) db (q_heap s) (q_head (song_queue s)) =
    Inr (concat (map (\<lambda>x. case saved_entry db x of (n, pos) \<Rightarrow> entry_text n pos) xs))"
proof -
  obtain as bs where at: "queues_at s as bs" and xs: "xs = map (entry_at (q_heap s)) as"
    using assms(1) by (auto simp: queues_hold_def)
  have c: "chain (cells (q_heap s)) (q_head (song_queue s)) as None" "distinct as"
    "\<forall>a \<in> set as. a < next_address (q_heap s)"
    using at by (auto simp: queues_at_def queue_of_def)
  show ?thesis
    unfolding xs by (rule queue_text_chain [OF c(1) assms(2) [unfolded xs] distinct_below [OF c(2,3)]])
qed

definition pending_entries :: "state_info \<Rightarrow> (string \<times> int) list" where
  "pending_entries si =
     map (\<lambda>r. (show_value (the (rs_filename r)), rs_position r))
       (take (nat (raw_song_count si - current_song si)) (drop (nat (current_song si)) (raw_songs si)))"

lemma pending_text_none:
  "raw_song_count si \<le> current_song si \<Longrightarrow> pending_text si = Inr []"
  by (simp add: pending_text_def)

text \<open>The text of the saved file is the rendering of the lines read back above.\<close>

definition playing_entries :: "database_info \<Rightarrow> status \<Rightarrow> (string \<times> int) list" where
  "playing_entries db st =
     (case st_song st of None \<Rightarrow> [] | Some i \<Rightarrow> [(full_name (songs db ! i), st_position st)])"

definition clamped_volume :: "config \<Rightarrow> status \<Rightarrow> int option" where
  "clamped_volume cfg st = map_option (\<lambda>v. if v > max_save_volume cfg then max_save_volume cfg
     else if v < min_save_volume cfg then min_save_volume cfg else v) (st_volume st)"

lemma render_append: "render_lines (xs @ ys) = render_lines xs @ render_lines ys"
  by (simp add: render_lines_def)

lemma render_Cons: "render_lines (l # ls) = render_line l @ render_lines ls"
  by (simp add: render_lines_def)

lemma render_entries:
  "render_lines (concat (map entry_lines nps)) = concat (map (\<lambda>(n, p). entry_text n p) nps)"
  by (induction nps) (auto simp: render_lines_def entry_lines_def entry_text_def)

lemma render_windows:
  "render_lines (concat (map window_lines iws)) =
     concat (map (\<lambda>(i, ws). ''window_number='' @ show_int (int i) @ [LF] @ ''window_state='' @ show_int ws @ [LF]) iws)"
  by (induction iws) (auto simp: render_lines_def window_lines_def)

lemma render_state:
  "render_lines (state_lines b t nps vo br ws) =
     ''# Saved Squash state'' @ [LF] @ ''# Auto-Generated on '' @ (t @ [LF]) @ [LF] @
     ''current_entry=0'' @ [LF] @ concat (map (\<lambda>(n, p). entry_text n p) nps) @
     (if EMPEG_DSP b then (case vo of None \<Rightarrow> [] | Some v \<Rightarrow> ''volume='' @ show_int v @ [LF]) else []) @
     (if EMPEG b then ''brightness='' @ show_int br @ [LF] else []) @
     (if NO_NCURSES b then []
      else concat (map (\<lambda>(i, ws). ''window_number='' @ show_int (int i) @ [LF] @
                                 ''window_state='' @ show_int ws @ [LF]) (enumerate 0 ws)))"
  unfolding state_lines_def render_append render_entries
  by (cases vo) (auto simp: render_windows render_lines_def [of "[]"] render_Cons volume_lines_def brightness_lines_def)

text \<open>Conditions under which the state can be saved at all.\<close>

definition state_savable :: "config \<Rightarrow> string \<Rightarrow> status \<Rightarrow> world \<Rightarrow> play_entry list \<Rightarrow> bool" where
  "state_savable cfg t st w xs \<longleftrightarrow>
     db_readonly cfg = 0 \<and> LF \<notin> set t \<and> entries_ok (w_db w) xs \<and>
     (\<forall>s \<in> set (songs (w_db w)). value_ok (full_name s)) \<and>
     (\<forall>i. st_song st = Some i \<longrightarrow> i < length (songs (w_db w)) \<and> int64 (st_position st)) \<and>
     (\<forall>v. clamped_volume cfg st = Some v \<longrightarrow> int32 v) \<and> int32 (st_brightness st) \<and>
     length (st_windows st) = WIN_COUNT \<and> (\<forall>v \<in> set (st_windows st). int32 v)"

lemma save_state_text:
  assumes "save_state b cfg (t @ [LF]) st w si = Inr (si', fs')" and "state_savable cfg t st w xs"
    and "queues_hold (w_queues w) xs ys" and "raw_song_count si \<le> current_song si"
  shows "\<exists>path. global_state_path cfg = Some path \<and> files fs' path =
    Some (render_lines (state_lines b t (playing_entries (w_db w) st @ map (saved_entry (w_db w)) xs)
      (clamped_volume cfg st) (st_brightness st) (st_windows st)))"
proof -
  let ?nps = "playing_entries (w_db w) st @ map (saved_entry (w_db w)) xs"
  obtain path where path: "global_state_path cfg = Some path"
    using assms(1,2) by (auto simp: save_state_def state_savable_def split: option.splits)
  have ok: "entries_ok (w_db w) xs" using assms(2) by (simp add: state_savable_def)
  have playing: "(if st_song st = None then Inr []
      else map_result (\<lambda>name. entry_text name (st_position st)) (song_name (w_db w) (st_song st))) =
      Inr (concat (map (\<lambda>(n, p). entry_text n p) (playing_entries (w_db w) st)))"
    using assms(2) by (cases "st_song st")
      (auto simp: playing_entries_def song_name_def full_name_def state_savable_def)
  have vol: "(if EMPEG_DSP b then (case st_volume st of None \<Rightarrow> [] | Some v \<Rightarrow>
        ''volume='' @ show_int (if v > max_save_volume cfg then max_save_volume cfg
          else if v < min_save_volume cfg then min_save_volume cfg else v) @ [LF]) else []) =
      (if EMPEG_DSP b then (case clamped_volume cfg st of None \<Rightarrow> [] | Some v \<Rightarrow> ''volume='' @ show_int v @ [LF]) else [])"
    by (cases "st_volume st") (simp_all add: clamped_volume_def)
  have wins: "take WIN_COUNT (st_windows st) = st_windows st" using assms(2) by (simp add: state_savable_def)
  have "\<exists>text fs0. write_file path text fs0 = Inr fs' \<and> text =
      render_lines (state_lines b t ?nps (clamped_volume cfg st) (st_brightness st) (st_windows st))"
    using assms(1,2) playing queue_text_hold [OF assms(3) ok] pending_text_none [OF assms(4)] path
    unfolding save_state_def Let_def render_state vol wins
    by (auto simp: state_savable_def comp_def case_prod_beta)
  then show ?thesis using path write_file_content by blast
qed

lemma saved_entries_cases:
  assumes "state_savable cfg t st w xs" and "np \<in> set (playing_entries (w_db w) st @ map (saved_entry (w_db w)) xs)"
  obtains i where "i < length (songs (w_db w))" "fst np = full_name (songs (w_db w) ! i)" "int64 (snd np)"
proof (cases "np \<in> set (playing_entries (w_db w) st)")
  case True
  then obtain i where "st_song st = Some i" "np = (full_name (songs (w_db w) ! i), st_position st)"
    by (cases "st_song st") (simp_all add: playing_entries_def)
  then show ?thesis using that assms(1) by (auto simp: state_savable_def)
next
  case False
  then obtain x where x: "x \<in> set xs" "np = saved_entry (w_db w) x" using assms(2) by auto
  then obtain i pos where "x = (Some i, Some pos)" "i < length (songs (w_db w))" "int64 pos"
    using assms(1) unfolding state_savable_def entries_ok_def by blast
  then show ?thesis using that x(2) by (auto simp: saved_entry_def)
qed

lemma saved_positions:
  assumes "state_savable cfg t st w xs"
  shows "\<forall>np \<in> set (playing_entries (w_db w) st @ map (saved_entry (w_db w)) xs). int64 (snd np)"
  using saved_entries_cases [OF assms] by blast

lemma state_lines_ok:
  assumes "state_savable cfg t st w xs"
  shows "\<forall>l \<in> set (state_lines b t (playing_entries (w_db w) st @ map (saved_entry (w_db w)) xs)
      (clamped_volume cfg st) (st_brightness st) (st_windows st)). line_ok l"
proof -
  define nps where "nps = playing_entries (w_db w) st @ map (saved_entry (w_db w)) xs"
  have keys: "key_ok ''entry_filename''" "key_ok ''entry_position''" "key_ok ''current_entry''" "key_ok ''volume''"
    "key_ok ''brightness''" "key_ok ''window_number''" "key_ok ''window_state''" "value_ok ''0''"
    by (simp_all add: key_ok_def value_ok_def blank_def)
  have "value_ok (fst np)" if "np \<in> set nps" for np
  proof -
    have np: "np \<in> set (playing_entries (w_db w) st @ map (saved_entry (w_db w)) xs)"
      using that by (simp only: nps_def)
    obtain i where "i < length (songs (w_db w))" "fst np = full_name (songs (w_db w) ! i)"
      by (rule saved_entries_cases [OF assms np])
    then show ?thesis using assms by (simp add: state_savable_def)
  qed
  then have "\<forall>l \<in> set (concat (map entry_lines nps)). line_ok l" using keys by (auto simp: entry_lines_def)
  moreover have "\<forall>l \<in> set (volume_lines b vo). line_ok l" for vo
    using keys by (cases vo) (simp_all add: volume_lines_def)
  moreover have "\<forall>l \<in> set (brightness_lines b br). line_ok l" for br
    using keys by (simp add: brightness_lines_def)
  moreover have "\<forall>l \<in> set (concat (map window_lines iws)). line_ok l" for iws
    using keys by (auto simp: window_lines_def)
  moreover have "LF \<notin> set t" using assms by (simp add: state_savable_def)
  ultimately show ?thesis
    unfolding nps_def [symmetric] using keys by (simp add: state_lines_def ball_Un del: set_concat)
qed

lemma read_saved_state:
  assumes "save_state b cfg (t @ [LF]) st w si = Inr (si', fs')" and "state_savable cfg t st w xs"
    and "queues_hold (w_queues w) xs ys" and "raw_song_count si \<le> current_song si"
  shows "\<exists>si2. read_state b cfg fs' = Inr si2 \<and>
    raws_are si2 (playing_entries (w_db w) st @ map (saved_entry (w_db w)) xs) \<and> current_song si2 = 0 \<and>
    window_states si2 = (if NO_NCURSES b then replicate WIN_COUNT WIN_STATE_NORMAL else st_windows st) \<and>
    si_volume si2 = (if EMPEG_DSP b \<and> clamped_volume cfg st \<noteq> None then the (clamped_volume cfg st) else 50) \<and>
    si_brightness si2 = (if EMPEG b then st_brightness st else 100)"
proof -
  let ?nps = "playing_entries (w_db w) st @ map (saved_entry (w_db w)) xs"
  let ?ls = "state_lines b t ?nps (clamped_volume cfg st) (st_brightness st) (st_windows st)"
  obtain path where path: "global_state_path cfg = Some path" "files fs' path = Some (render_lines ?ls)"
    using save_state_text [OF assms] by blast
  obtain si2 where run: "run_lines (load_state_callback b) None ?ls init_state_info = Inr (None, si2)"
    and si2: "raws_are si2 ?nps" "current_song si2 = 0"
    "window_states si2 = (if NO_NCURSES b then replicate WIN_COUNT WIN_STATE_NORMAL else st_windows st)"
    "si_volume si2 = (if EMPEG_DSP b \<and> clamped_volume cfg st \<noteq> None then the (clamped_volume cfg st) else 50)"
    "si_brightness si2 = (if EMPEG b then st_brightness st else 100)"
    using run_state_lines [OF saved_positions [OF assms(2)], of "clamped_volume cfg st" "st_brightness st" "st_windows st" b t]
      assms(2) by (auto simp: state_savable_def)
  have "?ls \<noteq> []" by (simp add: state_lines_def)
  from parse_file_render [OF state_lines_ok [OF assms(2)] this run] path
  have "read_state b cfg fs' = Inr si2" by (simp add: read_state_def)
  with si2 show ?thesis by blast
qed

text \<open>C6. The saved state is read back: after \<open>save_state()\<close> (with no load of an earlier state
  under way) the file parses into the song being played at its position followed
  by the playlist with its start positions, and into the window states, and on
  the empeg the volume (clamped to the configured range) and the brightness.\<close>

theorem state_file_roundtrip:
  assumes "save_state b cfg (t @ [LF]) st w si = Inr (si', fs')" and "state_savable cfg t st w xs"
    and "queues_hold (w_queues w) xs ys" and "raw_song_count si \<le> current_song si"
  shows "\<exists>si2. read_state b cfg fs' = Inr si2 \<and>
    take (nat (raw_song_count si2)) (raw_songs si2) =
      map (\<lambda>(n, p). \<lparr>rs_filename = Some (Some n), rs_position = p\<rparr>)
        (playing_entries (w_db w) st @ map (saved_entry (w_db w)) xs) \<and>
    current_song si2 = 0 \<and>
    window_states si2 = (if NO_NCURSES b then replicate WIN_COUNT WIN_STATE_NORMAL else st_windows st) \<and>
    si_volume si2 = (if EMPEG_DSP b \<and> clamped_volume cfg st \<noteq> None then the (clamped_volume cfg st) else 50) \<and>
    si_brightness si2 = (if EMPEG b then st_brightness st else 100)"
proof -
  have "raws_are si2 rs \<Longrightarrow> take (nat (raw_song_count si2)) (raw_songs si2) =
      map (\<lambda>(n, p). \<lparr>rs_filename = Some (Some n), rs_position = p\<rparr>) rs" for si2 rs
    by (simp add: raws_are_def)
  then show ?thesis using read_saved_state [OF assms] by blast
qed

definition ex_status :: status where
  "ex_status = \<lparr>st_song = Some 0, st_position = 1234, st_volume = None, st_brightness = 100,
     st_windows = [0, 0, 1, 1, 0, 0]\<rparr>"

lemma ex_savable: "state_savable ex_config ''now'' ex_status ex_world []"
  by (simp add: state_savable_def ex_config_def ex_status_def entries_ok_def ex_world_def
      start_song_picker_facts ex_ready_song_def ex_song_def new_song_def full_name_def value_ok_def blank_def
      path_of_def int64_def int32_def clamped_volume_def WIN_COUNT_def)

lemma ex_world_empty: "queues_hold (w_queues ex_world) [] []"
  using empty_queues_hold by (simp add: ex_world_def)

lemma ex_saves: "\<exists>fs'. save_state ex_build ex_config (''now'' @ [LF]) ex_status ex_world init_state_info =
  Inr (init_state_info, fs')"
proof -
  have q: "queue_text (next_address (q_heap (w_queues ex_world))) (w_db ex_world) (q_heap (w_queues ex_world))
     (q_head (song_queue (w_queues ex_world))) = Inr []"
    using queue_text_hold [OF ex_world_empty] by (simp add: entries_ok_def)
  have p: "song_name (w_db ex_world) (Some 0) = Inr (full_name ex_ready_song)"
    by (simp add: song_name_def ex_world_def start_song_picker_facts read_at_def full_name_def)
  have w: "\<exists>fs'. write_file ''/st'' content (w_fs ex_world) = Inr fs'" for content
    by (simp add: write_file_def ex_world_def ex_fs_def parent_exists_def)
  have i: "pending_text init_state_info = Inr []" "current_song init_state_info = raw_song_count init_state_info"
    by (simp_all add: pending_text_def init_state_info_def)
  have st: "st_song ex_status = Some 0" by (simp add: ex_status_def)
  have path: "global_state_path ex_config = Some ''/st''" "db_readonly ex_config = 0"
    by (simp_all add: ex_config_def)
  show ?thesis
    unfolding save_state_def Let_def path q st using p i w by simp
qed

theorem state_file_roundtrip_witness:
  "\<exists>fs' si2. read_state ex_build ex_config fs' = Inr si2 \<and> raw_song_count si2 = 1 \<and>
     window_states si2 = [0, 0, 1, 1, 0, 0]"
proof -
  obtain fs' where s: "save_state ex_build ex_config (''now'' @ [LF]) ex_status ex_world init_state_info = Inr (init_state_info, fs')"
    using ex_saves by blast
  have "raw_song_count init_state_info \<le> current_song init_state_info" by (simp add: init_state_info_def)
  note r = state_file_roundtrip [OF s ex_savable ex_world_empty this]
  then obtain si2 where si2: "read_state ex_build ex_config fs' = Inr si2"
    "window_states si2 = st_windows ex_status" by (auto simp: ex_build_def)
  from read_saved_state [OF s ex_savable ex_world_empty \<open>raw_song_count init_state_info \<le> current_song init_state_info\<close>] si2(1)
  have "raw_song_count si2 = 1" by (auto simp: raws_are_def playing_entries_def ex_status_def)
  with si2 show ?thesis by (auto simp: ex_status_def)
qed

section \<open>Restoring the playlist\<close>

lemma load_state_loop_end:
  "raw_song_count (fst siw) \<le> current_song (fst siw) \<Longrightarrow> load_state_loop n b cfg tags dur siw = Inr (Some siw)"
  by (cases n) simp_all

lemma queue_song_names:
  assumes "playlist_queue_song b cfg tags dur (Some c) start w = Inr w'" and "library_ok cfg (w_db w)"
  shows "map filename (songs (w_db w')) = map filename (songs (w_db w)) \<and>
    map (\<lambda>s. basename s BASENAME_SONG) (songs (w_db w')) = map (\<lambda>s. basename s BASENAME_SONG) (songs (w_db w))"
proof -
  obtain s' fs' q where c: "c < length (songs (w_db w))"
    and e: "ensure_song_fully_loaded b cfg tags dur (songs (w_db w) ! c) (w_fs w) = Inr (s', fs')"
    and w': "w' = w\<lparr>w_db := (w_db w)\<lparr>songs := (songs (w_db w))[c := s']\<rparr>, w_fs := fs', w_queues := q\<rparr>"
    using assms(1) by (auto simp: playlist_queue_song_def read_at_Inr)
  have "song_sound (songs (w_db w) ! c)" using assms(2) c by (simp add: library_ok_def)
  from ensure_steps [OF e this] c show ?thesis
    by (simp add: w' map_update list_update_same_conv)
qed

text \<open>The songs of a library lie under one directory and have different names.\<close>

definition names_ok :: "string \<Rightarrow> database_info \<Rightarrow> bool" where
  "names_ok base db \<longleftrightarrow> map (\<lambda>s. basename s BASENAME_SONG) (songs db) = replicate (length (songs db)) base \<and>
     distinct (map filename (songs db))"

lemma names_ok_find:
  assumes "names_ok base db" and "i < length (songs db)"
  shows "find_song_by_filename db (Some (full_name (songs db ! i))) = Inr (Some i)"
proof -
  have base: "basename (songs db ! j) BASENAME_SONG = base" if "j < length (songs db)" for j
  proof -
    have "map (\<lambda>s. basename s BASENAME_SONG) (songs db) ! j = replicate (length (songs db)) base ! j"
      using assms(1) by (simp only: names_ok_def)
    then show ?thesis using that by simp
  qed
  then have "\<forall>song \<in> set (songs db). basename song BASENAME_SONG = base" by (auto simp: in_set_conv_nth)
  then show ?thesis
    using find_song_from_same_base [of "songs db" base i _ 0] assms base
    by (simp add: find_song_by_filename_def full_name_def names_ok_def)
qed

lemma names_ok_same:
  assumes "names_ok base db" and "map filename (songs db') = map filename (songs db)"
    and "map (\<lambda>s. basename s BASENAME_SONG) (songs db') = map (\<lambda>s. basename s BASENAME_SONG) (songs db)"
  shows "names_ok base db' \<and> (\<forall>i < length (songs db). full_name (songs db' ! i) = full_name (songs db ! i))"
proof -
  have len: "length (songs db') = length (songs db)" using assms(2) map_eq_imp_length_eq by blast
  have "full_name (songs db' ! i) = full_name (songs db ! i)" if "i < length (songs db)" for i
  proof -
    have "map filename (songs db') ! i = map filename (songs db) ! i"
      "map (\<lambda>s. basename s BASENAME_SONG) (songs db') ! i = map (\<lambda>s. basename s BASENAME_SONG) (songs db) ! i"
      by (simp_all only: assms(2,3))
    then show ?thesis using that len by (simp add: full_name_def)
  qed
  then show ?thesis using assms len by (simp add: names_ok_def)
qed

text \<open>The songs still to be queued are those of \<open>ips\<close>, from the current one on.\<close>

definition to_queue :: "database_info \<Rightarrow> state_info \<Rightarrow> (nat \<times> int) list \<Rightarrow> bool" where
  "to_queue db si ips \<longleftrightarrow> 0 \<le> current_song si \<and> raw_song_count si \<le> int (length (raw_songs si)) \<and>
     raw_song_count si = current_song si + int (length ips) \<and>
     take (length ips) (drop (nat (current_song si)) (raw_songs si)) =
       map (\<lambda>(i, p). \<lparr>rs_filename = Some (Some (full_name (songs db ! i))), rs_position = p\<rparr>) ips \<and>
     (\<forall>(i, p) \<in> set ips. i < length (songs db))"

lemma load_state_turn_step:
  assumes "to_queue (w_db w) si ((i, p) # ips)" and "names_ok base (w_db w)" and "library_ok cfg (w_db w)"
    and "queues_hold (w_queues w) xs ys" and "load_state_turn b cfg tags dur (si, w) = Inr (si', w')"
  shows "to_queue (w_db w') si' ips \<and> names_ok base (w_db w') \<and> library_ok cfg (w_db w') \<and>
    queues_hold (w_queues w') (xs @ [(Some i, Some p)]) ys"
proof -
  define n where "n = nat (current_song si)"
  have n: "n < length (raw_songs si)" "current_song si = int n"
    "take (Suc (length ips)) (drop n (raw_songs si)) =
      map (\<lambda>(i, p). \<lparr>rs_filename = Some (Some (full_name (songs (w_db w) ! i))), rs_position = p\<rparr>) ((i, p) # ips)"
    and i: "i < length (songs (w_db w))" "\<forall>(i, p) \<in> set ips. i < length (songs (w_db w))"
    using assms(1) by (auto simp: to_queue_def n_def)
  have cons: "drop n (raw_songs si) = raw_songs si ! n # drop (Suc n) (raw_songs si)"
    using n(1) by (simp add: Cons_nth_drop_Suc)
  have raw: "raw_songs si ! n = \<lparr>rs_filename = Some (Some (full_name (songs (w_db w) ! i))), rs_position = p\<rparr>"
    and rest: "take (length ips) (drop (Suc n) (raw_songs si)) =
      map (\<lambda>(i, p). \<lparr>rs_filename = Some (Some (full_name (songs (w_db w) ! i))), rs_position = p\<rparr>) ips"
    using n(3) unfolding cons by simp_all
  have q: "playlist_queue_song b cfg tags dur (Some i) p w = Inr w'" and si': "si' = si\<lparr>current_song := current_song si + 1\<rparr>"
    using assms(5) n(1,2) raw names_ok_find [OF assms(2) i(1)] by (auto simp: load_state_turn_def)
  note lib = queue_song_library [OF q assms(3,4)]
  have names: "names_ok base (w_db w')" "\<forall>i < length (songs (w_db w)). full_name (songs (w_db w') ! i) = full_name (songs (w_db w) ! i)"
    using names_ok_same [OF assms(2)] queue_song_names [OF q assms(3)] by blast+
  have "nat (int n + 1) = Suc n" by simp
  then have "to_queue (w_db w') si' ips"
    using assms(1) rest lib names(2) i(2) by (auto simp: to_queue_def si' n(2))
  then show ?thesis using lib names(1) by simp
qed

lemma load_state_loop_queues:
  assumes "to_queue (w_db w) si ips" and "names_ok base (w_db w)" and "library_ok cfg (w_db w)"
    and "queues_hold (w_queues w) xs ys" and "length ips \<le> n"
    and "load_state_loop n b cfg tags dur (si, w) = Inr res"
  shows "\<exists>si' w'. res = Some (si', w') \<and>
    queues_hold (w_queues w') (xs @ map (\<lambda>(i, p). (Some i, Some p)) ips) ys \<and> library_ok cfg (w_db w')"
  using assms
proof (induction ips arbitrary: n si w xs)
  case Nil
  then have "raw_song_count si \<le> current_song si" by (simp add: to_queue_def)
  then have "res = Some (si, w)"
    using Nil.prems(6) load_state_loop_end [of "(si, w)" n b cfg tags dur] by simp
  then show ?case using Nil.prems by simp
next
  case (Cons ip ips)
  obtain i p where ip: "ip = (i, p)" by (cases ip)
  obtain m where m: "n = Suc m" "length ips \<le> m" using Cons.prems(5) by (cases n) auto
  have more: "current_song si < raw_song_count si" using Cons.prems(1) by (simp add: to_queue_def)
  obtain si1 w1 where turn: "load_state_turn b cfg tags dur (si, w) = Inr (si1, w1)"
    and rest: "load_state_loop m b cfg tags dur (si1, w1) = Inr res"
    using Cons.prems(6) m(1) more by auto
  note step = load_state_turn_step [OF Cons.prems(1) [unfolded ip] Cons.prems(2-4) turn]
  from Cons.IH [of w1 si1 "xs @ [(Some i, Some p)]" m] step rest m(2)
  show ?case by (auto simp: ip)
qed

text \<open>C7. The playlist survives a restart: a player that starts with the state file of
  another one, on a library with the same songs, and gets through \<open>load_state()\<close>
  has as its playlist the song that was playing, at the position it had reached,
  followed by the old playlist with its start positions; and the loop of
  \<open>load_state()\<close> always comes to its end.\<close>

theorem playlist_survives_restart:
  assumes "save_state b cfg (t @ [LF]) st w si = Inr (si', fs')" and "state_savable cfg t st w xs"
    and "queues_hold (w_queues w) xs ys" and "raw_song_count si \<le> current_song si"
    and "names_ok base (w_db w0)" and "library_ok cfg (w_db w0)" and "queues_hold (w_queues w0) [] ys0"
    and "w_fs w0 = fs'" and "map full_name (songs (w_db w0)) = map full_name (songs (w_db w))"
    and "load_state b cfg tags dur w0 = Inr res"
  shows "\<exists>si2 w'. res = Some (si2, w') \<and> queues_hold (w_queues w')
    ((case st_song st of None \<Rightarrow> [] | Some i \<Rightarrow> [(Some i, Some (st_position st))]) @ xs) ys0"
proof -
  let ?ips = "(case st_song st of None \<Rightarrow> [] | Some i \<Rightarrow> [(i, st_position st)]) @ map (\<lambda>x. (the (fst x), the (snd x))) xs"
  let ?nps = "playing_entries (w_db w) st @ map (saved_entry (w_db w)) xs"
  have xs: "\<forall>x \<in> set xs. \<exists>i pos. x = (Some i, Some pos) \<and> i < length (songs (w_db w)) \<and> int64 pos"
    using assms(2) by (simp add: state_savable_def entries_ok_def)
  have len: "length (songs (w_db w0)) = length (songs (w_db w))"
    using assms(9) map_eq_imp_length_eq by blast
  have name: "full_name (songs (w_db w0) ! i) = full_name (songs (w_db w) ! i)" if "i < length (songs (w_db w))" for i
  proof -
    have "map full_name (songs (w_db w0)) ! i = map full_name (songs (w_db w)) ! i" by (simp only: assms(9))
    then show ?thesis using that len by simp
  qed
  have playing: "st_song st = Some i \<Longrightarrow> i < length (songs (w_db w))" for i
    using assms(2) by (simp add: state_savable_def)
  obtain si1 where si1: "read_state b cfg fs' = Inr si1" "raws_are si1 ?nps" "current_song si1 = 0"
    using read_saved_state [OF assms(1-4)] by blast
  have nps: "map (\<lambda>(n, p). \<lparr>rs_filename = Some (Some n), rs_position = p\<rparr>) ?nps =
      map (\<lambda>(i, p). \<lparr>rs_filename = Some (Some (full_name (songs (w_db w0) ! i))), rs_position = p\<rparr>) ?ips"
    using xs playing name
    by (cases "st_song st") (force simp: playing_entries_def saved_entry_def)+
  have "length ?nps = length ?ips" using map_eq_imp_length_eq [OF nps] .
  then have tq: "to_queue (w_db w0) si1 ?ips"
    using si1(2,3) nps xs playing len
    by (cases "st_song st") (force simp: to_queue_def raws_are_def)+
  obtain res1 where loop: "load_state_loop (nat (raw_song_count si1 - current_song si1)) b cfg tags dur (si1, w0) = Inr res1"
    and res: "res = map_option (\<lambda>(si, w). (si\<lparr>raw_songs := [], current_song := 0, raw_song_count := 0, raw_song_alloc := 0\<rparr>, w)) res1"
    using assms(8,10) si1(1) by (auto simp: load_state_def)
  have "length ?ips \<le> nat (raw_song_count si1 - current_song si1)" using tq by (simp add: to_queue_def)
  from load_state_loop_queues [OF tq assms(5-7) this loop] obtain si2 w' where
    "res1 = Some (si2, w')" "queues_hold (w_queues w') (map (\<lambda>(i, p). (Some i, Some p)) ?ips) ys0" by auto
  moreover have "map (\<lambda>x. (Some (the (fst x)), Some (the (snd x)))) xs = xs"
    using xs by (intro map_idI) auto
  then have "map (\<lambda>(i, p). (Some i, Some p)) ?ips =
      (case st_song st of None \<Rightarrow> [] | Some i \<Rightarrow> [(Some i, Some (st_position st))]) @ xs"
    by (cases "st_song st") (simp_all add: comp_def)
  ultimately show ?thesis by (auto simp: res)
qed

text \<open>On a library whose songs are loaded, restoring cannot fail.\<close>

lemma queue_loaded_song:
  assumes "fully_loaded (songs (w_db w) ! c)" and "c < length (songs (w_db w))" and "queues_hold (w_queues w) xs ys"
  shows "\<exists>w'. playlist_queue_song b cfg tags dur (Some c) start w = Inr w' \<and> w_db w' = w_db w"
proof -
  have "ensure_song_fully_loaded b cfg tags dur (songs (w_db w) ! c) (w_fs w) = Inr (songs (w_db w) ! c, w_fs w)"
    by (rule fully_loaded_again [OF assms(1)])
  moreover obtain q where "enqueue_song (Some c) start (w_queues w) = Inr q"
    using enqueue_hold [OF assms(3), of "Some c" start] by blast
  ultimately show ?thesis using assms(2) by (simp add: playlist_queue_song_def)
qed

lemma load_state_loop_returns:
  assumes "to_queue (w_db w) si ips" and "names_ok base (w_db w)" and "library_ok cfg (w_db w)"
    and "queues_hold (w_queues w) xs ys" and "\<forall>s \<in> set (songs (w_db w)). fully_loaded s" and "length ips \<le> n"
  shows "\<exists>res. load_state_loop n b cfg tags dur (si, w) = Inr res"
  using assms
proof (induction ips arbitrary: n si w xs)
  case Nil
  then have "raw_song_count si \<le> current_song si" by (simp add: to_queue_def)
  then show ?case using load_state_loop_end [of "(si, w)" n b cfg tags dur] by simp
next
  case (Cons ip ips)
  obtain i p where ip: "ip = (i, p)" by (cases ip)
  obtain m where m: "n = Suc m" "length ips \<le> m" using Cons.prems(6) by (cases n) auto
  define k where "k = nat (current_song si)"
  have k: "k < length (raw_songs si)" "current_song si = int k" "current_song si < raw_song_count si"
    and tk: "take (Suc (length ips)) (drop k (raw_songs si)) =
      map (\<lambda>(i, p). \<lparr>rs_filename = Some (Some (full_name (songs (w_db w) ! i))), rs_position = p\<rparr>) ((i, p) # ips)"
    and i: "i < length (songs (w_db w))"
    using Cons.prems(1) by (auto simp: to_queue_def ip k_def)
  have raw: "raw_songs si ! k = \<lparr>rs_filename = Some (Some (full_name (songs (w_db w) ! i))), rs_position = p\<rparr>"
    using tk unfolding Cons_nth_drop_Suc [OF k(1), symmetric] by simp
  obtain w1 where w1: "playlist_queue_song b cfg tags dur (Some i) p w = Inr w1" "w_db w1 = w_db w"
    using queue_loaded_song [of w i] Cons.prems(4,5) i by (meson nth_mem)
  have turn: "load_state_turn b cfg tags dur (si, w) = Inr (si\<lparr>current_song := current_song si + 1\<rparr>, w1)"
    using k raw names_ok_find [OF Cons.prems(2) i] w1(1) by (simp add: load_state_turn_def)
  note step = load_state_turn_step [OF Cons.prems(1) [unfolded ip] Cons.prems(2-4) turn]
  have "\<exists>res. load_state_loop m b cfg tags dur (si\<lparr>current_song := current_song si + 1\<rparr>, w1) = Inr res"
    using step Cons.prems(5) w1(2) m(2) by (intro Cons.IH [of w1 _ "xs @ [(Some i, Some p)]"]) auto
  then show ?case using turn k(3) m(1) by simp
qed

lemma ex_world_db: "songs (w_db ex_world) = [ex_ready_song]" "w_fs ex_world = ex_fs"
  by (simp_all add: ex_world_def start_song_picker_facts)

theorem playlist_survives_restart_witness:
  "\<exists>fs' si2 w'. load_state ex_build ex_config (\<lambda>_ _. []) (\<lambda>_ _. None) (ex_world\<lparr>w_fs := fs'\<rparr>) = Inr (Some (si2, w')) \<and>
     queues_hold (w_queues w') [(Some 0, Some 1234)] []"
proof -
  obtain fs' where s: "save_state ex_build ex_config (''now'' @ [LF]) ex_status ex_world init_state_info = Inr (init_state_info, fs')"
    using ex_saves by blast
  have le: "raw_song_count init_state_info \<le> current_song init_state_info" by (simp add: init_state_info_def)
  let ?w = "ex_world\<lparr>w_fs := fs'\<rparr>"
  have n: "names_ok ''/m'' (w_db ?w)"
    by (simp add: names_ok_def ex_world_db ex_ready_song_def ex_song_def new_song_def path_of_def ex_config_def)
  obtain si where si: "read_state ex_build ex_config fs' = Inr si" "raws_are si [(full_name ex_ready_song, 1234)]"
    "current_song si = 0"
    using read_saved_state [OF s ex_savable ex_world_empty le]
    by (auto simp: playing_entries_def ex_status_def ex_world_db)
  have tq: "to_queue (w_db ?w) si [(0, 1234)]"
    using si(2,3) by (simp add: to_queue_def raws_are_def ex_world_db)
  have loaded: "\<forall>s \<in> set (songs (w_db ?w)). fully_loaded s"
    by (simp add: ex_world_db fully_loaded_def ex_ready_song_def ex_song_def)
  have lib: "library_ok ex_config (w_db ?w)" and q: "queues_hold (w_queues ?w) [] []"
    using ex_world_library ex_world_empty by simp_all
  have "\<exists>res. load_state ex_build ex_config (\<lambda>_ _. []) (\<lambda>_ _. None) ?w = Inr res"
    using load_state_loop_returns [OF tq n lib q loaded, of "nat (raw_song_count si - current_song si)" ex_build
        "\<lambda>_ _. []" "\<lambda>_ _. None"] tq si(1) by (auto simp: load_state_def to_queue_def)
  then obtain res where "load_state ex_build ex_config (\<lambda>_ _. []) (\<lambda>_ _. None) ?w = Inr res" ..
  from playlist_survives_restart [OF s ex_savable ex_world_empty le n lib q _ _ this] this
  show ?thesis by (auto simp: ex_status_def)
qed

text \<open>Saving while a state is being loaded ends the load: \<open>save_state()\<close> moves the
  position of the load to its end, so that the loop in \<open>load_state()\<close>, whose locks
  are free between two songs, queues none of the songs that were left.\<close>

theorem save_stops_load:
  assumes "save_state b cfg ctime st w si = Inr (si', fs')" and "db_readonly cfg = 0"
  shows "load_state_loop n b cfg tags dur (si', w') = Inr (Some (si', w'))"
proof (rule load_state_loop_end)
  show "raw_song_count (fst (si', w')) \<le> current_song (fst (si', w'))"
    using assms by (auto simp: save_state_def Let_def split: option.splits)
qed

theorem save_stops_load_witness:
  "\<exists>si' fs'. save_state ex_build ex_config (''now'' @ [LF]) ex_status ex_world init_state_info = Inr (si', fs') \<and>
     load_state_loop 5 ex_build ex_config (\<lambda>_ _. []) (\<lambda>_ _. None) (si', ex_world) = Inr (Some (si', ex_world))"
proof -
  obtain fs' where s: "save_state ex_build ex_config (''now'' @ [LF]) ex_status ex_world init_state_info = Inr (init_state_info, fs')"
    using ex_saves by blast
  from save_stops_load [OF s] s show ?thesis by (auto simp: ex_config_def)
qed

end
