(* ===== verification/Player_Commands.thy ===== *)
theory Player_Commands
  imports Squash_Base
begin

text \<open>
  The queue of commands for the player thread: \<open>player_queue_command()\<close> and the loop
  at the top of \<open>player()\<close> that reads it, both in \<open>src/src/player.c\<close>.  Commands are
  entries on a heap linked from \<open>head\<close>, with a \<open>tail\<close> pointer and a counter.
\<close>

section \<open>Definitions\<close>

datatype player_command = CMD_NOOP | CMD_PLAY | CMD_PAUSE | CMD_STOP | CMD_SKIP

record command_entry =
  ce_next :: "nat option"
  ce_command :: player_command

record command_queue =
  cq_cells :: "nat \<Rightarrow> command_entry option"
  cq_next_address :: nat
  cq_head :: "nat option"
  cq_tail :: "nat option"
  cq_size :: int

definition no_commands :: command_queue where
  "no_commands = \<lparr>cq_cells = (\<lambda>_. None), cq_next_address = 0, cq_head = None, cq_tail = None, cq_size = 0\<rparr>"

definition command_at :: "command_queue \<Rightarrow> nat option \<Rightarrow> command_entry result" where
  "command_at q p =
     (case p of
        None \<Rightarrow> Inl Null_Deref
      | Some a \<Rightarrow> (case cq_cells q a of None \<Rightarrow> Inl Use_After_Free | Some e \<Rightarrow> Inr e))"

definition player_queue_command :: "player_command \<Rightarrow> command_queue \<Rightarrow> command_queue result" where
  "player_queue_command c q =
     (let new = cq_next_address q;
          q = q\<lparr>cq_cells := (cq_cells q)(new \<mapsto> \<lparr>ce_next = None, ce_command = c\<rparr>), cq_next_address := new + 1\<rparr> in
      map_result (\<lambda>q. q\<lparr>cq_size := cq_size q + 1\<rparr>)
        (case cq_head q of
           None \<Rightarrow> Inr (q\<lparr>cq_head := Some new, cq_tail := Some new\<rparr>)
         | Some _ \<Rightarrow>
           and_then (command_at q (cq_tail q)) (\<lambda>e.
           let q = q\<lparr>cq_cells := (cq_cells q)(the (cq_tail q) \<mapsto> e\<lparr>ce_next := Some new\<rparr>)\<rparr> in
           Inr (if cq_tail q = cq_head q then q\<lparr>cq_head := Some new\<rparr> else q))))"

text \<open>
  The end of a turn of the reading loop: on to the next entry, the tail moved if it
  was the head, the head freed.
\<close>

definition pop_command :: "command_entry \<Rightarrow> command_queue \<Rightarrow> command_queue" where
  "pop_command e q =
     (let q = (if cq_head q = cq_tail q then q\<lparr>cq_tail := ce_next e\<rparr> else q) in
      q\<lparr>cq_cells := (case cq_head q of None \<Rightarrow> cq_cells q | Some a \<Rightarrow> (cq_cells q)(a := None)),
        cq_head := ce_next e, cq_size := cq_size q - 1\<rparr>)"

text \<open>
  The loop, with the handling of a command as its argument; every turn frees an
  entry, so the addresses handed out bound the turns.
\<close>

fun read_commands ::
  "nat \<Rightarrow> (player_command \<Rightarrow> 's \<Rightarrow> 's result) \<Rightarrow> command_queue \<Rightarrow> 's \<Rightarrow> (command_queue \<times> 's) result" where
  "read_commands 0 handle q s = (if cq_head q = None then Inr (q, s) else Inl Use_After_Free)"
| "read_commands (Suc n) handle q s =
     (case cq_head q of
        None \<Rightarrow> Inr (q, s)
      | Some a \<Rightarrow>
        and_then (command_at q (Some a)) (\<lambda>e.
        and_then (handle (ce_command e) s) (\<lambda>s.
        read_commands n handle (pop_command e q) s)))"

definition process_commands ::
  "(player_command \<Rightarrow> 's \<Rightarrow> 's result) \<Rightarrow> command_queue \<Rightarrow> 's \<Rightarrow> (command_queue \<times> 's) result" where
  "process_commands handle q s = read_commands (cq_next_address q) handle q s"

text \<open>What every command keeps, the whole loop keeps.\<close>

lemma read_commands_invariant:
  assumes "read_commands n handle q s = Inr (q', s')" and "P s"
    and "\<And>c s s'. P s \<Longrightarrow> handle c s = Inr s' \<Longrightarrow> P s'"
  shows "P s'"
  using assms(1,2)
proof (induction n arbitrary: q s)
  case 0
  then show ?case by (simp split: if_splits)
next
  case (Suc n)
  then show ?case
    by (cases "cq_head q") (auto intro: assms(3))
qed

section \<open>Which commands are read\<close>

text \<open>The handler that only notes the commands it is given.\<close>

definition note_command :: "player_command \<Rightarrow> player_command list \<Rightarrow> player_command list result" where
  "note_command c cs = Inr (cs @ [c])"

definition queue_all :: "player_command list \<Rightarrow> command_queue \<Rightarrow> command_queue result" where
  "queue_all = fold_result player_queue_command"

text \<open>An empty queue in good order.\<close>

definition queue_clear :: "command_queue \<Rightarrow> bool" where
  "queue_clear q \<longleftrightarrow> cq_head q = None \<and> (\<forall>a. cq_cells q a \<noteq> None \<longrightarrow> a < cq_next_address q)"

text \<open>One entry: its address is head and tail.\<close>

lemma queue_one:
  assumes "queue_clear q"
  shows "\<exists>q'. player_queue_command c q = Inr q' \<and> cq_head q' = Some (cq_next_address q) \<and>
    cq_tail q' = Some (cq_next_address q) \<and> cq_cells q' (cq_next_address q) = Some \<lparr>ce_next = None, ce_command = c\<rparr> \<and>
    cq_next_address q' = Suc (cq_next_address q) \<and> (\<forall>a. cq_cells q' a \<noteq> None \<longrightarrow> a < cq_next_address q')"
  using assms by (auto simp: player_queue_command_def queue_clear_def Let_def)

text \<open>
  Two entries: the head is the second one, the tail still the first, whose link
  is all that leads to what comes later.
\<close>

definition second_lost :: "command_queue \<Rightarrow> nat \<Rightarrow> nat \<Rightarrow> player_command \<Rightarrow> bool" where
  "second_lost q a b c \<longleftrightarrow> cq_head q = Some b \<and> cq_tail q = Some a \<and> a \<noteq> b \<and> (\<exists>e. cq_cells q a = Some e) \<and>
     cq_cells q b = Some \<lparr>ce_next = None, ce_command = c\<rparr> \<and> b < cq_next_address q \<and>
     (\<forall>x. cq_cells q x \<noteq> None \<longrightarrow> x < cq_next_address q)"

lemma queue_two:
  assumes "cq_head q = Some a" and "cq_tail q = Some a" and "cq_cells q a = Some e"
    and "\<forall>x. cq_cells q x \<noteq> None \<longrightarrow> x < cq_next_address q"
  shows "\<exists>q'. player_queue_command c q = Inr q' \<and> second_lost q' a (cq_next_address q) c"
proof -
  have "a < cq_next_address q" using assms(3,4) by auto
  then show ?thesis
    using assms by (auto simp: player_queue_command_def command_at_def second_lost_def Let_def less_Suc_eq)
qed

lemma queue_more:
  assumes "second_lost q a b c"
  shows "\<exists>q'. player_queue_command d q = Inr q' \<and> second_lost q' a b c"
proof -
  let ?n = "cq_next_address q"
  obtain e where e: "cq_cells q a = Some e" using assms by (auto simp: second_lost_def)
  have lt: "a < ?n" "b < ?n" "\<And>x y. cq_cells q x = Some y \<Longrightarrow> x < ?n"
    using assms by (auto simp: second_lost_def)
  define q' where "q' = q\<lparr>cq_cells := (cq_cells q)(?n \<mapsto> \<lparr>ce_next = None, ce_command = d\<rparr>, a \<mapsto> e\<lparr>ce_next := Some ?n\<rparr>),
    cq_next_address := ?n + 1, cq_size := cq_size q + 1\<rparr>"
  have "player_queue_command d q = Inr q'"
    using assms e less_imp_neq [OF lt(1)]
    by (simp add: player_queue_command_def command_at_def second_lost_def Let_def q'_def)
  moreover have "second_lost q' a b c"
    using assms lt unfolding second_lost_def q'_def
    by (auto intro: less_SucI split: if_splits)
  ultimately show ?thesis by blast
qed

lemma queue_all_more:
  assumes "second_lost q a b c"
  shows "\<exists>q'. queue_all ds q = Inr q' \<and> second_lost q' a b c"
  using assms
proof (induction ds arbitrary: q)
  case Nil
  then show ?case by (simp add: queue_all_def)
next
  case (Cons d ds)
  obtain q1 where "player_queue_command d q = Inr q1" "second_lost q1 a b c"
    using queue_more [OF Cons.prems] by blast
  with Cons.IH [of q1] show ?case by (simp add: queue_all_def)
qed

lemma pop_command_head:
  assumes "cq_head q = Some a"
  shows "cq_cells (pop_command e q) = (cq_cells q)(a := None)" "cq_head (pop_command e q) = ce_next e"
    "cq_next_address (pop_command e q) = cq_next_address q"
  using assms by (cases "cq_tail q = Some a"; simp add: pop_command_def Let_def)+

lemma read_single:
  assumes "cq_head q = Some b" and "cq_cells q b = Some \<lparr>ce_next = None, ce_command = c\<rparr>" and "0 < n"
  shows "read_commands n handle q s =
    map_result (\<lambda>s. (pop_command \<lparr>ce_next = None, ce_command = c\<rparr> q, s)) (handle c s)"
proof -
  obtain m where n: "n = Suc m" using assms(3) by (cases n) auto
  have "read_commands m handle (pop_command \<lparr>ce_next = None, ce_command = c\<rparr> q) =
      (\<lambda>s'. Inr (pop_command \<lparr>ce_next = None, ce_command = c\<rparr> q, s'))"
    by (cases m) (simp_all add: pop_command_def Let_def fun_eq_iff)
  then show ?thesis using assms(1,2) by (simp add: n command_at_def map_result_def)
qed

lemma single_command:
  assumes "queue_clear q"
  shows "\<exists>q1 q2. player_queue_command c q = Inr q1 \<and> cq_head q1 \<noteq> None \<and> queue_clear q2 \<and>
    process_commands handle q1 s = map_result (\<lambda>s. (q2, s)) (handle c s)"
proof -
  obtain q1 where 1: "player_queue_command c q = Inr q1" "cq_head q1 = Some (cq_next_address q)"
    "cq_cells q1 (cq_next_address q) = Some \<lparr>ce_next = None, ce_command = c\<rparr>"
    "cq_next_address q1 = Suc (cq_next_address q)" "\<forall>a. cq_cells q1 a \<noteq> None \<longrightarrow> a < cq_next_address q1"
    using queue_one [OF assms] by blast
  have "queue_clear (pop_command \<lparr>ce_next = None, ce_command = c\<rparr> q1)"
    using 1(4,5) pop_command_head [OF 1(2)] by (auto simp: queue_clear_def split: if_splits)
  moreover have "process_commands handle q1 s =
      map_result (\<lambda>s. (pop_command \<lparr>ce_next = None, ce_command = c\<rparr> q1, s)) (handle c s)"
    unfolding process_commands_def using 1(4) by (intro read_single [OF 1(2,3)]) simp
  ultimately show ?thesis using 1(1,2) by blast
qed

text \<open>One command at a time arrives: a command queued while the queue is empty is the
  one the player reads, and the queue is empty again.\<close>

theorem single_command_arrives:
  assumes "queue_clear q"
  shows "\<exists>q1 q2. player_queue_command c q = Inr q1 \<and>
    process_commands note_command q1 [] = Inr (q2, [c]) \<and> queue_clear q2"
  using single_command [OF assms, of c note_command "[]"] by (auto simp: note_command_def)

theorem single_command_arrives_witness:
  "\<exists>q1 q2. player_queue_command CMD_SKIP no_commands = Inr q1 \<and> process_commands note_command q1 [] = Inr (q2, [CMD_SKIP])"
  using single_command_arrives [of no_commands CMD_SKIP] by (auto simp: queue_clear_def no_commands_def)

text \<open>Commands queued faster than the player reads them are lost: of two or more commands
  queued on an empty queue the player reads exactly the second one.\<close>

theorem only_second_command_arrives:
  assumes "queue_clear q"
  shows "\<exists>q1 q2. queue_all (c1 # c2 # cs) q = Inr q1 \<and> process_commands note_command q1 [] = Inr (q2, [c2])"
proof -
  obtain qa where a: "player_queue_command c1 q = Inr qa" "cq_head qa = Some (cq_next_address q)"
    "cq_tail qa = Some (cq_next_address q)"
    "cq_cells qa (cq_next_address q) = Some \<lparr>ce_next = None, ce_command = c1\<rparr>"
    "\<forall>a. cq_cells qa a \<noteq> None \<longrightarrow> a < cq_next_address qa"
    using queue_one [OF assms] by blast
  obtain qb where b: "player_queue_command c2 qa = Inr qb" "second_lost qb (cq_next_address q) (cq_next_address qa) c2"
    using queue_two [OF a(2-5)] by blast
  obtain q1 where 1: "queue_all cs qb = Inr q1" "second_lost q1 (cq_next_address q) (cq_next_address qa) c2"
    using queue_all_more [OF b(2)] by blast
  have "0 < cq_next_address q1" "cq_head q1 = Some (cq_next_address qa)"
    "cq_cells q1 (cq_next_address qa) = Some \<lparr>ce_next = None, ce_command = c2\<rparr>"
    using 1(2) by (auto simp: second_lost_def)
  from read_single [OF this(2,3,1), of note_command "[]"]
  have "process_commands note_command q1 [] = Inr (pop_command \<lparr>ce_next = None, ce_command = c2\<rparr> q1, [c2])"
    by (simp add: process_commands_def note_command_def)
  moreover have "queue_all (c1 # c2 # cs) q = Inr q1" using a(1) b(1) 1(1) by (simp add: queue_all_def)
  ultimately show ?thesis by blast
qed

theorem only_second_command_arrives_witness:
  "\<exists>q1 q2. queue_all [CMD_STOP, CMD_PLAY, CMD_SKIP] no_commands = Inr q1 \<and>
     process_commands note_command q1 [] = Inr (q2, [CMD_PLAY])"
  using only_second_command_arrives [of no_commands CMD_STOP CMD_PLAY "[CMD_SKIP]"]
  by (auto simp: queue_clear_def no_commands_def)

end
