(* ===== verification/Playback.thy ===== *)
theory Playback
  imports Playlist Player_Commands
begin

text \<open>
  The two threads of \<open>src/src/player.c\<close> that play songs: \<open>frame_decoder()\<close>, which
  fills the frame buffer, and \<open>player()\<close>, which handles commands, takes songs from
  the playlist and frames from the buffer.  What the threads share is one
  record; a step of the model is one stretch of a thread between the points
  where it takes its locks or waits, and the steps of the threads interleave.

  The decoder libraries and the sound device are outside: a decoder is a number,
  the frame it returns is an argument of the step, and the frames given to the
  sound device are collected.  The calls into the spectrum analyser
  (\<open>spectrum_reset()\<close>, \<open>spectrum_update()\<close>) change nothing here and are left out.
\<close>

section \<open>Silence\<close>

record frame_data =
  fd_pcm_data :: "int list"
  fd_pcm_size :: int
  fd_position :: int

text \<open>
  The loop of \<open>detect_silence()\<close> over the bytes of a frame, from index \<open>i\<close>;
  \<open>silence_duration\<close> is an \<open>unsigned int\<close>.
\<close>

fun silence_scan :: "int \<Rightarrow> int \<Rightarrow> int \<Rightarrow> int \<Rightarrow> int list \<Rightarrow> 32 word \<Rightarrow> 32 word" where
  "silence_scan threshold len i zero_count [] d = d"
| "silence_scan threshold len i zero_count (x # xs) d =
     (if x = 0 then
        (if zero_count + 1 \<ge> threshold then d + word_of_int len
         else silence_scan threshold len (i + 1) (zero_count + 1) xs d)
      else if threshold - zero_count \<ge> len - i then 0
      else silence_scan threshold len (i + 1) zero_count xs d)"

definition detect_silence :: "frame_data \<Rightarrow> 32 word \<Rightarrow> bool \<times> 32 word" where
  "detect_silence f d =
     (let threshold = fd_pcm_size f * 30 div 100;
          d' = silence_scan threshold (fd_pcm_size f) 0 0 (take (nat (fd_pcm_size f)) (fd_pcm_data f)) d in
      (d' > 176400, d'))"

section \<open>The shared state\<close>

definition PLAYER_MAX_BUFFER_SIZE :: nat where
  "PLAYER_MAX_BUFFER_SIZE = 2048"

definition PLAYER_MAX_BUFFER_PCM_SIZE :: int where
  "PLAYER_MAX_BUFFER_PCM_SIZE = 1024 * 1024"

text \<open>\<open>frames[0..size-1]\<close> is the list; the decoder's function, data and close function go together.\<close>

record frame_buffer =
  fb_frames :: "frame_data list"
  fb_pcm_size :: int
  fb_song_eof :: bool
  fb_new_file :: bool
  fb_decoder :: "nat option"

datatype decoder_phase = Decoding | Committing | Waiting

record decoder_thread =
  dt_decoder :: "nat option"
  dt_new_frame :: "frame_data option"
  dt_phase :: decoder_phase

datatype player_state = STATE_PLAY | STATE_PAUSE | STATE_STOP | STATE_BIG_STOP
datatype play_state = STATE_BEFORE_SONG | STATE_IN_SONG | STATE_AFTER_SONG

text \<open>
  \<open>p_decoders\<close> are the decoders that are open, \<open>p_next_decoder\<close> the next number.
  \<open>p_keeps_locks\<close>: the player thread has gone back to its loop without
  releasing \<open>player_info.lock\<close> and \<open>frame_buffer.lock\<close>.  \<open>p_checked\<close>: in this turn of
  its loop the player has read the commands and goes on to its body.  \<open>p_waits_data\<close>: it waits for \<open>frame_buffer.new_data\<close>,
  which the decoder thread broadcasts when it puts a frame into an empty buffer
  (a wait does not end by itself).
\<close>

record player =
  p_world :: world
  p_commands :: command_queue
  p_state :: player_state
  p_song :: "nat option"
  p_position :: int
  p_play_state :: play_state
  p_cur_song :: "nat option"
  p_silence :: "32 word"
  p_device_open :: bool
  p_sound :: "frame_data list"
  p_buffer :: frame_buffer
  p_decoder :: decoder_thread
  p_decoders :: "nat list"
  p_next_decoder :: nat
  p_keeps_locks :: bool
  p_checked :: bool
  p_waits_data :: bool

section \<open>The decoder thread\<close>

definition close_decoder :: "player \<Rightarrow> player result" where
  "close_decoder p =
     (case dt_decoder (p_decoder p) of
        None \<Rightarrow> Inr p
      | Some d \<Rightarrow>
        if d \<in> set (p_decoders p)
        then Inr (p\<lparr>p_decoders := removeAll d (p_decoders p),
                    p_decoder := (p_decoder p)\<lparr>dt_decoder := None\<rparr>,
                    p_buffer := (p_buffer p)\<lparr>fb_song_eof := False\<rparr>\<rparr>)
        else Inl Use_After_Free)"

definition store_frame :: "frame_data \<Rightarrow> player \<Rightarrow> player result" where
  "store_frame f p =
     (let fb = p_buffer p in
      if length (fb_frames fb) < PLAYER_MAX_BUFFER_SIZE
      then Inr (p\<lparr>p_buffer := fb\<lparr>fb_frames := fb_frames fb @ [f]\<rparr>,
                  p_decoder := (p_decoder p)\<lparr>dt_new_frame := None\<rparr>,
                  p_waits_data := p_waits_data p \<and> fb_frames fb \<noteq> []\<rparr>)
      else Inl Out_Of_Bounds)"

text \<open>The stretch of \<open>frame_decoder()\<close> under the lock, up to the wait.\<close>

definition decoder_commit :: "player \<Rightarrow> player result" where
  "decoder_commit p =
     and_then (if fb_song_eof (p_buffer p) then close_decoder p else Inr p) (\<lambda>p.
     and_then
       (case dt_new_frame (p_decoder p) of
          None \<Rightarrow> Inr p
        | Some f \<Rightarrow>
          and_then (if fd_pcm_size f = 0 \<or> fd_pcm_size f \<le> -2 then close_decoder p
                    else Inr (p\<lparr>p_buffer := (p_buffer p)\<lparr>fb_pcm_size := fb_pcm_size (p_buffer p) + fd_pcm_size f\<rparr>\<rparr>))
            (store_frame f)) (\<lambda>p.
     let p = (if fb_new_file (p_buffer p)
              then p\<lparr>p_buffer := (p_buffer p)\<lparr>fb_new_file := False\<rparr>,
                     p_decoder := (p_decoder p)\<lparr>dt_decoder := fb_decoder (p_buffer p)\<rparr>\<rparr>
              else p) in
     Inr (p\<lparr>p_decoder := (p_decoder p)\<lparr>dt_phase := Waiting\<rparr>\<rparr>)))"

definition decoder_may_go_on :: "player \<Rightarrow> bool" where
  "decoder_may_go_on p \<longleftrightarrow> length (fb_frames (p_buffer p)) < PLAYER_MAX_BUFFER_SIZE \<and>
     fb_pcm_size (p_buffer p) < PLAYER_MAX_BUFFER_PCM_SIZE \<and>
     (dt_decoder (p_decoder p) \<noteq> None \<or> fb_new_file (p_buffer p))"

section \<open>Commands\<close>

definition drop_frames :: "player \<Rightarrow> player" where
  "drop_frames p = p\<lparr>p_buffer := (p_buffer p)\<lparr>fb_frames := [], fb_pcm_size := 0\<rparr>\<rparr>"

definition player_feedback :: "config \<Rightarrow> int \<Rightarrow> player \<Rightarrow> player result" where
  "player_feedback cfg direction p =
     map_result (\<lambda>(db, fs). p\<lparr>p_world := (p_world p)\<lparr>w_db := db, w_fs := fs\<rparr>\<rparr>)
       (feedback cfg (p_cur_song p) direction (w_db (p_world p)) (w_fs (p_world p)))"

definition handle_command :: "config \<Rightarrow> player_command \<Rightarrow> player \<Rightarrow> player result" where
  "handle_command cfg c p =
     (case c of
        CMD_SKIP \<Rightarrow>
          (let p = drop_frames p;
               p = p\<lparr>p_buffer := (p_buffer p)\<lparr>fb_song_eof := True\<rparr>,
                     p_play_state := (if p_play_state p = STATE_IN_SONG then STATE_AFTER_SONG else p_play_state p)\<rparr> in
           player_feedback cfg (- 1) p)
      | CMD_STOP \<Rightarrow>
          (let p = (drop_frames p)\<lparr>p_state := STATE_STOP\<rparr> in
           if p_play_state p = STATE_IN_SONG
           then (case fb_decoder (p_buffer p) of
                   None \<Rightarrow> Inl Null_Deref
                 | Some d \<Rightarrow> if d \<in> set (p_decoders p) then Inr (p\<lparr>p_position := 0\<rparr>) else Inl Use_After_Free)
           else Inr p)
      | CMD_PAUSE \<Rightarrow> Inr (p\<lparr>p_state := STATE_PAUSE\<rparr>)
      | CMD_PLAY \<Rightarrow> Inr (p\<lparr>p_state := STATE_PLAY\<rparr>)
      | CMD_NOOP \<Rightarrow> Inr p)"

definition player_read_commands :: "config \<Rightarrow> player \<Rightarrow> player result" where
  "player_read_commands cfg p =
     map_result (\<lambda>(q, p). p\<lparr>p_commands := q\<rparr>) (process_commands (handle_command cfg) (p_commands p) p)"

section \<open>The player thread\<close>

definition player_waits :: "player \<Rightarrow> bool" where
  "player_waits p \<longleftrightarrow> p_state p = STATE_BIG_STOP \<or> p_play_state p = STATE_IN_SONG \<and> p_state p \<noteq> STATE_PLAY"

text \<open>\<open>STATE_BEFORE_SONG\<close>; \<open>opens\<close> tells which files a decoder can open.\<close>

definition begin_song :: "(string \<Rightarrow> bool) \<Rightarrow> player \<Rightarrow> player option result" where
  "begin_song opens p =
     (if p_keeps_locks p \<or> q_size (song_queue (w_queues (p_world p))) \<le> 0 then Inr None
      else
        and_then (get_next_song_info (w_queues (p_world p))) (\<lambda>((song, start), q).
        let pos = (case start of None \<Rightarrow> 0 | Some n \<Rightarrow> n);
            p = p\<lparr>p_world := (p_world p)\<lparr>w_queues := q\<rparr>, p_cur_song := song, p_song := song, p_position := pos\<rparr> in
        case song of
          None \<Rightarrow> Inl Null_Deref
        | Some i \<Rightarrow>
          and_then (read_at (songs (w_db (p_world p))) (int i)) (\<lambda>s.
          case song_type s of
            None \<Rightarrow> Inl Out_Of_Bounds
          | Some t \<Rightarrow>
            if t = TYPE_UNKNOWN then Inr (Some (p\<lparr>p_keeps_locks := True\<rparr>))
            else if \<not> opens (basename s BASENAME_SONG @ ''/'' @ filename s) then Inl Squash_Error
            else
              (let d = p_next_decoder p in
               Inr (Some ((drop_frames p)
                 \<lparr>p_buffer := (p_buffer (drop_frames p))\<lparr>fb_decoder := Some d, fb_new_file := True\<rparr>,
                  p_decoders := d # p_decoders p, p_next_decoder := d + 1,
                  p_silence := 0, p_device_open := True, p_play_state := STATE_IN_SONG\<rparr>)))))) "

text \<open>\<open>STATE_IN_SONG\<close>: the first frame of the buffer, if there is one.\<close>

definition play_frame :: "config \<Rightarrow> player \<Rightarrow> player option result" where
  "play_frame cfg p =
     (case fb_frames (p_buffer p) of
        [] \<Rightarrow> Inr (Some (p\<lparr>p_waits_data := True\<rparr>))
      | f # fs \<Rightarrow>
        (let p = p\<lparr>p_buffer := (p_buffer p)\<lparr>fb_frames := fs, fb_pcm_size := fb_pcm_size (p_buffer p) - fd_pcm_size f\<rparr>\<rparr> in
         if fd_pcm_size f = 0 \<or> fd_pcm_size f \<le> -2
         then map_result (\<lambda>p. Some (p\<lparr>p_play_state := STATE_AFTER_SONG\<rparr>)) (player_feedback cfg 1 p)
         else if fd_pcm_size f = -1 then Inr (Some p)
         else (case detect_silence f (p_silence p) of (silent, d) \<Rightarrow>
           Inr (Some (p\<lparr>p_position := fd_position f, p_silence := d,
                        p_sound := (if silent then p_sound p else p_sound p @ [f])\<rparr>)))))"

text \<open>\<open>STATE_AFTER_SONG\<close>.\<close>

definition end_song :: "player \<Rightarrow> player option result" where
  "end_song p =
     map_result (\<lambda>q. Some (p\<lparr>p_world := (p_world p)\<lparr>w_queues := q\<rparr>, p_device_open := False,
                              p_play_state := STATE_BEFORE_SONG\<rparr>))
       (done_with_song_info (p_cur_song p) (w_queues (p_world p)))"

definition player_body :: "config \<Rightarrow> (string \<Rightarrow> bool) \<Rightarrow> player \<Rightarrow> player option result" where
  "player_body cfg opens p =
     (case p_play_state p of
        STATE_BEFORE_SONG \<Rightarrow> begin_song opens p
      | STATE_IN_SONG \<Rightarrow> play_frame cfg p
      | STATE_AFTER_SONG \<Rightarrow> end_song p)"

text \<open>
  The top of the loop: the commands, if there are any, and the decision to wait for
  the next one or to go on.
\<close>

definition player_top :: "config \<Rightarrow> player \<Rightarrow> player result" where
  "player_top cfg p =
     map_result (\<lambda>p. p\<lparr>p_checked := \<not> player_waits p\<rparr>)
       (if cq_head (p_commands p) = None then Inr p else player_read_commands cfg p)"

section \<open>Interleaving\<close>

text \<open>
  A command queued by an input thread, the top of the player's loop, its body, and the three stretches of the decoder
  thread.  \<open>None\<close> is a step that cannot be made in this state.
\<close>

datatype event =
    Queue_Command player_command
  | Read_Commands
  | Body
  | Decode "frame_data option"
  | Commit
  | Wake

fun playback :: "config \<Rightarrow> (string \<Rightarrow> bool) \<Rightarrow> event \<Rightarrow> player \<Rightarrow> player option result" where
  "playback cfg opens (Queue_Command c) p =
     map_result (\<lambda>q. Some (p\<lparr>p_commands := q\<rparr>)) (player_queue_command c (p_commands p))"
| "playback cfg opens Read_Commands p =
     (if p_checked p \<or> p_waits_data p \<or> p_keeps_locks p \<and> cq_head (p_commands p) \<noteq> None then Inr None
      else map_result Some (player_top cfg p))"
| "playback cfg opens Body p =
     (if p_checked p \<and> \<not> p_waits_data p then map_result (map_option (\<lambda>p. p\<lparr>p_checked := False\<rparr>)) (player_body cfg opens p)
      else Inr None)"
| "playback cfg opens (Decode f) p =
     (if dt_phase (p_decoder p) = Decoding \<and> (dt_decoder (p_decoder p) = None \<longleftrightarrow> f = None)
      then Inr (Some (p\<lparr>p_decoder := (p_decoder p)\<lparr>dt_new_frame := f, dt_phase := Committing\<rparr>\<rparr>))
      else Inr None)"
| "playback cfg opens Commit p =
     (if dt_phase (p_decoder p) = Committing \<and> \<not> p_keeps_locks p
      then map_result Some (decoder_commit p) else Inr None)"
| "playback cfg opens Wake p =
     (if dt_phase (p_decoder p) = Waiting \<and> \<not> p_keeps_locks p \<and> decoder_may_go_on p
      then Inr (Some (p\<lparr>p_decoder := (p_decoder p)\<lparr>dt_phase := Decoding\<rparr>\<rparr>)) else Inr None)"

inductive playback_run :: "config \<Rightarrow> (string \<Rightarrow> bool) \<Rightarrow> player \<Rightarrow> event list \<Rightarrow> player \<Rightarrow> bool"
  for cfg opens where
  stop: "playback_run cfg opens p [] p"
| more: "playback cfg opens e p = Inr (Some q) \<Longrightarrow> playback_run cfg opens q es r \<Longrightarrow>
     playback_run cfg opens p (e # es) r"

inductive_cases playback_runE: "playback_run cfg opens p es q"

end
