(* ===== verification/Playback_Correct.thy ===== *)
theory Playback_Correct
  imports Playback
begin

text \<open>
  What the two playback threads guarantee, and where they fail: silence
  detection against counting zeros, the bounds of the frame buffer and the life
  of decoders in every interleaving, the order in which frames reach the sound
  device, and the states in which the player hangs.
\<close>

section \<open>Silence\<close>

definition zeros :: "int list \<Rightarrow> int" where
  "zeros xs = int (length (filter (\<lambda>x. x = 0) xs))"

lemma zeros_simps [simp]:
  "zeros [] = 0" "zeros (x # xs) = (if x = 0 then 1 else 0) + zeros xs"
  by (simp_all add: zeros_def)

lemma zeros_bounds: "0 \<le> zeros xs" "zeros xs \<le> int (length xs)"
  by (simp_all add: zeros_def)

lemma zeros_all: "(\<forall>x \<in> set xs. x = 0) \<Longrightarrow> zeros xs = int (length xs)"
  by (induction xs) auto

text \<open>The loop from the middle of the frame, with fewer zeros than needed so far.\<close>

lemma silence_scan_counts:
  assumes "len - i = int (length xs)" and "zc < threshold"
  shows "silence_scan threshold len i zc xs d =
    (if threshold \<le> zc + zeros xs then d + word_of_int len
     else if \<forall>x \<in> set xs. x = 0 then d else 0)"
  using assms
proof (induction xs arbitrary: i zc)
  case Nil
  then show ?case by simp
next
  case (Cons x xs)
  have len: "len - (i + 1) = int (length xs)" using Cons.prems(1) by simp
  note z = zeros_bounds [of xs]
  show ?case
  proof (cases "x = 0")
    case True
    then show ?thesis using Cons.IH [OF len, of "zc + 1"] z Cons.prems(2) by auto
  next
    case False
    then show ?thesis
      using Cons.IH [OF len Cons.prems(2)] z zeros_all [of xs] len Cons.prems(2)
      by (auto simp: algebra_simps)
  qed
qed

text \<open>\<open>detect_silence()\<close> decides by counting: for a frame of at least four bytes the
  early exits of its loop make no difference, and the silence counter grows by
  the frame's size (as an unsigned 32-bit number) exactly when at least 30 percent
  of the bytes, rounded down, are zero, and is reset otherwise.\<close>

theorem detect_silence_counts:
  assumes "fd_pcm_size f = int (length (fd_pcm_data f))" and "4 \<le> fd_pcm_size f"
  shows "detect_silence f d =
    (let d' = (if fd_pcm_size f * 30 div 100 \<le> zeros (fd_pcm_data f)
               then d + word_of_int (fd_pcm_size f) else 0) in (d' > 176400, d'))"
proof -
  let ?n = "fd_pcm_size f" and ?xs = "fd_pcm_data f"
  have "100 \<le> ?n * 30" using assms(2) by simp
  then have t: "0 < ?n * 30 div 100" by (simp add: pos_imp_zdiv_pos_iff)
  have "?n * 30 div 100 \<le> ?n" 
  proof -
    have "?n * 30 div 100 \<le> ?n * 100 div 100" using assms(2) by (intro zdiv_mono1) auto
    then show ?thesis by simp
  qed
  then have "\<not> (\<forall>x \<in> set ?xs. x = 0)" if "\<not> ?n * 30 div 100 \<le> zeros ?xs"
    using that zeros_all [of ?xs] assms(1) by auto
  then show ?thesis
    using silence_scan_counts [of ?n 0 ?xs 0 "?n * 30 div 100" d] assms(1) t
    by (auto simp: detect_silence_def Let_def)
qed

theorem detect_silence_counts_witness:
  "detect_silence \<lparr>fd_pcm_data = [0, 0, 5, 7, 7, 7, 7, 7], fd_pcm_size = 8, fd_position = 0\<rparr> 176395 = (True, 176403)"
  using detect_silence_counts [of "\<lparr>fd_pcm_data = [0, 0, 5, 7, 7, 7, 7, 7], fd_pcm_size = 8, fd_position = 0\<rparr>" 176395]
  by (simp add: Let_def)

section \<open>The frame buffer and the decoders\<close>

text \<open>
  The buffer is within its array, with room for one more frame whenever the
  decoder thread is not waiting; the decoder it uses is open, and one handed
  over is open and a different one.
\<close>

definition buffer_ok :: "player \<Rightarrow> bool" where
  "buffer_ok p \<longleftrightarrow> length (fb_frames (p_buffer p)) \<le> PLAYER_MAX_BUFFER_SIZE \<and>
     (dt_phase (p_decoder p) \<noteq> Waiting \<longrightarrow> length (fb_frames (p_buffer p)) < PLAYER_MAX_BUFFER_SIZE) \<and>
     (\<forall>d. dt_decoder (p_decoder p) = Some d \<longrightarrow> d \<in> set (p_decoders p)) \<and>
     (fb_new_file (p_buffer p) \<longrightarrow>
        (\<exists>d. fb_decoder (p_buffer p) = Some d \<and> d \<in> set (p_decoders p) \<and> dt_decoder (p_decoder p) \<noteq> Some d)) \<and>
     (\<forall>d \<in> set (p_decoders p). d < p_next_decoder p)"

text \<open>What the commands and the player's own steps may change of that.\<close>

definition buffer_shrinks :: "player \<Rightarrow> player \<Rightarrow> bool" where
  "buffer_shrinks p q \<longleftrightarrow> length (fb_frames (p_buffer q)) \<le> length (fb_frames (p_buffer p)) \<and>
     p_decoder q = p_decoder p \<and> fb_new_file (p_buffer q) = fb_new_file (p_buffer p) \<and>
     fb_decoder (p_buffer q) = fb_decoder (p_buffer p) \<and> p_decoders q = p_decoders p \<and>
     p_next_decoder q = p_next_decoder p"

lemma buffer_shrinks_refl [simp]: "buffer_shrinks p p"
  by (simp add: buffer_shrinks_def)

lemma buffer_shrinks_trans: "buffer_shrinks p q \<Longrightarrow> buffer_shrinks q r \<Longrightarrow> buffer_shrinks p r"
  by (simp add: buffer_shrinks_def)

lemma buffer_shrinks_ok: "buffer_shrinks p q \<Longrightarrow> buffer_ok p \<Longrightarrow> buffer_ok q"
  by (auto simp: buffer_shrinks_def buffer_ok_def)

lemma drop_frames_fields [simp]:
  "fb_frames (p_buffer (drop_frames p)) = []" "fb_pcm_size (p_buffer (drop_frames p)) = 0" "p_decoder (drop_frames p) = p_decoder p"
  "fb_new_file (p_buffer (drop_frames p)) = fb_new_file (p_buffer p)"
  "fb_decoder (p_buffer (drop_frames p)) = fb_decoder (p_buffer p)" "p_decoders (drop_frames p) = p_decoders p"
  "p_next_decoder (drop_frames p) = p_next_decoder p" "p_cur_song (drop_frames p) = p_cur_song p"
  "p_world (drop_frames p) = p_world p" "p_play_state (drop_frames p) = p_play_state p"
  "p_sound (drop_frames p) = p_sound p" "p_keeps_locks (drop_frames p) = p_keeps_locks p"
  "p_waits_data (drop_frames p) = p_waits_data p" "p_checked (drop_frames p) = p_checked p"
  "p_state (drop_frames p) = p_state p" "p_commands (drop_frames p) = p_commands p"
  by (simp_all add: drop_frames_def)

lemma player_feedback_world: "player_feedback cfg n p = Inr q \<Longrightarrow> \<exists>w. q = p\<lparr>p_world := w\<rparr>"
  by (auto simp: player_feedback_def)

lemma handle_command_shrinks:
  assumes "handle_command cfg c p = Inr q"
  shows "buffer_shrinks p q"
  using assms
  by (cases c)
    (auto simp: handle_command_def Let_def buffer_shrinks_def split: if_splits option.splits
      dest!: player_feedback_world)

lemma player_top_shrinks:
  assumes "player_top cfg p = Inr q"
  shows "buffer_shrinks p q"
proof -
  obtain p1 where p1: "(if cq_head (p_commands p) = None then Inr p else player_read_commands cfg p) = Inr p1"
    and q: "q = p1\<lparr>p_checked := \<not> player_waits p1\<rparr>" using assms by (auto simp: player_top_def)
  have "buffer_shrinks p p1"
  proof (cases "cq_head (p_commands p) = None")
    case True
    then show ?thesis using p1 by simp
  next
    case False
    then obtain cs p2 where run: "read_commands (cq_next_address (p_commands p)) (handle_command cfg) (p_commands p) p = Inr (cs, p2)"
      and p1': "p1 = p2\<lparr>p_commands := cs\<rparr>" using p1 by (auto simp: player_read_commands_def process_commands_def)
    have "buffer_shrinks p p2"
      by (rule read_commands_invariant [OF run, of "buffer_shrinks p"])
        (auto intro: buffer_shrinks_trans handle_command_shrinks)
    then show ?thesis by (simp add: p1' buffer_shrinks_def)
  qed
  then show ?thesis by (simp add: q buffer_shrinks_def)
qed

text \<open>One step of any thread keeps the invariant.\<close>

lemma close_decoder_ok:
  assumes "buffer_ok p"
  shows "\<exists>q. close_decoder p = Inr q \<and> buffer_ok q \<and> dt_phase (p_decoder q) = dt_phase (p_decoder p) \<and>
    fb_frames (p_buffer q) = fb_frames (p_buffer p) \<and> dt_new_frame (p_decoder q) = dt_new_frame (p_decoder p)"
proof (cases "dt_decoder (p_decoder p)")
  case None
  then show ?thesis using assms by (simp add: close_decoder_def)
next
  case (Some d)
  then have "d \<in> set (p_decoders p)" using assms by (simp add: buffer_ok_def)
  then show ?thesis using assms Some by (auto simp: close_decoder_def buffer_ok_def)
qed

lemma decoder_commit_ok:
  assumes "buffer_ok p" and "dt_phase (p_decoder p) \<noteq> Waiting"
  shows "\<exists>q. decoder_commit p = Inr q \<and> buffer_ok q"
proof -
  obtain p1 where p1: "(if fb_song_eof (p_buffer p) then close_decoder p else Inr p) = Inr p1" "buffer_ok p1"
    "dt_phase (p_decoder p1) \<noteq> Waiting" "dt_new_frame (p_decoder p1) = dt_new_frame (p_decoder p)"
    using close_decoder_ok [OF assms(1)] assms by (cases "fb_song_eof (p_buffer p)") auto
  have "\<exists>p2. (case dt_new_frame (p_decoder p1) of
          None \<Rightarrow> Inr p1
        | Some f \<Rightarrow>
          and_then (if fd_pcm_size f = 0 \<or> fd_pcm_size f \<le> -2 then close_decoder p1
                    else Inr (p1\<lparr>p_buffer := (p_buffer p1)\<lparr>fb_pcm_size := fb_pcm_size (p_buffer p1) + fd_pcm_size f\<rparr>\<rparr>))
            (store_frame f)) = Inr p2 \<and>
      buffer_ok (p2\<lparr>p_decoder := (p_decoder p2)\<lparr>dt_phase := Waiting\<rparr>\<rparr>)"
  proof (cases "dt_new_frame (p_decoder p1)")
    case None
    then show ?thesis using p1 by (simp add: buffer_ok_def)
  next
    case (Some f)
    obtain p2 where p2: "(if fd_pcm_size f = 0 \<or> fd_pcm_size f \<le> -2 then close_decoder p1
        else Inr (p1\<lparr>p_buffer := (p_buffer p1)\<lparr>fb_pcm_size := fb_pcm_size (p_buffer p1) + fd_pcm_size f\<rparr>\<rparr>)) = Inr p2"
      "buffer_ok p2" "dt_phase (p_decoder p2) \<noteq> Waiting"
    proof (cases "fd_pcm_size f = 0 \<or> fd_pcm_size f \<le> -2")
      case True
      obtain p3 where "close_decoder p1 = Inr p3" "buffer_ok p3" "dt_phase (p_decoder p3) = dt_phase (p_decoder p1)"
        using close_decoder_ok [OF p1(2)] by blast
      then show ?thesis using that [of p3] p1(3) True by simp
    next
      case False
      then show ?thesis using that p1(2,3) by (simp add: buffer_ok_def)
    qed
    then have "length (fb_frames (p_buffer p2)) < PLAYER_MAX_BUFFER_SIZE" by (simp add: buffer_ok_def)
    then show ?thesis
      unfolding Some option.case p2(1) and_then_simps using p2(2)
      by (simp add: store_frame_def Let_def buffer_ok_def)
  qed
  then obtain p2 where p2: "(case dt_new_frame (p_decoder p1) of
          None \<Rightarrow> Inr p1
        | Some f \<Rightarrow>
          and_then (if fd_pcm_size f = 0 \<or> fd_pcm_size f \<le> -2 then close_decoder p1
                    else Inr (p1\<lparr>p_buffer := (p_buffer p1)\<lparr>fb_pcm_size := fb_pcm_size (p_buffer p1) + fd_pcm_size f\<rparr>\<rparr>))
            (store_frame f)) = Inr p2"
      "buffer_ok (p2\<lparr>p_decoder := (p_decoder p2)\<lparr>dt_phase := Waiting\<rparr>\<rparr>)" by blast
  then show ?thesis
    using p1(1) by (auto simp: decoder_commit_def Let_def buffer_ok_def)
qed

lemma begin_song_cases:
  assumes "begin_song opens p = Inr (Some q)"
  obtains (unknown) w i n where "q = p\<lparr>p_world := w, p_cur_song := Some i, p_song := Some i, p_position := n, p_keeps_locks := True\<rparr>"
      "\<not> p_keeps_locks p"
  | (song) w i n where "q = (drop_frames p)\<lparr>p_world := w, p_cur_song := Some i, p_song := Some i, p_position := n,
        p_buffer := (p_buffer (drop_frames p))\<lparr>fb_decoder := Some (p_next_decoder p), fb_new_file := True\<rparr>,
        p_decoders := p_next_decoder p # p_decoders p, p_next_decoder := p_next_decoder p + 1,
        p_silence := 0, p_device_open := True, p_play_state := STATE_IN_SONG\<rparr>"
proof -
  obtain song start qs where free: "\<not> p_keeps_locks p"
    and next_song: "get_next_song_info (w_queues (p_world p)) = Inr ((song, start), qs)"
    using assms by (auto simp: begin_song_def split: if_splits)
  define w where "w = (p_world p)\<lparr>w_queues := qs\<rparr>"
  define pos where "pos = (case start of None \<Rightarrow> 0 | Some n \<Rightarrow> n)"
  obtain i where i: "song = Some i"
    using assms next_song by (cases song) (auto simp: begin_song_def Let_def split: if_splits)
  obtain s where s: "read_at (songs (w_db w)) (int i) = Inr s"
    using assms next_song i by (auto simp: begin_song_def Let_def w_def split: if_splits)
  obtain t where t: "song_type s = Some t"
    using assms next_song i s by (cases "song_type s") (auto simp: begin_song_def Let_def w_def split: if_splits)
  show ?thesis
  proof (cases "t = TYPE_UNKNOWN")
    case True
    have "q = p\<lparr>p_world := w, p_cur_song := Some i, p_song := Some i, p_position := pos, p_keeps_locks := True\<rparr>"
      using assms next_song i s t True by (simp add: begin_song_def Let_def w_def pos_def split: if_splits)
    from unknown [OF this free] show ?thesis .
  next
    case False
    show ?thesis
      by (rule song [where w = w and i = i and n = pos])
        (use assms next_song i s t False in
          \<open>simp add: begin_song_def Let_def w_def pos_def drop_frames_def split: if_splits\<close>)
  qed
qed

lemma buffer_ok_upd [simp]:
  "buffer_ok (p\<lparr>p_world := w\<rparr>) = buffer_ok p" "buffer_ok (p\<lparr>p_checked := b\<rparr>) = buffer_ok p"
  "buffer_ok (p\<lparr>p_waits_data := b\<rparr>) = buffer_ok p" "buffer_ok (p\<lparr>p_commands := cs\<rparr>) = buffer_ok p"
  "buffer_ok (p\<lparr>p_play_state := ps\<rparr>) = buffer_ok p" "buffer_ok (p\<lparr>p_keeps_locks := b\<rparr>) = buffer_ok p"
  "buffer_ok (p\<lparr>p_position := n\<rparr>) = buffer_ok p" "buffer_ok (p\<lparr>p_silence := d\<rparr>) = buffer_ok p"
  "buffer_ok (p\<lparr>p_sound := fs\<rparr>) = buffer_ok p" "buffer_ok (p\<lparr>p_cur_song := i\<rparr>) = buffer_ok p"
  "buffer_ok (p\<lparr>p_song := i\<rparr>) = buffer_ok p" "buffer_ok (p\<lparr>p_device_open := b\<rparr>) = buffer_ok p"
  by (simp_all add: buffer_ok_def)

lemma begin_song_ok:
  assumes "begin_song opens p = Inr (Some q)" and "buffer_ok p"
  shows "buffer_ok q"
  using assms(1)
proof (cases rule: begin_song_cases)
  case (unknown w i n)
  then show ?thesis using assms(2) by simp
next
  case (song w i n)
  have "dt_decoder (p_decoder p) \<noteq> Some (p_next_decoder p)" using assms(2) by (auto simp: buffer_ok_def)
  then show ?thesis
    using assms(2) unfolding song by (auto simp: buffer_ok_def PLAYER_MAX_BUFFER_SIZE_def intro: less_SucI)
qed

lemma play_frame_cases:
  assumes "play_frame cfg p = Inr (Some q)"
  obtains (wait) "fb_frames (p_buffer p) = []" "q = p\<lparr>p_waits_data := True\<rparr>"
  | (eof) f fs w where "fb_frames (p_buffer p) = f # fs" "fd_pcm_size f = 0 \<or> fd_pcm_size f \<le> -2"
      "q = p\<lparr>p_buffer := (p_buffer p)\<lparr>fb_frames := fs, fb_pcm_size := fb_pcm_size (p_buffer p) - fd_pcm_size f\<rparr>,
             p_world := w, p_play_state := STATE_AFTER_SONG\<rparr>"
  | (skipped) f fs where "fb_frames (p_buffer p) = f # fs" "fd_pcm_size f = -1"
      "q = p\<lparr>p_buffer := (p_buffer p)\<lparr>fb_frames := fs, fb_pcm_size := fb_pcm_size (p_buffer p) - fd_pcm_size f\<rparr>\<rparr>"
  | (played) f fs n d ss where "fb_frames (p_buffer p) = f # fs" "0 < fd_pcm_size f"
      "q = p\<lparr>p_buffer := (p_buffer p)\<lparr>fb_frames := fs, fb_pcm_size := fb_pcm_size (p_buffer p) - fd_pcm_size f\<rparr>,
             p_position := n, p_silence := d, p_sound := ss\<rparr>"
proof (cases "fb_frames (p_buffer p)")
  case Nil
  then show ?thesis using assms wait by (simp add: play_frame_def)
next
  case (Cons f fs)
  let ?p = "p\<lparr>p_buffer := (p_buffer p)\<lparr>fb_frames := fs, fb_pcm_size := fb_pcm_size (p_buffer p) - fd_pcm_size f\<rparr>\<rparr>"
  consider "fd_pcm_size f = 0 \<or> fd_pcm_size f \<le> -2" | "fd_pcm_size f = -1" | "0 < fd_pcm_size f" by linarith
  then show ?thesis
  proof cases
    case 1
    then obtain p1 where p1: "player_feedback cfg 1 ?p = Inr p1" "q = p1\<lparr>p_play_state := STATE_AFTER_SONG\<rparr>"
      using assms Cons by (auto simp: play_frame_def Let_def)
    obtain w where "p1 = ?p\<lparr>p_world := w\<rparr>" using player_feedback_world [OF p1(1)] by blast
    then show ?thesis using eof [OF Cons 1, of w] p1(2) by simp
  next
    case 2
    then show ?thesis using assms Cons by (intro skipped [OF Cons 2]) (simp add: play_frame_def Let_def)
  next
    case 3
    obtain silent d where sd: "detect_silence f (p_silence p) = (silent, d)"
      by (cases "detect_silence f (p_silence p)")
    have "play_frame cfg p = Inr (Some (?p\<lparr>p_position := fd_position f, p_silence := d,
        p_sound := (if silent then p_sound ?p else p_sound ?p @ [f])\<rparr>))"
      using Cons 3 sd by (simp add: play_frame_def Let_def cong: if_cong)
    then have "q = ?p\<lparr>p_position := fd_position f, p_silence := d,
        p_sound := (if silent then p_sound ?p else p_sound ?p @ [f])\<rparr>" using assms by (simp only: sum.inject option.inject)
    then show ?thesis by (rule played [OF Cons 3])
  qed
qed

lemma play_frame_ok:
  assumes "play_frame cfg p = Inr (Some q)" and "buffer_ok p"
  shows "buffer_ok q"
  using assms(1) by (cases rule: play_frame_cases) (use assms(2) in \<open>simp_all add: buffer_ok_def\<close>)

lemma playback_ok:
  assumes "playback cfg opens e p = Inr (Some q)" and "buffer_ok p"
  shows "buffer_ok q"
proof (cases e)
  case (Queue_Command c)
  then show ?thesis using assms by auto
next
  case Read_Commands
  then show ?thesis using assms by (auto split: if_splits intro: buffer_shrinks_ok [OF player_top_shrinks])
next
  case Body
  then obtain q1 where q1: "player_body cfg opens p = Inr (Some q1)" "q = q1\<lparr>p_checked := False\<rparr>"
    using assms(1) by (auto split: if_splits dest!: sym [of "Some q"])
  then have "buffer_ok q1"
    using assms(2) by (cases "p_play_state p")
      (auto simp: player_body_def end_song_def intro: begin_song_ok play_frame_ok)
  then show ?thesis by (simp add: q1)
next
  case (Decode f)
  then show ?thesis using assms by (auto simp: buffer_ok_def split: if_splits)
next
  case Commit
  then show ?thesis using assms decoder_commit_ok [OF assms(2)] by (auto split: if_splits)
next
  case Wake
  then show ?thesis using assms by (auto simp: buffer_ok_def decoder_may_go_on_def split: if_splits)
qed

lemma playback_run_ok:
  assumes "playback_run cfg opens p es q" and "buffer_ok p"
  shows "buffer_ok q"
  using assms by (induction rule: playback_run.induct) (auto dest: playback_ok)

text \<open>The threads as they start.\<close>

definition start_player :: "world \<Rightarrow> player" where
  "start_player w =
     \<lparr>p_world = w, p_commands = no_commands, p_state = STATE_BIG_STOP, p_song = None, p_position = 0,
      p_play_state = STATE_BEFORE_SONG, p_cur_song = None, p_silence = 0, p_device_open = False, p_sound = [],
      p_buffer = \<lparr>fb_frames = [], fb_pcm_size = 0, fb_song_eof = False, fb_new_file = False, fb_decoder = None\<rparr>,
      p_decoder = \<lparr>dt_decoder = None, dt_new_frame = None, dt_phase = Decoding\<rparr>,
      p_decoders = [], p_next_decoder = 0, p_keeps_locks = False, p_checked = False, p_waits_data = False\<rparr>"

lemma start_player_ok: "buffer_ok (start_player w)"
  by (simp add: buffer_ok_def start_player_def PLAYER_MAX_BUFFER_SIZE_def)

text \<open>C5. In every interleaving of the two threads and of commands, from the start, the
  frame buffer never holds more than its 2048 frames, and the decoder thread
  never faults: it does not store a frame outside the array and never closes a
  decoder that is not open.\<close>

theorem decoder_thread_safe:
  assumes "playback_run cfg opens (start_player w) es p"
  shows "length (fb_frames (p_buffer p)) \<le> PLAYER_MAX_BUFFER_SIZE \<and>
    returns (playback cfg opens Commit p) \<and> returns (playback cfg opens Wake p)"
proof -
  have ok: "buffer_ok p" by (rule playback_run_ok [OF assms start_player_ok])
  have "returns (playback cfg opens Commit p)"
    using decoder_commit_ok [OF ok] by (cases "dt_phase (p_decoder p) = Committing") auto
  then show ?thesis using ok by (simp add: buffer_ok_def)
qed

theorem decoder_thread_safe_witness:
  "\<exists>p. playback_run ex_config (\<lambda>_. True) (start_player ex_world) [Decode None, Commit] p \<and>
     length (fb_frames (p_buffer p)) \<le> PLAYER_MAX_BUFFER_SIZE"
proof -
  have "\<exists>p. playback_run ex_config (\<lambda>_. True) (start_player ex_world) [Decode None, Commit] p"
    by (intro exI, rule playback_run.more, simp add: start_player_def, rule playback_run.more)
      (simp add: decoder_commit_def Let_def, rule playback_run.stop)
  then obtain p where "playback_run ex_config (\<lambda>_. True) (start_player ex_world) [Decode None, Commit] p" ..
  with decoder_thread_safe [OF this] show ?thesis by blast
qed

section \<open>States from which the player does not come back\<close>

text \<open>
  The player waits for data, the decoder thread has no decoder, and no song has
  been handed to it.
\<close>

definition hung :: "player \<Rightarrow> bool" where
  "hung p \<longleftrightarrow> p_waits_data p \<and> dt_decoder (p_decoder p) = None \<and> dt_phase (p_decoder p) = Waiting \<and>
     \<not> fb_new_file (p_buffer p)"

lemma hung_step:
  assumes "playback cfg opens e p = Inr (Some q)" and "hung p"
  shows "\<exists>cs. q = p\<lparr>p_commands := cs\<rparr>"
  using assms by (cases e) (auto simp: hung_def decoder_may_go_on_def split: if_splits)

text \<open>A hung player stays hung: whatever happens, commands from the user included, no
  further frame reaches the sound device, no command is handled and no other song
  starts; only the queue of commands changes.\<close>

theorem hung_forever:
  assumes "playback_run cfg opens p es q" and "hung p"
  shows "hung q \<and> (\<exists>cs. q = p\<lparr>p_commands := cs\<rparr>)"
  using assms
proof (induction rule: playback_run.induct)
  case (stop p)
  then show ?case by (auto intro: exI [of _ "p_commands p"])
next
  case (more e p q es r)
  obtain cs where "q = p\<lparr>p_commands := cs\<rparr>" using hung_step [OF more.hyps(1) more.prems] by blast
  then show ?case using more.IH more.prems by (auto simp: hung_def)
qed

theorem hung_forever_witness:
  "\<exists>p q. hung p \<and> playback_run ex_config (\<lambda>_. True) p [Queue_Command CMD_SKIP] q \<and> hung q"
proof -
  define p where "p = (start_player ex_world)\<lparr>p_waits_data := True,
    p_decoder := \<lparr>dt_decoder = None, dt_new_frame = None, dt_phase = Waiting\<rparr>\<rparr>"
  have h: "hung p" by (simp add: hung_def p_def start_player_def)
  have "queue_clear (p_commands p)" by (simp add: p_def start_player_def queue_clear_def no_commands_def)
  then obtain cs where "player_queue_command CMD_SKIP (p_commands p) = Inr cs"
    using single_command [of "p_commands p" CMD_SKIP note_command "[]"] by blast
  then have run: "playback_run ex_config (\<lambda>_. True) p [Queue_Command CMD_SKIP] (p\<lparr>p_commands := cs\<rparr>)"
    by (intro playback_run.more [where q = "p\<lparr>p_commands := cs\<rparr>"] playback_run.stop) simp
  show ?thesis using h run hung_forever [OF run h] by blast
qed

definition decoder_idle :: "player \<Rightarrow> bool" where
  "decoder_idle p \<longleftrightarrow> dt_decoder (p_decoder p) = None \<and> dt_phase (p_decoder p) = Waiting \<and>
     dt_new_frame (p_decoder p) = None"

text \<open>The fields of the player thread that decoder steps leave alone.\<close>

definition same_player :: "player \<Rightarrow> player \<Rightarrow> bool" where
  "same_player p q \<longleftrightarrow> p_play_state q = p_play_state p \<and> p_state q = p_state p \<and> p_commands q = p_commands p \<and>
     p_checked q = p_checked p \<and> p_keeps_locks q = p_keeps_locks p \<and> (\<not> p_waits_data p \<longrightarrow> \<not> p_waits_data q)"

lemmas decoder_simps = close_decoder_def store_frame_def decoder_commit_def decoder_may_go_on_def Let_def
  PLAYER_MAX_BUFFER_SIZE_def PLAYER_MAX_BUFFER_PCM_SIZE_def

text \<open>
  A new song is handed to an idle decoder thread while \<open>song_eof\<close> is still set: the
  thread decodes one frame and closes the song.
\<close>

lemma stale_eof_closes_song:
  assumes "decoder_idle p" and "fb_new_file (p_buffer p)" and "fb_song_eof (p_buffer p)"
    and "fb_frames (p_buffer p) = []" and "fb_pcm_size (p_buffer p) = 0"
    and "fb_decoder (p_buffer p) = Some d" and "d \<in> set (p_decoders p)" and "\<not> p_keeps_locks p"
    and "0 < fd_pcm_size f"
  shows "\<exists>q. playback_run cfg opens p [Wake, Decode None, Commit, Wake, Decode (Some f), Commit] q \<and>
    decoder_idle q \<and> \<not> fb_new_file (p_buffer q) \<and> fb_frames (p_buffer q) = [f] \<and> same_player p q \<and>
    d \<notin> set (p_decoders q)"
proof -
  define p1 where "p1 = p\<lparr>p_decoder := (p_decoder p)\<lparr>dt_phase := Decoding\<rparr>\<rparr>"
  have s1: "playback cfg opens Wake p = Inr (Some p1)"
    using assms by (simp add: p1_def decoder_simps decoder_idle_def)
  define p2 where "p2 = p1\<lparr>p_decoder := (p_decoder p1)\<lparr>dt_new_frame := None, dt_phase := Committing\<rparr>\<rparr>"
  have s2: "playback cfg opens (Decode None) p1 = Inr (Some p2)"
    using assms by (simp add: p2_def p1_def decoder_idle_def)
  define p3 where "p3 = p2\<lparr>p_buffer := (p_buffer p2)\<lparr>fb_new_file := False\<rparr>,
    p_decoder := \<lparr>dt_decoder = Some d, dt_new_frame = None, dt_phase = Waiting\<rparr>\<rparr>"
  have s3: "playback cfg opens Commit p2 = Inr (Some p3)"
    using assms by (simp add: p3_def p2_def p1_def decoder_simps decoder_idle_def)
  define p4 where "p4 = p3\<lparr>p_decoder := (p_decoder p3)\<lparr>dt_phase := Decoding\<rparr>\<rparr>"
  have s4: "playback cfg opens Wake p3 = Inr (Some p4)"
    using assms by (simp add: p4_def p3_def p2_def p1_def decoder_simps)
  define p5 where "p5 = p4\<lparr>p_decoder := (p_decoder p4)\<lparr>dt_new_frame := Some f, dt_phase := Committing\<rparr>\<rparr>"
  have s5: "playback cfg opens (Decode (Some f)) p4 = Inr (Some p5)"
    using assms by (simp add: p5_def p4_def p3_def)
  have "\<exists>q. playback cfg opens Commit p5 = Inr (Some q) \<and>
    decoder_idle q \<and> \<not> fb_new_file (p_buffer q) \<and> fb_frames (p_buffer q) = [f] \<and> same_player p q \<and>
    d \<notin> set (p_decoders q)"
    using assms by (simp add: p5_def p4_def p3_def p2_def p1_def decoder_simps decoder_idle_def same_player_def)
  then obtain q where q: "playback cfg opens Commit p5 = Inr (Some q)" "decoder_idle q" "\<not> fb_new_file (p_buffer q)"
    "fb_frames (p_buffer q) = [f]" "same_player p q" "d \<notin> set (p_decoders q)" by blast
  have "playback_run cfg opens p [Wake, Decode None, Commit, Wake, Decode (Some f), Commit] q"
    by (rule playback_run.more [OF s1], rule playback_run.more [OF s2], rule playback_run.more [OF s3],
      rule playback_run.more [OF s4], rule playback_run.more [OF s5], rule playback_run.more [OF q(1)],
      rule playback_run.stop)
  with q show ?thesis by blast
qed


section \<open>The way of a frame\<close>

text \<open>The frame the decoder has returned and not yet stored.\<close>

definition pending :: "player \<Rightarrow> frame_data list" where
  "pending p = (case dt_new_frame (p_decoder p) of None \<Rightarrow> [] | Some f \<Rightarrow> [f])"

fun decoded :: "event list \<Rightarrow> frame_data list" where
  "decoded [] = []"
| "decoded (Decode (Some f) # es) = f # decoded es"
| "decoded (e # es) = decoded es"

text \<open>The frames that reach the sound device, with the silence counter at the end.\<close>

fun audible :: "32 word \<Rightarrow> frame_data list \<Rightarrow> frame_data list \<times> 32 word" where
  "audible d [] = ([], d)"
| "audible d (f # fs) =
     (if fd_pcm_size f \<le> 0 then audible d fs
      else (case detect_silence f d of (silent, d') \<Rightarrow>
        (case audible d' fs of (gs, d'') \<Rightarrow> (if silent then gs else f # gs, d''))))"

lemma audible_append:
  "audible d (xs @ ys) = (case audible d xs of (gs, d') \<Rightarrow> case audible d' ys of (hs, d'') \<Rightarrow> (gs @ hs, d''))"
  by (induction d xs rule: audible.induct) (auto split: prod.splits)

definition eof_frame :: "frame_data \<Rightarrow> bool" where
  "eof_frame f \<longleftrightarrow> fd_pcm_size f = 0 \<or> fd_pcm_size f \<le> -2"

definition pcm_total :: "frame_data list \<Rightarrow> int" where
  "pcm_total fs = sum_list (map (\<lambda>f. if eof_frame f then 0 else fd_pcm_size f) fs)"

lemma pcm_total_simps [simp]:
  "pcm_total [] = 0" "pcm_total (f # fs) = (if eof_frame f then 0 else fd_pcm_size f) + pcm_total fs"
  "pcm_total (fs @ gs) = pcm_total fs + pcm_total gs"
  by (simp_all add: pcm_total_def)

text \<open>
  Where a decoded frame can be, what the byte count of the buffer is during a song,
  and when the player waits.
\<close>

definition frames_ok :: "player \<Rightarrow> bool" where
  "frames_ok p \<longleftrightarrow>
     (dt_phase (p_decoder p) \<noteq> Committing \<longrightarrow> dt_new_frame (p_decoder p) = None) \<and>
     (dt_phase (p_decoder p) = Committing \<longrightarrow> (dt_new_frame (p_decoder p) = None \<longleftrightarrow> dt_decoder (p_decoder p) = None)) \<and>
     (p_play_state p = STATE_IN_SONG \<longrightarrow> fb_pcm_size (p_buffer p) = pcm_total (fb_frames (p_buffer p))) \<and>
     (p_waits_data p \<longrightarrow> p_play_state p = STATE_IN_SONG \<and> fb_frames (p_buffer p) = [])"

lemma frames_ok_upd [simp]:
  "frames_ok (p\<lparr>p_world := w\<rparr>) = frames_ok p" "frames_ok (p\<lparr>p_checked := b\<rparr>) = frames_ok p"
  "frames_ok (p\<lparr>p_commands := cs\<rparr>) = frames_ok p" "frames_ok (p\<lparr>p_keeps_locks := b\<rparr>) = frames_ok p"
  "frames_ok (p\<lparr>p_position := n\<rparr>) = frames_ok p" "frames_ok (p\<lparr>p_silence := d\<rparr>) = frames_ok p"
  "frames_ok (p\<lparr>p_sound := fs\<rparr>) = frames_ok p" "frames_ok (p\<lparr>p_cur_song := i\<rparr>) = frames_ok p"
  "frames_ok (p\<lparr>p_song := i\<rparr>) = frames_ok p" "frames_ok (p\<lparr>p_device_open := b\<rparr>) = frames_ok p"
  by (simp_all add: frames_ok_def)

text \<open>The player thread's own fields.\<close>

definition thread_fields where
  "thread_fields p = (p_play_state p, p_state p, p_commands p, p_checked p, p_keeps_locks p, p_sound p, p_silence p,
     p_next_decoder p, p_cur_song p, p_world p)"

lemma close_decoder_fields:
  assumes "close_decoder p = Inr q"
  shows "fb_frames (p_buffer q) = fb_frames (p_buffer p)" "fb_pcm_size (p_buffer q) = fb_pcm_size (p_buffer p)"
    "fb_new_file (p_buffer q) = fb_new_file (p_buffer p)" "fb_decoder (p_buffer q) = fb_decoder (p_buffer p)"
    "p_decoder q = (p_decoder p)\<lparr>dt_decoder := None\<rparr>"
    "p_waits_data q = p_waits_data p" "thread_fields q = thread_fields p"
  using assms by (auto simp: close_decoder_def thread_fields_def split: option.splits if_splits)

lemma decoder_commit_fields:
  assumes "decoder_commit p = Inr q"
  shows "fb_frames (p_buffer q) = fb_frames (p_buffer p) @ pending p" "pending q = []"
    "fb_pcm_size (p_buffer q) = fb_pcm_size (p_buffer p) + pcm_total (pending p)"
    "p_waits_data q \<longleftrightarrow> p_waits_data p \<and> (pending p = [] \<or> fb_frames (p_buffer p) \<noteq> [])"
    "thread_fields q = thread_fields p" "dt_phase (p_decoder q) = Waiting"
    "\<not> fb_new_file (p_buffer q)"
    "fb_new_file (p_buffer p) \<Longrightarrow> dt_decoder (p_decoder q) = fb_decoder (p_buffer p)"
proof -
  obtain p1 where p1: "(if fb_song_eof (p_buffer p) then close_decoder p else Inr p) = Inr p1"
    using assms by (auto simp: decoder_commit_def)
  have f1: "fb_frames (p_buffer p1) = fb_frames (p_buffer p)" "fb_pcm_size (p_buffer p1) = fb_pcm_size (p_buffer p)"
    "fb_new_file (p_buffer p1) = fb_new_file (p_buffer p)" "fb_decoder (p_buffer p1) = fb_decoder (p_buffer p)"
    "dt_new_frame (p_decoder p1) = dt_new_frame (p_decoder p)"
    "p_waits_data p1 = p_waits_data p" "thread_fields p1 = thread_fields p"
    using p1 by (auto split: if_splits dest: close_decoder_fields)
  obtain p2 where p2: "(case dt_new_frame (p_decoder p1) of
          None \<Rightarrow> Inr p1
        | Some f \<Rightarrow>
          and_then (if fd_pcm_size f = 0 \<or> fd_pcm_size f \<le> -2 then close_decoder p1
                    else Inr (p1\<lparr>p_buffer := (p_buffer p1)\<lparr>fb_pcm_size := fb_pcm_size (p_buffer p1) + fd_pcm_size f\<rparr>\<rparr>))
            (store_frame f)) = Inr p2"
    and q: "q = (let p = (if fb_new_file (p_buffer p2)
              then p2\<lparr>p_buffer := (p_buffer p2)\<lparr>fb_new_file := False\<rparr>,
                     p_decoder := (p_decoder p2)\<lparr>dt_decoder := fb_decoder (p_buffer p2)\<rparr>\<rparr>
              else p2) in p\<lparr>p_decoder := (p_decoder p)\<lparr>dt_phase := Waiting\<rparr>\<rparr>)"
    using assms p1 by (auto simp: decoder_commit_def Let_def)
  have f2: "fb_frames (p_buffer p2) = fb_frames (p_buffer p) @ pending p \<and> pending p2 = [] \<and>
    fb_pcm_size (p_buffer p2) = fb_pcm_size (p_buffer p) + pcm_total (pending p) \<and>
    (p_waits_data p2 \<longleftrightarrow> p_waits_data p \<and> (pending p = [] \<or> fb_frames (p_buffer p) \<noteq> [])) \<and>
    thread_fields p2 = thread_fields p \<and> fb_new_file (p_buffer p2) = fb_new_file (p_buffer p) \<and>
    fb_decoder (p_buffer p2) = fb_decoder (p_buffer p)"
  proof (cases "dt_new_frame (p_decoder p)")
    case None
    then show ?thesis using p2 f1 by (simp add: pending_def)
  next
    case (Some f)
    obtain p3 where p3: "(if fd_pcm_size f = 0 \<or> fd_pcm_size f \<le> -2 then close_decoder p1
                    else Inr (p1\<lparr>p_buffer := (p_buffer p1)\<lparr>fb_pcm_size := fb_pcm_size (p_buffer p1) + fd_pcm_size f\<rparr>\<rparr>)) = Inr p3"
      and st: "store_frame f p3 = Inr p2" using p2 Some f1 by (auto simp del: if_split)
    have f3: "fb_frames (p_buffer p3) = fb_frames (p_buffer p)" "p_waits_data p3 = p_waits_data p"
      "fb_pcm_size (p_buffer p3) = fb_pcm_size (p_buffer p) + (if eof_frame f then 0 else fd_pcm_size f)"
      "fb_new_file (p_buffer p3) = fb_new_file (p_buffer p)" "fb_decoder (p_buffer p3) = fb_decoder (p_buffer p)"
      "thread_fields p3 = thread_fields p"
    proof -
      have "close_decoder p1 = Inr p3 \<and> eof_frame f \<or>
        \<not> eof_frame f \<and> p3 = p1\<lparr>p_buffer := (p_buffer p1)\<lparr>fb_pcm_size := fb_pcm_size (p_buffer p1) + fd_pcm_size f\<rparr>\<rparr>"
        using p3 by (simp add: eof_frame_def split: if_splits)
      then have "fb_frames (p_buffer p3) = fb_frames (p_buffer p) \<and> p_waits_data p3 = p_waits_data p \<and>
        fb_pcm_size (p_buffer p3) = fb_pcm_size (p_buffer p) + (if eof_frame f then 0 else fd_pcm_size f) \<and>
        fb_new_file (p_buffer p3) = fb_new_file (p_buffer p) \<and> fb_decoder (p_buffer p3) = fb_decoder (p_buffer p) \<and>
        thread_fields p3 = thread_fields p"
      proof
        assume "close_decoder p1 = Inr p3 \<and> eof_frame f"
        then show ?thesis using close_decoder_fields [of p1 p3] f1 by simp
      next
        assume "\<not> eof_frame f \<and> p3 = p1\<lparr>p_buffer := (p_buffer p1)\<lparr>fb_pcm_size := fb_pcm_size (p_buffer p1) + fd_pcm_size f\<rparr>\<rparr>"
        then show ?thesis using f1 by (simp add: thread_fields_def)
      qed
      then show "fb_frames (p_buffer p3) = fb_frames (p_buffer p)" "p_waits_data p3 = p_waits_data p"
        "fb_pcm_size (p_buffer p3) = fb_pcm_size (p_buffer p) + (if eof_frame f then 0 else fd_pcm_size f)"
        "fb_new_file (p_buffer p3) = fb_new_file (p_buffer p)" "fb_decoder (p_buffer p3) = fb_decoder (p_buffer p)"
        "thread_fields p3 = thread_fields p" by blast+
    qed
    have "p2 = p3\<lparr>p_buffer := (p_buffer p3)\<lparr>fb_frames := fb_frames (p_buffer p3) @ [f]\<rparr>,
        p_decoder := (p_decoder p3)\<lparr>dt_new_frame := None\<rparr>,
        p_waits_data := p_waits_data p3 \<and> fb_frames (p_buffer p3) \<noteq> []\<rparr>"
      using st by (simp add: store_frame_def Let_def split: if_splits)
    then show ?thesis using f3 Some by (simp add: pending_def thread_fields_def)
  qed
  show "fb_frames (p_buffer q) = fb_frames (p_buffer p) @ pending p" "pending q = []"
    "fb_pcm_size (p_buffer q) = fb_pcm_size (p_buffer p) + pcm_total (pending p)"
    "p_waits_data q \<longleftrightarrow> p_waits_data p \<and> (pending p = [] \<or> fb_frames (p_buffer p) \<noteq> [])"
    "thread_fields q = thread_fields p" "dt_phase (p_decoder q) = Waiting" "\<not> fb_new_file (p_buffer q)"
    "fb_new_file (p_buffer p) \<Longrightarrow> dt_decoder (p_decoder q) = fb_decoder (p_buffer p)"
    using f2 by (auto simp: q Let_def pending_def thread_fields_def)
qed

lemma decoder_commit_frames_ok:
  assumes "decoder_commit p = Inr q" and "frames_ok p"
  shows "frames_ok q"
proof -
  note c = decoder_commit_fields [OF assms(1)]
  have "dt_new_frame (p_decoder q) = None" using c(2) by (simp add: pending_def split: option.splits)
  then show ?thesis using c assms(2) by (auto simp: frames_ok_def thread_fields_def)
qed

lemma handle_command_frames_ok:
  assumes "handle_command cfg c p = Inr q" and "frames_ok p" and "\<not> p_waits_data p"
  shows "frames_ok q \<and> \<not> p_waits_data q"
  using assms
  by (cases c)
    (auto simp: handle_command_def Let_def frames_ok_def split: if_splits option.splits
      dest!: player_feedback_world)

lemma player_top_frames_ok:
  assumes "player_top cfg p = Inr q" and "frames_ok p" and "\<not> p_waits_data p"
  shows "frames_ok q"
proof -
  obtain p1 where p1: "(if cq_head (p_commands p) = None then Inr p else player_read_commands cfg p) = Inr p1"
    and q: "q = p1\<lparr>p_checked := \<not> player_waits p1\<rparr>" using assms by (auto simp: player_top_def)
  have "frames_ok p1"
  proof (cases "cq_head (p_commands p) = None")
    case True
    then show ?thesis using p1 assms by simp
  next
    case False
    then obtain cs p2 where run: "read_commands (cq_next_address (p_commands p)) (handle_command cfg) (p_commands p) p = Inr (cs, p2)"
      and p1': "p1 = p2\<lparr>p_commands := cs\<rparr>" using p1 by (auto simp: player_read_commands_def process_commands_def)
    have "frames_ok p2 \<and> \<not> p_waits_data p2"
      by (rule read_commands_invariant [OF run, of "\<lambda>p. frames_ok p \<and> \<not> p_waits_data p"])
        (use assms handle_command_frames_ok in auto)
    then show ?thesis by (simp add: p1')
  qed
  then show ?thesis by (simp add: q)
qed

lemma begin_song_frames_ok:
  assumes "begin_song opens p = Inr (Some q)" and "frames_ok p" and "p_play_state p = STATE_BEFORE_SONG"
  shows "frames_ok q"
  using assms(1)
proof (cases rule: begin_song_cases)
  case (unknown w i n)
  then show ?thesis using assms(2) by simp
next
  case (song w i n)
  then show ?thesis using assms(2,3) unfolding song by (auto simp: frames_ok_def)
qed

lemma play_frame_frames_ok:
  assumes "play_frame cfg p = Inr (Some q)" and "frames_ok p" and "p_play_state p = STATE_IN_SONG" "\<not> p_waits_data p"
  shows "frames_ok q"
  using assms(1)
  by (cases rule: play_frame_cases)
    (use assms(2,3,4) in \<open>simp_all add: frames_ok_def eof_frame_def\<close>)

text \<open>The body of the player's loop, by what it does.\<close>

lemma body_cases:
  assumes "playback cfg opens Body p = Inr (Some q)"
  obtains (before) q1 where "q = q1\<lparr>p_checked := False\<rparr>" "p_play_state p = STATE_BEFORE_SONG"
      "begin_song opens p = Inr (Some q1)" "\<not> p_waits_data p"
  | (inside) q1 where "q = q1\<lparr>p_checked := False\<rparr>" "p_play_state p = STATE_IN_SONG"
      "play_frame cfg p = Inr (Some q1)" "\<not> p_waits_data p"
  | (after) qs where "p_play_state p = STATE_AFTER_SONG" "\<not> p_waits_data p"
      "done_with_song_info (p_cur_song p) (w_queues (p_world p)) = Inr qs"
      "q = p\<lparr>p_world := (p_world p)\<lparr>w_queues := qs\<rparr>, p_device_open := False,
             p_play_state := STATE_BEFORE_SONG, p_checked := False\<rparr>"
proof -
  obtain q1 where q1: "player_body cfg opens p = Inr (Some q1)" "q = q1\<lparr>p_checked := False\<rparr>" "\<not> p_waits_data p"
    using assms by (auto split: if_splits dest!: sym [of "Some q"])
  show ?thesis
  proof (cases "p_play_state p")
    case STATE_BEFORE_SONG
    then show ?thesis using q1 by (intro before) (simp_all add: player_body_def)
  next
    case STATE_IN_SONG
    then show ?thesis using q1 by (intro inside) (simp_all add: player_body_def)
  next
    case STATE_AFTER_SONG
    then show ?thesis using q1 by (auto simp: player_body_def end_song_def intro: after)
  qed
qed

lemma playback_frames_ok:
  assumes "playback cfg opens e p = Inr (Some q)" and "frames_ok p"
  shows "frames_ok q"
proof (cases e)
  case (Queue_Command c)
  then show ?thesis using assms by auto
next
  case Read_Commands
  then show ?thesis using assms by (auto split: if_splits intro: player_top_frames_ok)
next
  case Body
  from assms(1)[unfolded Body] show ?thesis
  proof (cases rule: body_cases)
    case (before q1)
    then show ?thesis using begin_song_frames_ok [OF before(3) assms(2)] by simp
  next
    case (inside q1)
    then show ?thesis using play_frame_frames_ok [OF inside(3) assms(2)] by simp
  next
    case (after qs)
    then show ?thesis using assms(2) by (simp add: frames_ok_def)
  qed
next
  case (Decode f)
  then show ?thesis using assms by (auto simp: frames_ok_def split: if_splits)
next
  case Commit
  then show ?thesis using assms by (auto split: if_splits intro: decoder_commit_frames_ok)
next
  case Wake
  then show ?thesis using assms by (auto simp: frames_ok_def split: if_splits)
qed

lemma playback_run_frames_ok:
  assumes "playback_run cfg opens p es q" and "frames_ok p"
  shows "frames_ok q"
  using assms by (induction rule: playback_run.induct) (auto dest: playback_frames_ok)

lemma start_player_frames_ok: "frames_ok (start_player w)"
  by (simp add: frames_ok_def start_player_def)

text \<open>
  One step without commands and without a new song: the frames removed from the
  front of the line are \<open>ts\<close>.
\<close>

definition moves :: "frame_data list \<Rightarrow> frame_data list \<Rightarrow> player \<Rightarrow> player \<Rightarrow> bool" where
  "moves new ts p q \<longleftrightarrow>
     fb_frames (p_buffer p) @ pending p @ new = ts @ fb_frames (p_buffer q) @ pending q \<and>
     (case audible (p_silence p) ts of (gs, d) \<Rightarrow> p_sound q = p_sound p @ gs \<and> p_silence q = d) \<and>
     cq_head (p_commands q) = cq_head (p_commands p)"

lemma moves_nothing:
  assumes "fb_frames (p_buffer q) = fb_frames (p_buffer p)" and "pending q = pending p"
    and "p_sound q = p_sound p" and "p_silence q = p_silence p" and "cq_head (p_commands q) = cq_head (p_commands p)"
  shows "\<exists>ts. moves [] ts p q"
  using assms by (intro exI [of _ "[]"]) (simp add: moves_def)

lemma play_frame_moves:
  assumes "play_frame cfg p = Inr (Some q)"
  shows "\<exists>ts. moves [] ts p q"
proof -
  have one: "\<exists>ts. moves [] ts p q" if fr: "fb_frames (p_buffer p) = f # fs" and au: "audible (p_silence p) [f] = (gs, p_silence q)"
    and q: "fb_frames (p_buffer q) = fs" "p_sound q = p_sound p @ gs" "pending q = pending p"
      "cq_head (p_commands q) = cq_head (p_commands p)" for f fs gs
    unfolding moves_def by (intro exI [of _ "[f]"]) (use fr au q in \<open>simp split: prod.splits\<close>)
  show ?thesis
    using assms
  proof (cases rule: play_frame_cases)
    case wait
    then show ?thesis by (intro moves_nothing) (simp_all add: pending_def)
  next
    case (eof f fs w)
    then show ?thesis by (intro one [of f fs "[]"]) (auto simp: pending_def)
  next
    case (skipped f fs)
    then show ?thesis by (intro one [of f fs "[]"]) (auto simp: pending_def)
  next
    case (played f fs n d ss)
    obtain silent d' where sd: "detect_silence f (p_silence p) = (silent, d')" by force
    have "p_sound q = p_sound p @ (if silent then [] else [f])" "p_silence q = d'"
      using assms played(1,2) sd
      by (auto simp: play_frame_def Let_def split: if_splits)
    then show ?thesis using played(1,2,3) sd
      by (intro one [of f fs "if silent then [] else [f]"]) (auto simp: pending_def)
  qed
qed

fun is_command :: "event \<Rightarrow> bool" where
  "is_command (Queue_Command c) = True"
| "is_command e = False"

lemma next_decoder_mono:
  assumes "playback cfg opens e p = Inr (Some q)"
  shows "p_next_decoder p \<le> p_next_decoder q"
proof (cases e)
  case Body
  from assms[unfolded Body] show ?thesis
  proof (cases rule: body_cases)
    case (before q1)
    from before(3) show ?thesis by (cases rule: begin_song_cases) (simp_all add: before(1))
  next
    case (inside q1)
    from inside(3) show ?thesis by (cases rule: play_frame_cases) (simp_all add: inside(1))
  next
    case (after qs)
    then show ?thesis by simp
  qed
next
  case Commit
  then show ?thesis using assms by (auto simp: thread_fields_def dest!: decoder_commit_fields(5) split: if_splits)
next
  case Read_Commands
  then show ?thesis using assms by (auto split: if_splits dest!: player_top_shrinks simp: buffer_shrinks_def)
qed (use assms in \<open>auto split: if_splits\<close>)

lemma run_next_decoder_mono: "playback_run cfg opens p es q \<Longrightarrow> p_next_decoder p \<le> p_next_decoder q"
  by (induction rule: playback_run.induct) (auto dest: next_decoder_mono)

lemma playback_moves:
  assumes "playback cfg opens e p = Inr (Some q)" and "\<not> is_command e" and "cq_head (p_commands p) = None"
    and "p_next_decoder q = p_next_decoder p" and "frames_ok p"
  shows "\<exists>ts. moves (decoded [e]) ts p q"
proof (cases e)
  case (Queue_Command c)
  then show ?thesis using assms(2) by simp
next
  case Read_Commands
  then show ?thesis using assms(1,3) by (auto simp: player_top_def pending_def split: if_splits intro: moves_nothing)
next
  case Body
  from assms(1)[unfolded Body] have "\<exists>ts. moves [] ts p q"
  proof (cases rule: body_cases)
    case (before q1)
    from before(3) show ?thesis
      by (cases rule: begin_song_cases) (use before(1) assms(4) in \<open>auto simp: pending_def intro: moves_nothing\<close>)
  next
    case (inside q1)
    then show ?thesis using play_frame_moves [OF inside(3)] by (simp add: moves_def pending_def)
  next
    case (after qs)
    then show ?thesis by (intro moves_nothing) (simp_all add: pending_def)
  qed
  then show ?thesis by (simp add: Body)
next
  case (Decode f)
  then have "q = p\<lparr>p_decoder := (p_decoder p)\<lparr>dt_new_frame := f, dt_phase := Committing\<rparr>\<rparr>"
    and "dt_new_frame (p_decoder p) = None"
    using assms(1,5) by (auto simp: frames_ok_def split: if_splits)
  then show ?thesis using Decode
    by (intro exI [of _ "[]"]) (cases f, simp_all add: moves_def pending_def)
next
  case Commit
  then have c: "decoder_commit p = Inr q" using assms(1) by (simp split: if_splits)
  show ?thesis using Commit decoder_commit_fields [OF c]
    by (intro exI [of _ "[]"]) (simp add: moves_def thread_fields_def)
next
  case Wake
  then show ?thesis using assms(1) by (auto simp: pending_def split: if_splits intro: moves_nothing)
qed

lemma moves_trans:
  assumes "moves n1 t1 p q" and "moves n2 t2 q r"
  shows "moves (n1 @ n2) (t1 @ t2) p r"
  using assms by (auto simp: moves_def audible_append split: prod.splits) (metis append_assoc)

lemma decoded_Cons: "decoded (e # es) = decoded [e] @ decoded es"
  by (cases "(e # es)" rule: decoded.cases) auto

lemma run_moves:
  assumes "playback_run cfg opens p es q" and "\<not> list_ex is_command es" and "cq_head (p_commands p) = None"
    and "p_next_decoder q = p_next_decoder p" and "frames_ok p"
  shows "\<exists>ts. moves (decoded es) ts p q"
  using assms
proof (induction rule: playback_run.induct)
  case (stop p)
  then show ?case by (auto intro: moves_nothing)
next
  case (more e p q es r)
  have n: "p_next_decoder q = p_next_decoder p" "p_next_decoder r = p_next_decoder q"
    using next_decoder_mono [OF more.hyps(1)] run_next_decoder_mono [OF more.hyps(2)] more.prems by auto
  obtain t1 where t1: "moves (decoded [e]) t1 p q"
    using playback_moves [OF more.hyps(1)] more.prems n by auto
  then have "cq_head (p_commands q) = None" using more.prems by (simp add: moves_def)
  then obtain t2 where "moves (decoded es) t2 q r"
    using more.IH more.prems n playback_frames_ok [OF more.hyps(1)] by auto
  with t1 show ?case using moves_trans decoded_Cons [of e es] by metis
qed


text \<open>Runs computed from their events.\<close>

fun play_events :: "config \<Rightarrow> (string \<Rightarrow> bool) \<Rightarrow> event list \<Rightarrow> player \<Rightarrow> player option" where
  "play_events cfg opens [] p = Some p"
| "play_events cfg opens (e # es) p =
     (case playback cfg opens e p of Inr (Some q) \<Rightarrow> play_events cfg opens es q | _ \<Rightarrow> None)"

lemma play_events_run: "play_events cfg opens es p = Some q \<Longrightarrow> playback_run cfg opens p es q"
  by (induction cfg opens es p rule: play_events.induct)
    (auto intro: playback_run.intros split: sum.splits option.splits)

text \<open>A world with one song in the playlist, and two frames of it.\<close>

definition ex_play_world :: world where
  "ex_play_world = \<lparr>w_db = ex_db\<lparr>songs := [ex_ready_song]\<rparr>, w_fs = ex_fs,
     w_queues = (case enqueue_song (Some 0) 0 (empty_queues 2 2) of Inr q \<Rightarrow> q | Inl _ \<Rightarrow> empty_queues 2 2)\<rparr>"

definition ex_frame :: "int \<Rightarrow> frame_data" where
  "ex_frame pos = \<lparr>fd_pcm_data = [1, 2, 3, 4], fd_pcm_size = 4, fd_position = pos\<rparr>"

definition start_events :: "event list" where
  "start_events = [Decode None, Commit, Queue_Command CMD_PLAY, Read_Commands, Body]"

definition ex_playing :: player where
  "ex_playing = (case play_events ex_config (\<lambda>_. True) start_events (start_player ex_play_world) of
     Some p \<Rightarrow> p | None \<Rightarrow> start_player ex_play_world)"

lemma ex_playing_test:
  "play_events ex_config (\<lambda>_. True) start_events (start_player ex_play_world) \<noteq> None \<and>
   p_play_state ex_playing = STATE_IN_SONG \<and> cq_head (p_commands ex_playing) = None"
  by code_simp

definition ex_events :: "event list" where
  "ex_events = [Wake, Decode None, Commit, Wake, Decode (Some (ex_frame 5)), Commit, Wake, Decode (Some (ex_frame 9)),
     Read_Commands, Body]"

lemma ex_playing_run: "playback_run ex_config (\<lambda>_. True) (start_player ex_play_world) start_events ex_playing"
  using ex_playing_test by (auto simp: ex_playing_def intro: play_events_run)

definition ex_played :: player where
  "ex_played = (case play_events ex_config (\<lambda>_. True) ex_events ex_playing of Some p \<Rightarrow> p | None \<Rightarrow> ex_playing)"

lemma ex_played_test:
  "play_events ex_config (\<lambda>_. True) ex_events ex_playing \<noteq> None \<and> p_next_decoder ex_played = p_next_decoder ex_playing \<and>
   p_sound ex_played = [ex_frame 5] \<and> \<not> list_ex is_command ex_events \<and>
   decoded ex_events = [ex_frame 5, ex_frame 9] \<and> fb_frames (p_buffer ex_playing) = [] \<and> pending ex_playing = [] \<and>
   pending ex_played = [ex_frame 9]"
  by code_simp


section \<open>Waiting and being served\<close>

text \<open>The locks the player keeps when it meets a file of unknown type: it stays before a song.\<close>

definition locks_ok :: "player \<Rightarrow> bool" where
  "locks_ok p \<longleftrightarrow> (p_keeps_locks p \<longrightarrow> p_play_state p = STATE_BEFORE_SONG)"

lemma handle_command_locks: "handle_command cfg c p = Inr q \<Longrightarrow> p_keeps_locks q = p_keeps_locks p"
  by (cases c)
    (auto simp: handle_command_def Let_def split: if_splits option.splits dest!: player_feedback_world)

lemma player_top_locks:
  assumes "player_top cfg p = Inr q"
  shows "p_keeps_locks q = p_keeps_locks p"
proof -
  obtain p1 where p1: "(if cq_head (p_commands p) = None then Inr p else player_read_commands cfg p) = Inr p1"
    and q: "q = p1\<lparr>p_checked := \<not> player_waits p1\<rparr>" using assms by (auto simp: player_top_def)
  have "p_keeps_locks p1 = p_keeps_locks p"
  proof (cases "cq_head (p_commands p) = None")
    case True
    then show ?thesis using p1 by simp
  next
    case False
    then obtain cs p2 where run: "read_commands (cq_next_address (p_commands p)) (handle_command cfg) (p_commands p) p = Inr (cs, p2)"
      and p1': "p1 = p2\<lparr>p_commands := cs\<rparr>" using p1 by (auto simp: player_read_commands_def process_commands_def)
    have "p_keeps_locks p2 = p_keeps_locks p"
      by (rule read_commands_invariant [OF run, of "\<lambda>r. p_keeps_locks r = p_keeps_locks p"])
        (auto dest: handle_command_locks)
    then show ?thesis by (simp add: p1')
  qed
  then show ?thesis by (simp add: q)
qed

text \<open>With the locks kept, only the queue of commands, the check and the decoder's work in hand change.\<close>

definition frozen_from :: "player \<Rightarrow> player \<Rightarrow> bool" where
  "frozen_from p q \<longleftrightarrow> p_keeps_locks q \<and> p_play_state q = STATE_BEFORE_SONG \<and> p_sound q = p_sound p \<and>
     p_world q = p_world p \<and> p_buffer q = p_buffer p \<and> p_state q = p_state p \<and> p_cur_song q = p_cur_song p"

lemma playback_frozen:
  assumes "playback cfg opens e p = Inr (Some q)" and "p_keeps_locks p" and "p_play_state p = STATE_BEFORE_SONG"
  shows "frozen_from p q"
proof (cases e)
  case Body
  from assms(1)[unfolded Body] show ?thesis
    by (cases rule: body_cases) (use assms(2,3) in \<open>simp_all add: begin_song_def\<close>)
next
  case Read_Commands
  then show ?thesis using assms by (auto simp: frozen_from_def player_top_def split: if_splits)
qed (use assms in \<open>auto simp: frozen_from_def split: if_splits\<close>)

lemma playback_locks_ok:
  assumes "playback cfg opens e p = Inr (Some q)" and "locks_ok p"
  shows "locks_ok q"
proof (cases "p_keeps_locks p")
  case True
  then have "frozen_from p q" using assms by (auto simp: locks_ok_def intro: playback_frozen)
  then show ?thesis by (simp add: locks_ok_def frozen_from_def)
next
  case False
  show ?thesis
  proof (cases e)
    case Body
    from assms(1)[unfolded Body] show ?thesis
    proof (cases rule: body_cases)
      case (before q1)
      from before(3) show ?thesis
        by (cases rule: begin_song_cases) (use False before(1,2) in \<open>simp_all add: locks_ok_def\<close>)
    next
      case (inside q1)
      from inside(3) show ?thesis
        by (cases rule: play_frame_cases) (use False inside(1) in \<open>simp_all add: locks_ok_def\<close>)
    next
      case (after qs)
      then show ?thesis by (simp add: locks_ok_def)
    qed
  next
    case Read_Commands
    then show ?thesis using assms(1) False by (auto simp: locks_ok_def split: if_splits dest: player_top_locks)
  next
    case Commit
    then show ?thesis using assms(1) False
      by (auto simp: locks_ok_def thread_fields_def split: if_splits dest!: decoder_commit_fields(5))
  qed (use assms(1) False in \<open>auto simp: locks_ok_def split: if_splits\<close>)
qed

lemma playback_run_locks_ok:
  assumes "playback_run cfg opens p es q" and "locks_ok p"
  shows "locks_ok q"
  using assms by (induction rule: playback_run.induct) (auto dest: playback_locks_ok)

lemma start_player_locks_ok: "locks_ok (start_player w)"
  by (simp add: locks_ok_def start_player_def)

lemma playback_run_frozen:
  assumes "playback_run cfg opens p es q" and "p_keeps_locks p" and "p_play_state p = STATE_BEFORE_SONG"
  shows "frozen_from p q"
  using assms
proof (induction rule: playback_run.induct)
  case (stop p)
  then show ?case by (simp add: frozen_from_def)
next
  case (more e p q es r)
  then have pq: "frozen_from p q" by (auto intro: playback_frozen)
  then have "frozen_from q r" using more.IH by (simp add: frozen_from_def)
  then show ?case using pq by (simp add: frozen_from_def)
qed

text \<open>A song whose file type is unknown stops the player for good: \<open>player()\<close> goes back
  to its loop with \<open>player_info.lock\<close> and \<open>frame_buffer.lock\<close> held, and from then on, in
  every interleaving and whatever commands are queued, no frame is stored or
  played, no command is carried out and no other song is started.\<close>

theorem unknown_type_stops_player:
  assumes "playback cfg opens Body p = Inr (Some q)" and "p_play_state p = STATE_BEFORE_SONG"
    and "get_next_song_info (w_queues (p_world p)) = Inr ((Some i, start), qs)"
    and "song_type (songs (w_db (p_world p)) ! i) = Some TYPE_UNKNOWN"
    and "playback_run cfg opens q es r"
  shows "p_sound r = p_sound p \<and> p_buffer r = p_buffer p \<and> p_state r = p_state p \<and> p_cur_song r = Some i \<and>
    w_queues (p_world r) = qs \<and> p_play_state r = STATE_BEFORE_SONG"
proof -
  obtain q1 where q1: "q = q1\<lparr>p_checked := False\<rparr>" "begin_song opens p = Inr (Some q1)"
    using assms(1,2) by (auto simp: player_body_def split: if_splits dest!: sym [of "Some q"])
  have "q1 = p\<lparr>p_world := (p_world p)\<lparr>w_queues := qs\<rparr>, p_cur_song := Some i, p_song := Some i,
      p_position := (case start of None \<Rightarrow> 0 | Some n \<Rightarrow> n), p_keeps_locks := True\<rparr>"
    using q1(2) assms(3,4) by (auto simp: begin_song_def Let_def read_at_def split: if_splits)
  then have "p_keeps_locks q" "p_play_state q = STATE_BEFORE_SONG" "p_sound q = p_sound p" "p_buffer q = p_buffer p"
    "p_state q = p_state p" "p_cur_song q = Some i" "w_queues (p_world q) = qs" using q1(1) assms(2) by simp_all
  with playback_run_frozen [OF assms(5)] show ?thesis by (simp add: frozen_from_def)
qed

definition ex_unknown :: player where
  "ex_unknown = (start_player (ex_play_world\<lparr>w_db := ex_db\<lparr>songs := [ex_ready_song\<lparr>song_type := Some TYPE_UNKNOWN\<rparr>]\<rparr>\<rparr>))
     \<lparr>p_state := STATE_PLAY, p_checked := True\<rparr>"

definition ex_stuck :: player where
  "ex_stuck = (case playback ex_config (\<lambda>_. True) Body ex_unknown of Inr (Some q) \<Rightarrow> q | _ \<Rightarrow> ex_unknown)"

lemma ex_unknown_next:
  "case get_next_song_info (w_queues (p_world ex_unknown)) of Inr ((Some i, start), qs) \<Rightarrow> i = 0 | _ \<Rightarrow> False"
  by code_simp

lemma ex_unknown_test:
  "(case playback ex_config (\<lambda>_. True) Body ex_unknown of Inr (Some q) \<Rightarrow> True | _ \<Rightarrow> False) \<and>
   p_play_state ex_unknown = STATE_BEFORE_SONG \<and> song_type (songs (w_db (p_world ex_unknown)) ! 0) = Some TYPE_UNKNOWN \<and>
   p_sound ex_unknown = [] \<and>
   play_events ex_config (\<lambda>_. True) [Queue_Command CMD_SKIP, Decode None] ex_stuck \<noteq> None"
  by code_simp

theorem unknown_type_stops_player_witness:
  "\<exists>r. playback_run ex_config (\<lambda>_. True) ex_stuck [Queue_Command CMD_SKIP, Decode None] r \<and>
     p_sound r = [] \<and> p_play_state r = STATE_BEFORE_SONG"
proof -
  obtain r where r: "playback_run ex_config (\<lambda>_. True) ex_stuck [Queue_Command CMD_SKIP, Decode None] r"
    using ex_unknown_test by (auto dest!: play_events_run simp del: playback.simps play_events.simps)
  have b: "playback ex_config (\<lambda>_. True) Body ex_unknown = Inr (Some ex_stuck)"
    unfolding ex_stuck_def using ex_unknown_test by (auto split: sum.splits option.splits simp del: playback.simps)
  obtain start qs where n: "get_next_song_info (w_queues (p_world ex_unknown)) = Inr ((Some 0, start), qs)"
    using ex_unknown_next by (auto split: sum.splits option.splits prod.splits)
  show ?thesis
    using unknown_type_stops_player [OF b _ n _ r] ex_unknown_test r by auto
qed

text \<open>The player can be woken within \<open>n\<close> steps of the decoder thread, which returns frame \<open>f\<close>.\<close>

definition served_within :: "config \<Rightarrow> (string \<Rightarrow> bool) \<Rightarrow> nat \<Rightarrow> frame_data \<Rightarrow> player \<Rightarrow> bool" where
  "served_within cfg opens n f p \<longleftrightarrow> (\<exists>fs q. playback_run cfg opens p fs q \<and> length fs \<le> n \<and>
     set fs \<subseteq> {Wake, Commit, Decode None, Decode (Some f)} \<and> \<not> p_waits_data q \<and> fb_frames (p_buffer q) \<noteq> [])"

lemma served_step:
  assumes "playback cfg opens e p = Inr (Some q)" and "e \<in> {Wake, Commit, Decode None, Decode (Some f)}"
    and "served_within cfg opens n f q"
  shows "served_within cfg opens (Suc n) f p"
proof -
  obtain fs r where r: "playback_run cfg opens q fs r" "length fs \<le> n"
    "set fs \<subseteq> {Wake, Commit, Decode None, Decode (Some f)}" "\<not> p_waits_data r" "fb_frames (p_buffer r) \<noteq> []"
    using assms(3) by (auto simp: served_within_def)
  show ?thesis unfolding served_within_def
    by (intro exI [of _ "e # fs"] exI [of _ r]) (use r assms(2) playback_run.more [OF assms(1) r(1)] in auto)
qed

lemma served_mono: "served_within cfg opens m f p \<Longrightarrow> m \<le> n \<Longrightarrow> served_within cfg opens n f p"
  unfolding served_within_def by (meson le_trans)

definition waiting_ok :: "player \<Rightarrow> bool" where
  "waiting_ok p \<longleftrightarrow> buffer_ok p \<and> frames_ok p \<and> \<not> p_keeps_locks p \<and> p_waits_data p"

lemma commit_serves:
  assumes "waiting_ok p" and "dt_phase (p_decoder p) = Committing"
  shows "dt_decoder (p_decoder p) \<noteq> None \<Longrightarrow> served_within cfg opens 1 f p"
    and "dt_decoder (p_decoder p) = None \<Longrightarrow> fb_new_file (p_buffer p) \<Longrightarrow>
      \<exists>q. playback cfg opens Commit p = Inr (Some q) \<and> waiting_ok q \<and> dt_phase (p_decoder q) = Waiting \<and> dt_decoder (p_decoder q) \<noteq> None"
proof -
  obtain q where c: "decoder_commit p = Inr q" "buffer_ok q"
    using decoder_commit_ok [of p] assms by (auto simp: waiting_ok_def)
  note f = decoder_commit_fields [OF c(1)]
  have step: "playback cfg opens Commit p = Inr (Some q)" using assms c by (simp add: waiting_ok_def)
  have pend: "pending p = [] \<longleftrightarrow> dt_decoder (p_decoder p) = None"
    using assms by (auto simp: waiting_ok_def frames_ok_def pending_def split: option.splits)
  have fr: "fb_frames (p_buffer p) = []" using assms by (simp add: waiting_ok_def frames_ok_def)
  show "served_within cfg opens 1 f p" if "dt_decoder (p_decoder p) \<noteq> None"
    unfolding One_nat_def
  proof (rule served_step [OF step])
    show "served_within cfg opens 0 f q" unfolding served_within_def
      by (intro exI [of _ "[]"] exI [of _ q]) (use that f fr pend in \<open>simp add: playback_run.stop\<close>)
  qed simp
  show "\<exists>q. playback cfg opens Commit p = Inr (Some q) \<and> waiting_ok q \<and> dt_phase (p_decoder q) = Waiting \<and> dt_decoder (p_decoder q) \<noteq> None"
    if "dt_decoder (p_decoder p) = None" "fb_new_file (p_buffer p)"
  proof (intro exI [of _ q] conjI step)
    show "waiting_ok q"
      using that pend f(4,5) c decoder_commit_frames_ok [OF c(1)] assms(1) by (auto simp: waiting_ok_def thread_fields_def)
    show "dt_decoder (p_decoder q) \<noteq> None"
      using that f(8) assms(1) by (auto simp: waiting_ok_def buffer_ok_def)
  qed (use f in simp)
qed

lemma decode_step:
  assumes "waiting_ok p" and "dt_phase (p_decoder p) = Decoding" and "dt_decoder (p_decoder p) = None \<longleftrightarrow> g = None"
  shows "\<exists>q. playback cfg opens (Decode g) p = Inr (Some q) \<and> waiting_ok q \<and> dt_phase (p_decoder q) = Committing \<and>
    dt_decoder (p_decoder q) = dt_decoder (p_decoder p) \<and> fb_new_file (p_buffer q) = fb_new_file (p_buffer p)"
proof -
  let ?q = "p\<lparr>p_decoder := (p_decoder p)\<lparr>dt_new_frame := g, dt_phase := Committing\<rparr>\<rparr>"
  have s: "playback cfg opens (Decode g) p = Inr (Some ?q)" using assms by simp
  then show ?thesis
    using assms playback_ok [OF s] playback_frames_ok [OF s] by (auto simp: waiting_ok_def)
qed

lemma wake_step:
  assumes "waiting_ok p" and "dt_phase (p_decoder p) = Waiting" and "dt_decoder (p_decoder p) \<noteq> None \<or> fb_new_file (p_buffer p)"
  shows "\<exists>q. playback cfg opens Wake p = Inr (Some q) \<and> waiting_ok q \<and> dt_phase (p_decoder q) = Decoding \<and>
    dt_decoder (p_decoder q) = dt_decoder (p_decoder p) \<and> fb_new_file (p_buffer q) = fb_new_file (p_buffer p)"
proof -
  let ?q = "p\<lparr>p_decoder := (p_decoder p)\<lparr>dt_phase := Decoding\<rparr>\<rparr>"
  have "decoder_may_go_on p" using assms
    by (auto simp: waiting_ok_def frames_ok_def decoder_may_go_on_def PLAYER_MAX_BUFFER_SIZE_def PLAYER_MAX_BUFFER_PCM_SIZE_def)
  then have s: "playback cfg opens Wake p = Inr (Some ?q)" using assms by (simp add: waiting_ok_def)
  then show ?thesis
    using assms playback_ok [OF s] playback_frames_ok [OF s] by (auto simp: waiting_ok_def)
qed

lemma decoding_serves:
  assumes "waiting_ok p" and "dt_phase (p_decoder p) = Decoding" and "dt_decoder (p_decoder p) \<noteq> None"
  shows "served_within cfg opens 2 f p"
proof -
  obtain q where q: "playback cfg opens (Decode (Some f)) p = Inr (Some q)" "waiting_ok q" "dt_phase (p_decoder q) = Committing"
    "dt_decoder (p_decoder q) \<noteq> None" using decode_step [OF assms(1,2), of "Some f"] assms(3) by auto
  show ?thesis using served_step [OF q(1) _ commit_serves(1) [OF q(2,3,4)]] by (simp add: eval_nat_numeral)
qed

lemma open_decoder_serves:
  assumes "waiting_ok p" and "dt_decoder (p_decoder p) \<noteq> None"
  shows "served_within cfg opens 3 f p"
proof (cases "dt_phase (p_decoder p)")
  case Decoding
  then show ?thesis by (intro served_mono [OF decoding_serves]) (use assms in auto)
next
  case Committing
  then show ?thesis by (intro served_mono [OF commit_serves(1)]) (use assms in auto)
next
  case Waiting
  then obtain q where q: "playback cfg opens Wake p = Inr (Some q)" "waiting_ok q" "dt_phase (p_decoder q) = Decoding"
    "dt_decoder (p_decoder q) \<noteq> None" using wake_step [OF assms(1), of cfg opens] assms(2) by auto
  show ?thesis using served_step [OF q(1) _ decoding_serves [OF q(2,3,4)]] by (simp add: eval_nat_numeral)
qed

lemma new_decoder_serves:
  assumes "waiting_ok p" and "dt_decoder (p_decoder p) = None" and "fb_new_file (p_buffer p)"
  shows "served_within cfg opens 6 f p"
proof -
  have committing: "served_within cfg opens 4 f p" if d: "waiting_ok p" "dt_phase (p_decoder p) = Committing"
    "dt_decoder (p_decoder p) = None" "fb_new_file (p_buffer p)" for p
  proof -
    obtain q where q: "playback cfg opens Commit p = Inr (Some q)" "waiting_ok q" "dt_decoder (p_decoder q) \<noteq> None"
      using commit_serves(2) [OF d] by blast
    show ?thesis using served_step [OF q(1) _ open_decoder_serves [OF q(2,3)]] by (simp add: eval_nat_numeral)
  qed
  have decoding: "served_within cfg opens 5 f p" if d: "waiting_ok p" "dt_phase (p_decoder p) = Decoding"
    "dt_decoder (p_decoder p) = None" "fb_new_file (p_buffer p)" for p
  proof -
    obtain q where q: "playback cfg opens (Decode None) p = Inr (Some q)" "waiting_ok q" "dt_phase (p_decoder q) = Committing"
      "dt_decoder (p_decoder q) = None" "fb_new_file (p_buffer q)" using decode_step [OF d(1,2), of None] d(3,4) by auto
    show ?thesis using served_step [OF q(1) _ committing [OF q(2,3,4,5)]] by (simp add: eval_nat_numeral)
  qed
  show ?thesis
  proof (cases "dt_phase (p_decoder p)")
    case Decoding
    then show ?thesis by (intro served_mono [OF decoding]) (use assms in auto)
  next
    case Committing
    then show ?thesis by (intro served_mono [OF committing]) (use assms in auto)
  next
    case Waiting
    then obtain q where q: "playback cfg opens Wake p = Inr (Some q)" "waiting_ok q" "dt_phase (p_decoder q) = Decoding"
      "dt_decoder (p_decoder q) = None" "fb_new_file (p_buffer q)" using wake_step [OF assms(1), of cfg opens] assms by auto
    show ?thesis using served_step [OF q(1) _ decoding [OF q(2,3,4,5)]] by (simp add: eval_nat_numeral)
  qed
qed


lemma playback_run_append:
  "playback_run cfg opens p es q \<Longrightarrow> playback_run cfg opens q fs r \<Longrightarrow> playback_run cfg opens p (es @ fs) r"
  by (induction rule: playback_run.induct) (auto intro: playback_run.more)

definition ex_waiting :: player where
  "ex_waiting = (case play_events ex_config (\<lambda>_. True) [Read_Commands, Body] ex_playing of Some p \<Rightarrow> p | None \<Rightarrow> ex_playing)"

lemma ex_waiting_test:
  "play_events ex_config (\<lambda>_. True) [Read_Commands, Body] ex_playing \<noteq> None \<and> p_waits_data ex_waiting \<and>
   fb_new_file (p_buffer ex_waiting)"
  by code_simp


section \<open>Skipping a song whose decoding is complete\<close>

text \<open>
  A song is playing, its decoder has reached the end of the file and is closed, no
  command is queued, and another song is in the playlist.
\<close>

definition last_frames :: "player \<Rightarrow> nat \<Rightarrow> (nat option \<times> int option) list \<Rightarrow> nat option list \<Rightarrow> bool" where
  "last_frames p i xs ys \<longleftrightarrow> p_play_state p = STATE_IN_SONG \<and> p_state p = STATE_PLAY \<and> decoder_idle p \<and>
     \<not> fb_new_file (p_buffer p) \<and> \<not> p_waits_data p \<and> \<not> p_keeps_locks p \<and> \<not> p_checked p \<and> queue_clear (p_commands p) \<and>
     p_cur_song p = Some i \<and> queues_hold (w_queues (p_world p)) xs ys \<and> 0 < q_wanted_size (past_queue (w_queues (p_world p)))"

definition playable :: "player \<Rightarrow> nat \<Rightarrow> bool" where
  "playable p j \<longleftrightarrow> j < length (songs (w_db (p_world p))) \<and>
     (\<exists>t. song_type (songs (w_db (p_world p)) ! j) = Some t \<and> t \<noteq> TYPE_UNKNOWN)"

lemma feedback_playable:
  assumes "player_feedback cfg n p = Inr q" and "playable p j"
  shows "playable q j"
proof -
  obtain db fs where fb: "feedback cfg (p_cur_song p) n (w_db (p_world p)) (w_fs (p_world p)) = Inr (db, fs)"
    and q: "q = p\<lparr>p_world := (p_world p)\<lparr>w_db := db, w_fs := fs\<rparr>\<rparr>"
    using assms(1) by (auto simp: player_feedback_def)
  obtain i where i: "p_cur_song p = Some i" using fb by (cases "p_cur_song p") (auto simp: feedback_def)
  obtain s' where s': "save_song cfg (stats_loaded (w_db (p_world p)))
      ((songs (w_db (p_world p)) ! i)\<lparr>stat := feedback_stat n (stat (songs (w_db (p_world p)) ! i))\<rparr>) (w_fs (p_world p)) = Inr (s', fs)"
    "songs db = (songs (w_db (p_world p)))[i := s']" "i < length (songs (w_db (p_world p)))"
    using feedback_Inr [OF fb [unfolded i]] by blast
  have "song_type s' = song_type (songs (w_db (p_world p)) ! i)" using s'(1)
    by (auto simp: save_song_cases save_stat_data_def split: if_splits)
  then show ?thesis using assms(2) s'(2,3) by (auto simp: playable_def q nth_list_update)
qed

lemma queued_command:
  assumes "queue_clear q"
  shows "\<exists>q1. player_queue_command c q = Inr q1 \<and> cq_head q1 \<noteq> None \<and>
    (\<forall>s. \<exists>q2. queue_clear q2 \<and> process_commands handle q1 s = map_result (\<lambda>s. (q2, s)) (handle c s))"
proof -
  obtain q1 where q1: "player_queue_command c q = Inr q1" "cq_head q1 \<noteq> None"
    using single_command [OF assms, of c handle undefined] by blast
  have "\<exists>q2. queue_clear q2 \<and> process_commands handle q1 s = map_result (\<lambda>s. (q2, s)) (handle c s)" for s
    using single_command [OF assms, of c handle s] q1 by auto
  then show ?thesis using q1 by blast
qed

lemma skip_ends_song:
  assumes "last_frames p i xs ys" and "returns (feedback cfg (Some i) (- 1) (w_db (p_world p)) (w_fs (p_world p)))"
    and "playable p j"
  shows "\<exists>q zs. playback_run cfg opens p [Queue_Command CMD_SKIP, Read_Commands, Body] q \<and>
    p_play_state q = STATE_BEFORE_SONG \<and> p_state q = STATE_PLAY \<and> decoder_idle q \<and> \<not> fb_new_file (p_buffer q) \<and>
    fb_song_eof (p_buffer q) \<and> \<not> p_waits_data q \<and> \<not> p_keeps_locks q \<and> \<not> p_checked q \<and> cq_head (p_commands q) = None \<and>
    queues_hold (w_queues (p_world q)) xs zs \<and> playable q j"
proof -
  let ?p0 = "(drop_frames p)\<lparr>p_buffer := (p_buffer (drop_frames p))\<lparr>fb_song_eof := True\<rparr>, p_play_state := STATE_AFTER_SONG\<rparr>"
  obtain db fs where fb: "feedback cfg (Some i) (- 1) (w_db (p_world p)) (w_fs (p_world p)) = Inr (db, fs)"
    using assms(2) by (auto simp: returns_def split: sum.splits)
  define w where "w = (p_world p)\<lparr>w_db := db, w_fs := fs\<rparr>"
  obtain q1 q2 where c: "player_queue_command CMD_SKIP (p_commands p) = Inr q1" "cq_head q1 \<noteq> None" "queue_clear q2"
    "process_commands (handle_command cfg) q1 (p\<lparr>p_commands := q1\<rparr>) =
       map_result (\<lambda>s. (q2, s)) (handle_command cfg CMD_SKIP (p\<lparr>p_commands := q1\<rparr>))"
    using queued_command [of "p_commands p" CMD_SKIP "handle_command cfg"] assms(1) unfolding last_frames_def by metis
  define p1 where "p1 = p\<lparr>p_commands := q1\<rparr>"
  have s1: "playback cfg opens (Queue_Command CMD_SKIP) p = Inr (Some p1)" using c(1) by (simp add: p1_def)
  have h: "handle_command cfg CMD_SKIP p1 = Inr (?p0\<lparr>p_commands := q1, p_world := w\<rparr>)"
    using assms(1) fb
    by (simp add: handle_command_def Let_def player_feedback_def last_frames_def p1_def w_def drop_frames_def)
  define p2 where "p2 = ?p0\<lparr>p_commands := q2, p_world := w, p_checked := True\<rparr>"
  have "player_read_commands cfg p1 = Inr (?p0\<lparr>p_commands := q2, p_world := w\<rparr>)"
    using c(4) h by (simp add: player_read_commands_def p1_def)
  then have s2: "playback cfg opens Read_Commands p1 = Inr (Some p2)"
    using assms(1) c(2)
    by (cases "cq_head q1") (simp_all add: p2_def p1_def player_top_def last_frames_def player_waits_def)
  obtain qs where d: "done_with_song_info (Some i) (w_queues (p_world p)) = Inr qs"
    "queues_hold qs xs (take (nat (q_wanted_size (past_queue (w_queues (p_world p))))) (Some i # ys))"
    using done_hold [of "w_queues (p_world p)" xs ys "Some i"] assms(1) unfolding last_frames_def by blast
  define p3 where "p3 = p2\<lparr>p_world := w\<lparr>w_queues := qs\<rparr>, p_device_open := False, p_play_state := STATE_BEFORE_SONG,
    p_checked := False\<rparr>"
  have s3: "playback cfg opens Body p2 = Inr (Some p3)"
    using d(1) assms(1)
    by (simp add: p3_def p2_def player_body_def end_song_def last_frames_def w_def)
  have run: "playback_run cfg opens p [Queue_Command CMD_SKIP, Read_Commands, Body] p3"
    by (rule playback_run.more [OF s1], rule playback_run.more [OF s2], rule playback_run.more [OF s3], rule playback_run.stop)
  have "player_feedback cfg (- 1) ?p0 = Inr (?p0\<lparr>p_world := w\<rparr>)"
    using fb assms(1) by (simp add: player_feedback_def w_def last_frames_def)
  from feedback_playable [OF this, of j] have "playable p3 j"
    using assms(3) by (simp add: playable_def p3_def p2_def)
  then show ?thesis
    using run d(2) c(3) assms(1)
    by (intro exI [of _ p3] exI conjI)
      (simp_all add: p3_def p2_def last_frames_def decoder_idle_def queue_clear_def)
qed

lemma player_takes_song:
  assumes "p_play_state p = STATE_BEFORE_SONG" and "p_state p = STATE_PLAY" and "\<not> p_waits_data p" "\<not> p_keeps_locks p"
    "\<not> p_checked p" and "cq_head (p_commands p) = None" and "queues_hold (w_queues (p_world p)) ((Some j, Some n) # xs) ys"
    and "playable p j" and "\<And>name. opens name" and "decoder_idle p"
  shows "\<exists>q d. playback_run cfg opens p [Read_Commands, Body] q \<and> decoder_idle q \<and> fb_new_file (p_buffer q) \<and>
    fb_song_eof (p_buffer q) = fb_song_eof (p_buffer p) \<and> fb_frames (p_buffer q) = [] \<and> fb_pcm_size (p_buffer q) = 0 \<and>
    fb_decoder (p_buffer q) = Some d \<and> d \<in> set (p_decoders q) \<and> \<not> p_keeps_locks q \<and>
    p_play_state q = STATE_IN_SONG \<and> p_state q = STATE_PLAY \<and> cq_head (p_commands q) = None \<and> \<not> p_checked q \<and>
    \<not> p_waits_data q"
proof -
  obtain t where t: "song_type (songs (w_db (p_world p)) ! j) = Some t" "t \<noteq> TYPE_UNKNOWN" "j < length (songs (w_db (p_world p)))"
    using assms(8) by (auto simp: playable_def)
  obtain qs where g: "get_next_song_info (w_queues (p_world p)) = Inr ((Some j, Some n), qs)"
    using dequeue_hold [OF assms(7)] by blast
  have n: "0 < q_size (song_queue (w_queues (p_world p)))"
    using assms(7) by (auto simp: queues_hold_def queues_at_def queue_of_def)
  have "\<exists>q d. begin_song opens (p\<lparr>p_checked := True\<rparr>) = Inr (Some q) \<and> decoder_idle q \<and> fb_new_file (p_buffer q) \<and>
    fb_song_eof (p_buffer q) = fb_song_eof (p_buffer p) \<and> fb_frames (p_buffer q) = [] \<and> fb_pcm_size (p_buffer q) = 0 \<and>
    fb_decoder (p_buffer q) = Some d \<and> d \<in> set (p_decoders q) \<and> \<not> p_keeps_locks q \<and>
    p_play_state q = STATE_IN_SONG \<and> p_state q = STATE_PLAY \<and> cq_head (p_commands q) = None \<and> \<not> p_waits_data q"
    using g n t assms by (simp add: begin_song_def Let_def read_at_def decoder_idle_def drop_frames_def)
  then obtain q d where q: "begin_song opens (p\<lparr>p_checked := True\<rparr>) = Inr (Some q)" "decoder_idle q" "fb_new_file (p_buffer q)"
    "fb_song_eof (p_buffer q) = fb_song_eof (p_buffer p)" "fb_frames (p_buffer q) = []" "fb_pcm_size (p_buffer q) = 0"
    "fb_decoder (p_buffer q) = Some d" "d \<in> set (p_decoders q)" "\<not> p_keeps_locks q"
    "p_play_state q = STATE_IN_SONG" "p_state q = STATE_PLAY" "cq_head (p_commands q) = None" "\<not> p_waits_data q" by blast
  have s1: "playback cfg opens Read_Commands p = Inr (Some (p\<lparr>p_checked := True\<rparr>))"
    using assms by (simp add: player_top_def player_waits_def)
  have s2: "playback cfg opens Body (p\<lparr>p_checked := True\<rparr>) = Inr (Some (q\<lparr>p_checked := False\<rparr>))"
    using q(1) assms(1,3) by (simp add: player_body_def)
  have "playback_run cfg opens p [Read_Commands, Body] (q\<lparr>p_checked := False\<rparr>)"
    by (rule playback_run.more [OF s1], rule playback_run.more [OF s2], rule playback_run.stop)
  then show ?thesis using q
    by (intro exI [of _ "q\<lparr>p_checked := False\<rparr>"] exI [of _ d]) (simp add: decoder_idle_def)
qed

text \<open>The player thread plays what is in the buffer and then waits.\<close>

lemma player_plays_and_waits:
  assumes "p_play_state p = STATE_IN_SONG" and "p_state p = STATE_PLAY" and "\<not> p_waits_data p" "\<not> p_checked p"
    and "cq_head (p_commands p) = None" and "fb_frames (p_buffer p) = [f]" and "0 < fd_pcm_size f"
    and "decoder_idle p" and "\<not> fb_new_file (p_buffer p)"
  shows "\<exists>q. playback_run cfg opens p [Read_Commands, Body, Read_Commands, Body] q \<and> hung q"
proof -
  obtain silent d where sd: "detect_silence f (p_silence p) = (silent, d)" by force
  define p1 where "p1 = p\<lparr>p_checked := True\<rparr>"
  define p2 where "p2 = p1\<lparr>p_buffer := (p_buffer p)\<lparr>fb_frames := [], fb_pcm_size := fb_pcm_size (p_buffer p) - fd_pcm_size f\<rparr>,
    p_position := fd_position f, p_silence := d, p_sound := (if silent then p_sound p else p_sound p @ [f]), p_checked := False\<rparr>"
  define p3 where "p3 = p2\<lparr>p_checked := True\<rparr>"
  define p4 where "p4 = p3\<lparr>p_waits_data := True, p_checked := False\<rparr>"
  have s1: "playback cfg opens Read_Commands p = Inr (Some p1)"
    using assms by (simp add: p1_def player_top_def player_waits_def)
  have "player_body cfg opens p1 = Inr (Some (p2\<lparr>p_checked := True\<rparr>))"
    using assms sd by (simp add: p2_def p1_def player_body_def play_frame_def Let_def)
  then have s2: "playback cfg opens Body p1 = Inr (Some p2)"
    using assms by (simp add: p2_def p1_def)
  have s3: "playback cfg opens Read_Commands p2 = Inr (Some p3)"
    using assms by (simp add: p3_def p2_def p1_def player_top_def player_waits_def)
  have s4: "playback cfg opens Body p3 = Inr (Some p4)"
    using assms by (simp add: p4_def p3_def p2_def p1_def player_body_def play_frame_def)
  have "playback_run cfg opens p [Read_Commands, Body, Read_Commands, Body] p4"
    by (rule playback_run.more [OF s1], rule playback_run.more [OF s2], rule playback_run.more [OF s3],
      rule playback_run.more [OF s4], rule playback_run.stop)
  moreover have "hung p4" using assms by (simp add: hung_def p4_def p3_def p2_def p1_def decoder_idle_def)
  ultimately show ?thesis by blast
qed

text \<open>C39. Skipping a song while its last frames are playing can hang the player: \<open>CMD_SKIP\<close>
  sets \<open>song_eof\<close>, but the decoder thread, having closed that song, never clears it;
  it is still set when the next song is handed over, so its decoder is closed after
  one frame, and after playing that frame the player waits for ever.\<close>

theorem skip_at_end_hangs:
  assumes "last_frames p i ((Some j, Some n) # xs) ys"
    and "returns (feedback cfg (Some i) (- 1) (w_db (p_world p)) (w_fs (p_world p)))"
    and "playable p j" and "\<And>name. opens name" and "0 < fd_pcm_size f"
  shows "\<exists>q. playback_run cfg opens p
      [Queue_Command CMD_SKIP, Read_Commands, Body, Read_Commands, Body,
       Wake, Decode None, Commit, Wake, Decode (Some f), Commit, Read_Commands, Body, Read_Commands, Body] q \<and> hung q"
proof -
  obtain q zs where q: "playback_run cfg opens p [Queue_Command CMD_SKIP, Read_Commands, Body] q"
    "p_play_state q = STATE_BEFORE_SONG" "p_state q = STATE_PLAY" "decoder_idle q"
    "fb_song_eof (p_buffer q)" "\<not> p_waits_data q" "\<not> p_keeps_locks q" "\<not> p_checked q" "cq_head (p_commands q) = None"
    "queues_hold (w_queues (p_world q)) ((Some j, Some n) # xs) zs" "playable q j"
    using skip_ends_song [OF assms(1,2,3), of opens] by blast
  obtain r d where r: "playback_run cfg opens q [Read_Commands, Body] r" "decoder_idle r" "fb_new_file (p_buffer r)"
    "fb_song_eof (p_buffer r)" "fb_frames (p_buffer r) = []" "fb_pcm_size (p_buffer r) = 0"
    "fb_decoder (p_buffer r) = Some d" "d \<in> set (p_decoders r)" "\<not> p_keeps_locks r"
    "p_play_state r = STATE_IN_SONG" "p_state r = STATE_PLAY" "cq_head (p_commands r) = None" "\<not> p_checked r"
    "\<not> p_waits_data r"
    using player_takes_song [where opens = opens, OF q(2,3,6,7,8,9,10,11) assms(4) q(4), of cfg] q(5) by auto
  obtain s where s: "playback_run cfg opens r [Wake, Decode None, Commit, Wake, Decode (Some f), Commit] s"
    "decoder_idle s" "\<not> fb_new_file (p_buffer s)" "fb_frames (p_buffer s) = [f]" "same_player r s"
    using stale_eof_closes_song [OF r(2-9) assms(5), of cfg opens] by blast
  obtain z where z: "playback_run cfg opens s [Read_Commands, Body, Read_Commands, Body] z" "hung z"
    using player_plays_and_waits [of s f cfg opens] s r assms(5) unfolding same_player_def by auto
  have "playback_run cfg opens p ([Queue_Command CMD_SKIP, Read_Commands, Body] @ [Read_Commands, Body] @
      [Wake, Decode None, Commit, Wake, Decode (Some f), Commit] @ [Read_Commands, Body, Read_Commands, Body]) z"
    by (intro playback_run_append [OF q(1)] playback_run_append [OF r(1)] playback_run_append [OF s(1)] z(1))
  then show ?thesis using z(2) by auto
qed

definition ex_ending :: player where
  "ex_ending = (start_player ex_play_world)\<lparr>p_play_state := STATE_IN_SONG, p_state := STATE_PLAY, p_cur_song := Some 0,
     p_decoder := \<lparr>dt_decoder = None, dt_new_frame = None, dt_phase = Waiting\<rparr>\<rparr>"

lemma ex_play_world_queue:
  "queues_hold (w_queues ex_play_world) [(Some 0, Some 0)] [] \<and> q_wanted_size (past_queue (w_queues ex_play_world)) = 2"
proof -
  obtain s' where s': "enqueue_song (Some 0) 0 (empty_queues 2 2) = Inr s'" "queues_hold s' ([] @ [(Some 0, Some 0)]) []"
    "past_queue s' = past_queue (empty_queues 2 2)"
    using enqueue_hold [OF empty_queues_hold] by blast
  then show ?thesis by (simp add: ex_play_world_def empty_queues_def empty_queue_def)
qed

theorem skip_at_end_hangs_witness:
  "\<exists>q. playback_run ex_config (\<lambda>_. True) ex_ending
      [Queue_Command CMD_SKIP, Read_Commands, Body, Read_Commands, Body,
       Wake, Decode None, Commit, Wake, Decode (Some (ex_frame 0)), Commit, Read_Commands, Body, Read_Commands, Body] q \<and> hung q"
proof -
  have f: "last_frames ex_ending 0 ((Some 0, Some 0) # []) []"
    using ex_play_world_queue
    by (simp add: last_frames_def ex_ending_def start_player_def decoder_idle_def queue_clear_def no_commands_def)
  have "stats_loaded (w_db ex_play_world) = False" "songs (w_db ex_play_world) = [ex_ready_song]"
    by (simp_all add: ex_play_world_def ex_db_def)
  then have r: "returns (feedback ex_config (Some 0) (- 1) (w_db (p_world ex_ending)) (w_fs (p_world ex_ending)))"
    by (simp add: ex_ending_def start_player_def feedback_def read_at_def Let_def save_song_cases needs_save_def)
  have "playable ex_ending 0"
    by (simp add: playable_def ex_ending_def start_player_def ex_play_world_def ex_ready_song_def ex_song_def new_song_def
        get_song_type_def)
  from skip_at_end_hangs [OF f r this, of "\<lambda>_. True" "ex_frame 0"] show ?thesis by (simp add: ex_frame_def)
qed

text \<open>A skip before the first song is played, or a stop while the last frames of a song
  are playing, is a memory error: \<open>feedback()\<close> is called without a song, and the
  decoder to rewind is closed.\<close>

theorem command_faults:
  assumes "p_waits_data p = False" "p_keeps_locks p = False" "p_checked p = False" and "queue_clear (p_commands p)"
  shows "(p_cur_song p = None \<longrightarrow>
      (\<exists>q. playback cfg opens (Queue_Command CMD_SKIP) p = Inr (Some q) \<and>
         playback cfg opens Read_Commands q = Inl Null_Deref)) \<and>
    (p_play_state p = STATE_IN_SONG \<and> fb_decoder (p_buffer p) = Some d \<and> d \<notin> set (p_decoders p) \<longrightarrow>
      (\<exists>q. playback cfg opens (Queue_Command CMD_STOP) p = Inr (Some q) \<and>
         playback cfg opens Read_Commands q = Inl Use_After_Free))"
proof -
  have *: "\<exists>q. playback cfg opens (Queue_Command c) p = Inr (Some q) \<and> playback cfg opens Read_Commands q = Inl e"
    if "\<And>q1. handle_command cfg c (p\<lparr>p_commands := q1\<rparr>) = Inl e" for c e
  proof -
    obtain q1 q2 where q: "player_queue_command c (p_commands p) = Inr q1" "cq_head q1 \<noteq> None"
      "process_commands (handle_command cfg) q1 (p\<lparr>p_commands := q1\<rparr>) =
         map_result (\<lambda>s. (q2, s)) (handle_command cfg c (p\<lparr>p_commands := q1\<rparr>))"
      using queued_command [OF assms(4), of c "handle_command cfg"] by metis
    then have "player_top cfg (p\<lparr>p_commands := q1\<rparr>) = Inl e"
      using that by (auto simp: player_top_def player_read_commands_def)
    then show ?thesis using q(1) assms by (intro exI [of _ "p\<lparr>p_commands := q1\<rparr>"]) simp
  qed
  show ?thesis
  proof (intro conjI impI)
    assume "p_cur_song p = None"
    then show "\<exists>q. playback cfg opens (Queue_Command CMD_SKIP) p = Inr (Some q) \<and>
        playback cfg opens Read_Commands q = Inl Null_Deref"
      by (intro *) (simp add: handle_command_def Let_def player_feedback_def feedback_def)
  next
    assume "p_play_state p = STATE_IN_SONG \<and> fb_decoder (p_buffer p) = Some d \<and> d \<notin> set (p_decoders p)"
    then show "\<exists>q. playback cfg opens (Queue_Command CMD_STOP) p = Inr (Some q) \<and>
        playback cfg opens Read_Commands q = Inl Use_After_Free"
      by (intro *) (simp add: handle_command_def Let_def)
  qed
qed

theorem command_faults_witness:
  "\<exists>q. playback ex_config (\<lambda>_. True) (Queue_Command CMD_SKIP) (start_player ex_world) = Inr (Some q) \<and>
     playback ex_config (\<lambda>_. True) Read_Commands q = Inl Null_Deref"
  using command_faults [of "start_player ex_world" ex_config "\<lambda>_. True" 0]
  by (auto simp: start_player_def queue_clear_def no_commands_def)

end
