(* ===== verification/Windows.thy ===== *)
theory Windows
  imports Complex_Main Squash_Base
begin

text \<open>
  The windows of the ncurses display: \<open>window_init()\<close> and the layout computed by
  \<open>draw_screen()\<close> in \<open>src/src/display.c\<close>.  The windows are kept in the order of
  \<open>enum windows_e\<close>.  The contents of the windows are not modelled; a window of the
  screen library is its height, width and top line.  The proofs show that a layout
  covers the screen without gaps and overlaps.
\<close>

section \<open>Windows\<close>

datatype window_state = WIN_STATE_NORMAL | WIN_STATE_HIDDEN | WIN_STATE_MAXIMIZED

datatype window = WIN_NOW_PLAYING | WIN_INFO | WIN_SPECTRUM | WIN_PASTLIST | WIN_PLAYLIST | WIN_HELP

definition window_number :: "window \<Rightarrow> nat" where
  "window_number w =
     (case w of WIN_NOW_PLAYING \<Rightarrow> 0 | WIN_INFO \<Rightarrow> 1 | WIN_SPECTRUM \<Rightarrow> 2 | WIN_PASTLIST \<Rightarrow> 3 | WIN_PLAYLIST \<Rightarrow> 4 | WIN_HELP \<Rightarrow> 5)"

record area =
  a_height :: int
  a_width :: int
  a_top :: int

text \<open>The union \<open>size\<close>: \<open>fixed.height\<close> and \<open>calc.height\<close> are the same field.\<close>

record win_info =
  w_area :: "area option"
  w_height :: int
  w_weight :: int
  w_min_height :: int
  w_state :: window_state
  w_fixed :: bool
  w_persistent :: bool

definition fixed_window :: "bool \<Rightarrow> int \<Rightarrow> win_info" where
  "fixed_window persistent height =
     \<lparr>w_area = None, w_height = height, w_weight = 0, w_min_height = 0, w_state = WIN_STATE_NORMAL,
      w_fixed = True, w_persistent = persistent\<rparr>"

definition calc_window :: "int \<Rightarrow> int \<Rightarrow> window_state \<Rightarrow> win_info" where
  "calc_window weight min_height st =
     \<lparr>w_area = None, w_height = 0, w_weight = weight, w_min_height = min_height, w_state = st,
      w_fixed = False, w_persistent = False\<rparr>"

definition window_init :: "win_info list" where
  "window_init =
     [fixed_window True 7,
      fixed_window False 9,
      calc_window 20 5 WIN_STATE_HIDDEN,
      calc_window 50 4 WIN_STATE_HIDDEN,
      calc_window 50 4 WIN_STATE_NORMAL,
      fixed_window False 3]"

section \<open>The layout\<close>

text \<open>The first loop: at most one window, of calculated size, stays maximized.\<close>

fun find_maximized :: "nat \<Rightarrow> nat option \<Rightarrow> win_info list \<Rightarrow> win_info list \<times> nat option" where
  "find_maximized i m [] = ([], m)"
| "find_maximized i m (w # ws) =
     (if w_state w = WIN_STATE_MAXIMIZED then
        (if w_fixed w \<or> m \<noteq> None
         then (case find_maximized (i + 1) m ws of (ws', m') \<Rightarrow> (w\<lparr>w_state := WIN_STATE_NORMAL\<rparr> # ws', m'))
         else (case find_maximized (i + 1) (Some i) ws of (ws', m') \<Rightarrow> (w # ws', m')))
      else (case find_maximized (i + 1) m ws of (ws', m') \<Rightarrow> (w # ws', m')))"

text \<open>The second loop: old windows are deleted; a window takes rows and has a weight.\<close>

definition count_row :: "nat option \<Rightarrow> nat \<Rightarrow> win_info \<Rightarrow> win_info \<times> int \<times> int" where
  "count_row m i w =
     (let w = w\<lparr>w_area := None\<rparr> in
      if w_state w = WIN_STATE_HIDDEN then (w, 0, 0)
      else if m \<noteq> None then
        (if m \<noteq> Some i \<and> w_persistent w
         then (let w = (if w_fixed w then w else w\<lparr>w_height := w_min_height w\<rparr>) in (w, w_height w, 0))
         else (w, if m = Some i then w_min_height w else 0, 0))
      else if \<not> w_fixed w then (w, w_min_height w, w_weight w)
      else (w, w_height w, 0))"

fun count_rows :: "nat option \<Rightarrow> nat \<Rightarrow> int \<Rightarrow> int \<Rightarrow> win_info list \<Rightarrow> win_info list \<times> int \<times> int" where
  "count_rows m i rows weights [] = ([], rows, weights)"
| "count_rows m i rows weights (w # ws) =
     (case count_row m i w of (w', r, k) \<Rightarrow>
      case count_rows m (i + 1) (rows - r) (weights + k) ws of (ws', t) \<Rightarrow> (w' # ws', t))"

text \<open>
  The third loop: heights in proportion to the weights, rounded up.  The quotient of
  two small integers is far enough from the next integer for the \<open>double\<close> division to
  round to the same side.
\<close>

fun set_heights :: "int \<Rightarrow> int \<Rightarrow> int \<Rightarrow> win_info list \<Rightarrow> win_info list" where
  "set_heights rows weights used [] = []"
| "set_heights rows weights used (w # ws) =
     (if w_state w = WIN_STATE_HIDDEN \<or> w_fixed w then w # set_heights rows weights used ws
      else
        (let height = ceiling (rat_of_int (rows * w_weight w) / rat_of_int weights);
             height = (if rows - used < height then rows - used else height) in
         w\<lparr>w_height := height + w_min_height w\<rparr> # set_heights rows weights (used + height) ws))"

definition displayed :: "nat option \<Rightarrow> nat \<Rightarrow> win_info \<Rightarrow> bool" where
  "displayed m i w \<longleftrightarrow> \<not> (w_state w = WIN_STATE_HIDDEN \<or> m \<noteq> Some i \<and> m \<noteq> None \<and> \<not> w_persistent w)"

text \<open>The last loop: windows from the top down.\<close>

fun create_windows :: "nat option \<Rightarrow> int \<Rightarrow> nat \<Rightarrow> int \<Rightarrow> win_info list \<Rightarrow> win_info list" where
  "create_windows m width i cur_top [] = []"
| "create_windows m width i cur_top (w # ws) =
     (if displayed m i w
      then w\<lparr>w_area := Some \<lparr>a_height = w_height w, a_width = width, a_top = cur_top\<rparr>\<rparr> #
           create_windows m width (i + 1) (cur_top + w_height w) ws
      else w # create_windows m width (i + 1) cur_top ws)"

record display =
  d_windows :: "win_info list"
  d_focus :: window
  d_too_small :: bool

definition draw_screen :: "int \<Rightarrow> int \<Rightarrow> display \<Rightarrow> display" where
  "draw_screen screen_height screen_width d =
     (case find_maximized 0 None (d_windows d) of (ws, m) \<Rightarrow>
      case count_rows m 0 screen_height 0 ws of (ws, rows, weights) \<Rightarrow>
      if rows < 0 \<or> screen_width < 45 then d\<lparr>d_windows := ws, d_too_small := True\<rparr>
      else
        (let ws = (case m of
                     Some i \<Rightarrow> ws[i := (ws ! i)\<lparr>w_height := rows + w_min_height (ws ! i)\<rparr>]
                   | None \<Rightarrow> set_heights rows weights 0 ws) in
         d\<lparr>d_windows := create_windows m screen_width 0 0 ws, d_too_small := False\<rparr>))"

text \<open>The size given to the spectrum analyser: that of its window, or 0 by 0.\<close>

definition spectrum_size :: "display \<Rightarrow> int \<times> int" where
  "spectrum_size d =
     (case w_area (d_windows d ! window_number WIN_SPECTRUM) of
        None \<Rightarrow> (0, 0)
      | Some a \<Rightarrow> (a_height a, a_width a))"

section \<open>Tiling\<close>

definition areas :: "win_info list \<Rightarrow> area list" where
  "areas ws = List.map_filter w_area ws"

lemma areas_simps [simp]:
  "areas [] = []" "areas (w # ws) = (case w_area w of None \<Rightarrow> areas ws | Some a \<Rightarrow> a # areas ws)"
  by (simp_all add: areas_def split: option.splits)

text \<open>The areas follow one another from line \<open>t\<close> down to line \<open>e\<close>.\<close>

fun tiles :: "int \<Rightarrow> area list \<Rightarrow> int \<Rightarrow> bool" where
  "tiles t [] e = (t = e)"
| "tiles t (a # as) e = (a_top a = t \<and> tiles (t + a_height a) as e)"

text \<open>What the loops rely on, and what the screen keeps.\<close>

definition window_ok :: "win_info \<Rightarrow> bool" where
  "window_ok w \<longleftrightarrow> (if w_fixed w then 0 \<le> w_height w else 0 < w_weight w \<and> 0 \<le> w_min_height w)"

definition windows_ok :: "win_info list \<Rightarrow> bool" where
  "windows_ok ws \<longleftrightarrow> length ws = 6 \<and> (\<forall>w \<in> set ws. window_ok w)"

lemma window_ok_upd [simp]:
  "window_ok (w\<lparr>w_area := a\<rparr>) = window_ok w" "window_ok (w\<lparr>w_state := st\<rparr>) = window_ok w"
  by (simp_all add: window_ok_def)

lemma window_init_ok: "windows_ok window_init"
  by (simp add: windows_ok_def window_init_def window_ok_def fixed_window_def calc_window_def)

text \<open>Rows of the displayed windows.\<close>

fun shown :: "nat option \<Rightarrow> nat \<Rightarrow> win_info list \<Rightarrow> int" where
  "shown m i [] = 0"
| "shown m i (w # ws) = (if displayed m i w then w_height w else 0) + shown m (i + 1) ws"

lemma create_windows_tiles:
  assumes "\<forall>w \<in> set ws. w_area w = None"
  shows "tiles t (areas (create_windows m width i t ws)) (t + shown m i ws)"
  using assms by (induction m width i t ws rule: create_windows.induct) (auto simp: algebra_simps)

lemma length_create_windows [simp]: "length (create_windows m width i t ws) = length ws"
  by (induction m width i t ws rule: create_windows.induct) auto

lemma create_windows_nth:
  assumes "j < length ws" and "w_area (create_windows m width i t ws ! j) = Some a" and "w_area (ws ! j) = None"
  shows "displayed m (i + j) (ws ! j) \<and> a_width a = width \<and> a_height a = w_height (ws ! j)"
  using assms
proof (induction m width i t ws arbitrary: j rule: create_windows.induct)
  case (2 m width i t w ws)
  show ?case
  proof (cases j)
    case 0
    then show ?thesis using 2(4,5) by (auto split: if_splits)
  next
    case (Suc k)
    then show ?thesis using 2(1) [of k] 2(2) [of k] 2(3-5) by (cases "displayed m i w") simp_all
  qed
qed simp

text \<open>The loops keep the list, apart from states, heights and windows.\<close>

definition same_kind :: "win_info \<Rightarrow> win_info \<Rightarrow> bool" where
  "same_kind v w \<longleftrightarrow> w_fixed w = w_fixed v \<and> w_persistent w = w_persistent v \<and> w_weight w = w_weight v \<and>
     w_min_height w = w_min_height v \<and> (w_fixed v \<longrightarrow> w_height w = w_height v) \<and>
     (w_state w = WIN_STATE_HIDDEN \<longleftrightarrow> w_state v = WIN_STATE_HIDDEN)"

lemma same_kind_ok: "same_kind v w \<Longrightarrow> window_ok v \<Longrightarrow> window_ok w"
  by (simp add: same_kind_def window_ok_def split: if_splits)

lemma find_maximized_kind:
  "find_maximized i m ws = (ws', m') \<Longrightarrow> list_all2 same_kind ws ws'"
  by (induction i m ws arbitrary: ws' m' rule: find_maximized.induct)
    (auto simp: same_kind_def split: if_splits prod.splits)

lemma find_maximized_found:
  assumes "find_maximized i m ws = (ws', m')"
  shows "(m \<noteq> None \<longrightarrow> m' = m) \<and>
    (m = None \<longrightarrow> (case m' of None \<Rightarrow> \<forall>w \<in> set ws'. w_state w \<noteq> WIN_STATE_MAXIMIZED
       | Some k \<Rightarrow> i \<le> k \<and> k < i + length ws' \<and> w_state (ws' ! (k - i)) = WIN_STATE_MAXIMIZED \<and> \<not> w_fixed (ws' ! (k - i))))"
  using assms
proof (induction i m ws arbitrary: ws' m' rule: find_maximized.induct)
  case (2 i m w ws)
  obtain v m1 where a: "find_maximized (i + 1) m ws = (v, m1)" by force
  obtain u m2 where b: "find_maximized (i + 1) (Some i) ws = (u, m2)" by force
  show ?case
  proof (cases "w_state w = WIN_STATE_MAXIMIZED \<and> \<not> (w_fixed w \<or> m \<noteq> None)")
    case True
    then have "ws' = w # u" "m' = m2" using 2(4) b by auto
    moreover have "m2 = Some i" using 2(2) [OF _ _ b] True by auto
    ultimately show ?thesis using True by auto
  next
    case False
    then obtain w' where w': "m' = m1" "ws' = w' # v" "w_state w' \<noteq> WIN_STATE_MAXIMIZED"
      using 2(4) a by (auto split: if_splits)
    have shift: "i \<le> k \<and> k < i + length (w' # v) \<and> w_state ((w' # v) ! (k - i)) = WIN_STATE_MAXIMIZED \<and> \<not> w_fixed ((w' # v) ! (k - i))"
      if "i + 1 \<le> k \<and> k < i + 1 + length v \<and> w_state (v ! (k - (i + 1))) = WIN_STATE_MAXIMIZED \<and> \<not> w_fixed (v ! (k - (i + 1)))" for k
      using that by (simp add: nth_Cons')
    have "(m \<noteq> None \<longrightarrow> m1 = m) \<and>
      (m = None \<longrightarrow> (case m1 of None \<Rightarrow> \<forall>w \<in> set v. w_state w \<noteq> WIN_STATE_MAXIMIZED
       | Some k \<Rightarrow> i + 1 \<le> k \<and> k < i + 1 + length v \<and> w_state (v ! (k - (i + 1))) = WIN_STATE_MAXIMIZED \<and> \<not> w_fixed (v ! (k - (i + 1)))))"
      using 2(1) [OF _ _ a] 2(3) [OF _ a] False by blast
    note found = this
    show ?thesis
    proof (cases "m = None \<and> m1 \<noteq> None")
      case True
      then obtain k where k: "m1 = Some k" "m = None" by auto
      with found have "i + 1 \<le> k \<and> k < i + 1 + length v \<and> w_state (v ! (k - (i + 1))) = WIN_STATE_MAXIMIZED \<and> \<not> w_fixed (v ! (k - (i + 1)))"
        by simp
      from shift [OF this] k show ?thesis unfolding w'(1,2) by simp
    next
      case False
      then show ?thesis using found w' by (cases m1) auto
    qed
  qed
qed simp

lemma count_row_kind:
  assumes "count_row m i w = (w', r)"
  shows "same_kind w w' \<and> w_area w' = None \<and> w_state w' = w_state w"
proof -
  have "w' = w\<lparr>w_area := None\<rparr> \<or> w' = w\<lparr>w_area := None, w_height := w_min_height w\<rparr> \<and> \<not> w_fixed w"
    using assms by (auto simp: count_row_def Let_def split: if_splits)
  then show ?thesis by (auto simp: same_kind_def)
qed

lemma count_rows_kind:
  "count_rows m i rows weights ws = (ws', r) \<Longrightarrow>
     list_all2 same_kind ws ws' \<and> (\<forall>w \<in> set ws'. w_area w = None) \<and> map w_state ws' = map w_state ws"
proof (induction ws arbitrary: i rows weights ws' r)
  case (Cons w ws)
  obtain w' a k where c: "count_row m i w = (w', a, k)" by (cases "count_row m i w") auto
  obtain v u where v: "count_rows m (i + 1) (rows - a) (weights + k) ws = (v, u)"
    by (cases "count_rows m (i + 1) (rows - a) (weights + k) ws") auto
  have "ws' = w' # v" using Cons.prems c v by simp
  then show ?case using Cons.IH [OF v] count_row_kind [OF c] by simp
qed simp

text \<open>The rows that are taken and the weights that are given by the windows from number \<open>i\<close> on.\<close>

fun need :: "nat option \<Rightarrow> nat \<Rightarrow> win_info list \<Rightarrow> int" where
  "need m i [] = 0"
| "need m i (w # ws) = fst (snd (count_row m i w)) + need m (i + 1) ws"

fun weigh :: "nat option \<Rightarrow> nat \<Rightarrow> win_info list \<Rightarrow> int" where
  "weigh m i [] = 0"
| "weigh m i (w # ws) = snd (snd (count_row m i w)) + weigh m (i + 1) ws"

lemma count_rows_result:
  "count_rows m i rows weights ws = (ws', r, k) \<Longrightarrow> r = rows - need m i ws \<and> k = weights + weigh m i ws"
proof (induction ws arbitrary: i rows weights ws' r k)
  case (Cons w ws)
  obtain w' a b where c: "count_row m i w = (w', a, b)" by (cases "count_row m i w") auto
  obtain v u l where v: "count_rows m (i + 1) (rows - a) (weights + b) ws = (v, u, l)"
    by (cases "count_rows m (i + 1) (rows - a) (weights + b) ws") auto
  show ?case using Cons.IH [OF v] Cons.prems c v by simp
qed simp

text \<open>Counting the windows that are left over gives the same.\<close>

lemma count_row_again: "count_row m i w = (w', a, b) \<Longrightarrow> snd (count_row m i w') = (a, b)"
  by (auto simp: count_row_def Let_def split: if_splits)

lemma need_again:
  "count_rows m i rows weights ws = (ws', r) \<Longrightarrow> need m i ws' = need m i ws \<and> weigh m i ws' = weigh m i ws"
proof (induction ws arbitrary: i rows weights ws' r)
  case (Cons w ws)
  obtain w' a b where c: "count_row m i w = (w', a, b)" by (cases "count_row m i w") auto
  obtain v u where v: "count_rows m (i + 1) (rows - a) (weights + b) ws = (v, u)"
    by (cases "count_rows m (i + 1) (rows - a) (weights + b) ws") auto
  show ?case using Cons.IH [OF v] Cons.prems c v count_row_again [OF c] by auto
qed simp

text \<open>Without a maximized window: the calculated windows share all the rows that are left.\<close>

lemma count_row_none [simp]:
  "snd (count_row None i w) = (if w_state w = WIN_STATE_HIDDEN then (0, 0)
     else if w_fixed w then (w_height w, 0) else (w_min_height w, w_weight w))"
  by (simp add: count_row_def Let_def)

lemma displayed_none [simp]: "displayed None i w \<longleftrightarrow> w_state w \<noteq> WIN_STATE_HIDDEN"
  by (simp add: displayed_def)

lemma weigh_nonneg: "\<forall>w \<in> set ws. window_ok w \<Longrightarrow> 0 \<le> weigh None i ws"
  by (induction ws arbitrary: i) (force simp: window_ok_def split: if_splits)+

lemma share_bounds:
  assumes "0 \<le> rows" and "0 < weights" and "0 \<le> weight"
  shows "0 \<le> ceiling (rat_of_int (rows * weight) / rat_of_int weights)"
    and "rows * weight \<le> ceiling (rat_of_int (rows * weight) / rat_of_int weights) * weights"
proof -
  let ?q = "rat_of_int (rows * weight) / rat_of_int weights"
  have "0 \<le> ?q" using assms by simp
  then show "0 \<le> ceiling ?q" by (simp add: ceiling_le_zero [symmetric])
  have "?q \<le> rat_of_int (ceiling ?q)" by (rule le_of_int_ceiling)
  then have "?q * rat_of_int weights \<le> rat_of_int (ceiling ?q) * rat_of_int weights"
    using assms(2) by (intro mult_right_mono) auto
  moreover have "?q * rat_of_int weights = rat_of_int (rows * weight)" using assms(2) by simp
  ultimately have "rat_of_int (rows * weight) \<le> rat_of_int (ceiling ?q * weights)" by (simp only: of_int_mult)
  then show "rows * weight \<le> ceiling ?q * weights" by (simp only: of_int_le_iff)
qed

lemma set_heights_fill:
  assumes "\<forall>w \<in> set ws. window_ok w" and "0 \<le> rows" and "0 < weights" and "used \<le> rows"
    and "rows * (weights - weigh None i ws) \<le> used * weights"
  shows "shown None i (set_heights rows weights used ws) = need None i ws + (rows - used)"
  using assms
proof (induction ws arbitrary: i used)
  case Nil
  then have "rows \<le> used" by simp
  then show ?case using Nil by simp
next
  case (Cons w ws)
  show ?case
  proof (cases "w_state w = WIN_STATE_HIDDEN \<or> w_fixed w")
    case True
    then show ?thesis using Cons.IH [of used "i + 1"] Cons.prems by auto
  next
    case False
    define c where "c = ceiling (rat_of_int (rows * w_weight w) / rat_of_int weights)"
    define h where "h = (if rows - used < c then rows - used else c)"
    have w: "0 \<le> w_weight w" using False Cons.prems by (simp add: window_ok_def)
    note c = share_bounds [OF Cons.prems(2,3) w, folded c_def]
    have "rows * (weights - weigh None (i + 1) ws) \<le> (used + h) * weights"
    proof (cases "rows - used < c")
      case True
      then have u: "used + h = rows" by (simp add: h_def)
      have "rows * (weights - weigh None (i + 1) ws) \<le> rows * weights"
        using Cons.prems(1,2) weigh_nonneg [of ws "i + 1"] by (intro mult_left_mono) auto
      then show ?thesis unfolding u .
    next
      case F: False
      then show ?thesis using Cons.prems(5) c(2) False by (simp add: h_def algebra_simps)
    qed
    moreover have "used + h \<le> rows" by (simp add: h_def)
    moreover have "set_heights rows weights used (w # ws) =
        w\<lparr>w_height := h + w_min_height w\<rparr> # set_heights rows weights (used + h) ws"
      using False by (simp only: set_heights.simps Let_def c_def h_def if_False)
    ultimately show ?thesis
      using Cons.IH [of "used + h" "i + 1"] Cons.prems(1-4) False by simp
  qed
qed

lemma set_heights_nothing:
  assumes "\<forall>w \<in> set ws. window_ok w" and "weigh None i ws = 0"
  shows "set_heights rows weights used ws = ws \<and> shown None i ws = need None i ws"
  using assms
proof (induction ws arbitrary: i)
  case (Cons w ws)
  then have "0 \<le> weigh None (i + 1) ws" by (simp add: weigh_nonneg)
  then show ?case using Cons by (auto simp: window_ok_def split: if_splits)
qed simp

lemma set_heights_nth:
  assumes "\<forall>w \<in> set ws. window_ok w" and "0 \<le> rows" and "used \<le> rows"
    and "j < length ws"
    and "(\<exists>w \<in> set ws. w_state w \<noteq> WIN_STATE_HIDDEN \<and> \<not> w_fixed w) \<longrightarrow> 0 < weights"
  shows "same_kind (ws ! j) (set_heights rows weights used ws ! j) \<and>
    w_area (set_heights rows weights used ws ! j) = w_area (ws ! j) \<and>
    (w_state (ws ! j) \<noteq> WIN_STATE_HIDDEN \<and> \<not> w_fixed (ws ! j) \<longrightarrow>
       w_min_height (ws ! j) \<le> w_height (set_heights rows weights used ws ! j))"
  using assms
proof (induction ws arbitrary: j used)
  case (Cons w ws)
  show ?case
  proof (cases "w_state w = WIN_STATE_HIDDEN \<or> w_fixed w")
    case True
    then show ?thesis using Cons.IH [of used "j - 1"] Cons.prems by (cases j) (auto simp: same_kind_def)
  next
    case False
    define c where "c = ceiling (rat_of_int (rows * w_weight w) / rat_of_int weights)"
    define h where "h = (if rows - used < c then rows - used else c)"
    have "0 \<le> c" using share_bounds(1) [of rows weights "w_weight w"] Cons.prems False
      by (auto simp: c_def window_ok_def)
    then have h: "0 \<le> h" "used + h \<le> rows" using Cons.prems by (auto simp: h_def)
    have step: "set_heights rows weights used (w # ws) =
        w\<lparr>w_height := h + w_min_height w\<rparr> # set_heights rows weights (used + h) ws"
      using False by (simp only: set_heights.simps Let_def c_def h_def if_False)
    show ?thesis unfolding step
      using Cons.IH [of "used + h" "j - 1"] Cons.prems False h by (cases j) (auto simp: same_kind_def)
  qed
qed simp

lemma length_set_heights [simp]: "length (set_heights rows weights used ws) = length ws"
  by (induction rows weights used ws rule: set_heights.induct) (auto simp: Let_def)

text \<open>With window \<open>k\<close> maximized: it takes what the persistent windows leave.\<close>

lemma count_row_other:
  assumes "count_row (Some k) i w = (w', a, b)" and "i \<noteq> k"
  shows "(if displayed (Some k) i w' then w_height w' else 0) = a"
  using assms by (auto simp: count_row_def Let_def displayed_def split: if_splits)

lemma count_row_chosen:
  assumes "count_row (Some k) k w = (w', a, b)" and "w_state w \<noteq> WIN_STATE_HIDDEN"
  shows "a = w_min_height w \<and> w_min_height w' = w_min_height w \<and> displayed (Some k) k (w'\<lparr>w_height := h\<rparr>)"
  using assms by (auto simp: count_row_def Let_def displayed_def split: if_splits)

lemma shown_others:
  "count_rows (Some k) i rows weights vs = (ws, r) \<Longrightarrow> k < i \<Longrightarrow> shown (Some k) i ws = need (Some k) i vs"
proof (induction vs arbitrary: i rows weights ws r)
  case (Cons w vs)
  obtain w' a b where c: "count_row (Some k) i w = (w', a, b)" by (cases "count_row (Some k) i w") auto
  obtain v u where v: "count_rows (Some k) (i + 1) (rows - a) (weights + b) vs = (v, u)"
    by (cases "count_rows (Some k) (i + 1) (rows - a) (weights + b) vs") auto
  have "ws = w' # v" using Cons.prems c v by simp
  then show ?case using Cons.IH [OF v] Cons.prems(2) c count_row_other [OF c] by simp
qed simp

lemma shown_maximized:
  assumes "count_rows (Some k) i rows weights vs = (ws, r)" and "i \<le> k" and "k < i + length vs"
    and "w_state (vs ! (k - i)) \<noteq> WIN_STATE_HIDDEN"
  shows "shown (Some k) i (ws[k - i := (ws ! (k - i))\<lparr>w_height := h\<rparr>]) =
    need (Some k) i vs - w_min_height (vs ! (k - i)) + h"
  using assms
proof (induction vs arbitrary: i rows weights ws r)
  case (Cons w vs)
  obtain w' a b where c: "count_row (Some k) i w = (w', a, b)" by (cases "count_row (Some k) i w") auto
  obtain v u where v: "count_rows (Some k) (i + 1) (rows - a) (weights + b) vs = (v, u)"
    by (cases "count_rows (Some k) (i + 1) (rows - a) (weights + b) vs") auto
  have ws: "ws = w' # v" using Cons.prems c v by simp
  show ?case
  proof (cases "k = i")
    case True
    then show ?thesis
      using c shown_others [OF v] count_row_chosen [of k w w' a b h] Cons.prems(4) by (simp add: ws)
  next
    case False
    then have k: "k - i = Suc (k - (i + 1))" "i + 1 \<le> k" using Cons.prems(2) by auto
    then show ?thesis
      using Cons.IH [OF v k(2)] Cons.prems(3,4) c count_row_other [OF c] False by (simp add: ws)
  qed
qed simp

text \<open>What a window needs at least.\<close>

definition required :: "win_info \<Rightarrow> int" where
  "required w = (if w_fixed w then w_height w else w_min_height w)"

lemma required_same_kind: "same_kind v w \<Longrightarrow> required w = required v"
  by (simp add: same_kind_def required_def)

lemma same_kind_trans: "same_kind u v \<Longrightarrow> same_kind v w \<Longrightarrow> same_kind u w"
  by (simp add: same_kind_def)

text \<open>A maximized layout: the persistent windows that are shown have what they require.\<close>

lemma count_rows_required:
  "count_rows (Some k) i rows weights vs = (ws, r) \<Longrightarrow> j < length ws \<Longrightarrow> i + j \<noteq> k \<Longrightarrow>
     displayed (Some k) (i + j) (ws ! j) \<Longrightarrow> w_height (ws ! j) = required (ws ! j)"
proof (induction vs arbitrary: i rows weights ws r j)
  case (Cons w vs)
  obtain w' a b where c: "count_row (Some k) i w = (w', a, b)" by (cases "count_row (Some k) i w") auto
  obtain v u where v: "count_rows (Some k) (i + 1) (rows - a) (weights + b) vs = (v, u)"
    by (cases "count_rows (Some k) (i + 1) (rows - a) (weights + b) vs") auto
  have ws: "ws = w' # v" using Cons.prems c v by simp
  show ?case
  proof (cases j)
    case 0
    then show ?thesis using c Cons.prems(3,4)
      by (auto simp: ws count_row_def displayed_def required_def Let_def split: if_splits)
  next
    case (Suc l)
    then show ?thesis using Cons.IH [OF v, of l] Cons.prems(2-4) by (simp add: ws)
  qed
qed simp

lemma list_all2_same_kind_ok:
  assumes "list_all2 same_kind vs ws" and "\<forall>w \<in> set vs. window_ok w"
  shows "\<forall>w \<in> set ws. window_ok w"
  using assms by (induction vs ws rule: list_all2_induct) (auto intro: same_kind_ok)

definition calculated :: "win_info list \<Rightarrow> bool" where
  "calculated ws \<longleftrightarrow> (\<exists>w \<in> set ws. w_state w \<noteq> WIN_STATE_HIDDEN \<and> \<not> w_fixed w)"

lemma calculated_same_kind: "list_all2 same_kind vs ws \<Longrightarrow> calculated ws = calculated vs"
  unfolding calculated_def by (induction vs ws rule: list_all2_induct) (auto simp: same_kind_def)

lemma weigh_pos: "\<forall>w \<in> set ws. window_ok w \<Longrightarrow> (if calculated ws then 0 < weigh None i ws else weigh None i ws = 0)"
proof (induction ws arbitrary: i)
  case (Cons w ws)
  then have "0 \<le> weigh None (i + 1) ws" by (simp add: weigh_nonneg)
  moreover have "if calculated ws then 0 < weigh None (i + 1) ws else weigh None (i + 1) ws = 0" using Cons by simp
  ultimately show ?case using Cons.prems by (auto simp: calculated_def window_ok_def split: if_splits)
qed (simp add: calculated_def)

text \<open>
  The windows as they are before the last loop: no areas, of the same kinds, with
  at least the rows they require, and together covering \<open>e\<close> rows.
\<close>

definition laid_out :: "nat option \<Rightarrow> win_info list \<Rightarrow> win_info list \<Rightarrow> int \<Rightarrow> bool" where
  "laid_out m vs ws e \<longleftrightarrow> list_all2 same_kind vs ws \<and> (\<forall>w \<in> set ws. w_area w = None) \<and> shown m 0 ws = e \<and>
     (\<forall>j < length ws. displayed m j (ws ! j) \<longrightarrow> required (vs ! j) \<le> w_height (ws ! j))"

lemma laid_out_shared:
  assumes "count_rows None 0 h 0 vs = (ws, rows, weights)" and "\<forall>w \<in> set vs. window_ok w" and "0 \<le> rows"
  shows "\<exists>e. laid_out None vs (set_heights rows weights 0 ws) e \<and> e \<le> h \<and> (calculated vs \<longrightarrow> e = h)"
proof -
  have k: "list_all2 same_kind vs ws" "\<forall>w \<in> set ws. w_area w = None"
    using count_rows_kind [OF assms(1)] by auto
  have ok: "\<forall>w \<in> set ws. window_ok w" by (rule list_all2_same_kind_ok [OF k(1) assms(2)])
  have r: "rows = h - need None 0 ws" "weights = weigh None 0 ws"
    using count_rows_result [OF assms(1)] need_again [OF assms(1)] by auto
  have wp: "if calculated ws then 0 < weights else weights = 0" using weigh_pos [OF ok] by (simp add: r)
  define us where "us = set_heights rows weights 0 ws"
  have e: "shown None 0 us = (if calculated vs then h else need None 0 ws)"
  proof (cases "calculated ws")
    case True
    then have "0 < weights" using wp by simp
    then show ?thesis
      using set_heights_fill [OF ok assms(3), of weights 0 0] r assms(3) True calculated_same_kind [OF k(1)]
      by (simp add: us_def)
  next
    case False
    then show ?thesis
      using set_heights_nothing [OF ok, of 0] wp r calculated_same_kind [OF k(1)] by (simp add: us_def)
  qed
  have n: "same_kind (ws ! j) (us ! j) \<and> w_area (us ! j) = w_area (ws ! j) \<and>
      (w_state (ws ! j) \<noteq> WIN_STATE_HIDDEN \<and> \<not> w_fixed (ws ! j) \<longrightarrow> w_min_height (ws ! j) \<le> w_height (us ! j))"
    if "j < length ws" for j
    unfolding us_def by (rule set_heights_nth [OF ok assms(3) assms(3) that]) (use wp in \<open>auto simp: calculated_def\<close>)
  have l: "length us = length ws" "length ws = length vs"
    using k(1) by (simp_all add: us_def list_all2_lengthD)
  have "same_kind (vs ! j) (us ! j)" if "j < length vs" for j
    using same_kind_trans [of "vs ! j" "ws ! j" "us ! j"] n [of j] list_all2_nthD [OF k(1), of j] that l by simp
  then have "list_all2 same_kind vs us" using l by (simp add: list_all2_conv_all_nth)
  moreover have "\<forall>w \<in> set us. w_area w = None"
  proof -
    have "w_area (us ! j) = None" if "j < length us" for j using n [of j] k(2) that l by simp
    then show ?thesis by (metis in_set_conv_nth)
  qed
  moreover have "required (vs ! j) \<le> w_height (us ! j)" if "j < length us" "displayed None j (us ! j)" for j
  proof -
    have s: "same_kind (vs ! j) (ws ! j)" using k(1) that l by (auto simp: list_all2_conv_all_nth)
    show ?thesis using n [of j] s that l by (auto simp: required_def same_kind_def)
  qed
  ultimately have "laid_out None vs us (shown None 0 us)" by (simp add: laid_out_def)
  then show ?thesis using e r assms(3) by (intro exI [of _ "shown None 0 us"]) (auto simp: us_def)
qed

lemma laid_out_maximized:
  assumes "count_rows (Some k) 0 h 0 vs = (ws, rows, weights)" and "k < length vs" and "0 \<le> rows"
    and "w_state (vs ! k) = WIN_STATE_MAXIMIZED" and "\<not> w_fixed (vs ! k)"
  shows "laid_out (Some k) vs (ws[k := (ws ! k)\<lparr>w_height := rows + w_min_height (ws ! k)\<rparr>]) h"
proof -
  have k: "list_all2 same_kind vs ws" "\<forall>w \<in> set ws. w_area w = None"
    using count_rows_kind [OF assms(1)] by auto
  then have l: "length ws = length vs" by (simp add: list_all2_lengthD)
  define us where "us = ws[k := (ws ! k)\<lparr>w_height := rows + w_min_height (ws ! k)\<rparr>]"
  have s: "same_kind (vs ! j) (ws ! j)" if "j < length vs" for j using k(1) that by (auto simp: list_all2_conv_all_nth)
  have "shown (Some k) 0 us = need (Some k) 0 vs - w_min_height (vs ! k) + (rows + w_min_height (ws ! k))"
    unfolding us_def using shown_maximized [OF assms(1) _ _ ] assms(2,4) by simp
  moreover have "w_min_height (ws ! k) = w_min_height (vs ! k)" using s [OF assms(2)] by (simp add: same_kind_def)
  ultimately have e: "shown (Some k) 0 us = h" using count_rows_result [OF assms(1)] by simp
  have "same_kind (vs ! j) (us ! j)" if "j < length vs" for j
    using s [OF that] s [OF assms(2)] assms(2,5) l by (cases "j = k") (simp_all add: us_def same_kind_def)
  then have "list_all2 same_kind vs us" using l by (simp add: us_def list_all2_conv_all_nth)
  moreover have "\<forall>w \<in> set us. w_area w = None"
  proof
    fix w
    assume "w \<in> set us"
    then have "w = (ws ! k)\<lparr>w_height := rows + w_min_height (ws ! k)\<rparr> \<or> w \<in> set ws"
      using set_update_subset_insert [of ws k] by (auto simp: us_def)
    then show "w_area w = None" using k(2) assms(2) l by auto
  qed
  moreover have "required (vs ! j) \<le> w_height (us ! j)" if j: "j < length us" "displayed (Some k) j (us ! j)" for j
  proof (cases "j = k")
    case True
    then show ?thesis using s [OF assms(2)] assms(2,3,5) l by (simp add: us_def required_def same_kind_def)
  next
    case False
    then have "w_height (ws ! j) = required (ws ! j)"
      using count_rows_required [OF assms(1), of j] j by (simp add: us_def)
    then show ?thesis using False required_same_kind [OF s [of j]] j l by (simp add: us_def)
  qed
  ultimately show ?thesis using e by (simp add: laid_out_def us_def)
qed

lemma screen_is_laid_out:
  assumes "windows_ok (d_windows d)" and "\<not> d_too_small (draw_screen h width d)"
  shows "\<exists>m us e. d_windows (draw_screen h width d) = create_windows m width 0 0 us \<and> laid_out m (d_windows d) us e \<and>
    e \<le> h \<and> (calculated (d_windows d) \<longrightarrow> e = h)"
proof -
  obtain vs m where f: "find_maximized 0 None (d_windows d) = (vs, m)" by force
  obtain ws rows weights where c: "count_rows m 0 h 0 vs = (ws, rows, weights)" by (cases "count_rows m 0 h 0 vs") auto
  have big: "0 \<le> rows" using assms(2) f c by (auto simp: draw_screen_def split: if_splits)
  have small: "\<not> (rows < 0 \<or> width < 45)" using assms(2) f c by (auto simp: draw_screen_def split: if_splits)
  have kd: "list_all2 same_kind (d_windows d) vs" by (rule find_maximized_kind [OF f])
  have ok: "\<forall>w \<in> set vs. window_ok w"
    using list_all2_same_kind_ok [OF kd] assms(1) by (auto simp: windows_ok_def)
  define us where "us = (case m of Some i \<Rightarrow> ws[i := (ws ! i)\<lparr>w_height := rows + w_min_height (ws ! i)\<rparr>]
      | None \<Rightarrow> set_heights rows weights 0 ws)"
  have d: "d_windows (draw_screen h width d) = create_windows m width 0 0 us"
    using f c small by (simp add: draw_screen_def Let_def us_def)
  have "\<exists>e. laid_out m vs us e \<and> e \<le> h \<and> (calculated vs \<longrightarrow> e = h)"
  proof (cases m)
    case None
    then show ?thesis using laid_out_shared [OF c [unfolded None] ok big] by (simp add: us_def)
  next
    case (Some k)
    have "k < length vs \<and> w_state (vs ! k) = WIN_STATE_MAXIMIZED \<and> \<not> w_fixed (vs ! k)"
      using find_maximized_found [OF f] Some by simp
    then show ?thesis using laid_out_maximized [OF c [unfolded Some] _ big] Some by (auto simp: us_def)
  qed
  then obtain e where e: "laid_out m vs us e" "e \<le> h" "calculated vs \<longrightarrow> e = h" by blast
  have "same_kind (d_windows d ! j) (us ! j)" if "j < length us" for j
    using same_kind_trans list_all2_nthD [OF kd, of j] list_all2_nthD [of same_kind vs us j] e(1) that
      list_all2_lengthD [OF kd] list_all2_lengthD [of same_kind vs us] by (metis laid_out_def)
  moreover have l: "length us = length (d_windows d)"
    using e(1) list_all2_lengthD [OF kd] list_all2_lengthD [of same_kind vs us] by (simp add: laid_out_def)
  ultimately have "list_all2 same_kind (d_windows d) us" by (simp add: list_all2_conv_all_nth)
  moreover have "required (vs ! j) = required (d_windows d ! j)" if "j < length us" for j
    using required_same_kind [OF list_all2_nthD [OF kd, of j]] that l by simp
  ultimately have "laid_out m (d_windows d) us e" using e(1) by (simp add: laid_out_def)
  then show ?thesis using d e(2,3) calculated_same_kind [OF kd] by blast
qed

lemma create_windows_kind: "list_all2 same_kind ws (create_windows m width i t ws)"
  by (induction m width i t ws rule: create_windows.induct) (auto simp: same_kind_def list.rel_refl)

text \<open>C14. \<open>draw_screen()\<close> tiles the screen: unless it finds the screen too small, the
  windows it creates follow one another from the top line without gap or overlap
  and end on the screen; they are as wide as the screen and each has at least the
  rows it requires; and they fill the screen completely when a window of calculated
  size is shown.\<close>

theorem screen_is_tiled:
  assumes "windows_ok (d_windows d)" and "\<not> d_too_small (draw_screen h width d)"
  shows "\<exists>e. tiles 0 (areas (d_windows (draw_screen h width d))) e \<and> e \<le> h \<and>
    ((\<exists>w \<in> set (d_windows d). w_state w \<noteq> WIN_STATE_HIDDEN \<and> \<not> w_fixed w) \<longrightarrow> e = h) \<and>
    (\<forall>i < 6. case w_area (d_windows (draw_screen h width d) ! i) of
       None \<Rightarrow> True | Some a \<Rightarrow> a_width a = width \<and> required (d_windows d ! i) \<le> a_height a) \<and>
    windows_ok (d_windows (draw_screen h width d))"
proof -
  obtain m us e where d: "d_windows (draw_screen h width d) = create_windows m width 0 0 us"
    and l: "laid_out m (d_windows d) us e" and e: "e \<le> h" "calculated (d_windows d) \<longrightarrow> e = h"
    using screen_is_laid_out [OF assms] by blast
  have ok: "\<forall>w \<in> set us. window_ok w"
    using list_all2_same_kind_ok l assms(1) by (auto simp: laid_out_def windows_ok_def)
  have n: "length us = 6" using l assms(1) by (auto simp: laid_out_def windows_ok_def dest: list_all2_lengthD)
  have "tiles 0 (areas (create_windows m width 0 0 us)) e"
    using create_windows_tiles [of us 0 m width 0] l by (simp add: laid_out_def)
  moreover have "case w_area (create_windows m width 0 0 us ! i) of
       None \<Rightarrow> True | Some a \<Rightarrow> a_width a = width \<and> required (d_windows d ! i) \<le> a_height a" if "i < 6" for i
    using create_windows_nth [of i us m width 0 0] l that n by (auto simp: laid_out_def split: option.split)
  moreover have "windows_ok (create_windows m width 0 0 us)"
    using list_all2_same_kind_ok [OF create_windows_kind ok] n by (auto simp: windows_ok_def)
  ultimately show ?thesis using e unfolding d calculated_def by blast
qed

theorem screen_is_tiled_witness:
  "let d = \<lparr>d_windows = window_init, d_focus = WIN_PLAYLIST, d_too_small = False\<rparr> in
   \<not> d_too_small (draw_screen 40 80 d) \<and> tiles 0 (areas (d_windows (draw_screen 40 80 d))) 40"
proof -
  let ?d = "\<lparr>d_windows = window_init, d_focus = WIN_PLAYLIST, d_too_small = False\<rparr>"
  have "windows_ok (d_windows ?d)" by (simp add: window_init_ok)
  moreover have "\<not> d_too_small (draw_screen 40 80 ?d)" by code_simp
  moreover have "\<exists>w \<in> set (d_windows ?d). w_state w \<noteq> WIN_STATE_HIDDEN \<and> \<not> w_fixed w"
    by (simp add: window_init_def calc_window_def)
  ultimately show ?thesis using screen_is_tiled [of ?d 40 80] unfolding Let_def by blast
qed

end
