(* ===== verification/Input.thy ===== *)
theory Input
  imports Playback Windows
begin

text \<open>
  What \<open>src/src/input.c\<close> does for a key press on the keyboard and for a line from
  the control fifo: the handlers, the table of keys, the table of fifo commands and
  the reading of lines from the fifo.

  The screen size and the editor are outside: the size is an argument, and so is the
  change the editor makes to the files.
\<close>

section \<open>The state the handlers work on\<close>

text \<open>\<open>in_exit_status\<close> is \<open>status_info.exit_status\<close>, \<open>in_spectrum_active\<close> is \<open>spectrum_ring.active\<close>.\<close>

record input =
  in_player :: player
  in_display :: display
  in_spectrum_active :: bool
  in_exit_status :: int

record terminal =
  t_height :: int
  t_width :: int

definition redraw :: "terminal \<Rightarrow> input \<Rightarrow> input" where
  "redraw t s = s\<lparr>in_display := draw_screen (t_height t) (t_width t) (in_display s)\<rparr>"

definition window_state_of :: "window \<Rightarrow> input \<Rightarrow> window_state" where
  "window_state_of w s = w_state (d_windows (in_display s) ! window_number w)"

definition set_window_state :: "window \<Rightarrow> window_state \<Rightarrow> input \<Rightarrow> input" where
  "set_window_state w st s =
     (let ws = d_windows (in_display s); i = window_number w in
      s\<lparr>in_display := (in_display s)\<lparr>d_windows := ws[i := (ws ! i)\<lparr>w_state := st\<rparr>]\<rparr>\<rparr>)"

section \<open>Handlers\<close>

definition do_quit :: "input \<Rightarrow> input" where
  "do_quit s = s\<lparr>in_exit_status := 0\<rparr>"

definition do_set_player_command :: "player_command \<Rightarrow> player \<Rightarrow> player result" where
  "do_set_player_command c p = map_result (\<lambda>q. p\<lparr>p_commands := q\<rparr>) (player_queue_command c (p_commands p))"

definition do_toggle_player_command :: "player \<Rightarrow> player result" where
  "do_toggle_player_command p =
     (case p_state p of
        STATE_PLAY \<Rightarrow> do_set_player_command CMD_PAUSE p
      | STATE_PAUSE \<Rightarrow> do_set_player_command CMD_PLAY p
      | STATE_STOP \<Rightarrow> do_set_player_command CMD_PLAY p
      | STATE_BIG_STOP \<Rightarrow> Inr p)"

definition do_set_spectrum_state :: "terminal \<Rightarrow> window_state \<Rightarrow> input \<Rightarrow> input" where
  "do_set_spectrum_state t st s =
     redraw t ((set_window_state WIN_SPECTRUM st s)\<lparr>in_spectrum_active := (st \<noteq> WIN_STATE_HIDDEN)\<rparr>)"

definition do_toggle_spectrum_state :: "terminal \<Rightarrow> input \<Rightarrow> input" where
  "do_toggle_spectrum_state t s =
     redraw t
       (case window_state_of WIN_SPECTRUM s of
          WIN_STATE_NORMAL \<Rightarrow> (set_window_state WIN_SPECTRUM WIN_STATE_MAXIMIZED s)\<lparr>in_spectrum_active := True\<rparr>
        | WIN_STATE_MAXIMIZED \<Rightarrow> (set_window_state WIN_SPECTRUM WIN_STATE_HIDDEN s)\<lparr>in_spectrum_active := False\<rparr>
        | WIN_STATE_HIDDEN \<Rightarrow> (set_window_state WIN_SPECTRUM WIN_STATE_NORMAL s)\<lparr>in_spectrum_active := True\<rparr>)"

definition do_toggle_info_command :: "terminal \<Rightarrow> input \<Rightarrow> input" where
  "do_toggle_info_command t s =
     redraw t (set_window_state WIN_INFO
       (if window_state_of WIN_INFO s = WIN_STATE_NORMAL then WIN_STATE_HIDDEN else WIN_STATE_NORMAL) s)"

definition set_focus :: "window \<Rightarrow> window_state \<Rightarrow> window_state \<Rightarrow> input \<Rightarrow> input" where
  "set_focus w past play s =
     set_window_state WIN_PLAYLIST play (set_window_state WIN_PASTLIST past
       (s\<lparr>in_display := (in_display s)\<lparr>d_focus := w\<rparr>\<rparr>))"

definition do_tab :: "terminal \<Rightarrow> input \<Rightarrow> input" where
  "do_tab t s =
     redraw t
       (case d_focus (in_display s) of
          WIN_NOW_PLAYING \<Rightarrow> set_focus WIN_PLAYLIST WIN_STATE_HIDDEN WIN_STATE_NORMAL s
        | WIN_PLAYLIST \<Rightarrow> set_focus WIN_PASTLIST WIN_STATE_NORMAL WIN_STATE_HIDDEN s
        | WIN_PASTLIST \<Rightarrow> set_focus WIN_NOW_PLAYING WIN_STATE_HIDDEN WIN_STATE_NORMAL s
        | _ \<Rightarrow> s)"

subsection \<open>The selected song\<close>

definition queues_of :: "player \<Rightarrow> queues" where
  "queues_of p = w_queues (p_world p)"

definition set_queues :: "queues \<Rightarrow> player \<Rightarrow> player" where
  "set_queues q p = p\<lparr>p_world := (p_world p)\<lparr>w_queues := q\<rparr>\<rparr>"

datatype direction = UP | DOWN | LEFT | RIGHT | PAGE_UP | PAGE_DOWN | HOME | END

text \<open>The new selection; \<open>ysize / 2\<close> of a size that is not negative rounds down.\<close>

definition move_selection :: "direction \<Rightarrow> int \<Rightarrow> int \<Rightarrow> int \<Rightarrow> int" where
  "move_selection dir ysize max_size selected =
     (let (selected, delta) =
            (case dir of
               UP \<Rightarrow> (selected, - 1)
             | DOWN \<Rightarrow> (selected, 1)
             | PAGE_UP \<Rightarrow> (selected, - (ysize div 2))
             | PAGE_DOWN \<Rightarrow> (selected, ysize div 2)
             | HOME \<Rightarrow> (0, 0)
             | END \<Rightarrow> (0, max_size - 1)
             | _ \<Rightarrow> (selected, 0));
          selected = selected + delta in
      if selected < 0 then 0
      else if selected \<ge> max_size then max_size - 1
      else selected)"

definition list_rows :: "display \<Rightarrow> int" where
  "list_rows d =
     (case w_area (d_windows d ! window_number (d_focus d)) of
        None \<Rightarrow> 0
      | Some a \<Rightarrow> max 0 (a_height a - 3))"

definition do_arrow :: "direction \<Rightarrow> input \<Rightarrow> input" where
  "do_arrow dir s =
     (let p = in_player s; q = song_queue (queues_of p); r = past_queue (queues_of p);
          rows = list_rows (in_display s) in
      case d_focus (in_display s) of
        WIN_PLAYLIST \<Rightarrow>
          s\<lparr>in_player := set_queues ((queues_of p)\<lparr>song_queue := q\<lparr>q_selected :=
              move_selection dir rows (max (q_wanted_size q) (q_size q)) (q_selected q)\<rparr>\<rparr>) p\<rparr>
      | WIN_PASTLIST \<Rightarrow>
          s\<lparr>in_player := set_queues ((queues_of p)\<lparr>past_queue := r\<lparr>q_selected :=
              move_selection dir rows (q_size r) (q_selected r)\<rparr>\<rparr>) p\<rparr>
      | _ \<Rightarrow> s)"

text \<open>
  The song a handler works on; a selection below 0 is not guarded against and leads to
  the head of the list.
\<close>

definition selected_entry :: "song_queue \<Rightarrow> heap \<Rightarrow> nat option result" where
  "selected_entry q h =
     (if q_selected q < q_size q then nth_entry_song (nat (q_selected q)) q h else Inr None)"

definition selected_song :: "window \<Rightarrow> player \<Rightarrow> nat option result" where
  "selected_song focus p =
     (case focus of
        WIN_NOW_PLAYING \<Rightarrow> Inr (p_song p)
      | WIN_PLAYLIST \<Rightarrow> selected_entry (song_queue (queues_of p)) (q_heap (queues_of p))
      | WIN_PASTLIST \<Rightarrow> selected_entry (past_queue (queues_of p)) (q_heap (queues_of p))
      | _ \<Rightarrow> Inr None)"

subsection \<open>Removing a song from the playlist\<close>

definition remove_selected :: "config \<Rightarrow> player \<Rightarrow> player result" where
  "remove_selected cfg p =
     and_then (unlink_entry (nat (q_selected (song_queue (queues_of p)))) (queues_of p)) (\<lambda>(song, q).
     map_result (\<lambda>(db, fs). p\<lparr>p_world := (p_world p)\<lparr>w_db := db, w_fs := fs, w_queues := q\<rparr>\<rparr>)
       (feedback cfg song (- 1) (w_db (p_world p)) (w_fs (p_world p))))"

definition do_delete :: "config \<Rightarrow> input \<Rightarrow> input result" where
  "do_delete cfg s =
     (let q = song_queue (queues_of (in_player s)) in
      if d_focus (in_display s) = WIN_PLAYLIST \<and> q_selected q < q_size q \<and> 0 \<le> q_selected q
      then map_result (\<lambda>p. s\<lparr>in_player := p\<rparr>) (remove_selected cfg (in_player s))
      else Inr s)"

text \<open>The same on the empeg, without the test for a negative selection.\<close>

definition do_remove_playlist_entry :: "config \<Rightarrow> player \<Rightarrow> player result" where
  "do_remove_playlist_entry cfg p =
     (let q = song_queue (queues_of p) in
      if q_selected q < q_size q then remove_selected cfg p else Inr p)"

subsection \<open>Rating a song\<close>

definition rate :: "bool \<Rightarrow> int \<Rightarrow> stat_info \<Rightarrow> stat_info" where
  "rate relative amount st =
     (let r = (if relative then manual_rating st + amount else amount);
          r = (if r < - 1 then - 1 else r);
          r = (if r > 10 then 10 else r) in
      st\<lparr>manual_rating := r, stat_changed := True\<rparr>)"

definition rate_song :: "config \<Rightarrow> bool \<Rightarrow> int \<Rightarrow> nat \<Rightarrow> world \<Rightarrow> world result" where
  "rate_song cfg relative amount i w =
     and_then (read_at (songs (w_db w)) (int i)) (\<lambda>s.
     let db = w_db w;
         st' = rate relative amount (stat s);
         rating = get_rating (db_manual_rating_bias cfg) (stat s);
         db = db\<lparr>db_sum := db_sum db - rating, db_sqr_sum := db_sqr_sum db - rating * rating\<rparr>;
         rating = get_rating (db_manual_rating_bias cfg) st';
         db = db\<lparr>db_sum := db_sum db + rating, db_sqr_sum := db_sqr_sum db + rating * rating\<rparr> in
     map_result (\<lambda>(s', fs). w\<lparr>w_db := db\<lparr>songs := (songs db)[i := s']\<rparr>, w_fs := fs\<rparr>)
       (save_song cfg (stats_loaded db) (s\<lparr>stat := st'\<rparr>) (w_fs w)))"

definition rate_if_song :: "config \<Rightarrow> bool \<Rightarrow> int \<Rightarrow> nat option \<Rightarrow> player \<Rightarrow> player result" where
  "rate_if_song cfg relative amount song p =
     (case song of
        None \<Rightarrow> Inr p
      | Some i \<Rightarrow> map_result (\<lambda>w. p\<lparr>p_world := w\<rparr>) (rate_song cfg relative amount i (p_world p)))"

definition do_song_rating_adjust :: "config \<Rightarrow> bool \<Rightarrow> int \<Rightarrow> input \<Rightarrow> input result" where
  "do_song_rating_adjust cfg relative amount s =
     and_then (selected_song (d_focus (in_display s)) (in_player s)) (\<lambda>song.
     map_result (\<lambda>p. s\<lparr>in_player := p\<rparr>) (rate_if_song cfg relative amount song (in_player s)))"

subsection \<open>Editing the meta data of a song\<close>

definition reload_song ::
  "build \<Rightarrow> config \<Rightarrow> tags \<Rightarrow> song_info \<Rightarrow> filesys \<Rightarrow> (song_info \<times> filesys) result" where
  "reload_song b cfg tags s fs =
     and_then (load_meta_data b cfg tags TYPE_META (clear_song_meta s) fs) (\<lambda>(s, fs).
     load_meta_data b cfg tags TYPE_STAT s fs)"

definition do_edit_command ::
  "build \<Rightarrow> config \<Rightarrow> tags \<Rightarrow> (string \<Rightarrow> filesys \<Rightarrow> filesys) \<Rightarrow> terminal \<Rightarrow> input \<Rightarrow> input result" where
  "do_edit_command b cfg tags edit t s =
     (let p = in_player s; w = p_world p in
      and_then (selected_song (d_focus (in_display s)) p) (\<lambda>song.
      case song of
        None \<Rightarrow> Inr s
      | Some i \<Rightarrow>
        and_then (read_at (songs (w_db w)) (int i)) (\<lambda>si.
        let fs = edit (basename si BASENAME_META @ ''/'' @ filename si @ ''.info'') (w_fs w) in
        map_result (\<lambda>(si, fs).
            redraw t (s\<lparr>in_display := (in_display s)\<lparr>d_too_small := False\<rparr>,
              in_player := p\<lparr>p_world := w\<lparr>w_db := (w_db w)\<lparr>songs := (songs (w_db w))[i := si]\<rparr>, w_fs := fs\<rparr>\<rparr>\<rparr>))
          (reload_song b cfg tags si fs))))"

end
