(* ===== verification/Input_Dispatch.thy ===== *)
theory Input_Dispatch
  imports Input
begin

text \<open>
  The two monitors of \<open>src/src/input.c\<close> that turn what comes in into calls of the
  handlers: \<open>keyboard_monitor()\<close> by the key, \<open>fifo_monitor()\<close> by lines of text.  The key
  codes of ncurses are constructors; the fifo is what it delivers between two
  openings.
\<close>

section \<open>Actions\<close>

datatype action =
    Refresh
  | Resize
  | Quit
  | Toggle_Spectrum
  | Toggle_Player
  | Toggle_Info
  | Edit
  | Tab
  | Delete
  | Command player_command
  | Rate int
  | Arrow direction

definition do_player :: "(player \<Rightarrow> player result) \<Rightarrow> input \<Rightarrow> input result" where
  "do_player f s = map_result (\<lambda>p. s\<lparr>in_player := p\<rparr>) (f (in_player s))"

definition do_action ::
  "build \<Rightarrow> config \<Rightarrow> tags \<Rightarrow> (string \<Rightarrow> filesys \<Rightarrow> filesys) \<Rightarrow> terminal \<Rightarrow> action \<Rightarrow> input \<Rightarrow> input result" where
  "do_action b cfg tags edit t a s =
     (case a of
        Refresh \<Rightarrow> Inr (redraw t s)
      | Resize \<Rightarrow> Inr (redraw t s)
      | Quit \<Rightarrow> Inr (do_quit s)
      | Toggle_Spectrum \<Rightarrow> Inr (do_toggle_spectrum_state t s)
      | Toggle_Player \<Rightarrow> do_player do_toggle_player_command s
      | Toggle_Info \<Rightarrow> Inr (do_toggle_info_command t s)
      | Edit \<Rightarrow> do_edit_command b cfg tags edit t s
      | Tab \<Rightarrow> Inr (do_tab t s)
      | Delete \<Rightarrow> do_delete cfg s
      | Command c \<Rightarrow> do_player (do_set_player_command c) s
      | Rate n \<Rightarrow> do_song_rating_adjust cfg True n s
      | Arrow dir \<Rightarrow> Inr (do_arrow dir s))"

section \<open>Keys\<close>

datatype key =
    Key char
  | KEY_RESIZE | KEY_DC | KEY_UP | KEY_DOWN | KEY_PPAGE | KEY_NPAGE | KEY_HOME | KEY_END | KEY_LEFT | KEY_RIGHT
  | ERR

text \<open>\<open>CTRL-L\<close> clears the screen and falls through to the redraw of a resize.\<close>

definition char_action :: "char \<Rightarrow> action option" where
  "char_action c =
     (if c = CHR 0x0C then Some Refresh
      else if c = CHR ''q'' \<or> c = CHR ''Q'' then Some Quit
      else if c = CHR ''c'' \<or> c = CHR ''C'' then Some Toggle_Spectrum
      else if c = CHR ''p'' \<or> c = CHR ''P'' then Some Toggle_Player
      else if c = CHR ''s'' \<or> c = CHR ''S'' then Some (Command CMD_SKIP)
      else if c = CHR ''t'' \<or> c = CHR ''T'' then Some (Command CMD_STOP)
      else if c = CHR ''i'' \<or> c = CHR ''I'' then Some Toggle_Info
      else if c = CHR ''e'' \<or> c = CHR ''E'' then Some Edit
      else if c = TAB then Some Tab
      else if c = CHR ''m'' then Some (Rate (- 1))
      else if c = CHR ''M'' then Some (Rate 1)
      else if c = CHR ''d'' \<or> c = CHR ''D'' then Some Delete
      else None)"

definition key_action :: "key \<Rightarrow> action option" where
  "key_action k =
     (case k of
        Key c \<Rightarrow> char_action c
      | KEY_RESIZE \<Rightarrow> Some Resize
      | KEY_DC \<Rightarrow> Some Delete
      | KEY_UP \<Rightarrow> Some (Arrow UP)
      | KEY_DOWN \<Rightarrow> Some (Arrow DOWN)
      | KEY_PPAGE \<Rightarrow> Some (Arrow PAGE_UP)
      | KEY_NPAGE \<Rightarrow> Some (Arrow PAGE_DOWN)
      | KEY_HOME \<Rightarrow> Some (Arrow HOME)
      | KEY_END \<Rightarrow> Some (Arrow END)
      | KEY_LEFT \<Rightarrow> Some (Arrow LEFT)
      | KEY_RIGHT \<Rightarrow> Some (Arrow RIGHT)
      | ERR \<Rightarrow> None)"

section \<open>Commands in the fifo\<close>

text \<open>
  The chain of comparisons, each with the number of characters it looks at; the first
  part is compiled only with ncurses.
\<close>

definition ncurses_commands :: "(string \<times> nat \<times> action) list" where
  "ncurses_commands =
     [(''refresh'', 8, Refresh),
      (''spectrum_button'', 16, Toggle_Spectrum),
      (''info_button'', 11, Toggle_Info),
      (''tab'', 7, Tab),
      (''edit'', 5, Edit),
      (''delete'', 7, Delete),
      (''up'', 3, Arrow UP),
      (''down'', 5, Arrow DOWN),
      (''pageup'', 7, Arrow PAGE_UP),
      (''pagedown'', 5, Arrow PAGE_DOWN),
      (''left'', 5, Arrow LEFT),
      (''right'', 6, Arrow RIGHT),
      (''home'', 5, Arrow HOME),
      (''end'', 4, Arrow END)]"

definition common_commands :: "(string \<times> nat \<times> action) list" where
  "common_commands =
     [(''decrease_rating'', 16, Rate (- 1)),
      (''increase_rating'', 16, Rate 1),
      (''quit'', 5, Quit),
      (''play'', 5, Command CMD_PLAY),
      (''pause'', 6, Command CMD_PAUSE),
      (''play_button'', 12, Toggle_Player),
      (''skip'', 5, Command CMD_SKIP),
      (''stop'', 5, Command CMD_STOP)]"

definition fifo_commands :: "build \<Rightarrow> (string \<times> nat \<times> action) list" where
  "fifo_commands b = (if NO_NCURSES b then common_commands else ncurses_commands @ common_commands)"

fun first_command :: "(string \<times> nat \<times> action) list \<Rightarrow> string \<Rightarrow> action option" where
  "first_command [] line = None"
| "first_command ((name, n, a) # cs) line =
     (if strncasecmp0 line (name @ [LF]) n then Some a else first_command cs line)"

definition fifo_action :: "build \<Rightarrow> string \<Rightarrow> action option" where
  "fifo_action b line = first_command (fifo_commands b) line"

section \<open>Lines from the fifo\<close>

text \<open>
  \<open>fgets(buffer, 50, file)\<close>: up to 49 characters, up to and including a newline; the
  end of the file is noticed only by trying to read past it.
\<close>

definition fgets_50 :: "string \<Rightarrow> string \<times> string \<times> bool" where
  "fgets_50 s =
     (let line = takeWhile (\<lambda>c. c \<noteq> LF) (take 49 s);
          buffer = (if length line < length (take 49 s) then line @ [LF] else line) in
      (buffer, drop (length buffer) s, length buffer < 49 \<and> LF \<notin> set buffer))"

lemma fgets_50_rest: "fgets_50 s = (buffer, rest, eof) \<Longrightarrow> \<not> eof \<Longrightarrow> length rest < length s"
  by (cases s) (auto simp: fgets_50_def Let_def split: if_splits)

text \<open>
  The inner loop of \<open>fifo_monitor()\<close>, from the flag \<open>invalid_line\<close> and the rest of the
  data: the lines that are compared with the commands, and whether
  \<open>buffer[strlen(buffer)-1]\<close> was read with an empty string in the buffer, which is the
  byte \<open>below\<close> in front of it.
\<close>

function fifo_session :: "char \<Rightarrow> bool \<Rightarrow> string \<Rightarrow> string list \<times> bool" where
  "fifo_session below invalid s =
     (case fgets_50 s of (buffer, rest, eof) \<Rightarrow>
      let line = c_str buffer;
          final = (if line = [] then below else last line);
          (lines, past) =
            (if eof then ([], False)
             else fifo_session below (final \<noteq> LF) rest) in
      (if final = LF \<and> \<not> invalid then line # lines else lines, line = [] \<or> past))"
  by auto

termination
  by (relation "measure (\<lambda>(below, invalid, s). length s)") (auto dest: sym fgets_50_rest)

definition fifo_monitor ::
  "build \<Rightarrow> config \<Rightarrow> tags \<Rightarrow> (string \<Rightarrow> filesys \<Rightarrow> filesys) \<Rightarrow> terminal \<Rightarrow> char \<Rightarrow> string \<Rightarrow> input \<Rightarrow> input result" where
  "fifo_monitor b cfg tags edit t below s =
     fold_result (do_action b cfg tags edit t)
       (List.map_filter (fifo_action b) (fst (fifo_session below False s)))"

section \<open>What is delivered\<close>

declare fifo_session.simps [simp del]

lemma fgets_50_line:
  assumes "LF \<notin> set l" and "length l \<le> 48"
  shows "fgets_50 (l @ LF # rest) = (l @ [LF], rest, False)"
proof -
  have t: "take 49 (l @ LF # rest) = l @ LF # take (48 - length l) rest"
    using assms(2) by (simp add: take_Cons' Suc_diff_le)
  have w: "takeWhile (\<lambda>c. c \<noteq> LF) (l @ LF # take (48 - length l) rest) = l"
    by (subst takeWhile_append2) (use assms(1) in auto)
  show ?thesis unfolding fgets_50_def Let_def t w by simp
qed

lemma fgets_50_long:
  assumes "LF \<notin> set l" and "48 < length l"
  shows "fgets_50 (l @ LF # rest) = (take 49 l, drop 49 l @ LF # rest, False)"
proof -
  have t: "take 49 (l @ LF # rest) = take 49 l" using assms(2) by simp
  have "\<forall>c \<in> set (take 49 l). c \<noteq> LF" using assms(1) set_take_subset [of 49 l] by blast
  then have w: "takeWhile (\<lambda>c. c \<noteq> LF) (take 49 l) = take 49 l" by (simp add: takeWhile_eq_all_conv)
  show ?thesis unfolding fgets_50_def Let_def t w using assms by simp
qed

text \<open>One line: a long one is read in pieces that are all thrown away, the last one included.\<close>

lemma fifo_session_line:
  assumes "LF \<notin> set l" and "NUL \<notin> set l"
  shows "fifo_session below invalid (l @ LF # rest) =
    (case fifo_session below False rest of (lines, past) \<Rightarrow>
       (if length l \<le> 48 \<and> \<not> invalid then (l @ [LF]) # lines else lines, past))"
  using assms
proof (induction "length l" arbitrary: l invalid rule: less_induct)
  case less
  show ?case
  proof (cases "length l \<le> 48")
    case True
    have "c_str (l @ [LF]) = l @ [LF]" using less.prems(2) by (intro c_str_id) simp
    then show ?thesis
      using True by (subst fifo_session.simps) (simp add: fgets_50_line [OF less.prems(1) True] split: prod.split)
  next
    case False
    have c: "c_str (take 49 l) = take 49 l" using less.prems(2) by (intro c_str_id) (auto dest: in_set_takeD)
    have ne: "take 49 l \<noteq> []" using False by auto
    then have "last (take 49 l) \<in> set l" using last_in_set in_set_takeD by metis
    then have "last (take 49 l) \<noteq> LF" using less.prems(1) by auto
    moreover have "fifo_session below True (drop 49 l @ LF # rest) = fifo_session below False rest"
    proof -
      have "LF \<notin> set (drop 49 l)" "NUL \<notin> set (drop 49 l)" using less.prems set_drop_subset [of 49 l] by blast+
      then show ?thesis using less.hyps [of "drop 49 l" True] False by (simp split: prod.split)
    qed
    ultimately show ?thesis
      using False c ne fgets_50_long [OF less.prems(1), of rest]
      by (subst fifo_session.simps) (simp split: prod.split)
  qed
qed

lemma fifo_session_end: "fifo_session below False [] = (if below = LF then [[]] else [], True)"
  by (subst fifo_session.simps) (simp add: fgets_50_def c_str_def)

lemma fifo_session_lines:
  assumes "\<forall>l \<in> set ls. LF \<notin> set l \<and> NUL \<notin> set l"
  shows "fifo_session below False (concat (map (\<lambda>l. l @ [LF]) ls)) =
    (map (\<lambda>l. l @ [LF]) (filter (\<lambda>l. length l \<le> 48) ls) @ (if below = LF then [[]] else []), True)"
  using assms
proof (induction ls)
  case Nil
  then show ?case by (simp add: fifo_session_end)
next
  case (Cons l ls)
  then show ?case
    using fifo_session_line [of l below False "concat (map (\<lambda>l. l @ [LF]) ls)"] by simp
qed

text \<open>C38. The fifo delivers whole lines: whatever lines are written into it, the monitor
  compares exactly the lines of at most 48 characters with its commands, in order,
  and skips the longer ones completely, although it reads them in pieces that could
  look like commands.\<close>

theorem fifo_delivers_lines:
  assumes "\<forall>l \<in> set ls. LF \<notin> set l \<and> NUL \<notin> set l"
  shows "List.map_filter (fifo_action b) (fst (fifo_session below False (concat (map (\<lambda>l. l @ [LF]) ls)))) =
    List.map_filter (fifo_action b) (map (\<lambda>l. l @ [LF]) (filter (\<lambda>l. length l \<le> 48) ls))"
proof -
  have "first_command (ncurses_commands @ common_commands) [] = None" "first_command common_commands [] = None"
    by code_simp+
  then have "fifo_action b [] = None" by (simp add: fifo_action_def fifo_commands_def)
  then show ?thesis
    unfolding fifo_session_lines [OF assms] by (simp add: map_filter_def)
qed

definition desktop :: build where
  "desktop = \<lparr>EMPEG = False, EMPEG_DSP = False, NO_NCURSES = False, USE_MAGIC = False, NO_VORBIS_COMMENT = False,
     NO_ID3LIB = False\<rparr>"

definition ex_lines :: "string list" where
  "ex_lines = [''skip'', replicate 49 CHR ''x'' @ ''quit'', ''Up'']"

lemma ex_lines_test:
  "list_all (\<lambda>l. LF \<notin> set l \<and> NUL \<notin> set l) ex_lines \<and>
   List.map_filter (fifo_action desktop) (map (\<lambda>l. l @ [LF]) (filter (\<lambda>l. length l \<le> 48) ex_lines)) =
     [Command CMD_SKIP, Arrow UP]"
  by code_simp

theorem fifo_delivers_lines_witness:
  "List.map_filter (fifo_action desktop) (fst (fifo_session NUL False (concat (map (\<lambda>l. l @ [LF]) ex_lines)))) =
     [Command CMD_SKIP, Arrow UP]"
  using fifo_delivers_lines [of ex_lines desktop NUL] ex_lines_test by (simp add: list_all_iff)

text \<open>Every command of the table is recognised by its line, in any case; the tests shadow none.\<close>

lemma fifo_table:
  "list_all (\<lambda>(name, n, a). fifo_action b (name @ [LF]) = Some a) (fifo_commands b)"
proof -
  have "list_all (\<lambda>(name, n, a). first_command (ncurses_commands @ common_commands) (name @ [LF]) = Some a)
      (ncurses_commands @ common_commands)"
    and "list_all (\<lambda>(name, n, a). first_command common_commands (name @ [LF]) = Some a) common_commands"
    by code_simp+
  then show ?thesis by (simp add: fifo_action_def fifo_commands_def)
qed

text \<open>
  At the end of what the fifo delivers, the monitor reads the byte in front of its
  buffer.
\<close>

lemma fifo_reads_below:
  assumes "\<forall>l \<in> set ls. LF \<notin> set l \<and> NUL \<notin> set l"
  shows "snd (fifo_session below False (concat (map (\<lambda>l. l @ [LF]) ls)))"
  by (simp add: fifo_session_lines [OF assms])

end
