(* ===== verification/Input_Correct.thy ===== *)
theory Input_Correct
  imports Input_Dispatch Playback_Correct
begin

text \<open>
  What the input handlers guarantee: the selection stays within its list, deleting
  removes the selected song and counts it as skipped, rating keeps the sums of the
  song picker right; and what they do on an empty list.
\<close>

section \<open>Moving the selection\<close>

lemma move_selection_range:
  assumes "0 < max_size"
  shows "0 \<le> move_selection dir ysize max_size sel \<and> move_selection dir ysize max_size sel < max_size"
  using assms by (cases dir) (auto simp: move_selection_def Let_def)

lemma move_selection_monotone:
  assumes "0 \<le> ysize" and "0 < max_size" and "0 \<le> sel" "sel < max_size"
  shows "dir \<in> {UP, PAGE_UP, HOME} \<Longrightarrow> move_selection dir ysize max_size sel \<le> sel"
    and "dir \<in> {DOWN, PAGE_DOWN, END} \<Longrightarrow> sel \<le> move_selection dir ysize max_size sel"
  using assms by (auto simp: move_selection_def Let_def)

text \<open>The list in focus: its selection and the number of its rows that can be selected.\<close>

definition focused_list :: "input \<Rightarrow> (int \<times> int) option" where
  "focused_list s =
     (let q = song_queue (queues_of (in_player s)); r = past_queue (queues_of (in_player s)) in
      case d_focus (in_display s) of
        WIN_PLAYLIST \<Rightarrow> Some (q_selected q, max (q_wanted_size q) (q_size q))
      | WIN_PASTLIST \<Rightarrow> Some (q_selected r, q_size r)
      | _ \<Rightarrow> None)"

lemma queues_of_set [simp]: "queues_of (set_queues q p) = q"
  by (simp add: queues_of_def set_queues_def)

lemma do_arrow_display [simp]: "in_display (do_arrow dir s) = in_display s"
  by (cases "d_focus (in_display s)") (simp_all add: do_arrow_def Let_def)

lemma do_arrow_focused:
  "focused_list (do_arrow dir s) =
     map_option (\<lambda>(sel, n). (move_selection dir (list_rows (in_display s)) n sel, n)) (focused_list s)"
  by (cases "d_focus (in_display s)") (simp_all add: do_arrow_def focused_list_def Let_def)

lemma list_rows_nonneg: "0 \<le> list_rows d"
  by (simp add: list_rows_def split: option.split)

text \<open>The arrow keys keep the selection inside the list that has the focus: on a list
  with rows, any sequence of arrow keys, from any selection, ends on a row, the keys
  up move it up and the keys down move it down.\<close>

theorem arrows_stay_in_list:
  assumes "focused_list s = Some (sel, n)" and "0 < n" and "dirs \<noteq> []"
  shows "\<exists>sel'. focused_list (fold do_arrow dirs s) = Some (sel', n) \<and> 0 \<le> sel' \<and> sel' < n \<and>
    (0 \<le> sel \<and> sel < n \<longrightarrow> (set dirs \<subseteq> {UP, PAGE_UP, HOME} \<longrightarrow> sel' \<le> sel) \<and>
       (set dirs \<subseteq> {DOWN, PAGE_DOWN, END} \<longrightarrow> sel \<le> sel'))"
  using assms
proof (induction dirs arbitrary: s sel)
  case (Cons d dirs)
  let ?sel = "move_selection d (list_rows (in_display s)) n sel"
  have f: "focused_list (do_arrow d s) = Some (?sel, n)" using Cons.prems(1) by (simp add: do_arrow_focused)
  have r: "0 \<le> ?sel \<and> ?sel < n" using move_selection_range [OF Cons.prems(2)] .
  have m: "d \<in> {UP, PAGE_UP, HOME} \<longrightarrow> ?sel \<le> sel" "d \<in> {DOWN, PAGE_DOWN, END} \<longrightarrow> sel \<le> ?sel"
    if "0 \<le> sel \<and> sel < n"
    using move_selection_monotone [OF list_rows_nonneg Cons.prems(2)] that by auto
  show ?case
  proof (cases "dirs = []")
    case True
    then show ?thesis using f r m by auto
  next
    case False
    obtain sel' where s': "focused_list (fold do_arrow dirs (do_arrow d s)) = Some (sel', n)" "0 \<le> sel'" "sel' < n"
      "(set dirs \<subseteq> {UP, PAGE_UP, HOME} \<longrightarrow> sel' \<le> ?sel)" "(set dirs \<subseteq> {DOWN, PAGE_DOWN, END} \<longrightarrow> ?sel \<le> sel')"
      using Cons.IH [OF f Cons.prems(2) False] r by blast
    have "(set (d # dirs) \<subseteq> {UP, PAGE_UP, HOME} \<longrightarrow> sel' \<le> sel) \<and>
       (set (d # dirs) \<subseteq> {DOWN, PAGE_DOWN, END} \<longrightarrow> sel \<le> sel')" if "0 \<le> sel \<and> sel < n"
      using s'(4,5) m [OF that] by (simp del: insert_iff) (metis order_trans insert_iff)
    then show ?thesis using s'(1-3) by simp
  qed
qed simp

definition ex_input :: "window \<Rightarrow> input" where
  "ex_input focus =
     \<lparr>in_player = start_player ex_play_world,
      in_display = \<lparr>d_windows = window_init, d_focus = focus, d_too_small = False\<rparr>,
      in_spectrum_active = False, in_exit_status = - 1\<rparr>"

lemma ex_input_focused: "focused_list (ex_input WIN_PLAYLIST) = Some (0, 2)"
  by code_simp

theorem arrows_stay_in_list_witness:
  "\<exists>sel. focused_list (fold do_arrow [DOWN, DOWN, DOWN] (ex_input WIN_PLAYLIST)) = Some (sel, 2) \<and> 0 \<le> sel \<and> sel < 2"
  using arrows_stay_in_list [OF ex_input_focused, of "[DOWN, DOWN, DOWN]"] by auto

text \<open>On an empty list of past songs the down key moves the selection to -1, and then
  rating or editing the selected song follows a null pointer: the handlers only ask
  whether the selection is below the size.\<close>

theorem arrow_on_empty_list:
  assumes "d_focus (in_display s) = WIN_PASTLIST" and "q_size (past_queue (queues_of (in_player s))) = 0"
    and "q_head (past_queue (queues_of (in_player s))) = None" and "q_selected (past_queue (queues_of (in_player s))) = 0"
  shows "q_selected (past_queue (queues_of (in_player (do_arrow DOWN s)))) = - 1 \<and>
    do_song_rating_adjust cfg relative amount (do_arrow DOWN s) = Inl Null_Deref \<and>
    do_edit_command b cfg tags edit t (do_arrow DOWN s) = Inl Null_Deref"
proof -
  have sel: "q_selected (past_queue (queues_of (in_player (do_arrow DOWN s)))) = - 1"
    using assms by (simp add: do_arrow_def move_selection_def Let_def)
  have "selected_song WIN_PASTLIST (in_player (do_arrow DOWN s)) = Inl Null_Deref"
    using assms
    by (simp add: do_arrow_def move_selection_def Let_def selected_song_def selected_entry_def nth_entry_song_def
        load_entry_def)
  then show ?thesis using sel assms(1) by (simp add: do_song_rating_adjust_def do_edit_command_def Let_def)
qed

lemma ex_input_empty:
  "d_focus (in_display (ex_input WIN_PASTLIST)) = WIN_PASTLIST \<and>
   q_size (past_queue (queues_of (in_player (ex_input WIN_PASTLIST)))) = 0 \<and>
   q_head (past_queue (queues_of (in_player (ex_input WIN_PASTLIST)))) = None \<and>
   q_selected (past_queue (queues_of (in_player (ex_input WIN_PASTLIST)))) = 0"
  by code_simp

theorem arrow_on_empty_list_witness:
  "do_edit_command desktop ex_config (\<lambda>_ _. []) (\<lambda>_ fs. fs) \<lparr>t_height = 40, t_width = 80\<rparr>
     (do_arrow DOWN (ex_input WIN_PASTLIST)) = Inl Null_Deref"
  using arrow_on_empty_list [of "ex_input WIN_PASTLIST"] ex_input_empty by blast

section \<open>Deleting from the playlist\<close>

text \<open>Deleting removes exactly the selected song from the playlist and counts it as
  skipped: the playlist keeps its other entries in order, the list of past songs is
  untouched, and the database is as after \<open>feedback()\<close> for that song; when nothing is
  selected, nothing changes.\<close>

theorem delete_removes_selected:
  assumes "queues_hold (queues_of (in_player s)) xs ys" and "d_focus (in_display s) = WIN_PLAYLIST"
    and "n = q_selected (song_queue (queues_of (in_player s)))"
    and "feedback cfg (fst (xs ! nat n)) (- 1) (w_db (p_world (in_player s))) (w_fs (p_world (in_player s))) = Inr (db, fs)"
  shows "\<exists>s'. do_delete cfg s = Inr s' \<and>
    (if 0 \<le> n \<and> n < int (length xs)
     then queues_hold (queues_of (in_player s')) (take (nat n) xs @ drop (Suc (nat n)) xs) ys \<and>
       w_db (p_world (in_player s')) = db \<and> w_fs (p_world (in_player s')) = fs
     else s' = s)"
proof -
  have size: "q_size (song_queue (queues_of (in_player s))) = int (length xs)"
    using assms(1) by (auto simp: queues_hold_def queues_at_def queue_of_def)
  show ?thesis
  proof (cases "0 \<le> n \<and> n < int (length xs)")
    case True
    then have "nat n < length xs" by linarith
    then obtain q where q: "unlink_entry (nat n) (queues_of (in_player s)) = Inr (fst (xs ! nat n), q)"
      "queues_hold q (take (nat n) xs @ drop (Suc (nat n)) xs) ys"
      using unlink_hold [OF assms(1)] by blast
    have "remove_selected cfg (in_player s) =
        Inr ((in_player s)\<lparr>p_world := (p_world (in_player s))\<lparr>w_db := db, w_fs := fs, w_queues := q\<rparr>\<rparr>)"
      using q(1) assms(3,4) by (simp add: remove_selected_def)
    then show ?thesis using True q(2) assms(2,3) size by (simp add: do_delete_def Let_def queues_of_def)
  next
    case False
    then show ?thesis using assms(2,3) size by (auto simp: do_delete_def Let_def)
  qed
qed

theorem delete_removes_selected_witness:
  "\<exists>s'. do_delete ex_config (ex_input WIN_PLAYLIST) = Inr s' \<and> queues_hold (queues_of (in_player s')) [] [] \<and>
     skip_count (stat (songs (w_db (p_world (in_player s'))) ! 0)) = 2"
proof -
  have q: "queues_hold (queues_of (in_player (ex_input WIN_PLAYLIST))) [(Some 0, Some 0)] []"
    using ex_play_world_queue by (simp add: ex_input_def queues_of_def start_player_def)
  have sel: "q_selected (song_queue (queues_of (in_player (ex_input WIN_PLAYLIST)))) = 0" by code_simp
  have songs: "stats_loaded (w_db ex_play_world) = False" "songs (w_db ex_play_world) = [ex_ready_song]"
    by (simp_all add: ex_play_world_def ex_db_def)
  have "\<exists>db. feedback ex_config (Some 0) (- 1) (w_db ex_play_world) (w_fs ex_play_world) = Inr (db, w_fs ex_play_world) \<and>
      skip_count (stat (songs db ! 0)) = 2"
    by (simp add: songs feedback_def read_at_def Let_def save_song_cases needs_save_def feedback_stat_def
        ex_ready_song_def ex_song_def)
  then obtain db where db: "feedback ex_config (Some 0) (- 1) (w_db ex_play_world) (w_fs ex_play_world) = Inr (db, w_fs ex_play_world)"
    "skip_count (stat (songs db ! 0)) = 2" by blast
  have w: "p_world (in_player (ex_input WIN_PLAYLIST)) = ex_play_world" "d_focus (in_display (ex_input WIN_PLAYLIST)) = WIN_PLAYLIST"
    by (simp_all add: ex_input_def start_player_def)
  from delete_removes_selected [OF q w(2) refl, of ex_config db "w_fs ex_play_world"] db w sel show ?thesis by auto
qed

section \<open>Rating\<close>

lemma rate_range: "- 1 \<le> manual_rating (rate relative amount st) \<and> manual_rating (rate relative amount st) \<le> 10"
  by (simp add: rate_def Let_def)

lemma rate_counts [simp]:
  "play_count (rate relative amount st) = play_count st" "skip_count (rate relative amount st) = skip_count st"
  "repeat_counter (rate relative amount st) = repeat_counter st"
  by (simp_all add: rate_def Let_def)

lemma rate_song_Inr:
  assumes "rate_song cfg relative amount i w = Inr w'"
  shows "i < length (songs (w_db w)) \<and>
    (\<exists>s' fs. save_song cfg (stats_loaded (w_db w))
        ((songs (w_db w) ! i)\<lparr>stat := rate relative amount (stat (songs (w_db w) ! i))\<rparr>) (w_fs w) = Inr (s', fs) \<and>
      songs (w_db w') = (songs (w_db w))[i := s'] \<and> w_fs w' = fs \<and> w_queues w' = w_queues w \<and>
      db_sum (w_db w') = db_sum (w_db w) - get_rating (db_manual_rating_bias cfg) (stat (songs (w_db w) ! i)) +
        get_rating (db_manual_rating_bias cfg) (rate relative amount (stat (songs (w_db w) ! i))) \<and>
      db_sqr_sum (w_db w') = db_sqr_sum (w_db w) -
        get_rating (db_manual_rating_bias cfg) (stat (songs (w_db w) ! i)) *
          get_rating (db_manual_rating_bias cfg) (stat (songs (w_db w) ! i)) +
        get_rating (db_manual_rating_bias cfg) (rate relative amount (stat (songs (w_db w) ! i))) *
          get_rating (db_manual_rating_bias cfg) (rate relative amount (stat (songs (w_db w) ! i))) \<and>
      play_sum (w_db w') = play_sum (w_db w) \<and> play_sqr_sum (w_db w') = play_sqr_sum (w_db w) \<and>
      skip_sum (w_db w') = skip_sum (w_db w) \<and> skip_sqr_sum (w_db w') = skip_sqr_sum (w_db w))"
proof (cases "i < length (songs (w_db w))")
  case True
  then show ?thesis using assms by (clarsimp simp: rate_song_def Let_def)
next
  case False
  then show ?thesis using assms by (simp add: rate_song_def read_at_def)
qed

text \<open>Rating a song keeps the sums of the song picker equal to the sums over the songs
  and the manual rating between -1 and 10, whatever amount comes in; plays, skips
  and the repeat counter of the song, the other songs and the queues do not change.\<close>

theorem rating_keeps_sums:
  assumes "sums_ok (db_manual_rating_bias cfg) (w_db w)" and "rate_song cfg relative amount i w = Inr w'"
  shows "sums_ok (db_manual_rating_bias cfg) (w_db w') \<and> w_queues w' = w_queues w \<and>
    (\<exists>s'. songs (w_db w') = (songs (w_db w))[i := s'] \<and>
       - 1 \<le> manual_rating (stat s') \<and> manual_rating (stat s') \<le> 10 \<and>
       play_count (stat s') = play_count (stat (songs (w_db w) ! i)) \<and>
       skip_count (stat s') = skip_count (stat (songs (w_db w) ! i)) \<and>
       repeat_counter (stat s') = repeat_counter (stat (songs (w_db w) ! i)))"
proof -
  let ?st = "stat (songs (w_db w) ! i)"
  note r = rate_song_Inr [OF assms(2)]
  then obtain s' where i: "i < length (songs (w_db w))"
    and save: "save_song cfg (stats_loaded (w_db w)) ((songs (w_db w) ! i)\<lparr>stat := rate relative amount ?st\<rparr>) (w_fs w) = Inr (s', w_fs w')"
    and songs: "songs (w_db w') = (songs (w_db w))[i := s']" by auto
  have "db_sum (w_db w') = db_sum (w_db w) - get_rating (db_manual_rating_bias cfg) ?st +
        get_rating (db_manual_rating_bias cfg) (rate relative amount ?st) \<and>
      db_sqr_sum (w_db w') = db_sqr_sum (w_db w) -
        get_rating (db_manual_rating_bias cfg) ?st * get_rating (db_manual_rating_bias cfg) ?st +
        get_rating (db_manual_rating_bias cfg) (rate relative amount ?st) *
          get_rating (db_manual_rating_bias cfg) (rate relative amount ?st) \<and>
      play_sum (w_db w') = play_sum (w_db w) \<and> play_sqr_sum (w_db w') = play_sqr_sum (w_db w) \<and>
      skip_sum (w_db w') = skip_sum (w_db w) \<and> skip_sqr_sum (w_db w') = skip_sqr_sum (w_db w) \<and> w_queues w' = w_queues w"
    using r by blast
  note sums = this
  note saved = save_song_stat [OF save, simplified]
  have "sums_ok (db_manual_rating_bias cfg) (w_db w')"
    by (rule sums_ok_replace [OF assms(1) i songs refl refl]) (use sums saved in simp_all)
  then show ?thesis using sums songs saved rate_range by auto
qed

theorem rating_keeps_sums_witness:
  "\<exists>w'. rate_song (ex_config\<lparr>db_readonly := 1\<rparr>) True 5 0 (ex_world\<lparr>w_db := ex_loaded_db\<rparr>) = Inr w' \<and>
     sums_ok (db_manual_rating_bias ex_config) (w_db w')"
proof -
  let ?cfg = "ex_config\<lparr>db_readonly := 1\<rparr>" and ?w = "ex_world\<lparr>w_db := ex_loaded_db\<rparr>"
  have "\<exists>w'. rate_song ?cfg True 5 0 ?w = Inr w'"
    by (simp add: rate_song_def Let_def save_song_def read_at_def)
  then obtain w' where "rate_song ?cfg True 5 0 ?w = Inr w'" by blast
  with rating_keeps_sums [OF _ this] ex_loaded_db_sums show ?thesis by auto
qed

end
