(* ===== verification/Memory.thy ===== *)
theory Memory
  imports Squash_Base
begin

text \<open>
  Blocks of bytes with bounds: \<open>memcpy()\<close> and \<open>memset()\<close> as the sound and spectrum code
  use them.  A block is the list of its bytes; a size is an \<open>int\<close>, and a negative one
  becomes a huge \<open>size_t\<close>, so it is out of bounds.
\<close>

definition in_block :: "int \<Rightarrow> int \<Rightarrow> 'a list \<Rightarrow> bool" where
  "in_block i n xs \<longleftrightarrow> 0 \<le> i \<and> 0 \<le> n \<and> i + n \<le> int (length xs)"

definition memcpy :: "'a list \<Rightarrow> int \<Rightarrow> 'a list \<Rightarrow> int \<Rightarrow> int \<Rightarrow> 'a list result" where
  "memcpy dst i src j n =
     (if in_block i n dst \<and> in_block j n src
      then Inr (take (nat i) dst @ take (nat n) (drop (nat j) src) @ drop (nat (i + n)) dst)
      else Inl Out_Of_Bounds)"

definition memset :: "'a list \<Rightarrow> int \<Rightarrow> 'a \<Rightarrow> int \<Rightarrow> 'a list result" where
  "memset dst i v n =
     (if in_block i n dst
      then Inr (take (nat i) dst @ replicate (nat n) v @ drop (nat (i + n)) dst)
      else Inl Out_Of_Bounds)"

lemma memcpy_Inr:
  "memcpy dst i src j n = Inr dst' \<longleftrightarrow> in_block i n dst \<and> in_block j n src \<and>
     dst' = take (nat i) dst @ take (nat n) (drop (nat j) src) @ drop (nat (i + n)) dst"
  by (auto simp: memcpy_def)

lemma returns_memcpy: "returns (memcpy dst i src j n) \<longleftrightarrow> in_block i n dst \<and> in_block j n src"
  by (simp add: memcpy_def)

lemma length_memcpy:
  assumes "memcpy dst i src j n = Inr dst'"
  shows "length dst' = length dst"
  using assms by (auto simp: memcpy_Inr in_block_def)

lemma length_memset:
  assumes "memset dst i v n = Inr dst'"
  shows "length dst' = length dst"
  using assms by (auto simp: memset_def in_block_def split: if_splits)

text \<open>A copy behind the bytes in use appends.\<close>

lemma memcpy_append:
  assumes "memcpy dst i src j n = Inr dst'" and "0 \<le> j"
  shows "take (nat (i + n)) dst' = take (nat i) dst @ take (nat n) (drop (nat j) src)"
  using assms by (auto simp: memcpy_Inr in_block_def nat_add_distrib)

lemma memset_append:
  assumes "memset dst i v n = Inr dst'"
  shows "take (nat (i + n)) dst' = take (nat i) dst @ replicate (nat n) v"
  using assms by (auto simp: memset_def in_block_def nat_add_distrib split: if_splits)

end
