(* ===== verification/Sound.thy ===== *)
theory Sound
  imports Memory Playback_Correct "HOL-Library.Word"
begin

text \<open>
  \<open>src/src/sound.c\<close> as built for the DSP of the empeg: the volume and the buffer that
  gathers the bytes of the frames into blocks of the size the audio device takes.
  The audio device is what has been written to it, \<open>ok k\<close> telling whether the
  write of block number \<open>k\<close> succeeds; the mixer is the raw volume it stores.
\<close>

unbundle bit_operations_syntax

definition EMPEG_AUDIO_BUFFER_SIZE :: int where
  "EMPEG_AUDIO_BUFFER_SIZE = 4608"

record sound_device =
  sd_audio :: "int list list"
  sd_mixer :: int
  sd_buffer :: "int list"
  sd_buffer_size :: int
  sd_volume :: "int \<times> int"

section \<open>Volume\<close>

definition clip_volume :: "int \<Rightarrow> int" where
  "clip_volume v = (let v = (if v > 100 then 100 else v) in if v < 0 then 0 else v)"

definition raw_volume :: "int \<times> int \<Rightarrow> int" where
  "raw_volume v = fst v + push_bit 8 (snd v)"

text \<open>\<open>sound_open()\<close>: \<open>malloc\<close> leaves the bytes of the buffer undefined, here \<open>junk\<close>.\<close>

definition sound_open :: "int list \<Rightarrow> int \<Rightarrow> sound_device" where
  "sound_open junk raw_vol =
     \<lparr>sd_audio = [], sd_mixer = raw_vol, sd_buffer = junk, sd_buffer_size = 0,
      sd_volume = (raw_vol AND 0xFF, drop_bit 8 raw_vol AND 0xFF)\<rparr>"

definition sound_set_volume :: "int \<Rightarrow> sound_device option \<Rightarrow> sound_device option" where
  "sound_set_volume v sound =
     map_option (\<lambda>s. let vol = (clip_volume v, clip_volume v) in s\<lparr>sd_volume := vol, sd_mixer := raw_volume vol\<rparr>) sound"

definition sound_adjust_volume :: "int \<Rightarrow> sound_device option \<Rightarrow> sound_device option" where
  "sound_adjust_volume adjustment sound =
     map_option (\<lambda>s.
       let vol = (clip_volume (fst (sd_volume s) + adjustment), clip_volume (snd (sd_volume s) + adjustment)) in
       s\<lparr>sd_volume := vol, sd_mixer := raw_volume vol\<rparr>) sound"

section \<open>Playing\<close>

text \<open>The part of a turn that fills the buffer: the new index, what remains, the device.\<close>

definition fill_buffer :: "frame_data \<Rightarrow> int \<Rightarrow> sound_device \<Rightarrow> (int \<times> int \<times> sound_device) result" where
  "fill_buffer f i d =
     (let buffer_remain = EMPEG_AUDIO_BUFFER_SIZE - sd_buffer_size d in
      if buffer_remain > 0 then
        (let pcm_remain = fd_pcm_size f - i;
             copy_amount = (if pcm_remain > buffer_remain then buffer_remain else pcm_remain) in
         map_result (\<lambda>buffer. (i + copy_amount, buffer_remain - copy_amount,
               d\<lparr>sd_buffer := buffer, sd_buffer_size := sd_buffer_size d + copy_amount\<rparr>))
           (memcpy (sd_buffer d) (sd_buffer_size d) (fd_pcm_data f) i copy_amount))
      else Inr (i, buffer_remain, d))"

definition write_buffer :: "(nat \<Rightarrow> bool) \<Rightarrow> sound_device \<Rightarrow> sound_device result" where
  "write_buffer ok d =
     (if ok (length (sd_audio d))
      then Inr (d\<lparr>sd_audio := sd_audio d @ [take (nat EMPEG_AUDIO_BUFFER_SIZE) (sd_buffer d)], sd_buffer_size := 0\<rparr>)
      else Inl Squash_Error)"

text \<open>The loop of \<open>sound_play()\<close>; \<open>None\<close> would be a loop that does not end.\<close>

partial_function (option) play_loop ::
  "(nat \<Rightarrow> bool) \<Rightarrow> frame_data \<Rightarrow> int \<Rightarrow> sound_device \<Rightarrow> sound_device result option" where
  "play_loop ok f i d =
     (if i < fd_pcm_size f then
        (case fill_buffer f i d of
           Inl e \<Rightarrow> Some (Inl e)
         | Inr (j, remain, d1) \<Rightarrow>
           (case (if remain = 0 then write_buffer ok d1 else Inr d1) of
              Inl e \<Rightarrow> Some (Inl e)
            | Inr d2 \<Rightarrow> play_loop ok f j d2))
      else Some (Inr d))"

definition sound_play :: "(nat \<Rightarrow> bool) \<Rightarrow> frame_data \<Rightarrow> sound_device \<Rightarrow> sound_device result option" where
  "sound_play ok f d = play_loop ok f 0 d"

text \<open>\<open>sound_close()\<close>: what is left goes out filled up with zeros; the device is gone, the result is what it wrote.\<close>

definition sound_close :: "(nat \<Rightarrow> bool) \<Rightarrow> sound_device \<Rightarrow> int list list result" where
  "sound_close ok d =
     (if sd_buffer_size d \<noteq> 0 then
        and_then (memset (sd_buffer d) (sd_buffer_size d) 0 (EMPEG_AUDIO_BUFFER_SIZE - sd_buffer_size d)) (\<lambda>buffer.
        map_result sd_audio (write_buffer ok (d\<lparr>sd_buffer := buffer\<rparr>)))
      else Inr (sd_audio d))"

text \<open>A song: the frames the player hands over between opening and closing the device.\<close>

fun play_frames :: "(nat \<Rightarrow> bool) \<Rightarrow> frame_data list \<Rightarrow> sound_device \<Rightarrow> sound_device result option" where
  "play_frames ok [] d = Some (Inr d)"
| "play_frames ok (f # fs) d =
     (case sound_play ok f d of
        None \<Rightarrow> None
      | Some (Inl e) \<Rightarrow> Some (Inl e)
      | Some (Inr d') \<Rightarrow> play_frames ok fs d')"

section \<open>The volume\<close>

lemma clip_volume_range: "0 \<le> clip_volume v \<and> clip_volume v \<le> 100"
  by (simp add: clip_volume_def Let_def)

lemma mixer_bytes:
  assumes "0 \<le> l" "l < 256" "0 \<le> (r::int)" "r < 256"
  shows "raw_volume (l, r) AND 0xFF = l" and "drop_bit 8 (raw_volume (l, r)) AND 0xFF = r"
proof -
  have m: "(x::int) AND 0xFF = x mod 256" for x
    using take_bit_eq_mask [of 8 x] by (simp add: take_bit_eq_mod mask_eq_exp_minus_1 and.commute)
  show "raw_volume (l, r) AND 0xFF = l" using assms by (simp add: raw_volume_def m push_bit_eq_mult)
  show "drop_bit 8 (raw_volume (l, r)) AND 0xFF = r"
    using assms by (simp add: raw_volume_def m push_bit_eq_mult drop_bit_eq_div)
qed

text \<open>Whatever adjustments are made, both channels stay between 0 and 100, move by the
  amount as far as that allows, and the mixer holds them so that the device opened
  for the next song starts with the same volume.\<close>

theorem volume_survives_reopening:
  assumes "sound_adjust_volume a (Some d) = Some d'"
  shows "sd_volume d' = (min 100 (max 0 (fst (sd_volume d) + a)), min 100 (max 0 (snd (sd_volume d) + a))) \<and>
    sd_volume (sound_open junk (sd_mixer d')) = sd_volume d' \<and>
    sd_audio d' = sd_audio d \<and> sd_buffer d' = sd_buffer d"
proof -
  have c: "clip_volume v = min 100 (max 0 v)" for v by (simp add: clip_volume_def Let_def)
  have "0 \<le> clip_volume v \<and> clip_volume v < 256" for v using clip_volume_range [of v] by simp
  then have "raw_volume (clip_volume v, clip_volume u) AND 0xFF = clip_volume v"
    "drop_bit 8 (raw_volume (clip_volume v, clip_volume u)) AND 0xFF = clip_volume u" for v u
    using mixer_bytes [of "clip_volume v" "clip_volume u"] by simp_all
  then show ?thesis using assms by (auto simp: sound_adjust_volume_def sound_open_def Let_def c)
qed

theorem volume_survives_reopening_witness:
  "\<exists>d'. sound_adjust_volume 40 (Some (sound_open [] 0x5A46)) = Some d' \<and> sd_volume d' = (100, 100) \<and>
     sd_volume (sound_open [] (sd_mixer d')) = (100, 100)"
proof -
  obtain d' where d': "sound_adjust_volume 40 (Some (sound_open [] 0x5A46)) = Some d'"
    by (simp add: sound_adjust_volume_def)
  have "sd_volume (sound_open [] 0x5A46) = (70, 90)" by code_simp
  then show ?thesis using volume_survives_reopening [OF d', of "[]"] d' by auto
qed

section \<open>The stream of bytes\<close>

definition all_ok :: "nat \<Rightarrow> bool" where
  "all_ok k = True"

definition device_ok :: "sound_device \<Rightarrow> bool" where
  "device_ok d \<longleftrightarrow> int (length (sd_buffer d)) = EMPEG_AUDIO_BUFFER_SIZE \<and> 0 \<le> sd_buffer_size d \<and>
     sd_buffer_size d < EMPEG_AUDIO_BUFFER_SIZE \<and>
     (\<forall>b \<in> set (sd_audio d). int (length b) = EMPEG_AUDIO_BUFFER_SIZE)"

definition frame_ok :: "frame_data \<Rightarrow> bool" where
  "frame_ok f \<longleftrightarrow> fd_pcm_size f = int (length (fd_pcm_data f))"

definition stream :: "sound_device \<Rightarrow> int list" where
  "stream d = concat (sd_audio d) @ take (nat (sd_buffer_size d)) (sd_buffer d)"

lemma fill_buffer_ok:
  assumes "device_ok d" and "frame_ok f" and "0 \<le> i" "i < fd_pcm_size f"
  shows "\<exists>n d'. fill_buffer f i d = Inr (i + n, EMPEG_AUDIO_BUFFER_SIZE - sd_buffer_size d', d') \<and> 0 < n \<and> i + n \<le> fd_pcm_size f \<and>
    int (length (sd_buffer d')) = EMPEG_AUDIO_BUFFER_SIZE \<and> sd_buffer_size d' = sd_buffer_size d + n \<and>
    sd_buffer_size d' \<le> EMPEG_AUDIO_BUFFER_SIZE \<and> sd_audio d' = sd_audio d \<and>
    take (nat (sd_buffer_size d')) (sd_buffer d') =
      take (nat (sd_buffer_size d)) (sd_buffer d) @ take (nat n) (drop (nat i) (fd_pcm_data f))"
proof -
  define n where "n = min (fd_pcm_size f - i) (EMPEG_AUDIO_BUFFER_SIZE - sd_buffer_size d)"
  have "in_block (sd_buffer_size d) n (sd_buffer d)" "in_block i n (fd_pcm_data f)"
    using assms by (auto simp: in_block_def device_ok_def frame_ok_def n_def)
  then obtain b where b: "memcpy (sd_buffer d) (sd_buffer_size d) (fd_pcm_data f) i n = Inr b"
    by (simp add: memcpy_def)
  have n: "(if fd_pcm_size f - i > EMPEG_AUDIO_BUFFER_SIZE - sd_buffer_size d
       then EMPEG_AUDIO_BUFFER_SIZE - sd_buffer_size d else fd_pcm_size f - i) = n" by (simp add: n_def)
  have "fill_buffer f i d = Inr (i + n, EMPEG_AUDIO_BUFFER_SIZE - sd_buffer_size d - n,
      d\<lparr>sd_buffer := b, sd_buffer_size := sd_buffer_size d + n\<rparr>)"
    using assms(1) b by (simp add: fill_buffer_def Let_def n device_ok_def)
  moreover have "0 < n" "i + n \<le> fd_pcm_size f" "sd_buffer_size d + n \<le> EMPEG_AUDIO_BUFFER_SIZE"
    using assms by (auto simp: n_def device_ok_def)
  ultimately show ?thesis
    using length_memcpy [OF b] memcpy_append [OF b assms(3)] assms(1)
    by (intro exI [of _ n] exI [of _ "d\<lparr>sd_buffer := b, sd_buffer_size := sd_buffer_size d + n\<rparr>"])
      (simp add: device_ok_def algebra_simps)
qed

lemma play_loop_ok:
  assumes "device_ok d" and "frame_ok f" and "0 \<le> i"
  shows "\<exists>d'. play_loop all_ok f i d = Some (Inr d') \<and> device_ok d' \<and>
    stream d' = stream d @ drop (nat i) (fd_pcm_data f)"
  using assms
proof (induction "nat (fd_pcm_size f - i)" arbitrary: i d rule: less_induct)
  case less
  show ?case
  proof (cases "i < fd_pcm_size f")
    case False
    then have "drop (nat i) (fd_pcm_data f) = []" using less.prems(2) by (simp add: frame_ok_def)
    then show ?thesis using False less.prems(1) by (subst play_loop.simps) simp
  next
    case True
    obtain n d1 where d1: "fill_buffer f i d = Inr (i + n, EMPEG_AUDIO_BUFFER_SIZE - sd_buffer_size d1, d1)" "0 < n"
      "i + n \<le> fd_pcm_size f" "int (length (sd_buffer d1)) = EMPEG_AUDIO_BUFFER_SIZE" "sd_buffer_size d1 = sd_buffer_size d + n"
      "sd_buffer_size d1 \<le> EMPEG_AUDIO_BUFFER_SIZE" "sd_audio d1 = sd_audio d"
      "take (nat (sd_buffer_size d1)) (sd_buffer d1) =
         take (nat (sd_buffer_size d)) (sd_buffer d) @ take (nat n) (drop (nat i) (fd_pcm_data f))"
      using fill_buffer_ok [OF less.prems(1,2,3) True] by blast
    define d2 where "d2 = (if sd_buffer_size d1 = EMPEG_AUDIO_BUFFER_SIZE
      then d1\<lparr>sd_audio := sd_audio d1 @ [take (nat EMPEG_AUDIO_BUFFER_SIZE) (sd_buffer d1)], sd_buffer_size := 0\<rparr> else d1)"
    have w: "(if EMPEG_AUDIO_BUFFER_SIZE - sd_buffer_size d1 = 0 then write_buffer all_ok d1 else Inr d1) = Inr d2"
      by (simp add: d2_def write_buffer_def all_ok_def)
    have ok: "device_ok d2" using d1(2,4-7) less.prems(1) by (auto simp: d2_def device_ok_def EMPEG_AUDIO_BUFFER_SIZE_def)
    have st: "stream d2 = stream d @ take (nat n) (drop (nat i) (fd_pcm_data f))"
      using d1(7,8) by (cases "sd_buffer_size d1 = EMPEG_AUDIO_BUFFER_SIZE") (simp_all add: stream_def d2_def)
    have "nat (fd_pcm_size f - (i + n)) < nat (fd_pcm_size f - i)" using True d1(2) by simp
    then obtain d' where d': "play_loop all_ok f (i + n) d2 = Some (Inr d')" "device_ok d'"
      "stream d' = stream d2 @ drop (nat (i + n)) (fd_pcm_data f)"
      using less.hyps [of "i + n" d2] ok less.prems(2,3) d1(2) by auto
    have "drop (nat i) (fd_pcm_data f) = take (nat n) (drop (nat i) (fd_pcm_data f)) @ drop (nat (i + n)) (fd_pcm_data f)"
    proof -
      have "nat (i + n) = nat n + nat i" using less.prems(3) d1(2) by (simp add: nat_add_distrib)
      then show ?thesis by (simp only: drop_drop [symmetric] append_take_drop_id)
    qed
    then have "stream d' = stream d @ drop (nat i) (fd_pcm_data f)" using d'(3) st by simp
    moreover have "play_loop all_ok f i d = Some (Inr d')"
      using True d1(1) w d'(1) by (subst play_loop.simps) simp
    ultimately show ?thesis using d'(2) by blast
  qed
qed

lemma play_frames_ok:
  assumes "device_ok d" and "\<forall>f \<in> set fs. frame_ok f"
  shows "\<exists>d'. play_frames all_ok fs d = Some (Inr d') \<and> device_ok d' \<and>
    stream d' = stream d @ concat (map fd_pcm_data fs)"
  using assms
proof (induction fs arbitrary: d)
  case (Cons f fs)
  obtain d1 where d1: "sound_play all_ok f d = Some (Inr d1)" "device_ok d1" "stream d1 = stream d @ fd_pcm_data f"
    using play_loop_ok [OF Cons.prems(1), of f 0] Cons.prems(2) by (auto simp: sound_play_def)
  obtain d' where "play_frames all_ok fs d1 = Some (Inr d')" "device_ok d'"
    "stream d' = stream d1 @ concat (map fd_pcm_data fs)" using Cons.IH [OF d1(2)] Cons.prems(2) by auto
  then show ?case using d1 by simp
qed simp

lemma sound_close_ok:
  assumes "device_ok d"
  shows "\<exists>blocks n. sound_close all_ok d = Inr blocks \<and> concat blocks = stream d @ replicate n 0 \<and>
    int n < EMPEG_AUDIO_BUFFER_SIZE \<and> (\<forall>b \<in> set blocks. int (length b) = EMPEG_AUDIO_BUFFER_SIZE)"
proof (cases "sd_buffer_size d = 0")
  case True
  then show ?thesis using assms
    by (intro exI [of _ "sd_audio d"] exI [of _ 0]) (simp add: sound_close_def stream_def device_ok_def)
next
  case False
  let ?n = "EMPEG_AUDIO_BUFFER_SIZE - sd_buffer_size d"
  obtain b where b: "memset (sd_buffer d) (sd_buffer_size d) 0 ?n = Inr b"
    using assms by (auto simp: memset_def in_block_def device_ok_def)
  have l: "int (length b) = EMPEG_AUDIO_BUFFER_SIZE" using length_memset [OF b] assms by (simp add: device_ok_def)
  have t: "take (nat EMPEG_AUDIO_BUFFER_SIZE) b = take (nat (sd_buffer_size d)) (sd_buffer d) @ replicate (nat ?n) 0"
    using memset_append [OF b] by simp
  have "sound_close all_ok d = Inr (sd_audio d @ [take (nat EMPEG_AUDIO_BUFFER_SIZE) b])"
    using False b by (simp add: sound_close_def write_buffer_def all_ok_def)
  moreover have "concat (sd_audio d @ [take (nat EMPEG_AUDIO_BUFFER_SIZE) b]) = stream d @ replicate (nat ?n) 0"
    by (simp add: stream_def t)
  moreover have "int (nat ?n) < EMPEG_AUDIO_BUFFER_SIZE" using False assms by (simp add: device_ok_def)
  moreover have "\<forall>x \<in> set (sd_audio d @ [take (nat EMPEG_AUDIO_BUFFER_SIZE) b]). int (length x) = EMPEG_AUDIO_BUFFER_SIZE"
    using assms l by (auto simp: device_ok_def)
  ultimately show ?thesis by blast
qed

text \<open>C15. Playing ends and loses no sound: for every list of frames, when the audio device
  takes its writes, the loop of \<open>sound_play()\<close> returns for each frame, nothing is
  written outside the buffer, and what the device has got when it is closed is the
  bytes of all the frames, in order, in blocks of 4608, with fewer than 4608 zeros at
  the end.\<close>

theorem sound_stream_complete:
  assumes "int (length junk) = EMPEG_AUDIO_BUFFER_SIZE" and "\<forall>f \<in> set fs. fd_pcm_size f = int (length (fd_pcm_data f))"
  shows "\<exists>d blocks n. play_frames all_ok fs (sound_open junk raw) = Some (Inr d) \<and> sound_close all_ok d = Inr blocks \<and>
    concat blocks = concat (map fd_pcm_data fs) @ replicate n 0 \<and> int n < EMPEG_AUDIO_BUFFER_SIZE \<and>
    (\<forall>b \<in> set blocks. int (length b) = EMPEG_AUDIO_BUFFER_SIZE)"
proof -
  have "device_ok (sound_open junk raw)" using assms(1) by (simp add: device_ok_def sound_open_def EMPEG_AUDIO_BUFFER_SIZE_def)
  then obtain d where d: "play_frames all_ok fs (sound_open junk raw) = Some (Inr d)" "device_ok d"
    "stream d = stream (sound_open junk raw) @ concat (map fd_pcm_data fs)"
    using play_frames_ok [of "sound_open junk raw" fs] assms(2) by (auto simp: frame_ok_def)
  moreover have "stream (sound_open junk raw) = []" by (simp add: stream_def sound_open_def)
  ultimately show ?thesis using sound_close_ok [OF d(2)] by fastforce
qed

theorem sound_stream_complete_witness:
  "\<exists>d blocks n. play_frames all_ok [ex_frame 0, ex_frame 1] (sound_open (replicate 4608 7) 0) = Some (Inr d) \<and>
     sound_close all_ok d = Inr blocks \<and> concat blocks = [1, 2, 3, 4, 1, 2, 3, 4] @ replicate n 0"
  using sound_stream_complete [of "replicate 4608 7" "[ex_frame 0, ex_frame 1]" 0]
  by (auto simp: EMPEG_AUDIO_BUFFER_SIZE_def ex_frame_def)

end
