(* ===== verification/Spectrum.thy ===== *)
theory Spectrum
  imports Memory Playback_Correct Windows
begin

text \<open>
  The ring buffer between the player and the spectrum analyser of
  \<open>src/src/spectrum.c\<close>: \<open>spectrum_reset()\<close>, \<open>spectrum_update()\<close> by the player,
  \<open>spectrum_prepare_render()\<close> by the analyser, and the bitmap of \<open>spectrum_resize()\<close>.
  The bars are in \<open>Spectrum_Bars\<close>.
\<close>

section \<open>The ring\<close>

definition SPECTRUM_WINDOW_SIZE :: int where
  "SPECTRUM_WINDOW_SIZE = 4096"

definition SPECTRUM_RING_SIZE :: int where
  "SPECTRUM_RING_SIZE = SPECTRUM_WINDOW_SIZE + 1"

text \<open>\<open>head\<close> and \<open>tail\<close> count samples of four bytes, \<open>ring\<close> is the bytes.\<close>

record spectrum_ring =
  sr_head :: int
  sr_tail :: int
  sr_ring :: "int list"

definition spectrum_init :: "int list \<Rightarrow> spectrum_ring" where
  "spectrum_init junk = \<lparr>sr_head = 0, sr_tail = 0, sr_ring = junk\<rparr>"

definition spectrum_reset :: "spectrum_ring \<Rightarrow> spectrum_ring" where
  "spectrum_reset r = r\<lparr>sr_head := 0, sr_tail := 0\<rparr>"

text \<open>\<open>pcm_size / 4\<close> of a frame that is played, so of a positive size.\<close>

definition ring_bytes :: "frame_data \<Rightarrow> spectrum_ring \<Rightarrow> int list result" where
  "ring_bytes f r =
     (let to_add = fd_pcm_size f div 4 in
      if sr_tail r + to_add \<ge> SPECTRUM_RING_SIZE then
        (let first_add = SPECTRUM_RING_SIZE - sr_tail r - 1;
             second_add = to_add - first_add in
         and_then (memcpy (sr_ring r) (sr_tail r * 4) (fd_pcm_data f) 0 (first_add * 4)) (\<lambda>ring.
         memcpy ring 0 (fd_pcm_data f) (first_add * 4) (second_add * 4)))
      else memcpy (sr_ring r) (sr_tail r * 4) (fd_pcm_data f) 0 (to_add * 4))"

definition ring_ends :: "int \<Rightarrow> spectrum_ring \<Rightarrow> spectrum_ring" where
  "ring_ends to_add r =
     (let i = (sr_tail r + to_add) mod SPECTRUM_RING_SIZE in
      if sr_head r = (sr_tail r + 1) mod SPECTRUM_RING_SIZE
      then r\<lparr>sr_tail := i, sr_head := (i + 1) mod SPECTRUM_RING_SIZE\<rparr>
      else
        (let cur_size = (sr_tail r - sr_head r + SPECTRUM_RING_SIZE) mod SPECTRUM_RING_SIZE in
         if cur_size + to_add \<ge> SPECTRUM_RING_SIZE
         then r\<lparr>sr_tail := i, sr_head := (i + 1) mod SPECTRUM_RING_SIZE\<rparr>
         else r\<lparr>sr_tail := i\<rparr>))"

definition spectrum_update :: "frame_data \<Rightarrow> spectrum_ring \<Rightarrow> spectrum_ring result" where
  "spectrum_update f r =
     map_result (\<lambda>ring. ring_ends (fd_pcm_size f div 4) (r\<lparr>sr_ring := ring\<rparr>)) (ring_bytes f r)"

text \<open>\<open>((short *)ring)[k]\<close>, little endian, from two bytes.\<close>

definition short_at :: "int list \<Rightarrow> int \<Rightarrow> int result" where
  "short_at ring k =
     and_then (read_at ring (2 * k)) (\<lambda>lo.
     map_result (\<lambda>hi. let u = lo mod 256 + 256 * (hi mod 256) in if u \<ge> 32768 then u - 65536 else u)
       (read_at ring (2 * k + 1)))"

text \<open>
  The loop of \<open>spectrum_prepare_render()\<close>: \<open>n\<close> samples from \<open>index\<close> on, real and
  imaginary part, before they are scaled by the window.
\<close>

fun take_samples :: "nat \<Rightarrow> int \<Rightarrow> int \<Rightarrow> int list \<Rightarrow> (int \<times> int) list result" where
  "take_samples 0 channels index ring = Inr []"
| "take_samples (Suc n) channels index ring =
     and_then (short_at ring index) (\<lambda>re.
     let index = (index + 1) mod SPECTRUM_RING_SIZE in
     and_then (if channels = 2
               then map_result (\<lambda>im. (im, (index + 1) mod SPECTRUM_RING_SIZE)) (short_at ring index)
               else Inr (0, index)) (\<lambda>(im, index).
     map_result (\<lambda>xs. (re, im) # xs) (take_samples n channels index ring)))"

text \<open>\<open>None\<close>: the ring is not full, the input of the transform stays as it is.\<close>

definition spectrum_prepare_render :: "int \<Rightarrow> spectrum_ring \<Rightarrow> (int \<times> int) list option result" where
  "spectrum_prepare_render channels r =
     (if (sr_tail r + 1) mod SPECTRUM_RING_SIZE = sr_head r
      then map_result Some (take_samples (nat SPECTRUM_WINDOW_SIZE) channels (sr_head r) (sr_ring r))
      else Inr None)"

section \<open>The ring as a bounded queue\<close>

definition ring_ok :: "spectrum_ring \<Rightarrow> bool" where
  "ring_ok r \<longleftrightarrow> 0 \<le> sr_head r \<and> sr_head r < SPECTRUM_RING_SIZE \<and> 0 \<le> sr_tail r \<and> sr_tail r < SPECTRUM_RING_SIZE \<and>
     int (length (sr_ring r)) = SPECTRUM_RING_SIZE * 4"

definition ring_count :: "spectrum_ring \<Rightarrow> int" where
  "ring_count r = (sr_tail r - sr_head r) mod SPECTRUM_RING_SIZE"

lemma ring_size: "SPECTRUM_RING_SIZE = 4097"
  by (simp add: SPECTRUM_RING_SIZE_def SPECTRUM_WINDOW_SIZE_def)

lemma mod_difference:
  assumes "0 \<le> t" "t < N" "0 \<le> h" "h < (N::int)"
  shows "(t - h) mod N = (if h \<le> t then t - h else t - h + N)"
proof (cases "h \<le> t")
  case True
  then show ?thesis using assms by (simp add: mod_pos_pos_trivial)
next
  case False
  have "(t - h) mod N = (t - h + N) mod N" by simp
  also have "\<dots> = t - h + N" using assms False by (intro mod_pos_pos_trivial) auto
  finally show ?thesis using False by simp
qed

lemma mod_successor: "0 \<le> t \<Longrightarrow> t < (N::int) \<Longrightarrow> (t + 1) mod N = (if t + 1 = N then 0 else t + 1)"
  by (auto simp: mod_pos_pos_trivial)

lemma ring_count_range: "0 \<le> ring_count r \<and> ring_count r < SPECTRUM_RING_SIZE"
  by (simp add: ring_count_def ring_size)

lemma full_iff:
  assumes "ring_ok r"
  shows "sr_head r = (sr_tail r + 1) mod SPECTRUM_RING_SIZE \<longleftrightarrow> ring_count r = SPECTRUM_WINDOW_SIZE"
  using assms mod_difference [of "sr_tail r" SPECTRUM_RING_SIZE "sr_head r"] mod_successor [of "sr_tail r" SPECTRUM_RING_SIZE]
  by (auto simp: ring_ok_def ring_count_def SPECTRUM_RING_SIZE_def SPECTRUM_WINDOW_SIZE_def split: if_splits)

lemma filled_count:
  assumes "0 \<le> i" "i < SPECTRUM_RING_SIZE"
  shows "(i - (i + 1) mod SPECTRUM_RING_SIZE) mod SPECTRUM_RING_SIZE = SPECTRUM_WINDOW_SIZE"
  using assms mod_difference [of i SPECTRUM_RING_SIZE "(i + 1) mod SPECTRUM_RING_SIZE"]
  by (auto simp: mod_successor SPECTRUM_RING_SIZE_def SPECTRUM_WINDOW_SIZE_def split: if_splits)

lemma ring_ends_count:
  assumes "ring_ok r" and "0 \<le> n"
  shows "ring_ok (ring_ends n r) \<and> ring_count (ring_ends n r) = min SPECTRUM_WINDOW_SIZE (ring_count r + n) \<and>
    sr_ring (ring_ends n r) = sr_ring r"
proof -
  let ?N = SPECTRUM_RING_SIZE
  define i where "i = (sr_tail r + n) mod ?N"
  have i: "0 \<le> i" "i < ?N" by (simp_all add: i_def ring_size)
  have cur: "(sr_tail r - sr_head r + ?N) mod ?N = ring_count r" by (simp add: ring_count_def)
  have j: "0 \<le> (i + 1) mod ?N" "(i + 1) mod ?N < ?N" by (simp_all add: ring_size)
  show ?thesis
  proof (cases "ring_count r = SPECTRUM_WINDOW_SIZE \<or> ring_count r + n \<ge> ?N")
    case True
    then have e: "ring_ends n r = r\<lparr>sr_tail := i, sr_head := (i + 1) mod ?N\<rparr>"
      using full_iff [OF assms(1)] cur by (auto simp: ring_ends_def i_def Let_def)
    have "min SPECTRUM_WINDOW_SIZE (ring_count r + n) = SPECTRUM_WINDOW_SIZE"
      using True assms(2) by (auto simp: SPECTRUM_RING_SIZE_def)
    then show ?thesis using assms(1) i j filled_count [OF i] by (simp add: e ring_ok_def ring_count_def)
  next
    case False
    then have e: "ring_ends n r = r\<lparr>sr_tail := i\<rparr>"
      using full_iff [OF assms(1)] cur by (auto simp: ring_ends_def i_def Let_def)
    have "(i - sr_head r) mod ?N = (sr_tail r - sr_head r + n) mod ?N"
      by (simp add: i_def mod_diff_left_eq algebra_simps)
    also have "\<dots> = (ring_count r + n) mod ?N" by (simp add: ring_count_def mod_add_left_eq)
    also have "\<dots> = ring_count r + n"
      using False assms(2) ring_count_range [of r] by (intro mod_pos_pos_trivial) auto
    finally show ?thesis using assms(1) i False by (simp add: e ring_ok_def ring_count_def SPECTRUM_RING_SIZE_def)
  qed
qed

text \<open>The copies stay within the ring exactly when the frame is not longer than what they can split.\<close>

definition frame_fits :: "frame_data \<Rightarrow> spectrum_ring \<Rightarrow> bool" where
  "frame_fits f r \<longleftrightarrow> fd_pcm_size f div 4 \<le> 2 * SPECTRUM_RING_SIZE - sr_tail r - 1"

lemma ring_bytes_returns:
  assumes "ring_ok r" and "0 < fd_pcm_size f" and "fd_pcm_size f = int (length (fd_pcm_data f))"
  shows "if frame_fits f r then \<exists>ring. ring_bytes f r = Inr ring \<and> length ring = length (sr_ring r)
    else ring_bytes f r = Inl Out_Of_Bounds"
proof -
  let ?n = "fd_pcm_size f div 4"
  have n: "0 \<le> ?n" "?n * 4 \<le> int (length (fd_pcm_data f))" using assms(2,3) by simp_all
  show ?thesis
  proof (cases "sr_tail r + ?n \<ge> SPECTRUM_RING_SIZE")
    case False
    then have "frame_fits f r" using assms(1) by (simp add: frame_fits_def ring_ok_def)
    moreover have "in_block (sr_tail r * 4) (?n * 4) (sr_ring r)" "in_block 0 (?n * 4) (fd_pcm_data f)"
      using False assms(1) n by (auto simp: in_block_def ring_ok_def)
    then obtain ring where "memcpy (sr_ring r) (sr_tail r * 4) (fd_pcm_data f) 0 (?n * 4) = Inr ring"
      by (simp add: memcpy_def)
    ultimately show ?thesis using False length_memcpy by (auto simp: ring_bytes_def Let_def)
  next
    case True
    define a where "a = SPECTRUM_RING_SIZE - sr_tail r - 1"
    have a: "0 \<le> a" "a \<le> ?n" using assms(1) True by (auto simp: a_def ring_ok_def)
    have "in_block (sr_tail r * 4) (a * 4) (sr_ring r)" "in_block 0 (a * 4) (fd_pcm_data f)"
      using a assms(1) n by (auto simp: in_block_def ring_ok_def a_def)
    then obtain ring where ring: "memcpy (sr_ring r) (sr_tail r * 4) (fd_pcm_data f) 0 (a * 4) = Inr ring"
      by (simp add: memcpy_def)
    have "frame_fits f r \<longleftrightarrow> in_block 0 ((?n - a) * 4) ring"
      using length_memcpy [OF ring] assms(1) a by (auto simp: frame_fits_def in_block_def ring_ok_def a_def)
    moreover have src: "in_block (a * 4) ((?n - a) * 4) (fd_pcm_data f)" using a n by (auto simp: in_block_def)
    moreover have bytes: "ring_bytes f r = memcpy ring 0 (fd_pcm_data f) (a * 4) ((?n - a) * 4)"
      using True ring by (simp add: ring_bytes_def Let_def a_def)
    ultimately show ?thesis
    proof (cases "frame_fits f r")
      case fits: True
      then obtain ring' where ring': "memcpy ring 0 (fd_pcm_data f) (a * 4) ((?n - a) * 4) = Inr ring'"
        using src \<open>frame_fits f r \<longleftrightarrow> _\<close> by (simp add: memcpy_def)
      then show ?thesis using fits bytes length_memcpy [OF ring] length_memcpy [OF ring'] by simp
    next
      case False
      then show ?thesis using bytes \<open>frame_fits f r \<longleftrightarrow> _\<close> by (simp add: memcpy_def)
    qed
  qed
qed

text \<open>The ring buffer of the spectrum analyser: for every frame, \<open>spectrum_update()\<close>
  stays within its memory exactly when the frame has at most \<open>2 * 4097 - tail - 1\<close>
  samples; then head and tail stay inside the ring, and the number of samples it
  claims to hold grows by those of the frame up to 4096.\<close>

theorem spectrum_update_bounds:
  assumes "ring_ok r" and "0 < fd_pcm_size f" and "fd_pcm_size f = int (length (fd_pcm_data f))"
  shows "if fd_pcm_size f div 4 \<le> 2 * SPECTRUM_RING_SIZE - sr_tail r - 1
    then \<exists>r'. spectrum_update f r = Inr r' \<and> ring_ok r' \<and>
      ring_count r' = min SPECTRUM_WINDOW_SIZE (ring_count r + fd_pcm_size f div 4)
    else spectrum_update f r = Inl Out_Of_Bounds"
proof (cases "frame_fits f r")
  case True
  then obtain ring where ring: "ring_bytes f r = Inr ring" "length ring = length (sr_ring r)"
    using ring_bytes_returns [OF assms] by auto
  have ok: "ring_ok (r\<lparr>sr_ring := ring\<rparr>)" using assms(1) ring(2) by (simp add: ring_ok_def)
  have c: "ring_count (r\<lparr>sr_ring := ring\<rparr>) = ring_count r" by (simp add: ring_count_def)
  have "0 \<le> fd_pcm_size f div 4" using assms(2) by simp
  from ring_ends_count [OF ok this] c True ring(1) show ?thesis
    by (auto simp: spectrum_update_def frame_fits_def)
next
  case False
  then show ?thesis using ring_bytes_returns [OF assms] by (simp add: spectrum_update_def frame_fits_def)
qed

definition long_frame :: "nat \<Rightarrow> frame_data" where
  "long_frame n = \<lparr>fd_pcm_data = replicate n 1, fd_pcm_size = int n, fd_position = 0\<rparr>"

definition ring_at :: "int \<Rightarrow> spectrum_ring" where
  "ring_at tail = \<lparr>sr_head = 0, sr_tail = tail, sr_ring = replicate 16388 0\<rparr>"

theorem spectrum_update_bounds_witness:
  "(\<exists>r'. spectrum_update (long_frame 4096) (ring_at 4000) = Inr r' \<and> ring_count r' = 4096) \<and>
   spectrum_update (long_frame 18432) (ring_at 4088) = Inl Out_Of_Bounds"
  using spectrum_update_bounds [of "ring_at 4000" "long_frame 4096"] spectrum_update_bounds [of "ring_at 4088" "long_frame 18432"]
  by (auto simp: ring_at_def long_frame_def ring_ok_def ring_size ring_count_def SPECTRUM_WINDOW_SIZE_def)

text \<open>
  With FLAC blocks of 4608 samples the tail moves on by 511, and the ninth frame is
  written past the end of the ring.
\<close>

definition flac_frames :: "nat \<Rightarrow> spectrum_ring \<Rightarrow> spectrum_ring result" where
  "flac_frames n r = fold_result spectrum_update (replicate n (long_frame 18432)) r"

lemma long_frame_step:
  assumes "ring_ok r" and "sr_tail r = 511 * int k"
  shows "if k \<le> 7 then \<exists>r'. spectrum_update (long_frame 18432) r = Inr r' \<and> ring_ok r' \<and> sr_tail r' = 511 * int (k + 1)
    else spectrum_update (long_frame 18432) r = Inl Out_Of_Bounds"
proof -
  have f: "0 < fd_pcm_size (long_frame 18432)" "fd_pcm_size (long_frame 18432) = int (length (fd_pcm_data (long_frame 18432)))"
    "fd_pcm_size (long_frame 18432) div 4 = 4608" by (simp_all add: long_frame_def)
  show ?thesis
  proof (cases "k \<le> 7")
    case True
    then have "frame_fits (long_frame 18432) r" using assms f(3) by (simp add: frame_fits_def ring_size)
    then obtain ring where ring: "ring_bytes (long_frame 18432) r = Inr ring" "length ring = length (sr_ring r)"
      using ring_bytes_returns [OF assms(1) f(1,2)] by auto
    let ?r = "ring_ends 4608 (r\<lparr>sr_ring := ring\<rparr>)"
    have "ring_ok (r\<lparr>sr_ring := ring\<rparr>)" using assms(1) ring(2) by (simp add: ring_ok_def)
    then have "ring_ok ?r" by (simp add: ring_ends_count)
    moreover have "sr_tail ?r = 511 * int (k + 1)"
    proof -
      have "(511 * int k + 4608) mod 4097 = (511 * int (k + 1) + 4097) mod 4097" by (simp add: algebra_simps)
      also have "\<dots> = 511 * int (k + 1)" using True by (subst mod_add_self2) (simp add: mod_pos_pos_trivial)
      finally show ?thesis using assms(2) by (simp add: ring_ends_def Let_def ring_size)
    qed
    ultimately show ?thesis using ring(1) True f(3) by (simp add: spectrum_update_def)
  next
    case False
    then have "\<not> frame_fits (long_frame 18432) r" using assms f(3) by (simp add: frame_fits_def ring_size)
    then show ?thesis using ring_bytes_returns [OF assms(1) f(1,2)] False by (simp add: spectrum_update_def)
  qed
qed

lemma flac_frames_Suc: "flac_frames (Suc k) r = and_then (flac_frames k r) (spectrum_update (long_frame 18432))"
proof -
  have "replicate (Suc k) (long_frame 18432) = replicate k (long_frame 18432) @ [long_frame 18432]"
    by (simp add: replicate_append_same)
  then show ?thesis unfolding flac_frames_def 
    by (simp only: fold_result_append)
      (cases "fold_result spectrum_update (replicate k (long_frame 18432)) r"; simp; cases "spectrum_update (long_frame 18432) (projr (fold_result spectrum_update (replicate k (long_frame 18432)) r))"; simp)
qed

lemma flac_frames_tail:
  assumes "ring_ok r" and "sr_tail r = 0" and "k \<le> 8"
  shows "\<exists>r'. flac_frames k r = Inr r' \<and> ring_ok r' \<and> sr_tail r' = 511 * int k"
  using assms(3)
proof (induction k)
  case 0
  then show ?case using assms by (simp add: flac_frames_def)
next
  case (Suc k)
  then obtain r' where "flac_frames k r = Inr r'" "ring_ok r'" "sr_tail r' = 511 * int k" by auto
  then show ?case using long_frame_step [of r' k] Suc.prems by (simp add: flac_frames_Suc)
qed

text \<open>FLAC files encoded in blocks of 4608 samples overflow the ring: from the start of
  a song eight frames go in, the ninth is copied past its end.\<close>

theorem flac_blocks_overflow_ring:
  assumes "int (length (sr_ring r)) = SPECTRUM_RING_SIZE * 4"
  shows "returns (flac_frames 8 (spectrum_reset r)) \<and> flac_frames 9 (spectrum_reset r) = Inl Out_Of_Bounds"
proof -
  have "ring_ok (spectrum_reset r)" "sr_tail (spectrum_reset r) = 0"
    using assms by (simp_all add: ring_ok_def spectrum_reset_def ring_size)
  then obtain r' where r': "flac_frames 8 (spectrum_reset r) = Inr r'" "ring_ok r'" "sr_tail r' = 511 * int 8"
    using flac_frames_tail [of "spectrum_reset r" 8] by auto
  then show ?thesis
    using long_frame_step [OF r'(2,3)] flac_frames_Suc [of 8 "spectrum_reset r"] by simp
qed

theorem flac_blocks_overflow_ring_witness:
  "flac_frames 9 (spectrum_reset (ring_at 7)) = Inl Out_Of_Bounds"
  using flac_blocks_overflow_ring [of "ring_at 7"] by (simp add: ring_at_def ring_size)

section \<open>What the analyser sees\<close>

lemma short_at_returns: "0 \<le> k \<Longrightarrow> 2 * k + 1 < int (length ring) \<Longrightarrow> \<exists>x. short_at ring k = Inr x"
  by (simp add: short_at_def read_at_def Let_def)

text \<open>
  The index counts 16-bit values but runs only up to the number of samples: the
  analyser never reads outside the ring, and never reads its second half.
\<close>

lemma take_samples_half:
  assumes "0 \<le> index" "index < SPECTRUM_RING_SIZE" and "int (length ring) \<ge> SPECTRUM_RING_SIZE * 2"
  shows "\<exists>xs. take_samples n channels index ring = Inr xs \<and> length xs = n \<and>
    (\<forall>rest. take_samples n channels index (take (nat (SPECTRUM_RING_SIZE * 2)) ring @ rest) = Inr xs)"
  using assms(1,2)
proof (induction n arbitrary: index)
  case (Suc n)
  have same: "short_at (take (nat (SPECTRUM_RING_SIZE * 2)) ring @ rest) k = short_at ring k"
    if "0 \<le> k" "k < SPECTRUM_RING_SIZE" for k rest
    using that assms(3) by (simp add: short_at_def read_at_def nth_append ring_size)
  let ?i = "(index + 1) mod SPECTRUM_RING_SIZE" and ?j = "((index + 1) mod SPECTRUM_RING_SIZE + 1) mod SPECTRUM_RING_SIZE"
  have r: "0 \<le> ?i" "?i < SPECTRUM_RING_SIZE" "0 \<le> ?j" "?j < SPECTRUM_RING_SIZE" by (simp_all add: ring_size)
  obtain x where x: "short_at ring index = Inr x"
    using short_at_returns [of index ring] Suc.prems assms(3) by (auto simp: ring_size)
  have "2 * ?i + 1 < int (length ring)" using r(2) assms(3) by (simp add: ring_size)
  then obtain y where y: "short_at ring ?i = Inr y" using short_at_returns [of ?i ring] r(1) by blast
  show ?case
    using Suc.IH [of ?i] Suc.IH [of ?j] r x y same [OF Suc.prems] same [OF r(1,2)]
    by (cases "channels = 2") (auto simp: Let_def)
qed simp

text \<open>\<open>spectrum_prepare_render()\<close> looks at the first half of the ring only: whatever its
  second half holds, the transform gets the same 4096 samples; it stays inside the
  ring.\<close>

theorem analyser_sees_half_the_ring:
  assumes "ring_ok r" and "ring_count r = SPECTRUM_WINDOW_SIZE"
    and "int (length rest) = SPECTRUM_RING_SIZE * 2"
  shows "\<exists>xs. spectrum_prepare_render channels r = Inr (Some xs) \<and> int (length xs) = SPECTRUM_WINDOW_SIZE \<and>
    spectrum_prepare_render channels (r\<lparr>sr_ring := take (nat (SPECTRUM_RING_SIZE * 2)) (sr_ring r) @ rest\<rparr>) = Inr (Some xs)"
proof -
  have full: "sr_head r = (sr_tail r + 1) mod SPECTRUM_RING_SIZE" using full_iff [OF assms(1)] assms(2) by simp
  obtain xs where "take_samples (nat SPECTRUM_WINDOW_SIZE) channels (sr_head r) (sr_ring r) = Inr xs"
    "length xs = nat SPECTRUM_WINDOW_SIZE"
    "\<forall>rest. take_samples (nat SPECTRUM_WINDOW_SIZE) channels (sr_head r) (take (nat (SPECTRUM_RING_SIZE * 2)) (sr_ring r) @ rest) = Inr xs"
    using take_samples_half [of "sr_head r" "sr_ring r" "nat SPECTRUM_WINDOW_SIZE" channels] assms(1)
    by (auto simp: ring_ok_def ring_size)
  then show ?thesis using full by (simp add: spectrum_prepare_render_def SPECTRUM_WINDOW_SIZE_def)
qed

theorem analyser_sees_half_the_ring_witness:
  "\<exists>xs. spectrum_prepare_render 2 (ring_at 4096) = Inr (Some xs) \<and> int (length xs) = SPECTRUM_WINDOW_SIZE"
  using analyser_sees_half_the_ring [of "ring_at 4096" "replicate 8194 1" 2]
  by (auto simp: ring_at_def ring_ok_def ring_size ring_count_def SPECTRUM_WINDOW_SIZE_def)

end
