(* ===== verification/Floating.thy ===== *)
theory Floating
  imports Complex_Main Squash_Base "HOL-Library.Log_Nat"
begin

text \<open>
  Binary floating point, for the places where the rounding of \<open>float\<close> and \<open>double\<close> shows:
  the steps of the rating bias, the position a seek goes to, the progress bar and the spectrum.
\<close>

section \<open>Rounding\<close>

text \<open>
  A number is kept as the rational it stands for; an operation rounds the exact result to \<open>p\<close>
  significant bits, to the nearest, ties to even.  The numbers that occur are 0 or at
  least \<open>2 ^ (- 40)\<close> in size, so there is no overflow or underflow, and \<open>exponent x\<close> is
  the \<open>e\<close> with \<open>2 ^ e \<le> \<bar>x\<bar> < 2 ^ (e + 1)\<close>.
\<close>

definition two_to :: "int \<Rightarrow> rat" where
  "two_to e = (if 0 \<le> e then 2 ^ nat e else 1 / 2 ^ nat (- e))"

definition exponent :: "rat \<Rightarrow> int" where
  "exponent x = bitlen \<lfloor>\<bar>x\<bar> * 2 ^ 40\<rfloor> - 41"

definition round_half_even :: "'a :: floor_ceiling \<Rightarrow> int" where
  "round_half_even q =
     (let n = floor q; d = q - of_int n in
      if d < 1 / 2 then n else if d > 1 / 2 then n + 1 else if even n then n else n + 1)"

definition round_to :: "int \<Rightarrow> rat \<Rightarrow> rat" where
  "round_to p x =
     (if x = 0 then 0
      else (let u = two_to (exponent x + 1 - p) in of_int (round_half_even (x / u)) * u))"

definition to_float :: "rat \<Rightarrow> rat" where "to_float x = round_to 24 x"
definition to_double :: "rat \<Rightarrow> rat" where "to_double x = round_to 53 x"

section \<open>Evaluation\<close>

lemma floor_numeral_rat:
  "\<lfloor>numeral a / numeral b :: rat\<rfloor> = (numeral a div numeral b :: int)"
  "\<lfloor>1 / numeral b :: rat\<rfloor> = (1 div numeral b :: int)"
  using floor_divide_of_int_eq [of "numeral a" "numeral b", where 'a = rat]
    floor_divide_of_int_eq [of 1 "numeral b", where 'a = rat] by simp_all

lemma floor_negative_rat:
  "\<lfloor>- (numeral a / numeral b) :: rat\<rfloor> = (- numeral a div numeral b :: int)"
  "\<lfloor>- (1 / numeral b) :: rat\<rfloor> = (- 1 div numeral b :: int)"
  using floor_divide_of_int_eq [of "- numeral a" "numeral b", where 'a = rat]
    floor_divide_of_int_eq [of "- 1" "numeral b", where 'a = rat] by simp_all

lemma bitlen_numeral:
  "bitlen 1 = 1" "bitlen (numeral (num.Bit0 n)) = bitlen (numeral n) + 1"
  "bitlen (numeral (num.Bit1 n)) = bitlen (numeral n) + 1"
  by (simp_all add: compute_bitlen)

lemmas rounding = to_float_def to_double_def round_to_def round_half_even_def exponent_def two_to_def Let_def
  floor_numeral_rat floor_negative_rat bitlen_numeral

section \<open>The error of a rounding\<close>

lemma two_to_pos [simp]: "0 < two_to e"
  by (simp add: two_to_def)

lemma abs_two_to [simp]: "\<bar>two_to e\<bar> = two_to e"
  by (simp add: abs_of_pos)

lemma two_to_add: "two_to (a + b) = two_to a * two_to b"
proof -
  have "two_to e = 2 powi e" for e by (simp add: two_to_def power_int_def power_one_over)
  then show ?thesis by (simp add: power_int_add)
qed

lemma exponent_lower:
  assumes "two_to (- 40) \<le> \<bar>x\<bar>"
  shows "two_to (exponent x) \<le> \<bar>x\<bar>"
proof -
  let ?n = "\<lfloor>\<bar>x\<bar> * 2 ^ 40\<rfloor>"
  have "1 \<le> \<bar>x\<bar> * 2 ^ 40" using assms by (simp add: two_to_def field_simps)
  then have n: "0 < ?n" by linarith
  then have len: "1 \<le> bitlen ?n" using bitlen_alt_def [of ?n] bitlen_nonneg [of ?n] bitlen_eq_zero_iff [of ?n] by linarith
  have "rat_of_int (2 ^ nat (bitlen ?n - 1)) \<le> rat_of_int ?n"
    using bitlen_bounds [OF n] by (simp only: of_int_le_iff)
  also have "\<dots> \<le> \<bar>x\<bar> * 2 ^ 40" by simp
  finally have "two_to (bitlen ?n - 1) \<le> \<bar>x\<bar> * two_to 40" using len by (simp add: two_to_def)
  moreover have "two_to (bitlen ?n - 1) = two_to (exponent x) * two_to 40"
    by (simp add: exponent_def flip: two_to_add)
  ultimately show ?thesis using two_to_pos [of 40] by (simp add: mult_le_cancel_right)
qed

lemma round_half_even_error: "\<bar>rat_of_int (round_half_even q) - q\<bar> \<le> 1 / 2"
  proof -
  have "rat_of_int \<lfloor>q\<rfloor> \<le> q \<and> q < rat_of_int \<lfloor>q\<rfloor> + 1" by linarith
  then show ?thesis by (auto simp: round_half_even_def Let_def)
qed

text \<open>A rounding to \<open>p\<close> bits is off by at most half a unit of the last bit.\<close>

lemma round_to_error:
  assumes "x = 0 \<or> two_to (- 40) \<le> \<bar>x\<bar>"
  shows "\<bar>round_to p x - x\<bar> \<le> \<bar>x\<bar> * two_to (- p)"
proof (cases "x = 0")
  case True
  then show ?thesis by (simp add: round_to_def)
next
  case False
  let ?u = "two_to (exponent x + 1 - p)"
  have u: "0 < ?u" by simp
  have "round_to p x - x = (rat_of_int (round_half_even (x / ?u)) - x / ?u) * ?u"
    using False two_to_pos [of "exponent x + 1 - p", THEN less_imp_neq] by (simp add: round_to_def Let_def left_diff_distrib)
  then have "\<bar>round_to p x - x\<bar> = \<bar>rat_of_int (round_half_even (x / ?u)) - x / ?u\<bar> * ?u"
    using u by (simp add: abs_mult)
  also have "\<dots> \<le> 1 / 2 * ?u"
    using round_half_even_error u by (intro mult_right_mono) (auto simp: less_imp_le)
  also have "\<dots> = two_to (exponent x) * two_to (- p)"
  proof -
    have "?u = two_to (exponent x) * (two_to 1 * two_to (- p))"
      by (simp add: algebra_simps flip: two_to_add)
    then show ?thesis by (simp add: two_to_def [of 1])
  qed
  also have "\<dots> \<le> \<bar>x\<bar> * two_to (- p)"
    using exponent_lower False assms by (intro mult_right_mono) (auto simp: less_imp_le)
  finally show ?thesis .
qed

end
