(* ===== verification/Empeg_Menu.thy ===== *)
theory Empeg_Menu
  imports Input Sound Floating
begin

text \<open>
  The user interface of the empeg: the table of menus (\<open>src/src/global.c\<close>), the events
  of the buttons, the knob and the remote (\<open>ir_monitor()\<close>) and what they do
  (\<open>process_ir_event()\<close>, in \<open>src/src/input.c\<close>, as built without \<open>ADVENTURE\<close>).
\<close>

section \<open>Menus\<close>

datatype empeg_screen =
    EMPEG_SCREEN_MAIN_MENU
  | EMPEG_SCREEN_PLAY
  | EMPEG_SCREEN_PLAY_SONG_INFO
  | EMPEG_SCREEN_PLAY_RATE_SONG
  | EMPEG_SCREEN_PLAYLIST
  | EMPEG_SCREEN_PLAYLIST_SONG_INFO
  | EMPEG_SCREEN_PLAYLIST_RATE_SONG
  | EMPEG_SCREEN_GLOBAL_SONG_INFO
  | EMPEG_SCREEN_QUIT
  | EMPEG_SCREEN_SETTINGS
  | EMPEG_SCREEN_SET_DISPLAY_BRIGHTNESS
  | EMPEG_SCREEN_SET_RATING_BIAS

datatype menu_item = Item (item_title: string) (item_indentation: int) (screen_on_press: empeg_screen) (leave_menu: bool)

text \<open>The items of the menu of a screen, and the default item.\<close>

fun menu_list :: "empeg_screen \<Rightarrow> menu_item list \<times> int" where
  "menu_list EMPEG_SCREEN_MAIN_MENU =
     ([Item ''Main Menu'' 0 EMPEG_SCREEN_MAIN_MENU False,
       Item ''Currently Playing'' 1 EMPEG_SCREEN_PLAY True,
       Item ''Upcoming Songs'' 1 EMPEG_SCREEN_PLAYLIST True,
       Item ''Statistics'' 1 EMPEG_SCREEN_GLOBAL_SONG_INFO True,
       Item ''Quit Squash'' 1 EMPEG_SCREEN_QUIT True,
       Item ''Change Settings'' 1 EMPEG_SCREEN_SETTINGS False], 0)"
| "menu_list EMPEG_SCREEN_PLAY =
     ([Item ''Go Back'' 0 EMPEG_SCREEN_MAIN_MENU False,
       Item ''Currently Playing'' 0 EMPEG_SCREEN_PLAY True,
       Item ''Rate This Song'' 1 EMPEG_SCREEN_PLAY_RATE_SONG True,
       Item ''Song Info'' 1 EMPEG_SCREEN_PLAY_SONG_INFO True], 1)"
| "menu_list EMPEG_SCREEN_PLAY_SONG_INFO =
     ([Item ''Go Back'' 0 EMPEG_SCREEN_PLAY False,
       Item ''Song Details'' 0 EMPEG_SCREEN_PLAY_SONG_INFO True], 0)"
| "menu_list EMPEG_SCREEN_PLAY_RATE_SONG =
     ([Item ''Go Back'' 0 EMPEG_SCREEN_PLAY False,
       Item ''Rate This Song'' 0 EMPEG_SCREEN_PLAY_RATE_SONG True], 0)"
| "menu_list EMPEG_SCREEN_PLAYLIST =
     ([Item ''Go Back'' 0 EMPEG_SCREEN_MAIN_MENU False,
       Item ''Upcoming Songs'' 0 EMPEG_SCREEN_PLAYLIST True,
       Item ''Rate This Song'' 1 EMPEG_SCREEN_PLAYLIST_RATE_SONG True,
       Item ''Song Info'' 1 EMPEG_SCREEN_PLAYLIST_SONG_INFO True,
       Item ''Remove from list'' 1 EMPEG_SCREEN_PLAYLIST True], 1)"
| "menu_list EMPEG_SCREEN_PLAYLIST_SONG_INFO =
     ([Item ''Go Back'' 0 EMPEG_SCREEN_PLAYLIST False,
       Item ''Song Info'' 0 EMPEG_SCREEN_PLAYLIST_SONG_INFO True], 0)"
| "menu_list EMPEG_SCREEN_PLAYLIST_RATE_SONG =
     ([Item ''Go Back'' 0 EMPEG_SCREEN_PLAYLIST False,
       Item ''Rate This Song'' 0 EMPEG_SCREEN_PLAYLIST_RATE_SONG True], 0)"
| "menu_list EMPEG_SCREEN_GLOBAL_SONG_INFO =
     ([Item ''Go Back'' 0 EMPEG_SCREEN_MAIN_MENU False,
       Item ''Statistics'' 0 EMPEG_SCREEN_GLOBAL_SONG_INFO True], 0)"
| "menu_list EMPEG_SCREEN_QUIT =
     ([Item ''Go Back'' 0 EMPEG_SCREEN_MAIN_MENU False,
       Item ''Quit Squash'' 0 EMPEG_SCREEN_QUIT True], 0)"
| "menu_list EMPEG_SCREEN_SETTINGS =
     ([Item ''Go Back'' 0 EMPEG_SCREEN_MAIN_MENU False,
       Item ''Change Settings'' 0 EMPEG_SCREEN_SETTINGS False,
       Item ''Set Rating Bias'' 1 EMPEG_SCREEN_SET_RATING_BIAS True,
       Item ''Display Brightness'' 1 EMPEG_SCREEN_SET_DISPLAY_BRIGHTNESS True], 1)"
| "menu_list EMPEG_SCREEN_SET_DISPLAY_BRIGHTNESS =
     ([Item ''Go Back'' 0 EMPEG_SCREEN_MAIN_MENU False,
       Item ''Display Brightness'' 0 EMPEG_SCREEN_SET_DISPLAY_BRIGHTNESS True], 0)"
| "menu_list EMPEG_SCREEN_SET_RATING_BIAS =
     ([Item ''Go Back'' 0 EMPEG_SCREEN_MAIN_MENU False,
       Item ''Set Rating Bias'' 0 EMPEG_SCREEN_SET_RATING_BIAS True], 0)"

definition menu_items :: "empeg_screen \<Rightarrow> menu_item list" where
  "menu_items scr = fst (menu_list scr)"

definition default_item :: "empeg_screen \<Rightarrow> int" where
  "default_item scr = snd (menu_list scr)"

section \<open>The rating bias\<close>

text \<open>\<open>(double)(int)(bias*10)/10\<close>, stored in a \<open>float\<close>; the cast to \<open>int\<close> truncates.\<close>

definition whole_tenths :: "rat \<Rightarrow> rat" where
  "whole_tenths bias =
     (let t = to_float (bias * 10);
          n = (if t < 0 then - floor (- t) else floor t) in
      to_float (to_double (of_int n / 10)))"

definition bias_down :: "rat \<Rightarrow> rat" where
  "bias_down bias =
     (let bias = to_float (to_double (bias - to_double (1 / 10)));
          bias = whole_tenths bias in
      if bias < 0 then 0 else bias)"

definition bias_up :: "rat \<Rightarrow> rat" where
  "bias_up bias =
     (let bias = to_float (to_double (bias + to_double (1 / 10)));
          bias = whole_tenths bias in
      if bias > 1 then 1 else bias)"

section \<open>Buttons\<close>

abbreviation IR_TOP_BUTTON_PRESSED :: int where "IR_TOP_BUTTON_PRESSED \<equiv> 0"
abbreviation IR_TOP_BUTTON_RELEASED :: int where "IR_TOP_BUTTON_RELEASED \<equiv> 1"
abbreviation IR_RIGHT_BUTTON_PRESSED :: int where "IR_RIGHT_BUTTON_PRESSED \<equiv> 2"
abbreviation IR_RIGHT_BUTTON_RELEASED :: int where "IR_RIGHT_BUTTON_RELEASED \<equiv> 3"
abbreviation IR_LEFT_BUTTON_PRESSED :: int where "IR_LEFT_BUTTON_PRESSED \<equiv> 4"
abbreviation IR_LEFT_BUTTON_RELEASED :: int where "IR_LEFT_BUTTON_RELEASED \<equiv> 5"
abbreviation IR_BOTTOM_BUTTON_PRESSED :: int where "IR_BOTTOM_BUTTON_PRESSED \<equiv> 6"
abbreviation IR_BOTTOM_BUTTON_RELEASED :: int where "IR_BOTTOM_BUTTON_RELEASED \<equiv> 7"
abbreviation IR_KNOB_PRESSED :: int where "IR_KNOB_PRESSED \<equiv> 8"
abbreviation IR_KNOB_RELEASED :: int where "IR_KNOB_RELEASED \<equiv> 9"
abbreviation IR_KNOB_RIGHT :: int where "IR_KNOB_RIGHT \<equiv> 10"
abbreviation IR_KNOB_LEFT :: int where "IR_KNOB_LEFT \<equiv> 11"
abbreviation IR_0 :: int where "IR_0 \<equiv> 0xB94600"
abbreviation IR_9 :: int where "IR_9 \<equiv> 0xB94609"
abbreviation IR_TRACK_MINUS :: int where "IR_TRACK_MINUS \<equiv> 0xB9460A"
abbreviation IR_TRACK_PLUS :: int where "IR_TRACK_PLUS \<equiv> 0xB9460B"
abbreviation IR_PROG :: int where "IR_PROG \<equiv> 0xB9460E"
abbreviation IR_DIRECT :: int where "IR_DIRECT \<equiv> 0xB9460F"
abbreviation IR_VOL_PLUS :: int where "IR_VOL_PLUS \<equiv> 0xB94614"
abbreviation IR_VOL_MINUS :: int where "IR_VOL_MINUS \<equiv> 0xB94615"
abbreviation IR_STAR :: int where "IR_STAR \<equiv> 0xB9461B"

text \<open>
  A turn of \<open>ir_monitor()\<close>: \<open>Some b\<close> is a button read within the time waited, \<open>None\<close>
  the time out, which only happens while a button may be held.  The state is
  \<open>last_button\<close>; the result is the event, if there is one, with \<open>button_held\<close>.
\<close>

definition is_pressed :: "int \<Rightarrow> bool" where
  "is_pressed b \<longleftrightarrow> b \<in> {IR_TOP_BUTTON_PRESSED, IR_RIGHT_BUTTON_PRESSED, IR_LEFT_BUTTON_PRESSED,
     IR_BOTTOM_BUTTON_PRESSED, IR_KNOB_PRESSED}"

definition is_released :: "int \<Rightarrow> bool" where
  "is_released b \<longleftrightarrow> b \<in> {IR_TOP_BUTTON_RELEASED, IR_RIGHT_BUTTON_RELEASED, IR_LEFT_BUTTON_RELEASED,
     IR_BOTTOM_BUTTON_RELEASED, IR_KNOB_RELEASED}"

definition ir_step :: "int \<Rightarrow> int option \<Rightarrow> int \<times> (int \<times> bool) option" where
  "ir_step last_button input =
     (let (last', button, held) =
            (case input of
               None \<Rightarrow> if is_pressed last_button then (- 1, last_button, True) else (last_button, - 1, False)
             | Some b \<Rightarrow>
               if is_pressed b then (b, - 1, False)
               else if is_released b
               then (- 1, if last_button = (b AND 0xFFFFFFFE) then last_button else - 1, False)
               else (- 1, b, False)) in
      (last', if button \<noteq> - 1 then Some (button, held) else None))"

fun ir_events :: "int \<Rightarrow> int option list \<Rightarrow> (int \<times> bool) list" where
  "ir_events last_button [] = []"
| "ir_events last_button (x # xs) =
     (case ir_step last_button x of
        (last', None) \<Rightarrow> ir_events last' xs
      | (last', Some e) \<Rightarrow> e # ir_events last' xs)"

section \<open>Events\<close>

text \<open>\<open>e_device\<close> is \<open>player_info.device\<close>, \<open>e_lit\<close> the brightness the display was set to.\<close>

record empeg =
  e_player :: player
  e_device :: "sound_device option"
  e_screen :: empeg_screen
  e_in_menu :: bool
  e_selection :: int
  e_brightness :: int
  e_lit :: int
  e_bias :: rat
  e_exit_status :: int

definition set_display_brightness_empeg :: "int \<Rightarrow> empeg \<Rightarrow> empeg" where
  "set_display_brightness_empeg brightness s =
     s\<lparr>e_lit := (if brightness < 0 then 0 else if brightness > 100 then 100 else brightness)\<rparr>"

definition biased :: "config \<Rightarrow> empeg \<Rightarrow> config" where
  "biased cfg s = cfg\<lparr>db_manual_rating_bias := of_rat (e_bias s)\<rparr>"

definition on_player :: "(player \<Rightarrow> player result) \<Rightarrow> empeg \<Rightarrow> empeg result" where
  "on_player f s = map_result (\<lambda>p. s\<lparr>e_player := p\<rparr>) (f (e_player s))"

definition adjust_volume :: "int \<Rightarrow> empeg \<Rightarrow> empeg" where
  "adjust_volume n s = s\<lparr>e_device := sound_adjust_volume n (e_device s)\<rparr>"

text \<open>The statistics are computed anew with the bias that has been set.\<close>

definition refresh_statistics :: "config \<Rightarrow> empeg \<Rightarrow> empeg" where
  "refresh_statistics cfg s =
     (let p = e_player s; w = p_world p in
      s\<lparr>e_player := p\<lparr>p_world := w\<lparr>w_db := start_song_picker (biased cfg s) ((w_db w)\<lparr>stats_loaded := False\<rparr>)\<rparr>\<rparr>\<rparr>)"

definition leave_bias_screen :: "config \<Rightarrow> empeg \<Rightarrow> empeg" where
  "leave_bias_screen cfg s = (if e_screen s = EMPEG_SCREEN_SET_RATING_BIAS then refresh_statistics cfg s else s)"

text \<open>Rating the song that plays; on all other screens there is no song.\<close>

definition rate_empeg :: "config \<Rightarrow> bool \<Rightarrow> int \<Rightarrow> empeg \<Rightarrow> empeg result" where
  "rate_empeg cfg relative amount s =
     on_player
       (rate_if_song (biased cfg s) relative amount
         (if e_screen s = EMPEG_SCREEN_PLAY_RATE_SONG \<or> e_screen s = EMPEG_SCREEN_PLAY
          then p_song (e_player s) else None)) s"

definition select_song :: "int \<Rightarrow> empeg \<Rightarrow> empeg" where
  "select_song delta s =
     (let p = e_player s; qs = queues_of p; q = song_queue qs; n = q_selected q in
      if (if delta < 0 then n > 0 else n < q_size q - 1)
      then s\<lparr>e_player := set_queues (qs\<lparr>song_queue := q\<lparr>q_selected := n + delta\<rparr>\<rparr>) p\<rparr>
      else s)"

subsection \<open>In a menu\<close>

definition choose_item :: "int \<Rightarrow> empeg_screen \<Rightarrow> empeg \<Rightarrow> empeg result" where
  "choose_item n scr s =
     map_result (\<lambda>item. s\<lparr>e_in_menu := \<not> leave_menu item, e_screen := screen_on_press item,
                          e_selection := default_item (screen_on_press item)\<rparr>)
       (read_at (menu_items scr) n)"

definition menu_event :: "config \<Rightarrow> int \<Rightarrow> empeg \<Rightarrow> empeg result" where
  "menu_event cfg button s =
     (if button = IR_LEFT_BUTTON_PRESSED then choose_item 0 (e_screen s) s
      else if button = IR_RIGHT_BUTTON_PRESSED \<or> button = IR_KNOB_PRESSED then
        and_then (if e_screen s = EMPEG_SCREEN_PLAYLIST \<and> e_selection s = 4
                  then on_player (do_remove_playlist_entry (biased cfg s)) s else Inr s)
          (choose_item (e_selection s) (e_screen s))
      else if button = IR_TOP_BUTTON_PRESSED \<or> button = IR_KNOB_LEFT
      then Inr (if e_selection s > 0 then s\<lparr>e_selection := e_selection s - 1\<rparr> else s)
      else if button = IR_BOTTOM_BUTTON_PRESSED \<or> button = IR_KNOB_RIGHT
      then Inr (if e_selection s + 1 < int (length (menu_items (e_screen s)))
                then s\<lparr>e_selection := e_selection s + 1\<rparr> else s)
      else Inr s)"

subsection \<open>On any screen\<close>

text \<open>\<open>None\<close>: the button depends on the screen.\<close>

definition remote_event :: "int \<Rightarrow> empeg \<Rightarrow> empeg result option" where
  "remote_event button s =
     (if button = IR_VOL_MINUS then Some (Inr (adjust_volume (- 2) s))
      else if button = IR_VOL_PLUS then Some (Inr (adjust_volume 2 s))
      else if button = IR_PROG then Some (on_player do_toggle_player_command s)
      else if button = IR_TRACK_MINUS then Some (on_player (do_set_player_command CMD_STOP) s)
      else if button = IR_TRACK_PLUS then Some (on_player (do_set_player_command CMD_SKIP) s)
      else None)"

definition quit_event :: "int \<Rightarrow> empeg \<Rightarrow> empeg" where
  "quit_event button s =
     (if button = IR_KNOB_PRESSED then s\<lparr>e_exit_status := 0\<rparr>
      else s\<lparr>e_in_menu := True, e_screen := EMPEG_SCREEN_MAIN_MENU,
             e_selection := default_item EMPEG_SCREEN_MAIN_MENU\<rparr>)"

subsection \<open>On one screen\<close>

definition play_event :: "config \<Rightarrow> int \<Rightarrow> empeg \<Rightarrow> empeg result" where
  "play_event cfg button s =
     (if button = IR_TOP_BUTTON_PRESSED then on_player do_toggle_player_command s
      else if button = IR_LEFT_BUTTON_PRESSED then on_player (do_set_player_command CMD_STOP) s
      else if button = IR_RIGHT_BUTTON_PRESSED then on_player (do_set_player_command CMD_SKIP) s
      else if button = IR_KNOB_LEFT then Inr (adjust_volume (- 2) s)
      else if button = IR_KNOB_RIGHT then Inr (adjust_volume 2 s)
      else if IR_0 \<le> button \<and> button \<le> IR_9 then rate_empeg cfg False (button - IR_0) s
      else if button = IR_DIRECT then rate_empeg cfg False 10 s
      else if button = IR_STAR then rate_empeg cfg False (- 1) s
      else Inr s)"

definition left_or_right :: "int \<Rightarrow> (empeg \<Rightarrow> 'a) \<Rightarrow> (empeg \<Rightarrow> 'a) \<Rightarrow> (empeg \<Rightarrow> 'a) \<Rightarrow> empeg \<Rightarrow> 'a" where
  "left_or_right button left right other s =
     (if button = IR_KNOB_LEFT \<or> button = IR_LEFT_BUTTON_PRESSED then left s
      else if button = IR_KNOB_RIGHT \<or> button = IR_RIGHT_BUTTON_PRESSED then right s
      else other s)"

definition change_brightness :: "int \<Rightarrow> empeg \<Rightarrow> empeg" where
  "change_brightness delta s =
     (let s = (if (if delta < 0 then e_brightness s \<ge> 5 else e_brightness s \<le> 95)
               then s\<lparr>e_brightness := e_brightness s + delta\<rparr> else s) in
      set_display_brightness_empeg (e_brightness s) s)"

definition screen_event :: "config \<Rightarrow> int \<Rightarrow> empeg \<Rightarrow> empeg result" where
  "screen_event cfg button s =
     (case e_screen s of
        EMPEG_SCREEN_PLAY \<Rightarrow> play_event cfg button s
      | EMPEG_SCREEN_PLAYLIST \<Rightarrow>
          left_or_right button (\<lambda>s. Inr (select_song (- 1) s)) (\<lambda>s. Inr (select_song 1 s))
            (\<lambda>s. if button = IR_TOP_BUTTON_PRESSED then on_player (do_remove_playlist_entry (biased cfg s)) s else Inr s) s
      | EMPEG_SCREEN_PLAY_RATE_SONG \<Rightarrow>
          left_or_right button (rate_empeg cfg True (- 1)) (rate_empeg cfg True 1) Inr s
      | EMPEG_SCREEN_PLAYLIST_RATE_SONG \<Rightarrow>
          left_or_right button (rate_empeg cfg True (- 1)) (rate_empeg cfg True 1) Inr s
      | EMPEG_SCREEN_SET_RATING_BIAS \<Rightarrow>
          Inr (left_or_right button (\<lambda>s. s\<lparr>e_bias := bias_down (e_bias s)\<rparr>) (\<lambda>s. s\<lparr>e_bias := bias_up (e_bias s)\<rparr>) id s)
      | EMPEG_SCREEN_SET_DISPLAY_BRIGHTNESS \<Rightarrow>
          Inr (left_or_right button (change_brightness (- 5)) (change_brightness 5) id s)
      | _ \<Rightarrow> Inr s)"

definition process_ir_event :: "config \<Rightarrow> int \<Rightarrow> bool \<Rightarrow> empeg \<Rightarrow> empeg result" where
  "process_ir_event cfg button held s =
     (if button = IR_TOP_BUTTON_PRESSED \<and> held then
        (let s = leave_bias_screen cfg s in
         Inr (s\<lparr>e_screen := (if e_screen s = EMPEG_SCREEN_PLAY then EMPEG_SCREEN_PLAYLIST else EMPEG_SCREEN_PLAY),
                e_in_menu := False\<rparr>))
      else if e_in_menu s then menu_event cfg button s
      else
        (case remote_event button s of
           Some r \<Rightarrow> r
         | None \<Rightarrow>
           if e_screen s = EMPEG_SCREEN_QUIT then Inr (quit_event button s)
           else if button = IR_BOTTOM_BUTTON_PRESSED \<or> button = IR_KNOB_PRESSED then
             Inr ((leave_bias_screen cfg s)\<lparr>e_in_menu := True, e_selection := default_item (e_screen s)\<rparr>)
           else screen_event cfg button s))"

section \<open>What holds in every state of the interface\<close>

definition menu_ok :: "empeg \<Rightarrow> bool" where
  "menu_ok s \<longleftrightarrow> (e_in_menu s \<longrightarrow> 0 \<le> e_selection s \<and> e_selection s < int (length (menu_items (e_screen s)))) \<and>
     0 \<le> e_brightness s \<and> e_brightness s \<le> 100"

named_theorems event_defs \<open>what the buttons do\<close>

declare menu_event_def [event_defs] screen_event_def [event_defs] play_event_def [event_defs]
  remote_event_def [event_defs] quit_event_def [event_defs] left_or_right_def [event_defs]

named_theorems menu_frames \<open>operations that leave the menu and the brightness alone\<close>

definition same_menu :: "empeg \<Rightarrow> empeg \<Rightarrow> bool" where
  "same_menu s t \<longleftrightarrow> e_in_menu t = e_in_menu s \<and> e_selection t = e_selection s \<and> e_screen t = e_screen s \<and>
     e_brightness t = e_brightness s"

lemma same_menu_ok: "same_menu s t \<Longrightarrow> menu_ok s \<Longrightarrow> menu_ok t"
  by (simp add: same_menu_def menu_ok_def)

lemma same_menu_refl [simp]: "same_menu s s"
  by (simp add: same_menu_def)

lemma same_menu_player [menu_frames]: "on_player f s = Inr t \<Longrightarrow> same_menu s t"
  by (auto simp: on_player_def same_menu_def)

lemma same_menu_rate [menu_frames]: "rate_empeg cfg relative amount s = Inr t \<Longrightarrow> same_menu s t"
  by (auto simp: rate_empeg_def intro: same_menu_player)

lemma same_menu_volume [menu_frames, simp]: "same_menu s (adjust_volume n s)"
  by (simp add: adjust_volume_def same_menu_def)

lemma same_menu_leave [menu_frames, simp]: "same_menu s (leave_bias_screen cfg s)"
  by (simp add: leave_bias_screen_def refresh_statistics_def same_menu_def Let_def)

lemma same_menu_select [menu_frames, simp]: "same_menu s (select_song n s)"
  by (simp add: select_song_def same_menu_def Let_def)

lemma leave_bias_fields [simp]:
  "e_screen (leave_bias_screen cfg s) = e_screen s" "e_brightness (leave_bias_screen cfg s) = e_brightness s"
  "e_in_menu (leave_bias_screen cfg s) = e_in_menu s" "e_selection (leave_bias_screen cfg s) = e_selection s"
  using same_menu_leave [of s cfg] by (simp_all add: same_menu_def)

lemma menu_ok_frames [simp]:
  "menu_ok s \<Longrightarrow> menu_ok (adjust_volume n s)" "menu_ok s \<Longrightarrow> menu_ok (select_song n s)"
  "menu_ok s \<Longrightarrow> menu_ok (leave_bias_screen cfg s)"
  by (simp_all add: same_menu_ok [of s])

text \<open>Every menu has its default item, so a menu is entered with a valid selection.\<close>

lemma default_item_valid [simp]:
  "0 \<le> default_item scr" "default_item scr < int (length (menu_items scr))"
  by (cases scr; simp add: default_item_def menu_items_def)+

lemma menu_items_nonempty [simp]: "menu_items scr \<noteq> []"
  by (cases scr; simp add: menu_items_def)

lemma choose_item_ok:
  "choose_item n scr s = Inr t \<Longrightarrow> 0 \<le> e_brightness s \<Longrightarrow> e_brightness s \<le> 100 \<Longrightarrow> menu_ok t"
  by (auto simp: choose_item_def menu_ok_def)

lemma choose_item_returns: "0 \<le> n \<Longrightarrow> n < int (length (menu_items scr)) \<Longrightarrow> returns (choose_item n scr s)"
  by (simp add: choose_item_def read_at_def)

lemma menu_event_ok:
  assumes ok: "menu_ok s" and menu: "e_in_menu s" and "menu_event cfg button s = Inr t"
  shows "menu_ok t"
  using assms(3) ok menu
  by (auto simp: menu_event_def menu_ok_def same_menu_def split: if_splits
      dest!: same_menu_player choose_item_ok)

lemma change_brightness_ok: "menu_ok s \<Longrightarrow> \<bar>delta\<bar> \<le> 5 \<Longrightarrow> menu_ok (change_brightness delta s)"
  by (auto simp: change_brightness_def set_display_brightness_empeg_def menu_ok_def Let_def)

lemma bias_update_ok [simp]: "menu_ok (s\<lparr>e_bias := b\<rparr>) \<longleftrightarrow> menu_ok s"
  by (simp add: menu_ok_def)

lemma play_event_ok: "menu_ok s \<Longrightarrow> play_event cfg button s = Inr t \<Longrightarrow> menu_ok t"
  unfolding play_event_def
  by (auto split: if_splits dest: same_menu_player same_menu_rate intro: same_menu_ok)

lemma screen_event_ok:
  assumes ok: "menu_ok s" and ev: "screen_event cfg button s = Inr t"
  shows "menu_ok t"
  using ev ok unfolding screen_event_def left_or_right_def
  by (auto split: empeg_screen.splits if_splits dest: same_menu_player same_menu_rate play_event_ok
      intro: same_menu_ok change_brightness_ok)

lemma remote_event_ok:
  assumes ok: "menu_ok s" and ev: "remote_event button s = Some (Inr t)"
  shows "menu_ok t"
  using ev ok unfolding remote_event_def
  by (auto split: if_splits dest: same_menu_player intro: same_menu_ok)

lemma quit_event_ok: "menu_ok s \<Longrightarrow> menu_ok (quit_event button s)"
  by (simp add: quit_event_def menu_ok_def)

lemma event_ok:
  assumes ok: "menu_ok s" and ev: "process_ir_event cfg button held s = Inr t"
  shows "menu_ok t"
proof -
  consider "button = IR_TOP_BUTTON_PRESSED \<and> held"
    | "\<not> (button = IR_TOP_BUTTON_PRESSED \<and> held)" "e_in_menu s"
    | "\<not> (button = IR_TOP_BUTTON_PRESSED \<and> held)" "\<not> e_in_menu s" by blast
  then show ?thesis
  proof cases
    case 1
    then show ?thesis using ev ok by (auto simp: process_ir_event_def menu_ok_def Let_def)
  next
    case 2
    then show ?thesis using ev menu_event_ok [OF ok] by (auto simp: process_ir_event_def)
  next
    case 3
    then show ?thesis
      using ev ok remote_event_ok [OF ok] quit_event_ok [OF ok] screen_event_ok [OF ok]
      by (auto simp: process_ir_event_def menu_ok_def split: option.splits if_splits)
  qed
qed

type_synonym button_event = "int \<times> bool"

definition run_events :: "config \<Rightarrow> button_event list \<Rightarrow> empeg \<Rightarrow> empeg result" where
  "run_events cfg = fold_result (\<lambda>(button, held). process_ir_event cfg button held)"

lemma run_events_simps [simp]:
  "run_events cfg [] s = Inr s"
  "run_events cfg ((b, h) # es) s = and_then (process_ir_event cfg b h s) (run_events cfg es)"
  by (simp_all add: run_events_def)

lemma run_events_ok: "menu_ok s \<Longrightarrow> run_events cfg es s = Inr t \<Longrightarrow> menu_ok t"
  unfolding run_events_def by (rule fold_result_invariant [where P = menu_ok]) (auto dest: event_ok)

text \<open>C37. Whatever buttons are pressed, the selection stays inside the menu that is shown, so that
  pressing the knob reads an item of the menu and never past its array, and the
  brightness stays between 0 and 100.
\<close>
theorem menu_selection_valid:
  assumes "menu_ok s" and "run_events cfg es s = Inr t"
  shows "0 \<le> e_brightness t \<and> e_brightness t \<le> 100 \<and>
    (e_in_menu t \<longrightarrow>
       returns (choose_item (e_selection t) (e_screen t) t) \<and> returns (choose_item 0 (e_screen t) t))"
  using run_events_ok [OF assms] by (simp add: menu_ok_def choose_item_returns)

definition ex_empeg :: empeg where
  "ex_empeg =
     \<lparr>e_player = start_player ex_play_world, e_device = None, e_screen = EMPEG_SCREEN_PLAY, e_in_menu = False,
      e_selection = 0, e_brightness = 100, e_lit = 100, e_bias = 1 / 2, e_exit_status = - 1\<rparr>"

definition ex_buttons :: "button_event list" where
  "ex_buttons = [(IR_KNOB_PRESSED, False), (IR_LEFT_BUTTON_PRESSED, False), (IR_KNOB_RIGHT, False),
     (IR_KNOB_RIGHT, False), (IR_KNOB_PRESSED, False), (IR_BOTTOM_BUTTON_PRESSED, False),
     (IR_KNOB_RIGHT, False), (IR_KNOB_RIGHT, False), (IR_KNOB_RIGHT, False), (IR_KNOB_RIGHT, False)]"

lemma ex_buttons_test:
  "case run_events ex_config ex_buttons ex_empeg of Inl _ \<Rightarrow> False
   | Inr t \<Rightarrow> e_in_menu t \<and> e_screen t = EMPEG_SCREEN_PLAYLIST \<and> e_selection t = 4"
  by code_simp

theorem menu_selection_valid_witness:
  "\<exists>t. run_events ex_config ex_buttons ex_empeg = Inr t \<and> returns (choose_item 4 EMPEG_SCREEN_PLAYLIST t)"
proof -
  have "menu_ok ex_empeg" by code_simp
  from menu_selection_valid [OF this] ex_buttons_test show ?thesis by (fastforce split: sum.splits)
qed

section \<open>Every screen can be reached\<close>

text \<open>The buttons that lead from the screen of the song that plays to a screen.\<close>

abbreviation main_path :: "int list" where "main_path \<equiv> [IR_KNOB_PRESSED, IR_LEFT_BUTTON_PRESSED]"
abbreviation list_path :: "int list" where
  "list_path \<equiv> main_path @ [IR_KNOB_RIGHT, IR_KNOB_RIGHT, IR_KNOB_PRESSED]"
abbreviation settings_path :: "int list" where
  "settings_path \<equiv> main_path @ replicate 5 IR_KNOB_RIGHT @ [IR_KNOB_PRESSED]"

fun buttons_to :: "empeg_screen \<Rightarrow> int list" where
  "buttons_to EMPEG_SCREEN_PLAY = []"
| "buttons_to EMPEG_SCREEN_MAIN_MENU = main_path"
| "buttons_to EMPEG_SCREEN_PLAY_RATE_SONG = [IR_KNOB_PRESSED, IR_KNOB_RIGHT, IR_KNOB_PRESSED]"
| "buttons_to EMPEG_SCREEN_PLAY_SONG_INFO = [IR_KNOB_PRESSED, IR_KNOB_RIGHT, IR_KNOB_RIGHT, IR_KNOB_PRESSED]"
| "buttons_to EMPEG_SCREEN_PLAYLIST = list_path"
| "buttons_to EMPEG_SCREEN_PLAYLIST_RATE_SONG = list_path @ [IR_KNOB_PRESSED, IR_KNOB_RIGHT, IR_KNOB_PRESSED]"
| "buttons_to EMPEG_SCREEN_PLAYLIST_SONG_INFO =
     list_path @ [IR_KNOB_PRESSED, IR_KNOB_RIGHT, IR_KNOB_RIGHT, IR_KNOB_PRESSED]"
| "buttons_to EMPEG_SCREEN_GLOBAL_SONG_INFO = main_path @ replicate 3 IR_KNOB_RIGHT @ [IR_KNOB_PRESSED]"
| "buttons_to EMPEG_SCREEN_QUIT = main_path @ replicate 4 IR_KNOB_RIGHT @ [IR_KNOB_PRESSED]"
| "buttons_to EMPEG_SCREEN_SETTINGS = settings_path"
| "buttons_to EMPEG_SCREEN_SET_RATING_BIAS = settings_path @ [IR_KNOB_RIGHT, IR_KNOB_PRESSED]"
| "buttons_to EMPEG_SCREEN_SET_DISPLAY_BRIGHTNESS = settings_path @ [IR_KNOB_RIGHT, IR_KNOB_RIGHT, IR_KNOB_PRESSED]"

text \<open>Holding the top button leads out of every menu, to the song that plays or to the list.\<close>

lemma hold_top:
  obtains t where "process_ir_event cfg IR_TOP_BUTTON_PRESSED True s = Inr t" and "\<not> e_in_menu t"
    and "e_screen t = (if e_screen s = EMPEG_SCREEN_PLAY then EMPEG_SCREEN_PLAYLIST else EMPEG_SCREEN_PLAY)"
  by (simp add: process_ir_event_def Let_def)

lemma hold_top_plays:
  "\<exists>es t. run_events cfg es s = Inr t \<and> \<not> e_in_menu t \<and> e_screen t = EMPEG_SCREEN_PLAY"
proof -
  obtain t where t: "process_ir_event cfg IR_TOP_BUTTON_PRESSED True s = Inr t" "\<not> e_in_menu t"
      "e_screen t = (if e_screen s = EMPEG_SCREEN_PLAY then EMPEG_SCREEN_PLAYLIST else EMPEG_SCREEN_PLAY)"
    by (rule hold_top)
  show ?thesis
  proof (cases "e_screen s = EMPEG_SCREEN_PLAY")
    case False
    then show ?thesis using t by (intro exI [of _ "[(IR_TOP_BUTTON_PRESSED, True)]"] exI [of _ t]) simp
  next
    case True
    obtain u where "process_ir_event cfg IR_TOP_BUTTON_PRESSED True t = Inr u" "\<not> e_in_menu u"
        "e_screen u = (if e_screen t = EMPEG_SCREEN_PLAY then EMPEG_SCREEN_PLAYLIST else EMPEG_SCREEN_PLAY)"
      by (rule hold_top)
    then show ?thesis
      using t True by (intro exI [of _ "replicate 2 (IR_TOP_BUTTON_PRESSED, True)"] exI [of _ u]) (simp add: numeral_2_eq_2)
  qed
qed

lemma buttons_to_reaches:
  assumes "\<not> e_in_menu s" and "e_screen s = EMPEG_SCREEN_PLAY"
  shows "\<exists>t. run_events cfg (map (\<lambda>b. (b, False)) (buttons_to scr)) s = Inr t \<and> e_screen t = scr"
  using assms
  by (cases scr; simp add: process_ir_event_def event_defs leave_bias_screen_def choose_item_def read_at_def
      menu_items_def default_item_def numeral_eq_Suc)

text \<open>From every state of the interface some buttons lead to every screen, without an error on
  the way.
\<close>
theorem every_screen_reachable:
  "\<exists>es t. run_events cfg es s = Inr t \<and> e_screen t = scr"
proof -
  obtain es t where t: "run_events cfg es s = Inr t" "\<not> e_in_menu t" "e_screen t = EMPEG_SCREEN_PLAY"
    using hold_top_plays by blast
  obtain u where "run_events cfg (map (\<lambda>b. (b, False)) (buttons_to scr)) t = Inr u" "e_screen u = scr"
    using buttons_to_reaches [OF t(2,3)] by blast
  with t(1) have "run_events cfg (es @ map (\<lambda>b. (b, False)) (buttons_to scr)) s = Inr u"
    by (simp add: run_events_def)
  with \<open>e_screen u = scr\<close> show ?thesis by blast
qed

section \<open>The steps of the rating bias\<close>

definition tenth :: "int \<Rightarrow> rat" where
  "tenth k = to_float (to_double (of_int k / 10))"

lemma tenths:
  "tenth 0 = 0"
  "tenth 1 = 13421773 / 134217728"
  "tenth 2 = 13421773 / 67108864"
  "tenth 3 = 5033165 / 16777216"
  "tenth 4 = 13421773 / 33554432"
  "tenth 5 = 1 / 2"
  "tenth 6 = 5033165 / 8388608"
  "tenth 7 = 11744051 / 16777216"
  "tenth 8 = 13421773 / 16777216"
  "tenth 9 = 7549747 / 8388608"
  "tenth 10 = 1"
  by (simp_all add: tenth_def rounding)

lemma up_0: "bias_up (0) = 13421773 / 134217728"
  by (simp add: bias_up_def whole_tenths_def rounding)

lemma up_1: "bias_up (13421773 / 134217728) = 13421773 / 67108864"
  by (simp add: bias_up_def whole_tenths_def rounding)

lemma up_2: "bias_up (13421773 / 67108864) = 5033165 / 16777216"
  by (simp add: bias_up_def whole_tenths_def rounding)

lemma up_3: "bias_up (5033165 / 16777216) = 13421773 / 33554432"
  by (simp add: bias_up_def whole_tenths_def rounding)

lemma up_4: "bias_up (13421773 / 33554432) = 1 / 2"
  by (simp add: bias_up_def whole_tenths_def rounding)

lemma up_5: "bias_up (1 / 2) = 5033165 / 8388608"
  by (simp add: bias_up_def whole_tenths_def rounding)

lemma up_6: "bias_up (5033165 / 8388608) = 11744051 / 16777216"
  by (simp add: bias_up_def whole_tenths_def rounding)

lemma up_7: "bias_up (11744051 / 16777216) = 13421773 / 16777216"
  by (simp add: bias_up_def whole_tenths_def rounding)

lemma up_8: "bias_up (13421773 / 16777216) = 7549747 / 8388608"
  by (simp add: bias_up_def whole_tenths_def rounding)

lemma up_9: "bias_up (7549747 / 8388608) = 1"
  by (simp add: bias_up_def whole_tenths_def rounding)

lemma up_10: "bias_up (1) = 1"
  by (simp add: bias_up_def whole_tenths_def rounding)

lemma down_0: "bias_down (0) = 0"
  by (simp add: bias_down_def whole_tenths_def rounding)

lemma down_1: "bias_down (13421773 / 134217728) = 0"
  by (simp add: bias_down_def whole_tenths_def rounding)

lemma down_2: "bias_down (13421773 / 67108864) = 13421773 / 134217728"
  by (simp add: bias_down_def whole_tenths_def rounding)

lemma down_3: "bias_down (5033165 / 16777216) = 13421773 / 67108864"
  by (simp add: bias_down_def whole_tenths_def rounding)

lemma down_4: "bias_down (13421773 / 33554432) = 5033165 / 16777216"
  by (simp add: bias_down_def whole_tenths_def rounding)

lemma down_5: "bias_down (1 / 2) = 13421773 / 33554432"
  by (simp add: bias_down_def whole_tenths_def rounding)

lemma down_6: "bias_down (5033165 / 8388608) = 1 / 2"
  by (simp add: bias_down_def whole_tenths_def rounding)

lemma down_7: "bias_down (11744051 / 16777216) = 1 / 2"
  by (simp add: bias_down_def whole_tenths_def rounding)

lemma down_8: "bias_down (13421773 / 16777216) = 11744051 / 16777216"
  by (simp add: bias_down_def whole_tenths_def rounding)

lemma down_9: "bias_down (7549747 / 8388608) = 11744051 / 16777216"
  by (simp add: bias_down_def whole_tenths_def rounding)

lemma down_10: "bias_down (1) = 7549747 / 8388608"
  by (simp add: bias_down_def whole_tenths_def rounding)

lemmas tenths_up = up_0 up_1 up_2 up_3 up_4 up_5 up_6 up_7 up_8 up_9 up_10
lemmas tenths_down = down_0 down_1 down_2 down_3 down_4 down_5 down_6 down_7 down_8 down_9 down_10

text \<open>Turning the knob to the right takes the rating bias through all tenths from 0 to 1, and it stays
  at 1.  Turning it to the left, 0.7 is followed by 0.5 and 0.9 by 0.7: the cast
  to \<open>int\<close> loses a tenth after the rounding, so 0.6 and 0.8 are not reached downwards.
\<close>
theorem rating_bias_steps:
  "map bias_up (map tenth [0, 1, 2, 3, 4, 5, 6, 7, 8, 9, 10]) = map tenth [1, 2, 3, 4, 5, 6, 7, 8, 9, 10, 10] \<and>
   map bias_down (map tenth [0, 1, 2, 3, 4, 5, 6, 7, 8, 9, 10]) = map tenth [0, 0, 1, 2, 3, 4, 5, 5, 7, 7, 9] \<and>
   distinct (map tenth [0, 1, 2, 3, 4, 5, 6, 7, 8, 9, 10])"
  by (simp add: tenths tenths_up tenths_down)

section \<open>From buttons to events\<close>

text \<open>The five buttons: their press is an even code, their release the odd one after it.\<close>

definition press :: "int \<Rightarrow> int" where "press k = 2 * k"
definition release :: "int \<Rightarrow> int" where "release k = 2 * k + 1"

lemma five_buttons: "0 \<le> k \<Longrightarrow> k \<le> (4::int) \<Longrightarrow> k = 0 \<or> k = 1 \<or> k = 2 \<or> k = 3 \<or> k = 4"
  by linarith

lemma press_release [simp]:
  assumes "0 \<le> k" and "k \<le> 4"
  shows "is_pressed (press k)" "\<not> is_pressed (release k)" "is_released (release k)"
    "press k \<noteq> - 1" "release k AND 0xFFFFFFFE = press k"
  using five_buttons [OF assms] by (elim disjE; simp add: is_pressed_def is_released_def press_def release_def)+

lemma ir_step_simps:
  assumes k: "0 \<le> k" "k \<le> 4"
  shows "ir_step last_button (Some (press k)) = (press k, None)"
    and "ir_step (press k) (Some (release k)) = (- 1, Some (press k, False))"
    and "ir_step (press k) None = (- 1, Some (press k, True))"
    and "ir_step (- 1) (Some (release k)) = (- 1, None)"
  using press_release [OF k] by (auto simp: ir_step_def)

text \<open>What a user does with a button: a short press, or one longer than half a second.\<close>

datatype gesture = Short int | Long int | Turn int

fun gesture_inputs :: "gesture \<Rightarrow> int option list" where
  "gesture_inputs (Short k) = [Some (press k), Some (release k)]"
| "gesture_inputs (Long k) = [Some (press k), None, Some (release k)]"
| "gesture_inputs (Turn b) = [Some b]"

fun gesture_event :: "gesture \<Rightarrow> int \<times> bool" where
  "gesture_event (Short k) = (press k, False)"
| "gesture_event (Long k) = (press k, True)"
| "gesture_event (Turn b) = (b, False)"

fun gesture_ok :: "gesture \<Rightarrow> bool" where
  "gesture_ok (Short k) \<longleftrightarrow> 0 \<le> k \<and> k \<le> 4"
| "gesture_ok (Long k) \<longleftrightarrow> 0 \<le> k \<and> k \<le> 4"
| "gesture_ok (Turn b) \<longleftrightarrow> 9 < b"

lemma gesture_step:
  assumes "gesture_ok g"
  shows "ir_events (- 1) (gesture_inputs g @ rest) = gesture_event g # ir_events (- 1) rest"
proof (cases g)
  case (Turn b)
  then have "ir_step (- 1) (Some b) = (- 1, Some (b, False))"
    using assms by (auto simp: ir_step_def is_pressed_def is_released_def)
  with Turn show ?thesis by simp
qed (use assms in \<open>simp_all add: ir_step_simps\<close>)

text \<open>Each gesture is one event: a short press one event that is not held, a long press one event
  that is held (and its release none), a turn of the knob or a button of the remote one event.
\<close>
theorem one_event_per_gesture:
  assumes "\<forall>g \<in> set gs. gesture_ok g"
  shows "ir_events (- 1) (concat (map gesture_inputs gs)) = map gesture_event gs"
  using assms by (induction gs) (simp_all add: gesture_step)

theorem one_event_per_gesture_witness:
  "ir_events (- 1) [Some 8, Some 9, Some 10, Some 0, None, Some 1] = [(8, False), (10, False), (0, True)]"
  using one_event_per_gesture [of "[Short 4, Turn 10, Long 0]"] by (simp add: press_def release_def)

end
