(* ===== verification/Config.thy ===== *)
theory Config
  imports Songs
begin

text \<open>
  The configuration: the table of keys, \<open>set_config()\<close>, \<open>expand_path()\<close> and
  \<open>init_config()\<close> of \<open>src/src/global.c\<close>, as built without \<open>DEBUG\<close>.
\<close>

section \<open>The keys\<close>

datatype data_type = TYPE_STRING | TYPE_INT | TYPE_DOUBLE

text \<open>The fields of \<open>config\<close> a key may point to.\<close>

datatype config_field =
    Base_Path basename_type
  | Masterlist_Path | Readonly | Saveinfo | Overwriteinfo | Manual_Rating_Bias
  | State_Path | Fifo_Path
  | Min_Save_Volume | Max_Save_Volume
  | Playlist_Size | Pastlist_Size

definition config_keys :: "build \<Rightarrow> (string \<times> string \<times> config_field \<times> data_type) list" where
  "config_keys b =
     [(''Database'', ''Info_Path'', Base_Path BASENAME_META, TYPE_STRING),
      (''Database'', ''Stat_Path'', Base_Path BASENAME_STAT, TYPE_STRING),
      (''Database'', ''Song_Path'', Base_Path BASENAME_SONG, TYPE_STRING),
      (''Database'', ''Masterlist_Filename'', Masterlist_Path, TYPE_STRING),
      (''Database'', ''Readonly'', Readonly, TYPE_INT),
      (''Database'', ''Save_Info'', Saveinfo, TYPE_INT),
      (''Database'', ''Overwrite_Info'', Overwriteinfo, TYPE_INT),
      (''Database'', ''Manual_Rating_Bias'', Manual_Rating_Bias, TYPE_DOUBLE),
      (''Global'', ''State_Filename'', State_Path, TYPE_STRING),
      (''Global'', ''Control_Filename'', Fifo_Path, TYPE_STRING)] @
     (if EMPEG_DSP b
      then [(''Empeg'', ''save_volume_minimum'', Min_Save_Volume, TYPE_INT),
            (''Empeg'', ''save_volume_maximum'', Max_Save_Volume, TYPE_INT)]
      else []) @
     [(''Playlist'', ''Size'', Playlist_Size, TYPE_INT),
      (''Pastlist'', ''Size'', Pastlist_Size, TYPE_INT)]"

section \<open>Setting a value\<close>

fun store_string :: "config_field \<Rightarrow> string option \<Rightarrow> config \<Rightarrow> config" where
  "store_string (Base_Path t) v cfg = cfg\<lparr>db_paths := (db_paths cfg)(t := v)\<rparr>"
| "store_string Masterlist_Path v cfg = cfg\<lparr>db_masterlist_path := v\<rparr>"
| "store_string State_Path v cfg = cfg\<lparr>global_state_path := v\<rparr>"
| "store_string Fifo_Path v cfg = cfg\<lparr>input_fifo_path := v\<rparr>"
| "store_string _ v cfg = cfg"

fun store_int :: "config_field \<Rightarrow> int \<Rightarrow> config \<Rightarrow> config" where
  "store_int Readonly n cfg = cfg\<lparr>db_readonly := n\<rparr>"
| "store_int Saveinfo n cfg = cfg\<lparr>db_saveinfo := n\<rparr>"
| "store_int Overwriteinfo n cfg = cfg\<lparr>db_overwriteinfo := n\<rparr>"
| "store_int Min_Save_Volume n cfg = cfg\<lparr>min_save_volume := n\<rparr>"
| "store_int Max_Save_Volume n cfg = cfg\<lparr>max_save_volume := n\<rparr>"
| "store_int Playlist_Size n cfg = cfg\<lparr>playlist_manager_playlist_size := n\<rparr>"
| "store_int Pastlist_Size n cfg = cfg\<lparr>playlist_manager_pastlist_size := n\<rparr>"
| "store_int _ n cfg = cfg"

text \<open>A key without a header in front of it is looked for under every header.\<close>

definition find_key :: "build \<Rightarrow> string option \<Rightarrow> string \<Rightarrow> (config_field \<times> data_type) option" where
  "find_key b header key =
     map_option (\<lambda>(h, k, field, type). (field, type))
       (List.find (\<lambda>(h, k, field, type). strcasecmp0 key k \<and>
          (case header of None \<Rightarrow> True | Some g \<Rightarrow> strcasecmp0 g h)) (config_keys b))"

text \<open>
  The loop frees \<open>key\<close> at the first match, which leaves it null, so nothing further
  is matched.  \<open>atoi\<close> and \<open>atof\<close> read through the value.  The field of type
  \<open>TYPE_DOUBLE\<close> is a \<open>float\<close>: a \<open>double\<close> is written over it and beyond.
\<close>

definition set_config :: "build \<Rightarrow> config add_data" where
  "set_config b header key value cfg =
     (case key of
        None \<Rightarrow> Inr cfg
      | Some k \<Rightarrow>
        (case find_key b header k of
           None \<Rightarrow> Inr cfg
         | Some (field, TYPE_STRING) \<Rightarrow> Inr (store_string field value cfg)
         | Some (field, TYPE_INT) \<Rightarrow>
             (case value of None \<Rightarrow> Inl Null_Deref | Some v \<Rightarrow> Inr (store_int field (atoi v) cfg))
         | Some (field, TYPE_DOUBLE) \<Rightarrow>
             (case value of None \<Rightarrow> Inl Null_Deref | Some v \<Rightarrow> Inl Out_Of_Bounds)))"

section \<open>Paths\<close>

text \<open>
  \<open>wordexp()\<close> depends on the environment and the file system and is a parameter: the
  words it gives, or \<open>None\<close> for an error.
\<close>

type_synonym expansion = "string \<Rightarrow> string list option"

definition expand_path :: "build \<Rightarrow> expansion \<Rightarrow> string option \<Rightarrow> string option result" where
  "expand_path b wordexp path =
     (if EMPEG b then Inr path
      else case path of
        None \<Rightarrow> Inr None
      | Some p \<Rightarrow>
        (case wordexp p of
           None \<Rightarrow> Inr None
         | Some [] \<Rightarrow> Inl Null_Deref
         | Some (w # ws) \<Rightarrow> Inr (Some w)))"

section \<open>Reading the configuration\<close>

definition default_config :: "build \<Rightarrow> config" where
  "default_config b =
     \<lparr>db_paths = (\<lambda>t. case t of BASENAME_SONG \<Rightarrow> Some ''.'' | _ \<Rightarrow> None),
      db_masterlist_path = None, db_readonly = 0, db_saveinfo = 1, db_overwriteinfo = 0,
      db_manual_rating_bias = 1 / 2,
      global_state_path = Some ''~/.squash_state'', input_fifo_path = Some ''~/.squash_control'',
      playlist_manager_playlist_size = 32, playlist_manager_pastlist_size = 32,
      min_save_volume = (if EMPEG_DSP b then 40 else 0), max_save_volume = (if EMPEG_DSP b then 70 else 0)\<rparr>"

text \<open>\<open>parse_file(name, set_config, NULL)\<close>; its result is not looked at.\<close>

definition read_config :: "build \<Rightarrow> filesys \<Rightarrow> string option \<Rightarrow> config \<Rightarrow> config result" where
  "read_config b fs name cfg =
     map_result snd (parse_file (case name of None \<Rightarrow> None | Some p \<Rightarrow> files fs p) (set_config b) cfg)"

definition load_config_files ::
  "build \<Rightarrow> expansion \<Rightarrow> (string \<Rightarrow> string option) \<Rightarrow> filesys \<Rightarrow> config \<Rightarrow> config result" where
  "load_config_files b wordexp getenv fs cfg =
     and_then
       (if EMPEG b then read_config b fs (Some ''/drive0/squash/squash.conf'') cfg
        else
          and_then (read_config b fs (Some ''/etc/squash.conf'') cfg) (\<lambda>cfg.
          and_then (expand_path b wordexp (Some ''~/.squash'')) (\<lambda>config_path.
          read_config b fs config_path cfg))) (\<lambda>cfg.
     case getenv ''SQUASH_CONF'' of
       None \<Rightarrow> Inr cfg
     | Some config_path \<Rightarrow> read_config b fs (Some config_path) cfg)"

definition expand_base :: "build \<Rightarrow> expansion \<Rightarrow> basename_type \<Rightarrow> config \<Rightarrow> config result" where
  "expand_base b wordexp t cfg =
     map_result (\<lambda>p. cfg\<lparr>db_paths := (db_paths cfg)(t := p)\<rparr>) (expand_path b wordexp (db_paths cfg t))"

definition expand_paths :: "build \<Rightarrow> expansion \<Rightarrow> config \<Rightarrow> config result" where
  "expand_paths b wordexp cfg =
     and_then (expand_path b wordexp (global_state_path cfg)) (\<lambda>p.
     let cfg = cfg\<lparr>global_state_path := p\<rparr> in
     and_then (expand_path b wordexp (input_fifo_path cfg)) (\<lambda>p.
     let cfg = cfg\<lparr>input_fifo_path := p\<rparr> in
     and_then (expand_base b wordexp BASENAME_SONG cfg) (\<lambda>cfg.
     and_then (expand_base b wordexp BASENAME_META cfg) (\<lambda>cfg.
     and_then (expand_base b wordexp BASENAME_STAT cfg) (\<lambda>cfg.
     map_result (\<lambda>p. cfg\<lparr>db_masterlist_path := p\<rparr>) (expand_path b wordexp (db_masterlist_path cfg)))))))"

definition clip_volumes :: "build \<Rightarrow> config \<Rightarrow> config" where
  "clip_volumes b cfg =
     (if EMPEG_DSP b
      then cfg\<lparr>min_save_volume := (if min_save_volume cfg < 0 then 0 else min_save_volume cfg),
               max_save_volume := (if max_save_volume cfg > 100 then 100 else max_save_volume cfg)\<rparr>
      else cfg)"

text \<open>A path of its own, or the one of the songs; \<open>strdup\<close> reads through its argument.\<close>

definition base_or_songs :: "basename_type \<Rightarrow> config \<Rightarrow> config result" where
  "base_or_songs t cfg =
     (if db_paths cfg t = None
      then (case db_paths cfg BASENAME_SONG of
              None \<Rightarrow> Inl Null_Deref
            | Some p \<Rightarrow> Inr (cfg\<lparr>db_paths := (db_paths cfg)(t := Some p)\<rparr>))
      else Inr cfg)"

definition init_config ::
  "build \<Rightarrow> expansion \<Rightarrow> (string \<Rightarrow> string option) \<Rightarrow> filesys \<Rightarrow> config result" where
  "init_config b wordexp getenv fs =
     and_then (load_config_files b wordexp getenv fs (default_config b)) (\<lambda>cfg.
     and_then (expand_paths b wordexp cfg) (\<lambda>cfg.
     and_then (base_or_songs BASENAME_META (clip_volumes b cfg)) (base_or_songs BASENAME_STAT)))"

section \<open>What a file sets\<close>

text \<open>The settings of a file: each known key with what is stored for it.\<close>

fun settings :: "build \<Rightarrow> string option \<Rightarrow> line list \<Rightarrow> (config_field \<times> data_type \<times> string option) list" where
  "settings b h [] = []"
| "settings b h (Pair k v # ls) =
     (case find_key b h k of None \<Rightarrow> [] | Some (f, t) \<Rightarrow> [(f, t, Some v)]) @ settings b h ls"
| "settings b h (Key_Only k # ls) =
     (case find_key b h k of None \<Rightarrow> [] | Some (f, t) \<Rightarrow> [(f, t, None)]) @ settings b h ls"
| "settings b h (Header g # ls) = settings b (Some g) ls"
| "settings b h (_ # ls) = settings b h ls"

definition harmless :: "config_field \<times> data_type \<times> string option \<Rightarrow> bool" where
  "harmless s = (case s of (f, t, v) \<Rightarrow> t = TYPE_STRING \<or> (t = TYPE_INT \<and> v \<noteq> None))"

fun store :: "config_field \<times> data_type \<times> string option \<Rightarrow> config \<Rightarrow> config" where
  "store (f, TYPE_STRING, v) cfg = store_string f v cfg"
| "store (f, TYPE_INT, Some v) cfg = store_int f (atoi v) cfg"
| "store _ cfg = cfg"

text \<open>The value of a field, and the last one a list of settings gives it.\<close>

datatype stored = Text "string option" | Number int | Bias real

fun field_value :: "config_field \<Rightarrow> config \<Rightarrow> stored" where
  "field_value (Base_Path t) cfg = Text (db_paths cfg t)"
| "field_value Masterlist_Path cfg = Text (db_masterlist_path cfg)"
| "field_value Readonly cfg = Number (db_readonly cfg)"
| "field_value Saveinfo cfg = Number (db_saveinfo cfg)"
| "field_value Overwriteinfo cfg = Number (db_overwriteinfo cfg)"
| "field_value Manual_Rating_Bias cfg = Bias (db_manual_rating_bias cfg)"
| "field_value State_Path cfg = Text (global_state_path cfg)"
| "field_value Fifo_Path cfg = Text (input_fifo_path cfg)"
| "field_value Min_Save_Volume cfg = Number (min_save_volume cfg)"
| "field_value Max_Save_Volume cfg = Number (max_save_volume cfg)"
| "field_value Playlist_Size cfg = Number (playlist_manager_playlist_size cfg)"
| "field_value Pastlist_Size cfg = Number (playlist_manager_pastlist_size cfg)"

fun setting_value :: "config_field \<times> data_type \<times> string option \<Rightarrow> stored" where
  "setting_value (f, TYPE_INT, Some v) = Number (atoi v)"
| "setting_value (f, t, v) = Text v"

definition last_value :: "config_field \<Rightarrow> (config_field \<times> data_type \<times> string option) list \<Rightarrow> stored \<Rightarrow> stored" where
  "last_value f ss v = (case filter (\<lambda>s. fst s = f) ss of [] \<Rightarrow> v | xs \<Rightarrow> setting_value (last xs))"

text \<open>Every entry of the table has the type of its field, except the \<open>float\<close>.\<close>

fun field_type :: "config_field \<Rightarrow> data_type" where
  "field_type (Base_Path t) = TYPE_STRING"
| "field_type Masterlist_Path = TYPE_STRING"
| "field_type State_Path = TYPE_STRING"
| "field_type Fifo_Path = TYPE_STRING"
| "field_type Manual_Rating_Bias = TYPE_DOUBLE"
| "field_type _ = TYPE_INT"

lemma config_keys_types: "\<forall>(h, k, f, t) \<in> set (config_keys b). t = field_type f"
  by (cases "EMPEG_DSP b"; simp add: config_keys_def)

lemma find_key_type: "find_key b h k = Some (f, t) \<Longrightarrow> t = field_type f"
  using config_keys_types [of b] unfolding find_key_def find_Some_iff
  by (fastforce simp: find_Some_iff dest: nth_mem)

lemma set_config_unknown [simp]: "find_key b h k = None \<Longrightarrow> set_config b h (Some k) v cfg = Inr cfg"
  by (simp add: set_config_def)

lemma set_config_stores:
  assumes "find_key b h k = Some (f, t)" and "harmless (f, t, v)"
  shows "set_config b h (Some k) v cfg = Inr (store (f, t, v) cfg)"
  using assms by (cases t; cases v) (auto simp: set_config_def harmless_def)

lemma run_config_lines:
  assumes "\<forall>s \<in> set (settings b h ls). harmless s"
  shows "\<exists>h'. run_lines (set_config b) h ls cfg = Inr (h', fold store (settings b h ls) cfg)"
  using assms
proof (induction b h ls arbitrary: cfg rule: settings.induct)
  case (2 b h k v ls)
  then show ?case
    using set_config_stores [of b h k _ _ "Some v"] by (cases "find_key b h k") (auto split: prod.splits)
next
  case (3 b h k ls)
  then show ?case
    using set_config_stores [of b h k _ _ None] by (cases "find_key b h k") (auto split: prod.splits)
qed auto

lemma settings_types: "s \<in> set (settings b h ls) \<Longrightarrow> fst (snd s) = field_type (fst s)"
  by (induction b h ls rule: settings.induct) (auto split: option.splits dest: find_key_type find_key_type [OF sym])

lemma field_value_store:
  assumes "fst (snd s) = field_type (fst s)" and "harmless s"
  shows "field_value f (store s cfg) = (if fst s = f then setting_value s else field_value f cfg)"
proof -
  obtain g t v where s: "s = (g, t, v)" by (cases s)
  show ?thesis using assms unfolding s
    by (cases g; cases f; cases v; simp add: harmless_def)
qed

lemma last_value_Cons: "last_value f (s # ss) v = last_value f ss (if fst s = f then setting_value s else v)"
  by (auto simp: last_value_def split: list.splits)

lemma field_value_fold:
  assumes "\<forall>s \<in> set ss. fst (snd s) = field_type (fst s) \<and> harmless s"
  shows "field_value f (fold store ss cfg) = last_value f ss (field_value f cfg)"
  using assms
  by (induction ss arbitrary: cfg) (simp_all add: field_value_store last_value_Cons, simp add: last_value_def)

text \<open>C17. In a configuration file each field gets the last value the file gives it, found by its header
  and key whatever the case of their letters, and a field that is not named keeps its value.  (A
  file that names \<open>Manual_Rating_Bias\<close>, or a number without a value, is not among them.)
\<close>
theorem last_setting_wins:
  assumes "\<forall>l \<in> set ls. line_ok l" and "ls \<noteq> []" and "files fs name = Some (render_lines ls)"
    and "\<forall>s \<in> set (settings b None ls). harmless s"
  shows "\<exists>cfg'. read_config b fs (Some name) cfg = Inr cfg' \<and>
    (\<forall>f. field_value f cfg' = last_value f (settings b None ls) (field_value f cfg))"
proof -
  obtain h' where "run_lines (set_config b) None ls cfg = Inr (h', fold store (settings b None ls) cfg)"
    using run_config_lines [OF assms(4)] by blast
  from parse_file_render [OF assms(1,2) this] assms(3)
  have "read_config b fs (Some name) cfg = Inr (fold store (settings b None ls) cfg)"
    by (simp add: read_config_def)
  moreover have "\<forall>s \<in> set (settings b None ls). fst (snd s) = field_type (fst s) \<and> harmless s"
    using settings_types assms(4) by blast
  ultimately show ?thesis using field_value_fold by blast
qed

definition ex_settings :: "line list" where
  "ex_settings =
     [Pair ''SIZE'' ''8'', Header ''pastlist'', Pair ''size'' ''4'', Comment '' more'', Header ''playlist'',
      Pair ''Size'' ''16'', Blank, Header ''database'', Pair ''song_path'' ''/m'', Pair ''volume'' ''3'']"

definition ex_desktop :: build where
  "ex_desktop = \<lparr>EMPEG = False, EMPEG_DSP = False, NO_NCURSES = False, USE_MAGIC = False,
     NO_VORBIS_COMMENT = False, NO_ID3LIB = False\<rparr>"

definition ex_files :: "string \<Rightarrow> filesys" where
  "ex_files t = \<lparr>files = [''/etc/squash.conf'' \<mapsto> t], is_dir = (\<lambda>_. False), can_write = (\<lambda>_. True)\<rparr>"

lemma ex_settings_ok: "list_all line_ok ex_settings \<and> atoi ''16'' = 16"
  by code_simp

lemmas key_search = find_key_def config_keys_def strcasecmp0_def to_lower_def char_of_def bit_0

lemma ex_settings_settings:
  "settings ex_desktop None ex_settings =
     [(Playlist_Size, TYPE_INT, Some ''8''), (Pastlist_Size, TYPE_INT, Some ''4''),
      (Playlist_Size, TYPE_INT, Some ''16''), (Base_Path BASENAME_SONG, TYPE_STRING, Some ''/m'')]"
  by (simp add: ex_settings_def ex_desktop_def key_search)

lemma ex_settings_test:
  "list_all line_ok ex_settings \<and> list_all harmless (settings ex_desktop None ex_settings) \<and> atoi ''16'' = 16"
  using ex_settings_ok by (simp add: ex_settings_settings harmless_def)

theorem last_setting_wins_witness:
  "\<exists>cfg. read_config ex_desktop (ex_files (render_lines ex_settings)) (Some ''/etc/squash.conf'')
           (default_config ex_desktop) = Inr cfg \<and>
     playlist_manager_playlist_size cfg = 16 \<and> db_paths cfg BASENAME_SONG = Some ''/m''"
proof -
  have "ex_settings \<noteq> []" by (simp add: ex_settings_def)
  then obtain cfg where cfg: "read_config ex_desktop (ex_files (render_lines ex_settings)) (Some ''/etc/squash.conf'')
         (default_config ex_desktop) = Inr cfg"
      "\<forall>f. field_value f cfg = last_value f (settings ex_desktop None ex_settings) (field_value f (default_config ex_desktop))"
    using last_setting_wins [of ex_settings "ex_files (render_lines ex_settings)" "''/etc/squash.conf''" ex_desktop
        "default_config ex_desktop"] ex_settings_test by (auto simp: ex_files_def list_all_iff)
  from cfg(2) [THEN spec, of Playlist_Size] cfg(2) [THEN spec, of "Base_Path BASENAME_SONG"] ex_settings_test
    ex_settings_settings
  show ?thesis using cfg(1) by (auto simp: last_value_def)
qed

section \<open>The configuration as a whole\<close>

lemma base_or_songs_set:
  assumes "base_or_songs t cfg = Inr cfg'"
  shows "db_paths cfg' = (db_paths cfg)(t := (if db_paths cfg t = None then db_paths cfg BASENAME_SONG else db_paths cfg t))"
    and "db_paths cfg' t \<noteq> None" and "min_save_volume cfg' = min_save_volume cfg"
    and "max_save_volume cfg' = max_save_volume cfg"
  using assms by (auto simp: base_or_songs_def split: if_splits option.splits)

lemma clip_volumes_paths [simp]: "db_paths (clip_volumes b cfg) = db_paths cfg"
  by (simp add: clip_volumes_def)

lemma expand_path_none [simp]: "expand_path b wordexp None = Inr None"
  by (simp add: expand_path_def)

lemma expand_base_none: "expand_base b wordexp t cfg = Inr cfg' \<Longrightarrow> db_paths cfg u = None \<Longrightarrow> db_paths cfg' u = None"
  by (cases "u = t") (auto simp: expand_base_def)

lemma expand_paths_none:
  assumes "expand_paths b wordexp cfg = Inr cfg'" and none: "db_paths cfg t = None"
  shows "db_paths cfg' t = None"
proof -
  from assms(1) obtain p q c1 c2 c3 m where c:
      "expand_base b wordexp BASENAME_SONG (cfg\<lparr>global_state_path := p, input_fifo_path := q\<rparr>) = Inr c1"
      "expand_base b wordexp BASENAME_META c1 = Inr c2" "expand_base b wordexp BASENAME_STAT c2 = Inr c3"
      "cfg' = c3\<lparr>db_masterlist_path := m\<rparr>"
    unfolding expand_paths_def Let_def and_then_eq_Inr map_result_eq_Inr by auto
  have "db_paths c3 t = None"
    using c(1-3) none by (auto dest!: expand_base_none [of _ _ _ _ _ t])
  with c(4) show ?thesis by simp
qed

text \<open>C18. When \<open>init_config()\<close> returns, the meta data and the statistics have a path whatever the
  files, the environment and the expansion of paths gave; where none was set it is the path of the
  songs.  On the empeg the smallest volume that is saved is not negative and the
  largest at most 100.
\<close>
theorem config_is_complete:
  assumes "init_config b wordexp getenv fs = Inr cfg"
  shows "\<exists>read. load_config_files b wordexp getenv fs (default_config b) = Inr read \<and>
    (\<forall>t \<in> {BASENAME_META, BASENAME_STAT}. db_paths cfg t \<noteq> None \<and>
       (db_paths read t = None \<longrightarrow> db_paths cfg t = db_paths cfg BASENAME_SONG)) \<and>
    (EMPEG_DSP b \<longrightarrow> 0 \<le> min_save_volume cfg \<and> max_save_volume cfg \<le> 100)"
proof -
  from assms obtain c1 c2 c3 where c: "load_config_files b wordexp getenv fs (default_config b) = Inr c1"
      "expand_paths b wordexp c1 = Inr c2" "base_or_songs BASENAME_META (clip_volumes b c2) = Inr c3"
      "base_or_songs BASENAME_STAT c3 = Inr cfg"
    by (auto simp: init_config_def)
  have none: "db_paths c1 t = None \<Longrightarrow> db_paths c2 t = None" for t
    by (rule expand_paths_none [OF c(2)])
  note m = base_or_songs_set [OF c(3)] and s = base_or_songs_set [OF c(4)]
  have vol: "EMPEG_DSP b \<Longrightarrow> 0 \<le> min_save_volume cfg \<and> max_save_volume cfg \<le> 100"
    using m(3,4) s(3,4) by (simp add: clip_volumes_def)
  have "\<forall>t \<in> {BASENAME_META, BASENAME_STAT}. db_paths cfg t \<noteq> None \<and>
       (db_paths c1 t = None \<longrightarrow> db_paths cfg t = db_paths cfg BASENAME_SONG)"
    using m(1,2) s(1,2) none [of BASENAME_META] none [of BASENAME_STAT] by auto
  with c(1) vol show ?thesis by blast
qed

definition ex_wordexp :: expansion where
  "ex_wordexp p = (if take 1 p = ''~'' then Some [''/home/u'' @ drop 1 p] else Some [p])"

lemma ex_init_config_test:
  "case init_config ex_desktop ex_wordexp (\<lambda>_. None) (ex_files (render_lines ex_settings)) of
     Inr cfg \<Rightarrow> db_paths cfg BASENAME_META = Some ''/m'' \<and> global_state_path cfg = Some ''/home/u/.squash_state''
   | Inl _ \<Rightarrow> False"
  by code_simp

theorem config_is_complete_witness:
  "\<exists>cfg. init_config ex_desktop ex_wordexp (\<lambda>_. None) (ex_files (render_lines ex_settings)) = Inr cfg \<and>
     db_paths cfg BASENAME_STAT \<noteq> None \<and> db_paths cfg BASENAME_META = Some ''/m''"
proof -
  obtain cfg where cfg: "init_config ex_desktop ex_wordexp (\<lambda>_. None) (ex_files (render_lines ex_settings)) = Inr cfg"
      "db_paths cfg BASENAME_META = Some ''/m''"
    using ex_init_config_test by (auto split: sum.splits)
  from config_is_complete [OF this(1)] cfg show ?thesis by blast
qed

lemma settings_append_header: "settings b h (ls @ [Header g]) = settings b h ls"
  by (induction b h ls rule: settings.induct) auto

lemma run_lines_header: "run_lines add h (ls @ [Header g]) d = Inr (h', d') \<Longrightarrow> h' = Some g"
proof (induction ls arbitrary: h d)
  case (Cons l ls)
  then show ?case by (cases l) auto
qed simp

lemma find_bias:
  assumes "strcasecmp0 key ''Manual_Rating_Bias''"
  shows "find_key b (Some ''Database'') key = Some (Manual_Rating_Bias, TYPE_DOUBLE)"
proof -
  have same: "strcasecmp0 key k = strcasecmp0 ''Manual_Rating_Bias'' k" for k
    using assms by (simp add: strcasecmp0_def)
  have "find_key b (Some ''Database'') ''Manual_Rating_Bias'' = Some (Manual_Rating_Bias, TYPE_DOUBLE)"
    by (cases "EMPEG_DSP b"; simp add: find_key_def config_keys_def strcasecmp0_def to_lower_def)
  then show ?thesis by (simp add: find_key_def same)
qed

text \<open>A configuration file that sets \<open>Manual_Rating_Bias\<close> makes \<open>set_config()\<close> write the eight bytes
  of a \<open>double\<close> over a \<open>float\<close> of four, past the end of the field.
\<close>
theorem rating_bias_setting_faults:
  assumes "\<forall>l \<in> set ls. line_ok l" and "\<forall>s \<in> set (settings b None ls). harmless s"
    and "key_ok key" and "strcasecmp0 key ''Manual_Rating_Bias''" and "value_ok v"
  shows "parse_data (set_config b) (render_lines (ls @ Header ''Database'' # Pair key v # rest)) cfg = Inl Out_Of_Bounds"
proof -
  let ?ls = "ls @ [Header ''Database'']"
  have "\<forall>s \<in> set (settings b None ?ls). harmless s" using assms(2) by (simp add: settings_append_header)
  then obtain h where run: "run_lines (set_config b) None ?ls cfg = Inr (h, fold store (settings b None ?ls) cfg)"
    using run_config_lines by blast
  have h: "h = Some ''Database''" using run by (rule run_lines_header)
  have "find_key b h key = Some (Manual_Rating_Bias, TYPE_DOUBLE)"
    unfolding h by (rule find_bias [OF assms(4)])
  then have "set_config b h (Some key) (Some v) c = Inl Out_Of_Bounds" for c
    by (simp add: set_config_def)
  from parse_data_fault [OF _ run assms(3,5) this, of rest] assms(1) show ?thesis by simp
qed

lemma ex_bias_test:
  "key_ok ''manual_rating_bias'' \<and> strcasecmp0 ''manual_rating_bias'' ''Manual_Rating_Bias'' \<and> value_ok ''0.7''"
  by code_simp

theorem rating_bias_setting_faults_witness:
  "parse_data (set_config ex_desktop)
     (render_lines (ex_settings @ [Header ''Database'', Pair ''manual_rating_bias'' ''0.7''])) (default_config ex_desktop) =
   Inl Out_Of_Bounds"
  using rating_bias_setting_faults [of ex_settings ex_desktop "''manual_rating_bias''" "''0.7''" "[]"]
    ex_settings_test ex_bias_test by (simp add: list_all_iff)

end
