(* ===== verification/Decoders.thy ===== *)
theory Decoders
  imports Spectrum Database_Correct Floating
begin

text \<open>
  What \<open>src/src/play_mp3.c\<close>, \<open>src/src/play_flac.c\<close> and \<open>src/src/play_ogg.c\<close> make of what the
  libraries deliver: tags, samples and seek positions.  What libmad, libFLAC,
  libvorbis and id3lib read out of a file are arguments of the definitions.
\<close>

section \<open>Vorbis comments\<close>

text \<open>An entry is split at its first \<open>=\<close>; without one it is passed over.\<close>

definition split_comment :: "string \<Rightarrow> (string \<times> string) option" where
  "split_comment entry =
     (let start = c_str entry in
      case dropWhile (\<lambda>c. c \<noteq> CHR ''='') start of
        [] \<Rightarrow> None
      | _ # value \<Rightarrow> Some (takeWhile (\<lambda>c. c \<noteq> CHR ''='') start, value))"

definition comment_tags :: "string list \<Rightarrow> (string \<times> string) list" where
  "comment_tags entries = List.map_filter split_comment entries"

section \<open>ID3 tags\<close>

datatype id3_frame_id =
    ID3FID_NOFRAME | ID3FID_PRIVATE
  | ID3FID_COMMENT | ID3FID_SYNCEDLYRICS | ID3FID_ALBUM | ID3FID_BPM | ID3FID_COMPOSER | ID3FID_CONTENTTYPE
  | ID3FID_DATE | ID3FID_LYRICIST | ID3FID_FILETYPE | ID3FID_CONTENTGROUP | ID3FID_TITLE | ID3FID_SUBTITLE
  | ID3FID_LANGUAGE | ID3FID_SONGLEN | ID3FID_MEDIATYPE | ID3FID_ORIGALBUM | ID3FID_ORIGLYRICIST
  | ID3FID_ORIGARTIST | ID3FID_LEADARTIST | ID3FID_BAND | ID3FID_CONDUCTOR | ID3FID_MIXARTIST
  | ID3FID_PARTINSET | ID3FID_TRACKNUM | ID3FID_ISRC | ID3FID_USERTEXT | ID3FID_YEAR | ID3FID_UNSYNCEDLYRICS
  | Other_Frame nat

definition fid_to_db :: "(id3_frame_id \<times> string) list" where
  "fid_to_db =
     [(ID3FID_COMMENT, ''comment''), (ID3FID_SYNCEDLYRICS, ''lyrics_syncronized''), (ID3FID_ALBUM, ''album''),
      (ID3FID_BPM, ''bpm''), (ID3FID_COMPOSER, ''artist_composer''), (ID3FID_CONTENTTYPE, ''genre''),
      (ID3FID_DATE, ''''), (ID3FID_LYRICIST, ''artist_lyrics''), (ID3FID_FILETYPE, ''file_type''),
      (ID3FID_CONTENTGROUP, ''music_group''), (ID3FID_TITLE, ''title''), (ID3FID_SUBTITLE, ''song_mix''),
      (ID3FID_LANGUAGE, ''language''), (ID3FID_SONGLEN, ''length''), (ID3FID_MEDIATYPE, ''original_media''),
      (ID3FID_ORIGALBUM, ''album_original''), (ID3FID_ORIGLYRICIST, ''artist_lyrics_original''),
      (ID3FID_ORIGARTIST, ''artist_original''), (ID3FID_LEADARTIST, ''artist''), (ID3FID_BAND, ''artist_extra''),
      (ID3FID_CONDUCTOR, ''artist_conductor''), (ID3FID_MIXARTIST, ''artist_remix''), (ID3FID_PARTINSET, ''disc''),
      (ID3FID_TRACKNUM, ''tracknumber''), (ID3FID_ISRC, ''isrc''), (ID3FID_USERTEXT, ''user_text''),
      (ID3FID_YEAR, ''year''), (ID3FID_UNSYNCEDLYRICS, ''lyrics'')]"

text \<open>
  The text of a frame, \<open>value_raw\<close> with its \<open>value_length\<close> bytes, is cut at runs of line
  ends.  \<open>strpbrk\<close> stops at a NUL; a run is skipped only up to the length.
\<close>

definition line_end :: "char \<Rightarrow> bool" where
  "line_end c \<longleftrightarrow> c = LF \<or> c = CR"

function id3_values :: "string \<Rightarrow> string list" where
  "id3_values value_raw =
     (let cur_value = takeWhile (\<lambda>c. \<not> line_end c \<and> c \<noteq> NUL) value_raw;
          cur_ptr = drop (length cur_value) value_raw in
      if cur_ptr = [] \<or> hd cur_ptr = NUL then [cur_value]
      else (let cur_ptr = dropWhile line_end cur_ptr in
            cur_value # (if cur_ptr = [] then [] else id3_values cur_ptr)))"
  by auto
termination
proof (relation "measure length", goal_cases)
  case (2 value_raw cur_value cur_ptr ptr)
  have len: "length ptr \<le> length (tl cur_ptr)"
  proof -
    have "line_end (hd cur_ptr)"
    proof -
      have "cur_ptr = dropWhile (\<lambda>c. \<not> line_end c \<and> c \<noteq> NUL) value_raw"
        unfolding 2(1,2) by (metis append_eq_conv_conj takeWhile_dropWhile_id)
      then have "\<not> (\<not> line_end (hd cur_ptr) \<and> hd cur_ptr \<noteq> NUL)"
        using 2(3) hd_dropWhile [of "\<lambda>c. \<not> line_end c \<and> c \<noteq> NUL" value_raw] by auto
      with 2(3) show ?thesis by blast
    qed
    then have "ptr = dropWhile line_end (tl cur_ptr)"
      unfolding 2(4) using 2(3) by (cases cur_ptr) auto
    then show ?thesis using length_dropWhile_le [of line_end "tl cur_ptr"] by (simp only:)
  qed
  have "length (tl cur_ptr) < length cur_ptr" using 2(3) by (cases cur_ptr) auto
  moreover have "length cur_ptr \<le> length value_raw" unfolding 2(2) by simp
  ultimately show ?case using len by simp
qed simp

definition id3_tags :: "(id3_frame_id \<times> string) list \<Rightarrow> (string \<times> string) list" where
  "id3_tags frames =
     concat (map (\<lambda>(fid, value_raw).
       case map_of fid_to_db fid of
         None \<Rightarrow> []
       | Some key \<Rightarrow> map (\<lambda>v. (key, v)) (id3_values value_raw)) frames)"

text \<open>The tags of a song by its type, as the loading of meta data asks for them.\<close>

definition decoder_tags ::
  "(string \<Rightarrow> string list) \<Rightarrow> (string \<Rightarrow> (id3_frame_id \<times> string) list) \<Rightarrow> tags" where
  "decoder_tags comments frames type name =
     (case type of
        TYPE_OGG \<Rightarrow> comment_tags (comments name)
      | TYPE_FLAC \<Rightarrow> comment_tags (comments name)
      | TYPE_MP3 \<Rightarrow> id3_tags (frames name)
      | TYPE_UNKNOWN \<Rightarrow> [])"

section \<open>Samples\<close>

text \<open>
  A sample of libmad is a fixed point number with 28 bits after the point.  The two
  bytes of a sample are stored in \<open>char\<close>s, which keep the low eight bits.
\<close>

abbreviation MAD_F_FRACBITS :: nat where "MAD_F_FRACBITS \<equiv> 28"
abbreviation MAD_F_ONE :: "32 word" where "MAD_F_ONE \<equiv> 0x10000000"

definition mad_to_16bit :: "32 word \<Rightarrow> 32 word" where
  "mad_to_16bit f =
     (let f = f + push_bit (MAD_F_FRACBITS - 16) 1;
          f = (if sint MAD_F_ONE \<le> sint f then MAD_F_ONE - 1
               else if sint f < - sint MAD_F_ONE then - MAD_F_ONE else f) in
      signed_drop_bit (MAD_F_FRACBITS + 1 - 16) f)"

definition to_char :: "32 word \<Rightarrow> int" where
  "to_char w = uint (take_bit 8 w)"

text \<open>One frame: pairs of samples for the two channels; with one channel the second is not looked at.\<close>

datatype mad_result =
    Decoded nat "(32 word \<times> 32 word) list"
  | Buffer_Exhausted
  | Recoverable_Error
  | Unrecoverable_Error

definition mp3_bytes :: "32 word \<Rightarrow> int list" where
  "mp3_bytes f = (let sample = mad_to_16bit f in [to_char sample, to_char (drop_bit 8 sample)])"

definition mp3_decode_frame :: "mad_result \<Rightarrow> int \<Rightarrow> frame_data" where
  "mp3_decode_frame r position =
     (case r of
        Decoded channels samples \<Rightarrow>
          \<lparr>fd_pcm_data = concat (map (\<lambda>(l, r). mp3_bytes l @ (if channels > 1 then mp3_bytes r else [])) samples),
           fd_pcm_size = int (length samples) * 2 * int channels, fd_position = position\<rparr>
      | Buffer_Exhausted \<Rightarrow> \<lparr>fd_pcm_data = [], fd_pcm_size = 0, fd_position = position\<rparr>
      | Recoverable_Error \<Rightarrow> \<lparr>fd_pcm_data = [], fd_pcm_size = - 1, fd_position = position\<rparr>
      | Unrecoverable_Error \<Rightarrow> \<lparr>fd_pcm_data = [], fd_pcm_size = - 2, fd_position = position\<rparr>)"

text \<open>
  FLAC: the state behind the decoder, the callback that stores a block (a list of
  samples, each with one number per channel) and the frame.  The low byte is
  \<open>sample && 0xFF\<close>.  A frame that is numbered by frames is an error.
\<close>

record flac_data =
  fl_buffer :: "int list"
  fl_channels :: int
  fl_sample_rate :: int
  fl_position :: int

definition flac_bytes :: "32 word \<Rightarrow> int list" where
  "flac_bytes sample = [if sample \<noteq> 0 then 1 else 0, to_char (signed_drop_bit 8 sample)]"

definition flac_write :: "int option \<Rightarrow> 32 word list list \<Rightarrow> flac_data \<Rightarrow> flac_data result" where
  "flac_write sample_number block d =
     (case sample_number of
        None \<Rightarrow> Inl Squash_Error
      | Some n \<Rightarrow>
        Inr (d\<lparr>fl_position := n * 1000 mod 2 ^ 64 div fl_sample_rate d,
               fl_buffer := concat (map (\<lambda>s. concat (map flac_bytes s)) block)\<rparr>))"

datatype flac_state = FLAC_OK | FLAC_END_OF_FILE | FLAC_ERROR

definition flac_decode_frame ::
  "(int option \<times> 32 word list list) option \<Rightarrow> flac_state \<Rightarrow> flac_data \<Rightarrow> (frame_data \<times> flac_data) result" where
  "flac_decode_frame block state d =
     and_then (case block of None \<Rightarrow> Inr d | Some (n, b) \<Rightarrow> flac_write n b d) (\<lambda>d.
     case state of
       FLAC_OK \<Rightarrow>
         Inr (\<lparr>fd_pcm_data = fl_buffer d, fd_pcm_size = int (length (fl_buffer d)), fd_position = fl_position d\<rparr>, d)
     | FLAC_END_OF_FILE \<Rightarrow> Inr (\<lparr>fd_pcm_data = [], fd_pcm_size = 0, fd_position = fl_position d\<rparr>, d)
     | FLAC_ERROR \<Rightarrow> Inl Squash_Error)"

section \<open>Seeking\<close>

text \<open>
  Where \<open>mp3_seek()\<close> lets the stream begin, as an index into the file; \<open>None\<close>: it returns
  at once.  The quotient is computed in \<open>double\<close> and cut to an integer.
\<close>

definition mp3_seek :: "int \<Rightarrow> int \<Rightarrow> int \<Rightarrow> int option" where
  "mp3_seek file_size seek_time duration =
     (if duration \<le> 0 \<and> seek_time \<noteq> 0 then None
      else if seek_time = 0 then Some 0
      else (let q = to_double (to_double (of_int (file_size * seek_time)) / of_int duration) in
            Some (if q < 0 then - \<lfloor>- q\<rfloor> else \<lfloor>q\<rfloor>)))"

text \<open>The sample \<open>flac_seek()\<close> goes to.\<close>

definition flac_seek :: "int \<Rightarrow> flac_data \<Rightarrow> int" where
  "flac_seek seek_time d = seek_time * (fl_sample_rate d div 1000)"

section \<open>Tags\<close>

declare id3_values.simps [simp del]

lemma map_filter_split:
  assumes "\<forall>(k, v) \<in> set ps. CHR ''='' \<notin> set k \<and> NUL \<notin> set k \<and> NUL \<notin> set v"
  shows "comment_tags (map (\<lambda>(k, v). k @ CHR ''='' # v) ps) = ps"
  using assms
proof (induction ps)
  case Nil
  then show ?case by (simp add: comment_tags_def)
next
  case (Cons p ps)
  obtain k v where p: "p = (k, v)" by (cases p)
  have kv: "\<forall>c \<in> set k. c \<noteq> CHR ''=''" "NUL \<notin> set (k @ CHR ''='' # v)" using Cons.prems p by auto
  have "split_comment (k @ CHR ''='' # v) = Some (k, v)"
    using kv by (simp add: split_comment_def c_str_id)
  with p Cons show ?case by (simp add: comment_tags_def List.map_filter_def)
qed

text \<open>Lines without line ends, joined with a line end behind each but the last.\<close>

fun join_lines :: "string list \<Rightarrow> string" where
  "join_lines [] = []"
| "join_lines [l] = l"
| "join_lines (l # m # ls) = l @ LF # join_lines (m # ls)"

definition plain_line :: "string \<Rightarrow> bool" where
  "plain_line l \<longleftrightarrow> l \<noteq> [] \<and> (\<forall>c \<in> set l. \<not> line_end c \<and> c \<noteq> NUL)"

lemma id3_values_last: "plain_line l \<Longrightarrow> id3_values l = [l]"
proof -
  assume "plain_line l"
  then have t: "takeWhile (\<lambda>c. \<not> line_end c \<and> c \<noteq> NUL) l = l"
    unfolding plain_line_def by (intro takeWhile_eq_all_conv [THEN iffD2]) blast
  have d: "drop (length l) l = []" by simp
  show ?thesis unfolding id3_values.simps [of l] Let_def t d by simp
qed

lemma id3_values_more:
  assumes l: "plain_line l" and rest: "rest \<noteq> []" "\<not> line_end (hd rest)"
  shows "id3_values (l @ LF # rest) = l # id3_values rest"
proof -
  have t: "takeWhile (\<lambda>c. \<not> line_end c \<and> c \<noteq> NUL) (l @ LF # rest) = l"
    using l by (subst takeWhile_append2) (auto simp: plain_line_def line_end_def)
  have d: "drop (length l) (l @ LF # rest) = LF # rest" by simp
  have w: "dropWhile line_end (LF # rest) = rest" using rest by (cases rest) (simp_all add: line_end_def)
  show ?thesis
    unfolding id3_values.simps [of "l @ LF # rest"] Let_def t d w by (simp add: rest)
qed

lemma join_lines_start: "ls \<noteq> [] \<Longrightarrow> plain_line (hd ls) \<Longrightarrow> join_lines ls \<noteq> [] \<and> \<not> line_end (hd (join_lines ls))"
  by (cases ls rule: join_lines.cases) (auto simp: plain_line_def)

lemma id3_values_join:
  assumes "ls \<noteq> []" and "\<forall>l \<in> set ls. plain_line l"
  shows "id3_values (join_lines ls) = ls"
  using assms
proof (induction ls rule: join_lines.induct)
  case (2 l)
  then show ?case using id3_values_last by simp
next
  case (3 l m ls)
  then show ?case using id3_values_more [of l "join_lines (m # ls)"] join_lines_start [of "m # ls"] by simp
qed simp

text \<open>The values a song gets from tags, under every spelling of their key.\<close>

lemma tags_stored:
  assumes "song_meta_ok song"
  shows "\<exists>song'. fold_result (\<lambda>(k, v). insert_meta_data None (Some k) (Some v)) ts song = Inr song' \<and> song_meta_ok song' \<and>
    (\<forall>k'. meta_values song' k' = meta_values song k' @ pairs_under k' (map (\<lambda>(k, v). (k, Some v)) ts))"
  using assms
proof (induction ts arbitrary: song)
  case Nil
  then show ?case by simp
next
  case (Cons t ts)
  obtain k v where t: "t = (k, v)" by (cases t)
  obtain s1 where s1: "insert_meta_data None (Some k) (Some v) song = Inr s1" "song_meta_ok s1"
      "\<forall>k'. meta_values s1 k' = meta_values song k' @ (if strcasecmp0 k k' then [Some v] else [])"
    using meta.ins_ok [OF Cons.prems, of None k "Some v"] by blast
  from Cons.IH [OF s1(2)] s1(1,3) show ?case by (auto simp: t)
qed

definition id3_frames :: "(id3_frame_id \<times> string list) list \<Rightarrow> (id3_frame_id \<times> string) list" where
  "id3_frames fs = map (\<lambda>(fid, ls). (fid, join_lines ls)) fs"

definition frame_pairs :: "(id3_frame_id \<times> string list) list \<Rightarrow> (string \<times> string) list" where
  "frame_pairs fs =
     concat (map (\<lambda>(fid, ls). case map_of fid_to_db fid of None \<Rightarrow> [] | Some key \<Rightarrow> map (\<lambda>v. (key, v)) ls) fs)"

lemma id3_tags_frames:
  assumes "\<forall>(fid, ls) \<in> set fs. ls \<noteq> [] \<and> (\<forall>l \<in> set ls. plain_line l)"
  shows "id3_tags (id3_frames fs) = frame_pairs fs"
  using assms unfolding id3_tags_def id3_frames_def frame_pairs_def
  by (induction fs) (auto simp: id3_values_join split: option.splits)

text \<open>C16. The tags of a song file become its meta data: of an Ogg or FLAC file every comment \<open>key=value\<close>, of an
  MP3 file every line of every ID3 frame that has a name in the database; the values are
  appended, in order, under every spelling of their key.\<close>
theorem tags_reach_song:
  assumes "song_meta_ok song" and "\<not> NO_VORBIS_COMMENT b" and "\<not> NO_ID3LIB b"
    and "\<forall>(k, v) \<in> set ps. CHR ''='' \<notin> set k \<and> NUL \<notin> set k \<and> NUL \<notin> set v"
    and "\<forall>(fid, ls) \<in> set fs. ls \<noteq> [] \<and> (\<forall>l \<in> set ls. plain_line l)"
    and "comments name = map (\<lambda>(k, v). k @ CHR ''='' # v) ps" and "frames name = id3_frames fs"
    and "type \<noteq> TYPE_UNKNOWN"
  shows "\<exists>song'. load_tags b (decoder_tags comments frames) type name song = Inr song' \<and> song_meta_ok song' \<and>
    (\<forall>k. meta_values song' k = meta_values song k @
       pairs_under k (map (\<lambda>(k, v). (k, Some v)) (if type = TYPE_MP3 then frame_pairs fs else ps)))"
proof -
  have "decoder_tags comments frames type name = (if type = TYPE_MP3 then frame_pairs fs else ps)"
    using map_filter_split [OF assms(4)] id3_tags_frames [OF assms(5)] assms(6-8)
    by (cases type) (simp_all add: decoder_tags_def)
  then show ?thesis using tags_stored [OF assms(1)] assms(2,3) by (simp add: load_tags_def)
qed

definition ex_untagged :: song_info where
  "ex_untagged = (new_song ex_config ''a.mp3'')\<lparr>meta_key_count := 0\<rparr>"

definition ex_frames :: "(id3_frame_id \<times> string list) list" where
  "ex_frames = [(ID3FID_LEADARTIST, [''A'', ''B'']), (Other_Frame 7, [''x'']), (ID3FID_TITLE, [''T''])]"

lemma ex_frames_test:
  "frame_pairs ex_frames = [(''artist'', ''A''), (''artist'', ''B''), (''title'', ''T'')]"
  by code_simp

theorem tags_reach_song_witness:
  "\<exists>song. load_tags ex_build (decoder_tags (\<lambda>_. []) (\<lambda>_. id3_frames ex_frames)) TYPE_MP3 ''/m/a.mp3''
      ex_untagged = Inr song \<and>
     meta_values song ''Artist'' = [Some ''A'', Some ''B'']"
proof -
  have plain: "\<forall>(fid, ls) \<in> set ex_frames. ls \<noteq> [] \<and> (\<forall>l \<in> set ls. plain_line l)"
    by (simp add: ex_frames_def plain_line_def line_end_def)
  obtain song where "load_tags ex_build (decoder_tags (\<lambda>_. []) (\<lambda>_. id3_frames ex_frames)) TYPE_MP3 ''/m/a.mp3''
        ex_untagged = Inr song"
      "meta_values song ''Artist'' = meta_values ex_untagged ''Artist'' @
         pairs_under ''Artist'' (map (\<lambda>(k, v). (k, Some v)) (frame_pairs ex_frames))"
    using tags_reach_song [of ex_untagged ex_build "[]" ex_frames "\<lambda>_. []" "''/m/a.mp3''"
        "\<lambda>_. id3_frames ex_frames" TYPE_MP3] plain
    by (auto simp: ex_untagged_def new_song_def song_meta_ok_def ex_build_def)
  moreover have "meta_values ex_untagged ''Artist'' = []" by code_simp
  moreover have "pairs_under ''Artist'' (map (\<lambda>(k, v). (k, Some v))
      [(''artist'', ''A''), (''artist'', ''B''), (''title'', ''T'')]) = [Some ''A'', Some ''B'']"
    by code_simp
  ultimately show ?thesis by (auto simp: ex_frames_test)
qed

section \<open>What a reader of the samples sees\<close>

lemma low_bits: "n \<le> 32 \<Longrightarrow> take_bit n (uint w) = take_bit n (sint w)" for w :: "32 word"
  unfolding uint_sint by (simp add: min_def)

lemma to_char_sint: "to_char w = sint w mod 256"
proof -
  have "uint (take_bit 8 w) = take_bit 8 (uint w)" by (rule unsigned_take_bit_eq)
  also have "\<dots> = take_bit 8 (sint w)" by (rule low_bits) simp
  finally show ?thesis by (simp add: to_char_def take_bit_eq_mod)
qed

lemma uint_drop_bit_low: "uint (drop_bit n w) = drop_bit n (uint w)" for w :: "32 word"
proof -
  have "take_bit 32 (uint w) = uint w" using uint_bounded [of w] by (simp add: take_bit_int_eq_self)
  then show ?thesis by (simp add: unsigned_drop_bit_eq)
qed

lemma to_char_high: "to_char (drop_bit 8 w) = sint w div 256 mod 256"
proof -
  have "uint (take_bit 8 (drop_bit 8 w)) = take_bit 8 (uint (drop_bit 8 w))" by (rule unsigned_take_bit_eq)
  also have "uint (drop_bit 8 w) = drop_bit 8 (uint w)" by (rule uint_drop_bit_low)
  also have "take_bit 8 (drop_bit 8 (uint w)) = drop_bit 8 (take_bit 16 (uint w))"
    by (simp add: take_bit_drop_bit)
  also have "take_bit 16 (uint w) = take_bit 16 (sint w)" by (rule low_bits) simp
  also have "drop_bit 8 (take_bit 16 (sint w)) = take_bit 8 (drop_bit 8 (sint w))"
    by (simp add: take_bit_drop_bit)
  finally show ?thesis by (simp add: to_char_def take_bit_eq_mod drop_bit_eq_div)
qed

text \<open>Two bytes as a number of 16 bits with sign.\<close>

definition short_of :: "int \<Rightarrow> int \<Rightarrow> int" where
  "short_of lo hi = (let u = lo mod 256 + 256 * (hi mod 256) in if u \<ge> 32768 then u - 65536 else u)"

lemma short_of_split:
  assumes "- 32768 \<le> z" and "z < 32768"
  shows "short_of (z mod 256) (z div 256 mod 256) = z"
proof -
  have "z mod 65536 = 256 * (z div 256 mod 256) + z mod 256"
    using zmod_zmult2_eq [of 256 z 256] by simp
  then have u: "z mod 256 mod 256 + 256 * (z div 256 mod 256 mod 256) = z mod 65536" by simp
  have "z mod 65536 = (if z < 0 then z + 65536 else z)"
    using assms mod_pos_pos_trivial [of z 65536] mod_pos_pos_trivial [of "z + 65536" 65536] by auto
  then show ?thesis using assms unfolding short_of_def Let_def u by auto
qed

lemma short_at_concat:
  assumes "k < length xs" and two: "\<And>x. two x = [lo x, hi x]"
  shows "short_at (concat (map two xs)) (int k) = Inr (short_of (lo (xs ! k)) (hi (xs ! k)))"
proof -
  have bytes: "concat (map two xs) ! (2 * j) = lo (xs ! j) \<and> concat (map two xs) ! (2 * j + 1) = hi (xs ! j)"
    if "j < length xs" for j
    using that
  proof (induction xs arbitrary: j)
    case (Cons x xs)
    then show ?case by (cases j) (auto simp: two)
  qed simp
  have len: "length (concat (map two xs)) = 2 * length xs" by (induction xs) (simp_all add: two)
  have "read_at (concat (map two xs)) (2 * int k) = Inr (lo (xs ! k))"
    and "read_at (concat (map two xs)) (2 * int k + 1) = Inr (hi (xs ! k))"
    using bytes [OF assms(1)] len assms(1) by (auto simp: read_at_def nat_add_distrib nat_mult_distrib)
  then show ?thesis by (simp add: short_at_def short_of_def)
qed

definition clip16 :: "int \<Rightarrow> int" where
  "clip16 z = max (- 32768) (min 32767 z)"

text \<open>Adding half a unit rounds to the nearest; there is no overflow for the numbers libmad gives.\<close>

lemma mad_to_16bit_sint:
  assumes "sint f + 4096 < 2 ^ 31"
  shows "sint (mad_to_16bit f) = clip16 ((sint f + 4096) div 8192)"
proof -
  have low: "- (2 ^ 31) \<le> sint f" using sint_ge [of f] by simp
  have half: "sint (4096 :: 32 word) = 4096" "sint MAD_F_ONE = 268435456"
    "sint (MAD_F_ONE - 1) = 268435455" "sint (- MAD_F_ONE) = - 268435456" by simp_all
  have f: "sint (f + 4096) = sint f + 4096"
    using low assms half(1) by (simp add: sint_word_ariths(1) signed_take_bit_int_eq_self)
  show ?thesis
    unfolding mad_to_16bit_def Let_def clip16_def
    using f half by (simp add: sint_signed_drop_bit_eq drop_bit_eq_div push_bit_eq_mult)
qed

definition interleave :: "nat \<Rightarrow> ('a \<times> 'a) list \<Rightarrow> 'a list" where
  "interleave channels samples = concat (map (\<lambda>(l, r). if channels > 1 then [l, r] else [l]) samples)"

lemma mp3_pcm: "fd_pcm_data (mp3_decode_frame (Decoded channels samples) position) = concat (map mp3_bytes (interleave channels samples))"
  unfolding mp3_decode_frame_def interleave_def by (induction samples) auto

text \<open>C35. Whoever reads the PCM data of an MP3 frame as 16 bit numbers, little endian, gets every sample of
  libmad, the channels in turn, rounded to 16 bits and clipped at the ends of the range.\<close>
theorem mp3_samples_exact:
  assumes "k < length (interleave channels samples)"
    and "sint (interleave channels samples ! k) + 4096 < 2 ^ 31"
  shows "short_at (fd_pcm_data (mp3_decode_frame (Decoded channels samples) position)) (int k) =
    Inr (clip16 ((sint (interleave channels samples ! k) + 4096) div 8192))"
proof -
  let ?w = "mad_to_16bit (interleave channels samples ! k)"
  have "short_at (concat (map mp3_bytes (interleave channels samples))) (int k) =
      Inr (short_of (to_char ?w) (to_char (drop_bit 8 ?w)))"
    by (rule short_at_concat [OF assms(1)]) (simp add: mp3_bytes_def Let_def)
  moreover have "- 32768 \<le> sint ?w" "sint ?w < 32768"
    using mad_to_16bit_sint [OF assms(2)] by (auto simp: clip16_def)
  ultimately show ?thesis
    unfolding mp3_pcm to_char_high unfolding to_char_sint mad_to_16bit_sint [OF assms(2), symmetric]
    by (simp add: short_of_split)
qed

theorem mp3_samples_exact_witness:
  "short_at (fd_pcm_data (mp3_decode_frame (Decoded 2 [(5000, 0x20000000), (0, - 12288)]) 0)) 1 = Inr 32767"
  using mp3_samples_exact [of 1 2 "[(5000, 0x20000000), (0, - 12288)]" 0] by (simp add: interleave_def clip16_def)

lemma concat_map_concat: "concat (map (\<lambda>s. concat (map f s)) xs) = concat (map f (concat xs))"
  by (induction xs) simp_all

text \<open>Of a FLAC sample only the high byte and whether it is zero reach the PCM data: the low byte is
  \<open>sample && 0xFF\<close>, so that a sample comes out up to 255 too small.\<close>
theorem flac_loses_low_byte:
  assumes "flac_decode_frame (Some (Some n, block)) FLAC_OK d = Inr (f, d')"
    and "k < length (concat block)" and "- 32768 \<le> sint (concat block ! k)" and "sint (concat block ! k) < 32768"
  shows "short_at (fd_pcm_data f) (int k) =
    Inr (256 * (sint (concat block ! k) div 256) + (if concat block ! k \<noteq> 0 then 1 else 0))"
proof -
  let ?w = "concat block ! k" and ?hi = "sint (concat block ! k) div 256"
  have "fd_pcm_data f = concat (map flac_bytes (concat block))"
    using assms(1) by (auto simp: flac_decode_frame_def flac_write_def concat_map_concat)
  then have "short_at (fd_pcm_data f) (int k) =
      Inr (short_of (if ?w \<noteq> 0 then 1 else 0) (to_char (signed_drop_bit 8 ?w)))"
    using short_at_concat [OF assms(2), where lo = "\<lambda>s. if s \<noteq> 0 then 1 else 0"] by (simp add: flac_bytes_def)
  also have "to_char (signed_drop_bit 8 ?w) = ?hi mod 256"
    by (simp add: to_char_sint sint_signed_drop_bit_eq drop_bit_eq_div)
  also have "short_of lo (?hi mod 256) = 256 * ?hi + lo" if "lo = 0 \<or> lo = 1" for lo
  proof -
    have z: "(256 * ?hi + lo) mod 256 = lo" "(256 * ?hi + lo) div 256 = ?hi" using that by auto
    have "- 128 \<le> ?hi" "?hi < 128" using assms(3,4) by auto
    then show ?thesis using short_of_split [of "256 * ?hi + lo"] that unfolding z by auto
  qed
  finally show ?thesis by simp
qed

definition ex_flac :: flac_data where
  "ex_flac = \<lparr>fl_buffer = [], fl_channels = 1, fl_sample_rate = 44100, fl_position = 0\<rparr>"

theorem flac_loses_low_byte_witness:
  "\<exists>f d. flac_decode_frame (Some (Some 0, [[0x12FF]])) FLAC_OK ex_flac = Inr (f, d) \<and>
     short_at (fd_pcm_data f) 0 = Inr 0x1201"
proof -
  obtain f d where "flac_decode_frame (Some (Some 0, [[0x12FF]])) FLAC_OK ex_flac = Inr (f, d)"
    by (simp add: flac_decode_frame_def flac_write_def)
  with flac_loses_low_byte [OF this, of 0] show ?thesis by simp
qed

section \<open>Where a seek goes\<close>

lemma to_double_error:
  assumes "two_to (- 40) \<le> \<bar>x\<bar>"
  shows "\<bar>to_double x - x\<bar> \<le> \<bar>x\<bar> / 9007199254740992"
  using round_to_error [of x 53] assms by (simp add: to_double_def two_to_def)

lemma near_nonneg: "\<bar>q - b\<bar> \<le> b / 9007199254740992 \<Longrightarrow> 0 < b \<Longrightarrow> 0 \<le> q" for q b :: rat
  unfolding abs_le_iff by simp

lemma near:
  fixes q b x :: rat
  assumes q: "\<bar>q - b\<bar> \<le> b / 9007199254740992"
    and b: "x * (1 - 1 / 9007199254740992) \<le> b" "b \<le> x * (1 + 1 / 9007199254740992)"
    and x: "0 < x" "x \<le> 2147483648"
  shows "\<bar>q - x\<bar> < 1 / 2"
proof -
  have "q \<le> b + b / 9007199254740992" "b - b / 9007199254740992 \<le> q"
    using q unfolding abs_le_iff by simp_all
  with b x show ?thesis unfolding abs_less_iff by (simp add: algebra_simps)
qed

lemma double_quotient:
  fixes n d :: int
  assumes n: "1 \<le> n" "n \<le> d * 2147483648" and d: "0 < d" "d < 2 ^ 39"
  shows "0 \<le> to_double (to_double (of_int n) / of_int d)"
    and "\<bar>to_double (to_double (of_int n) / of_int d) - of_int n / of_int d\<bar> < 1 / 2"
proof -
  let ?a = "to_double (of_int n)" and ?x = "rat_of_int n / of_int d"
  let ?b = "?a / of_int d"
  let ?q = "to_double ?b"
  have d': "0 < rat_of_int d" "rat_of_int d < 549755813888" using d by simp_all
  have n': "1 \<le> rat_of_int n" using n by simp
  have "\<bar>?a - of_int n\<bar> \<le> of_int n / 9007199254740992"
    using to_double_error [of "rat_of_int n"] n' by (simp add: two_to_def)
  then have a: "of_int n * (1 - 1 / 9007199254740992) \<le> ?a" "?a \<le> of_int n * (1 + 1 / 9007199254740992)"
    unfolding abs_le_iff by (simp_all add: field_simps)
  have q0: "?x * (1 - 1 / 9007199254740992) \<le> ?b" "?b \<le> ?x * (1 + 1 / 9007199254740992)"
    using divide_right_mono [OF a(1), of "of_int d"] divide_right_mono [OF a(2), of "of_int d"] d'
    by (simp_all add: mult.commute)
  have "1 / 549755813888 \<le> 1 / rat_of_int d" using d' by (intro divide_left_mono) simp_all
  also have "\<dots> \<le> ?x" using n' d' by (intro divide_right_mono) simp_all
  finally have x: "1 / 549755813888 \<le> ?x" .
  with q0(1) have q0_low: "two_to (- 40) \<le> ?b" by (simp add: two_to_def)
  then have "0 < ?b" using two_to_pos less_le_trans by blast
  then have abs_b: "\<bar>?b\<bar> = ?b" by (rule abs_of_pos)
  have q: "\<bar>?q - ?b\<bar> \<le> ?b / 9007199254740992"
    using to_double_error [of ?b] q0_low unfolding abs_b by blast
  show "0 \<le> ?q" by (rule near_nonneg [OF q \<open>0 < ?b\<close>])
  have "rat_of_int n \<le> rat_of_int (d * 2147483648)" using n(2) by (simp only: of_int_le_iff)
  then have "?x \<le> 2147483648" using d' by (simp add: field_simps)
  with x show "\<bar>?q - ?x\<bar> < 1 / 2" using n' d' by (intro near [OF q q0]) simp_all
qed

text \<open>A seek in an MP3 file goes to a byte of the file (or its end) when the time is within the
  song, in spite of the rounding of \<open>double\<close>; the position is off by less than two bytes.\<close>
theorem mp3_seek_inside:
  assumes "0 \<le> file_size" and "file_size < 2 ^ 31" and "0 \<le> seek_time" and "seek_time \<le> duration"
    and "0 < duration" and "duration < 2 ^ 39"
  shows "\<exists>p. mp3_seek file_size seek_time duration = Some p \<and> 0 \<le> p \<and> p \<le> file_size \<and>
    \<bar>p * duration - file_size * seek_time\<bar> < 2 * duration"
proof (cases "seek_time = 0 \<or> file_size = 0")
  case True
  have "to_double 0 = 0" by (simp add: to_double_def round_to_def)
  then show ?thesis using True assms by (auto simp: mp3_seek_def Let_def)
next
  case False
  let ?n = "file_size * seek_time"
  let ?q = "to_double (to_double (of_int ?n) / of_int duration)" and ?x = "rat_of_int ?n / of_int duration"
  have n: "1 \<le> ?n" using False assms by (simp add: int_one_le_iff_zero_less)
  have le: "?n \<le> file_size * duration" using assms by (intro mult_left_mono) simp_all
  also have "\<dots> \<le> 2147483648 * duration" using assms by (intro mult_right_mono) simp_all
  finally have "?n \<le> duration * 2147483648" by simp
  note q = double_quotient [OF n this assms(5,6)]
  have "rat_of_int ?n \<le> rat_of_int (file_size * duration)" using le by (simp only: of_int_le_iff)
  then have x: "?x \<le> of_int file_size" using assms(5) by (simp add: divide_le_eq)
  have p: "mp3_seek file_size seek_time duration = Some \<lfloor>?q\<rfloor>"
    using False assms q(1) by (simp add: mp3_seek_def Let_def)
  have "?q < of_int file_size + 1" using q(2) x by linarith
  then have "\<lfloor>?q\<rfloor> \<le> file_size" by linarith
  moreover have "0 \<le> \<lfloor>?q\<rfloor>" using q(1) by simp
  moreover have "\<bar>rat_of_int \<lfloor>?q\<rfloor> - ?x\<bar> < 2" using q(2) by linarith
  then have "\<bar>rat_of_int (\<lfloor>?q\<rfloor> * duration - ?n)\<bar> < rat_of_int (2 * duration)"
    using assms(5) by (simp add: abs_less_iff field_simps)
  then have "\<bar>\<lfloor>?q\<rfloor> * duration - ?n\<bar> < 2 * duration" by (simp only: of_int_abs [symmetric] of_int_less_iff)
  ultimately show ?thesis using p by blast
qed

theorem mp3_seek_inside_witness:
  "\<exists>p. mp3_seek 4000000 60000 180000 = Some p \<and> p \<le> 4000000 \<and> \<bar>p * 180000 - 240000000000\<bar> < 360000"
  using mp3_seek_inside [of 4000000 60000 180000] by auto

text \<open>A seek in a FLAC file multiplies the time with the whole thousands of the sample rate, so it goes
  to a sample that is too early by the rest of the rate for every second: at 44100 Hz
  by 100 samples of each 44100.\<close>
theorem flac_seek_falls_short:
  "seek_time * fl_sample_rate d - 1000 * flac_seek seek_time d = seek_time * (fl_sample_rate d mod 1000)"
proof -
  have "seek_time * fl_sample_rate d - 1000 * flac_seek seek_time d =
      seek_time * (fl_sample_rate d - 1000 * (fl_sample_rate d div 1000))"
    by (simp add: flac_seek_def algebra_simps)
  then show ?thesis by (simp add: minus_mult_div_eq_mod)
qed

end
