(* ===== verification/Vfdlib.thy ===== *)
theory Vfdlib
  imports Squash_Base "HOL-Library.Word"
begin

unbundle bit_operations_syntax

text \<open>
  The library for the display of the empeg (\<open>src/empeg/vfdlib.c\<close>): points, horizontal and
  vertical lines, and rectangles.  Bitmaps and text are in \<open>Vfd_Text\<close> and \<open>Vfd_Shades\<close>, lines at an
  angle, ellipses and polygons in \<open>Vfd_Lines\<close>, \<open>Vfd_Ellipses\<close> and \<open>Vfd_Polygons\<close>.  The screen is
  the 2048 bytes of the device, two pixels of four bits in a byte; an access outside of it is a fault.
\<close>

type_synonym byte = "8 word"

section \<open>Points\<close>

text \<open>The left pixel of a pair is in the lower half of the byte.\<close>

definition put_left :: "byte \<Rightarrow> byte \<Rightarrow> byte" where
  "put_left shade b = (b AND 0xF0) OR shade"

definition put_right :: "byte \<Rightarrow> byte \<Rightarrow> byte" where
  "put_right shade b = (b AND 0x0F) OR push_bit 4 shade"

definition modify_at :: "'a list \<Rightarrow> int \<Rightarrow> ('a \<Rightarrow> 'a) \<Rightarrow> 'a list result" where
  "modify_at xs i f = and_then (read_at xs i) (\<lambda>x. write_at xs i (f x))"

definition drawPointUnclipped :: "byte list \<Rightarrow> int \<Rightarrow> int \<Rightarrow> byte \<Rightarrow> byte list result" where
  "drawPointUnclipped buffer xPos yPos shade =
     (let byteOffset = yPos * 64 + xPos div 2 in
      if xPos mod 2 = 1 then modify_at buffer byteOffset (put_right shade)
      else modify_at buffer byteOffset (put_left shade))"

record clip_area =
  clipXLeft :: int
  clipYTop :: int
  clipXRight :: int
  clipYBottom :: int

definition full_clip_area :: clip_area where
  "full_clip_area = \<lparr>clipXLeft = 0, clipYTop = 0, clipXRight = 128, clipYBottom = 32\<rparr>"

definition setClipArea :: "int \<Rightarrow> int \<Rightarrow> int \<Rightarrow> int \<Rightarrow> clip_area \<Rightarrow> clip_area" where
  "setClipArea xLeft yTop xRight yBottom g =
     (if yTop > yBottom \<or> xLeft > xRight then g
      else \<lparr>clipXLeft = (if xLeft < 0 then 0 else xLeft), clipYTop = (if yTop < 0 then 0 else yTop),
            clipXRight = (if xRight > 128 then 128 else xRight), clipYBottom = (if yBottom > 32 then 32 else yBottom)\<rparr>)"

definition drawPointClipped :: "clip_area \<Rightarrow> byte list \<Rightarrow> int \<Rightarrow> int \<Rightarrow> byte \<Rightarrow> byte list result" where
  "drawPointClipped g buffer xPos yPos shade =
     (if xPos \<ge> clipXLeft g \<and> xPos < clipXRight g \<and> yPos \<ge> clipYTop g \<and> yPos < clipYBottom g
      then drawPointUnclipped buffer xPos yPos shade else Inr buffer)"

section \<open>Lines and rectangles\<close>

text \<open>The middle and the right end of a line: two pixels with one write.\<close>

fun line_bytes :: "byte list \<Rightarrow> int \<Rightarrow> nat \<Rightarrow> byte \<Rightarrow> byte list result" where
  "line_bytes buffer i 0 shade = Inr buffer"
| "line_bytes buffer i (Suc 0) shade = modify_at buffer i (put_left shade)"
| "line_bytes buffer i (Suc (Suc n)) shade =
     and_then (write_at buffer i (shade OR push_bit 4 shade)) (\<lambda>buffer. line_bytes buffer (i + 1) n shade)"

definition line_from :: "byte list \<Rightarrow> int \<Rightarrow> int \<Rightarrow> int \<Rightarrow> byte \<Rightarrow> byte list result" where
  "line_from buffer i xLeft len shade =
     (if xLeft mod 2 = 1
      then and_then (modify_at buffer i (put_right shade)) (\<lambda>buffer. line_bytes buffer (i + 1) (nat (len - 1)) shade)
      else line_bytes buffer i (nat len) shade)"

definition drawLineHorizUnclipped :: "byte list \<Rightarrow> int \<Rightarrow> int \<Rightarrow> int \<Rightarrow> byte \<Rightarrow> byte list result" where
  "drawLineHorizUnclipped buffer yPos xLeft len shade =
     (if len < 1 then Inr buffer else line_from buffer (yPos * 64 + xLeft div 2) xLeft len shade)"

definition drawLineHorizClipped :: "clip_area \<Rightarrow> byte list \<Rightarrow> int \<Rightarrow> int \<Rightarrow> int \<Rightarrow> byte \<Rightarrow> byte list result" where
  "drawLineHorizClipped g buffer yPos xLeft xRight shade =
     (if xLeft < xRight \<and> xRight \<ge> clipXLeft g \<and> xLeft < clipXRight g \<and> yPos \<ge> clipYTop g \<and> yPos < clipYBottom g
      then
        (let left = (if xLeft > clipXLeft g then xLeft else clipXLeft g) in
         drawLineHorizUnclipped buffer yPos left ((if xRight < clipXRight g then xRight else clipXRight g) - left) shade)
      else Inr buffer)"

fun line_down :: "nat \<Rightarrow> byte list \<Rightarrow> int \<Rightarrow> (byte \<Rightarrow> byte) \<Rightarrow> byte list result" where
  "line_down 0 buffer i put = Inr buffer"
| "line_down (Suc n) buffer i put = and_then (modify_at buffer i put) (\<lambda>buffer. line_down n buffer (i + 64) put)"

definition drawLineVertUnclipped :: "byte list \<Rightarrow> int \<Rightarrow> int \<Rightarrow> int \<Rightarrow> byte \<Rightarrow> byte list result" where
  "drawLineVertUnclipped buffer xPos yTop len shade =
     (if len < 1 then Inr buffer
      else line_down (nat len) buffer (yTop * 64 + xPos div 2) (if xPos mod 2 = 1 then put_right shade else put_left shade))"

definition drawLineVertClipped :: "clip_area \<Rightarrow> byte list \<Rightarrow> int \<Rightarrow> int \<Rightarrow> int \<Rightarrow> byte \<Rightarrow> byte list result" where
  "drawLineVertClipped g buffer xPos yTop yBottom shade =
     (if yTop < yBottom \<and> xPos \<ge> clipXLeft g \<and> xPos < clipXRight g \<and> yBottom \<ge> clipYTop g \<and> yTop < clipYBottom g
      then
        (let t = (if yTop > clipYTop g then yTop else clipYTop g) in
         drawLineVertUnclipped buffer xPos t ((if yBottom < clipYBottom g then yBottom else clipYBottom g) - t) shade)
      else Inr buffer)"

fun rectangle_lines :: "nat \<Rightarrow> byte list \<Rightarrow> int \<Rightarrow> int \<Rightarrow> int \<Rightarrow> byte \<Rightarrow> byte list result" where
  "rectangle_lines 0 buffer lineStart xLeft xWidth shade = Inr buffer"
| "rectangle_lines (Suc n) buffer lineStart xLeft xWidth shade =
     and_then (line_from buffer lineStart xLeft xWidth shade) (\<lambda>buffer.
       rectangle_lines n buffer (lineStart + 64) xLeft xWidth shade)"

definition drawSolidRectangleUnclipped :: "byte list \<Rightarrow> int \<Rightarrow> int \<Rightarrow> int \<Rightarrow> int \<Rightarrow> byte \<Rightarrow> byte list result" where
  "drawSolidRectangleUnclipped buffer xLeft yTop xWidth yHeight shade =
     rectangle_lines (nat yHeight) buffer (yTop * 64 + xLeft div 2) xLeft xWidth shade"

definition drawSolidRectangleClipped ::
  "clip_area \<Rightarrow> byte list \<Rightarrow> int \<Rightarrow> int \<Rightarrow> int \<Rightarrow> int \<Rightarrow> byte \<Rightarrow> byte list result" where
  "drawSolidRectangleClipped g buffer xLeft yTop xRight yBottom shade =
     (let xLeft = (if xLeft < clipXLeft g then clipXLeft g else xLeft);
          yTop = (if yTop < clipYTop g then clipYTop g else yTop);
          xRight = (if xRight > clipXRight g then clipXRight g else xRight);
          yBottom = (if yBottom > clipYBottom g then clipYBottom g else yBottom);
          width = xRight - xLeft;
          height = yBottom - yTop in
      if width < 1 \<or> height < 1 then Inr buffer
      else drawSolidRectangleUnclipped buffer xLeft yTop width height shade)"

definition drawOutlineRectangleClipped ::
  "clip_area \<Rightarrow> byte list \<Rightarrow> int \<Rightarrow> int \<Rightarrow> int \<Rightarrow> int \<Rightarrow> byte \<Rightarrow> byte list result" where
  "drawOutlineRectangleClipped g buffer xLeft yTop xRight yBottom shade =
     and_then (drawLineHorizClipped g buffer yTop xLeft xRight shade) (\<lambda>buffer.
     and_then (drawLineVertClipped g buffer xLeft yTop yBottom shade) (\<lambda>buffer.
     and_then (drawLineHorizClipped g buffer (yBottom - 1) xLeft xRight shade) (\<lambda>buffer.
       drawLineVertClipped g buffer (xRight - 1) yTop yBottom shade)))"

definition drawOutlineRectangleUnclipped :: "byte list \<Rightarrow> int \<Rightarrow> int \<Rightarrow> int \<Rightarrow> int \<Rightarrow> byte \<Rightarrow> byte list result" where
  "drawOutlineRectangleUnclipped buffer xLeft yTop xWidth yHeight shade =
     and_then (drawLineHorizUnclipped buffer yTop xLeft xWidth shade) (\<lambda>buffer.
     and_then (drawLineVertUnclipped buffer xLeft yTop yHeight shade) (\<lambda>buffer.
     and_then (drawLineHorizUnclipped buffer (yTop + yHeight - 1) xLeft xWidth shade) (\<lambda>buffer.
       drawLineVertUnclipped buffer (xLeft + xWidth - 1) yTop yHeight shade)))"

definition vfd_clear :: "clip_area \<Rightarrow> byte list \<Rightarrow> byte \<Rightarrow> byte list result" where
  "vfd_clear g buffer shade =
     drawSolidRectangleUnclipped buffer (clipXLeft g) (clipYTop g)
       (clipXRight g - clipXLeft g) (clipYBottom g - clipYTop g) shade"

section \<open>What is on the screen\<close>

definition pixel :: "byte list \<Rightarrow> int \<Rightarrow> int \<Rightarrow> byte" where
  "pixel buffer x y =
     (let b = buffer ! nat (y * 64 + x div 2) in if x mod 2 = 1 then drop_bit 4 b else b AND 0x0F)"

definition on_screen :: "int \<Rightarrow> int \<Rightarrow> bool" where
  "on_screen x y \<longleftrightarrow> 0 \<le> x \<and> x < 128 \<and> 0 \<le> y \<and> y < 32"

text \<open>One step further in groups of \<open>n\<close>.\<close>

lemma next_in_group:
  fixes k n :: int
  assumes "0 < n"
  shows "(k mod n = n - 1 \<and> (k + 1) div n = k div n + 1 \<and> (k + 1) mod n = 0) \<or>
    (k mod n < n - 1 \<and> (k + 1) div n = k div n \<and> (k + 1) mod n = k mod n + 1)"
proof -
  have m: "0 \<le> k mod n" "k mod n < n" using assms by simp_all
  have k: "k = n * (k div n) + k mod n" by simp
  show ?thesis
  proof (cases "k mod n = n - 1")
    case True
    then have "k + 1 = n * (k div n + 1) + 0" using k by (simp add: distrib_left)
    from int_div_pos_eq [OF this] int_mod_pos_eq [OF this] True assms show ?thesis by simp
  next
    case False
    have "k + 1 = n * (k div n) + (k mod n + 1)" using k by simp
    from int_div_pos_eq [OF this] int_mod_pos_eq [OF this] False m show ?thesis by simp
  qed
qed

text \<open>A change of the screen is described by the shades it gives.\<close>

definition paints :: "byte list \<Rightarrow> byte list \<Rightarrow> (int \<Rightarrow> int \<Rightarrow> byte option) \<Rightarrow> bool" where
  "paints buffer buffer' f \<longleftrightarrow>
     length buffer' = length buffer \<and>
     (\<forall>x y. on_screen x y \<longrightarrow> pixel buffer' x y = (case f x y of None \<Rightarrow> pixel buffer x y | Some s \<Rightarrow> s))"

definition in_clip :: "clip_area \<Rightarrow> int \<Rightarrow> int \<Rightarrow> bool" where
  "in_clip g x y \<longleftrightarrow> clipXLeft g \<le> x \<and> x < clipXRight g \<and> clipYTop g \<le> y \<and> y < clipYBottom g"

definition clip_ok :: "clip_area \<Rightarrow> bool" where
  "clip_ok g \<longleftrightarrow> 0 \<le> clipXLeft g \<and> 0 \<le> clipYTop g \<and> clipXRight g \<le> 128 \<and> clipYBottom g \<le> 32"

lemma clip_ok_simps: "clip_ok full_clip_area" "clip_ok g \<Longrightarrow> clip_ok (setClipArea a b c d g)"
  by (auto simp: clip_ok_def full_clip_area_def setClipArea_def)

lemma in_clip_on_screen: "clip_ok g \<Longrightarrow> in_clip g x y \<Longrightarrow> on_screen x y"
  by (auto simp: clip_ok_def in_clip_def on_screen_def)

lemma nybble_masks: "(0x0F :: byte) = mask 4" "(0xF0 :: byte) = push_bit 4 (mask 4)"
  by (simp_all add: mask_eq_exp_minus_1 push_bit_eq_mult)

text \<open>A shade has four bits.\<close>

definition shade_ok :: "byte \<Rightarrow> bool" where
  "shade_ok s \<longleftrightarrow> s AND 0x0F = s"

lemma shade_ok_bits: "shade_ok s \<longleftrightarrow> (\<forall>n. bit s n \<longrightarrow> n < 4)"
proof
  assume "shade_ok s"
  show "\<forall>n. bit s n \<longrightarrow> n < 4"
  proof (intro allI impI)
    fix n assume "bit s n"
    then have "bit (s AND 0x0F) n" using \<open>shade_ok s\<close> by (simp add: shade_ok_def)
    then show "n < 4" by (simp add: nybble_masks bit_simps)
  qed
next
  assume "\<forall>n. bit s n \<longrightarrow> n < 4"
  then show "shade_ok s"
    unfolding shade_ok_def nybble_masks by (intro bit_word_eqI) (auto simp: bit_simps)
qed

lemma bit_byte: "bit (b :: byte) n \<Longrightarrow> n < 8"
  by (drule bit_imp_le_length) simp

lemma nybbles:
  assumes "shade_ok s"
  shows "put_left s b AND 0x0F = s" and "drop_bit 4 (put_left s b) = drop_bit 4 b"
    and "put_right s b AND 0x0F = b AND 0x0F" and "drop_bit 4 (put_right s b) = s"
    and "put_right s (put_left s b) = s OR push_bit 4 s"
proof -
  note s = assms [unfolded shade_ok_bits]
  have s4: "\<not> bit s (4 + n)" for n using s by fastforce
  show "put_left s b AND 0x0F = s"
    unfolding put_left_def nybble_masks using s by (intro bit_word_eqI) (auto simp: bit_simps)
  show "drop_bit 4 (put_left s b) = drop_bit 4 b"
    unfolding put_left_def nybble_masks
    by (intro bit_word_eqI) (auto simp: bit_simps s4 dest: bit_byte)
  show "put_right s b AND 0x0F = b AND 0x0F"
    unfolding put_right_def nybble_masks by (intro bit_word_eqI) (auto simp: bit_simps)
  show "drop_bit 4 (put_right s b) = s"
    unfolding put_right_def nybble_masks using s by (intro bit_word_eqI) (auto simp: bit_simps)
  show "put_right s (put_left s b) = s OR push_bit 4 s"
    unfolding put_left_def put_right_def nybble_masks using s
    by (intro bit_word_eqI) (auto simp: bit_simps)
qed

section \<open>Lines are made of points\<close>

text \<open>The points of a line or rectangle, one after the other, left to right and top down.\<close>

definition draw_points :: "(int \<times> int) list \<Rightarrow> byte \<Rightarrow> byte list \<Rightarrow> byte list result" where
  "draw_points ps shade = fold_result (\<lambda>(x, y) buffer. drawPointUnclipped buffer x y shade) ps"

lemma and_then_Inr [simp]: "and_then m Inr = m"
  by (cases m) simp_all

lemma draw_points_simps [simp]:
  "draw_points [] shade = Inr"
  "draw_points (p # ps) shade buffer =
     and_then (drawPointUnclipped buffer (fst p) (snd p) shade) (draw_points ps shade)"
  "draw_points (ps @ qs) shade buffer = and_then (draw_points ps shade buffer) (draw_points qs shade)"
  by (simp_all add: draw_points_def case_prod_beta fun_eq_iff)

lemma modify_twice: "and_then (modify_at xs i f) (\<lambda>xs. modify_at xs i g) = modify_at xs i (\<lambda>x. g (f x))"
  by (auto simp: modify_at_def read_at_def write_at_def nat_less_iff)

lemma modify_constant: "modify_at xs i (\<lambda>_. c) = write_at xs i c"
  by (simp add: modify_at_def read_at_def write_at_def)

lemma two_points:
  assumes "shade_ok s" and "x mod 2 = 0"
  shows "and_then (drawPointUnclipped buffer x y s) (\<lambda>buffer. drawPointUnclipped buffer (x + 1) y s) =
    write_at buffer (y * 64 + x div 2) (s OR push_bit 4 s)"
proof -
  have "(x + 1) div 2 = x div 2" "(x + 1) mod 2 = 1" using assms(2) by presburger+
  then show ?thesis
    using assms(2) by (simp add: drawPointUnclipped_def modify_twice nybbles(5) [OF assms(1)] modify_constant)
qed

lemma upto_split2: "[x..x + int (Suc (Suc n)) - 1] = x # (x + 1) # [x + 2..x + 2 + int n - 1]"
  by (simp add: upto_rec1 add.commute add.left_commute)

lemma line_bytes_points:
  assumes "shade_ok s" and "x mod 2 = 0"
  shows "line_bytes buffer (y * 64 + x div 2) n s = draw_points (map (\<lambda>u. (u, y)) [x..x + int n - 1]) s buffer"
  using assms(2)
proof (induction n arbitrary: x buffer rule: induct_nat_012)
  case (ge2 n)
  have "(x + 2) mod 2 = 0" "y * 64 + (x + 2) div 2 = y * 64 + x div 2 + 1" using ge2.prems by presburger+
  with ge2.IH(1) have "line_bytes buffer (y * 64 + x div 2 + 1) n s =
      draw_points (map (\<lambda>u. (u, y)) [x + 2..x + 2 + int n - 1]) s buffer" for buffer
    by metis
  then have "line_bytes buffer (y * 64 + x div 2) (Suc (Suc n)) s =
      and_then (and_then (drawPointUnclipped buffer x y s) (\<lambda>buffer. drawPointUnclipped buffer (x + 1) y s))
        (draw_points (map (\<lambda>u. (u, y)) [x + 2..x + 2 + int n - 1]) s)"
    unfolding line_bytes.simps(3) two_points [OF assms(1) ge2.prems] by presburger
  then show ?case unfolding upto_split2 and_then_assoc list.map draw_points_simps fst_conv snd_conv .
qed (simp_all add: drawPointUnclipped_def)

lemma line_from_points:
  assumes "shade_ok s" and "1 \<le> len"
  shows "line_from buffer (y * 64 + x div 2) x len s = draw_points (map (\<lambda>u. (u, y)) [x..x + len - 1]) s buffer"
proof (cases "x mod 2 = 1")
  case True
  then have e: "(x + 1) mod 2 = 0" "y * 64 + (x + 1) div 2 = y * 64 + x div 2 + 1" by presburger+
  have bytes: "line_bytes b (y * 64 + x div 2 + 1) (nat (len - 1)) s =
      draw_points (map (\<lambda>u. (u, y)) [x + 1..x + len - 1]) s b" for b
    using line_bytes_points [OF assms(1) e(1), of b y "nat (len - 1)"] e(2) assms(2) by simp
  have "[x..x + len - 1] = x # [x + 1..x + len - 1]" using assms(2) by (simp add: upto_rec1)
  then show ?thesis using True by (simp add: line_from_def drawPointUnclipped_def bytes)
next
  case False
  then have "x mod 2 = 0" by presburger
  from line_bytes_points [OF assms(1) this, of _ y "nat len"] False assms(2) show ?thesis
    by (simp add: line_from_def)
qed

text \<open>A horizontal line, drawn two pixels at a time, is the line drawn point by point, wherever it is.\<close>

lemma horizontal_points:
  "shade_ok s \<Longrightarrow>
     drawLineHorizUnclipped buffer y x len s = draw_points (map (\<lambda>u. (u, y)) [x..x + len - 1]) s buffer"
  using line_from_points by (simp add: drawLineHorizUnclipped_def)

lemma line_down_points:
  "line_down n buffer (y * 64 + x div 2) (if x mod 2 = 1 then put_right s else put_left s) =
     draw_points (map (\<lambda>v. (x, v)) [y..y + int n - 1]) s buffer"
proof (induction n arbitrary: y buffer)
  case (Suc n)
  have e: "y * 64 + x div 2 + 64 = (y + 1) * 64 + x div 2" by simp
  have "[y..y + int (Suc n) - 1] = y # [y + 1..y + 1 + int n - 1]"
    by (subst upto_rec1) simp_all
  then show ?case
    using Suc.IH [of _ "y + 1"] unfolding line_down.simps e by (simp add: drawPointUnclipped_def)
qed simp

lemma vertical_points:
  "drawLineVertUnclipped buffer x y len s = draw_points (map (\<lambda>v. (x, v)) [y..y + len - 1]) s buffer"
  using line_down_points [of "nat len"] by (simp add: drawLineVertUnclipped_def)

lemma rectangle_points:
  assumes "shade_ok s" and "1 \<le> w"
  shows "rectangle_lines n buffer (y * 64 + x div 2) x w s =
    draw_points (concat (map (\<lambda>v. map (\<lambda>u. (u, v)) [x..x + w - 1]) [y..y + int n - 1])) s buffer"
proof (induction n arbitrary: y buffer)
  case (Suc n)
  have e: "y * 64 + x div 2 + 64 = (y + 1) * 64 + x div 2" by simp
  have "[y..y + int (Suc n) - 1] = y # [y + 1..y + 1 + int n - 1]"
    by (subst upto_rec1) simp_all
  then show ?case
    using Suc.IH [of _ "y + 1"] unfolding rectangle_lines.simps e by (simp add: line_from_points [OF assms])
qed simp

section \<open>What points do to the screen\<close>

lemma paints_none: "paints buffer buffer (\<lambda>x y. None)"
  by (simp add: paints_def)

lemma paints_cong: "paints a b f \<Longrightarrow> (\<And>x y. on_screen x y \<Longrightarrow> f x y = g x y) \<Longrightarrow> paints a b g"
  by (simp add: paints_def)

lemma paints_trans:
  assumes "paints a b f" and "paints b c g"
  shows "paints a c (\<lambda>x y. case g x y of None \<Rightarrow> f x y | Some s \<Rightarrow> Some s)"
  using assms by (auto simp: paints_def split: option.splits)

lemma same_byte:
  fixes x y u v :: int
  assumes "on_screen x y" and "on_screen u v"
  shows "nat (v * 64 + u div 2) = nat (y * 64 + x div 2) \<longleftrightarrow> v = y \<and> u div 2 = x div 2"
proof -
  have arith: "(q * 64 + a = p * 64 + b) = (q = p \<and> a = b)"
    if "0 \<le> a" "a < 64" "0 \<le> b" "b < 64" for a b p q :: int
  proof
    assume eq: "q * 64 + a = p * 64 + b"
    then have "(q * 64 + a) div 64 = (p * 64 + b) div 64" by simp
    then have "q = p" using that by simp
    then show "q = p \<and> a = b" using eq by simp
  qed simp
  have "0 \<le> x div 2" "x div 2 < 64" "0 \<le> u div 2" "u div 2 < 64" "0 \<le> y" "0 \<le> v"
    using assms by (auto simp: on_screen_def)
  then show ?thesis by (simp add: eq_nat_nat_iff arith)
qed

lemma point_paints:
  assumes "on_screen x y" and "length buffer = 2048" and "shade_ok s"
  shows "\<exists>buffer'. drawPointUnclipped buffer x y s = Inr buffer' \<and>
    paints buffer buffer' (\<lambda>u v. if u = x \<and> v = y then Some s else None)"
proof -
  let ?k = "y * 64 + x div 2"
  let ?put = "if x mod 2 = 1 then put_right s else put_left s"
  have k: "0 \<le> ?k" "?k < 2048" using assms(1) by (auto simp: on_screen_def)
  then have r: "drawPointUnclipped buffer x y s = Inr (buffer[nat ?k := ?put (buffer ! nat ?k)])"
    using assms(2) by (auto simp: drawPointUnclipped_def modify_at_def read_at_def write_at_def Let_def)
  have "pixel (buffer[nat ?k := ?put (buffer ! nat ?k)]) u v = (if u = x \<and> v = y then s else pixel buffer u v)"
    if uv: "on_screen u v" for u v
  proof (cases "v = y \<and> u div 2 = x div 2")
    case True
    then have at: "nat (v * 64 + u div 2) = nat ?k" using same_byte [OF assms(1) uv] by simp
    have here: "u = x \<longleftrightarrow> u mod 2 = x mod 2" using True by presburger
    have odd: "z mod 2 = 0 \<or> z mod 2 = 1" for z :: int by presburger
    have "nat ?k < length buffer" using k assms(2) by simp
    then show ?thesis
      using at here odd [of x] odd [of u] True by (auto simp: pixel_def Let_def nybbles [OF assms(3)])
  next
    case False
    then have "nat (v * 64 + u div 2) \<noteq> nat ?k" using same_byte [OF assms(1) uv] by simp
    then show ?thesis using False by (auto simp: pixel_def)
  qed
  then show ?thesis unfolding r paints_def by auto
qed

lemma points_paint:
  assumes "\<forall>(x, y) \<in> set ps. on_screen x y" and "length buffer = 2048" and "shade_ok s"
  shows "\<exists>buffer'. draw_points ps s buffer = Inr buffer' \<and>
    paints buffer buffer' (\<lambda>u v. if (u, v) \<in> set ps then Some s else None)"
  using assms(1,2)
proof (induction ps arbitrary: buffer)
  case (Cons p ps)
  obtain x y where p: "p = (x, y)" by (cases p)
  obtain b1 where b1: "drawPointUnclipped buffer x y s = Inr b1"
      "paints buffer b1 (\<lambda>u v. if u = x \<and> v = y then Some s else None)"
    using point_paints [OF _ Cons.prems(2) assms(3), of x y] Cons.prems(1) p by auto
  have "length b1 = 2048" using b1(2) Cons.prems(2) by (simp add: paints_def)
  with Cons.IH [of b1] Cons.prems(1) obtain b2 where b2: "draw_points ps s b1 = Inr b2"
      "paints b1 b2 (\<lambda>u v. if (u, v) \<in> set ps then Some s else None)" by auto
  from paints_trans [OF b1(2) b2(2)]
  have "paints buffer b2 (\<lambda>u v. if (u, v) \<in> set (p # ps) then Some s else None)"
    by (rule paints_cong) (auto simp: p)
  then show ?case using b1(1) b2(1) p by auto
qed (simp add: paints_none)

section \<open>Clipping\<close>

definition fills :: "clip_area \<Rightarrow> byte list \<Rightarrow> byte \<Rightarrow> (int \<Rightarrow> int \<Rightarrow> bool) \<Rightarrow> byte list result \<Rightarrow> bool" where
  "fills g buffer s inside r \<longleftrightarrow>
     (\<exists>buffer'. r = Inr buffer' \<and>
        paints buffer buffer' (\<lambda>x y. if in_clip g x y \<and> inside x y then Some s else None))"

lemma fills_points:
  assumes "clip_ok g" and "length buffer = 2048" and "shade_ok s"
    and "\<And>x y. (x, y) \<in> set ps \<longleftrightarrow> in_clip g x y \<and> inside x y"
  shows "fills g buffer s inside (draw_points ps s buffer)"
proof -
  have "\<forall>(x, y) \<in> set ps. on_screen x y" using assms(1,4) in_clip_on_screen by auto
  from points_paint [OF this assms(2,3)] show ?thesis unfolding fills_def assms(4) .
qed

lemma fills_nothing: "(\<And>x y. \<not> (in_clip g x y \<and> inside x y)) \<Longrightarrow> fills g buffer s inside (Inr buffer)"
  unfolding fills_def by (auto intro: paints_cong [OF paints_none])

lemma rectangle_set:
  "(u, v) \<in> set (concat (map (\<lambda>v. map (\<lambda>u. (u, v)) [a..b]) [c..d])) \<longleftrightarrow> a \<le> u \<and> u \<le> b \<and> c \<le> v \<and> v \<le> (d :: int)"
  by force

lemma point_fills:
  assumes "clip_ok g" and "length buffer = 2048" and "shade_ok s"
  shows "fills g buffer s (\<lambda>u v. u = x \<and> v = y) (drawPointClipped g buffer x y s)"
proof (cases "in_clip g x y")
  case True
  have "fills g buffer s (\<lambda>u v. u = x \<and> v = y) (draw_points [(x, y)] s buffer)"
    by (intro fills_points [OF assms]) (use True in auto)
  then show ?thesis using True by (simp add: drawPointClipped_def in_clip_def)
next
  case False
  then show ?thesis using fills_nothing by (auto simp: drawPointClipped_def in_clip_def)
qed

lemma horizontal_fills:
  assumes "clip_ok g" and "length buffer = 2048" and "shade_ok s"
  shows "fills g buffer s (\<lambda>u v. v = y \<and> xLeft \<le> u \<and> u < xRight) (drawLineHorizClipped g buffer y xLeft xRight s)"
proof (cases "xLeft < xRight \<and> xRight \<ge> clipXLeft g \<and> xLeft < clipXRight g \<and> y \<ge> clipYTop g \<and> y < clipYBottom g")
  case True
  then show ?thesis
    unfolding drawLineHorizClipped_def Let_def horizontal_points [OF assms(3)] if_P [OF True]
    by (intro fills_points [OF assms]) (auto simp: in_clip_def)
next
  case False
  then show ?thesis
    unfolding drawLineHorizClipped_def if_not_P [OF False] by (intro fills_nothing) (auto simp: in_clip_def)
qed

lemma vertical_fills:
  assumes "clip_ok g" and "length buffer = 2048" and "shade_ok s"
  shows "fills g buffer s (\<lambda>u v. u = x \<and> yTop \<le> v \<and> v < yBottom) (drawLineVertClipped g buffer x yTop yBottom s)"
proof (cases "yTop < yBottom \<and> x \<ge> clipXLeft g \<and> x < clipXRight g \<and> yBottom \<ge> clipYTop g \<and> yTop < clipYBottom g")
  case True
  then show ?thesis
    unfolding drawLineVertClipped_def Let_def vertical_points if_P [OF True]
    by (intro fills_points [OF assms]) (auto simp: in_clip_def)
next
  case False
  then show ?thesis
    unfolding drawLineVertClipped_def if_not_P [OF False] by (intro fills_nothing) (auto simp: in_clip_def)
qed

lemma rectangle_fills:
  assumes "clip_ok g" and "length buffer = 2048" and "shade_ok s"
  shows "fills g buffer s (\<lambda>u v. xLeft \<le> u \<and> u < xRight \<and> yTop \<le> v \<and> v < yBottom)
    (drawSolidRectangleClipped g buffer xLeft yTop xRight yBottom s)"
proof -
  let ?l = "max xLeft (clipXLeft g)" and ?t = "max yTop (clipYTop g)"
  let ?w = "min xRight (clipXRight g) - ?l" and ?h = "min yBottom (clipYBottom g) - ?t"
  have d: "drawSolidRectangleClipped g buffer xLeft yTop xRight yBottom s =
      (if ?w < 1 \<or> ?h < 1 then Inr buffer else drawSolidRectangleUnclipped buffer ?l ?t ?w ?h s)"
    by (simp add: drawSolidRectangleClipped_def Let_def max_def min_def not_le)
  show ?thesis
  proof (cases "?w < 1 \<or> ?h < 1")
    case True
    show ?thesis unfolding d if_P [OF True] by (intro fills_nothing) (use True in \<open>auto simp: in_clip_def\<close>)
  next
    case False
    then have w: "1 \<le> ?w" and h0: "0 \<le> ?h" by linarith+
    from h0 have h: "int (nat ?h) = ?h" by (rule nat_0_le)
    show ?thesis
      unfolding d if_not_P [OF False] drawSolidRectangleUnclipped_def rectangle_points [OF assms(3) w] h
      by (intro fills_points [OF assms], unfold rectangle_set) (auto simp: in_clip_def)
  qed
qed

text \<open>C25. Points, horizontal and vertical lines and rectangles that are drawn with clipping paint exactly their
  part of the clip area, for all coordinates, and no byte outside the screen is touched; two
  pixels to a byte and two pixels at a time make no difference.\<close>
theorem shapes_are_exact:
  assumes "clip_ok g" and "length buffer = 2048" and "shade_ok s"
  shows "fills g buffer s (\<lambda>u v. u = x0 \<and> v = y0) (drawPointClipped g buffer x0 y0 s) \<and>
    fills g buffer s (\<lambda>u v. v = y0 \<and> x0 \<le> u \<and> u < x1) (drawLineHorizClipped g buffer y0 x0 x1 s) \<and>
    fills g buffer s (\<lambda>u v. u = x0 \<and> y0 \<le> v \<and> v < y1) (drawLineVertClipped g buffer x0 y0 y1 s) \<and>
    fills g buffer s (\<lambda>u v. x0 \<le> u \<and> u < x1 \<and> y0 \<le> v \<and> v < y1) (drawSolidRectangleClipped g buffer x0 y0 x1 y1 s)"
  by (intro conjI point_fills horizontal_fills vertical_fills rectangle_fills assms)

theorem shapes_are_exact_witness:
  "fills full_clip_area (replicate 2048 0) 3 (\<lambda>u v. - 5 \<le> u \<and> u < 7 \<and> 30 \<le> v \<and> v < 40)
     (drawSolidRectangleClipped full_clip_area (replicate 2048 0) (- 5) 30 7 40 3)"
  using shapes_are_exact [OF clip_ok_simps(1), of "replicate 2048 0" 3 "- 5" 30 7 40] by (simp add: shade_ok_def)

text \<open>Clearing the screen: every pixel has the shade.\<close>

lemma clear_fills:
  assumes "clip_ok g" and "clipXLeft g < clipXRight g" and "length buffer = 2048" and "shade_ok s"
  shows "fills g buffer s (\<lambda>u v. True) (vfd_clear g buffer s)"
proof -
  have w: "1 \<le> clipXRight g - clipXLeft g" using assms(2) by simp
  show ?thesis
    unfolding vfd_clear_def drawSolidRectangleUnclipped_def rectangle_points [OF assms(4) w]
    by (intro fills_points [OF assms(1,3,4)], unfold rectangle_set) (auto simp: in_clip_def)
qed

text \<open>
  An empty rectangle at an odd column is not empty: the left end is drawn before the width
  is looked at.
\<close>

theorem empty_rectangle_draws:
  "drawSolidRectangleUnclipped (replicate 2048 0) 1 0 0 1 3 \<noteq> Inr (replicate 2048 0)"
proof -
  have "drawSolidRectangleUnclipped (replicate 2048 0) 1 0 0 1 3 = drawPointUnclipped (replicate 2048 0) 1 0 3"
    by (simp add: drawSolidRectangleUnclipped_def line_from_def drawPointUnclipped_def)
  moreover obtain b where "drawPointUnclipped (replicate 2048 0) 1 0 3 = Inr b" "pixel b 1 0 = 3"
    using point_paints [of 1 0 "replicate 2048 0" 3] by (auto simp: on_screen_def shade_ok_def paints_def)
  moreover have "pixel (replicate 2048 0) 1 0 = 0" by (simp add: pixel_def)
  ultimately show ?thesis by auto
qed

end
