(* ===== verification/Vfd_Text.thy ===== *)
theory Vfd_Text
  imports Vfdlib
begin

text \<open>
  Bitmaps and text on the display of the empeg (\<open>src/empeg/vfdlib.c\<close>), with its three fonts.
\<close>

section \<open>Bitmaps\<close>

text \<open>
  One bit per pixel.  A row: the byte \<open>i\<close> of the bitmap and the mask of its bit, the byte \<open>j\<close>
  of the screen and whether it is its right pixel.
\<close>

fun bits_row ::
  "nat \<Rightarrow> byte list \<Rightarrow> int \<Rightarrow> byte \<Rightarrow> byte list \<Rightarrow> int \<Rightarrow> bool \<Rightarrow> byte \<Rightarrow> bool \<Rightarrow> byte list result" where
  "bits_row 0 bitmap i bitmask buffer j right shade transparent = Inr buffer"
| "bits_row (Suc widthLeft) bitmap i bitmask buffer j right shade transparent =
     and_then (read_at bitmap i) (\<lambda>b.
     and_then
       (if b AND bitmask \<noteq> 0 then modify_at buffer j (if right then put_right shade else put_left shade)
        else if \<not> transparent then modify_at buffer j (\<lambda>b. b AND (if right then 0x0F else 0xF0))
        else Inr buffer) (\<lambda>buffer.
       bits_row widthLeft bitmap
         (if drop_bit 1 bitmask = 0 then i + 1 else i) (if drop_bit 1 bitmask = 0 then 0x80 else drop_bit 1 bitmask)
         buffer (if right then j + 1 else j) (\<not> right) shade transparent))"

fun bits_rows ::
  "nat \<Rightarrow> nat \<Rightarrow> byte list \<Rightarrow> int \<Rightarrow> int \<Rightarrow> byte \<Rightarrow> byte list \<Rightarrow> int \<Rightarrow> bool \<Rightarrow> byte \<Rightarrow> bool \<Rightarrow> byte list result" where
  "bits_rows 0 width bitmap i bitmapScanlineSkip startMask buffer j right shade transparent = Inr buffer"
| "bits_rows (Suc height) width bitmap i bitmapScanlineSkip startMask buffer j right shade transparent =
     and_then (bits_row width bitmap i startMask buffer j right shade transparent) (\<lambda>buffer.
       bits_rows height width bitmap (i + bitmapScanlineSkip) bitmapScanlineSkip startMask buffer (j + 64) right shade transparent)"

text \<open>The header of five bytes is at the start of the bitmap.\<close>

definition drawBitmap1BPP ::
  "byte list \<Rightarrow> byte list \<Rightarrow> int \<Rightarrow> int \<Rightarrow> int \<Rightarrow> int \<Rightarrow> int \<Rightarrow> int \<Rightarrow> int \<Rightarrow> int \<Rightarrow> bool \<Rightarrow> byte list result" where
  "drawBitmap1BPP buffer bitmap bitmapWidth destX destY sourceX sourceY width height shade transparent =
     (let bitmapScanlineSkip = (bitmapWidth - 1) div 8 + 1;
          shade = (if shade < 0 then 3 else word_of_int shade) in
      bits_rows (nat height) (nat width) bitmap (5 + (sourceY * bitmapScanlineSkip + sourceX div 8)) bitmapScanlineSkip
        (drop_bit (nat (sourceX mod 8)) 0x80) buffer (destY * 64 + destX div 2) (destX mod 2 = 1) shade transparent)"

text \<open>Two bits per pixel: the rest of the byte is kept, and the next one read when it is used up.\<close>

fun shades_row ::
  "nat \<Rightarrow> byte list \<Rightarrow> int \<Rightarrow> nat \<Rightarrow> byte \<Rightarrow> byte list \<Rightarrow> int \<Rightarrow> bool \<Rightarrow> int \<Rightarrow> bool \<Rightarrow> byte list result" where
  "shades_row 0 bitmap i bitmapShift currentBitmap buffer j right shade transparent = Inr buffer"
| "shades_row (Suc widthLeft) bitmap i bitmapShift currentBitmap buffer j right shade transparent =
     (let currentShade = currentBitmap AND 0x03 in
      and_then
        (if currentShade \<noteq> 0 \<or> \<not> transparent
         then modify_at buffer j ((if right then put_right else put_left) (if shade \<ge> 0 then word_of_int shade else currentShade))
         else Inr buffer) (\<lambda>buffer.
        if bitmapShift + 2 > 6
        then
          and_then (read_at bitmap (i + 1)) (\<lambda>currentBitmap.
            shades_row widthLeft bitmap (i + 1) 0 currentBitmap buffer (if right then j + 1 else j) (\<not> right) shade transparent)
        else
          shades_row widthLeft bitmap i (bitmapShift + 2) (drop_bit 2 currentBitmap) buffer
            (if right then j + 1 else j) (\<not> right) shade transparent))"

fun shades_rows ::
  "nat \<Rightarrow> nat \<Rightarrow> byte list \<Rightarrow> int \<Rightarrow> int \<Rightarrow> nat \<Rightarrow> byte list \<Rightarrow> int \<Rightarrow> bool \<Rightarrow> int \<Rightarrow> bool \<Rightarrow> byte list result" where
  "shades_rows 0 width bitmap i bitmapScanlineSkip startShift buffer j right shade transparent = Inr buffer"
| "shades_rows (Suc height) width bitmap i bitmapScanlineSkip startShift buffer j right shade transparent =
     and_then (read_at bitmap i) (\<lambda>b.
     and_then (shades_row width bitmap i startShift (drop_bit startShift b) buffer j right shade transparent) (\<lambda>buffer.
       shades_rows height width bitmap (i + bitmapScanlineSkip) bitmapScanlineSkip startShift buffer (j + 64) right shade transparent))"

definition drawBitmap2BPP ::
  "byte list \<Rightarrow> byte list \<Rightarrow> int \<Rightarrow> int \<Rightarrow> int \<Rightarrow> int \<Rightarrow> int \<Rightarrow> int \<Rightarrow> int \<Rightarrow> int \<Rightarrow> bool \<Rightarrow> byte list result" where
  "drawBitmap2BPP buffer bitmap bitmapWidth destX destY sourceX sourceY width height shade transparent =
     (let bitmapScanlineSkip = (bitmapWidth - 1) div 4 + 1 in
      shades_rows (nat height) (nat width) bitmap (5 + (sourceY * bitmapScanlineSkip + sourceX div 4)) bitmapScanlineSkip
        (nat (sourceX mod 4) * 2) buffer (destY * 64 + destX div 2) (destX mod 2 = 1) shade transparent)"

text \<open>Four bits per pixel, two of them for transparency.\<close>

fun nybbles_row ::
  "nat \<Rightarrow> byte list \<Rightarrow> int \<Rightarrow> bool \<Rightarrow> byte list \<Rightarrow> int \<Rightarrow> bool \<Rightarrow> int \<Rightarrow> bool \<Rightarrow> byte list result" where
  "nybbles_row 0 bitmap i sourceRight buffer j right shade transparent = Inr buffer"
| "nybbles_row (Suc widthLeft) bitmap i sourceRight buffer j right shade transparent =
     and_then (read_at bitmap i) (\<lambda>b.
       let currentShade = (if sourceRight then drop_bit 4 b AND 0x03 else b AND 0x03);
           currentTrans = (if sourceRight then b AND 0xC0 else b AND 0x0C);
           put = (if right then put_right else put_left) in
       and_then
         (if transparent
          then if currentTrans = 0 then modify_at buffer j (put (if shade \<ge> 0 then word_of_int shade else currentShade)) else Inr buffer
          else modify_at buffer j (put currentShade)) (\<lambda>buffer.
         nybbles_row widthLeft bitmap (if sourceRight then i + 1 else i) (\<not> sourceRight) buffer
           (if right then j + 1 else j) (\<not> right) shade transparent))"

fun nybbles_rows ::
  "nat \<Rightarrow> nat \<Rightarrow> byte list \<Rightarrow> int \<Rightarrow> int \<Rightarrow> bool \<Rightarrow> byte list \<Rightarrow> int \<Rightarrow> bool \<Rightarrow> int \<Rightarrow> bool \<Rightarrow> byte list result" where
  "nybbles_rows 0 width bitmap i bitmapScanlineSkip sourceRight buffer j right shade transparent = Inr buffer"
| "nybbles_rows (Suc height) width bitmap i bitmapScanlineSkip sourceRight buffer j right shade transparent =
     and_then (nybbles_row width bitmap i sourceRight buffer j right shade transparent) (\<lambda>buffer.
       nybbles_rows height width bitmap (i + bitmapScanlineSkip) bitmapScanlineSkip sourceRight buffer (j + 64) right shade transparent)"

definition drawBitmap4BPP ::
  "byte list \<Rightarrow> byte list \<Rightarrow> int \<Rightarrow> int \<Rightarrow> int \<Rightarrow> int \<Rightarrow> int \<Rightarrow> int \<Rightarrow> int \<Rightarrow> int \<Rightarrow> bool \<Rightarrow> byte list result" where
  "drawBitmap4BPP buffer bitmap bitmapWidth destX destY sourceX sourceY width height shade transparent =
     (let bitmapScanlineSkip = (bitmapWidth - 1) div 2 + 1 in
      nybbles_rows (nat height) (nat width) bitmap (5 + (sourceY * bitmapScanlineSkip + sourceX div 2)) bitmapScanlineSkip
        (sourceX mod 2 = 1) buffer (destY * 64 + destX div 2) (destX mod 2 = 1) shade transparent)"

definition header_size :: "byte list \<Rightarrow> int \<Rightarrow> int result" where
  "header_size bitmap i =
     and_then (read_at bitmap (i + 1)) (\<lambda>low. map_result (\<lambda>high. uint low + uint high * 256) (read_at bitmap i))"

text \<open>\<open>clip_span\<close>: the clipping of a bitmap in one direction, to its new place, source and length.\<close>

definition clip_span :: "int \<Rightarrow> int \<Rightarrow> int \<Rightarrow> int \<Rightarrow> int \<Rightarrow> int \<Rightarrow> int \<times> int \<times> int" where
  "clip_span low high bitmapSize dest source len =
     (let len = (if len < 1 then bitmapSize else len);
          (dest, source, len) =
            (if dest < low then (low, source + (low - dest), len - (low - dest)) else (dest, source, len));
          len = (if len > bitmapSize then bitmapSize else len);
          len = (if dest + len > high then high - dest else len) in
      (dest, source, len))"

definition drawBitmap ::
  "clip_area \<Rightarrow> byte list \<Rightarrow> byte list \<Rightarrow> int \<Rightarrow> int \<Rightarrow> int \<Rightarrow> int \<Rightarrow> int \<Rightarrow> int \<Rightarrow> int \<Rightarrow> bool \<Rightarrow> byte list result" where
  "drawBitmap g buffer bitmap destX destY sourceX sourceY width height shade transparent =
     and_then (header_size bitmap 1) (\<lambda>bitmapWidth.
     and_then (header_size bitmap 3) (\<lambda>bitmapHeight.
       let (destX, sourceX, width) = clip_span (clipXLeft g) (clipXRight g) bitmapWidth destX sourceX width;
           (destY, sourceY, height) = clip_span (clipYTop g) (clipYBottom g) bitmapHeight destY sourceY height in
       if width > 0 \<and> height > 0
       then
         and_then (read_at bitmap 0) (\<lambda>type.
           if type = 0 then drawBitmap1BPP buffer bitmap bitmapWidth destX destY sourceX sourceY width height shade transparent
           else if type = 1 then drawBitmap2BPP buffer bitmap bitmapWidth destX destY sourceX sourceY width height shade transparent
           else if type = 2 then drawBitmap4BPP buffer bitmap bitmapWidth destX destY sourceX sourceY width height shade transparent
           else Inr buffer)
       else Inr buffer))"

section \<open>Fonts\<close>

definition tinyFontBitmap :: "byte list" where
  "tinyFontBitmap =
  [0x00, 0x00, 0xB4, 0x00, 0x03, 0xF9, 0xEF, 0xF5, 0xFB, 0x6F, 0x7F, 0xB3, 0xF6, 0xD6, 0xDC, 0xB6, 0xD5,
   0xDA, 0xF6, 0x4E, 0xD5, 0x40, 0x35, 0xEE, 0xDC, 0xD1, 0x7C, 0x80, 0xFE, 0x5D, 0xAF, 0xAD, 0x56, 0xDE,
   0xB2, 0x56, 0xD5, 0x75, 0x52, 0x7D, 0x6F, 0xE0, 0x9D, 0x2E, 0xEE, 0x42, 0x17, 0x72, 0x68, 0xD7, 0x50,
   0xBD, 0xEF, 0x3D, 0xEB, 0xD6, 0xFB, 0xEE, 0x4D, 0x6E, 0xA6, 0xBB, 0xC6, 0x6F, 0x41, 0x28, 0xD5, 0x51,
   0x9D, 0xE4, 0xF9, 0xC6, 0x7C, 0x20]"

definition tinyFontInfo :: "(int \<times> int) list" where
  "tinyFontInfo =
  [(106, 1), (107, 3), (0, 0), (0, 0), (110, 5), (115, 3), (118, 1), (119, 2), (121, 2), (123, 5), (128, 3),
   (131, 2), (133, 2), (135, 1), (136, 3), (79, 3), (82, 3), (85, 3), (88, 3), (91, 3), (94, 3), (97, 2),
   (99, 2), (101, 3), (104, 2), (139, 1), (140, 2), (142, 2), (144, 2), (146, 2), (148, 3), (151, 4), (0, 3),
   (3, 3), (6, 3), (9, 3), (12, 3), (15, 3), (18, 3), (21, 3), (24, 1), (25, 3), (28, 3), (31, 2), (33, 5),
   (38, 3), (41, 3), (44, 2), (46, 4), (50, 3), (53, 3), (56, 3), (59, 3), (62, 3), (65, 5), (70, 3),
   (73, 3), (76, 3), (155, 2), (157, 3), (160, 2), (162, 3), (165, 2), (167, 1), (0, 3), (3, 3), (6, 3),
   (9, 3), (12, 3), (15, 3), (18, 3), (21, 3), (24, 1), (25, 3), (28, 3), (31, 2), (33, 5), (38, 3), (41, 3),
   (44, 2), (46, 4), (50, 3), (53, 3), (56, 3), (59, 3), (62, 3), (65, 5), (70, 3), (73, 3), (76, 3),
   (168, 3), (171, 1), (172, 3), (175, 5)]"

definition smallFontBitmap :: "byte list" where
  "smallFontBitmap =
  [0x00, 0x00, 0xFC, 0x00, 0x05, 0x59, 0xDE, 0xAF, 0xB7, 0xB2, 0xCB, 0x7E, 0xDA, 0xDB, 0x88, 0x10, 0x92,
   0xC8, 0x00, 0x00, 0x08, 0x00, 0x00, 0x3A, 0xBB, 0xBF, 0xFE, 0xA9, 0xC9, 0xD8, 0x00, 0x01, 0x27, 0x0C,
   0x60, 0xBE, 0x00, 0xBE, 0xBD, 0x3D, 0xD5, 0x6D, 0xB6, 0xCA, 0xDA, 0xAE, 0xBC, 0xBD, 0x78, 0xDB, 0xD9,
   0x7B, 0x7E, 0xDA, 0xDB, 0xAE, 0x7B, 0x43, 0xFC, 0x7F, 0x12, 0xA6, 0xA0, 0x3A, 0xD1, 0x6A, 0x28, 0xAA,
   0xD0, 0xF6, 0xB7, 0x6D, 0xB5, 0x6D, 0xD7, 0x2A, 0xAA, 0xD5, 0x5B, 0x5D, 0xF6, 0xEA, 0xB6, 0xFA, 0x4A,
   0xDA, 0xA6, 0xAA, 0x9E, 0xF5, 0x48, 0x7D, 0xA7, 0x25, 0x76, 0x44, 0x0A, 0xD9, 0x34, 0x49, 0xB0, 0xBD,
   0xDC, 0xEE, 0xBD, 0x6A, 0x8E, 0xE9, 0xAF, 0x55, 0xFC, 0xB7, 0x37, 0x56, 0xB5, 0x4E, 0xC5, 0xAF, 0x52,
   0xFF, 0xF3, 0x75, 0xF4, 0x2B, 0xCA, 0x26, 0xA9, 0x9A, 0xD0, 0xB8, 0xA0, 0x2A, 0x00, 0x00, 0x00, 0x00,
   0x00, 0x00, 0x00, 0x00, 0x00, 0x00, 0x00, 0x00, 0x40, 0x00, 0x00, 0x48, 0x00, 0x00, 0x0C, 0x00, 0x00,
   0x00, 0x00, 0x01, 0x00, 0x18, 0x08, 0x09, 0x22, 0x7C, 0x63, 0x3E, 0x00]"

definition smallFontInfo :: "(int \<times> int) list" where
  "smallFontInfo =
  [(173, 1), (174, 3), (177, 5), (182, 3), (185, 4), (189, 4), (193, 1), (194, 2), (196, 2), (198, 3),
   (201, 3), (204, 1), (205, 2), (207, 1), (208, 3), (146, 3), (149, 3), (152, 2), (154, 2), (156, 3),
   (159, 2), (161, 3), (164, 3), (167, 3), (170, 3), (211, 1), (212, 1), (213, 3), (216, 2), (218, 3),
   (221, 3), (224, 4), (0, 3), (3, 3), (6, 2), (8, 3), (11, 2), (13, 2), (15, 3), (18, 3), (21, 1), (22, 2),
   (24, 3), (27, 2), (29, 5), (34, 3), (37, 3), (40, 3), (43, 3), (46, 3), (49, 2), (51, 3), (54, 3),
   (57, 3), (60, 5), (65, 3), (68, 3), (71, 2), (228, 2), (230, 3), (233, 2), (235, 3), (238, 2), (240, 1),
   (73, 3), (76, 3), (79, 2), (81, 3), (84, 3), (87, 2), (89, 2), (91, 3), (94, 1), (95, 2), (97, 3),
   (100, 2), (102, 5), (107, 3), (110, 3), (113, 2), (115, 3), (118, 2), (120, 3), (123, 3), (126, 3),
   (129, 3), (132, 5), (137, 3), (140, 3), (143, 3), (241, 3), (244, 1), (245, 3), (248, 4)]"

definition mediumFontBitmap :: "byte list" where
  "mediumFontBitmap =
  [0x00, 0x01, 0x0A, 0x00, 0x06, 0x59, 0xDE, 0xAD, 0xB7, 0xB2, 0xCB, 0x7E, 0xDA, 0xDB, 0x88, 0x10, 0x89,
   0x64, 0x00, 0x00, 0x04, 0x00, 0x00, 0x12, 0xAB, 0xBD, 0x2D, 0x52, 0x04, 0x99, 0x50, 0x00, 0x04, 0x98,
   0xCC, 0x30, 0x13, 0xE0, 0x00, 0xB6, 0xB5, 0x2D, 0xB5, 0x6D, 0xB6, 0xCA, 0xDA, 0xDA, 0xBC, 0xB7, 0x3C,
   0x6D, 0xEC, 0xB3, 0x7F, 0x6D, 0x6D, 0xEE, 0x5B, 0x46, 0xDD, 0xFF, 0x9A, 0xA4, 0xE4, 0x01, 0xAB, 0x45,
   0x2A, 0x12, 0x0A, 0xA6, 0x80, 0xFA, 0xBF, 0x3D, 0xD5, 0x6D, 0xD7, 0x2A, 0xDA, 0xAF, 0x5B, 0x5B, 0xDB,
   0x75, 0x5B, 0x6D, 0x55, 0x6D, 0x55, 0x6A, 0x6E, 0xF9, 0x38, 0x56, 0x24, 0x43, 0xFE, 0x62, 0x10, 0x3A,
   0xD9, 0x15, 0x04, 0x9B, 0x00, 0xB6, 0xB5, 0x6D, 0xB5, 0x6D, 0x96, 0xAA, 0xDA, 0xD5, 0x5B, 0x5D, 0x7B,
   0x6D, 0x5B, 0x77, 0x4D, 0x55, 0x6B, 0xAA, 0x92, 0xDA, 0x90, 0xFB, 0x4A, 0x42, 0xE4, 0x04, 0x0B, 0x53,
   0x58, 0x98, 0x82, 0xA0, 0x00, 0xB9, 0xDC, 0xEE, 0xBD, 0x6A, 0x8E, 0xE9, 0xAF, 0x55, 0xFC, 0xB7, 0x1B,
   0x6B, 0x5A, 0xA1, 0xDA, 0xD7, 0xA9, 0xD7, 0xE3, 0x3B, 0xE8, 0x57, 0x9F, 0x25, 0x50, 0x98, 0xA4, 0x81,
   0xE8, 0x50, 0x03, 0xE0, 0x00, 0x00, 0x00, 0x00, 0x00, 0x00, 0x00, 0x00, 0x00, 0x00, 0x00, 0x00, 0x60,
   0x80, 0x00, 0x21, 0x00, 0x00, 0x06, 0x00, 0x00, 0x00, 0x00, 0x02, 0x00, 0x18, 0x01, 0x00, 0x40, 0x10,
   0xCC, 0x30, 0x60, 0x80, 0x00]"

definition mediumFontInfo :: "(int \<times> int) list" where
  "mediumFontInfo =
  [(172, 1), (173, 3), (176, 5), (181, 3), (184, 4), (188, 4), (192, 1), (193, 3), (196, 3), (199, 5),
   (204, 3), (207, 2), (209, 2), (211, 1), (212, 4), (146, 3), (149, 3), (152, 2), (154, 2), (156, 3),
   (159, 2), (161, 3), (164, 2), (166, 3), (169, 3), (216, 1), (217, 2), (219, 3), (222, 2), (224, 3),
   (227, 3), (230, 6), (0, 3), (3, 3), (6, 2), (8, 3), (11, 2), (13, 2), (15, 3), (18, 3), (21, 1), (22, 2),
   (24, 3), (27, 2), (29, 5), (34, 3), (37, 3), (40, 3), (43, 3), (46, 3), (49, 2), (51, 3), (54, 3),
   (57, 3), (60, 5), (65, 3), (68, 3), (71, 2), (236, 2), (238, 4), (242, 2), (244, 5), (249, 2), (251, 2),
   (73, 3), (76, 3), (79, 2), (81, 3), (84, 3), (87, 2), (89, 3), (92, 3), (95, 1), (96, 2), (98, 3),
   (101, 2), (103, 5), (108, 3), (111, 3), (114, 3), (117, 4), (121, 2), (123, 2), (125, 2), (127, 3),
   (130, 3), (133, 5), (138, 3), (141, 3), (144, 2), (253, 3), (256, 1), (257, 3), (260, 5)]"

definition getFontInfo :: "int \<Rightarrow> (int \<times> int) list \<times> byte list" where
  "getFontInfo font =
     (if font = 0 then (tinyFontInfo, tinyFontBitmap)
      else if font = 1 then (smallFontInfo, smallFontBitmap)
      else (mediumFontInfo, mediumFontBitmap))"

definition printable :: "char \<Rightarrow> bool" where
  "printable c \<longleftrightarrow> 33 \<le> (of_char c :: int) \<and> (of_char c :: int) \<le> 126"

section \<open>Text\<close>

fun drawText :: "clip_area \<Rightarrow> byte list \<Rightarrow> string \<Rightarrow> int \<Rightarrow> int \<Rightarrow> int \<Rightarrow> int \<Rightarrow> byte list result" where
  "drawText g buffer [] xLeft yTop font shade = Inr buffer"
| "drawText g buffer (c # cs) xLeft yTop font shade =
     (if xLeft < clipXRight g
      then
        if printable c
        then
          and_then (read_at (fst (getFontInfo font)) (of_char c - 33)) (\<lambda>(offset, width).
          and_then
            (if width > 0 then drawBitmap g buffer (snd (getFontInfo font)) xLeft yTop offset 0 width (- 1) shade True
             else Inr buffer) (\<lambda>buffer.
            drawText g buffer cs (xLeft + width + 1) yTop font shade))
        else drawText g buffer cs (xLeft + 1) yTop font shade
      else Inr buffer)"

definition getTextHeight :: "int \<Rightarrow> int result" where
  "getTextHeight font = header_size (snd (getFontInfo font)) 3"

definition char_width :: "int \<Rightarrow> char \<Rightarrow> int result" where
  "char_width font c =
     (if printable c then map_result (\<lambda>(offset, width). width + 1) (read_at (fst (getFontInfo font)) (of_char c - 33))
      else Inr 1)"

definition getTextWidth :: "string \<Rightarrow> int \<Rightarrow> int result" where
  "getTextWidth string font =
     fold_result (\<lambda>c width. map_result (\<lambda>w. width + w) (char_width font c)) string 0"

section \<open>What a bitmap shows\<close>

text \<open>Bit \<open>k\<close> of a bitmap, counted from its first byte, and what it does to its pixel.\<close>

definition bit_paint :: "byte list \<Rightarrow> byte \<Rightarrow> bool \<Rightarrow> int \<Rightarrow> byte option" where
  "bit_paint bitmap s transparent k =
     (if bit (bitmap ! nat (k div 8)) (7 - nat (k mod 8)) then Some s else if transparent then None else Some 0)"

lemma below8: "(m :: nat) < 8 \<Longrightarrow> m \<in> {0, 1, 2, 3, 4, 5, 6, 7}"
  by auto

lemma bitmask_test: "m < 8 \<Longrightarrow> (b :: byte) AND drop_bit m 0x80 \<noteq> 0 \<longleftrightarrow> bit b (7 - m)"
  by (drule below8, unfold bit_iff_and_push_bit_not_eq_0) auto

lemma bitmask_step:
  assumes "(0 :: int) \<le> k"
  shows "(if drop_bit 1 (drop_bit (nat (k mod 8)) (0x80 :: byte)) = 0 then k div 8 + 1 else k div 8) = (k + 1) div 8"
    and "(if drop_bit 1 (drop_bit (nat (k mod 8)) (0x80 :: byte)) = 0 then 0x80
          else drop_bit 1 (drop_bit (nat (k mod 8)) 0x80)) = drop_bit (nat ((k + 1) mod 8)) 0x80"
proof -
  let ?m = "nat (k mod 8)"
  have zero: "drop_bit 1 (drop_bit m (0x80 :: byte)) = 0 \<longleftrightarrow> m = 7" if "m < 8" for m
    using below8 [OF that] by auto
  have m: "?m < 8" by (simp add: nat_less_iff)
  from next_in_group [of 8 k]
  consider "k mod 8 = 7" "(k + 1) div 8 = k div 8 + 1" "(k + 1) mod 8 = 0"
    | "k mod 8 < 7" "(k + 1) div 8 = k div 8" "(k + 1) mod 8 = k mod 8 + 1"
    by auto
  then have "(if drop_bit 1 (drop_bit ?m (0x80 :: byte)) = 0 then k div 8 + 1 else k div 8) = (k + 1) div 8 \<and>
      (if drop_bit 1 (drop_bit ?m (0x80 :: byte)) = 0 then 0x80 else drop_bit 1 (drop_bit ?m 0x80)) =
      drop_bit (nat ((k + 1) mod 8)) 0x80"
  proof cases
    case 1
    then show ?thesis by simp
  next
    case 2
    then have "?m \<noteq> 7" by auto
    moreover have "nat ((k + 1) mod 8) = Suc ?m" using 2 by (simp add: nat_add_distrib)
    ultimately show ?thesis using zero [OF m] 2 by (simp add: drop_bit_drop_bit)
  qed
  then show "(if drop_bit 1 (drop_bit ?m (0x80 :: byte)) = 0 then k div 8 + 1 else k div 8) = (k + 1) div 8"
    and "(if drop_bit 1 (drop_bit ?m (0x80 :: byte)) = 0 then 0x80 else drop_bit 1 (drop_bit ?m 0x80)) =
      drop_bit (nat ((k + 1) mod 8)) 0x80" by blast+
qed

lemma next_pixel:
  "(if x mod 2 = 1 then y * 64 + x div 2 + 1 else y * 64 + x div 2) = y * 64 + (x + 1) div 2"
  "x mod 2 \<noteq> 1 \<longleftrightarrow> (x + 1) mod 2 = 1" for x y :: int
  by presburger+

lemma put_zero: "(\<lambda>b. b AND (if right then 0x0F else 0xF0)) = (if right then put_right 0 else put_left 0)"
  by (auto simp: put_right_def put_left_def)

text \<open>One pixel: drawn with a shade, or left alone.\<close>

lemma pixel_paints:
  assumes "on_screen x y" and "length buffer = 2048" and "case p of None \<Rightarrow> True | Some s \<Rightarrow> shade_ok s"
  shows "\<exists>buffer'. (case p of
        None \<Rightarrow> Inr buffer
      | Some s \<Rightarrow> modify_at buffer (y * 64 + x div 2) (if x mod 2 = 1 then put_right s else put_left s)) = Inr buffer' \<and>
    paints buffer buffer' (\<lambda>u v. if u = x \<and> v = y then p else None)"
proof (cases p)
  case None
  then show ?thesis by (auto intro: paints_cong [OF paints_none])
next
  case (Some s)
  then show ?thesis
    using point_paints [OF assms(1,2), of s] assms(3) by (auto simp: drawPointUnclipped_def Let_def split: if_splits)
qed

text \<open>The pixels of a row, one after the other.\<close>

definition row_paint :: "int \<Rightarrow> int \<Rightarrow> int \<Rightarrow> (int \<Rightarrow> byte option) \<Rightarrow> int \<Rightarrow> int \<Rightarrow> byte option" where
  "row_paint x y n p u v = (if v = y \<and> x \<le> u \<and> u < x + n then p (u - x) else None)"

lemma row_paint_0: "paints b b (row_paint x y 0 p)"
  by (rule paints_cong [OF paints_none]) (auto simp: row_paint_def)

lemma row_paint_Suc:
  assumes "paints b0 b1 (\<lambda>u v. if u = x \<and> v = y then p 0 else None)"
    and "paints b1 b2 (row_paint (x + 1) y n (\<lambda>c. p (c + 1)))" and "0 \<le> n"
  shows "paints b0 b2 (row_paint x y (n + 1) p)"
  using paints_trans [OF assms(1,2)]
  by (rule paints_cong) (use assms(3) in \<open>auto simp: row_paint_def split: option.split\<close>)

lemma bits_row_paints:
  assumes "shade_ok s"
  shows "length buffer = 2048 \<Longrightarrow> \<forall>c<n. on_screen (x + int c) y \<Longrightarrow> 0 \<le> k \<Longrightarrow> k + int n \<le> 8 * int (length bitmap) \<Longrightarrow>
    \<exists>buffer'. bits_row n bitmap (k div 8) (drop_bit (nat (k mod 8)) 0x80) buffer (y * 64 + x div 2) (x mod 2 = 1) s tr =
        Inr buffer' \<and>
      paints buffer buffer' (row_paint x y (int n) (\<lambda>c. bit_paint bitmap s tr (k + c)))"
proof (induction n arbitrary: buffer x k)
  case 0
  then show ?case by (simp add: row_paint_0)
next
  case (Suc n)
  have i: "0 \<le> k div 8" "k div 8 < int (length bitmap)" using Suc.prems(3,4) by auto
  let ?b = "bitmap ! nat (k div 8)"
  have m: "nat (k mod 8) < 8" by (simp add: nat_less_iff)
  have on: "on_screen x y" using Suc.prems(2) by force
  have "case bit_paint bitmap s tr k of None \<Rightarrow> True | Some s \<Rightarrow> shade_ok s"
    using assms by (simp add: bit_paint_def shade_ok_def)
  from pixel_paints [OF on Suc.prems(1) this] obtain b1 where
    b1: "(case bit_paint bitmap s tr k of None \<Rightarrow> Inr buffer
        | Some s \<Rightarrow> modify_at buffer (y * 64 + x div 2) (if x mod 2 = 1 then put_right s else put_left s)) = Inr b1"
      "paints buffer b1 (\<lambda>u v. if u = x \<and> v = y then bit_paint bitmap s tr k else None)" by blast
  have len: "length b1 = 2048" using b1(2) Suc.prems(1) by (simp add: paints_def)
  have on': "\<forall>c<n. on_screen (x + 1 + int c) y"
  proof (intro allI impI)
    fix c assume "c < n"
    then have "on_screen (x + int (Suc c)) y" using Suc.prems(2) by blast
    then show "on_screen (x + 1 + int c) y" by (simp add: add.assoc)
  qed
  have k': "0 \<le> k + 1" "k + 1 + int n \<le> 8 * int (length bitmap)" using Suc.prems(3,4) by simp_all
  obtain b2 where b2: "bits_row n bitmap ((k + 1) div 8) (drop_bit (nat ((k + 1) mod 8)) 0x80) b1
        (y * 64 + (x + 1) div 2) ((x + 1) mod 2 = 1) s tr = Inr b2"
      "paints b1 b2 (row_paint (x + 1) y (int n) (\<lambda>c. bit_paint bitmap s tr (k + 1 + c)))"
    using Suc.IH [OF len on' k'] by blast
  have "(if ?b AND drop_bit (nat (k mod 8)) 0x80 \<noteq> 0
         then modify_at buffer (y * 64 + x div 2) (if x mod 2 = 1 then put_right s else put_left s)
         else if \<not> tr then modify_at buffer (y * 64 + x div 2) (\<lambda>b. b AND (if x mod 2 = 1 then 0x0F else 0xF0))
         else Inr buffer) = Inr b1"
    using b1(1) unfolding bitmask_test [OF m] put_zero by (simp add: bit_paint_def split: if_splits)
  then have run: "bits_row (Suc n) bitmap (k div 8) (drop_bit (nat (k mod 8)) 0x80) buffer (y * 64 + x div 2) (x mod 2 = 1) s tr =
      Inr b2"
    using b2(1) i unfolding bits_row.simps(2) bitmask_step [OF Suc.prems(3)] next_pixel by (simp add: read_at_def)
  have "paints buffer b2 (row_paint x y (int n + 1) (\<lambda>c. bit_paint bitmap s tr (k + c)))"
    by (rule row_paint_Suc [of _ b1]) (use b1(2) b2(2) in \<open>simp_all add: ac_simps cong: if_cong\<close>)
  moreover have "int (Suc n) = int n + 1" by simp
  ultimately show ?case using run by metis
qed

text \<open>Row below row, with \<open>skip\<close> bytes of the bitmap from one to the next.\<close>

definition rect_paint :: "int \<Rightarrow> int \<Rightarrow> int \<Rightarrow> int \<Rightarrow> (int \<Rightarrow> int \<Rightarrow> byte option) \<Rightarrow> int \<Rightarrow> int \<Rightarrow> byte option" where
  "rect_paint x y w h p u v = (if x \<le> u \<and> u < x + w \<and> y \<le> v \<and> v < y + h then p (u - x) (v - y) else None)"

lemma rect_paint_Suc:
  assumes "paints b0 b1 (row_paint x y w (\<lambda>c. p c 0))"
    and "paints b1 b2 (rect_paint x (y + 1) w h (\<lambda>c r. p c (r + 1)))" and "0 \<le> h"
  shows "paints b0 b2 (rect_paint x y w (h + 1) p)"
  using paints_trans [OF assms(1,2)]
  by (rule paints_cong) (use assms(3) in \<open>auto simp: row_paint_def rect_paint_def split: option.split\<close>)

lemma rect_paint_0: "paints b b (rect_paint x y w 0 p)"
  by (rule paints_cong [OF paints_none]) (auto simp: rect_paint_def)

lemma byte_arith: "(8 * a + b) div 8 = a + b div 8" "(8 * a + b) mod 8 = b mod 8" for a b :: int
  by simp_all

text \<open>Rows that are drawn one after the other, whatever draws a row.\<close>

lemma rows_paint:
  assumes start: "\<And>i b j. rows 0 i b j = Inr b"
    and step: "\<And>h i b j. rows (Suc h) i b j = and_then (row i b j) (\<lambda>b. rows h (i + skip) b (j + 64))"
    and row: "\<And>r b y. r < height \<Longrightarrow> length b = 2048 \<Longrightarrow> \<forall>c<w. on_screen (x + int c) y \<Longrightarrow>
      \<exists>b'. row (i0 + int r * skip) b (y * 64 + x div 2) = Inr b' \<and> paints b b' (row_paint x y (int w) (p (int r)))"
    and on: "\<forall>r<height. \<forall>c<w. on_screen (x + int c) (y + int r)" and len: "length buffer = 2048"
  shows "\<exists>b'. rows height i0 buffer (y * 64 + x div 2) = Inr b' \<and>
    paints buffer b' (rect_paint x y (int w) (int height) (\<lambda>c r. p r c))"
proof -
  have "length b = 2048 \<Longrightarrow> r + h = height \<Longrightarrow>
    \<exists>b'. rows h (i0 + int r * skip) b ((y + int r) * 64 + x div 2) = Inr b' \<and>
      paints b b' (rect_paint x (y + int r) (int w) (int h) (\<lambda>c q. p (int r + q) c))" for h r b
  proof (induction h arbitrary: r b)
    case 0
    then show ?case by (simp add: start rect_paint_0)
  next
    case (Suc h)
    have "r < height" using Suc.prems(2) by simp
    with on have "\<forall>c<w. on_screen (x + int c) (y + int r)" by blast
    from row [OF \<open>r < height\<close> Suc.prems(1) this] obtain b1 where
      b1: "row (i0 + int r * skip) b ((y + int r) * 64 + x div 2) = Inr b1"
        "paints b b1 (row_paint x (y + int r) (int w) (p (int r)))" by blast
    have "length b1 = 2048" "Suc r + h = height" using b1(2) Suc.prems by (simp_all add: paints_def)
    from Suc.IH [OF this] obtain b2 where
      b2: "rows h (i0 + int (Suc r) * skip) b1 ((y + int (Suc r)) * 64 + x div 2) = Inr b2"
        "paints b1 b2 (rect_paint x (y + int (Suc r)) (int w) (int h) (\<lambda>c q. p (int (Suc r) + q) c))" by blast
    have e: "i0 + int r * skip + skip = i0 + int (Suc r) * skip"
        "(y + int r) * 64 + x div 2 + 64 = (y + int (Suc r)) * 64 + x div 2"
      by (simp_all add: algebra_simps)
    have "paints b b2 (rect_paint x (y + int r) (int w) (int h + 1) (\<lambda>c q. p (int r + q) c))"
      by (rule rect_paint_Suc [of _ b1]) (use b1(2) b2(2) in \<open>simp_all add: ac_simps\<close>)
    moreover have succ: "int (Suc h) = int h + 1" by simp
    ultimately show ?case unfolding step b1(1) and_then_simps e b2(1) succ by blast
  qed
  from this [OF len, of 0 height] show ?thesis by simp
qed

text \<open>A row that starts \<open>r\<close> rows further down, and fits if the last one does.\<close>

lemma row_fits:
  assumes "k + int (h - 1) * n + w \<le> l" and "r < h" and "0 \<le> n"
  shows "k + int r * n + w \<le> l"
proof -
  have "int r * n \<le> int (h - 1) * n" using assms(2,3) by (intro mult_right_mono) auto
  then show ?thesis using assms(1) by linarith
qed

lemma bits_rows_paint:
  assumes "shade_ok s" and "0 \<le> skip" and "length buffer = 2048" and "\<forall>r<h. \<forall>c<w. on_screen (x + int c) (y + int r)"
    and "0 \<le> k" and "k + int (h - 1) * (8 * skip) + int w \<le> 8 * int (length bitmap)"
  shows "\<exists>buffer'. bits_rows h w bitmap (k div 8) skip (drop_bit (nat (k mod 8)) 0x80) buffer (y * 64 + x div 2) (x mod 2 = 1) s tr =
        Inr buffer' \<and>
      paints buffer buffer' (rect_paint x y (int w) (int h) (\<lambda>c r. bit_paint bitmap s tr (k + r * (8 * skip) + c)))"
proof (rule rows_paint [where rows = "\<lambda>h i b j. bits_rows h w bitmap i skip (drop_bit (nat (k mod 8)) 0x80) b j (x mod 2 = 1) s tr"
      and row = "\<lambda>i b j. bits_row w bitmap i (drop_bit (nat (k mod 8)) 0x80) b j (x mod 2 = 1) s tr" and skip = skip])
  fix r :: nat and b :: "byte list" and y :: int
  assume "r < h" "length b = 2048" "\<forall>c<w. on_screen (x + int c) y"
  moreover have "0 \<le> int r * (8 * skip)" using assms(2) by simp
  then have "0 \<le> k + int r * (8 * skip)" using assms(5) by linarith
  moreover have "k + int r * (8 * skip) + int w \<le> 8 * int (length bitmap)"
    using row_fits [OF assms(6) \<open>r < h\<close>] assms(2) by simp
  moreover have k: "k + int r * (8 * skip) = 8 * (int r * skip) + k" by simp
  have "(k + int r * (8 * skip)) div 8 = k div 8 + int r * skip" "(k + int r * (8 * skip)) mod 8 = k mod 8"
    unfolding k byte_arith by simp_all
  ultimately show "\<exists>b'. bits_row w bitmap (k div 8 + int r * skip) (drop_bit (nat (k mod 8)) 0x80) b (y * 64 + x div 2) (x mod 2 = 1) s tr =
        Inr b' \<and> paints b b' (row_paint x y (int w) (\<lambda>c. bit_paint bitmap s tr (k + int r * (8 * skip) + c)))"
    using bits_row_paints [OF assms(1), of b w x y "k + int r * (8 * skip)" bitmap tr] by simp
qed (use assms in simp_all)

lemma drawBitmap1BPP_paints:
  assumes "0 < w" and "0 < h" and "0 \<le> sx" and "0 \<le> sy" and "skip = (bw - 1) div 8 + 1" and "0 \<le> skip"
    and "8 * (5 + (sy + (h - 1)) * skip) + sx + w \<le> 8 * int (length bitmap)"
    and "0 \<le> x" and "x + w \<le> 128" and "0 \<le> y" and "y + h \<le> 32" and "length buffer = 2048"
    and "0 \<le> shade" and "shade_ok (word_of_int shade)"
  shows "\<exists>buffer'. drawBitmap1BPP buffer bitmap bw x y sx sy w h shade tr = Inr buffer' \<and>
    paints buffer buffer' (rect_paint x y w h
      (\<lambda>c r. bit_paint bitmap (word_of_int shade) tr (8 * (5 + (sy + r) * skip) + (sx + c))))"
proof -
  define k where "k = 8 * (5 + sy * skip) + sx"
  have k: "k div 8 = 5 + (sy * skip + sx div 8)" "k mod 8 = sx mod 8"
    unfolding k_def byte_arith by simp_all
  have k0: "0 \<le> k" using assms(3,4,6) by (simp add: k_def)
  have wh: "int (nat w) = w" "int (nat h) = h" "int (nat h - 1) = h - 1" using assms(1,2) by simp_all
  have on: "\<forall>r<nat h. \<forall>c<nat w. on_screen (x + int c) (y + int r)"
    using assms(8-11) by (auto simp: on_screen_def)
  have "k + int (nat h - 1) * (8 * skip) + int (nat w) \<le> 8 * int (length bitmap)"
    using assms(7) unfolding wh by (simp add: k_def algebra_simps)
  from bits_rows_paint [OF assms(14,6,12) on k0 this, of tr] obtain b where b:
    "bits_rows (nat h) (nat w) bitmap (k div 8) skip (drop_bit (nat (k mod 8)) 0x80) buffer (y * 64 + x div 2) (x mod 2 = 1)
       (word_of_int shade) tr = Inr b"
    "paints buffer b (rect_paint x y w h (\<lambda>c r. bit_paint bitmap (word_of_int shade) tr (k + r * (8 * skip) + c)))"
    unfolding wh by blast
  have "k + r * (8 * skip) + c = 8 * (5 + (sy + r) * skip) + (sx + c)" for r c
    by (simp add: k_def algebra_simps)
  with b show ?thesis using assms(13) by (simp add: drawBitmap1BPP_def Let_def k assms(5) [symmetric])
qed

section \<open>Clipping a bitmap\<close>

lemma clip_span_eq:
  assumes "1 \<le> all" and "len < 1 \<and> n = all \<or> 1 \<le> len \<and> len \<le> all \<and> n = len"
  shows "clip_span low high all dest source len =
    (max dest low, source + (max dest low - dest), min (dest + n) high - max dest low)"
  using assms by (auto simp: clip_span_def Let_def max_def min_def)

lemma last_row_fits:
  "a \<le> b - n \<Longrightarrow> 5 + b \<le> l \<Longrightarrow> m \<le> 8 * n \<Longrightarrow> p + q \<le> m \<Longrightarrow> 8 * (5 + a) + p + q \<le> 8 * l" for a b l m n p q :: int
  by (simp add: distrib_left)

lemma glyph_paints:
  assumes g: "clip_ok g" and len: "length buffer = 2048" and shade: "0 \<le> shade" "shade_ok (word_of_int shade)"
    and header: "header_size bitmap 1 = Inr bw" "header_size bitmap 3 = Inr bh" "read_at bitmap 0 = Inr 0"
    and bitmap: "1 \<le> bh" "5 + bh * ((bw - 1) div 8 + 1) \<le> int (length bitmap)"
    and inside: "0 \<le> sx" "1 \<le> w" "sx + w \<le> bw"
  shows "\<exists>buffer'. drawBitmap g buffer bitmap x y sx 0 w (- 1) shade True = Inr buffer' \<and>
    paints buffer buffer' (\<lambda>u v. if in_clip g u v then
      rect_paint x y w bh (\<lambda>c r. bit_paint bitmap (word_of_int shade) True (8 * (5 + r * ((bw - 1) div 8 + 1)) + (sx + c))) u v
      else None)"
proof -
  let ?x = "max x (clipXLeft g)" and ?y = "max y (clipYTop g)"
  let ?w = "min (x + w) (clipXRight g) - ?x" and ?h = "min (y + bh) (clipYBottom g) - ?y"
  let ?skip = "(bw - 1) div 8 + 1"
  have spans: "clip_span (clipXLeft g) (clipXRight g) bw x sx w = (?x, sx + (?x - x), ?w)"
      "clip_span (clipYTop g) (clipYBottom g) bh y 0 (- 1) = (?y, 0 + (?y - y), ?h)"
    using inside bitmap(1) clip_span_eq [of bw w w "clipXLeft g" "clipXRight g" x sx]
      clip_span_eq [of bh "- 1" bh "clipYTop g" "clipYBottom g" y 0] by simp_all
  show ?thesis
  proof (cases "?w > 0 \<and> ?h > 0")
    case False
    have "paints buffer buffer (\<lambda>u v. if in_clip g u v then
        rect_paint x y w bh (\<lambda>c r. bit_paint bitmap (word_of_int shade) True (8 * (5 + r * ?skip) + (sx + c))) u v else None)"
      by (rule paints_cong [OF paints_none]) (use False in \<open>auto simp: in_clip_def rect_paint_def\<close>)
    moreover have "drawBitmap g buffer bitmap x y sx 0 w (- 1) shade True = Inr buffer"
      by (simp only: drawBitmap_def header spans and_then_simps Let_def prod.case if_not_P [OF False])
    ultimately show ?thesis by blast
  next
    case True
    have skip: "0 \<le> ?skip" "bw \<le> 8 * ?skip" using inside by presburger+
    have bounds: "0 \<le> sx + (?x - x)" "0 \<le> ?y - y" "?y - y + ?h \<le> bh" "sx + (?x - x) + ?w \<le> bw"
        "0 \<le> ?x" "?x + ?w \<le> 128" "0 \<le> ?y" "?y + ?h \<le> 32"
      using inside g by (auto simp: clip_ok_def)
    have "?y - y + (?h - 1) \<le> bh - 1" using bounds(3) by linarith
    then have "(?y - y + (?h - 1)) * ?skip \<le> (bh - 1) * ?skip" using skip(1) by (rule mult_right_mono)
    also have "\<dots> = bh * ?skip - ?skip" by (simp add: algebra_simps)
    finally have rows: "(?y - y + (?h - 1)) * ?skip \<le> bh * ?skip - ?skip" .
    have "8 * (5 + (?y - y + (?h - 1)) * ?skip) + (sx + (?x - x)) + ?w \<le> 8 * int (length bitmap)"
      by (rule last_row_fits [OF rows bitmap(2) skip(2) bounds(4)])
    from drawBitmap1BPP_paints [OF _ _ bounds(1,2) refl skip(1) this bounds(5-8) len shade, of True] True
    obtain b where b: "drawBitmap1BPP buffer bitmap bw ?x ?y (sx + (?x - x)) (?y - y) ?w ?h shade True = Inr b"
        "paints buffer b (rect_paint ?x ?y ?w ?h (\<lambda>c r. bit_paint bitmap (word_of_int shade) True
           (8 * (5 + (?y - y + r) * ?skip) + (sx + (?x - x) + c))))" by blast
    have "paints buffer b (\<lambda>u v. if in_clip g u v then
        rect_paint x y w bh (\<lambda>c r. bit_paint bitmap (word_of_int shade) True (8 * (5 + r * ?skip) + (sx + c))) u v else None)"
      by (rule paints_cong [OF b(2)]) (auto simp: in_clip_def rect_paint_def)
    moreover have "drawBitmap g buffer bitmap x y sx 0 w (- 1) shade True =
        drawBitmap1BPP buffer bitmap bw ?x ?y (sx + (?x - x)) (?y - y) ?w ?h shade True"
      by (simp only: drawBitmap_def header spans and_then_simps Let_def prod.case if_P [OF True] refl if_True add_0)
    ultimately show ?thesis using b(1) by auto
  qed
qed

section \<open>What a text shows\<close>

definition glyph :: "int \<Rightarrow> char \<Rightarrow> int \<times> int" where
  "glyph font c = fst (getFontInfo font) ! nat (of_char c - 33)"

definition advance :: "int \<Rightarrow> char \<Rightarrow> int" where
  "advance font c = (if printable c then snd (glyph font c) + 1 else 1)"

definition font_width :: "int \<Rightarrow> int" where
  "font_width font = (if font = 0 then 180 else if font = 1 then 252 else 266)"

definition font_height :: "int \<Rightarrow> int" where
  "font_height font = (if font = 0 then 3 else if font = 1 then 5 else 6)"

text \<open>Whether a character is seen at a pixel, counted from its upper left corner.\<close>

definition char_shows :: "int \<Rightarrow> char \<Rightarrow> int \<Rightarrow> int \<Rightarrow> bool" where
  "char_shows font c x y \<longleftrightarrow>
     printable c \<and> 0 \<le> x \<and> x < snd (glyph font c) \<and> 0 \<le> y \<and> y < font_height font \<and>
     (let k = 8 * (5 + y * ((font_width font - 1) div 8 + 1)) + (fst (glyph font c) + x) in
      bit (snd (getFontInfo font) ! nat (k div 8)) (7 - nat (k mod 8)))"

fun text_shows :: "int \<Rightarrow> string \<Rightarrow> int \<Rightarrow> int \<Rightarrow> bool" where
  "text_shows font [] x y \<longleftrightarrow> False"
| "text_shows font (c # cs) x y \<longleftrightarrow> char_shows font c x y \<or> text_shows font cs (x - advance font c) y"

text \<open>The tables of the fonts fit together.\<close>

definition font_ok :: "int \<Rightarrow> bool" where
  "font_ok font \<longleftrightarrow>
     (case getFontInfo font of (info, bitmap) \<Rightarrow>
       length info = 94 \<and> header_size bitmap 1 = Inr (font_width font) \<and> header_size bitmap 3 = Inr (font_height font) \<and>
       read_at bitmap 0 = Inr 0 \<and> length bitmap = nat (5 + font_height font * ((font_width font - 1) div 8 + 1)) \<and>
       list_all (\<lambda>(offset, width). 0 \<le> offset \<and> 0 \<le> width \<and> width \<le> 6 \<and> offset + width \<le> font_width font) info)"

lemma fonts_test: "font_ok 0" "font_ok 1" "font_ok 2"
  by code_simp+

lemma fonts_ok: "font_ok font"
proof -
  have "font_ok font = font_ok (if font = 0 then 0 else if font = 1 then 1 else 2)"
    by (simp add: font_ok_def getFontInfo_def font_width_def font_height_def)
  then show ?thesis using fonts_test by (simp split: if_splits)
qed

lemma font_facts:
  shows "length (fst (getFontInfo font)) = 94"
    and "header_size (snd (getFontInfo font)) 1 = Inr (font_width font)"
    and "header_size (snd (getFontInfo font)) 3 = Inr (font_height font)"
    and "read_at (snd (getFontInfo font)) 0 = Inr 0"
    and "5 + font_height font * ((font_width font - 1) div 8 + 1) \<le> int (length (snd (getFontInfo font)))"
    and "(offset, width) \<in> set (fst (getFontInfo font)) \<Longrightarrow>
      0 \<le> offset \<and> 0 \<le> width \<and> width \<le> 6 \<and> offset + width \<le> font_width font"
  using fonts_ok [of font] unfolding font_ok_def by (auto simp: list_all_iff split: prod.splits)

lemma glyph_read:
  assumes "printable c"
  shows "read_at (fst (getFontInfo font)) (of_char c - 33) = Inr (glyph font c)"
    and "glyph font c \<in> set (fst (getFontInfo font))"
proof -
  have i: "0 \<le> (of_char c - 33 :: int)" "of_char c - 33 < (94 :: int)" using assms by (auto simp: printable_def)
  then show "read_at (fst (getFontInfo font)) (of_char c - 33) = Inr (glyph font c)"
    by (simp add: read_at_def font_facts(1) glyph_def)
  show "glyph font c \<in> set (fst (getFontInfo font))"
    unfolding glyph_def by (rule nth_mem) (use i font_facts(1) in \<open>simp add: nat_less_iff\<close>)
qed

lemma advance_positive: "1 \<le> advance font c"
proof (cases "printable c")
  case True
  from glyph_read(2) [OF this, of font] have "0 \<le> snd (glyph font c)"
    using font_facts(6) [of "fst (glyph font c)" "snd (glyph font c)" font] by simp
  then show ?thesis by (simp add: advance_def)
qed (simp add: advance_def)

lemma text_shows_right: "text_shows font cs x y \<Longrightarrow> 0 \<le> x"
proof (induction cs arbitrary: x)
  case (Cons c cs)
  from Cons.prems consider "char_shows font c x y" | "text_shows font cs (x - advance font c) y" by auto
  then show ?case
  proof cases
    case 1
    then show ?thesis by (simp add: char_shows_def)
  next
    case 2
    from Cons.IH [OF this] show ?thesis using advance_positive [of font c] by simp
  qed
qed simp

lemma char_paints:
  assumes "clip_ok g" and "length buffer = 2048" and "0 \<le> shade" and "shade_ok (word_of_int shade)" and "printable c"
  shows "\<exists>buffer'. (if snd (glyph font c) > 0
      then drawBitmap g buffer (snd (getFontInfo font)) x y (fst (glyph font c)) 0 (snd (glyph font c)) (- 1) shade True
      else Inr buffer) = Inr buffer' \<and>
    paints buffer buffer' (\<lambda>u v. if in_clip g u v \<and> char_shows font c (u - x) (v - y) then Some (word_of_int shade) else None)"
proof (cases "snd (glyph font c) > 0")
  case False
  have "paints buffer buffer (\<lambda>u v. if in_clip g u v \<and> char_shows font c (u - x) (v - y) then Some (word_of_int shade) else None)"
    by (rule paints_cong [OF paints_none]) (use False in \<open>auto simp: char_shows_def\<close>)
  then show ?thesis using False by simp
next
  case True
  obtain offset width where gl: "glyph font c = (offset, width)" by (cases "glyph font c")
  have ok: "0 \<le> offset" "1 \<le> width" "offset + width \<le> font_width font"
    using glyph_read(2) [OF assms(5), of font] font_facts(6) True by (auto simp: gl)
  have h: "1 \<le> font_height font" by (simp add: font_height_def)
  obtain b where b: "drawBitmap g buffer (snd (getFontInfo font)) x y offset 0 width (- 1) shade True = Inr b"
      "paints buffer b (\<lambda>u v. if in_clip g u v then
        rect_paint x y width (font_height font) (\<lambda>c r. bit_paint (snd (getFontInfo font)) (word_of_int shade) True
          (8 * (5 + r * ((font_width font - 1) div 8 + 1)) + (offset + c))) u v else None)"
    using glyph_paints [OF assms(1-4) font_facts(2-4) h font_facts(5) ok] by blast
  have "paints buffer b (\<lambda>u v. if in_clip g u v \<and> char_shows font c (u - x) (v - y) then Some (word_of_int shade) else None)"
    by (rule paints_cong [OF b(2)]) (use assms(5) in \<open>auto simp: rect_paint_def char_shows_def bit_paint_def gl Let_def\<close>)
  then show ?thesis using b(1) True gl by simp
qed

lemma text_paints:
  assumes "clip_ok g" and "length buffer = 2048" and "0 \<le> shade" and "shade_ok (word_of_int shade)"
  shows "\<exists>buffer'. drawText g buffer string xLeft yTop font shade = Inr buffer' \<and>
    paints buffer buffer' (\<lambda>u v. if in_clip g u v \<and> text_shows font string (u - xLeft) (v - yTop)
      then Some (word_of_int shade) else None)"
  using assms(2)
proof (induction string arbitrary: buffer xLeft)
  case Nil
  show ?case by (auto intro: paints_cong [OF paints_none])
next
  case (Cons c cs)
  show ?case
  proof (cases "xLeft < clipXRight g")
    case False
    have "paints buffer buffer (\<lambda>u v. if in_clip g u v \<and> text_shows font (c # cs) (u - xLeft) (v - yTop)
        then Some (word_of_int shade) else None)"
      by (rule paints_cong [OF paints_none])
        (use False text_shows_right [of font "c # cs"] in \<open>fastforce simp: in_clip_def simp del: text_shows.simps\<close>)
    then show ?thesis using False by simp
  next
    case True
    let ?first = "if printable c then
        (if snd (glyph font c) > 0
         then drawBitmap g buffer (snd (getFontInfo font)) xLeft yTop (fst (glyph font c)) 0 (snd (glyph font c)) (- 1) shade True
         else Inr buffer) else Inr buffer"
    have run: "drawText g buffer (c # cs) xLeft yTop font shade =
        and_then ?first (\<lambda>buffer. drawText g buffer cs (xLeft + advance font c) yTop font shade)"
      using True glyph_read(1) [of c font] by (cases "glyph font c") (simp add: advance_def add.assoc)
    have "\<exists>b. ?first = Inr b \<and> paints buffer b (\<lambda>u v. if in_clip g u v \<and> char_shows font c (u - xLeft) (v - yTop)
        then Some (word_of_int shade) else None)"
    proof (cases "printable c")
      case True
      then show ?thesis using char_paints [OF assms(1) Cons.prems assms(3,4) True, of font xLeft yTop] by simp
    next
      case False
      then show ?thesis by (auto simp: char_shows_def intro: paints_cong [OF paints_none])
    qed
    then obtain b1 where b1: "?first = Inr b1" "paints buffer b1 (\<lambda>u v. if in_clip g u v \<and> char_shows font c (u - xLeft) (v - yTop)
        then Some (word_of_int shade) else None)" by blast
    have "length b1 = 2048" using b1(2) Cons.prems by (simp add: paints_def)
    from Cons.IH [OF this, of "xLeft + advance font c"] obtain b2 where
      b2: "drawText g b1 cs (xLeft + advance font c) yTop font shade = Inr b2"
        "paints b1 b2 (\<lambda>u v. if in_clip g u v \<and> text_shows font cs (u - (xLeft + advance font c)) (v - yTop)
          then Some (word_of_int shade) else None)" by blast
    have "paints buffer b2 (\<lambda>u v. if in_clip g u v \<and> text_shows font (c # cs) (u - xLeft) (v - yTop)
        then Some (word_of_int shade) else None)"
      by (rule paints_cong [OF paints_trans [OF b1(2) b2(2)]]) (auto simp: diff_diff_eq)
    then show ?thesis using run b1(1) b2(1) by simp
  qed
qed

text \<open>C24. A text is drawn without any access outside the screen, the font tables or the bitmaps, at any place, in any
  of the three fonts, for all bytes: the pixels of its characters that lie in the clip area get the
  shade, all others keep theirs.\<close>
theorem text_is_exact:
  assumes "clip_ok g" and "length buffer = 2048" and "0 \<le> shade" and "shade_ok (word_of_int shade)"
  shows "\<exists>buffer'. drawText g buffer string xLeft yTop font shade = Inr buffer' \<and>
    paints buffer buffer' (\<lambda>u v. if in_clip g u v \<and> text_shows font string (u - xLeft) (v - yTop)
      then Some (word_of_int shade) else None)"
  by (rule text_paints [OF assms])


theorem text_is_exact_witness:
  "\<exists>buffer'. drawText full_clip_area (replicate 2048 0) ''Hi@'' 120 (- 2) 2 3 = Inr buffer' \<and> length buffer' = 2048"
proof -
  have "shade_ok (word_of_int 3)" by (simp add: shade_ok_def)
  then obtain buffer' where "drawText full_clip_area (replicate 2048 0) ''Hi@'' 120 (- 2) 2 3 = Inr buffer'"
      "paints (replicate 2048 0) buffer' (\<lambda>u v. if in_clip full_clip_area u v \<and> text_shows 2 ''Hi@'' (u - 120) (v - - 2)
        then Some (word_of_int 3) else None)"
    using text_is_exact [OF clip_ok_simps(1), of "replicate 2048 0" 3 "''Hi@''" 120 "- 2" 2] by (auto simp del: drawText.simps)
  then show ?thesis unfolding paints_def length_replicate by blast
qed

text \<open>The width of a text is where the next one would go.\<close>

lemma char_width_advance: "char_width font c = Inr (advance font c)"
  using glyph_read(1) [of c font] by (cases "glyph font c") (simp add: char_width_def advance_def)

definition text_width :: "int \<Rightarrow> string \<Rightarrow> int" where
  "text_width font s = (\<Sum>c \<leftarrow> s. advance font c)"

lemma getTextWidth_eq: "getTextWidth s font = Inr (text_width font s)"
proof -
  have "fold_result (\<lambda>c width. map_result (\<lambda>w. width + w) (char_width font c)) s n = Inr (n + text_width font s)" for n
    by (induction s arbitrary: n) (simp_all add: char_width_advance text_width_def add.assoc)
  then show ?thesis by (simp add: getTextWidth_def)
qed

lemma text_width_simps [simp]:
  "text_width font [] = 0"
  "text_width font (c # cs) = advance font c + text_width font cs"
  "text_width font (cs @ ds) = text_width font cs + text_width font ds"
  by (simp_all add: text_width_def)

lemma text_width_length: "int (length s) \<le> text_width font s"
proof (induction s)
  case (Cons c s)
  then show ?case using advance_positive [of font c] by simp
qed simp

lemma text_shows_width: "text_shows font s x y \<Longrightarrow> x < text_width font s - 1"
proof (induction s arbitrary: x)
  case (Cons c cs)
  from Cons.prems consider "char_shows font c x y" | "text_shows font cs (x - advance font c) y" by auto
  then show ?case
  proof cases
    case 1
    then show ?thesis using text_width_length [of cs font] by (simp add: char_shows_def advance_def)
  next
    case 2
    from Cons.IH [OF this] show ?thesis by simp
  qed
qed simp

end
