(* ===== verification/Vfd_Shades.thy ===== *)
theory Vfd_Shades
  imports Vfd_Text
begin

text \<open>Bitmaps with two bits per pixel: what they show.\<close>

definition shade_at :: "byte list \<Rightarrow> int \<Rightarrow> byte" where
  "shade_at bitmap k = drop_bit (nat (k mod 4) * 2) (bitmap ! nat (k div 4)) AND 0x03"

definition shade_paint :: "byte list \<Rightarrow> int \<Rightarrow> bool \<Rightarrow> int \<Rightarrow> byte option" where
  "shade_paint bitmap shade transparent k =
     (if shade_at bitmap k \<noteq> 0 \<or> \<not> transparent
      then Some (if shade \<ge> 0 then word_of_int shade else shade_at bitmap k) else None)"

lemma shade_at_ok: "shade_ok (b AND 0x03)"
proof -
  have "(0x03 :: byte) = mask 2" by (simp add: mask_eq_exp_minus_1)
  then show ?thesis unfolding shade_ok_bits by (simp only: bit_and_iff bit_mask_iff) auto
qed

lemma shade_paint_ok:
  assumes "shade < 0 \<or> shade_ok (word_of_int shade)"
  shows "case shade_paint bitmap shade tr k of None \<Rightarrow> True | Some s \<Rightarrow> shade_ok s"
  using assms shade_at_ok by (auto simp: shade_paint_def shade_at_def)

lemma quarter_arith: "(4 * a + b) div 4 = a + b div 4" "(4 * a + b) mod 4 = b mod 4" for a b :: int
  by simp_all

lemma shades_row_paints:
  assumes "shade < 0 \<or> shade_ok (word_of_int shade)"
  shows "length buffer = 2048 \<Longrightarrow> \<forall>c<n. on_screen (x + int c) y \<Longrightarrow> 0 \<le> k \<Longrightarrow> k + int n < 4 * int (length bitmap) \<Longrightarrow>
    \<exists>buffer'. shades_row n bitmap (k div 4) (nat (k mod 4) * 2) (drop_bit (nat (k mod 4) * 2) (bitmap ! nat (k div 4)))
        buffer (y * 64 + x div 2) (x mod 2 = 1) shade tr = Inr buffer' \<and>
      paints buffer buffer' (row_paint x y (int n) (\<lambda>c. shade_paint bitmap shade tr (k + c)))"
proof (induction n arbitrary: buffer x k)
  case 0
  then show ?case by (simp add: row_paint_0)
next
  case (Suc n)
  have on: "on_screen x y" using Suc.prems(2) by force
  from pixel_paints [OF on Suc.prems(1) shade_paint_ok [OF assms, of bitmap tr k]] obtain b1 where
    b1: "(case shade_paint bitmap shade tr k of None \<Rightarrow> Inr buffer
        | Some s \<Rightarrow> modify_at buffer (y * 64 + x div 2) (if x mod 2 = 1 then put_right s else put_left s)) = Inr b1"
      "paints buffer b1 (\<lambda>u v. if u = x \<and> v = y then shade_paint bitmap shade tr k else None)" by blast
  have len: "length b1 = 2048" using b1(2) Suc.prems(1) by (simp add: paints_def)
  have on': "\<forall>c<n. on_screen (x + 1 + int c) y"
  proof (intro allI impI)
    fix c assume "c < n"
    then have "on_screen (x + int (Suc c)) y" using Suc.prems(2) by blast
    then show "on_screen (x + 1 + int c) y" by (simp add: add.assoc)
  qed
  have k': "0 \<le> k + 1" "k + 1 + int n < 4 * int (length bitmap)" using Suc.prems(3,4) by simp_all
  let ?rest = "\<lambda>k. shades_row n bitmap (k div 4) (nat (k mod 4) * 2) (drop_bit (nat (k mod 4) * 2) (bitmap ! nat (k div 4)))
      b1 (y * 64 + (x + 1) div 2) ((x + 1) mod 2 = 1) shade tr"
  obtain b2 where b2: "?rest (k + 1) = Inr b2"
      "paints b1 b2 (row_paint (x + 1) y (int n) (\<lambda>c. shade_paint bitmap shade tr (k + 1 + c)))"
    using Suc.IH [OF len on' k'] by blast
  have first: "(if shade_at bitmap k \<noteq> 0 \<or> \<not> tr
      then modify_at buffer (y * 64 + x div 2)
        ((if x mod 2 = 1 then put_right else put_left) (if shade \<ge> 0 then word_of_int shade else shade_at bitmap k))
      else Inr buffer) = Inr b1"
    using b1(1) by (auto simp: shade_paint_def split: if_splits)
  from next_in_group [of 4 k]
  consider "k mod 4 = 3" "(k + 1) div 4 = k div 4 + 1" "(k + 1) mod 4 = 0"
    | "k mod 4 < 3" "(k + 1) div 4 = k div 4" "(k + 1) mod 4 = k mod 4 + 1" by auto
  then have tail: "(if nat (k mod 4) * 2 + 2 > 6
      then and_then (read_at bitmap (k div 4 + 1)) (\<lambda>cur.
        shades_row n bitmap (k div 4 + 1) 0 cur b1 (y * 64 + (x + 1) div 2) ((x + 1) mod 2 = 1) shade tr)
      else shades_row n bitmap (k div 4) (nat (k mod 4) * 2 + 2) (drop_bit 2 (drop_bit (nat (k mod 4) * 2) (bitmap ! nat (k div 4))))
        b1 (y * 64 + (x + 1) div 2) ((x + 1) mod 2 = 1) shade tr) = ?rest (k + 1)"
  proof cases
    case 1
    have "0 \<le> (k + 1) div 4" "(k + 1) div 4 < int (length bitmap)" using k' by auto
    then show ?thesis using 1 by (simp add: read_at_def)
  next
    case 2
    have "0 \<le> k mod 4" by simp
    then have m: "nat ((k + 1) mod 4) = Suc (nat (k mod 4))" "nat (k mod 4) < 3" using 2 by linarith+
    have "\<not> nat (k mod 4) * 2 + 2 > 6" using m(2) by linarith
    then show ?thesis unfolding 2(2) m(1) by (simp add: drop_bit_drop_bit)
  qed
  have run: "shades_row (Suc n) bitmap (k div 4) (nat (k mod 4) * 2) (drop_bit (nat (k mod 4) * 2) (bitmap ! nat (k div 4)))
      buffer (y * 64 + x div 2) (x mod 2 = 1) shade tr = Inr b2"
    unfolding shades_row.simps(2) Let_def shade_at_def [symmetric] next_pixel first and_then_simps tail by (rule b2(1))
  have "paints buffer b2 (row_paint x y (int n + 1) (\<lambda>c. shade_paint bitmap shade tr (k + c)))"
    by (rule row_paint_Suc [of _ b1]) (use b1(2) b2(2) in \<open>simp_all add: ac_simps cong: if_cong\<close>)
  moreover have "int (Suc n) = int n + 1" by simp
  ultimately show ?case using run by metis
qed

lemma shades_rows_paint:
  assumes "shade < 0 \<or> shade_ok (word_of_int shade)" and "0 \<le> skip" and "length buffer = 2048"
    and "\<forall>r<h. \<forall>c<w. on_screen (x + int c) (y + int r)"
    and "0 \<le> k" and "k + int (h - 1) * (4 * skip) + int w < 4 * int (length bitmap)"
  shows "\<exists>buffer'. shades_rows h w bitmap (k div 4) skip (nat (k mod 4) * 2) buffer (y * 64 + x div 2) (x mod 2 = 1) shade tr =
        Inr buffer' \<and>
      paints buffer buffer' (rect_paint x y (int w) (int h) (\<lambda>c r. shade_paint bitmap shade tr (k + r * (4 * skip) + c)))"
proof (rule rows_paint [where rows = "\<lambda>h i b j. shades_rows h w bitmap i skip (nat (k mod 4) * 2) b j (x mod 2 = 1) shade tr"
      and row = "\<lambda>i b j. and_then (read_at bitmap i) (\<lambda>cur.
        shades_row w bitmap i (nat (k mod 4) * 2) (drop_bit (nat (k mod 4) * 2) cur) b j (x mod 2 = 1) shade tr)"
      and skip = skip])
  fix r :: nat and b :: "byte list" and y :: int
  assume r: "r < h" "length b = 2048" "\<forall>c<w. on_screen (x + int c) y"
  have "0 \<le> int r * (4 * skip)" using assms(2) by simp
  then have k0: "0 \<le> k + int r * (4 * skip)" using assms(5) by linarith
  have "k + int (h - 1) * (4 * skip) + (int w + 1) \<le> 4 * int (length bitmap)" using assms(6) by linarith
  from row_fits [OF this r(1)] have fit: "k + int r * (4 * skip) + int w < 4 * int (length bitmap)"
    using assms(2) by simp
  have k: "k + int r * (4 * skip) = 4 * (int r * skip) + k" by simp
  have at: "(k + int r * (4 * skip)) div 4 = k div 4 + int r * skip" "(k + int r * (4 * skip)) mod 4 = k mod 4"
    unfolding k quarter_arith by simp_all
  have "0 \<le> (k + int r * (4 * skip)) div 4" "(k + int r * (4 * skip)) div 4 < int (length bitmap)"
    using k0 fit by auto
  then have "read_at bitmap (k div 4 + int r * skip) = Inr (bitmap ! nat (k div 4 + int r * skip))"
    unfolding at by (simp add: read_at_def)
  then show "\<exists>b'. and_then (read_at bitmap (k div 4 + int r * skip)) (\<lambda>cur.
        shades_row w bitmap (k div 4 + int r * skip) (nat (k mod 4) * 2) (drop_bit (nat (k mod 4) * 2) cur) b
          (y * 64 + x div 2) (x mod 2 = 1) shade tr) = Inr b' \<and>
      paints b b' (row_paint x y (int w) (\<lambda>c. shade_paint bitmap shade tr (k + int r * (4 * skip) + c)))"
    using shades_row_paints [OF assms(1) r(2,3) k0 fit, of tr] unfolding at by simp
qed (use assms in simp_all)

text \<open>A whole bitmap in its own shades, as squash draws its stars.\<close>

definition picture_ok :: "byte list \<Rightarrow> int \<Rightarrow> int \<Rightarrow> bool" where
  "picture_ok bitmap w h \<longleftrightarrow>
     header_size bitmap 1 = Inr w \<and> header_size bitmap 3 = Inr h \<and> read_at bitmap 0 = Inr 1 \<and> 0 < w \<and> 0 < h \<and>
     4 * (5 + (h - 1) * ((w - 1) div 4 + 1)) + w < 4 * int (length bitmap)"

lemma picture_paints:
  assumes "picture_ok bitmap w h" and "0 \<le> x" and "0 \<le> y" and "y + h \<le> 32" and "length buffer = 2048"
  shows "\<exists>buffer'. drawBitmap full_clip_area buffer bitmap x y 0 0 (- 1) (- 1) (- 1) False = Inr buffer' \<and>
    paints buffer buffer' (rect_paint x y w h (\<lambda>c r. Some (shade_at bitmap (4 * (5 + r * ((w - 1) div 4 + 1)) + c))))"
proof -
  let ?skip = "(w - 1) div 4 + 1" and ?w = "if x + w > 128 then 128 - x else w"
  let ?picture = "rect_paint x y w h (\<lambda>c r. Some (shade_at bitmap (4 * (5 + r * ?skip) + c)))"
  note ok = assms(1) [unfolded picture_ok_def]
  have wh: "0 < w" "0 < h" "int (nat h) = h" "int (nat h - 1) = h - 1" using ok by auto
  have skip: "0 \<le> ?skip" using wh(1) by (simp add: pos_imp_zdiv_nonneg_iff)
  have spans: "clip_span 0 128 w x 0 (- 1) = (x, 0, ?w)" "clip_span 0 32 h y 0 (- 1) = (y, 0, h)"
    using assms(2-4) wh(1,2) by (auto simp: clip_span_def Let_def)
  show ?thesis
  proof (cases "0 < ?w")
    case False
    then have "drawBitmap full_clip_area buffer bitmap x y 0 0 (- 1) (- 1) (- 1) False = Inr buffer"
      using ok by (simp add: drawBitmap_def full_clip_area_def spans Let_def split: if_splits)
    moreover have "paints buffer buffer ?picture"
      by (rule paints_cong [OF paints_none]) (use False wh(1) in \<open>auto simp: on_screen_def rect_paint_def split: if_splits\<close>)
    ultimately show ?thesis by blast
  next
    case True
    then have w: "int (nat ?w) = ?w" by simp
    have on: "\<forall>r<nat h. \<forall>c<nat ?w. on_screen (x + int c) (y + int r)"
      using assms(2-4) by (auto simp: on_screen_def split: if_splits)
    have "20 + (h - 1) * (4 * ?skip) + w < 4 * int (length bitmap)" using ok by (simp add: algebra_simps)
    then have "20 + int (nat h - 1) * (4 * ?skip) + int (nat ?w) < 4 * int (length bitmap)"
      unfolding w wh by (simp split: if_splits)
    from shades_rows_paint [of "- 1" ?skip buffer "nat h" "nat ?w" x y 20 bitmap False, OF _ skip assms(5) on _ this]
    obtain b where b: "shades_rows (nat h) (nat ?w) bitmap 5 ?skip 0 buffer (y * 64 + x div 2) (x mod 2 = 1) (- 1) False = Inr b"
        "paints buffer b (rect_paint x y ?w h (\<lambda>c r. shade_paint bitmap (- 1) False (20 + r * (4 * ?skip) + c)))"
      unfolding w wh by auto
    have "shade_paint bitmap (- 1) False (20 + r * (4 * ?skip) + c) = Some (shade_at bitmap (4 * (5 + r * ?skip) + c))" for r c
      by (simp add: shade_paint_def algebra_simps)
    with b(2) have "paints buffer b (rect_paint x y ?w h (\<lambda>c r. Some (shade_at bitmap (4 * (5 + r * ?skip) + c))))" by simp
    then have "paints buffer b ?picture" by (rule paints_cong) (auto simp: on_screen_def rect_paint_def)
    moreover have "drawBitmap full_clip_area buffer bitmap x y 0 0 (- 1) (- 1) (- 1) False = Inr b"
      using ok b(1) True by (simp only: drawBitmap_def full_clip_area_def spans drawBitmap2BPP_def) (simp add: spans)
    ultimately show ?thesis by blast
  qed
qed

text \<open>
  The row of a bitmap whose width is a multiple of four: the byte behind the row is read,
  at the end of the bitmap one byte too many.
\<close>

theorem last_row_read_too_far:
  "drawBitmap full_clip_area (replicate 8 0) [1, 0, 4, 0, 1, 0xFF] 0 0 0 0 (- 1) (- 1) (- 1) False = Inl Out_Of_Bounds"
  by code_simp

end
