(* ===== verification/Meta_Text.thy ===== *)
theory Meta_Text
  imports Database
begin

text \<open>
  What both displays make of a song: the values of some keys, one after the other, joined by
  semicolons.
\<close>

definition all_values :: "song_info option \<Rightarrow> string list \<Rightarrow> string option list" where
  "all_values song keys = concat (map (\<lambda>k. case get_meta_data song k of None \<Rightarrow> [] | Some m \<Rightarrow> mvalues m) keys)"

abbreviation with_trail :: "string \<Rightarrow> string" where "with_trail v \<equiv> v @ ''; ''"

fun joined :: "string list \<Rightarrow> string" where
  "joined [] = []"
| "joined [v] = v"
| "joined (v # w # vs) = v @ ''; '' @ joined (w # vs)"

lemma joined_trail: "vs \<noteq> [] \<Longrightarrow> concat (map with_trail vs) = joined vs @ ''; ''"
  by (induction vs rule: joined.induct) auto

lemma joined_no_NUL: "\<forall>v \<in> set vs. NUL \<notin> set v \<Longrightarrow> NUL \<notin> set (joined vs)"
  by (induction vs rule: joined.induct) auto

lemma c_str_stop: "NUL \<notin> set t \<Longrightarrow> c_str (t @ NUL # rest) = t"
  unfolding c_str_def by (induction t) auto

end
