(* ===== verification/Song_List.thy ===== *)
theory Song_List
  imports Song_Queue
begin

text \<open>
  The list windows, \<open>draw_list()\<close> of \<open>src/src/display.c\<close>: which entries of a queue are
  shown in which rows, and where the selection is.  \<open>Text_Display\<close> draws the rows: the
  meta data of the songs, cut to the columns.
\<close>

section \<open>The view of a queue\<close>

text \<open>
  A row has its number in the window, the song, and whether it is drawn as
  selected; \<open>lv_line\<close> is the row of the bar behind the selection.
\<close>

record list_view =
  lv_no_entries :: bool
  lv_up_arrow :: bool
  lv_down_arrow :: bool
  lv_line :: "int option"
  lv_rows :: "(int \<times> nat option \<times> bool) list"

definition half :: "int \<Rightarrow> int" where
  "half n = (if n < 0 then - (- n div 2) else n div 2)"

text \<open>The first index shown and the number of rows.\<close>

definition list_start :: "int \<Rightarrow> song_queue \<Rightarrow> int \<times> int" where
  "list_start list_height q =
     (if q_size q \<le> list_height then (0, q_size q)
      else
        (let start_index = q_selected q - half list_height;
             max_size = (if q_size q > q_wanted_size q then q_size q else q_wanted_size q) in
         (if start_index < 0 then 0
          else if start_index + list_height > max_size then max_size - list_height
          else start_index, list_height)))"

fun move_to_entry :: "nat \<Rightarrow> heap \<Rightarrow> nat option \<Rightarrow> nat option result" where
  "move_to_entry 0 h cur = Inr cur"
| "move_to_entry (Suc n) h cur =
     (if cur = None then Inr None else and_then (load_entry h cur) (\<lambda>e. move_to_entry n h (entry_next e)))"

fun print_entries :: "nat \<Rightarrow> int \<Rightarrow> (int \<Rightarrow> bool) \<Rightarrow> heap \<Rightarrow> nat option \<Rightarrow> (int \<times> nat option \<times> bool) list result" where
  "print_entries 0 i selected h cur = Inr []"
| "print_entries (Suc n) i selected h cur =
     (if cur = None then Inr []
      else and_then (load_entry h cur) (\<lambda>e.
        map_result ((#) (i + 2, entry_song e, selected i)) (print_entries n (i + 1) selected h (entry_next e))))"

definition draw_list :: "int \<Rightarrow> bool \<Rightarrow> heap \<Rightarrow> song_queue \<Rightarrow> (list_view \<times> song_queue) result" where
  "draw_list win_height have_focus h q =
     (if q_size q \<le> 0
      then Inr (\<lparr>lv_no_entries = True, lv_up_arrow = False, lv_down_arrow = False, lv_line = None, lv_rows = []\<rparr>, q)
      else
        (let q = (if q_size q \<ge> q_wanted_size q \<and> q_selected q \<ge> q_size q then q\<lparr>q_selected := q_size q - 1\<rparr> else q);
             (start_index, list_height) = list_start (win_height - 3) q;
             scrolls = \<not> q_size q \<le> win_height - 3 in
         and_then (move_to_entry (nat start_index) h (q_head q)) (\<lambda>cur.
         map_result (\<lambda>rows.
             (\<lparr>lv_no_entries = False,
               lv_up_arrow = (scrolls \<and> start_index > 0),
               lv_down_arrow = (scrolls \<and> start_index + list_height < q_size q),
               lv_line = (if q_selected q \<ge> 0 \<and> have_focus then Some (q_selected q - start_index + 2) else None),
               lv_rows = rows\<rparr>, q))
           (print_entries (nat list_height) 0 (\<lambda>i. i + start_index = q_selected q \<and> have_focus) h cur))))"

section \<open>The rows\<close>

lemma move_to_entry_chain:
  "chain (cells h) p (as @ bs) None \<Longrightarrow> \<exists>m. move_to_entry (length as) h p = Inr m \<and> chain (cells h) m bs None"
proof (induction as arbitrary: p)
  case (Cons a as)
  then obtain e where e: "p = Some a" "cells h a = Some e" "chain (cells h) (entry_next e) (as @ bs) None"
    by (auto simp del: chain_append)
  from Cons.IH [OF e(3)] e(1,2) show ?case by (simp add: load_entry_def)
qed simp

lemma print_entries_chain:
  assumes "chain (cells h) p as None"
  shows "print_entries n i selected h p =
    Inr (map (\<lambda>j. (i + int j + 2, fst (entry_at h (as ! j)), selected (i + int j))) [0..<min n (length as)])"
  using assms
proof (induction n arbitrary: i p as)
  case (Suc n)
  show ?case
  proof (cases as)
    case Nil
    then show ?thesis using Suc.prems by simp
  next
    case (Cons a bs)
    then obtain e where e: "p = Some a" "cells h a = Some e" "chain (cells h) (entry_next e) bs None"
      using Suc.prems by auto
    have rows: "[0..<min (Suc n) (length as)] = 0 # map Suc [0..<min n (length bs)]"
      by (simp add: Cons upt_conv_Cons map_Suc_upt del: upt_Suc)
    let ?f = "\<lambda>j. (i + int j + 2, fst (entry_at h (as ! j)), selected (i + int j))"
    have "map ?f [0..<min (Suc n) (length as)] = ?f 0 # map (\<lambda>j. ?f (Suc j)) [0..<min n (length bs)]"
      unfolding rows by (simp only: list.map map_map o_def)
    moreover have "?f (Suc j) = (i + 1 + int j + 2, fst (entry_at h (bs ! j)), selected (i + 1 + int j))" for j
      by (simp add: Cons add.assoc)
    ultimately show ?thesis
      using Suc.IH [OF e(3), of "i + 1"] e(1,2) by (simp add: load_entry_def Cons entry_at_def del: upt_Suc)
  qed
qed simp

lemma list_start_range:
  assumes "0 < h" and "- 1 \<le> q_selected q" and "q_selected q < q_size q" and "0 < q_size q" and "list_start h q = (start, rows)"
  shows "0 \<le> start \<and> start \<le> max 0 (q_selected q) \<and> start < q_size q \<and> q_selected q < start + rows \<and> rows \<le> h \<and>
    (q_size q \<le> h \<longrightarrow> start = 0 \<and> rows = q_size q) \<and> (\<not> q_size q \<le> h \<longrightarrow> rows = h)"
  using assms by (auto simp: list_start_def half_def Let_def split: if_splits)

text \<open>What is drawn of a queue that is not empty, with and without a selection.\<close>

lemma draw_list_rows:
  assumes "queue_of h q as" and "- 1 \<le> q_selected q" and "q_selected q < q_size q" and "0 < q_size q" and "3 < win_height"
  shows "\<exists>v start. draw_list win_height have_focus h q = Inr (v, q) \<and> 0 \<le> start \<and> start \<le> max 0 (q_selected q) \<and>
    q_selected q < start + (win_height - 3) \<and> \<not> lv_no_entries v \<and>
    lv_rows v = map (\<lambda>j. (int j - start + 2, fst (entry_at h (as ! j)), int j = q_selected q \<and> have_focus))
      [nat start..<nat (min (start + (win_height - 3)) (q_size q))] \<and>
    lv_line v = (if q_selected q \<ge> 0 \<and> have_focus then Some (q_selected q - start + 2) else None) \<and>
    (lv_up_arrow v \<longleftrightarrow> 0 < start) \<and> (lv_down_arrow v \<longleftrightarrow> start + (win_height - 3) < q_size q)"
proof -
  obtain start rows where sr: "list_start (win_height - 3) q = (start, rows)" by fastforce
  note r = list_start_range [OF _ assms(2-4) sr]
  have size: "q_size q = int (length as)" and ch: "chain (cells h) (q_head q) as None"
    using assms(1) by (auto simp: queue_of_def)
  let ?s = "nat start"
  have s: "?s \<le> length as" "0 \<le> start" "start \<le> max 0 (q_selected q)" "q_selected q < start + rows" "rows \<le> win_height - 3"
    using r assms(3-5) size by auto
  have "chain (cells h) (q_head q) (take ?s as @ drop ?s as) None" using ch by simp
  from move_to_entry_chain [OF this] s(1) obtain m where m: "move_to_entry ?s h (q_head q) = Inr m"
      "chain (cells h) m (drop ?s as) None" by auto
  let ?sel = "\<lambda>i. i + start = q_selected q \<and> have_focus"
  have count: "min (nat rows) (length (drop ?s as)) = nat (min (start + (win_height - 3)) (q_size q)) - ?s"
    using r assms(5) size s(1,2) by (cases "q_size q \<le> win_height - 3") auto
  have "print_entries (nat rows) 0 ?sel h m =
      Inr (map (\<lambda>j. (0 + int j + 2, fst (entry_at h (drop ?s as ! j)), ?sel (0 + int j))) [0..<min (nat rows) (length (drop ?s as))])"
    by (rule print_entries_chain [OF m(2)])
  also have "map (\<lambda>j. (0 + int j + 2, fst (entry_at h (drop ?s as ! j)), ?sel (0 + int j))) [0..<min (nat rows) (length (drop ?s as))] =
      map (\<lambda>j. (int j - start + 2, fst (entry_at h (as ! j)), int j = q_selected q \<and> have_focus))
        [?s..<nat (min (start + (win_height - 3)) (q_size q))]" (is "_ = ?rows")
    unfolding count by (rule nth_equalityI) (use s(1,2) in \<open>auto simp: add.commute\<close>)
  finally have rows: "print_entries (nat rows) 0 ?sel h m = Inr ?rows" .
  have same: "(if q_size q \<ge> q_wanted_size q \<and> q_selected q \<ge> q_size q then q\<lparr>q_selected := q_size q - 1\<rparr> else q) = q"
    and nonempty: "\<not> q_size q \<le> 0" using assms(3,4) by auto
  have "draw_list win_height have_focus h q =
      Inr (\<lparr>lv_no_entries = False, lv_up_arrow = (\<not> q_size q \<le> win_height - 3 \<and> start > 0),
             lv_down_arrow = (\<not> q_size q \<le> win_height - 3 \<and> start + rows < q_size q),
             lv_line = (if q_selected q \<ge> 0 \<and> have_focus then Some (q_selected q - start + 2) else None), lv_rows = ?rows\<rparr>, q)"
    unfolding draw_list_def same Let_def sr using nonempty m(1) rows by simp
  then show ?thesis using r assms(5) s by (intro exI conjI) auto
qed

text \<open>A list window with the focus shows a run of the entries of its queue, one below the other, within its
  borders, and the selected song is among them and the only one marked; the arrows at
  the edge tell whether there are entries above and below.\<close>
theorem selection_is_visible:
  assumes "queue_of h q as" and "0 \<le> q_selected q" and "q_selected q < q_size q" and "3 < win_height"
  shows "\<exists>v start. draw_list win_height True h q = Inr (v, q) \<and> 0 \<le> start \<and> start \<le> q_selected q \<and>
    q_selected q < start + (win_height - 3) \<and>
    lv_rows v = map (\<lambda>j. (int j - start + 2, fst (entry_at h (as ! j)), int j = q_selected q))
      [nat start..<nat (min (start + (win_height - 3)) (q_size q))] \<and>
    lv_line v = Some (q_selected q - start + 2) \<and>
    (lv_up_arrow v \<longleftrightarrow> 0 < start) \<and> (lv_down_arrow v \<longleftrightarrow> start + (win_height - 3) < q_size q)"
proof -
  have "- 1 \<le> q_selected q" "0 < q_size q" using assms(2,3) by simp_all
  from draw_list_rows [OF assms(1) this(1) assms(3) this(2) assms(4), of True] show ?thesis using assms(2) by (simp add: max_def) blast
qed

definition ex_heap :: heap where
  "ex_heap = \<lparr>cells = [1 \<mapsto> \<lparr>entry_next = Some 4, entry_song = Some 7, entry_start = Some 0\<rparr>,
                      4 \<mapsto> \<lparr>entry_next = Some 2, entry_song = Some 8, entry_start = Some 0\<rparr>,
                      2 \<mapsto> \<lparr>entry_next = None, entry_song = Some 9, entry_start = Some 0\<rparr>], next_address = 5\<rparr>"

definition ex_queue :: song_queue where
  "ex_queue = \<lparr>q_head = Some 1, q_tail = Some 2, q_size = 3, q_wanted_size = 3, q_selected = 2\<rparr>"

theorem selection_is_visible_witness:
  "\<exists>v. draw_list 5 True ex_heap ex_queue = Inr (v, ex_queue) \<and>
     (\<exists>start. lv_rows v = map (\<lambda>j. (int j - start + 2, fst (entry_at ex_heap ([1, 4, 2] ! j)), int j = 2))
        [nat start..<nat (min (start + 2) 3)] \<and> start \<le> 2 \<and> 2 < start + 2)"
proof -
  have "queue_of ex_heap ex_queue [1, 4, 2]" by (simp add: queue_of_def ex_heap_def ex_queue_def)
  from selection_is_visible [OF this, of 5] show ?thesis by (simp add: ex_queue_def) blast
qed

end
