(* ===== verification/Empeg_Text.thy ===== *)
theory Empeg_Text
  imports Vfd_Shades Meta_Text Song_List
begin

text \<open>
  Strings on the display of the empeg (\<open>src/src/display.c\<close>): \<open>draw_string_monospaced_empeg()\<close>,
  \<open>draw_string_empeg()\<close>, which cuts a string to a number of pixels, and
  \<open>draw_meta_string_empeg()\<close>, which joins the values of some keys of a song.  Both work in
  a buffer of their own; a write outside of it is a fault.  Squash never sets the clip area
  of the library.
\<close>

section \<open>Strings\<close>

abbreviation draw_text :: "byte list \<Rightarrow> string \<Rightarrow> int \<Rightarrow> int \<Rightarrow> int \<Rightarrow> byte list result" where
  "draw_text buffer s left row shade \<equiv> drawText full_clip_area buffer s left row 2 shade"

fun draw_string_monospaced_empeg :: "byte list \<Rightarrow> string \<Rightarrow> int \<Rightarrow> int \<Rightarrow> int \<Rightarrow> byte list result" where
  "draw_string_monospaced_empeg buffer [] row x spacing = Inr buffer"
| "draw_string_monospaced_empeg buffer (c # cs) row x spacing =
     and_then (getTextWidth [c] 2) (\<lambda>width.
     and_then (draw_text buffer [c] (x + half (spacing - width + 1)) row 3) (\<lambda>buffer.
       draw_string_monospaced_empeg buffer cs row (x + spacing) spacing))"

text \<open>
  The loop of \<open>draw_string_empeg()\<close>.  Writing the end of the string in front of the buffer is
  a fault.
\<close>

definition trim_length :: "int \<Rightarrow> int" where
  "trim_length excess = (let t = (excess + 5) div 6 in if t < 1 then 1 else t)"

function (sequential) trim_text :: "string \<Rightarrow> int \<Rightarrow> string result" where
  "trim_text line_buffer width =
     (case getTextWidth line_buffer 2 of
        Inl e \<Rightarrow> Inl e
      | Inr w \<Rightarrow>
        (let cur_width = w - 1;
             line_width = int (length line_buffer) - trim_length (cur_width - width) in
         if cur_width > width
         then if line_width < 0 then Inl Out_Of_Bounds else trim_text (take (nat line_width) line_buffer) width
         else Inr line_buffer))"
  by pat_completeness auto
termination
proof (relation "measure (\<lambda>(line, width). length line)")
  fix line :: string and width w cur line_width
  assume "line_width = int (length line) - trim_length (cur - width)" "\<not> line_width < (0 :: int)"
  moreover have "1 \<le> trim_length (cur - width)" by (simp add: trim_length_def Let_def)
  ultimately show "((take (nat line_width) line, width), line, width) \<in> measure (\<lambda>(line, width). length line)"
    by simp
qed simp

declare trim_text.simps [simp del]

definition draw_string_empeg :: "byte list \<Rightarrow> string \<Rightarrow> int \<Rightarrow> int \<Rightarrow> int \<Rightarrow> byte list result" where
  "draw_string_empeg buffer string row left width =
     and_then (trim_text string width) (\<lambda>line_buffer. draw_text buffer line_buffer left row 3)"

section \<open>The values of some keys\<close>

text \<open>\<open>line_buffer\<close>, \<open>line_width\<close>, \<open>line_pixel_width\<close> and \<open>added_trail\<close>.\<close>

record meta_line =
  ml_buffer :: string
  ml_width :: int
  ml_pixels :: int
  ml_trail :: bool

definition add_char :: "char \<Rightarrow> meta_line \<Rightarrow> meta_line result" where
  "add_char c l =
     and_then (write_at (ml_buffer l) (ml_width l) c) (\<lambda>b.
     map_result (\<lambda>w. l\<lparr>ml_buffer := b, ml_width := ml_width l + 1, ml_pixels := ml_pixels l + w\<rparr>)
       (getTextWidth [c] 2))"

fun add_value :: "int \<Rightarrow> string \<Rightarrow> meta_line \<Rightarrow> meta_line result" where
  "add_value line_alloc [] l = Inr l"
| "add_value line_alloc (c # cs) l =
     (if ml_width l < line_alloc then and_then (add_char c l) (add_value line_alloc cs) else Inr l)"

text \<open>A value that is a null pointer is read.\<close>

fun add_values :: "int \<Rightarrow> string option list \<Rightarrow> meta_line \<Rightarrow> meta_line result" where
  "add_values line_alloc [] l = Inr l"
| "add_values line_alloc (v # vs) l =
     (if ml_width l < line_alloc
      then
        case v of
          None \<Rightarrow> Inl Null_Deref
        | Some s \<Rightarrow>
          and_then (add_value line_alloc s l) (\<lambda>l.
          and_then (add_char (CHR '';'') l) (\<lambda>l.
          and_then (add_char (CHR '' '') l) (\<lambda>l. add_values line_alloc vs (l\<lparr>ml_trail := True\<rparr>))))
      else Inr l)"

fun add_keys :: "int \<Rightarrow> song_info option \<Rightarrow> string list \<Rightarrow> meta_line \<Rightarrow> meta_line result" where
  "add_keys line_alloc song [] l = Inr l"
| "add_keys line_alloc song (k # ks) l =
     (if ml_width l < line_alloc
      then
        and_then (case get_meta_data song k of None \<Rightarrow> Inr l | Some m \<Rightarrow> add_values line_alloc (mvalues m) l)
          (add_keys line_alloc song ks)
      else Inr l)"

definition remove_trail :: "meta_line \<Rightarrow> meta_line result" where
  "remove_trail l =
     (if ml_trail l
      then
        and_then (write_at (ml_buffer l) (ml_width l - 2) NUL) (\<lambda>b.
        and_then (getTextWidth '';'' 2) (\<lambda>semicolon_width.
        map_result (\<lambda>space_width.
            l\<lparr>ml_buffer := b, ml_width := ml_width l - 2, ml_pixels := ml_pixels l - semicolon_width - space_width\<rparr>)
          (getTextWidth '' '' 2)))
      else Inr l)"

text \<open>Moving the ellipsis one character to the left.\<close>

definition pull_ellipsis :: "meta_line \<Rightarrow> meta_line result" where
  "pull_ellipsis l =
     and_then (read_at (ml_buffer l) (ml_width l - 4)) (\<lambda>c.
     and_then (getTextWidth [c] 2) (\<lambda>w.
     and_then (getTextWidth ''.'' 2) (\<lambda>dot_width.
     and_then (write_at (ml_buffer l) (ml_width l - 4) (CHR ''.'')) (\<lambda>b.
     map_result (\<lambda>b. l\<lparr>ml_buffer := b, ml_width := ml_width l - 1, ml_pixels := ml_pixels l - w + dot_width - dot_width\<rparr>)
       (write_at b (ml_width l - 1) NUL)))))"

fun fit_ellipsis :: "nat \<Rightarrow> int \<Rightarrow> meta_line \<Rightarrow> meta_line result" where
  "fit_ellipsis 0 width l = Inr l"
| "fit_ellipsis (Suc n) width l =
     (if ml_pixels l > width \<and> ml_width l - 4 > 0
      then and_then (pull_ellipsis l) (fit_ellipsis n width) else Inr l)"

definition meta_line_text :: "song_info option \<Rightarrow> string list \<Rightarrow> int \<Rightarrow> string result" where
  "meta_line_text song keys width =
     (let line_alloc = width + 3 in
      and_then (add_keys line_alloc song keys
        \<lparr>ml_buffer = replicate (nat (line_alloc + 1)) NUL, ml_width = 0, ml_pixels = 0, ml_trail = False\<rparr>) (\<lambda>l.
      and_then (remove_trail l) (\<lambda>l.
        let l = l\<lparr>ml_pixels := ml_pixels l - 1\<rparr> in
        map_result (\<lambda>l. c_str (ml_buffer l))
          (if ml_pixels l > width
           then
             and_then (fold_result add_char ''...'' l) (\<lambda>l. fit_ellipsis (nat (ml_width l)) width l)
           else Inr l))))"

definition draw_meta_string_empeg :: "byte list \<Rightarrow> song_info option \<Rightarrow> string list \<Rightarrow> int \<Rightarrow> int \<Rightarrow> int \<Rightarrow> byte list result" where
  "draw_meta_string_empeg buffer song keys row left width =
     and_then (getTextWidth ''...'' 2) (\<lambda>w.
       if w - 1 > width then Inr buffer
       else and_then (meta_line_text song keys width) (\<lambda>line_buffer. draw_text buffer line_buffer left row 3))"

section \<open>A string is cut to its width\<close>

text \<open>All characters but one are at most five pixels wide, with the gap six.\<close>

lemma advance_at_most: "advance 2 c \<le> (if c = CHR ''@'' then 7 else 6)"
proof (cases "printable c")
  case False
  then show ?thesis by (simp add: advance_def)
next
  case True
  have table: "list_all (\<lambda>i. snd (mediumFontInfo ! i) \<le> (if i = 31 then 6 else 5)) [0..<94]" by code_simp
  let ?i = "nat (of_char c - 33)"
  have "33 \<le> (of_char c :: int)" "(of_char c :: int) \<le> 126" using True by (simp_all add: printable_def)
  then have i: "?i < 94" "?i = 31 \<longleftrightarrow> (of_char c :: int) = 64" by auto
  have "(of_char c :: int) = 64 \<longleftrightarrow> (of_char c :: int) = of_char (CHR ''@'')" by simp
  then have "?i = 31 \<longleftrightarrow> c = CHR ''@''" using i(2) by (simp only: of_char_eq_iff)
  moreover have "snd (mediumFontInfo ! ?i) \<le> (if ?i = 31 then 6 else 5)"
    using table i(1) unfolding list_all_iff set_upt by fastforce
  ultimately show ?thesis using True by (auto simp: advance_def glyph_def getFontInfo_def)
qed

lemma text_width_at_most: "text_width 2 s \<le> 6 * int (length s) + int (count_list s (CHR ''@''))"
proof (induction s)
  case (Cons c s)
  then show ?case using advance_at_most [of c] by (auto split: if_splits)
qed simp

lemma count_list_take: "count_list (take n s) c \<le> count_list s c"
  by (metis append_take_drop_id count_list_append le_add1)

text \<open>A string with few at-signs is cut to a prefix that fits into the pixels it is given, and
  one that fits already is not cut; nothing outside the copy is written.\<close>
theorem string_fits:
  assumes "- 1 \<le> width" and "int (count_list s (CHR ''@'')) \<le> width + 1"
  shows "\<exists>k. trim_text s width = Inr (take k s) \<and> text_width 2 (take k s) - 1 \<le> width \<and>
    (text_width 2 s - 1 \<le> width \<longrightarrow> take k s = s)"
  using assms
proof (induction s width rule: trim_text.induct)
  case (1 s width)
  show ?case
  proof (cases "text_width 2 s - 1 \<le> width")
    case True
    then have "trim_text s width = Inr (take (length s) s)"
      by (subst trim_text.simps) (simp add: getTextWidth_eq)
    then show ?thesis using True by (intro exI [of _ "length s"]) simp
  next
    case False
    let ?line = "int (length s) - trim_length (text_width 2 s - 1 - width)"
    have "?line \<ge> 0"
      using False text_width_at_most [of s] "1.prems" by (auto simp: trim_length_def Let_def)
    then have step: "trim_text s width = trim_text (take (nat ?line) s) width"
      using False by (subst trim_text.simps) (simp add: getTextWidth_eq Let_def)
    have "int (count_list (take (nat ?line) s) (CHR ''@'')) \<le> width + 1"
      using "1.prems"(2) count_list_take [of "nat ?line" s "CHR ''@''"] by linarith
    with "1.IH" [OF getTextWidth_eq refl refl _ _ "1.prems"(1)] False \<open>?line \<ge> 0\<close> obtain k where
      "trim_text (take (nat ?line) s) width = Inr (take k (take (nat ?line) s))"
      "text_width 2 (take k (take (nat ?line) s)) - 1 \<le> width" by fastforce
    then show ?thesis using step False by (intro exI [of _ "min k (nat ?line)"]) simp
  qed
qed

theorem string_fits_witness:
  "\<exists>k. trim_text ''Squash is shutting down, please wait'' 60 = Inr (take k ''Squash is shutting down, please wait'') \<and>
     text_width 2 (take k ''Squash is shutting down, please wait'') - 1 \<le> 60"
  using string_fits [of 60 "''Squash is shutting down, please wait''"] by auto

text \<open>Too many at-signs: the end of the string would be written in front of the buffer.\<close>

theorem at_signs_underflow: "trim_text (replicate 130 (CHR ''@'')) 128 = Inl Out_Of_Bounds"
  by code_simp

section \<open>The values are joined and cut\<close>

lemma add_values_full: "\<not> ml_width l < a \<Longrightarrow> add_values a vs l = Inr l"
  by (cases vs) simp_all

lemma add_values_append:
  "add_values a (vs @ ws) l = and_then (add_values a vs l) (add_values a ws)"
  by (induction a vs l rule: add_values.induct) (auto simp: add_values_full split: option.splits)

lemma add_keys_values: "add_keys a song ks l = add_values a (all_values song ks) l"
proof (induction ks arbitrary: l)
  case (Cons k ks)
  then have "add_keys a song ks = add_values a (all_values song ks)" by (simp add: fun_eq_iff)
  then show ?case
    by (auto simp: all_values_def add_values_append add_values_full split: option.splits)
qed (simp add: all_values_def)

text \<open>A buffer of \<open>n\<close> bytes that begins with the text \<open>t\<close>.\<close>

definition line_of :: "nat \<Rightarrow> string \<Rightarrow> bool \<Rightarrow> meta_line" where
  "line_of n t trail = \<lparr>ml_buffer = t @ replicate (n - length t) NUL, ml_width = int (length t),
     ml_pixels = text_width 2 t, ml_trail = trail\<rparr>"

lemma line_of_simps [simp]:
  "ml_width (line_of n t b) = int (length t)" "ml_pixels (line_of n t b) = text_width 2 t"
  "ml_trail (line_of n t b) = b" "ml_buffer (line_of n t b) = t @ replicate (n - length t) NUL"
  "line_of n t b\<lparr>ml_trail := b'\<rparr> = line_of n t b'"
  by (simp_all add: line_of_def)

lemma add_char_line:
  "add_char c (line_of n t b) = (if length t < n then Inr (line_of n (t @ [c]) b) else Inl Out_Of_Bounds)"
proof (cases "length t < n")
  case True
  then have "replicate (n - length t) NUL = NUL # replicate (n - Suc (length t)) NUL"
    by (simp flip: replicate_Suc add: Suc_diff_Suc)
  then show ?thesis using True
    by (simp add: add_char_def write_at_def getTextWidth_eq line_of_def list_update_append)
next
  case False
  then show ?thesis by (simp add: add_char_def write_at_def)
qed

lemma add_value_line:
  assumes "length t \<le> a" and "a \<le> n"
  shows "add_value (int a) s (line_of n t b) = Inr (line_of n (t @ take (a - length t) s) b)"
  using assms(1)
proof (induction s arbitrary: t)
  case (Cons c s)
  show ?case
  proof (cases "length t < a")
    case True
    then have "Suc (length t) \<le> a" by simp
    moreover have "a - length t = Suc (a - Suc (length t))" using True by simp
    ultimately show ?thesis using Cons.IH [of "t @ [c]"] True assms(2) by (simp add: add_char_line)
  qed (use Cons.prems in simp)
qed simp

lemma add_values_line:
  assumes "length (t @ concat (map with_trail vs)) \<le> a" and "a \<le> n"
  shows "add_values (int a) (map Some vs) (line_of n t b) =
    Inr (line_of n (t @ concat (map with_trail vs)) (b \<or> vs \<noteq> []))"
  using assms(1)
proof (induction vs arbitrary: t b)
  case (Cons v vs)
  have v: "add_value (int a) v (line_of n t b) = Inr (line_of n (t @ v) b)"
    using Cons.prems assms(2) by (simp add: add_value_line)
  have len: "length (t @ v) + 1 < n" "length t < a" using Cons.prems assms(2) by simp_all
  have "length ((t @ with_trail v) @ concat (map with_trail vs)) \<le> a" using Cons.prems by simp
  from Cons.IH [OF this, of True] v len show ?case
    by (simp add: add_char_line)
qed simp

text \<open>While the ellipsis moves, it stands behind the first \<open>k\<close> characters, and the end behind it.\<close>

definition ellipsis_line :: "string \<Rightarrow> nat \<Rightarrow> string \<Rightarrow> meta_line \<Rightarrow> bool" where
  "ellipsis_line t k rest l \<longleftrightarrow> ml_buffer l = take k t @ ''...'' @ rest \<and> ml_width l = int k + 3 \<and>
     ml_pixels l = text_width 2 (take k t @ ''...'') - 1"

lemma dot_advance: "advance 2 (CHR ''.'') = 2"
  by code_simp

lemma pull_ellipsis_step:
  assumes "ellipsis_line t (Suc k) rest l" and "k < length t"
  shows "\<exists>l'. pull_ellipsis l = Inr l' \<and> ellipsis_line t k (NUL # rest) l'"
proof -
  have t: "take (Suc k) t = take k t @ [t ! k]" using assms(2) by (rule take_Suc_conv_app_nth)
  have b: "ml_buffer l = take k t @ t ! k # ''...'' @ rest" "ml_width l = int k + 4"
    using assms(1) by (simp_all add: ellipsis_line_def t)
  have k: "length (take k t) = k" using assms(2) by simp
  have r: "read_at (ml_buffer l) (ml_width l - 4) = Inr (t ! k)"
    using k unfolding b by (simp add: read_at_def nth_append)
  have w: "write_at (ml_buffer l) (ml_width l - 4) (CHR ''.'') = Inr (take k t @ ''....'' @ rest)"
    using k unfolding b by (simp add: write_at_def list_update_append)
  have "nat (ml_width l - 1) = length (take k t @ ''...'')" using k unfolding b by simp
  then have e: "write_at (take k t @ ''....'' @ rest) (ml_width l - 1) NUL = Inr (take k t @ ''...'' @ NUL # rest)"
    using k unfolding b by (simp add: write_at_def list_update_append)
  show ?thesis
    using assms(1) r w e by (simp add: pull_ellipsis_def getTextWidth_eq ellipsis_line_def t)
qed

lemma ellipsis_text:
  assumes "ellipsis_line t k rest l" and "NUL \<notin> set t" and "rest = [] \<or> hd rest = NUL"
  shows "c_str (ml_buffer l) = take k t @ ''...''"
proof -
  have "\<forall>c \<in> set (take k t @ ''...''). c \<noteq> NUL" using assms(2) by (auto dest: in_set_takeD)
  moreover have "takeWhile (\<lambda>c. c \<noteq> NUL) rest = []" using assms(3) by (cases rest) auto
  moreover have "ml_buffer l = (take k t @ ''...'') @ rest" using assms(1) by (simp add: ellipsis_line_def)
  ultimately show ?thesis 
    using takeWhile_append2 [of "take k t @ ''...''" "\<lambda>c. c \<noteq> NUL" rest] unfolding c_str_def by (metis append_Nil2)
qed

definition cut_fits :: "int \<Rightarrow> string \<Rightarrow> nat \<Rightarrow> bool" where
  "cut_fits width t k \<longleftrightarrow> text_width 2 (take k t @ ''...'') - 1 \<le> width"

lemma fit_ellipsis_stops:
  assumes "ellipsis_line t k rest l" and "k \<le> length t" and "k \<le> n" and "NUL \<notin> set t"
    and "cut_fits width t k \<or> k \<le> 1 \<Longrightarrow> rest = [] \<or> hd rest = NUL"
  shows "\<exists>l' k'. fit_ellipsis n width l = Inr l' \<and> c_str (ml_buffer l') = take k' t @ ''...'' \<and> k' \<le> k \<and>
    (cut_fits width t k' \<or> k' \<le> 1) \<and> (\<forall>i. k' < i \<and> i \<le> k \<longrightarrow> \<not> cut_fits width t i)"
  using assms
proof (induction n arbitrary: k rest l)
  case 0
  then show ?case using ellipsis_text [of t k rest l] by (auto intro!: exI [of _ k])
next
  case (Suc n)
  have stop: "ml_pixels l > width \<and> ml_width l - 4 > 0 \<longleftrightarrow> \<not> (cut_fits width t k \<or> k \<le> 1)"
    using Suc.prems(1) by (auto simp: ellipsis_line_def cut_fits_def)
  show ?case
  proof (cases "cut_fits width t k \<or> k \<le> 1")
    case True
    then have "fit_ellipsis (Suc n) width l = Inr l" using stop by auto
    then show ?thesis
      using ellipsis_text [OF Suc.prems(1,4) Suc.prems(5) [OF True]] True by (auto intro!: exI [of _ k])
  next
    case False
    then obtain j where k: "k = Suc j" by (cases k) auto
    obtain l1 where l1: "pull_ellipsis l = Inr l1" "ellipsis_line t j (NUL # rest) l1"
      using pull_ellipsis_step Suc.prems(1,2) unfolding k by force
    have run: "fit_ellipsis (Suc n) width l = fit_ellipsis n width l1" using stop False l1(1) by auto
    from Suc.IH [OF l1(2) _ _ Suc.prems(4)] Suc.prems(2,3) k obtain l' k' where
      "fit_ellipsis n width l1 = Inr l'" "c_str (ml_buffer l') = take k' t @ ''...''" "k' \<le> j"
      "cut_fits width t k' \<or> k' \<le> 1" "\<forall>i. k' < i \<and> i \<le> j \<longrightarrow> \<not> cut_fits width t i" by auto
    then show ?thesis using run False k by (intro exI [of _ l'] exI [of _ k']) (auto simp: le_Suc_eq)
  qed
qed

lemma remove_trail_line:
  assumes "length t + 2 \<le> n"
  shows "remove_trail (line_of n (t @ ''; '') True) =
    Inr \<lparr>ml_buffer = t @ NUL # CHR '' '' # replicate (n - length t - 2) NUL, ml_width = int (length t),
      ml_pixels = text_width 2 t, ml_trail = True\<rparr>"
  using assms by (simp add: remove_trail_def write_at_def getTextWidth_eq line_of_def list_update_append)

lemma add_dots:
  assumes "ml_buffer l = t @ a # b # rest" and "ml_width l = int (length t)" and "rest \<noteq> []"
    and "ml_pixels l = text_width 2 t - 1"
  shows "\<exists>l'. fold_result add_char ''...'' l = Inr l' \<and> ellipsis_line t (length t) (tl rest) l'"
proof -
  obtain c cs where r: "rest = c # cs" using assms(3) by (cases rest) auto
  have at: "nat (int (length t) + 1) = Suc (length t)" "nat (2 + int (length t)) = Suc (Suc (length t))" by simp_all
  show ?thesis
    using assms
    by (simp add: add_char_def write_at_def getTextWidth_eq list_update_append ellipsis_line_def r at)
qed

lemma cut_fits_1:
  assumes "12 \<le> width" and "k \<le> 1"
  shows "cut_fits width t k"
proof -
  have "text_width 2 (take k t) \<le> 6 * int (length (take k t)) + int (count_list (take k t) (CHR ''@''))"
    by (rule text_width_at_most)
  also have "\<dots> \<le> 7" using assms(2) count_le_length [of "take k t" "CHR ''@''"] by (simp add: min_def split: if_splits)
  finally show ?thesis using assms(1) by (simp add: cut_fits_def dot_advance)
qed

lemma meta_line_text_run:
  assumes "0 \<le> width"
  shows "meta_line_text song keys width =
    and_then (add_values (width + 3) (all_values song keys) (line_of (Suc (nat (width + 3))) [] False)) (\<lambda>l.
    and_then (remove_trail l) (\<lambda>l.
      map_result (\<lambda>l. c_str (ml_buffer l))
        (if ml_pixels l - 1 > width
         then and_then (fold_result add_char ''...'' (l\<lparr>ml_pixels := ml_pixels l - 1\<rparr>)) (\<lambda>l. fit_ellipsis (nat (ml_width l)) width l)
         else Inr (l\<lparr>ml_pixels := ml_pixels l - 1\<rparr>))))"
proof -
  have "nat (width + 3 + 1) = Suc (nat (width + 3))" using assms by simp
  then have "\<lparr>ml_buffer = replicate (nat (width + 3 + 1)) NUL, ml_width = 0, ml_pixels = 0, ml_trail = False\<rparr>
      = line_of (Suc (nat (width + 3))) [] False" by (simp add: line_of_def del: replicate_Suc)
  then show ?thesis by (simp only: meta_line_text_def Let_def add_keys_values) simp
qed

lemma meta_text_cut:
  assumes "12 \<le> width" and "all_values song keys = map Some vs" and "\<forall>v \<in> set vs. NUL \<notin> set v"
    and "int (length (joined vs)) \<le> width + 1"
  shows "if text_width 2 (joined vs) - 1 \<le> width then meta_line_text song keys width = Inr (joined vs)
    else \<exists>k < length (joined vs). meta_line_text song keys width = Inr (take k (joined vs) @ ''...'') \<and>
      cut_fits width (joined vs) k \<and> (\<forall>i. k < i \<and> i \<le> length (joined vs) \<longrightarrow> \<not> cut_fits width (joined vs) i)"
proof -
  let ?J = "joined vs" and ?a = "nat (width + 3)"
  have no_nul: "NUL \<notin> set ?J" using assms(3) by (rule joined_no_NUL)
  have a: "int ?a = width + 3" using assms(1) by auto
  have w: "0 \<le> width" using assms(1) by simp
  show ?thesis
  proof (cases "vs = []")
    case True
    have "add_values (width + 3) [] (line_of (Suc ?a) [] False) = Inr (line_of (Suc ?a) [] False)" by simp
    then show ?thesis
      using True assms(1,2) by (simp add: meta_line_text_run [OF w] remove_trail_def c_str_def)
  next
    case False
    let ?rest = "replicate (Suc ?a - length ?J - 2) NUL"
    let ?l = "\<lparr>ml_buffer = ?J @ NUL # CHR '' '' # ?rest, ml_width = int (length ?J), ml_pixels = text_width 2 ?J - 1, ml_trail = True\<rparr>"
    have len: "length ?J + 2 \<le> ?a" using assms(4) a by linarith
    have "add_values (width + 3) (map Some vs) (line_of (Suc ?a) [] False) = Inr (line_of (Suc ?a) (?J @ ''; '') True)"
      using add_values_line [of "[]" vs ?a "Suc ?a" False] len False a by (simp add: joined_trail)
    then have run: "meta_line_text song keys width = map_result (\<lambda>l. c_str (ml_buffer l))
        (if text_width 2 ?J - 1 > width
         then and_then (fold_result add_char ''...'' ?l) (\<lambda>l. fit_ellipsis (nat (ml_width l)) width l) else Inr ?l)"
      using len assms(2) by (simp add: meta_line_text_run [OF w] remove_trail_line del: fold_result.simps)
    show ?thesis
    proof (cases "text_width 2 ?J - 1 \<le> width")
      case True
      moreover have "c_str (ml_buffer ?l) = ?J"
        using no_nul by (simp add: c_str_stop)
      ultimately show ?thesis using run by simp
    next
      case wide: False
      have "?rest \<noteq> []" using len by simp
      from add_dots [of ?l ?J NUL "CHR '' ''" ?rest, OF _ _ this] obtain l where
        l: "fold_result add_char ''...'' ?l = Inr l" "ellipsis_line ?J (length ?J) (tl ?rest) l" by auto
      have long: "length ?J \<le> nat (ml_width l)" using l(2) by (auto simp: ellipsis_line_def)
      have "\<not> cut_fits width ?J (length ?J)" using wide by (simp add: cut_fits_def dot_advance)
      moreover have "1 < length ?J" using cut_fits_1 [OF assms(1)] calculation by (metis linorder_not_le)
      ultimately obtain l' k where k: "fit_ellipsis (nat (ml_width l)) width l = Inr l'" "c_str (ml_buffer l') = take k ?J @ ''...''"
          "k \<le> length ?J" "cut_fits width ?J k \<or> k \<le> 1" "\<forall>i. k < i \<and> i \<le> length ?J \<longrightarrow> \<not> cut_fits width ?J i"
        using fit_ellipsis_stops [OF l(2) order_refl long no_nul, of width] by auto
      have "cut_fits width ?J k" using k(4) cut_fits_1 [OF assms(1)] by blast
      moreover have "k \<noteq> length ?J" using calculation \<open>\<not> cut_fits width ?J (length ?J)\<close> by blast
      ultimately show ?thesis using run wide l(1) k by (auto intro!: exI [of _ k] simp del: fold_result.simps)
    qed
  qed
qed

text \<open>C30. The values of the keys of a song are shown joined by semicolons if they fit into the pixels
  there are; else the longest beginning that fits together with the ellipsis behind it.  As
  long as they are not much longer than that, nothing outside the buffer is touched.\<close>
theorem meta_text_shown:
  assumes "12 \<le> width" and "all_values song keys = map Some vs" and "\<forall>v \<in> set vs. NUL \<notin> set v"
    and "int (length (joined vs)) \<le> width + 1"
  shows "if text_width 2 (joined vs) - 1 \<le> width then meta_line_text song keys width = Inr (joined vs)
    else \<exists>k < length (joined vs). meta_line_text song keys width = Inr (take k (joined vs) @ ''...'') \<and>
      cut_fits width (joined vs) k \<and> (\<forall>i. k < i \<and> i \<le> length (joined vs) \<longrightarrow> \<not> cut_fits width (joined vs) i)"
  by (rule meta_text_cut [OF assms])


definition sample_song :: "string \<Rightarrow> song_info" where
  "sample_song title = \<lparr>basename = (\<lambda>_. []), filename = ''a.ogg'', meta_keys = [\<lparr>mkey = ''title'', mvalues = [Some title]\<rparr>],
     meta_key_count = 1, stat = \<lparr>play_count = 0, skip_count = 0, repeat_counter = 0, manual_rating = - 1, stat_changed = False\<rparr>,
     play_length = 1000, song_type = Some TYPE_OGG\<rparr>"

lemma sample_song_title: "all_values (Some (sample_song t)) [''title''] = [Some t]"
  by (simp add: all_values_def get_meta_data_def sample_song_def strcasecmp0_def)

theorem meta_text_shown_witness:
  "\<exists>k < 24. meta_line_text (Some (sample_song ''Money for Nothing (live)'')) [''title''] 60 =
     Inr (take k ''Money for Nothing (live)'' @ ''...'')"
proof -
  let ?t = "''Money for Nothing (live)''"
  have wide: "\<not> text_width 2 (joined [?t]) - 1 \<le> 60" by code_simp
  have "NUL \<notin> set ?t" "int (length (joined [?t])) \<le> 60 + 1" "length (joined [?t]) = 24" by simp_all
  with meta_text_shown [of 60 "Some (sample_song ?t)" "[''title'']" "[?t]"] sample_song_title [of ?t] wide show ?thesis
    by (simp only: list.map list.set joined.simps if_False) auto
qed

text \<open>A value with more than a character more than there are pixels, such as a title of 130
  characters on the screen of 128, makes \<open>draw_meta_string_empeg()\<close> write past the end of
  its buffer.\<close>
theorem long_value_overflows:
  assumes "5 \<le> width" and "all_values song keys = Some v # rest" and "width + 2 \<le> int (length v)"
  shows "draw_meta_string_empeg buffer song keys row left width = Inl Out_Of_Bounds"
proof -
  let ?a = "nat (width + 3)"
  have a: "int ?a = width + 3" using assms(1) by auto
  have w: "0 \<le> width" using assms(1) by simp
  let ?t = "take ?a v"
  have filled: "add_value (width + 3) v (line_of (Suc ?a) [] False) = Inr (line_of (Suc ?a) ?t False)"
    using add_value_line [of "[]" ?a "Suc ?a" v False] a by simp
  have "meta_line_text song keys width = Inl Out_Of_Bounds"
  proof (cases "length ?t < ?a")
    case False
    then have "length ?t = ?a" by simp
    then show ?thesis
      using filled a assms(1,2) by (simp add: meta_line_text_run [OF w] add_char_line del: length_take)
  next
    case True
    then have v: "?t = v" "length v + 1 = ?a" using assms(3) a by auto
    have "add_values (width + 3) (Some v # rest) (line_of (Suc ?a) [] False) = Inr (line_of (Suc ?a) (v @ ''; '') True)"
      using filled a assms(1) v by (simp add: add_char_line add_values_full)
    moreover have "remove_trail (line_of (Suc ?a) (v @ ''; '') True) =
        Inr \<lparr>ml_buffer = v @ [NUL, CHR '' ''], ml_width = int (length v), ml_pixels = text_width 2 v, ml_trail = True\<rparr>"
      using remove_trail_line [of v "Suc ?a"] v(2) by simp
    moreover have "text_width 2 v - 1 > width" using text_width_length [of v 2] assms(3) by simp
    ultimately show ?thesis
      using assms(2)
      by (simp add: meta_line_text_run [OF w] add_char_def write_at_def getTextWidth_eq)
  qed
  then show ?thesis using assms(1) by (simp add: draw_meta_string_empeg_def getTextWidth_eq dot_advance)
qed

theorem long_value_overflows_witness:
  "draw_meta_string_empeg (replicate 2048 0) (Some (sample_song (replicate 130 (CHR ''x'')))) [''title''] 6 0 128 = Inl Out_Of_Bounds"
  using long_value_overflows [of 128 "Some (sample_song (replicate 130 (CHR ''x'')))" "[''title'']" "replicate 130 (CHR ''x'')" "[]"]
  by (simp add: sample_song_title)

end
