(* ===== verification/Printf.thy ===== *)
theory Printf
  imports Floating "HOL-Library.Signed_Division"
begin

text \<open>
  The conversions of \<open>printf()\<close> that the two displays use, and the truncating conversion of a
  floating point number to an integer.
\<close>

definition pad :: "int \<Rightarrow> char \<Rightarrow> string \<Rightarrow> string" where
  "pad width c s = replicate (nat (width - int (length s))) c @ s"

text \<open>\<open>%3d\<close>, \<open>% 6d\<close> and \<open>%02d\<close>.\<close>

definition show_wide :: "int \<Rightarrow> int \<Rightarrow> string" where
  "show_wide width n = pad width (CHR '' '') (show_int n)"

definition show_spaced :: "int \<Rightarrow> int \<Rightarrow> string" where
  "show_spaced width n = pad width (CHR '' '') ((if n < 0 then [] else '' '') @ show_int n)"

definition show_02 :: "int \<Rightarrow> string" where
  "show_02 n = (if n < 0 then show_int n else pad 2 (CHR ''0'') (show_int n))"

text \<open>
  \<open>%f\<close> with a number of decimals, after the sign that is given for positive numbers.  \<open>None\<close>
  is a number that is not one, as 0 divided by 0.
\<close>

definition decimals :: "nat \<Rightarrow> real \<Rightarrow> string" where
  "decimals k x =
     (let n = round_half_even (\<bar>x\<bar> * 10 ^ k) in
      show_int (n div 10 ^ k) @ ''.'' @ pad (int k) (CHR ''0'') (show_int (n mod 10 ^ k)))"

definition show_fixed :: "string \<Rightarrow> int \<Rightarrow> nat \<Rightarrow> real option \<Rightarrow> string" where
  "show_fixed lead width k x =
     pad width (CHR '' '')
       (case x of None \<Rightarrow> ''nan'' | Some x \<Rightarrow> (if x < 0 then ''-'' else lead) @ decimals k x)"

text \<open>The conversion of a floating point number to an integer.\<close>

definition trunc :: "rat \<Rightarrow> int" where
  "trunc x = (if x < 0 then - floor (- x) else floor x)"

text \<open>
  A text printed as the format itself: an isolated percent sign asks for an argument that is
  not there.
\<close>

fun printf_plain :: "string \<Rightarrow> string result" where
  "printf_plain [] = Inr []"
| "printf_plain [c] = (if c = CHR ''%'' then Inl Missing_Argument else Inr [c])"
| "printf_plain (c # d # cs) =
     (if c = CHR ''%''
      then if d = CHR ''%'' then map_result ((#) c) (printf_plain cs) else Inl Missing_Argument
      else map_result ((#) c) (printf_plain (d # cs)))"

lemma printf_plain_id: "CHR ''%'' \<notin> set s \<Longrightarrow> printf_plain s = Inr s"
  by (induction s rule: printf_plain.induct) auto

end
