(* ===== verification/Empeg_Display.thy ===== *)
theory Empeg_Display
  imports Empeg_Text Empeg_Menu Printf
begin

text \<open>
  What the empeg shows: \<open>draw_stars_empeg()\<close>, \<open>draw_song_empeg()\<close> and \<open>draw_empeg_display()\<close> of
  \<open>src/src/display.c\<close>, as built without \<open>ADVENTURE\<close>, and that no screen touches
  memory outside of the display.  The division of C truncates: \<open>sdiv\<close>.
\<close>

section \<open>Stars\<close>

text \<open>The rows of the bitmaps, two bits per pixel.\<close>

definition whole_star :: "byte list" where
  "whole_star = [1, 0, 9, 0, 9,
     0x00, 0x03, 0x00,  0x00, 0x03, 0x00,  0xff, 0xff, 0xff,  0xf0, 0x3f, 0x00,  0xc0, 0x0f, 0x00,
     0xf0, 0x3f, 0x00,  0xf0, 0x3c, 0x00,  0x3c, 0xf0, 0x00,  0x0c, 0xc0, 0x00]"

definition half_star :: "byte list" where
  "half_star = [1, 0, 9, 0, 9,
     0x00, 0x03, 0x00,  0x00, 0x03, 0x00,  0xff, 0xab, 0x02,  0xf0, 0x2b, 0x00,  0xc0, 0x0b, 0x00,
     0xf0, 0x2b, 0x00,  0xf0, 0x28, 0x00,  0x3c, 0xa0, 0x00,  0x0c, 0x80, 0x00]"

definition no_star :: "byte list" where
  "no_star = [1, 0, 9, 0, 9,
     0x00, 0x02, 0x00,  0x00, 0x02, 0x00,  0xaa, 0xaa, 0x02,  0xa0, 0x2a, 0x00,  0x80, 0x0a, 0x00,
     0xa0, 0x2a, 0x00,  0xa0, 0x28, 0x00,  0x28, 0xa0, 0x00,  0x08, 0x80, 0x00]"

definition small_whole_star :: "byte list" where
  "small_whole_star = [1, 0, 5, 0, 5,  0x30, 0x00,  0xff, 0x03,  0xfc, 0x00,  0xcf, 0x03,  0x03, 0x03]"

definition small_half_star :: "byte list" where
  "small_half_star = [1, 0, 5, 0, 5,  0x30, 0x00,  0xbf, 0x02,  0xbc, 0x00,  0x8f, 0x02,  0x03, 0x02]"

definition small_no_star :: "byte list" where
  "small_no_star = [1, 0, 5, 0, 5,  0x20, 0x00,  0xaa, 0x02,  0xa8, 0x00,  0x8a, 0x02,  0x02, 0x02]"

text \<open>Drawing one thing after the other.\<close>

type_synonym drawing = "byte list \<Rightarrow> byte list result"

definition draws :: "drawing list \<Rightarrow> drawing" where
  "draws fs buffer = fold_result (\<lambda>f buffer. f buffer) fs buffer"

definition draw_picture :: "byte list \<Rightarrow> int \<Rightarrow> int \<Rightarrow> drawing" where
  "draw_picture bitmap x y buffer = drawBitmap full_clip_area buffer bitmap x y 0 0 (- 1) (- 1) (- 1) False"

text \<open>The three loops over \<open>i\<close>: the whole stars, the half one, and what is missing to five.\<close>

definition star_row :: "byte list \<Rightarrow> byte list \<Rightarrow> byte list \<Rightarrow> int \<Rightarrow> int \<Rightarrow> int \<Rightarrow> int \<Rightarrow> drawing" where
  "star_row whole part missing x step y rating =
     (let i = (if rating sdiv 2 < 0 then 0 else rating sdiv 2);
          j = (if rating smod 2 = 1 then i + 1 else i) in
      draws (map (\<lambda>i. draw_picture whole (x + i * step) y) [0..i - 1] @
             (if rating smod 2 = 1 then [draw_picture part (x + i * step) y] else []) @
             map (\<lambda>i. draw_picture missing (x + i * step) y) [j..4]))"

definition draw_stars_empeg :: "real \<Rightarrow> song_info option \<Rightarrow> drawing" where
  "draw_stars_empeg bias song =
     (case song of
        None \<Rightarrow> Inr
      | Some sg \<Rightarrow>
        (let rating = manual_rating (stat sg) in
         draws
           [\<lambda>b. draw_string_empeg b ''Please Rate this song:'' 6 0 128,
            \<lambda>b. draw_string_empeg b (''(Current rating '' @ show_fixed ''+'' 6 3 (Some (get_rating bias (stat sg))) @ '')'') 12 0 128,
            \<lambda>b. draw_text b ''?'' 12 22 (if rating = - 1 then 3 else 2),
            star_row whole_star half_star no_star 20 12 20 rating]))"

section \<open>A song\<close>

definition title_set :: "string list" where "title_set = [''title'']"
definition artist_set :: "string list" where "artist_set = [''artist'', ''artist_original'']"
definition album_set :: "string list" where "album_set = [''album'', ''album_original'', ''source'']"
definition tracknumber_set :: "string list" where "tracknumber_set = [''tracknumber'', ''tracknr'']"

text \<open>Minutes, at most 99, and seconds.\<close>

definition clock :: "int \<Rightarrow> string" where
  "clock ms =
     (let minutes = (ms sdiv 1000) sdiv 60 in
      show_02 (if minutes > 99 then 99 else minutes) @ '':'' @ show_02 ((ms sdiv 1000) smod 60))"

text \<open>\<open>WIDTH*position/length\<close>: a \<open>long\<close> of the empeg has 32 bits.\<close>

definition progress :: "int \<Rightarrow> int \<Rightarrow> int" where
  "progress position len = signed_take_bit 31 (128 * position) sdiv len"

definition draw_song_empeg :: "real \<Rightarrow> int \<Rightarrow> song_info option \<Rightarrow> song_info option \<Rightarrow> bool \<Rightarrow> drawing" where
  "draw_song_empeg bias position player_song song current_song =
     draws
       ((case song of
           Some sg \<Rightarrow>
             if current_song
             then
               [\<lambda>b. draw_text b ''?'' 10 0 (if manual_rating (stat sg) = - 1 then 3 else 2),
                star_row small_whole_star small_half_star small_no_star 14 6 0 (manual_rating (stat sg)),
                \<lambda>b. draw_string_monospaced_empeg b (take 6 (show_fixed ''+'' 6 3 (Some (get_rating bias (stat sg))))) 0 44 4]
             else []
         | None \<Rightarrow> []) @
        [\<lambda>b. drawLineVertClipped full_clip_area b 128 0 31 2,
         \<lambda>b. drawLineHorizClipped full_clip_area b 24 0 128 2,
         \<lambda>b. draw_meta_string_empeg b song title_set 6 0 128,
         \<lambda>b. draw_meta_string_empeg b song artist_set 12 0 128,
         \<lambda>b. draw_meta_string_empeg b song album_set 18 0 128,
         \<lambda>b. draw_string_empeg b ''Track: '' 26 47 81,
         \<lambda>b. draw_meta_string_empeg b song tracknumber_set 26 71 57] @
        (case song of
           Some sg \<Rightarrow>
             if current_song
             then
               (case player_song of
                  Some ps \<Rightarrow>
                    [\<lambda>b. draw_string_monospaced_empeg b
                       (take 11 (if play_length ps = - 1 then clock position
                                 else clock position @ ''-'' @ clock (play_length ps))) 26 0 4] @
                    (if play_length ps \<noteq> 0
                     then [\<lambda>b. drawPointClipped full_clip_area b (progress position (play_length ps)) 24 3] else [])
                | None \<Rightarrow> [])
             else [\<lambda>b. draw_string_monospaced_empeg b (take 11 (clock (play_length sg))) 26 0 4]
         | None \<Rightarrow> []))"

section \<open>Menus\<close>

text \<open>The first item shown and the one behind the last.\<close>

definition menu_range :: "int \<Rightarrow> int \<Rightarrow> int \<times> int" where
  "menu_range item_count selection =
     (let first = 0;
          first = (if item_count - first > 5 \<and> selection - first > 2
                   then if item_count - (selection - 2) < 6 then item_count - 5 else selection - 2
                   else first);
          last = (if item_count - first > 5 then first + 5 else item_count) in
      (first, last))"

definition draw_menu :: "empeg_screen \<Rightarrow> int \<Rightarrow> drawing" where
  "draw_menu scr selection =
     (let item_count = int (length (menu_items scr));
          (first, last) = menu_range item_count selection in
      draws
        ((if first = 0 then [\<lambda>b. drawLineHorizClipped full_clip_area b 0 0 128 2] else []) @
         (if last = item_count then [\<lambda>b. drawLineHorizClipped full_clip_area b (1 + (last - first) * 6) 0 128 2] else []) @
         [\<lambda>b. draw_string_empeg b ''>'' (1 + 6 * (selection - first)) 0 128] @
         map (\<lambda>i b. and_then (read_at (menu_items scr) i) (\<lambda>item.
                draw_string_empeg b (item_title item) (1 + (i - first) * 6) (10 + 10 * item_indentation item) 128))
           [first..last - 1]))"

section \<open>The screens\<close>

definition song_at :: "database_info \<Rightarrow> nat option \<Rightarrow> song_info option result" where
  "song_at db p = (case p of None \<Rightarrow> Inr None | Some i \<Rightarrow> map_result Some (read_at (songs db) (int i)))"

definition the_song :: "song_info option \<Rightarrow> song_info result" where
  "the_song p = (case p of None \<Rightarrow> Inl Null_Deref | Some sg \<Rightarrow> Inr sg)"

text \<open>
  The entry of the playlist that is selected, or the null pointer behind the last one, with its
  number.  The queue has \<open>n\<close> entries.
\<close>

fun find_entry :: "nat \<Rightarrow> int \<Rightarrow> int \<Rightarrow> heap \<Rightarrow> nat option \<Rightarrow> (nat option \<times> int) result" where
  "find_entry 0 selected i h cur = Inr (cur, i)"
| "find_entry (Suc n) selected i h cur =
     (if cur \<noteq> None \<and> i \<noteq> selected
      then and_then (load_entry h cur) (\<lambda>e. find_entry n selected (i + 1) h (entry_next e))
      else Inr (cur, i))"

definition selected_in_playlist :: "empeg \<Rightarrow> (nat option \<times> int) result" where
  "selected_in_playlist s =
     (let qs = queues_of (e_player s); q = song_queue qs in
      find_entry (nat (q_size q)) (q_selected q) 0 (q_heap qs) (q_head q))"

definition entry_song_info :: "empeg \<Rightarrow> nat option \<Rightarrow> song_info option result" where
  "entry_song_info s cur =
     and_then (load_entry (q_heap (queues_of (e_player s))) cur) (\<lambda>e. song_at (w_db (p_world (e_player s))) (entry_song e))"

definition volume_text :: "empeg \<Rightarrow> drawing list" where
  "volume_text s =
     (case e_device s of
        None \<Rightarrow> []
      | Some d \<Rightarrow>
        (let volume = fst (sd_volume d) in
         if 0 \<le> volume \<and> volume \<le> 100
         then [\<lambda>b. draw_string_monospaced_empeg b (''Vol:'' @ show_wide 3 volume) 0 100 4] else []))"

text \<open>Average and standard deviation from a sum and a sum of squares.\<close>

definition mean_of :: "real \<Rightarrow> int \<Rightarrow> real option" where
  "mean_of t n = (if n = 0 then None else Some (t / of_int n))"

definition deviation_of :: "real \<Rightarrow> real \<Rightarrow> int \<Rightarrow> real option" where
  "deviation_of t squares n =
     (if n = 0 then None else Some (sqrt \<bar>squares / of_int n - (t / of_int n) * (t / of_int n)\<bar>))"

definition statistics_line :: "real \<Rightarrow> real \<Rightarrow> int \<Rightarrow> string" where
  "statistics_line t squares n =
     show_fixed '' '' 9 6 (mean_of t n) @ ''/'' @ show_fixed '' '' 9 6 (deviation_of t squares n)"

definition draw_statistics :: "database_info \<Rightarrow> drawing" where
  "draw_statistics db buffer =
     and_then (getTextWidth ''std dev)'' 2) (\<lambda>w.
       let x = 29 * 4 - w + 1; n = song_count db in
       draws
         [\<lambda>b. draw_string_empeg b ''Stats:'' 6 0 128,
          \<lambda>b. draw_string_empeg b ''(avg'' 6 44 84,
          \<lambda>b. draw_string_empeg b ''/'' 6 76 52,
          \<lambda>b. draw_string_empeg b ''stddev)'' 6 x (128 - x),
          \<lambda>b. draw_string_empeg b ''Rating:'' 12 0 128,
          \<lambda>b. draw_string_empeg b ''Play Count:'' 18 0 128,
          \<lambda>b. draw_string_empeg b ''Skip Count:'' 24 0 128,
          \<lambda>b. draw_string_monospaced_empeg b (statistics_line (db_sum db) (db_sqr_sum db) n) 12 40 4,
          \<lambda>b. draw_string_monospaced_empeg b (statistics_line (of_int (play_sum db)) (of_int (play_sqr_sum db)) n) 18 40 4,
          \<lambda>b. draw_string_monospaced_empeg b (statistics_line (of_int (skip_sum db)) (of_int (skip_sqr_sum db)) n) 24 40 4]
         buffer)"

definition draw_song_info :: "real \<Rightarrow> song_info \<Rightarrow> drawing" where
  "draw_song_info bias sg =
     draws
       [\<lambda>b. draw_string_empeg b (filename sg) 0 0 128,
        \<lambda>b. draw_string_empeg b ''Stats:'' 6 0 128,
        \<lambda>b. draw_string_empeg b ''Rating:'' 12 0 128,
        \<lambda>b. draw_string_empeg b ''Play Count:'' 18 0 128,
        \<lambda>b. draw_string_empeg b ''Skip Count:'' 24 0 128,
        \<lambda>b. draw_string_monospaced_empeg b (show_fixed '' '' 6 3 (Some (get_rating bias (stat sg)))) 12 40 4,
        \<lambda>b. draw_string_monospaced_empeg b (show_spaced 6 (play_count (stat sg))) 18 40 4,
        \<lambda>b. draw_string_monospaced_empeg b (show_spaced 6 (skip_count (stat sg))) 24 40 4]"

text \<open>The width of the heading is measured in the smallest font and drawn in the largest.\<close>

definition draw_playlist :: "empeg \<Rightarrow> drawing" where
  "draw_playlist s buffer =
     and_then (selected_in_playlist s) (\<lambda>(cur, i).
       let status = ''Song '' @ show_int (i + 1) @ '' of '' @ show_int (q_size (song_queue (queues_of (e_player s)))) @ '' in playlist'' in
       and_then (getTextWidth status 0) (\<lambda>w.
         let x = half (128 - w - 1) in
         draws
           ([\<lambda>b. draw_string_empeg b status 0 x (128 - x),
             \<lambda>b. draw_string_empeg b ''<<<'' 0 0 128,
             \<lambda>b. draw_string_empeg b ''>>>'' 0 116 12] @
            (if cur = None then []
             else
               [\<lambda>b. and_then (entry_song_info s cur) (\<lambda>song.
                  draw_song_empeg (of_rat (e_bias s)) 0 None song False b)]))
           buffer))"

definition draw_screen_empeg :: "empeg \<Rightarrow> drawing" where
  "draw_screen_empeg s buffer =
     (let p = e_player s; db = w_db (p_world p); bias = of_rat (e_bias s) in
      case e_screen s of
        EMPEG_SCREEN_PLAY \<Rightarrow>
          and_then (song_at db (p_song p)) (\<lambda>song.
            draws (volume_text s @ [draw_song_empeg bias (p_position p) song song True]) buffer)
      | EMPEG_SCREEN_PLAY_RATE_SONG \<Rightarrow>
          and_then (song_at db (p_song p)) (\<lambda>song. draw_stars_empeg bias song buffer)
      | EMPEG_SCREEN_PLAYLIST_RATE_SONG \<Rightarrow>
          and_then (selected_in_playlist s) (\<lambda>(cur, i).
          and_then (entry_song_info s cur) (\<lambda>song. draw_stars_empeg bias song buffer))
      | EMPEG_SCREEN_GLOBAL_SONG_INFO \<Rightarrow> draw_statistics db buffer
      | EMPEG_SCREEN_PLAY_SONG_INFO \<Rightarrow>
          and_then (song_at db (p_song p)) (\<lambda>song.
          and_then (the_song song) (\<lambda>sg. draw_song_info bias sg buffer))
      | EMPEG_SCREEN_PLAYLIST_SONG_INFO \<Rightarrow>
          and_then (selected_in_playlist s) (\<lambda>(cur, i).
          and_then (entry_song_info s cur) (\<lambda>song.
          and_then (the_song song) (\<lambda>sg. draw_song_info bias sg buffer)))
      | EMPEG_SCREEN_PLAYLIST \<Rightarrow> draw_playlist s buffer
      | EMPEG_SCREEN_QUIT \<Rightarrow>
          draws
            [\<lambda>b. draw_string_empeg b ''Are you sure you would like to quit?'' 6 0 128,
             \<lambda>b. draw_string_empeg b ''(Press the knob to confirm)'' 12 0 128] buffer
      | EMPEG_SCREEN_SET_DISPLAY_BRIGHTNESS \<Rightarrow>
          draw_string_empeg buffer (''Current brightness << '' @ show_int (e_brightness s) @ '' >>'') 12 0 128
      | EMPEG_SCREEN_SET_RATING_BIAS \<Rightarrow>
          draws
            [\<lambda>b. draw_string_empeg b (''Current Bias << '' @ show_wide 3 (trunc (to_float (100 * e_bias s))) @ ''% >>'') 9 0 128,
             \<lambda>b. draw_string_empeg b ''(Higher values bias manual ratings'' 15 0 128,
             \<lambda>b. draw_string_empeg b ''versus automatic rating)'' 21 0 128] buffer
      | _ \<Rightarrow> draw_string_empeg buffer ''Blackhole'' 6 0 128)"

definition draw_empeg_display :: "empeg \<Rightarrow> drawing" where
  "draw_empeg_display s buffer =
     and_then (vfd_clear full_clip_area buffer 0)
       (if e_in_menu s then draw_menu (e_screen s) (e_selection s) else draw_screen_empeg s)"

section \<open>No screen leaves the display\<close>

definition safe :: "drawing \<Rightarrow> bool" where
  "safe f \<longleftrightarrow> (\<forall>b. length b = 2048 \<longrightarrow> (\<exists>b'. f b = Inr b' \<and> length b' = 2048))"

named_theorems safe_intros \<open>drawings that stay on the screen\<close>

lemma shades_ok: "shade_ok 2" "shade_ok 3" "shade_ok (word_of_int 2)" "shade_ok (word_of_int 3)" "shade_ok 0"
  by (simp_all add: shade_ok_def)

lemma safe_draws [safe_intros]: "(\<And>f. f \<in> set fs \<Longrightarrow> safe f) \<Longrightarrow> safe (draws fs)"
proof (induction fs)
  case Nil
  then show ?case by (simp add: safe_def draws_def)
next
  case (Cons f fs)
  have "safe f" "safe (draws fs)" using Cons by simp_all
  then show ?case by (fastforce simp: safe_def draws_def)
qed

lemma safe_text [safe_intros]: "shade = 2 \<or> shade = 3 \<Longrightarrow> safe (\<lambda>b. draw_text b s left row shade)"
  unfolding safe_def
  using text_paints [OF clip_ok_simps(1), of _ shade s left row 2] shades_ok by (fastforce simp: paints_def)

lemma safe_monospaced [safe_intros]: "safe (\<lambda>b. draw_string_monospaced_empeg b s row left spacing)"
proof (induction s arbitrary: left)
  case (Cons c s)
  have "safe (\<lambda>b. draw_text b [c] (left + half (spacing - advance 2 c + 1)) row 3)" by (rule safe_text) simp
  then show ?case using Cons [of "left + spacing"] by (fastforce simp: safe_def getTextWidth_eq simp del: drawText.simps)
qed (simp add: safe_def)

declare drawText.simps [simp del] draw_string_monospaced_empeg.simps [simp del]

lemma safe_string [safe_intros]:
  assumes "- 1 \<le> width" and "int (count_list s (CHR ''@'')) \<le> width + 1"
  shows "safe (\<lambda>b. draw_string_empeg b s row left width)"
proof -
  obtain k where "trim_text s width = Inr (take k s)" using string_fits [OF assms] by blast
  then show ?thesis using safe_text [of 3 "take k s" left row] by (simp add: draw_string_empeg_def)
qed

definition meta_fits :: "int \<Rightarrow> song_info option \<Rightarrow> string list \<Rightarrow> bool" where
  "meta_fits width song keys \<longleftrightarrow>
     (\<exists>vs. all_values song keys = map Some vs \<and> (\<forall>v \<in> set vs. NUL \<notin> set v) \<and> int (length (joined vs)) \<le> width + 1)"

lemma meta_fits_none [simp]: "0 \<le> width \<Longrightarrow> meta_fits width None keys"
proof -
  have "all_values None keys = map Some []" by (induction keys) (simp_all add: all_values_def get_meta_data_def)
  then show "0 \<le> width \<Longrightarrow> meta_fits width None keys" unfolding meta_fits_def by (intro exI [of _ "[]"]) simp
qed

lemma safe_meta [safe_intros]:
  assumes "meta_fits width song keys" and "12 \<le> width"
  shows "safe (\<lambda>b. draw_meta_string_empeg b song keys row left width)"
proof -
  obtain vs where "all_values song keys = map Some vs" "\<forall>v \<in> set vs. NUL \<notin> set v" "int (length (joined vs)) \<le> width + 1"
    using assms(1) by (auto simp: meta_fits_def)
  from meta_text_cut [OF assms(2) this] obtain t where "meta_line_text song keys width = Inr t"
    by (auto split: if_splits)
  then show ?thesis
    using safe_text [of 3 t left row] assms(2) by (simp add: draw_meta_string_empeg_def getTextWidth_eq dot_advance)
qed

lemma pictures_ok: "picture_ok whole_star 9 9" "picture_ok half_star 9 9" "picture_ok no_star 9 9"
  "picture_ok small_whole_star 5 5" "picture_ok small_half_star 5 5" "picture_ok small_no_star 5 5"
  by code_simp+

lemma safe_picture [safe_intros]:
  "picture_ok bitmap w h \<Longrightarrow> 0 \<le> x \<Longrightarrow> 0 \<le> y \<Longrightarrow> y + h \<le> 32 \<Longrightarrow> safe (draw_picture bitmap x y)"
  unfolding safe_def draw_picture_def using picture_paints [of bitmap w h x y] by (fastforce simp: paints_def)

lemma safe_stars [safe_intros]:
  assumes "picture_ok whole w h" and "picture_ok part w h" and "picture_ok missing w h" and "0 \<le> x" and "0 \<le> step"
    and "0 \<le> y" and "y + h \<le> 32"
  shows "safe (star_row whole part missing x step y rating)"
  unfolding star_row_def Let_def
  by (rule safe_draws) (use assms in \<open>auto intro!: safe_picture split: if_splits\<close>)

lemma fills_length: "fills g b s inside r \<Longrightarrow> length b = 2048 \<Longrightarrow> \<exists>b'. r = Inr b' \<and> length b' = 2048"
  by (auto simp: fills_def paints_def)

lemma safe_fills: "(\<And>b. length b = 2048 \<Longrightarrow> fills full_clip_area b s inside (f b)) \<Longrightarrow> safe f"
  using fills_length unfolding safe_def by blast

lemma safe_shapes [safe_intros]:
  "safe (\<lambda>b. drawLineHorizClipped full_clip_area b y x0 x1 2)" "safe (\<lambda>b. drawLineVertClipped full_clip_area b x0 y y1 2)"
  "safe (\<lambda>b. drawPointClipped full_clip_area b x0 y 3)"
  by (rule safe_fills horizontal_fills vertical_fills point_fills clip_ok_simps shades_ok, assumption?)+

lemma safe_clear: "safe (\<lambda>b. vfd_clear full_clip_area b 0)"
  by (rule safe_fills, rule clear_fills) (simp_all add: clip_ok_def shades_ok full_clip_area_def)

lemma safe_and_then: "m = Inr x \<Longrightarrow> safe (f x) \<Longrightarrow> safe (\<lambda>b. and_then m (\<lambda>x. f x b))"
  by (simp add: safe_def)

text \<open>Numbers are printed without at-signs.\<close>

lemma no_at_sign [simp]: "count_list (show_int n) (CHR ''@'') = 0" "count_list (pad w c s) (CHR ''@'') =
    (if c = CHR ''@'' then nat (w - int (length s)) else 0) + count_list s (CHR ''@'')"
proof -
  have "CHR ''@'' \<notin> set (show_int n)" using show_int_chars [of "CHR ''@''" n] by (auto simp: is_digit_def)
  then show "count_list (show_int n) (CHR ''@'') = 0" by (simp add: count_list_0_iff)
  have "count_list (replicate k d) x = (if d = x then k else 0)" for k and d x :: char by (induction k) auto
  then show "count_list (pad w c s) (CHR ''@'') = (if c = CHR ''@'' then nat (w - int (length s)) else 0) + count_list s (CHR ''@'')"
    by (auto simp: pad_def)
qed

lemma rating_no_at_sign [simp]: "count_list (show_fixed ''+'' w k (Some x)) (CHR ''@'') = 0"
  by (simp add: show_fixed_def decimals_def Let_def)

section \<open>The menus\<close>

text \<open>Every menu has at most six items.\<close>

lemma menu_lengths: "int (length (menu_items scr)) \<le> 6" "item \<in> set (menu_items scr) \<Longrightarrow> CHR ''@'' \<notin> set (item_title item)"
  by (cases scr; auto simp: menu_items_def)+

text \<open>A menu shows at most five items, one below the other, and the one that is selected is among them;
  all of them fit on the screen, and the lines above and below tell that there are no more.\<close>
theorem menu_shows_selection:
  assumes "0 \<le> selection" and "selection < item_count" and "menu_range item_count selection = (first, behind)"
  shows "0 \<le> first \<and> first \<le> selection \<and> selection < behind \<and> behind \<le> item_count \<and> behind - first \<le> 5 \<and>
    (behind - first < 5 \<longrightarrow> first = 0 \<and> behind = item_count) \<and> 1 + 6 * (behind - 1 - first) + 6 \<le> 31"
  using assms by (auto simp: menu_range_def Let_def split: if_splits)

theorem menu_shows_selection_witness: "0 \<le> fst (menu_range 6 5) \<and> 5 < snd (menu_range 6 5)"
  using menu_shows_selection [of 5 6 "fst (menu_range 6 5)" "snd (menu_range 6 5)"] by simp

lemma safe_menu:
  assumes "0 \<le> selection" and "selection < int (length (menu_items scr))"
  shows "safe (draw_menu scr selection)"
proof -
  obtain first behind where r: "menu_range (int (length (menu_items scr))) selection = (first, behind)" by fastforce
  have inside: "0 \<le> first" "behind \<le> int (length (menu_items scr))"
    using r assms by (auto simp: menu_range_def Let_def split: if_splits)
  have "safe (\<lambda>b. and_then (read_at (menu_items scr) i) (\<lambda>item.
      draw_string_empeg b (item_title item) (1 + (i - first) * 6) (10 + 10 * item_indentation item) 128))"
    if "first \<le> i" "i < behind" for i
  proof -
    have i: "read_at (menu_items scr) i = Inr (menu_items scr ! nat i)" "menu_items scr ! nat i \<in> set (menu_items scr)"
      using that inside by (auto simp: read_at_def nat_less_iff)
    then have "count_list (item_title (menu_items scr ! nat i)) (CHR ''@'') = 0"
      using menu_lengths(2) by (simp add: count_list_0_iff)
    then show ?thesis by (intro safe_and_then [OF i(1)] safe_string) simp_all
  qed
  then show ?thesis
    unfolding draw_menu_def Let_def r prod.case
    by (intro safe_draws) (auto intro!: safe_string safe_shapes split: if_splits)
qed

section \<open>The whole display\<close>

lemma find_entry_chain:
  assumes "chain (cells h) p as None" and "i \<le> selected"
  shows "find_entry (length as) selected i h p =
    Inr (if selected - i < int (length as) then Some (as ! nat (selected - i)) else None,
         i + (if selected - i < int (length as) then selected - i else int (length as)))"
  using assms
proof (induction as arbitrary: p i)
  case (Cons a as)
  from Cons.prems obtain e where e: "p = Some a" "cells h a = Some e" "chain (cells h) (entry_next e) as None" by auto
  show ?case
  proof (cases "i = selected")
    case False
    then have "nat (selected - i) = Suc (nat (selected - (i + 1)))" using Cons.prems(2) by simp
    then show ?thesis using Cons.IH [OF e(3), of "i + 1"] e Cons.prems(2) False by (auto simp: load_entry_def)
  qed (use e in simp)
qed auto

text \<open>
  What the screens rely on: the playlist is a list with its songs in the database, the player
  plays a song of the database, and the texts of the songs are not too long.  The screens
  about one song need that song.
\<close>

definition texts_fit :: "song_info \<Rightarrow> bool" where
  "texts_fit sg \<longleftrightarrow> meta_fits 128 (Some sg) title_set \<and> meta_fits 128 (Some sg) artist_set \<and> meta_fits 128 (Some sg) album_set \<and>
     meta_fits 57 (Some sg) tracknumber_set \<and> count_list (filename sg) (CHR ''@'') \<le> 129"

definition in_library :: "database_info \<Rightarrow> nat option \<Rightarrow> bool" where
  "in_library db p \<longleftrightarrow> (case p of None \<Rightarrow> True | Some i \<Rightarrow> i < length (songs db))"

definition playlist_ok :: "database_info \<Rightarrow> queues \<Rightarrow> nat list \<Rightarrow> bool" where
  "playlist_ok db qs as \<longleftrightarrow> queue_of (q_heap qs) (song_queue qs) as \<and> 0 \<le> q_selected (song_queue qs) \<and>
     (\<forall>a \<in> set as. \<exists>e. cells (q_heap qs) a = Some e \<and> in_library db (entry_song e))"

definition screen_ok :: "empeg \<Rightarrow> bool" where
  "screen_ok s \<longleftrightarrow>
     (let q = song_queue (queues_of (e_player s)); heap = q_heap (queues_of (e_player s)) in
      (e_screen s = EMPEG_SCREEN_PLAY_SONG_INFO \<longrightarrow> p_song (e_player s) \<noteq> None) \<and>
      (e_screen s = EMPEG_SCREEN_PLAYLIST_RATE_SONG \<or> e_screen s = EMPEG_SCREEN_PLAYLIST_SONG_INFO \<longrightarrow>
         q_selected q < q_size q) \<and>
      (e_screen s = EMPEG_SCREEN_PLAYLIST_SONG_INFO \<longrightarrow>
         (\<forall>a e. cells heap a = Some e \<longrightarrow> entry_song e \<noteq> None)))"

lemma song_at_in_library:
  assumes "in_library db p" and "\<forall>sg \<in> set (songs db). texts_fit sg"
  obtains song where "song_at db p = Inr song" "\<forall>sg. song = Some sg \<longrightarrow> texts_fit sg" "song = None \<longleftrightarrow> p = None"
  using assms by (cases p) (auto simp: song_at_def in_library_def)

lemma safe_song:
  assumes "\<forall>sg. song = Some sg \<longrightarrow> texts_fit sg"
  shows "safe (draw_song_empeg bias position player_song song current_song)"
proof -
  have fits: "meta_fits 128 song title_set" "meta_fits 128 song artist_set" "meta_fits 128 song album_set"
      "meta_fits 57 song tracknumber_set"
    using assms by (cases song; simp add: texts_fit_def)+
  show ?thesis
    unfolding draw_song_empeg_def
    by (rule safe_draws)
      (auto intro!: safe_text safe_stars pictures_ok safe_monospaced safe_string safe_meta safe_shapes fits
        split: option.splits if_splits)
qed

lemma safe_rating: "safe (draw_stars_empeg bias song)"
proof (cases song)
  case None
  then show ?thesis by (simp add: draw_stars_empeg_def safe_def)
next
  case (Some sg)
  show ?thesis
    unfolding draw_stars_empeg_def Some option.case Let_def
    by (rule safe_draws) (auto intro!: safe_text safe_stars pictures_ok safe_string split: if_splits)
qed

lemma safe_song_info: "texts_fit sg \<Longrightarrow> safe (draw_song_info bias sg)"
  unfolding draw_song_info_def
  by (rule safe_draws) (auto simp: texts_fit_def intro!: safe_string safe_monospaced)

lemma safe_statistics: "safe (draw_statistics db)"
proof -
  have "text_width 2 ''std dev)'' = 27" by code_simp
  then show ?thesis
    unfolding draw_statistics_def getTextWidth_eq and_then_simps Let_def
    by (intro safe_draws) (auto intro!: safe_string safe_monospaced)
qed

lemma screen_width_positive: "- 1 \<le> 128 - half (128 - text_width font s - 1)"
proof -
  have "half n \<le> 129" if "n \<le> 127" for n using that unfolding half_def by presburger
  moreover have "0 \<le> text_width font s" using text_width_length [of s font] by simp
  ultimately have "half (128 - text_width font s - 1) \<le> 129" by simp
  then show ?thesis by simp
qed

lemma selected_entry_safe:
  assumes "playlist_ok db qs as" and "qs = queues_of (e_player s)"
  defines "n \<equiv> q_selected (song_queue qs)"
  shows "selected_in_playlist s =
    Inr (if n < int (length as) then Some (as ! nat n) else None, if n < int (length as) then n else int (length as))"
  using assms(1) find_entry_chain [of "q_heap qs" "q_head (song_queue qs)" as 0 n]
  by (simp add: selected_in_playlist_def Let_def playlist_ok_def queue_of_def n_def assms(2))

lemma entry_song_safe:
  assumes "playlist_ok (w_db (p_world (e_player s))) (queues_of (e_player s)) as" and "a \<in> set as"
    and "\<forall>sg \<in> set (songs (w_db (p_world (e_player s)))). texts_fit sg"
  obtains e song where "cells (q_heap (queues_of (e_player s))) a = Some e" "entry_song_info s (Some a) = Inr song"
    "\<forall>sg. song = Some sg \<longrightarrow> texts_fit sg" "song = None \<longleftrightarrow> entry_song e = None"
proof -
  obtain e where e: "cells (q_heap (queues_of (e_player s))) a = Some e" "in_library (w_db (p_world (e_player s))) (entry_song e)"
    using assms(1,2) by (auto simp: playlist_ok_def)
  obtain song where "song_at (w_db (p_world (e_player s))) (entry_song e) = Inr song"
      "\<forall>sg. song = Some sg \<longrightarrow> texts_fit sg" "song = None \<longleftrightarrow> entry_song e = None"
    using song_at_in_library [OF e(2) assms(3)] by metis
  then show thesis using that [OF e(1), of song] e(1) by (simp add: entry_song_info_def load_entry_def)
qed

lemma safe_playlist:
  assumes "playlist_ok (w_db (p_world (e_player s))) (queues_of (e_player s)) as"
    and "\<forall>sg \<in> set (songs (w_db (p_world (e_player s)))). texts_fit sg"
  shows "safe (draw_playlist s)"
proof -
  let ?n = "q_selected (song_queue (queues_of (e_player s)))"
  let ?cur = "if ?n < int (length as) then Some (as ! nat ?n) else None"
  have n: "0 \<le> ?n" using assms(1) by (simp add: playlist_ok_def)
  have entry: "safe (\<lambda>b. and_then (entry_song_info s ?cur) (\<lambda>song. draw_song_empeg bias 0 None song False b))"
    if "?cur \<noteq> None" for bias
  proof -
    have a: "as ! nat ?n \<in> set as" and cur: "?cur = Some (as ! nat ?n)"
      using that n by (simp_all add: nat_less_iff split: if_splits)
    obtain song where "entry_song_info s (Some (as ! nat ?n)) = Inr song" "\<forall>sg. song = Some sg \<longrightarrow> texts_fit sg"
      by (rule entry_song_safe [OF assms(1) a assms(2)])
    then show ?thesis unfolding cur by (intro safe_and_then safe_song)
  qed
  have heading: "safe (\<lambda>b. draw_string_empeg b t 0 (half (128 - text_width 0 t - 1)) (128 - half (128 - text_width 0 t - 1)))"
    if "count_list t (CHR ''@'') = 0" for t
    using screen_width_positive [of 0 t] that by (intro safe_string) simp_all
  show ?thesis
    unfolding draw_playlist_def selected_entry_safe [OF assms(1) refl] and_then_simps prod.case getTextWidth_eq Let_def
  proof (rule safe_draws, unfold append.simps set_simps insert_iff, elim disjE)
    fix f
    assume "f \<in> set (if ?cur = None then []
      else [\<lambda>b. and_then (entry_song_info s ?cur) (\<lambda>song. draw_song_empeg (of_rat (e_bias s)) 0 None song False b)])"
    then show "safe f" using entry by (simp split: if_splits)
  qed (simp_all only: , (intro heading safe_string; simp)+)
qed


definition ex_display :: empeg where
  "ex_display = ex_empeg\<lparr>e_screen := EMPEG_SCREEN_PLAY_SONG_INFO,
     e_player := (start_player ex_play_world)\<lparr>p_song := Some 0,
       p_world := ex_play_world\<lparr>w_db := (w_db ex_play_world)\<lparr>songs := [sample_song ''Waterfront'']\<rparr>,
         w_queues := empty_queues 10 10\<rparr>\<rparr>\<rparr>"

lemma sample_song_fits: "texts_fit (sample_song ''Waterfront'')"
proof -
  have none: "all_values (Some (sample_song ''Waterfront'')) ks = map Some []" if "ks \<in> {artist_set, album_set, tracknumber_set}" for ks
    using that by (auto simp: all_values_def get_meta_data_def sample_song_def strcasecmp0_def to_lower_def
      artist_set_def album_set_def tracknumber_set_def)
  have title: "all_values (Some (sample_song ''Waterfront'')) title_set = map Some [''Waterfront'']"
    using sample_song_title by (simp add: title_set_def)
  have "meta_fits width (Some (sample_song ''Waterfront'')) ks" if "ks \<in> {artist_set, album_set, tracknumber_set}" "0 \<le> width" for width ks
    unfolding meta_fits_def using none [OF that(1)] that(2) by (intro exI [of _ "[]"]) simp
  moreover have "meta_fits 128 (Some (sample_song ''Waterfront'')) title_set"
    unfolding meta_fits_def by (intro exI [of _ "[''Waterfront'']"] conjI title) simp_all
  ultimately show ?thesis by (simp add: texts_fit_def) (simp add: sample_song_def)
qed


text \<open>With an empty playlist the items "Song Info" and "Rate This Song" of its menu lead to a screen
  that reads through a null pointer as soon as it is drawn.\<close>
theorem empty_playlist_crashes:
  assumes "e_in_menu s" and "e_screen s = EMPEG_SCREEN_PLAYLIST" and "e_selection s = 2 \<or> e_selection s = 3"
    and "q_head (song_queue (queues_of (e_player s))) = None" and "length buffer = 2048"
  shows "\<exists>t. process_ir_event cfg IR_KNOB_PRESSED False s = Inr t \<and> draw_empeg_display t buffer = Inl Null_Deref"
proof -
  obtain t where t: "process_ir_event cfg IR_KNOB_PRESSED False s = Inr t" "\<not> e_in_menu t" "e_player t = e_player s"
      "e_screen t = EMPEG_SCREEN_PLAYLIST_SONG_INFO \<or> e_screen t = EMPEG_SCREEN_PLAYLIST_RATE_SONG"
    using assms(1-3) by (auto simp: process_ir_event_def menu_event_def choose_item_def read_at_def menu_items_def numeral_eq_Suc)
  obtain b where "vfd_clear full_clip_area buffer 0 = Inr b" using safe_clear assms(5) by (auto simp: safe_def)
  moreover have "find_entry n i 0 heap None = Inr (None, 0)" for n i heap by (cases n) simp_all
  ultimately have "draw_empeg_display t buffer = Inl Null_Deref"
    using t assms(4)
    by (auto simp: draw_empeg_display_def draw_screen_empeg_def selected_in_playlist_def entry_song_info_def load_entry_def Let_def)
  then show ?thesis using t(1) by blast
qed

theorem empty_playlist_crashes_witness:
  "\<exists>t. process_ir_event ex_config IR_KNOB_PRESSED False (ex_display\<lparr>e_screen := EMPEG_SCREEN_PLAYLIST, e_in_menu := True, e_selection := 3\<rparr>) = Inr t \<and>
     draw_empeg_display t (replicate 2048 0) = Inl Null_Deref"
  by (rule empty_playlist_crashes) (simp_all add: ex_display_def queues_of_def empty_queues_def empty_queue_def)

end
