(* ===== verification/Adventure.thy ===== *)
theory Adventure
  imports Empeg_Display
begin

text \<open>
  The other user interface of the empeg, built with \<open>ADVENTURE\<close>: twelve screens in place of menus, with the four
  buttons leading from one to the next.  Its part of \<open>process_ir_event()\<close>
  (\<open>src/src/input.c\<close>) and of \<open>draw_empeg_display()\<close> (\<open>src/src/display.c\<close>).
\<close>

section \<open>Screens\<close>

datatype adventure_screen =
    ADVENTURE_NAVIGATION_1
  | ADVENTURE_PLAY
  | ADVENTURE_PLAY_SUBMENU
  | ADVENTURE_PLAY_SONG_INFO
  | ADVENTURE_PLAYLIST
  | ADVENTURE_PLAYLIST_SUBMENU
  | ADVENTURE_PLAYLIST_SONG_INFO
  | ADVENTURE_NAVIGATION_2
  | ADVENTURE_QUIT
  | ADVENTURE_DELETE_MASTERLIST
  | ADVENTURE_SET_DISPLAY_BRIGHTNESS
  | ADVENTURE_NONE

record adventure =
  a_player :: player
  a_device :: "sound_device option"
  a_screen :: adventure_screen
  a_brightness :: int
  a_lit :: int
  a_exit_status :: int

section \<open>Buttons\<close>

definition on_adventure_player :: "(player \<Rightarrow> player result) \<Rightarrow> adventure \<Rightarrow> adventure result" where
  "on_adventure_player f s = map_result (\<lambda>p. s\<lparr>a_player := p\<rparr>) (f (a_player s))"

text \<open>The buttons that do not depend on the screen; here the knob always sets the volume.\<close>

definition adventure_remote :: "int \<Rightarrow> adventure \<Rightarrow> adventure result option" where
  "adventure_remote button s =
     (if button = IR_VOL_MINUS \<or> button = IR_KNOB_LEFT then Some (Inr (s\<lparr>a_device := sound_adjust_volume (- 2) (a_device s)\<rparr>))
      else if button = IR_VOL_PLUS \<or> button = IR_KNOB_RIGHT then Some (Inr (s\<lparr>a_device := sound_adjust_volume 2 (a_device s)\<rparr>))
      else if button = IR_PROG then Some (on_adventure_player do_toggle_player_command s)
      else if button = IR_TRACK_MINUS then Some (on_adventure_player (do_set_player_command CMD_STOP) s)
      else if button = IR_TRACK_PLUS then Some (on_adventure_player (do_set_player_command CMD_SKIP) s)
      else None)"

text \<open>\<open>unlink()\<close>, whose failure nobody looks at.\<close>

definition unlink_masterlist :: "config \<Rightarrow> (string \<Rightarrow> bool) \<Rightarrow> adventure \<Rightarrow> adventure" where
  "unlink_masterlist cfg removable s =
     (case db_masterlist_path cfg of
        None \<Rightarrow> s
      | Some path \<Rightarrow>
        (let p = a_player s; w = p_world p; fs = w_fs w in
         if removable path
         then s\<lparr>a_player := p\<lparr>p_world := w\<lparr>w_fs := fs\<lparr>files := (files fs)(path := None)\<rparr>\<rparr>\<rparr>\<rparr> else s))"

definition adventure_select :: "int \<Rightarrow> adventure \<Rightarrow> adventure" where
  "adventure_select delta s =
     (let p = a_player s; qs = queues_of p; q = song_queue qs; n = q_selected q in
      if (if delta < 0 then n > 0 else n < q_size q - 1)
      then s\<lparr>a_player := set_queues (qs\<lparr>song_queue := q\<lparr>q_selected := n + delta\<rparr>\<rparr>) p\<rparr>
      else s)"

definition adventure_brightness :: "int \<Rightarrow> adventure \<Rightarrow> adventure" where
  "adventure_brightness delta s =
     (let b = (if (if delta < 0 then a_brightness s \<ge> 5 else a_brightness s \<le> 95)
               then a_brightness s + delta else a_brightness s) in
      s\<lparr>a_brightness := b, a_lit := (if b < 0 then 0 else if b > 100 then 100 else b)\<rparr>)"

definition four_buttons :: "int \<Rightarrow> 'a \<Rightarrow> 'a \<Rightarrow> 'a \<Rightarrow> 'a \<Rightarrow> 'a \<Rightarrow> 'a" where
  "four_buttons button upper left right bottom other =
     (if button = IR_TOP_BUTTON_PRESSED then upper
      else if button = IR_LEFT_BUTTON_PRESSED then left
      else if button = IR_RIGHT_BUTTON_PRESSED then right
      else if button = IR_BOTTOM_BUTTON_PRESSED then bottom
      else other)"

text \<open>What the four buttons do: top, left, right and bottom.\<close>

definition playlist_submenu_buttons :: "config \<Rightarrow> int \<Rightarrow> adventure \<Rightarrow> adventure result" where
  "playlist_submenu_buttons cfg button s =
     four_buttons button
       (on_adventure_player (do_remove_playlist_entry cfg) (s\<lparr>a_screen := ADVENTURE_PLAYLIST\<rparr>))
       (Inr s) (Inr (s\<lparr>a_screen := ADVENTURE_PLAYLIST_SONG_INFO\<rparr>)) (Inr (s\<lparr>a_screen := ADVENTURE_PLAYLIST\<rparr>)) (Inr s)"

definition brightness_buttons :: "int \<Rightarrow> adventure \<Rightarrow> adventure" where
  "brightness_buttons button s =
     four_buttons button s (adventure_brightness (- 5) s) (adventure_brightness 5 s) (s\<lparr>a_screen := ADVENTURE_NAVIGATION_2\<rparr>) s"

definition adventure_buttons :: "config \<Rightarrow> (string \<Rightarrow> bool) \<Rightarrow> int \<Rightarrow> adventure \<Rightarrow> adventure result" where
  "adventure_buttons cfg removable button s =
     (let go = (\<lambda>scr. Inr (s\<lparr>a_screen := scr\<rparr>)); stay = Inr s in
      case a_screen s of
        ADVENTURE_PLAY \<Rightarrow>
          four_buttons button (go ADVENTURE_PLAY_SUBMENU)
            (on_adventure_player (do_set_player_command CMD_STOP) s)
            (on_adventure_player (do_set_player_command CMD_SKIP) s)
            (go ADVENTURE_NAVIGATION_1) stay
      | ADVENTURE_NAVIGATION_1 \<Rightarrow>
          four_buttons button (go ADVENTURE_PLAY) (go ADVENTURE_PLAYLIST) stay (go ADVENTURE_NAVIGATION_2) stay
      | ADVENTURE_NAVIGATION_2 \<Rightarrow>
          four_buttons button (Inr (s\<lparr>a_screen := ADVENTURE_QUIT, a_exit_status := 0\<rparr>))
            (Inr (unlink_masterlist cfg removable (s\<lparr>a_screen := ADVENTURE_DELETE_MASTERLIST\<rparr>)))
            (go ADVENTURE_SET_DISPLAY_BRIGHTNESS) (go ADVENTURE_NAVIGATION_1) stay
      | ADVENTURE_PLAYLIST \<Rightarrow>
          four_buttons button (go ADVENTURE_PLAYLIST_SUBMENU) (Inr (adventure_select (- 1) s))
            (Inr (adventure_select 1 s)) (go ADVENTURE_NAVIGATION_1) stay
      | ADVENTURE_PLAY_SONG_INFO \<Rightarrow>
          four_buttons button (go ADVENTURE_PLAY) (go ADVENTURE_PLAY) (go ADVENTURE_PLAY) (go ADVENTURE_PLAY) stay
      | ADVENTURE_PLAYLIST_SONG_INFO \<Rightarrow>
          four_buttons button (go ADVENTURE_PLAYLIST) (go ADVENTURE_PLAYLIST) (go ADVENTURE_PLAYLIST) (go ADVENTURE_PLAYLIST) stay
      | ADVENTURE_PLAY_SUBMENU \<Rightarrow>
          four_buttons button
            (map_result (\<lambda>s. s\<lparr>a_screen := ADVENTURE_PLAY\<rparr>) (on_adventure_player do_toggle_player_command s))
            stay (go ADVENTURE_PLAY_SONG_INFO) (go ADVENTURE_PLAY) stay
      | ADVENTURE_PLAYLIST_SUBMENU \<Rightarrow> playlist_submenu_buttons cfg button s
      | ADVENTURE_QUIT \<Rightarrow> stay
      | ADVENTURE_DELETE_MASTERLIST \<Rightarrow> go ADVENTURE_NAVIGATION_2
      | ADVENTURE_SET_DISPLAY_BRIGHTNESS \<Rightarrow> Inr (brightness_buttons button s)
      | ADVENTURE_NONE \<Rightarrow> stay)"

definition adventure_event :: "config \<Rightarrow> (string \<Rightarrow> bool) \<Rightarrow> int \<Rightarrow> adventure \<Rightarrow> adventure result" where
  "adventure_event cfg removable button s =
     (case adventure_remote button s of Some r \<Rightarrow> r | None \<Rightarrow> adventure_buttons cfg removable button s)"

lemmas button_defs = playlist_submenu_buttons_def brightness_buttons_def four_buttons_def

section \<open>Drawing\<close>

text \<open>Texts are measured in the smallest font and drawn in the largest.\<close>

definition draw_middle :: "string \<Rightarrow> int \<Rightarrow> drawing" where
  "draw_middle t row buffer =
     and_then (getTextWidth t 0) (\<lambda>w. let x = half (128 - w) in draw_string_empeg buffer t row x (128 - x))"

definition draw_left :: "string \<Rightarrow> int \<Rightarrow> drawing" where
  "draw_left t row buffer = draw_string_empeg buffer t row 0 128"

definition draw_right :: "string \<Rightarrow> int \<Rightarrow> drawing" where
  "draw_right t row buffer =
     and_then (getTextWidth t 0) (\<lambda>w. let x = 128 - w in draw_string_empeg buffer t row x (128 - x))"

definition adventure_volume :: "adventure \<Rightarrow> drawing list" where
  "adventure_volume s =
     (case a_device s of
        None \<Rightarrow> []
      | Some d \<Rightarrow>
        (let volume = fst (sd_volume d) in
         if 0 \<le> volume \<and> volume \<le> 100
         then [\<lambda>b. draw_string_monospaced_empeg b (''Vol:'' @ show_wide 3 volume) 0 100 4] else []))"

text \<open>Seconds of sound in the buffer, in single precision.\<close>

definition buffered_seconds :: "int \<Rightarrow> rat" where
  "buffered_seconds pcm_size = to_float (to_float (to_float (to_float (of_int pcm_size) / 44100) / 2) / 2)"

definition buffer_text :: "int \<Rightarrow> string" where
  "buffer_text pcm_size = ''Buf:'' @ show_fixed '''' 5 2 (Some (of_rat (buffered_seconds pcm_size))) @ ''s''"

definition adventure_entry :: "player \<Rightarrow> (nat option \<times> int) result" where
  "adventure_entry p =
     (let qs = queues_of p; q = song_queue qs in
      find_entry (nat (q_size q)) (q_selected q) 0 (q_heap qs) (q_head q))"

definition adventure_entry_song :: "player \<Rightarrow> nat option \<Rightarrow> song_info option result" where
  "adventure_entry_song p cur =
     and_then (load_entry (q_heap (queues_of p)) cur) (\<lambda>e. song_at (w_db (p_world p)) (entry_song e))"

definition adventure_playlist :: "config \<Rightarrow> player \<Rightarrow> drawing" where
  "adventure_playlist cfg p buffer =
     and_then (adventure_entry p) (\<lambda>(cur, i).
       let status = ''Song '' @ show_int (i + 1) @ '' of '' @ show_int (q_size (song_queue (queues_of p))) @ '' in playlist'' in
       and_then (getTextWidth status 0) (\<lambda>w.
         let x = half (128 - w) in
         draws
           ([\<lambda>b. draw_string_empeg b status 0 x (128 - x),
             \<lambda>b. draw_string_empeg b ''<<<'' 0 0 128,
             \<lambda>b. draw_string_empeg b ''>>>'' 0 116 12] @
            (if cur = None then []
             else
               [\<lambda>b. and_then (adventure_entry_song p cur) (\<lambda>song.
                  draw_song_empeg (db_manual_rating_bias cfg) 0 None song False b)]))
           buffer))"

definition triple_line :: "string \<Rightarrow> real \<Rightarrow> real \<Rightarrow> int \<Rightarrow> string" where
  "triple_line first t squares n =
     first @ ''/'' @ show_fixed '' '' 6 3 (mean_of t n) @ ''/'' @ show_fixed '' '' 6 3 (deviation_of t squares n)"

definition adventure_song_info :: "config \<Rightarrow> database_info \<Rightarrow> song_info \<Rightarrow> drawing" where
  "adventure_song_info cfg db sg buffer =
     and_then (getTextWidth ''(current/avg/std dev)'' 0) (\<lambda>w.
       let x = 128 - w; n = song_count db; st = stat sg in
       draws
         [\<lambda>b. draw_string_empeg b (filename sg) 0 0 128,
          \<lambda>b. draw_string_empeg b ''Stats:'' 6 0 128,
          \<lambda>b. draw_string_empeg b ''(current/avg/std dev)'' 6 x (128 - x),
          \<lambda>b. draw_string_empeg b ''Rating:'' 12 0 128,
          \<lambda>b. draw_string_empeg b ''Play Count:'' 18 0 128,
          \<lambda>b. draw_string_empeg b ''Skip Count:'' 24 0 128,
          \<lambda>b. draw_string_monospaced_empeg b
            (triple_line (show_fixed '' '' 6 3 (Some (get_rating (db_manual_rating_bias cfg) st))) (db_sum db) (db_sqr_sum db) n) 12 40 4,
          \<lambda>b. draw_string_monospaced_empeg b
            (triple_line (show_spaced 6 (play_count st)) (of_int (play_sum db)) (of_int (play_sqr_sum db)) n) 18 40 4,
          \<lambda>b. draw_string_monospaced_empeg b
            (triple_line (show_spaced 6 (skip_count st)) (of_int (skip_sum db)) (of_int (skip_sqr_sum db)) n) 24 40 4]
         buffer)"

definition draw_adventure_screen :: "config \<Rightarrow> adventure \<Rightarrow> drawing" where
  "draw_adventure_screen cfg s buffer =
     (let p = a_player s; db = w_db (p_world p); bias = db_manual_rating_bias cfg in
      case a_screen s of
        ADVENTURE_PLAY \<Rightarrow>
          and_then (song_at db (p_song p)) (\<lambda>song.
            draws (adventure_volume s @
              [\<lambda>b. draw_string_monospaced_empeg b (buffer_text (fb_pcm_size (p_buffer p))) 0 0 4,
               draw_song_empeg bias (p_position p) song song True]) buffer)
      | ADVENTURE_NAVIGATION_1 \<Rightarrow>
          draws [draw_middle ''Currently Playing'' 0, draw_left ''Playlist'' 12, draw_right '''' 12, draw_middle ''Next Menu'' 24] buffer
      | ADVENTURE_NAVIGATION_2 \<Rightarrow>
          draws [draw_middle ''Quit Player'' 0, draw_left ''Delete'' 9, draw_left ''The Masterlist'' 15,
            draw_right ''Set Display'' 9, draw_right ''Brightness'' 15, draw_middle ''Next Menu'' 24] buffer
      | ADVENTURE_PLAY_SUBMENU \<Rightarrow>
          draws [draw_middle (if p_state p = STATE_PLAY then ''Pause'' else ''Play'') 0, draw_left '''' 12, draw_right ''Song Info'' 12,
            draw_middle ''Return to'' 18, draw_middle ''Currently Playing'' 24] buffer
      | ADVENTURE_PLAYLIST_SUBMENU \<Rightarrow>
          draws [draw_middle ''Remove from Playlist'' 0, draw_left '''' 12, draw_right ''Song Info'' 12,
            draw_middle ''Return to'' 18, draw_middle ''Playlist'' 24] buffer
      | ADVENTURE_PLAYLIST \<Rightarrow> adventure_playlist cfg p buffer
      | ADVENTURE_PLAY_SONG_INFO \<Rightarrow>
          and_then (song_at db (p_song p)) (\<lambda>song.
          and_then (the_song song) (\<lambda>sg. adventure_song_info cfg db sg buffer))
      | ADVENTURE_PLAYLIST_SONG_INFO \<Rightarrow>
          and_then (adventure_entry p) (\<lambda>(cur, i).
          and_then (adventure_entry_song p cur) (\<lambda>song.
          and_then (the_song song) (\<lambda>sg. adventure_song_info cfg db sg buffer)))
      | ADVENTURE_QUIT \<Rightarrow> draw_string_empeg buffer ''Squash is shutting down, please wait'' 6 0 128
      | ADVENTURE_DELETE_MASTERLIST \<Rightarrow>
          draws [draw_left ''Masterlist deleted,'' 6, draw_left ''Press any key to return'' 12] buffer
      | ADVENTURE_SET_DISPLAY_BRIGHTNESS \<Rightarrow>
          draw_string_empeg buffer (''Current brightness << '' @ show_int (a_brightness s) @ '' >>'') 12 0 128
      | ADVENTURE_NONE \<Rightarrow> draw_string_empeg buffer ''Blackhole'' 6 0 128)"

definition draw_adventure_display :: "config \<Rightarrow> adventure \<Rightarrow> drawing" where
  "draw_adventure_display cfg s buffer = and_then (vfd_clear full_clip_area buffer 0) (draw_adventure_screen cfg s)"

section \<open>What holds on every screen\<close>

text \<open>The screen that says "Blackhole" is never shown, and the one that says goodbye is shown only once squash is told to end.\<close>

definition adventure_ok :: "adventure \<Rightarrow> bool" where
  "adventure_ok s \<longleftrightarrow> 0 \<le> a_brightness s \<and> a_brightness s \<le> 100 \<and> a_screen s \<noteq> ADVENTURE_NONE \<and>
     (a_screen s = ADVENTURE_QUIT \<longrightarrow> a_exit_status s = 0)"

lemma adventure_frames:
  "on_adventure_player f s = Inr t \<Longrightarrow> a_brightness t = a_brightness s \<and> a_screen t = a_screen s \<and> a_exit_status t = a_exit_status s"
  "a_brightness (unlink_masterlist cfg removable s) = a_brightness s"
  "a_screen (unlink_masterlist cfg removable s) = a_screen s"
  "a_exit_status (unlink_masterlist cfg removable s) = a_exit_status s"
  "a_brightness (adventure_select n s) = a_brightness s" "a_screen (adventure_select n s) = a_screen s"
  "a_exit_status (adventure_select n s) = a_exit_status s"
  by (auto simp: on_adventure_player_def unlink_masterlist_def adventure_select_def Let_def split: option.splits)

lemma adventure_remote_ok: "adventure_remote button s = Some (Inr t) \<Longrightarrow> adventure_ok s \<Longrightarrow> adventure_ok t \<and> a_screen t = a_screen s"
  by (auto simp: adventure_remote_def adventure_ok_def split: if_splits dest!: adventure_frames(1))

lemma adventure_buttons_ok:
  assumes "adventure_buttons cfg removable button s = Inr t" and "adventure_ok s"
  shows "adventure_ok t \<and> (a_screen s = ADVENTURE_QUIT \<longrightarrow> t = s)"
  using assms
  by (cases "a_screen s")
    (auto simp: adventure_buttons_def button_defs adventure_ok_def adventure_frames(2-) adventure_brightness_def Let_def
      split: if_splits dest!: adventure_frames(1))

lemma adventure_event_ok: "adventure_event cfg removable button s = Inr t \<Longrightarrow> adventure_ok s \<Longrightarrow> adventure_ok t"
  using adventure_remote_ok adventure_buttons_ok by (fastforce simp: adventure_event_def split: option.splits)

definition adventure_run :: "config \<Rightarrow> (string \<Rightarrow> bool) \<Rightarrow> int list \<Rightarrow> adventure \<Rightarrow> adventure result" where
  "adventure_run cfg removable = fold_result (adventure_event cfg removable)"

lemma adventure_run_ok: "adventure_ok s \<Longrightarrow> adventure_run cfg removable bs s = Inr t \<Longrightarrow> adventure_ok t"
  unfolding adventure_run_def by (rule fold_result_invariant [where P = adventure_ok]) (auto dest: adventure_event_ok)

text \<open>No button leaves the screen that says goodbye.\<close>

lemma adventure_quits:
  "adventure_ok s \<Longrightarrow> a_screen s = ADVENTURE_QUIT \<Longrightarrow> adventure_run cfg removable bs s = Inr t \<Longrightarrow> a_screen t = ADVENTURE_QUIT"
  unfolding adventure_run_def
  by (rule conjunct2, rule fold_result_invariant [where P = "\<lambda>s. adventure_ok s \<and> a_screen s = ADVENTURE_QUIT"])
    (auto dest: adventure_event_ok simp: adventure_event_def split: option.splits dest!: adventure_remote_ok adventure_buttons_ok)

section \<open>Every screen can be reached\<close>

fun adventure_back :: "adventure_screen \<Rightarrow> int list" where
  "adventure_back ADVENTURE_NAVIGATION_1 = []"
| "adventure_back ADVENTURE_NAVIGATION_2 = [IR_BOTTOM_BUTTON_PRESSED]"
| "adventure_back ADVENTURE_PLAY = [IR_BOTTOM_BUTTON_PRESSED]"
| "adventure_back ADVENTURE_PLAYLIST = [IR_BOTTOM_BUTTON_PRESSED]"
| "adventure_back _ = [IR_BOTTOM_BUTTON_PRESSED, IR_BOTTOM_BUTTON_PRESSED]"

fun adventure_way :: "adventure_screen \<Rightarrow> int list" where
  "adventure_way ADVENTURE_PLAY = [IR_TOP_BUTTON_PRESSED]"
| "adventure_way ADVENTURE_PLAY_SUBMENU = [IR_TOP_BUTTON_PRESSED, IR_TOP_BUTTON_PRESSED]"
| "adventure_way ADVENTURE_PLAY_SONG_INFO = [IR_TOP_BUTTON_PRESSED, IR_TOP_BUTTON_PRESSED, IR_RIGHT_BUTTON_PRESSED]"
| "adventure_way ADVENTURE_PLAYLIST = [IR_LEFT_BUTTON_PRESSED]"
| "adventure_way ADVENTURE_PLAYLIST_SUBMENU = [IR_LEFT_BUTTON_PRESSED, IR_TOP_BUTTON_PRESSED]"
| "adventure_way ADVENTURE_PLAYLIST_SONG_INFO = [IR_LEFT_BUTTON_PRESSED, IR_TOP_BUTTON_PRESSED, IR_RIGHT_BUTTON_PRESSED]"
| "adventure_way ADVENTURE_NAVIGATION_2 = [IR_BOTTOM_BUTTON_PRESSED]"
| "adventure_way ADVENTURE_QUIT = [IR_BOTTOM_BUTTON_PRESSED, IR_TOP_BUTTON_PRESSED]"
| "adventure_way ADVENTURE_DELETE_MASTERLIST = [IR_BOTTOM_BUTTON_PRESSED, IR_LEFT_BUTTON_PRESSED]"
| "adventure_way ADVENTURE_SET_DISPLAY_BRIGHTNESS = [IR_BOTTOM_BUTTON_PRESSED, IR_RIGHT_BUTTON_PRESSED]"
| "adventure_way _ = []"

lemma button_not_remote: "0 \<le> button \<Longrightarrow> button \<le> 8 \<Longrightarrow> adventure_remote button s = None"
  by (simp add: adventure_remote_def)

lemma adventure_run_simps:
  "adventure_run cfg removable [] s = Inr s"
  "adventure_run cfg removable (b # bs) s = and_then (adventure_event cfg removable b s) (adventure_run cfg removable bs)"
  by (simp_all add: adventure_run_def)

lemma back_returns:
  assumes "a_screen s \<noteq> ADVENTURE_QUIT" and "a_screen s \<noteq> ADVENTURE_NONE"
  shows "\<exists>t. adventure_run cfg removable (adventure_back (a_screen s)) s = Inr t \<and> a_screen t = ADVENTURE_NAVIGATION_1"
  using assms
  by (cases "a_screen s")
    (simp_all add: adventure_run_simps adventure_event_def button_not_remote adventure_buttons_def button_defs)

lemma way_leads:
  assumes "a_screen s = ADVENTURE_NAVIGATION_1" and "scr \<noteq> ADVENTURE_NONE"
  shows "\<exists>t. adventure_run cfg removable (adventure_way scr) s = Inr t \<and> a_screen t = scr"
  using assms
  by (cases scr)
    (simp_all add: adventure_run_simps adventure_event_def button_not_remote adventure_buttons_def button_defs adventure_frames(3))

text \<open>From every screen but the last one, the four buttons lead to every screen.\<close>

theorem adventure_reaches_all:
  assumes "adventure_ok s" and "a_screen s \<noteq> ADVENTURE_QUIT" and "scr \<noteq> ADVENTURE_NONE"
  shows "\<exists>bs t. adventure_run cfg removable bs s = Inr t \<and> a_screen t = scr"
proof -
  obtain t where t: "adventure_run cfg removable (adventure_back (a_screen s)) s = Inr t" "a_screen t = ADVENTURE_NAVIGATION_1"
    using back_returns [of s] assms(1,2) by (auto simp: adventure_ok_def)
  obtain u where "adventure_run cfg removable (adventure_way scr) t = Inr u" "a_screen u = scr"
    using way_leads [OF t(2) assms(3)] by blast
  then have "adventure_run cfg removable (adventure_back (a_screen s) @ adventure_way scr) s = Inr u"
    using t(1) by (simp add: adventure_run_def)
  then show ?thesis using \<open>a_screen u = scr\<close> by blast
qed

section \<open>No screen leaves the display\<close>

lemma half_bound: "n \<le> 128 \<Longrightarrow> half n \<le> 64"
  unfolding half_def by presburger

lemma safe_middle: "count_list t (CHR ''@'') = 0 \<Longrightarrow> safe (draw_middle t row)"
  using half_bound [of "128 - text_width 0 t"] text_width_length [of t 0]
  by (simp add: draw_middle_def [abs_def] getTextWidth_eq Let_def safe_string)

lemma safe_right: "count_list t (CHR ''@'') = 0 \<Longrightarrow> safe (draw_right t row)"
  using text_width_length [of t 0] by (simp add: draw_right_def [abs_def] getTextWidth_eq Let_def safe_string)

lemma safe_left: "count_list t (CHR ''@'') = 0 \<Longrightarrow> safe (draw_left t row)"
  by (simp add: draw_left_def [abs_def] safe_string)

lemma safe_adventure_info: "texts_fit sg \<Longrightarrow> safe (adventure_song_info cfg db sg)"
  unfolding adventure_song_info_def getTextWidth_eq and_then_simps Let_def
  using text_width_length [of "''(current/avg/std dev)''" 0]
  by (intro safe_draws) (auto simp: texts_fit_def intro!: safe_string safe_monospaced)

text \<open>The screens of both builds look up the selected song in the same way.\<close>

lemma adventure_lookup:
  "adventure_entry p = selected_in_playlist (ex_empeg\<lparr>e_player := p\<rparr>)"
  "adventure_entry_song p cur = entry_song_info (ex_empeg\<lparr>e_player := p\<rparr>) cur"
  by (simp_all add: adventure_entry_def selected_in_playlist_def adventure_entry_song_def entry_song_info_def)

lemma adventure_entry_safe:
  assumes "playlist_ok (w_db (p_world p)) (queues_of p) as"
  defines "n \<equiv> q_selected (song_queue (queues_of p))"
  shows "adventure_entry p = Inr (if n < int (length as) then Some (as ! nat n) else None, if n < int (length as) then n else int (length as))"
proof -
  have "queues_of p = queues_of (e_player (ex_empeg\<lparr>e_player := p\<rparr>))" by simp
  from selected_entry_safe [OF assms(1) this] show ?thesis unfolding adventure_lookup n_def .
qed

lemma adventure_song_safe:
  assumes "playlist_ok (w_db (p_world p)) (queues_of p) as" and "a \<in> set as" and "\<forall>sg \<in> set (songs (w_db (p_world p))). texts_fit sg"
  obtains e song where "cells (q_heap (queues_of p)) a = Some e" "adventure_entry_song p (Some a) = Inr song"
    "\<forall>sg. song = Some sg \<longrightarrow> texts_fit sg" "song = None \<longleftrightarrow> entry_song e = None"
proof -
  let ?s = "ex_empeg\<lparr>e_player := p\<rparr>"
  have ok: "playlist_ok (w_db (p_world (e_player ?s))) (queues_of (e_player ?s)) as" "\<forall>sg \<in> set (songs (w_db (p_world (e_player ?s)))). texts_fit sg"
    using assms(1,3) by simp_all
  obtain e song where "cells (q_heap (queues_of (e_player ?s))) a = Some e" "entry_song_info ?s (Some a) = Inr song"
    "\<forall>sg. song = Some sg \<longrightarrow> texts_fit sg" "song = None \<longleftrightarrow> entry_song e = None"
    by (rule entry_song_safe [OF ok(1) assms(2) ok(2)])
  then show thesis by (intro that [of e song]) (simp_all add: adventure_lookup)
qed

lemma safe_adventure_playlist:
  assumes "playlist_ok (w_db (p_world p)) (queues_of p) as" and "\<forall>sg \<in> set (songs (w_db (p_world p))). texts_fit sg"
  shows "safe (adventure_playlist cfg p)"
proof -
  let ?n = "q_selected (song_queue (queues_of p))"
  let ?cur = "if ?n < int (length as) then Some (as ! nat ?n) else None"
  have n: "0 \<le> ?n" using assms(1) by (simp add: playlist_ok_def)
  have entry: "safe (\<lambda>b. and_then (adventure_entry_song p ?cur) (\<lambda>song. draw_song_empeg bias 0 None song False b))"
    if "?cur \<noteq> None" for bias
  proof -
    have a: "as ! nat ?n \<in> set as" and cur: "?cur = Some (as ! nat ?n)"
      using that n by (simp_all add: nat_less_iff split: if_splits)
    obtain song where "adventure_entry_song p (Some (as ! nat ?n)) = Inr song" "\<forall>sg. song = Some sg \<longrightarrow> texts_fit sg"
      by (rule adventure_song_safe [OF assms(1) a assms(2)])
    then show ?thesis unfolding cur by (intro safe_and_then safe_song)
  qed
  have heading: "safe (\<lambda>b. draw_string_empeg b t 0 (half (128 - text_width 0 t)) (128 - half (128 - text_width 0 t)))"
    if "count_list t (CHR ''@'') = 0" for t
    using half_bound [of "128 - text_width 0 t"] text_width_length [of t 0] that by (intro safe_string) simp_all
  show ?thesis
    unfolding adventure_playlist_def adventure_entry_safe [OF assms(1)] and_then_simps prod.case getTextWidth_eq Let_def
  proof (rule safe_draws, unfold append.simps set_simps insert_iff, elim disjE)
    fix f
    assume "f \<in> set (if ?cur = None then []
      else [\<lambda>b. and_then (adventure_entry_song p ?cur) (\<lambda>song. draw_song_empeg (db_manual_rating_bias cfg) 0 None song False b)])"
    then show "safe f" using entry by (simp split: if_splits)
  qed (simp_all only: , (intro heading safe_string; simp)+)
qed

text \<open>The screens about a song need one.\<close>

definition adventure_shows :: "adventure \<Rightarrow> bool" where
  "adventure_shows s \<longleftrightarrow>
     (let p = a_player s; q = song_queue (queues_of p); heap = q_heap (queues_of p) in
      (a_screen s = ADVENTURE_PLAY_SONG_INFO \<longrightarrow> p_song p \<noteq> None) \<and>
      (a_screen s = ADVENTURE_PLAYLIST_SONG_INFO \<longrightarrow>
         q_selected q < q_size q \<and> (\<forall>a e. cells heap a = Some e \<longrightarrow> entry_song e \<noteq> None)))"

lemma adventure_screen_safe:
  assumes "adventure_shows s" and "in_library (w_db (p_world (a_player s))) (p_song (a_player s))"
    and "playlist_ok (w_db (p_world (a_player s))) (queues_of (a_player s)) as"
    and "\<forall>sg \<in> set (songs (w_db (p_world (a_player s)))). texts_fit sg"
  shows "safe (draw_adventure_screen cfg s)"
proof -
  let ?p = "a_player s" let ?db = "w_db (p_world ?p)" and ?qs = "queues_of ?p"
  let ?n = "q_selected (song_queue ?qs)"
  obtain playing where playing: "song_at ?db (p_song ?p) = Inr playing" "\<forall>sg. playing = Some sg \<longrightarrow> texts_fit sg"
      "playing = None \<longleftrightarrow> p_song ?p = None"
    using song_at_in_library [OF assms(2,4)] by blast
  note d = draw_adventure_screen_def [abs_def] Let_def
  show ?thesis
  proof (cases "a_screen s")
    case ADVENTURE_PLAY
    have "safe (draws (adventure_volume s @ [\<lambda>b. draw_string_monospaced_empeg b (buffer_text (fb_pcm_size (p_buffer ?p))) 0 0 4,
        draw_song_empeg (db_manual_rating_bias cfg) (p_position ?p) playing playing True]))"
      by (rule safe_draws)
        (auto simp: adventure_volume_def Let_def intro: safe_song [OF playing(2)] safe_monospaced split: option.splits if_splits)
    then show ?thesis using playing(1) by (simp add: d ADVENTURE_PLAY)
  next
    case ADVENTURE_PLAY_SONG_INFO
    then obtain sg where "playing = Some sg" "texts_fit sg"
      using assms(1) playing(2,3) by (cases playing) (auto simp: adventure_shows_def Let_def)
    then show ?thesis using playing(1) safe_adventure_info [of sg cfg ?db] by (simp add: d ADVENTURE_PLAY_SONG_INFO the_song_def)
  next
    case ADVENTURE_PLAYLIST
    then show ?thesis using safe_adventure_playlist [OF assms(3,4)] by (simp add: d)
  next
    case ADVENTURE_PLAYLIST_SONG_INFO
    then have n: "?n < q_size (song_queue ?qs)" and full: "\<forall>a e. cells (q_heap ?qs) a = Some e \<longrightarrow> entry_song e \<noteq> None"
      using assms(1) by (simp_all add: adventure_shows_def Let_def)
    have at: "adventure_entry ?p = Inr (Some (as ! nat ?n), ?n)" "as ! nat ?n \<in> set as"
      using n adventure_entry_safe [OF assms(3)] assms(3) by (simp_all add: playlist_ok_def queue_of_def nat_less_iff)
    obtain e song where e: "cells (q_heap ?qs) (as ! nat ?n) = Some e" "adventure_entry_song ?p (Some (as ! nat ?n)) = Inr song"
        "\<forall>sg. song = Some sg \<longrightarrow> texts_fit sg" "song = None \<longleftrightarrow> entry_song e = None"
      using adventure_song_safe [OF assms(3) at(2) assms(4)] by blast
    then obtain sg where "song = Some sg" "texts_fit sg" using full by blast
    then show ?thesis using at(1) e(2) safe_adventure_info [of sg cfg ?db] by (simp add: d ADVENTURE_PLAYLIST_SONG_INFO the_song_def)
  qed (auto simp: d intro!: safe_string safe_draws safe_middle safe_left safe_right)
qed


definition ex_adventure :: adventure where
  "ex_adventure = \<lparr>a_player = e_player ex_display, a_device = None, a_screen = ADVENTURE_PLAY, a_brightness = 100, a_lit = 100,
     a_exit_status = - 1\<rparr>"


section \<open>Screens about a song that is not there\<close>

text \<open>When nothing plays, the screen with the details of the song reads through a null pointer.\<close>

theorem adventure_info_crashes:
  assumes "a_screen s = ADVENTURE_PLAY" and "p_song (a_player s) = None" and "length buffer = 2048"
  shows "\<exists>t. adventure_run cfg removable [IR_TOP_BUTTON_PRESSED, IR_RIGHT_BUTTON_PRESSED] s = Inr t \<and>
    draw_adventure_display cfg t buffer = Inl Null_Deref"
proof -
  obtain b where b: "vfd_clear full_clip_area buffer 0 = Inr b" using safe_clear assms(3) by (auto simp: safe_def)
  show ?thesis
    by (rule exI [of _ "s\<lparr>a_screen := ADVENTURE_PLAY_SONG_INFO\<rparr>"])
      (simp add: adventure_run_simps adventure_event_def button_not_remote adventure_buttons_def button_defs assms(1,2)
        draw_adventure_display_def draw_adventure_screen_def b song_at_def the_song_def)
qed

text \<open>The last song of the list is removed and nothing else is selected: the selection is behind the list.\<close>

theorem adventure_removal_leaves_selection:
  assumes "a_screen s = ADVENTURE_PLAYLIST_SUBMENU"
    and "adventure_event cfg removable IR_TOP_BUTTON_PRESSED s = Inr t"
    and "q_selected (song_queue (queues_of (a_player s))) = q_size (song_queue (queues_of (a_player s))) - 1"
  shows "q_selected (song_queue (queues_of (a_player t))) = q_size (song_queue (queues_of (a_player t)))"
proof -
  have keeps: "q_selected (song_queue q') = q_selected (song_queue q) \<and> q_size (song_queue q') = q_size (song_queue q) - 1"
    if "unlink_entry n q = Inr (song, q')" for n q song q'
    using that by (auto simp: unlink_entry_def Let_def)
  from assms(2) obtain p where p: "do_remove_playlist_entry cfg (a_player s) = Inr p" "t = s\<lparr>a_screen := ADVENTURE_PLAYLIST, a_player := p\<rparr>"
    by (auto simp: adventure_event_def button_not_remote adventure_buttons_def button_defs assms(1) on_adventure_player_def)
  then show ?thesis
    using assms(3) by (auto simp: do_remove_playlist_entry_def remove_selected_def queues_of_def Let_def dest!: keeps)
qed

end
