(* ===== verification/Meta_String.thy ===== *)
theory Meta_String
  imports Meta_Text Printf
begin

text \<open>
  The values of some keys of a song in a column of the text display: \<open>draw_meta_string()\<close> of
  \<open>src/src/display.c\<close>, with its buffer of \<open>width + 3\<close> bytes and the numbers that \<open>snprintf()\<close>
  returns; and the number of digits of a number, \<open>num_chars()\<close>.
\<close>

section \<open>The code\<close>

text \<open>
  \<open>snprintf(buffer + i, n, "%s", s)\<close> with a positive \<open>n\<close>: the bytes it writes.  It returns the
  length of \<open>s\<close>, even if not all of it was written.
\<close>

definition snprintf_at :: "string \<Rightarrow> int \<Rightarrow> int \<Rightarrow> string \<Rightarrow> string result" where
  "snprintf_at buffer i n s =
     (let t = take (nat (n - 1)) s in
      if 0 \<le> i \<and> i + int (length t) < int (length buffer)
      then Inr (take (nat i) buffer @ t @ NUL # drop (nat i + length t + 1) buffer) else Inl Out_Of_Bounds)"

text \<open>The loops over the values; a value that is a null pointer is not a string.\<close>

fun add_strings :: "int \<Rightarrow> string option list \<Rightarrow> string \<times> int \<Rightarrow> (string \<times> int) result" where
  "add_strings width [] (line_buffer, line_width) = Inr (line_buffer, line_width)"
| "add_strings width (v # vs) (line_buffer, line_width) =
     (if line_width < width
      then
        case v of
          None \<Rightarrow> Inl Null_Deref
        | Some s \<Rightarrow>
          and_then (snprintf_at line_buffer line_width (width - line_width + 1) (s @ ''; '')) (\<lambda>line_buffer.
            add_strings width vs (line_buffer, line_width + int (length (s @ ''; ''))))
      else Inr (line_buffer, line_width))"

fun add_string_keys :: "int \<Rightarrow> song_info option \<Rightarrow> string list \<Rightarrow> string \<times> int \<Rightarrow> (string \<times> int) result" where
  "add_string_keys width song [] (line_buffer, line_width) = Inr (line_buffer, line_width)"
| "add_string_keys width song (k # ks) (line_buffer, line_width) =
     (if line_width < width
      then
        and_then (case get_meta_data song k of None \<Rightarrow> Inr (line_buffer, line_width)
                  | Some m \<Rightarrow> add_strings width (mvalues m) (line_buffer, line_width))
          (add_string_keys width song ks)
      else Inr (line_buffer, line_width))"

definition put_ellipsis :: "int \<Rightarrow> string \<Rightarrow> string result" where
  "put_ellipsis width line_buffer =
     and_then (write_at line_buffer width NUL) (\<lambda>b.
     and_then (write_at b (width - 1) (CHR ''.'')) (\<lambda>b.
     and_then (write_at b (width - 2) (CHR ''.'')) (\<lambda>b. write_at b (width - 3) (CHR ''.''))))"

definition meta_string :: "song_info option \<Rightarrow> string list \<Rightarrow> int \<Rightarrow> string result" where
  "meta_string song keys width =
     (let width = width + 2 in
      if width + 1 < 0 then Inl Squash_Error
      else
        and_then (write_at (replicate (nat (width + 1)) NUL) 0 NUL) (\<lambda>line_buffer.
        and_then (add_string_keys width song keys (line_buffer, 0)) (\<lambda>(line_buffer, line_width).
        and_then
          (if line_width = 0
           then map_result (\<lambda>b. (b, int (length ''[Unknown]''), width)) (snprintf_at line_buffer 0 (width + 1) ''[Unknown]'')
           else if line_width \<le> width
           then map_result (\<lambda>b. (b, line_width - 2, width - 2)) (write_at line_buffer (line_width - 2) NUL)
           else Inr (line_buffer, line_width, width - 2)) (\<lambda>(line_buffer, line_width, width).
        and_then (if line_width - 2 > width then put_ellipsis width line_buffer else Inr line_buffer) (\<lambda>line_buffer.
          Inr (c_str line_buffer))))))"

text \<open>The line is given to \<open>mvwprintw()\<close> as the format.\<close>

definition draw_meta_string :: "song_info option \<Rightarrow> string list \<Rightarrow> int \<Rightarrow> string result" where
  "draw_meta_string song keys width = and_then (meta_string song keys width) printf_plain"

text \<open>
  \<open>(int)log10((double)value) + 1\<close>.  For 0 and below the logarithm is no number that an \<open>int\<close> can
  hold; \<open>undefined_int\<close> is what the machine makes of it.
\<close>

definition num_chars :: "int \<Rightarrow> int \<Rightarrow> int" where
  "num_chars undefined_int value =
     (let n = (if value \<le> 0 then undefined_int else int (floorlog 10 (nat value)) - 1) + 1 in
      if n < 1 then 1 else n)"

section \<open>The values are joined and cut\<close>

lemma add_strings_full: "\<not> snd bl < w \<Longrightarrow> add_strings w vs bl = Inr bl"
  by (cases bl; cases vs) simp_all

lemma add_strings_append: "add_strings w (us @ vs) bl = and_then (add_strings w us bl) (add_strings w vs)"
  by (induction w us bl rule: add_strings.induct) (auto simp: add_strings_full split: option.splits)

lemma add_string_keys_values: "add_string_keys w song ks bl = add_strings w (all_values song ks) bl"
proof (induction ks arbitrary: bl)
  case Nil
  then show ?case by (cases bl) (simp add: all_values_def)
next
  case (Cons k ks)
  then have "add_string_keys w song ks = add_strings w (all_values song ks)" by (simp add: fun_eq_iff)
  then show ?case
    by (cases bl) (auto simp: all_values_def add_strings_append add_strings_full split: option.splits)
qed

text \<open>A buffer of \<open>w + 1\<close> bytes that holds the string \<open>t\<close>.\<close>

definition holds :: "nat \<Rightarrow> string \<Rightarrow> string \<Rightarrow> bool" where
  "holds w t buffer \<longleftrightarrow> length buffer = Suc w \<and> length t \<le> w \<and> take (Suc (length t)) buffer = t @ [NUL]"

lemma snprintf_holds:
  assumes "holds w t b" and "n = int w - int (length t) + 1"
  shows "\<exists>b'. snprintf_at b (int (length t)) n s = Inr b' \<and> holds w (take w (t @ s)) b'"
proof -
  let ?u = "take (w - length t) s"
  have t: "length b = Suc w" "length t \<le> w" "take (length t) b = t"
    using assms(1) by (auto simp: holds_def take_Suc_conv_app_nth)
  have "nat (n - 1) = w - length t" using assms(2) t(2) by simp
  then have "snprintf_at b (int (length t)) n s = Inr (t @ ?u @ NUL # drop (length t + length ?u + 1) b)"
    using t by (simp add: snprintf_at_def Let_def)
  moreover have "take (Suc (length x)) (x @ NUL # r) = x @ [NUL]" for x r by simp
  then have "take (Suc (length (t @ ?u))) ((t @ ?u) @ NUL # drop (length t + length ?u + 1) b) = (t @ ?u) @ [NUL]" .
  then have "holds w (t @ ?u) (t @ ?u @ NUL # drop (length t + length ?u + 1) b)"
    using t unfolding holds_def append_assoc by simp
  moreover have "take w (t @ s) = t @ ?u" using t(2) by simp
  ultimately show ?thesis by (intro exI) simp
qed

text \<open>
  What the loops leave behind: all values, or the values up to one that fills the line exactly,
  or the beginning of a line that is too long.
\<close>

fun values_in :: "nat \<Rightarrow> nat \<Rightarrow> string list \<Rightarrow> string list" where
  "values_in w n [] = []"
| "values_in w n (v # vs) = (if n < w then v # values_in w (n + length v + 2) vs else [])"

lemma add_strings_holds:
  assumes "holds w (take w t) b"
  shows "\<exists>b'. add_strings (int w) (map Some vs) (b, int (length t)) =
      Inr (b', int (length (t @ concat (map with_trail (values_in w (length t) vs))))) \<and>
    holds w (take w (t @ concat (map with_trail (values_in w (length t) vs)))) b'"
  using assms
proof (induction vs arbitrary: t b)
  case Nil
  then show ?case by simp
next
  case (Cons v vs)
  show ?case
  proof (cases "length t < w")
    case True
    then have "holds w t b" using Cons.prems by simp
    from snprintf_holds [OF this refl, of "with_trail v"] obtain b1 where
      b1: "snprintf_at b (int (length t)) (int w - int (length t) + 1) (with_trail v) = Inr b1"
        "holds w (take w (t @ with_trail v)) b1" by blast
    have len: "length (t @ with_trail v) = length t + length v + 2" by simp
    from Cons.IH [OF b1(2)] obtain b2 where
      "add_strings (int w) (map Some vs) (b1, int (length (t @ with_trail v))) =
        Inr (b2, int (length ((t @ with_trail v) @ concat (map with_trail (values_in w (length t + length v + 2) vs)))))"
      "holds w (take w ((t @ with_trail v) @ concat (map with_trail (values_in w (length t + length v + 2) vs)))) b2"
      unfolding len by blast
    then show ?thesis using True b1(1) by (simp add: algebra_simps)
  next
    case False
    then show ?thesis using Cons.prems by simp
  qed
qed

lemma values_in_prefix:
  "\<exists>j \<le> length vs. values_in w n vs = take j vs \<and>
    (j < length vs \<longrightarrow> w \<le> n + length (concat (map with_trail (take j vs))))"
proof (induction vs arbitrary: n)
  case (Cons v vs)
  show ?case
  proof (cases "n < w")
    case True
    from Cons.IH [of "n + length v + 2"] obtain j where
      "j \<le> length vs" "values_in w (n + length v + 2) vs = take j vs"
      "j < length vs \<longrightarrow> w \<le> n + length v + 2 + length (concat (map with_trail (take j vs)))" by blast
    then show ?thesis using True by (intro exI [of _ "Suc j"]) auto
  qed auto
qed simp

lemma joined_prefix: "\<exists>r. joined vs = joined (take j vs) @ r \<and> (0 < j \<and> j < length vs \<longrightarrow> r \<noteq> [])"
proof (induction vs arbitrary: j rule: joined.induct)
  case (3 v w vs)
  show ?case
  proof (cases j)
    case (Suc k)
    show ?thesis
    proof (cases k)
      case (Suc i)
      obtain r where "joined (w # vs) = joined (take k (w # vs)) @ r \<and> (0 < k \<and> k < length (w # vs) \<longrightarrow> r \<noteq> [])"
        using "3.IH" by blast
      then show ?thesis using Suc \<open>j = Suc k\<close> by auto
    qed (use Suc in simp)
  qed simp
qed (auto simp: take_Cons split: nat.splits)

lemma holds_rest: "holds w t b \<Longrightarrow> \<exists>r. b = t @ NUL # r"
  using append_take_drop_id [of "Suc (length t)" b] unfolding holds_def by (metis append.assoc append_Cons append_Nil)

lemma put_ellipsis_writes:
  "put_ellipsis (int (length p) + 3) (p @ c1 # c2 # c3 # c4 # rest) = Inr (p @ ''...'' @ NUL # rest)"
proof -
  have i: "nat (int (length p) + 3) = Suc (Suc (Suc (length p)))" "nat (2 + int (length p)) = Suc (Suc (length p))"
    "nat (1 + int (length p)) = Suc (length p)" by simp_all
  show ?thesis by (simp add: put_ellipsis_def write_at_def list_update_append i)
qed

lemma put_ellipsis_text:
  assumes "3 \<le> width" and "holds (nat (width + 2)) t b" and "length t = nat (width + 2)" and "NUL \<notin> set (take (nat (width - 3)) t)"
  shows "\<exists>b'. put_ellipsis width b = Inr b' \<and> c_str b' = take (nat (width - 3)) t @ ''...''"
proof -
  let ?p = "take (nat (width - 3)) t"
  have p: "int (length ?p) + 3 = width" "length t = length ?p + 5" using assms(1,3) by auto
  have b: "b = t @ [NUL]" using assms(2,3) take_all [of b "Suc (nat (width + 2))"] by (simp add: holds_def)
  have "length (drop (nat (width - 3)) t) = Suc (Suc (Suc (Suc (Suc 0))))" using p(2) by simp
  then obtain c1 c2 c3 c4 c5 where "drop (nat (width - 3)) t = [c1, c2, c3, c4, c5]" by (auto simp only: length_Suc_conv length_0_conv)
  then have "b = ?p @ c1 # c2 # c3 # c4 # [c5, NUL]"
    unfolding b by (metis append.assoc append_Cons append_Nil append_take_drop_id)
  then have "put_ellipsis width b = Inr (?p @ ''...'' @ NUL # [c5, NUL])" using put_ellipsis_writes [of ?p] p(1) by simp
  then show ?thesis using c_str_stop [of "?p @ ''...''" "[c5, NUL]"] assms(4) by simp
qed

lemma meta_string_run:
  assumes "0 \<le> width"
  shows "meta_string song keys width =
    and_then (add_strings (width + 2) (all_values song keys) (replicate (Suc (nat (width + 2))) NUL, 0)) (\<lambda>(line_buffer, line_width).
    and_then
      (if line_width = 0
       then map_result (\<lambda>b. (b, 9, width + 2)) (snprintf_at line_buffer 0 (width + 3) ''[Unknown]'')
       else if line_width \<le> width + 2
       then map_result (\<lambda>b. (b, line_width - 2, width)) (write_at line_buffer (line_width - 2) NUL)
       else Inr (line_buffer, line_width, width)) (\<lambda>(line_buffer, line_width, width).
    and_then (if line_width - 2 > width then put_ellipsis width line_buffer else Inr line_buffer) (\<lambda>line_buffer.
      Inr (c_str line_buffer))))"
proof -
  have n: "\<not> width + 2 + 1 < 0" "nat (width + 2 + 1) = Suc (nat (width + 2))" "width + 2 + 1 = width + 3" "width + 2 - 2 = width"
    "int (length ''[Unknown]'') = 9" using assms by simp_all
  have w: "write_at (replicate (Suc (nat (width + 2))) NUL) 0 NUL = Inr (replicate (Suc (nat (width + 2))) NUL)"
    by (simp add: write_at_def)
  show ?thesis
    by (simp only: meta_string_def Let_def if_not_P [OF n(1)] n(2) w and_then_simps add_string_keys_values) (simp only: n(3-5))
qed

lemma no_values_text:
  assumes "5 \<le> width" and "all_values song keys = []"
  shows "meta_string song keys width = Inr (take (nat (width + 2)) ''[Unknown]'')"
proof -
  let ?w = "nat (width + 2)"
  have "holds ?w [] (replicate (Suc ?w) NUL)" by (simp add: holds_def)
  from snprintf_holds [OF this, of "width + 3" "''[Unknown]''"] assms(1) obtain b where
    b: "snprintf_at (replicate (Suc ?w) NUL) 0 (width + 3) ''[Unknown]'' = Inr b" "holds ?w (take ?w ''[Unknown]'') b"
    by (auto simp del: replicate_Suc)
  have "NUL \<notin> set (take ?w ''[Unknown]'')" by (auto dest: in_set_takeD)
  then have "c_str b = take ?w ''[Unknown]''" using holds_rest [OF b(2)] c_str_stop by blast
  then show ?thesis using b(1) assms by (simp add: meta_string_run del: replicate_Suc)
qed

text \<open>The line for values that are strings: they fit, or fill the line, or are cut.\<close>

definition fits_column :: "int \<Rightarrow> string list \<Rightarrow> string \<Rightarrow> bool" where
  "fits_column width vs s \<longleftrightarrow> int (length s) \<le> width \<and>
    (int (length (joined vs)) \<le> width \<longrightarrow> s = joined vs) \<and>
    (width < int (length (joined vs)) \<longrightarrow> s = take (nat (width - 3)) (joined vs) @ ''...'' \<or>
      (\<exists>j < length vs. s = joined (take j vs) \<and> int (length s) = width))"

lemma meta_string_fits:
  assumes "5 \<le> width" and "all_values song keys = map Some vs" and "vs \<noteq> []" and "\<forall>v \<in> set vs. NUL \<notin> set v"
  shows "\<exists>s. meta_string song keys width = Inr s \<and> fits_column width vs s"
proof -
  let ?w = "nat (width + 2)" and ?b = "replicate (Suc (nat (width + 2))) NUL"
  have w: "int ?w = width + 2" "nat (width + 2 + 1) = Suc ?w" using assms(1) by auto
  obtain j where j: "j \<le> length vs" "values_in ?w 0 vs = take j vs"
      "j < length vs \<longrightarrow> ?w \<le> length (concat (map with_trail (take j vs)))"
    using values_in_prefix [of vs ?w 0] by auto
  have "j \<noteq> 0" using j(3) assms(1,3) w(1) by (cases j) auto
  then have ne: "take j vs \<noteq> []" using assms(3) by simp
  let ?P = "joined (take j vs)"
  have trail: "concat (map with_trail (take j vs)) = ?P @ ''; ''" using ne by (rule joined_trail)
  have "holds ?w (take ?w []) ?b" by (simp add: holds_def)
  from add_strings_holds [OF this, of vs] j(2) trail obtain b where
    b: "add_strings (width + 2) (map Some vs) (?b, 0) = Inr (b, int (length ?P) + 2)" "holds ?w (take ?w (?P @ ''; '')) b"
    unfolding w(1) by auto
  obtain r where r: "joined vs = ?P @ r" "0 < j \<and> j < length vs \<longrightarrow> r \<noteq> []" using joined_prefix by blast
  have no_nul: "NUL \<notin> set ?P" using assms(4) by (auto intro!: joined_no_NUL dest: in_set_takeD)
  have run: "meta_string song keys width =
      and_then (if int (length ?P) \<le> width
                then map_result (\<lambda>b. (b, int (length ?P), width)) (write_at b (int (length ?P)) NUL)
                else Inr (b, int (length ?P) + 2, width)) (\<lambda>(b, n, width).
      and_then (if n - 2 > width then put_ellipsis width b else Inr b) (\<lambda>b. Inr (c_str b)))"
    using b(1) assms(1,2) by (simp add: meta_string_run del: replicate_Suc)
  show ?thesis
  proof (cases "int (length ?P) \<le> width")
    case True
    then have fits: "length (?P @ ''; '') \<le> ?w" using w(1) by simp
    then have "take (Suc (length (?P @ ''; ''))) b = ?P @ ''; '' @ [NUL]" "length b = Suc ?w"
      using b(2) by (simp_all add: holds_def)
    then obtain rest where "b = (?P @ ''; '' @ [NUL]) @ rest" by (metis append_take_drop_id)
    then have "write_at b (int (length ?P)) NUL = Inr (?P @ NUL # CHR '' '' # NUL # rest)"
      by (simp add: write_at_def list_update_append)
    then have shown: "meta_string song keys width = Inr ?P" using run True c_str_stop [OF no_nul] by simp
    show ?thesis
    proof (cases "j < length vs")
      case True
      then have full: "int (length ?P) = width" using j(3) trail fits w(1) by simp
      have "r \<noteq> []" using r(2) True \<open>j \<noteq> 0\<close> by simp
      then have "width < int (length (joined vs))" using full arg_cong [OF r(1), of length] by (cases r) simp_all
      then show ?thesis using shown True full unfolding fits_column_def by (intro exI [of _ ?P]) auto
    next
      case False
      then show ?thesis using shown \<open>int (length ?P) \<le> width\<close> j(1) unfolding fits_column_def by simp
    qed
  next
    case False
    let ?t = "take ?w (?P @ ''; '')"
    have len: "length ?t = ?w" using False w(1) by simp
    have "nat (width - 3) \<le> length ?P" "nat (width - 3) \<le> ?w" using False by auto
    then have cut: "take (nat (width - 3)) ?t = take (nat (width - 3)) ?P" "take (nat (width - 3)) (joined vs) = take (nat (width - 3)) ?P"
      unfolding r(1) by (simp_all add: min_absorb1)
    have "NUL \<notin> set (take (nat (width - 3)) ?t)" unfolding cut using no_nul by (auto dest: in_set_takeD)
    moreover have "3 \<le> width" using assms(1) by simp
    ultimately obtain b' where "put_ellipsis width b = Inr b'" "c_str b' = take (nat (width - 3)) ?t @ ''...''"
      using put_ellipsis_text [OF _ b(2) len] by blast
    then have "put_ellipsis width b = Inr b'" "c_str b' = take (nat (width - 3)) (joined vs) @ ''...''"
      unfolding cut by simp_all
    then have "meta_string song keys width = Inr (take (nat (width - 3)) (joined vs) @ ''...'')" using run False by simp
    then show ?thesis using False assms(1) unfolding r(1) fits_column_def by auto
  qed
qed

lemma joined_plain: "\<forall>v \<in> set vs. c \<notin> set v \<Longrightarrow> c \<noteq> CHR '';'' \<Longrightarrow> c \<noteq> CHR '' '' \<Longrightarrow> c \<notin> set (joined vs)"
  by (induction vs rule: joined.induct) auto

lemma fits_column_plain:
  assumes "fits_column width vs s" and "\<forall>v \<in> set vs. CHR ''%'' \<notin> set v"
  shows "CHR ''%'' \<notin> set s"
proof -
  have "CHR ''%'' \<notin> set (joined us)" if "set us \<subseteq> set vs" for us using that assms(2) by (intro joined_plain) auto
  then have "CHR ''%'' \<notin> set (joined vs)" "CHR ''%'' \<notin> set (joined (take j vs))" for j by (simp_all add: set_take_subset)
  then have "CHR ''%'' \<notin> set (take n (joined vs) @ ''...'')" for n by (auto dest: in_set_takeD)
  moreover have "s = joined vs \<or> s = take (nat (width - 3)) (joined vs) @ ''...'' \<or> (\<exists>j. s = joined (take j vs))"
    using assms(1) unfolding fits_column_def by fastforce
  ultimately show ?thesis using \<open>CHR ''%'' \<notin> set (joined vs)\<close> \<open>\<And>j. CHR ''%'' \<notin> set (joined (take j vs))\<close> by fastforce
qed

lemma draw_meta_string_fits:
  assumes "5 \<le> width" and "all_values song keys = map Some vs" and "vs \<noteq> []"
    and "\<forall>v \<in> set vs. NUL \<notin> set v \<and> CHR ''%'' \<notin> set v"
  shows "\<exists>s. draw_meta_string song keys width = Inr s \<and> fits_column width vs s"
  using meta_string_fits [OF assms(1-3)] fits_column_plain [of width vs] assms(4)
  by (force simp: draw_meta_string_def printf_plain_id)

text \<open>C31. The text in a column of the text display is never wider than the column: it is the values of the keys,
  joined by semicolons, if they fit; else it is the values up to one that just fills the column, or
  the beginning with an ellipsis at its end.  Nothing outside of the buffer is written.  The values
  have no percent signs, for the text is printed as a format.\<close>
theorem column_text_fits:
  assumes "5 \<le> width" and "all_values song keys = map Some vs" and "vs \<noteq> []"
    and "\<forall>v \<in> set vs. NUL \<notin> set v \<and> CHR ''%'' \<notin> set v"
  shows "\<exists>s. draw_meta_string song keys width = Inr s \<and> int (length s) \<le> width \<and>
    (int (length (joined vs)) \<le> width \<longrightarrow> s = joined vs) \<and>
    (width < int (length (joined vs)) \<longrightarrow> s = take (nat (width - 3)) (joined vs) @ ''...'' \<or>
      (\<exists>j < length vs. s = joined (take j vs) \<and> int (length s) = width))"
  using draw_meta_string_fits [OF assms] unfolding fits_column_def .

theorem column_text_fits_witness:
  "\<exists>s. draw_meta_string (Some \<lparr>basename = (\<lambda>_. []), filename = ''a.ogg'',
      meta_keys = [\<lparr>mkey = ''artist'', mvalues = [Some ''Ella Fitzgerald'', Some ''Louis Armstrong'']\<rparr>], meta_key_count = 1,
      stat = \<lparr>play_count = 0, skip_count = 0, repeat_counter = 0, manual_rating = - 1, stat_changed = False\<rparr>,
      play_length = 1000, song_type = None\<rparr>) [''artist''] 12 = Inr s \<and> int (length s) \<le> 12"
proof -
  let ?song = "\<lparr>basename = (\<lambda>_. []), filename = ''a.ogg'',
      meta_keys = [\<lparr>mkey = ''artist'', mvalues = [Some ''Ella Fitzgerald'', Some ''Louis Armstrong'']\<rparr>], meta_key_count = 1,
      stat = \<lparr>play_count = 0, skip_count = 0, repeat_counter = 0, manual_rating = - 1, stat_changed = False\<rparr>,
      play_length = 1000, song_type = None\<rparr>"
  have "all_values (Some ?song) [''artist''] = map Some [''Ella Fitzgerald'', ''Louis Armstrong'']"
    by (simp add: all_values_def get_meta_data_def strcasecmp0_def)
  from column_text_fits [OF _ this, of 12] show ?thesis by (auto simp del: joined.simps)
qed

text \<open>
  A title with a percent sign is taken for a format, and \<open>printf()\<close> looks for an argument that
  was not given.
\<close>

theorem percent_sign_is_a_format:
  "draw_meta_string (Some \<lparr>basename = (\<lambda>_. []), filename = ''a.ogg'', meta_keys = [\<lparr>mkey = ''title'', mvalues = [Some ''100% Pure'']\<rparr>],
      meta_key_count = 1, stat = \<lparr>play_count = 0, skip_count = 0, repeat_counter = 0, manual_rating = - 1, stat_changed = False\<rparr>,
      play_length = 1000, song_type = None\<rparr>) [''title''] 20 = Inl Missing_Argument"
  by code_simp

section \<open>The number of digits\<close>

lemma floorlog_digits: "0 < n \<Longrightarrow> floorlog 10 n = length (show_nat n)"
proof (induction n rule: show_nat.induct)
  case (1 n)
  show ?case
  proof (cases "n < 10")
    case True
    then have "n div 10 = 0" by simp
    then show ?thesis using 1(2) True by (subst compute_floorlog, subst show_nat.simps) (simp add: floorlog_def)
  next
    case False
    then have "floorlog 10 (n div 10) = length (show_nat (n div 10))" using 1(1) by simp
    then show ?thesis using 1(2) False by (subst compute_floorlog, subst show_nat.simps) simp
  qed
qed

text \<open>\<open>num_chars()\<close> gives the number of characters of a whole number, for 0 too if the machine converts
  the logarithm of 0 to something below 1.\<close>
lemma num_chars_counts:
  assumes "0 \<le> value" and "value = 0 \<Longrightarrow> undefined_int < 1"
  shows "num_chars undefined_int value = int (length (show_int value))"
proof (cases "value = 0")
  case True
  then show ?thesis using assms(2) by (simp add: num_chars_def show_int_def show_nat.simps)
next
  case False
  then have "0 < nat value" using assms(1) by simp
  from floorlog_digits [OF this] show ?thesis
    using False assms(1) by (simp add: num_chars_def show_int_def Let_def Suc_le_eq)
qed

end
