(* ===== verification/Text_Display.thy ===== *)
theory Text_Display
  imports Meta_String Song_List Stat Windows
begin

text \<open>
  What the windows of the text display show: \<open>draw_now_playing()\<close>, \<open>draw_list()\<close>, \<open>draw_info()\<close>,
  \<open>draw_help()\<close> and \<open>draw_spectrum()\<close> of \<open>src/src/display.c\<close>.  The calls of ncurses that
  put something into a window are recorded; colours and the refreshing of the window are left
  out.  \<open>whline()\<close> starts where the call before it left the cursor.
\<close>

section \<open>What is printed\<close>

datatype symbol = Plain char | ACS string

datatype print =
    Text int int string
  | Symbol int int symbol
  | Line int int symbol int

text \<open>The parts of a window, one after the other; the first fault ends the drawing.\<close>

fun collect :: "print list result list \<Rightarrow> print list result" where
  "collect [] = Inr []"
| "collect (r # rs) = and_then r (\<lambda>ps. map_result ((@) ps) (collect rs))"

definition meta_column :: "song_info option \<Rightarrow> string list \<Rightarrow> int \<Rightarrow> int \<Rightarrow> int \<Rightarrow> print list result" where
  "meta_column song keys row left width =
     map_result (\<lambda>s. [Text row left s]) (draw_meta_string song keys width)"

definition focus_mark :: "bool \<Rightarrow> print list" where
  "focus_mark have_focus = (if have_focus then [Text 0 1 ''*''] else [])"

section \<open>Now playing\<close>

text \<open>The column where the rating and the time begin.\<close>

definition playing_left :: "int \<Rightarrow> int \<Rightarrow> int \<Rightarrow> int \<Rightarrow> int" where
  "playing_left undefined_int win_width cur_position cur_duration =
     (let time_width = num_chars undefined_int (cur_position sdiv 60) + 3;
          time_width = (if cur_duration \<noteq> - 1 then time_width + num_chars undefined_int (cur_duration sdiv 60) + 4 else time_width);
          time_left = win_width - time_width - 1;
          rating_left = win_width - int (length ''OOOOO'') - 1;
          rating_title_left = win_width - int (length ''Manual Rating:'') - 1;
          (time_left, rating_left) = (if time_left > rating_left then (rating_left, rating_left) else (time_left, time_left)) in
      if time_left > rating_title_left then rating_title_left else time_left)"

definition rating_marks :: "int \<Rightarrow> int \<Rightarrow> print list" where
  "rating_marks left rating =
     (if rating = - 1 then [Text 2 left ''N/R'']
      else
        (let i = (if rating sdiv 2 < 0 then 0 else rating sdiv 2);
             j = (if rating smod 2 \<noteq> 0 then i + 1 else i) in
         map (\<lambda>i. Symbol 2 (left + i) (Plain (CHR ''O''))) [0..i - 1] @
         (if rating smod 2 \<noteq> 0 then [Symbol 2 (left + i) (Plain (CHR ''o''))] else []) @
         map (\<lambda>i. Symbol 2 (left + i) (Plain (CHR ''.''))) [j..4]))"

text \<open>The width of the progress bar and how much of it is filled, in double precision.\<close>

definition bar_width :: "int \<Rightarrow> int" where
  "bar_width win_width = trunc (to_double (of_int (win_width - 20) * to_double (7 / 10)))"

definition bar_filled :: "int \<Rightarrow> int \<Rightarrow> int \<Rightarrow> int \<Rightarrow> int" where
  "bar_filled undefined_int cur_position cur_duration width =
     (if cur_duration = 0 then undefined_int
      else trunc (to_double (to_double (to_double (of_int cur_position / of_int cur_duration) * of_int width) + 1 / 2)))"

definition progress_bar :: "int \<Rightarrow> int \<Rightarrow> int \<Rightarrow> int \<Rightarrow> print list" where
  "progress_bar undefined_int win_width cur_position cur_duration =
     (let width = bar_width win_width;
          left = win_width - width - 2 in
      [Symbol 4 left (ACS ''ULCORNER''), Line 4 (left + 1) (ACS ''HLINE'') width, Symbol 4 (win_width - 1) (ACS ''RTEE''),
       Symbol 5 left (ACS ''RTEE''), Line 5 (left + 1) (Plain (CHR '' '')) width,
       Line 5 (left + 1) (ACS ''CKBOARD'') (bar_filled undefined_int cur_position cur_duration width),
       Symbol 5 (win_width - 1) (ACS ''VLINE''),
       Symbol 6 left (ACS ''LLCORNER''), Line 6 (left + 1) (ACS ''HLINE'') width, Symbol 6 (win_width - 1) (ACS ''LRCORNER'')])"

definition minutes_text :: "int \<Rightarrow> string" where
  "minutes_text t = show_int (t sdiv 60) @ '':'' @ show_02 (t smod 60)"

definition playing_frame :: "int \<Rightarrow> int \<Rightarrow> bool \<Rightarrow> print list" where
  "playing_frame win_height win_width have_focus =
     [Line (win_height - 1) 0 (Plain (CHR '' '')) win_width,
      Symbol (win_height - 2) 0 (ACS ''LLCORNER''), Line (win_height - 2) 1 (ACS ''HLINE'') (win_width - 2),
      Symbol (win_height - 2) (win_width - 1) (ACS ''LRCORNER''), Text 0 2 ''Now Playing''] @ focus_mark have_focus"

definition draw_now_playing ::
  "int \<Rightarrow> int \<Rightarrow> int \<Rightarrow> bool \<Rightarrow> bool \<Rightarrow> song_info option \<Rightarrow> int \<Rightarrow> print list result" where
  "draw_now_playing undefined_int win_height win_width have_focus loading cur_song position =
     (case cur_song of
        None \<Rightarrow>
          Inr (playing_frame win_height win_width have_focus @
            [Text 2 (half win_width - 12) (if loading then ''-- Database loading.. --'' else ''-- No Songs Available --'')])
      | Some sg \<Rightarrow>
        (let cur_duration = (if play_length sg = - 1 then - 1 else play_length sg sdiv 1000);
             cur_position = position sdiv 1000;
             left = playing_left undefined_int win_width cur_position cur_duration in
         collect
           [Inr (playing_frame win_height win_width have_focus @
              [Text 1 2 ''Title:  '', Text 2 2 ''Artist: '', Text 3 2 ''Album:  '', Text 4 2 ''Track:  '']),
            meta_column cur_song [''title''] 1 10 (left - 1 - 10),
            meta_column cur_song [''artist'', ''artist_original''] 2 10 (left - 1 - 10),
            meta_column cur_song [''album'', ''album_original''] 3 10 (left - 1 - 10),
            meta_column cur_song [''tracknumber''] 4 10 9,
            Inr (Text 1 left ''Manual Rating:'' # rating_marks left (manual_rating (stat sg)) @
              (if cur_duration \<ge> 0 then progress_bar undefined_int win_width cur_position cur_duration else []) @
              [Symbol 0 (left - 1) (ACS ''TTEE''), Symbol 1 (left - 1) (ACS ''VLINE''), Symbol 2 (left - 1) (ACS ''VLINE''),
               Symbol 3 (left - 1) (ACS ''VLINE''), Symbol 4 (left - 1) (ACS ''BTEE''),
               Text 3 left (if cur_duration = - 1 then minutes_text cur_position
                            else minutes_text cur_position @ ''/'' @ minutes_text cur_duration)])]))"

section \<open>Lists\<close>

definition column_width :: "int \<Rightarrow> int" where
  "column_width win_width = (win_width - 8) sdiv 3"

definition column_left :: "int \<Rightarrow> int \<Rightarrow> int" where
  "column_left win_width i =
     (let w = column_width win_width in if i = 0 then 2 else if i = 1 then w + 4 else 2 * w + 6)"

definition list_heading :: "string \<Rightarrow> int \<Rightarrow> bool \<Rightarrow> print list" where
  "list_heading header win_width have_focus =
     [Symbol 1 0 (ACS ''LTEE''), Line 1 1 (ACS ''HLINE'') (win_width - 2), Symbol 1 (win_width - 1) (ACS ''RTEE''),
      Text 0 2 header, Text 1 (column_left win_width 0) ''Artist'', Text 1 (column_left win_width 1) ''Title'',
      Text 1 (column_left win_width 2) ''Album''] @ focus_mark have_focus"

definition list_row :: "database_info \<Rightarrow> int \<Rightarrow> int \<times> nat option \<times> bool \<Rightarrow> print list result" where
  "list_row db win_width entry =
     (case entry of (row, song, selected) \<Rightarrow>
       and_then (case song of None \<Rightarrow> Inr None | Some i \<Rightarrow> map_result Some (read_at (songs db) (int i))) (\<lambda>song.
       collect
         [meta_column song [''artist'', ''artist_original''] row (column_left win_width 0) (column_width win_width),
          meta_column song [''title''] row (column_left win_width 1) (column_width win_width),
          meta_column song [''album'', ''album_original''] row (column_left win_width 2) (column_width win_width)]))"

text \<open>The entries in the rows come from \<open>draw_list\<close>, with the arrows and the bar behind the selection.\<close>

definition list_window :: "string \<Rightarrow> database_info \<Rightarrow> int \<Rightarrow> int \<Rightarrow> bool \<Rightarrow> bool \<Rightarrow> list_view \<Rightarrow> print list result" where
  "list_window header db win_height win_width have_focus loading v =
     (let heading = list_heading header win_width have_focus in
      if lv_no_entries v
      then Inr (heading @ [Text 3 (half win_width - 14)
             (if loading then ''-- Database loading...... --'' else ''-- No Entries in Playlist --'')])
      else
        map_result (\<lambda>rows.
            heading @ (if lv_up_arrow v then [Symbol 2 (win_width - 2) (Plain (CHR ''^''))] else []) @
            (if lv_down_arrow v then [Symbol (win_height - 2) (win_width - 2) (Plain (CHR ''v''))] else []) @
            (case lv_line v of None \<Rightarrow> [] | Some row \<Rightarrow> [Line row 1 (ACS ''HLINE'') (win_width - 2)]) @ rows)
          (collect (map (list_row db win_width) (lv_rows v))))"

definition draw_list_window ::
  "string \<Rightarrow> database_info \<Rightarrow> int \<Rightarrow> int \<Rightarrow> bool \<Rightarrow> bool \<Rightarrow> heap \<Rightarrow> song_queue \<Rightarrow> (print list \<times> song_queue) result" where
  "draw_list_window header db win_height win_width have_focus loading h q =
     and_then (draw_list win_height have_focus h q) (\<lambda>(v, q).
     map_result (\<lambda>ps. (ps, q)) (list_window header db win_height win_width have_focus loading v))"

section \<open>Status\<close>

fun follow_next :: "nat \<Rightarrow> heap \<Rightarrow> nat option \<Rightarrow> nat option result" where
  "follow_next 0 h cur = Inr cur"
| "follow_next (Suc n) h cur = and_then (load_entry h cur) (\<lambda>e. follow_next n h (entry_next e))"

definition info_entry :: "heap \<Rightarrow> song_queue \<Rightarrow> nat option result" where
  "info_entry h q =
     (if q_size q - 1 < q_selected q then Inr None
      else
        and_then (follow_next (nat (q_selected q)) h (q_head q)) (\<lambda>cur.
          if cur = None then Inr None else map_result entry_song (load_entry h cur)))"

definition info_song :: "window \<Rightarrow> nat option \<Rightarrow> queues \<Rightarrow> nat option result" where
  "info_song focus player_song qs =
     (case focus of
        WIN_NOW_PLAYING \<Rightarrow> Inr player_song
      | WIN_PLAYLIST \<Rightarrow> info_entry (q_heap qs) (song_queue qs)
      | WIN_PASTLIST \<Rightarrow> info_entry (q_heap qs) (past_queue qs)
      | _ \<Rightarrow> Inr None)"

definition info_numbers :: "string \<Rightarrow> real \<Rightarrow> real \<Rightarrow> int \<Rightarrow> string" where
  "info_numbers first t squares n =
     (let avg = t / of_int n in
      first @ '' / '' @ show_fixed '' '' 8 5 (Some avg) @ '' / '' @
      show_fixed '' '' 8 5 (Some (sqrt \<bar>squares / of_int n - avg * avg\<bar>)))"

definition draw_info :: "config \<Rightarrow> database_info \<Rightarrow> int \<Rightarrow> bool \<Rightarrow> window \<Rightarrow> nat option \<Rightarrow> queues \<Rightarrow> print list result" where
  "draw_info cfg db win_width loading focus player_song qs =
     and_then (info_song focus player_song qs) (\<lambda>song.
     map_result (\<lambda>song.
         let name = (case song of None \<Rightarrow> ''No song selected'' | Some sg \<Rightarrow> filename sg);
             rating = (case song of None \<Rightarrow> 0 | Some sg \<Rightarrow> get_rating (db_manual_rating_bias cfg) (stat sg));
             played = (case song of None \<Rightarrow> 0 | Some sg \<Rightarrow> play_count (stat sg));
             skipped = (case song of None \<Rightarrow> 0 | Some sg \<Rightarrow> skip_count (stat sg));
             n = song_count db in
         [Text 0 2 ''Status'', Text 1 1 ''Current Selected Song filename:'', Text 2 1 (take (nat (win_width - 2)) name),
          Text 3 1 (''Songs loaded: '' @ show_int n)] @
         (if n \<noteq> 0 \<and> \<not> loading
          then
            [Text 4 1 ''              Current /  Average /  Std Dev'',
             Text 5 1 (''Rating:      '' @ info_numbers (show_fixed '' '' 8 5 (Some rating)) (db_sum db) (db_sqr_sum db) n),
             Text 6 1 (''Play Count:  '' @ info_numbers (show_spaced 8 played) (of_int (play_sum db)) (of_int (play_sqr_sum db)) n),
             Text 7 1 (''Skip Count:  '' @ info_numbers (show_spaced 8 skipped) (of_int (skip_sum db)) (of_int (skip_sqr_sum db)) n)]
          else []))
       (case song of None \<Rightarrow> Inr None | Some i \<Rightarrow> map_result Some (read_at (songs db) (int i))))"

section \<open>Help\<close>

definition help_texts :: "(int \<times> int \<times> string) list" where
  "help_texts =
     [(0, 2, ''Quit''), (1, 2, ''Spectrum''), (0, 14, ''Play/Pause''), (1, 14, ''Stop''), (0, 26, ''Skip''), (1, 26, ''Edit''),
      (0, 38, ''Info''), (1, 38, ''m/M Adjust Rating'')]"

definition help_keys :: "(int \<times> int \<times> char) list" where
  "help_keys =
     [(0, 2, CHR ''Q''), (1, 5, CHR ''c''), (0, 14, CHR ''P''), (1, 15, CHR ''t''), (0, 26, CHR ''S''), (1, 26, CHR ''E''),
      (0, 38, CHR ''I''), (1, 38, CHR ''m''), (1, 40, CHR ''M'')]"

definition draw_help :: "string \<Rightarrow> int \<Rightarrow> print list" where
  "draw_help SQUASH_VERSION win_width =
     (let version = ''Squash version '' @ SQUASH_VERSION @ '' by Adam Luter'' in
      Text 2 (win_width - int (length version) - 1) version #
      map (\<lambda>(row, left, s). Text row left s) help_texts @ map (\<lambda>(row, left, c). Symbol row left (Plain c)) help_keys)"

text \<open>The keys that are set off are letters of the words, in their places.\<close>

lemma keys_in_words:
  "list_all (\<lambda>(row, left, c). \<exists>(r, l, s) \<in> set help_texts. r = row \<and> l \<le> left \<and> left < l + int (length s) \<and> s ! nat (left - l) = c) help_keys"
  by code_simp

section \<open>Spectrum\<close>

text \<open>
  Three colours for three parts of the height; \<open>cur_color\<close> counts them.  The array with the
  rows where they begin has three elements.
\<close>

definition row_top :: "int \<Rightarrow> int list" where
  "row_top h = [0, h sdiv 3, (h * 2) sdiv 3]"

fun spectrum_rows :: "int list \<Rightarrow> int \<Rightarrow> int \<Rightarrow> symbol list \<Rightarrow> int list \<Rightarrow> int \<Rightarrow> print list result" where
  "spectrum_rows tops h w bitmap [] cur_color = Inr []"
| "spectrum_rows tops h w bitmap (y # ys) cur_color =
     and_then (read_at tops cur_color) (\<lambda>t.
     and_then (collect (map (\<lambda>x. map_result (\<lambda>c. [Symbol (h - y) (x + 1) c]) (read_at bitmap (y * w + x))) [0..w - 1])) (\<lambda>row.
     map_result ((@) row) (spectrum_rows tops h w bitmap ys (if y = t then cur_color + 1 else cur_color))))"

definition draw_spectrum :: "int \<Rightarrow> int \<Rightarrow> symbol list option \<Rightarrow> int \<Rightarrow> int \<Rightarrow> print list result" where
  "draw_spectrum win_height win_width bitmap height width =
     map_result ((#) (Text 0 2 ''Spectrum Analyzer''))
       (case bitmap of
          None \<Rightarrow> Inr []
        | Some bm \<Rightarrow>
          if height = win_height - 2 \<and> width = win_width - 2
          then spectrum_rows (row_top (win_height - 2)) (win_height - 2) (win_width - 2) bm [0..win_height - 3] 0
          else Inr [])"

section \<open>Everything stays inside its window\<close>

fun inside :: "int \<Rightarrow> int \<Rightarrow> print \<Rightarrow> bool" where
  "inside h w (Text row col s) \<longleftrightarrow> 0 \<le> row \<and> row < h \<and> 0 \<le> col \<and> col + int (length s) \<le> w"
| "inside h w (Symbol row col c) \<longleftrightarrow> 0 \<le> row \<and> row < h \<and> 0 \<le> col \<and> col < w"
| "inside h w (Line row col c n) \<longleftrightarrow> 0 \<le> row \<and> row < h \<and> 0 \<le> col \<and> col + n \<le> w"

definition drawn_inside :: "int \<Rightarrow> int \<Rightarrow> print list result \<Rightarrow> bool" where
  "drawn_inside h w r \<longleftrightarrow> (\<exists>ps. r = Inr ps \<and> (\<forall>p \<in> set ps. inside h w p))"

lemma drawn_inside_Inr [simp]: "drawn_inside h w (Inr ps) \<longleftrightarrow> (\<forall>p \<in> set ps. inside h w p)"
  by (simp add: drawn_inside_def)

lemma drawn_inside_collect: "(\<And>r. r \<in> set rs \<Longrightarrow> drawn_inside h w r) \<Longrightarrow> drawn_inside h w (collect rs)"
proof (induction rs)
  case (Cons r rs)
  have "drawn_inside h w r" "drawn_inside h w (collect rs)" using Cons by simp_all
  then show ?case by (fastforce simp: drawn_inside_def)
qed simp

text \<open>The values of the song are strings, and none has a percent sign.\<close>

definition text_ok :: "song_info option \<Rightarrow> string list \<Rightarrow> bool" where
  "text_ok song keys \<longleftrightarrow>
     (\<exists>vs. all_values song keys = map Some vs \<and> (\<forall>v \<in> set vs. NUL \<notin> set v \<and> CHR ''%'' \<notin> set v))"

lemma meta_column_inside:
  assumes "text_ok song keys" and "5 \<le> width" and "0 \<le> left" and "left + width + 2 \<le> w" and "0 \<le> row" and "row < h"
  shows "drawn_inside h w (meta_column song keys row left width)"
proof -
  obtain vs where vs: "all_values song keys = map Some vs" "\<forall>v \<in> set vs. NUL \<notin> set v \<and> CHR ''%'' \<notin> set v"
    using assms(1) by (auto simp: text_ok_def)
  have "\<exists>s. draw_meta_string song keys width = Inr s \<and> int (length s) \<le> width + 2"
  proof (cases "vs = []")
    case True
    then have "meta_string song keys width = Inr (take (nat (width + 2)) ''[Unknown]'')"
      using vs(1) assms(2) by (simp add: no_values_text)
    moreover have "CHR ''%'' \<notin> set (take n ''[Unknown]'')" for n by (auto dest: in_set_takeD)
    ultimately show ?thesis using assms(2) by (simp add: draw_meta_string_def printf_plain_id)
  next
    case False
    from draw_meta_string_fits [OF assms(2) vs(1) False vs(2)] show ?thesis by (fastforce simp: fits_column_def)
  qed
  then show ?thesis using assms(3-6) by (auto simp: meta_column_def)
qed

text \<open>The spectrum is drawn from a table of three rows with an index that goes on to a fourth: with a
  bitmap of more than three rows the table is read past its end.\<close>
theorem spectrum_reads_too_far:
  assumes "4 \<le> h" and "0 \<le> w" and "int (length bitmap) = h * w"
  shows "draw_spectrum (h + 2) (w + 2) (Some bitmap) h w = Inl Out_Of_Bounds"
proof -
  have row: "\<exists>row. collect (map (\<lambda>x. map_result (\<lambda>c. [Symbol (h - y) (x + 1) c]) (read_at bitmap (y * w + x))) [0..w - 1]) = Inr row"
    if y: "0 \<le> y" "y < h" for y
  proof -
    have "read_at bitmap (y * w + x) = Inr (bitmap ! nat (y * w + x))" if "0 \<le> x" "x < w" for x
    proof -
      have "(y + 1) * w \<le> h * w" using y assms(2) by (intro mult_right_mono) auto
      then have "y * w + x < h * w" using that by (simp add: distrib_right)
      then show ?thesis using y that assms(2,3) by (simp add: read_at_def)
    qed
    then have "\<exists>ps. collect (map (\<lambda>x. map_result (\<lambda>c. [Symbol (h - y) (x + 1) c]) (read_at bitmap (y * w + x))) xs) = Inr ps"
      if "\<forall>x \<in> set xs. 0 \<le> x \<and> x < w" for xs
      using that by (induction xs) auto
    then show ?thesis by simp
  qed
  have "h sdiv 3 = h div 3" "(h * 2) sdiv 3 = (h * 2) div 3" using assms(1) by (simp_all add: signed_divide_int_def sgn_if)
  then have tops: "row_top h = [0, h div 3, (h * 2) div 3]" by (simp add: row_top_def)
  have step: "spectrum_rows (row_top h) h w bitmap (y # ys) c = Inl Out_Of_Bounds"
    if "0 \<le> y" "y < h" "read_at (row_top h) c = Inr t"
      "spectrum_rows (row_top h) h w bitmap ys (if y = t then c + 1 else c) = Inl Out_Of_Bounds" for y ys c t
    using row [OF that(1,2)] that(3,4) by auto
  text \<open>From row \<open>y\<close> on, with \<open>c\<close> rows of the table passed.\<close>
  have "spectrum_rows (row_top h) h w bitmap [y..h - 1] c = Inl Out_Of_Bounds"
    if "c = (if y \<le> 0 then 0 else if y \<le> h div 3 then 1 else if y \<le> (h * 2) div 3 then 2 else 3)" "0 \<le> y" "y < h" for y c
    using that
  proof (induction "nat (h - y)" arbitrary: y c rule: less_induct)
    case less
    show ?case
    proof (cases "y \<le> (h * 2) div 3")
      case False
      then have "c = 3" using less.prems assms(1) by (simp split: if_splits)
      moreover have "[y..h - 1] = y # [y + 1..h - 1]" using less.prems(3) by (simp add: upto.simps)
      ultimately show ?thesis by (simp add: tops read_at_def)
    next
      case True
      define t where "t = row_top h ! nat c"
      have order: "0 < h div 3" "h div 3 < (h * 2) div 3" "(h * 2) div 3 < h - 1" using assms(1) by presburger+
      have c: "0 \<le> c" "c < 3" using less.prems(1) True order by (auto split: if_splits)
      have rd: "read_at (row_top h) c = Inr t" using c by (simp add: read_at_def tops t_def)
      have "(if y = t then c + 1 else c) =
          (if y + 1 \<le> 0 then 0 else if y + 1 \<le> h div 3 then 1 else if y + 1 \<le> (h * 2) div 3 then 2 else 3)"
        using less.prems(1,2) True order by (auto simp: t_def tops split: if_splits)
      moreover have "y + 1 < h" using True order by simp
      ultimately have "spectrum_rows (row_top h) h w bitmap [y + 1..h - 1] (if y = t then c + 1 else c) = Inl Out_Of_Bounds"
        using less.hyps less.prems(2) by simp
      moreover have "[y..h - 1] = y # [y + 1..h - 1]" using less.prems(3) by (simp add: upto.simps)
      ultimately show ?thesis using step [OF less.prems(2,3) rd] by simp
    qed
  qed
  from this [of 0 0] show ?thesis using assms(1) by (simp add: draw_spectrum_def map_result_def)
qed

theorem spectrum_reads_too_far_witness:
  "draw_spectrum 6 3 (Some (replicate 4 (Plain (CHR '' '')))) 4 1 = Inl Out_Of_Bounds"
  using spectrum_reads_too_far [of 4 1 "replicate 4 (Plain (CHR '' ''))"] by simp

section \<open>The window of the song that plays\<close>

lemma show_nat_length: "n < 10 ^ k \<Longrightarrow> 0 < k \<Longrightarrow> length (show_nat n) \<le> k"
proof (induction n arbitrary: k rule: show_nat.induct)
  case (1 n)
  show ?case
  proof (cases "n < 10")
    case True
    then show ?thesis using 1(3) by (subst show_nat.simps) simp
  next
    case False
    then obtain j where k: "k = Suc j" "0 < j" using 1(2) by (cases k; cases "k - 1") auto
    have "n div 10 < 10 ^ j" using 1(2) by (simp add: k less_mult_imp_div_less mult.commute)
    then have "length (show_nat (n div 10)) \<le> j" using 1(1) False k(2) by simp
    then show ?thesis using False k(1) by (subst show_nat.simps) simp
  qed
qed

lemma show_int_length: "0 \<le> n \<Longrightarrow> n < 10 ^ k \<Longrightarrow> 0 < k \<Longrightarrow> length (show_int n) \<le> k"
  using show_nat_length [of "nat n" k] by (simp add: show_int_def nat_less_iff)

lemma pad_length: "length (pad w c s) = max (nat w) (length s)"
  unfolding pad_def length_append length_replicate by linarith

lemma sdiv_nonneg: "0 \<le> (a :: int) \<Longrightarrow> 0 < b \<Longrightarrow> a sdiv b = a div b \<and> a smod b = a mod b"
  by (simp add: signed_divide_int_def signed_modulo_int_def sgn_if minus_div_mult_eq_mod)

lemma minutes_length:
  assumes "0 \<le> t" and "undefined_int < 1"
  shows "int (length (minutes_text t)) = num_chars undefined_int (t sdiv 60) + 3"
proof -
  have s: "t sdiv 60 = t div 60" "t smod 60 = t mod 60" using sdiv_nonneg [of t 60] assms(1) by simp_all
  have m: "\<not> t mod 60 < 0" "t mod 60 < 10 ^ 2" using pos_mod_bound [of 60 t] by (simp_all add: not_less)
  then have "length (show_int (t mod 60)) \<le> 2" using show_int_length [of "t mod 60" 2] by (simp add: not_less)
  then have "length (show_02 (t smod 60)) = 2" using m(1) s by (simp add: show_02_def pad_length)
  moreover have "num_chars undefined_int (t sdiv 60) = int (length (show_int (t sdiv 60)))"
    using num_chars_counts [of "t sdiv 60" undefined_int] assms s by (simp add: pos_imp_zdiv_nonneg_iff)
  ultimately show ?thesis by (simp add: minutes_text_def)
qed

text \<open>\<open>\<epsilon>\<close> of double precision, and a rounding in terms of it.\<close>

lemma double_eps: "0 < two_to (- 53)" "two_to (- 53) \<le> 1 / 2 ^ 50"
  by (simp_all add: two_to_def)

lemma to_double_upper:
  assumes "x = 0 \<or> 1 / 2 ^ 40 \<le> x"
  shows "to_double x \<le> x * (1 + 1 / 2 ^ 50)" and "x * (1 - 1 / 2 ^ 50) \<le> to_double x"
proof -
  have x: "0 \<le> x" using assms order_trans [of 0 "1 / 2 ^ 40" x] by fastforce
  have "x = 0 \<or> two_to (- 40) \<le> \<bar>x\<bar>" using assms x by (auto simp: two_to_def)
  then have "\<bar>to_double x - x\<bar> \<le> \<bar>x\<bar> * two_to (- 53)" unfolding to_double_def by (rule round_to_error)
  also have "\<dots> \<le> x * (1 / 2 ^ 50)" using x double_eps by (intro mult_mono) (simp_all only: abs_of_nonneg less_imp_le order_refl)
  finally have "\<bar>to_double x - x\<bar> \<le> x * (1 / 2 ^ 50)" .
  then show "to_double x \<le> x * (1 + 1 / 2 ^ 50)" "x * (1 - 1 / 2 ^ 50) \<le> to_double x"
    unfolding abs_le_iff by (simp_all add: distrib_left right_diff_distrib)
qed

lemma bar_width_bounds:
  assumes "45 \<le> w" and "w \<le> 2 ^ 20"
  shows "0 \<le> bar_width w \<and> bar_width w \<le> w - 20"
proof -
  let ?k = "to_double (7 / 10)" and ?n = "of_int (w - 20) :: rat"
  have n: "25 \<le> ?n" using assms(1) by simp
  have k: "1 / 2 \<le> ?k" "?k \<le> 3 / 4" using to_double_upper [of "7 / 10"] by simp_all
  have p: "12 \<le> ?n * ?k" "?n * ?k \<le> ?n * (3 / 4)"
    using mult_mono [OF n k(1)] mult_left_mono [OF k(2), of ?n] n by simp_all
  have "to_double (?n * ?k) \<le> ?n * ?k * (1 + 1 / 2 ^ 50)" "?n * ?k * (1 - 1 / 2 ^ 50) \<le> to_double (?n * ?k)"
    using to_double_upper [of "?n * ?k"] p(1) by simp_all
  then have "0 \<le> to_double (?n * ?k)" "to_double (?n * ?k) \<le> ?n" using p n by simp_all
  then show ?thesis by (simp add: bar_width_def trunc_def floor_le_iff)
qed

lemma bar_filled_bounds:
  assumes "0 \<le> p" and "p \<le> d" and "0 < d" and "d < 2 ^ 31" and "0 \<le> n" and "n \<le> 2 ^ 20"
  shows "bar_filled undefined_int p d n \<le> n"
proof -
  let ?r = "of_int p / of_int d :: rat" and ?n = "of_int n :: rat" and ?e = "1 / 2 ^ 50 :: rat"
  have n: "?n \<le> 2 ^ 20" "0 \<le> ?n" using assms(5,6) by (metis of_int_le_iff of_int_numeral of_int_power, simp)
  have d: "(of_int d :: rat) \<le> 2 ^ 31" using assms(4) by (metis less_imp_le of_int_le_iff of_int_numeral of_int_power)
  have r: "?r = 0 \<or> 1 / 2 ^ 31 \<le> ?r" "?r \<le> 1"
  proof -
    have "1 / 2 ^ 31 \<le> ?r" if "p \<noteq> 0"
    proof -
      have "1 / 2 ^ 31 \<le> 1 / (of_int d :: rat)" using d assms(3) by (intro divide_left_mono) simp_all
      also have "\<dots> \<le> ?r" using that assms(1,3) by (intro divide_right_mono) simp_all
      finally show ?thesis .
    qed
    then show "?r = 0 \<or> 1 / 2 ^ 31 \<le> ?r" by auto
    show "?r \<le> 1" using assms(2,3) by simp
  qed
  let ?q = "to_double ?r"
  have q: "?q \<le> 1 + ?e" "?q = 0 \<or> 1 / 2 ^ 32 \<le> ?q"
  proof -
    have "?r = 0 \<or> 1 / 2 ^ 40 \<le> ?r"
      using r(1) by (elim disjE) (simp, rule disjI2, rule order_trans [of _ "1 / 2 ^ 31"], simp)
    note q = to_double_upper [OF this]
    have "?r * (1 + ?e) \<le> 1 * (1 + ?e)" using r(2) by (intro mult_right_mono) simp_all
    then show "?q \<le> 1 + ?e" using q(1) by simp
    show "?q = 0 \<or> 1 / 2 ^ 32 \<le> ?q" using r(1) q(2) by (auto simp: to_double_def round_to_def)
  qed
  let ?y = "to_double (?q * ?n)"
  have y: "?y \<le> ?n + 1 / 100" "0 \<le> ?y"
  proof -
    have "?q * ?n = 0 \<or> 1 / 2 ^ 40 \<le> ?q * ?n"
    proof (cases "?q = 0 \<or> n = 0")
      case False
      then have "1 \<le> ?n" using assms(5) by simp
      then have "1 / 2 ^ 32 * 1 \<le> ?q * ?n" using q(2) False by (intro mult_mono) auto
      then show ?thesis by simp
    qed auto
    note y = to_double_upper [OF this]
    have q0: "0 \<le> ?q" using q(2) by (auto intro: order_trans [of 0 "1 / 2 ^ 32"])
    have "?q * ?n * (1 + ?e) \<le> (1 + ?e) * ?n * (1 + ?e)" using q n(2) by (intro mult_right_mono) simp_all
    also have "\<dots> \<le> ?n + 1 / 100" using n by simp
    finally show "?y \<le> ?n + 1 / 100" using y(1) by simp
    have "0 \<le> ?q * ?n * (1 - ?e)" using q0 n(2) by simp
    from order_trans [OF this y(2)] show "0 \<le> ?y" .
  qed
  have "1 / 2 ^ 40 \<le> (1 / 2 :: rat)" by simp
  also have "\<dots> \<le> ?y + 1 / 2" using y(2) by simp
  finally have half: "1 / 2 ^ 40 \<le> ?y + 1 / 2" .
  note to_double_upper [OF disjI2 [OF half]]
  moreover have "(?y + 1 / 2) * (1 + ?e) \<le> (?n + 51 / 100) * (1 + ?e)" using y(1) by (intro mult_right_mono) simp_all
  moreover have "(?n + 51 / 100) * (1 + ?e) < ?n + 1" using n by simp
  moreover have "0 \<le> (?y + 1 / 2) * (1 - ?e)" using y(2) by simp
  ultimately have z: "to_double (?y + 1 / 2) < ?n + 1" "0 \<le> to_double (?y + 1 / 2)" by linarith+
  then have "\<lfloor>to_double (?y + 1 / 2)\<rfloor> \<le> n" by (simp add: floor_le_iff)
  then show ?thesis using z(2) assms(3) by (simp add: bar_filled_def trunc_def)
qed

text \<open>The texts of the windows: they are strings without percent signs.\<close>

definition song_text_ok :: "song_info \<Rightarrow> bool" where
  "song_text_ok sg \<longleftrightarrow> text_ok (Some sg) [''title''] \<and> text_ok (Some sg) [''artist'', ''artist_original''] \<and>
     text_ok (Some sg) [''album'', ''album_original''] \<and> text_ok (Some sg) [''tracknumber'']"

lemma playing_left_bounds:
  assumes "45 \<le> w" and "0 \<le> p" and "p < 2 ^ 31" and "d = - 1 \<or> 0 \<le> d \<and> d < 2 ^ 31" and "undefined_int < 1"
  shows "16 \<le> playing_left undefined_int w p d \<and> playing_left undefined_int w p d \<le> w - 15 \<and>
    playing_left undefined_int w p d + int (length (if d = - 1 then minutes_text p else minutes_text p @ ''/'' @ minutes_text d)) \<le> w"
proof -
  have digits: "num_chars undefined_int (t sdiv 60) \<le> 8" if "0 \<le> t" "t < 2 ^ 31" for t
  proof -
    have t: "t sdiv 60 = t div 60" "0 \<le> t div 60" "t div 60 < 10 ^ 8"
      using that sdiv_nonneg [of t 60] by (simp_all add: pos_imp_zdiv_nonneg_iff)
    then show ?thesis
      using show_int_length [of "t div 60" 8] num_chars_counts [of "t div 60" undefined_int] assms(5) by simp
  qed
  show ?thesis
    using digits [of p] digits [of d] assms minutes_length [of p undefined_int] minutes_length [of d undefined_int]
    by (auto simp: playing_left_def Let_def)
qed

lemma rating_marks_inside:
  assumes "- 1 \<le> rating" and "rating \<le> 10" and "0 \<le> left" and "left + 5 \<le> w" and "2 < h"
  shows "\<forall>p \<in> set (rating_marks left rating). inside h w p"
proof (cases "rating = - 1")
  case False
  then have "rating sdiv 2 = rating div 2" "rating smod 2 = rating mod 2" using assms(1) sdiv_nonneg [of rating 2] by simp_all
  moreover have "0 \<le> rating div 2" "rating div 2 \<le> 5" "rating mod 2 = 1 \<longrightarrow> rating div 2 \<le> 4"
    using False assms(1,2) by presburger+
  ultimately show ?thesis using False assms(3-5) by (auto simp: rating_marks_def Let_def split: if_splits)
qed (use assms in \<open>simp add: rating_marks_def\<close>)

lemma progress_bar_inside:
  assumes "45 \<le> w" and "w \<le> 2 ^ 20" and "6 < h" and "0 \<le> p" and "p \<le> d" and "d < 2 ^ 31" and "undefined_int < 1"
  shows "\<forall>x \<in> set (progress_bar undefined_int w p d). inside h w x"
proof -
  note b = bar_width_bounds [OF assms(1,2)]
  have "bar_filled undefined_int p d (bar_width w) \<le> bar_width w"
  proof (cases "d = 0")
    case True
    then show ?thesis using assms(7) b by (simp add: bar_filled_def)
  next
    case False
    then show ?thesis using assms b by (intro bar_filled_bounds) simp_all
  qed
  then show ?thesis using b assms(1-3) by (simp add: progress_bar_def Let_def)
qed

text \<open>What stands right of the line at \<open>left - 1\<close>, and the bar.\<close>

lemma playing_right_inside:
  assumes "45 \<le> w" and "w \<le> 2 ^ 20" and "- 1 \<le> rating" and "rating \<le> 10" and "0 \<le> p"
    and "d = - 1 \<or> 0 \<le> d \<and> p \<le> d \<and> d < 2 ^ 31" and "undefined_int < 1" and "16 \<le> left" and "left \<le> w - 15"
    and "left + int (length (if d = - 1 then minutes_text p else minutes_text p @ ''/'' @ minutes_text d)) \<le> w"
  shows "\<forall>x \<in> set (Text 1 left ''Manual Rating:'' # rating_marks left rating @
      (if d \<ge> 0 then progress_bar undefined_int w p d else []) @
      [Symbol 0 (left - 1) (ACS ''TTEE''), Symbol 1 (left - 1) (ACS ''VLINE''), Symbol 2 (left - 1) (ACS ''VLINE''),
       Symbol 3 (left - 1) (ACS ''VLINE''), Symbol 4 (left - 1) (ACS ''BTEE''),
       Text 3 left (if d = - 1 then minutes_text p else minutes_text p @ ''/'' @ minutes_text d)]). inside 7 w x"
proof -
  have "\<forall>x \<in> set (rating_marks left rating). inside 7 w x"
    using rating_marks_inside [OF assms(3,4), of left w 7] assms(8,9) by simp
  moreover have "\<forall>x \<in> set (if d \<ge> 0 then progress_bar undefined_int w p d else []). inside 7 w x"
    using progress_bar_inside [OF assms(1,2) _ assms(5), of 7 d] assms(6,7) by auto
  ultimately show ?thesis using assms(8-10) by (simp add: ball_Un del: length_append)
qed


lemma text_okI:
  "all_values song keys = map Some vs \<Longrightarrow> list_all (\<lambda>v. NUL \<notin> set v \<and> CHR ''%'' \<notin> set v) vs \<Longrightarrow> text_ok song keys"
  by (auto simp: text_ok_def list_all_iff)

text \<open>A song to show, with two artists and a title that is too long for its column.\<close>

definition ex_song :: song_info where
  "ex_song = \<lparr>basename = (\<lambda>_. []), filename = ''stompin.ogg'',
     meta_keys = [\<lparr>mkey = ''artist'', mvalues = [Some ''Ella Fitzgerald'', Some ''Louis Armstrong'']\<rparr>,
       \<lparr>mkey = ''title'', mvalues = [Some ''Stompin' at the Savoy'']\<rparr>], meta_key_count = 2,
     stat = \<lparr>play_count = 3, skip_count = 1, repeat_counter = 0, manual_rating = 7, stat_changed = False\<rparr>,
     play_length = 312000, song_type = None\<rparr>"

lemma ex_song_values:
  "all_values (Some ex_song) [''title''] = map Some [''Stompin' at the Savoy'']"
  "all_values (Some ex_song) [''artist'', ''artist_original''] = map Some [''Ella Fitzgerald'', ''Louis Armstrong'']"
  "all_values (Some ex_song) [''album'', ''album_original''] = map Some []"
  "all_values (Some ex_song) [''tracknumber''] = map Some []"
  by code_simp+

lemma ex_song_ok: "song_text_ok ex_song"
  unfolding song_text_ok_def by (intro conjI ex_song_values [THEN text_okI]) simp_all


section \<open>The window of a list\<close>

lemma list_row_inside:
  assumes "45 \<le> w" and "0 \<le> row" and "row < h"
    and "case song of None \<Rightarrow> True | Some i \<Rightarrow> i < length (songs db) \<and> song_text_ok (songs db ! i)"
  shows "drawn_inside h w (list_row db w (row, song, selected))"
proof -
  have c: "column_width w = (w - 8) div 3" using assms(1) sdiv_nonneg [of "w - 8" 3] by (simp add: column_width_def)
  then have c: "5 \<le> column_width w" "3 * column_width w + 8 \<le> w" using assms(1) by linarith+
  have none: "text_ok None keys" for keys by (rule text_okI [of _ _ "[]"]) (simp_all add: all_values_def get_meta_data_def)
  obtain sg where sg: "(case song of None \<Rightarrow> Inr None | Some i \<Rightarrow> map_result Some (read_at (songs db) (int i))) = Inr sg"
      "text_ok sg [''title'']" "text_ok sg [''artist'', ''artist_original'']" "text_ok sg [''album'', ''album_original'']"
    using assms(4) none by (cases song) (auto simp: read_at_def song_text_ok_def)
  have "drawn_inside h w (meta_column sg keys row (column_left w i) (column_width w))"
    if "text_ok sg keys" "i = 0 \<or> i = 1 \<or> i = 2" for keys i
    using that c assms(2,3) by (intro meta_column_inside) (auto simp: column_left_def Let_def)
  then show ?thesis unfolding list_row_def prod.case sg(1) and_then_simps
    by (intro drawn_inside_collect) (use sg in auto)
qed


definition ex_song_db :: database_info where
  "ex_song_db = \<lparr>songs = replicate 10 ex_song, song_count_allocated = 10, stats_loaded = True, db_sum = 0, db_sqr_sum = 0,
     play_sum = 0, play_sqr_sum = 0, skip_sum = 0, skip_sqr_sum = 0\<rparr>"


end
