(* ===== verification/Spectrum_Bars.thy ===== *)
theory Spectrum_Bars
  imports Spectrum Text_Display
begin

text \<open>
  The bars of the spectrum analyser (\<open>src/src/spectrum.c\<close>): \<open>spectrum_resize()\<close> with the widths of
  the bars, \<open>spectrum_render()\<close> and the turn of \<open>spectrum_monitor()\<close>.  The Fourier transform of
  FFTW is the argument \<open>fft\<close>; powers, roots and logarithms are exact, the heights are
  \<open>double\<close>s with their rounding.
\<close>

section \<open>The buffers\<close>

text \<open>The four buffers are allocated and freed together.\<close>

record bars =
  b_bitmap :: "symbol list"
  b_heights :: "rat list"
  b_caps :: "rat list"
  b_widths :: "int list"

record analyser =
  an_width :: int
  an_height :: int
  an_bars :: "bars option"
  an_in :: "(real \<times> real) list"

definition real_trunc :: "real \<Rightarrow> int" where
  "real_trunc x = (if x < 0 then - \<lfloor>- x\<rfloor> else \<lfloor>x\<rfloor>)"

definition SPECTRUM_EXP_SCALE :: nat where "SPECTRUM_EXP_SCALE = 8"

text \<open>The frequencies of bar \<open>i\<close> of \<open>n\<close>, on a scale of the eighth root, before empty bars are filled.\<close>

definition bar_length :: "int \<Rightarrow> real \<Rightarrow> int \<Rightarrow> int \<Rightarrow> int" where
  "bar_length n max_spectrum last_bar i =
     (let exp_width = root SPECTRUM_EXP_SCALE max_spectrum - root SPECTRUM_EXP_SCALE (of_int last_bar) in
      real_trunc ((of_int i * exp_width / of_int (n - i) + 1) ^ SPECTRUM_EXP_SCALE - 1 / 2))"

fun bar_ends :: "nat \<Rightarrow> int \<Rightarrow> real \<Rightarrow> int \<Rightarrow> int \<Rightarrow> int list" where
  "bar_ends 0 n max_spectrum last_bar i = []"
| "bar_ends (Suc k) n max_spectrum last_bar i =
     (let new_length = bar_length n max_spectrum last_bar i;
          (new_length, max_spectrum) =
            (if new_length = 0
             then if of_int last_bar < max_spectrum then (1, max_spectrum)
               else if last_bar < SPECTRUM_WINDOW_SIZE div 2 then (1, max_spectrum + 1)
               else (0, max_spectrum)
             else (new_length, max_spectrum)) in
      (new_length + last_bar) # bar_ends k n max_spectrum (new_length + last_bar) (i + 1))"

definition spectrum_resize :: "int \<Rightarrow> int \<Rightarrow> analyser \<Rightarrow> analyser" where
  "spectrum_resize height width an =
     (let w = width - 2; h = height - 2 in
      an\<lparr>an_width := w, an_height := h,
         an_bars :=
           (if h > 0 \<and> w > 0
            then Some \<lparr>b_bitmap = replicate (nat (h * w)) (Plain (CHR '' '')),
              b_heights = replicate (nat w) 0, b_caps = replicate (nat w) 0,
              b_widths = bar_ends (nat (w div 3)) (w div 3) (of_int SPECTRUM_WINDOW_SIZE * (3 / 10) / 2) 0 0\<rparr>
            else None)\<rparr>)"

text \<open>What \<open>spectrum_reset()\<close> does to the analyser; the caps are left to fall.\<close>

definition spectrum_reset_bars :: "analyser \<Rightarrow> analyser" where
  "spectrum_reset_bars an =
     an\<lparr>an_in := replicate (nat SPECTRUM_WINDOW_SIZE) (0, 0),
        an_bars := map_option (\<lambda>b. b\<lparr>b_bitmap := replicate (length (b_bitmap b)) (Plain (CHR '' '')),
          b_heights := replicate (length (b_heights b)) 0\<rparr>) (an_bars an)\<rparr>"

section \<open>The height of a bar\<close>

text \<open>The power in the frequencies \<open>i\<close> up to the end of a bar, and in the mirrored ones down from \<open>j\<close>.\<close>

fun sum_power :: "nat \<Rightarrow> int \<Rightarrow> int \<Rightarrow> (real \<times> real) list \<Rightarrow> real \<Rightarrow> real result" where
  "sum_power 0 i j out p = Inr p"
| "sum_power (Suc n) i j out p =
     and_then (read_at out i) (\<lambda>(re, im).
     and_then (read_at out j) (\<lambda>(re', im').
       sum_power n (i + 1) (j - 1) out (p + \<bar>re * re - im * im\<bar> + \<bar>re' * re' - im' * im'\<bar>)))"

text \<open>
  The mean in decibels, as a height between -30 and 8 decibels.  The mean of no frequencies is
  no number and that of silence has the logarithm \<open>-\<infinity>\<close>: \<open>undefined_int\<close> is what the
  machine converts them to.
\<close>

definition power_height :: "int \<Rightarrow> int \<Rightarrow> real \<Rightarrow> int \<Rightarrow> int" where
  "power_height undefined_int height avg_power power_count =
     (if power_count = 0 \<or> avg_power = 0 then undefined_int
      else
        (let avg_power = 10 * log 10 (avg_power / (of_int power_count * 2 * of_int SPECTRUM_WINDOW_SIZE)) in
         real_trunc ((avg_power - (- 30)) / (8 - (- 30)) * of_int height)))"

text \<open>A bar rises fast and falls slowly.\<close>

definition weighted :: "rat \<Rightarrow> rat \<Rightarrow> rat \<Rightarrow> rat \<Rightarrow> int" where
  "weighted x a y b =
     trunc (to_double (to_double (to_double (x * to_double a) + to_double (y * to_double b)) /
       to_double (to_double a + to_double b)))"

definition smooth_height :: "rat \<Rightarrow> int \<Rightarrow> int" where
  "smooth_height bar_height cur_height =
     (if of_int cur_height > bar_height
      then weighted bar_height (2 / 10) (of_int cur_height) (8 / 10)
      else weighted bar_height (8 / 10) (of_int cur_height) (2 / 10))"

definition clip_height :: "int \<Rightarrow> int \<Rightarrow> int" where
  "clip_height height cur_height = (if cur_height > height then height else if cur_height < 0 then 0 else cur_height)"

definition fall_cap :: "int \<Rightarrow> rat \<Rightarrow> int \<Rightarrow> rat" where
  "fall_cap height cap cur_height =
     (let cap = to_double (cap - to_double (of_int height * to_double (1 / 60))) in
      if cap < of_int cur_height then of_int cur_height else cap)"

section \<open>The bitmap\<close>

definition bar_cell :: "int \<Rightarrow> int \<Rightarrow> int \<Rightarrow> int \<Rightarrow> symbol" where
  "bar_cell cur_height cap y k =
     (if k = 2 then Plain (CHR '' '')
      else if y < cur_height then ACS ''CKBOARD''
      else if y = cap then Plain (CHR ''_'')
      else Plain (CHR '' ''))"

definition draw_bar :: "int \<Rightarrow> int \<Rightarrow> int \<Rightarrow> int \<Rightarrow> int \<Rightarrow> symbol list \<Rightarrow> symbol list result" where
  "draw_bar height width x cur_height cap =
     fold_result (\<lambda>(y, k) bm. write_at bm (y * width + x * 3 + k) (bar_cell cur_height cap y k))
       (List.product [0..height - 1] [0..2])"

definition draw_rest :: "int \<Rightarrow> int \<Rightarrow> symbol list \<Rightarrow> symbol list result" where
  "draw_rest height width =
     fold_result (\<lambda>(y, k) bm. write_at bm (y * width + width div 3 * 3 + k) (Plain (CHR '' '')))
       (List.product [0..height - 1] [0..width mod 3 - 1])"

text \<open>The bar \<open>x\<close>; \<open>i\<close> frequencies have been looked at.\<close>

definition render_bar ::
  "int \<Rightarrow> int \<Rightarrow> int \<Rightarrow> (real \<times> real) list \<Rightarrow> int \<Rightarrow> int \<times> bars \<Rightarrow> (int \<times> bars) result" where
  "render_bar undefined_int height width out x s =
     (case s of (i, b) \<Rightarrow>
       and_then (read_at (b_widths b) x) (\<lambda>bar_end.
       and_then (read_at (b_heights b) x) (\<lambda>bar_height.
       and_then (read_at (b_caps b) x) (\<lambda>cap.
       and_then (sum_power (nat (bar_end - i)) i (SPECTRUM_WINDOW_SIZE - 1 - i) out 0) (\<lambda>power.
       let power_count = (if i < bar_end then bar_end - i else 0);
           cur_height = smooth_height bar_height (power_height undefined_int height power power_count);
           shown = clip_height height cur_height;
           cap = fall_cap height cap shown in
       and_then (write_at (b_heights b) x (of_int cur_height)) (\<lambda>heights.
       and_then (write_at (b_caps b) x cap) (\<lambda>caps.
       and_then (draw_bar height width x shown (trunc cap) (b_bitmap b)) (\<lambda>bitmap.
         Inr (i + power_count, b\<lparr>b_heights := heights, b_caps := caps, b_bitmap := bitmap\<rparr>)))))))))"

definition spectrum_render :: "int \<Rightarrow> (real \<times> real) list \<Rightarrow> analyser \<Rightarrow> analyser result" where
  "spectrum_render undefined_int out an =
     (case an_bars an of
        None \<Rightarrow> Inl Null_Deref
      | Some b \<Rightarrow>
          and_then (fold_result (render_bar undefined_int (an_height an) (an_width an) out) [0..an_width an div 3 - 1] (0, b)) (\<lambda>(i, b).
          map_result (\<lambda>bitmap. an\<lparr>an_bars := Some (b\<lparr>b_bitmap := bitmap\<rparr>)\<rparr>) (draw_rest (an_height an) (an_width an) (b_bitmap b))))"

section \<open>A turn of the monitor\<close>

text \<open>The window over the samples, and the input of the transform.\<close>

definition sample_window :: "nat \<Rightarrow> real" where
  "sample_window i = (1 - cos (2 * 3.1415926 / of_int SPECTRUM_WINDOW_SIZE * of_nat i)) / 2"

definition condition_samples :: "(int \<times> int) list \<Rightarrow> (real \<times> real) list" where
  "condition_samples xs =
     map (\<lambda>(i, re, im). (of_int re * sample_window i / 32768, of_int im * sample_window i / 32768)) (enumerate 0 xs)"

definition spectrum_turn ::
  "int \<Rightarrow> int \<Rightarrow> ((real \<times> real) list \<Rightarrow> (real \<times> real) list) \<Rightarrow> spectrum_ring \<Rightarrow> analyser \<Rightarrow> analyser result" where
  "spectrum_turn undefined_int channels fft ring an =
     and_then (spectrum_prepare_render channels ring) (\<lambda>samples.
     let an = (case samples of None \<Rightarrow> an | Some xs \<Rightarrow> an\<lparr>an_in := condition_samples xs\<rparr>) in
     spectrum_render undefined_int (fft (an_in an)) an)"

section \<open>What is in the bitmap\<close>

lemma fold_result_upto:
  assumes "P 0 s" and "0 \<le> n" and "\<And>x s. 0 \<le> x \<Longrightarrow> x < n \<Longrightarrow> P x s \<Longrightarrow> \<exists>s'. f x s = Inr s' \<and> P (x + 1) s'"
  shows "\<exists>s'. fold_result f [0..n - 1] s = Inr s' \<and> P n s'"
  using assms(2,3)
proof (induction n rule: int_ge_induct)
  case base
  then show ?case using assms(1) by simp
next
  case (step n)
  have "\<exists>s'. fold_result f [0..n - 1] s = Inr s' \<and> P n s'" by (rule step.IH) (rule step.prems, simp_all)
  then obtain s1 where s1: "fold_result f [0..n - 1] s = Inr s1" "P n s1" by blast
  have "n < n + 1" by simp
  from step.prems [OF step.hyps(1) this s1(2)] obtain s2 where "f n s1 = Inr s2" "P (n + 1) s2" by blast
  moreover have "[0..n] = [0..n - 1] @ [n]" using step.hyps(1) by (rule upto_rec2)
  ultimately show ?case using s1 by (intro exI [of _ s2]) (simp del: upto.simps)
qed

lemma fold_writes:
  assumes "\<forall>p \<in> set ps. 0 \<le> ix p \<and> ix p < int (length bm)" and "\<forall>p \<in> set ps. \<forall>q \<in> set ps. ix p = ix q \<longrightarrow> v p = v q"
  shows "\<exists>bm'. fold_result (\<lambda>p bm. write_at bm (ix p) (v p)) ps bm = Inr bm' \<and> length bm' = length bm \<and>
    (\<forall>p \<in> set ps. bm' ! nat (ix p) = v p) \<and> (\<forall>i. (\<forall>p \<in> set ps. nat (ix p) \<noteq> i) \<longrightarrow> bm' ! i = bm ! i)"
  using assms
proof (induction ps rule: rev_induct)
  case (snoc p ps)
  have "\<forall>p \<in> set ps. 0 \<le> ix p \<and> ix p < int (length bm)" "\<forall>p \<in> set ps. \<forall>q \<in> set ps. ix p = ix q \<longrightarrow> v p = v q"
    using snoc.prems unfolding set_append by blast+
  from snoc.IH [OF this]
  obtain bm1 where bm1: "fold_result (\<lambda>p bm. write_at bm (ix p) (v p)) ps bm = Inr bm1" "length bm1 = length bm"
      "\<forall>p \<in> set ps. bm1 ! nat (ix p) = v p" "\<forall>i. (\<forall>p \<in> set ps. nat (ix p) \<noteq> i) \<longrightarrow> bm1 ! i = bm ! i" by blast
  have p: "0 \<le> ix p" "ix p < int (length bm1)" using snoc.prems(1) bm1(2) by simp_all
  then have w: "write_at bm1 (ix p) (v p) = Inr (bm1[nat (ix p) := v p])" by (simp add: write_at_def)
  have "bm1[nat (ix p) := v p] ! nat (ix q) = v q" if "q \<in> set (ps @ [p])" for q
  proof (cases "nat (ix q) = nat (ix p)")
    case True
    then have "ix q = ix p" using that snoc.prems(1) by (metis in_set_conv_decomp nat_0_le)
    have "p \<in> set (ps @ [p])" by simp
    with \<open>ix q = ix p\<close> have "v q = v p" using snoc.prems(2) that by blast
    then show ?thesis using \<open>ix q = ix p\<close> p by simp
  next
    case False
    then show ?thesis using that bm1(3) by auto
  qed
  then show ?case using bm1 w by (intro exI [of _ "bm1[nat (ix p) := v p]"]) simp
qed simp

text \<open>A block of \<open>m\<close> columns from \<open>base\<close> on, over the whole height.\<close>

lemma paint_columns:
  assumes "0 \<le> base" and "base + m \<le> w" and "int (length bm) = h * w"
  shows "\<exists>bm'. fold_result (\<lambda>(y, k) bm. write_at bm (y * w + base + k) (v y k)) (List.product [0..h - 1] [0..m - 1]) bm = Inr bm' \<and>
    length bm' = length bm \<and>
    (\<forall>y c. 0 \<le> y \<and> y < h \<and> 0 \<le> c \<and> c < w \<longrightarrow>
      bm' ! nat (y * w + c) = (if base \<le> c \<and> c < base + m then v y (c - base) else bm ! nat (y * w + c)))"
proof -
  let ?ps = "List.product [0..h - 1] [0..m - 1]" and ?ix = "\<lambda>(y, k). y * w + base + k"
  have dec: "y = y' \<and> c = c'" if "y * w + c = y' * w + c'" "0 \<le> c" "c < w" "0 \<le> c'" "c' < w" for y y' c c' :: int
  proof -
    have "(y * w + c) div w = y" "(y' * w + c') div w = y'" using that(2-5) by simp_all
    then show ?thesis using that(1) by simp
  qed
  have range: "0 \<le> y * w + c \<and> y * w + c < h * w" if "0 \<le> y" "y < h" "0 \<le> c" "c < w" for y c :: int
  proof -
    have "(y + 1) * w \<le> h * w" using that by (intro mult_right_mono) auto
    then have "y * w + c < h * w" using that(4) by (simp add: distrib_right)
    moreover have "0 \<le> y * w" using that by simp
    ultimately show ?thesis using that(3) by linarith
  qed
  have in_ps: "(y, k) \<in> set ?ps \<longleftrightarrow> 0 \<le> y \<and> y < h \<and> 0 \<le> k \<and> k < m" for y k by auto
  have "\<exists>bm'. fold_result (\<lambda>p bm. write_at bm (?ix p) (case_prod v p)) ?ps bm = Inr bm' \<and> length bm' = length bm \<and>
    (\<forall>p \<in> set ?ps. bm' ! nat (?ix p) = case_prod v p) \<and> (\<forall>i. (\<forall>p \<in> set ?ps. nat (?ix p) \<noteq> i) \<longrightarrow> bm' ! i = bm ! i)"
  proof (rule fold_writes)
    show "\<forall>p \<in> set ?ps. 0 \<le> ?ix p \<and> ?ix p < int (length bm)"
      using range [of _ "base + _"] assms by (auto simp: in_ps add.assoc)
    have "y = y' \<and> k = k'" if "(y, k) \<in> set ?ps" "(y', k') \<in> set ?ps" "y * w + base + k = y' * w + base + k'" for y k y' k'
      using dec [of y "base + k" y' "base + k'"] that assms(1,2) by (simp add: in_ps add.assoc)
    then show "\<forall>p \<in> set ?ps. \<forall>q \<in> set ?ps. ?ix p = ?ix q \<longrightarrow> case_prod v p = case_prod v q"
      by (metis (no_types, lifting) case_prod_conv surj_pair)
  qed
  then obtain bm' where bm': "fold_result (\<lambda>p bm. write_at bm (?ix p) (case_prod v p)) ?ps bm = Inr bm'" "length bm' = length bm"
      "\<And>y k. (y, k) \<in> set ?ps \<Longrightarrow> bm' ! nat (y * w + base + k) = v y k"
      "\<And>i. \<forall>p \<in> set ?ps. nat (?ix p) \<noteq> i \<Longrightarrow> bm' ! i = bm ! i" by auto
  have "bm' ! nat (y * w + c) = (if base \<le> c \<and> c < base + m then v y (c - base) else bm ! nat (y * w + c))"
    if yc: "0 \<le> y" "y < h" "0 \<le> c" "c < w" for y c
  proof (cases "base \<le> c \<and> c < base + m")
    case True
    then have "(y, c - base) \<in> set ?ps" using yc unfolding in_ps by simp
    from bm'(3) [OF this] show ?thesis using True by (simp add: algebra_simps)
  next
    case False
    have "nat (?ix p) \<noteq> nat (y * w + c)" if "p \<in> set ?ps" for p
    proof
      obtain y' k where p: "p = (y', k)" by fastforce
      then have yk: "0 \<le> y'" "y' < h" "0 \<le> k" "k < m" using that unfolding p in_ps by simp_all
      assume "nat (?ix p) = nat (y * w + c)"
      moreover have "0 \<le> y' * w + (base + k)" "0 \<le> y * w + c"
        using range [OF yk(1,2), of "base + k"] range [OF yc] yk(3,4) assms(1,2) by auto
      ultimately have "y' * w + (base + k) = y * w + c" unfolding p by (simp add: add.assoc)
      from dec [OF this] show False using yk yc False assms(1,2) by auto
    qed
    with bm'(4) have "bm' ! nat (y * w + c) = bm ! nat (y * w + c)" by blast
    then show ?thesis unfolding if_not_P [OF False] .
  qed
  moreover have "(\<lambda>p bm. write_at bm (?ix p) (case_prod v p)) = (\<lambda>(y, k) bm. write_at bm (y * w + base + k) (v y k))"
    by (simp add: fun_eq_iff split: prod.split)
  ultimately show ?thesis using bm'(1,2) by auto
qed

lemma trunc_of_int [simp]: "trunc (of_int k) = k"
proof (cases "k < 0")
  case True
  have "\<lfloor>- rat_of_int k\<rfloor> = - k" by (metis floor_of_int of_int_minus)
  then show ?thesis using True by (simp add: trunc_def)
qed (simp add: trunc_def)

lemma sum_power_returns:
  "0 \<le> i \<Longrightarrow> i + int n \<le> SPECTRUM_WINDOW_SIZE \<Longrightarrow> int (length out) = SPECTRUM_WINDOW_SIZE \<Longrightarrow>
    returns (sum_power n i (SPECTRUM_WINDOW_SIZE - 1 - i) out p)"
proof (induction n arbitrary: i p)
  case (Suc n)
  have "SPECTRUM_WINDOW_SIZE - 1 - i - 1 = SPECTRUM_WINDOW_SIZE - 1 - (i + 1)" by simp
  then show ?case using Suc.IH [of "i + 1"] Suc.prems by (simp add: read_at_def split: prod.split)
qed (simp add: returns_iff)

definition bars_ok :: "int \<Rightarrow> int \<Rightarrow> bars \<Rightarrow> bool" where
  "bars_ok h w b \<longleftrightarrow> int (length (b_bitmap b)) = h * w \<and> int (length (b_heights b)) = w \<and> int (length (b_caps b)) = w \<and>
     int (length (b_widths b)) = w div 3 \<and> (\<forall>e \<in> set (b_widths b). e \<le> SPECTRUM_WINDOW_SIZE)"

text \<open>The cell of row \<open>y\<close> and column \<open>c\<close>, from the heights and the caps.\<close>

definition cell_of :: "int \<Rightarrow> bars \<Rightarrow> int \<Rightarrow> int \<Rightarrow> symbol" where
  "cell_of h b y c =
     bar_cell (clip_height h (trunc (b_heights b ! nat (c div 3)))) (trunc (b_caps b ! nat (c div 3))) y (c mod 3)"

text \<open>The first \<open>x\<close> bars are drawn, and no cap is below its bar.\<close>

definition bars_drawn :: "int \<Rightarrow> int \<Rightarrow> int \<Rightarrow> int \<times> bars \<Rightarrow> bool" where
  "bars_drawn h w x s \<longleftrightarrow>
     (case s of (i, b) \<Rightarrow> bars_ok h w b \<and> 0 \<le> i \<and> i \<le> SPECTRUM_WINDOW_SIZE \<and>
       (\<forall>y c. 0 \<le> y \<and> y < h \<and> 0 \<le> c \<and> c < x * 3 \<longrightarrow> b_bitmap b ! nat (y * w + c) = cell_of h b y c) \<and>
       (\<forall>k. 0 \<le> k \<and> k < x \<longrightarrow> of_int (clip_height h (trunc (b_heights b ! nat k))) \<le> b_caps b ! nat k))"

lemma render_bar_draws:
  assumes "bars_drawn h w x s" and "0 \<le> x" and "x < w div 3" and "int (length out) = SPECTRUM_WINDOW_SIZE"
  shows "\<exists>s'. render_bar undefined_int h w out x s = Inr s' \<and> bars_drawn h w (x + 1) s'"
proof -
  obtain i b where s: "s = (i, b)" by fastforce
  have ok: "bars_ok h w b" "0 \<le> i" "i \<le> SPECTRUM_WINDOW_SIZE"
    and old: "\<And>y c. 0 \<le> y \<Longrightarrow> y < h \<Longrightarrow> 0 \<le> c \<Longrightarrow> c < x * 3 \<Longrightarrow> b_bitmap b ! nat (y * w + c) = cell_of h b y c"
    and caps: "\<And>k. 0 \<le> k \<Longrightarrow> k < x \<Longrightarrow> of_int (clip_height h (trunc (b_heights b ! nat k))) \<le> b_caps b ! nat k"
    using assms(1) by (auto simp: s bars_drawn_def)
  have w: "x < w" "x * 3 + 3 \<le> w" using assms(2,3) by linarith+
  have len: "x < int (length (b_widths b))" "x < int (length (b_heights b))" "x < int (length (b_caps b))"
      "int (length (b_bitmap b)) = h * w"
    using ok(1) assms(3) w by (simp_all add: bars_ok_def)
  let ?e = "b_widths b ! nat x"
  have "nat x < length (b_widths b)" using len(1) assms(2) by linarith
  then have e: "?e \<le> SPECTRUM_WINDOW_SIZE" using ok(1) nth_mem by (auto simp: bars_ok_def)
  have "i + int (nat (?e - i)) \<le> SPECTRUM_WINDOW_SIZE" using e ok(3) by linarith
  from sum_power_returns [OF ok(2) this assms(4)] obtain power where
    power: "sum_power (nat (?e - i)) i (SPECTRUM_WINDOW_SIZE - 1 - i) out 0 = Inr power" by (auto simp: returns_iff)
  define n where "n = (if i < ?e then ?e - i else 0)"
  define cur where "cur = smooth_height (b_heights b ! nat x) (power_height undefined_int h power n)"
  define shown where "shown = clip_height h cur"
  define cap where "cap = fall_cap h (b_caps b ! nat x) shown"
  have "0 \<le> x * 3" using assms(2) by simp
  from paint_columns [OF this w(2) len(4), of "bar_cell shown (trunc cap)"] obtain bm where
    bm: "draw_bar h w x shown (trunc cap) (b_bitmap b) = Inr bm" "length bm = length (b_bitmap b)"
      "\<And>y c. 0 \<le> y \<Longrightarrow> y < h \<Longrightarrow> 0 \<le> c \<Longrightarrow> c < w \<Longrightarrow>
        bm ! nat (y * w + c) = (if x * 3 \<le> c \<and> c < x * 3 + 3 then bar_cell shown (trunc cap) y (c - x * 3) else b_bitmap b ! nat (y * w + c))"
    by (auto simp: draw_bar_def)
  let ?b = "b\<lparr>b_heights := (b_heights b)[nat x := of_int cur], b_caps := (b_caps b)[nat x := cap], b_bitmap := bm\<rparr>"
  have run: "render_bar undefined_int h w out x s = Inr (i + n, ?b)"
    unfolding s render_bar_def prod.case
    using len assms(2) power bm(1) by (simp add: read_at_def write_at_def Let_def flip: n_def cur_def shown_def cap_def)
  have "bars_ok h w ?b" using ok(1) bm(2) by (simp add: bars_ok_def)
  moreover have "0 \<le> i + n" "i + n \<le> SPECTRUM_WINDOW_SIZE" using ok(2,3) e by (auto simp: n_def)
  moreover have "bm ! nat (y * w + c) = cell_of h ?b y c" if yc: "0 \<le> y" "y < h" "0 \<le> c" "c < (x + 1) * 3" for y c
  proof (cases "x * 3 \<le> c")
    case True
    then have "c div 3 = x" "c mod 3 = c - x * 3" using yc(4) by presburger+
    then show ?thesis using bm(3) [of y c] yc True w assms(2) len by (simp add: cell_of_def shown_def)
  next
    case False
    then have "c div 3 < x" "0 \<le> c div 3" using yc(3) by linarith+
    then have "nat (c div 3) \<noteq> nat x" by linarith
    then show ?thesis using bm(3) [of y c] old [of y c] yc False w by (simp add: cell_of_def)
  qed
  moreover have "of_int (clip_height h (trunc (b_heights ?b ! nat k))) \<le> b_caps ?b ! nat k" if "0 \<le> k" "k < x + 1" for k
  proof (cases "k = x")
    case True
    have "of_int shown \<le> cap" by (simp add: cap_def fall_cap_def Let_def)
    then show ?thesis using True len assms(2) by (simp add: shown_def)
  next
    case False
    then show ?thesis using caps [of k] that by (simp add: nat_eq_iff)
  qed
  ultimately have "bars_drawn h w (x + 1) (i + n, ?b)" by (simp add: bars_drawn_def)
  then show ?thesis using run by blast
qed

lemma render_draws:
  assumes "an_bars an = Some b" and "bars_ok (an_height an) (an_width an) b" and "0 < an_width an"
    and "int (length out) = SPECTRUM_WINDOW_SIZE"
  shows "\<exists>b'. spectrum_render undefined_int out an = Inr (an\<lparr>an_bars := Some b'\<rparr>) \<and> bars_ok (an_height an) (an_width an) b' \<and>
    (\<forall>y c. 0 \<le> y \<and> y < an_height an \<and> 0 \<le> c \<and> c < an_width an \<longrightarrow>
      b_bitmap b' ! nat (y * an_width an + c) = (if c div 3 < an_width an div 3 then cell_of (an_height an) b' y c else Plain (CHR '' ''))) \<and>
    (\<forall>k. 0 \<le> k \<and> k < an_width an div 3 \<longrightarrow>
      of_int (clip_height (an_height an) (trunc (b_heights b' ! nat k))) \<le> b_caps b' ! nat k)"
proof -
  let ?h = "an_height an" and ?w = "an_width an"
  have "bars_drawn ?h ?w 0 (0, b)" using assms(2) by (auto simp: bars_drawn_def SPECTRUM_WINDOW_SIZE_def)
  moreover have "0 \<le> ?w div 3" using assms(3) by (simp add: pos_imp_zdiv_nonneg_iff)
  moreover note render_bar_draws [OF _ _ _ assms(4), of ?h ?w]
  ultimately have "\<exists>s. fold_result (render_bar undefined_int ?h ?w out) [0..?w div 3 - 1] (0, b) = Inr s \<and> bars_drawn ?h ?w (?w div 3) s"
    by (rule fold_result_upto [where P = "bars_drawn ?h ?w"])
  then obtain i b1 where
    b1: "fold_result (render_bar undefined_int ?h ?w out) [0..?w div 3 - 1] (0, b) = Inr (i, b1)" "bars_drawn ?h ?w (?w div 3) (i, b1)"
    by auto
  have len: "int (length (b_bitmap b1)) = ?h * ?w" using b1(2) by (simp add: bars_drawn_def bars_ok_def)
  have "0 \<le> ?w div 3 * 3" "?w div 3 * 3 + ?w mod 3 \<le> ?w" using assms(3) by (simp_all add: pos_imp_zdiv_nonneg_iff)
  from paint_columns [OF this len, of "\<lambda>y k. Plain (CHR '' '')"] obtain bm where
    bm: "draw_rest ?h ?w (b_bitmap b1) = Inr bm" "length bm = length (b_bitmap b1)"
      "\<And>y c. 0 \<le> y \<Longrightarrow> y < ?h \<Longrightarrow> 0 \<le> c \<Longrightarrow> c < ?w \<Longrightarrow>
        bm ! nat (y * ?w + c) = (if ?w div 3 * 3 \<le> c \<and> c < ?w div 3 * 3 + ?w mod 3 then Plain (CHR '' '') else b_bitmap b1 ! nat (y * ?w + c))"
    by (auto simp: draw_rest_def)
  let ?b = "b1\<lparr>b_bitmap := bm\<rparr>"
  have "spectrum_render undefined_int out an = Inr (an\<lparr>an_bars := Some ?b\<rparr>)"
    using assms(1) b1(1) bm(1) by (simp add: spectrum_render_def)
  moreover have "bars_ok ?h ?w ?b" using b1(2) bm(2) by (simp add: bars_drawn_def bars_ok_def)
  moreover have "bm ! nat (y * ?w + c) = (if c div 3 < ?w div 3 then cell_of ?h ?b y c else Plain (CHR '' ''))"
    if yc: "0 \<le> y" "y < ?h" "0 \<le> c" "c < ?w" for y c
  proof (cases "c div 3 < ?w div 3")
    case True
    then have "c < ?w div 3 * 3" by linarith
    then show ?thesis using True b1(2) bm(3) [OF yc] yc by (simp add: bars_drawn_def cell_of_def)
  next
    case False
    then have "?w div 3 * 3 \<le> c \<and> c < ?w div 3 * 3 + ?w mod 3" using yc div_mult_mod_eq [of ?w 3] by linarith
    then show ?thesis using bm(3) [OF yc] False by simp
  qed
  ultimately show ?thesis using b1(2) by (intro exI [of _ ?b]) (simp add: bars_drawn_def)
qed

section \<open>Resizing\<close>

lemma bar_length_nonneg: "0 \<le> bar_length n m l i"
proof -
  have "0 \<le> x ^ SPECTRUM_EXP_SCALE" for x :: real by (simp add: SPECTRUM_EXP_SCALE_def zero_le_even_power)
  then have "- 1 / 2 \<le> x ^ SPECTRUM_EXP_SCALE - 1 / 2" for x :: real by simp
  moreover have "0 \<le> real_trunc x" if "- 1 / 2 \<le> x" for x
    using that by (auto simp: real_trunc_def floor_le_iff)
  ultimately show ?thesis by (simp add: bar_length_def Let_def)
qed

text \<open>
  Every bar has a frequency of its own, as long as there are any in the half of the transform
  that is not mirrored.
\<close>

lemma bar_ends_ascend:
  "length (bar_ends k n m l i) = k \<and>
    (\<forall>j < k. let p = (l # bar_ends k n m l i) ! j; e = bar_ends k n m l i ! j in
      p \<le> e \<and> (p < SPECTRUM_WINDOW_SIZE div 2 \<longrightarrow> p < e))"
proof (induction k arbitrary: m l i)
  case (Suc k)
  obtain new m' where new: "(if bar_length n m l i = 0
             then if of_int l < m then (1, m) else if l < SPECTRUM_WINDOW_SIZE div 2 then (1, m + 1) else (0, m)
             else (bar_length n m l i, m)) = (new, m')" by fastforce
  have first: "0 \<le> new" "l < SPECTRUM_WINDOW_SIZE div 2 \<Longrightarrow> 0 < new"
    using new bar_length_nonneg [of n m l i] by (auto split: if_splits)
  have ends: "bar_ends (Suc k) n m l i = (new + l) # bar_ends k n m' (new + l) (i + 1)" using new by (simp add: Let_def)
  show ?case
    using Suc.IH [of m' "new + l" "i + 1"] first unfolding ends Let_def
    by (auto simp: nth_Cons split: nat.splits)
qed simp

lemma resize_bars_ok:
  assumes "an_bars (spectrum_resize height width an) = Some b" and "\<forall>e \<in> set (b_widths b). e \<le> SPECTRUM_WINDOW_SIZE"
  shows "bars_ok (height - 2) (width - 2) b \<and> 0 < height - 2 \<and> 0 < width - 2 \<and>
    an_height (spectrum_resize height width an) = height - 2 \<and> an_width (spectrum_resize height width an) = width - 2"
proof -
  have "2 < height" "2 < width" and b: "b = \<lparr>b_bitmap = replicate (nat ((height - 2) * (width - 2))) (Plain (CHR '' '')),
      b_heights = replicate (nat (width - 2)) 0, b_caps = replicate (nat (width - 2)) 0,
      b_widths = bar_ends (nat ((width - 2) div 3)) ((width - 2) div 3) (of_int SPECTRUM_WINDOW_SIZE * (3 / 10) / 2) 0 0\<rparr>"
    using assms(1) by (simp_all add: spectrum_resize_def Let_def split: if_splits)
  then show ?thesis
    using assms(2) bar_ends_ascend [of "nat ((width - 2) div 3)"]
    by (simp add: bars_ok_def spectrum_resize_def Let_def pos_imp_zdiv_nonneg_iff)
qed

lemma reset_bars_ok: "bars_ok h w b \<Longrightarrow> an_bars an = Some b \<Longrightarrow>
    \<exists>b'. an_bars (spectrum_reset_bars an) = Some b' \<and> bars_ok h w b'"
  by (auto simp: spectrum_reset_bars_def bars_ok_def)

section \<open>A turn\<close>

lemma prepare_returns:
  assumes "ring_ok ring"
  shows "\<exists>s. spectrum_prepare_render channels ring = Inr s \<and> (\<forall>xs. s = Some xs \<longrightarrow> int (length xs) = SPECTRUM_WINDOW_SIZE)"
proof -
  have "\<exists>xs. take_samples (nat SPECTRUM_WINDOW_SIZE) channels (sr_head ring) (sr_ring ring) = Inr xs \<and> length xs = nat SPECTRUM_WINDOW_SIZE"
    using take_samples_half [of "sr_head ring" "sr_ring ring" "nat SPECTRUM_WINDOW_SIZE" channels] assms
    by (auto simp: ring_ok_def ring_size)
  then show ?thesis by (auto simp: spectrum_prepare_render_def SPECTRUM_WINDOW_SIZE_def)
qed

text \<open>C34. A turn of the analyser never leaves the ring, the output of the transform or the bitmap; it draws every cell of
  the bitmap: each bar up to its height, a cap that is never below it, and blanks in the rest.\<close>
theorem analyser_draws_bars:
  assumes fft_length: "\<And>xs. length (fft xs) = length xs"
    and "ring_ok ring" and "an_bars an = Some b" and "bars_ok (an_height an) (an_width an) b" and "0 < an_width an"
    and "int (length (an_in an)) = SPECTRUM_WINDOW_SIZE"
  shows "\<exists>an' b'. spectrum_turn undefined_int channels fft ring an = Inr an' \<and> an_bars an' = Some b' \<and>
    bars_ok (an_height an) (an_width an) b' \<and> int (length (an_in an')) = SPECTRUM_WINDOW_SIZE \<and>
    (\<forall>y c. 0 \<le> y \<and> y < an_height an \<and> 0 \<le> c \<and> c < an_width an \<longrightarrow>
      b_bitmap b' ! nat (y * an_width an + c) = (if c div 3 < an_width an div 3 then cell_of (an_height an) b' y c else Plain (CHR '' ''))) \<and>
    (\<forall>k. 0 \<le> k \<and> k < an_width an div 3 \<longrightarrow>
      of_int (clip_height (an_height an) (trunc (b_heights b' ! nat k))) \<le> b_caps b' ! nat k)"
proof -
  from prepare_returns [OF assms(2)] obtain s where
    s: "spectrum_prepare_render channels ring = Inr s" "\<And>xs. s = Some xs \<Longrightarrow> int (length xs) = SPECTRUM_WINDOW_SIZE" by blast
  define an1 where "an1 = (case s of None \<Rightarrow> an | Some xs \<Rightarrow> an\<lparr>an_in := condition_samples xs\<rparr>)"
  have an1: "an_bars an1 = Some b" "an_height an1 = an_height an" "an_width an1 = an_width an" "int (length (an_in an1)) = SPECTRUM_WINDOW_SIZE"
    using assms(3,6) s(2) by (auto simp: an1_def condition_samples_def split: option.splits)
  have "spectrum_turn undefined_int channels fft ring an = spectrum_render undefined_int (fft (an_in an1)) an1"
    using s(1) by (simp add: spectrum_turn_def an1_def Let_def)
  moreover have "bars_ok (an_height an1) (an_width an1) b" "0 < an_width an1" "int (length (fft (an_in an1))) = SPECTRUM_WINDOW_SIZE"
    using an1 assms(4,5) fft_length by simp_all
  note render_draws [OF an1(1) this, of undefined_int]
  ultimately show ?thesis using an1(2-4) by auto
qed

text \<open>Two bars of five rows; the transform is the identity.\<close>

theorem analyser_draws_bars_witness:
  "\<exists>an' b'. spectrum_turn (- 2147483648) 2 id (ring_at 4096)
      \<lparr>an_width = 7, an_height = 5,
       an_bars = Some \<lparr>b_bitmap = replicate 35 (Plain (CHR '' '')), b_heights = replicate 7 2, b_caps = replicate 7 3, b_widths = [10, 600]\<rparr>,
       an_in = replicate 4096 (0, 0)\<rparr> = Inr an' \<and> an_bars an' = Some b' \<and> bars_ok 5 7 b'"
  (is "\<exists>an' b'. spectrum_turn _ _ _ _ ?an = _ \<and> _")
proof -
  have "ring_ok (ring_at 4096)" by (simp add: ring_ok_def ring_at_def ring_size)
  moreover have "an_bars ?an = Some \<lparr>b_bitmap = replicate 35 (Plain (CHR '' '')), b_heights = replicate 7 2, b_caps = replicate 7 3, b_widths = [10, 600]\<rparr>"
    by simp
  ultimately show ?thesis
    using analyser_draws_bars [of id "ring_at 4096" ?an _ "- 2147483648" 2]
    by (simp add: bars_ok_def SPECTRUM_WINDOW_SIZE_def) blast
qed

end
