(* ===== verification/Vfd_Lines.thy ===== *)
theory Vfd_Lines
  imports Vfdlib
begin

unbundle bit_operations_syntax

text \<open>
  Lines at an angle on the display of the empeg (\<open>src/empeg/vfdlib.c\<close>): the incremental drawing of
  \<open>drawLineHMaxClipped()\<close> and its three relatives, the clipping of \<open>vfdlib_drawLineClipped()\<close>, and the
  outlines of polygons.  Squash itself draws no such lines.
\<close>

section \<open>Drawing\<close>

text \<open>
  Along a flat line, up to two pixels wait to be written: \<open>lo\<close> and \<open>hi\<close> tell which halves of the byte
  \<open>i\<close> they are.
\<close>

definition outstanding :: "byte list \<Rightarrow> int \<Rightarrow> bool \<Rightarrow> bool \<Rightarrow> byte \<Rightarrow> byte list result" where
  "outstanding buffer i lo hi shade =
     (if lo \<and> hi then write_at buffer i (shade OR push_bit 4 shade)
      else if lo then modify_at buffer i (put_left shade)
      else modify_at buffer i (put_right shade))"

fun hmax_clipped ::
  "nat \<Rightarrow> byte list \<Rightarrow> int \<Rightarrow> int \<Rightarrow> bool \<Rightarrow> bool \<Rightarrow> int \<Rightarrow> int \<Rightarrow> int \<Rightarrow> int \<Rightarrow> int \<Rightarrow> byte \<Rightarrow> byte list result" where
  "hmax_clipped 0 buffer i pixelPos lo hi d yMax addV incrH incrHV shade = outstanding buffer i lo hi shade"
| "hmax_clipped (Suc n) buffer i pixelPos lo hi d yMax addV incrH incrHV shade =
     (if d \<le> 0
      then
        (if pixelPos + 1 = 2
         then and_then (outstanding buffer i lo hi shade) (\<lambda>buffer.
           hmax_clipped n buffer (i + 1) 0 True False (d + incrH) yMax addV incrH incrHV shade)
         else hmax_clipped n buffer i (pixelPos + 1) lo True (d + incrH) yMax addV incrH incrHV shade)
      else
        and_then (outstanding buffer i lo hi shade) (\<lambda>buffer.
          if yMax = 0 then Inr buffer
          else if pixelPos + 1 = 2
          then hmax_clipped n buffer (i + 1 + addV) 0 True False (d + incrHV) (yMax - 1) addV incrH incrHV shade
          else hmax_clipped n buffer (i + addV) (pixelPos + 1) False True (d + incrHV) (yMax - 1) addV incrH incrHV shade))"

definition drawLineHMaxClipped ::
  "byte list \<Rightarrow> int \<Rightarrow> int \<Rightarrow> int \<Rightarrow> int \<Rightarrow> int \<Rightarrow> int \<Rightarrow> int \<Rightarrow> byte \<Rightarrow> byte list result" where
  "drawLineHMaxClipped buffer x0 y0 dx dy d xMax yMax shade =
     (let addV = (if dy > 0 then 64 else - 64); dy = (if dy > 0 then dy else - dy);
          pixelPos = x0 mod 2 in
      hmax_clipped (nat xMax) buffer (y0 * 64 + x0 div 2) pixelPos (pixelPos = 0) (pixelPos \<noteq> 0) d yMax addV
        (2 * dy) (2 * (dy - dx)) shade)"

definition put_at :: "byte list \<Rightarrow> int \<Rightarrow> int \<Rightarrow> byte \<Rightarrow> byte list result" where
  "put_at buffer i pixelPos shade = modify_at buffer i (if pixelPos = 0 then put_left shade else put_right shade)"

fun vmax_clipped :: "nat \<Rightarrow> byte list \<Rightarrow> int \<Rightarrow> int \<Rightarrow> int \<Rightarrow> int \<Rightarrow> int \<Rightarrow> int \<Rightarrow> int \<Rightarrow> byte \<Rightarrow> byte list result" where
  "vmax_clipped 0 buffer i pixelPos d xMax addV incrV incrHV shade = Inr buffer"
| "vmax_clipped (Suc n) buffer i pixelPos d xMax addV incrV incrHV shade =
     (if d \<le> 0
      then and_then (put_at buffer (i + addV) pixelPos shade) (\<lambda>buffer.
        vmax_clipped n buffer (i + addV) pixelPos (d + incrV) xMax addV incrV incrHV shade)
      else if xMax = 0 then Inr buffer
      else
        (let i = (if pixelPos + 1 > 1 then i + 1 else i);
             pixelPos = (if pixelPos + 1 > 1 then 0 else pixelPos + 1) in
         and_then (put_at buffer (i + addV) pixelPos shade) (\<lambda>buffer.
           vmax_clipped n buffer (i + addV) pixelPos (d + incrHV) (xMax - 1) addV incrV incrHV shade)))"

definition drawLineVMaxClipped ::
  "byte list \<Rightarrow> int \<Rightarrow> int \<Rightarrow> int \<Rightarrow> int \<Rightarrow> int \<Rightarrow> int \<Rightarrow> int \<Rightarrow> byte \<Rightarrow> byte list result" where
  "drawLineVMaxClipped buffer x0 y0 dx dy d xMax yMax shade =
     (let addV = (if dy > 0 then 64 else - 64); dy = (if dy > 0 then dy else - dy);
          pixelPos = x0 mod 2 in
      and_then (put_at buffer (y0 * 64 + x0 div 2) pixelPos shade) (\<lambda>buffer.
        vmax_clipped (nat yMax) buffer (y0 * 64 + x0 div 2) pixelPos d xMax addV (2 * dx) (2 * (dx - dy)) shade))"

section \<open>Drawing without clipping\<close>

fun hmax_unclipped ::
  "nat \<Rightarrow> byte list \<Rightarrow> int \<Rightarrow> int \<Rightarrow> bool \<Rightarrow> bool \<Rightarrow> int \<Rightarrow> int \<Rightarrow> int \<Rightarrow> int \<Rightarrow> byte \<Rightarrow> byte list result" where
  "hmax_unclipped 0 buffer i pixelPos lo hi d addV incrH incrHV shade = outstanding buffer i lo hi shade"
| "hmax_unclipped (Suc n) buffer i pixelPos lo hi d addV incrH incrHV shade =
     (if d \<le> 0
      then
        (if pixelPos + 1 = 2
         then and_then (outstanding buffer i lo hi shade) (\<lambda>buffer.
           hmax_unclipped n buffer (i + 1) 0 True False (d + incrH) addV incrH incrHV shade)
         else hmax_unclipped n buffer i (pixelPos + 1) lo True (d + incrH) addV incrH incrHV shade)
      else
        and_then (outstanding buffer i lo hi shade) (\<lambda>buffer.
          if pixelPos + 1 = 2
          then hmax_unclipped n buffer (i + 1 + addV) 0 True False (d + incrHV) addV incrH incrHV shade
          else hmax_unclipped n buffer (i + addV) (pixelPos + 1) False True (d + incrHV) addV incrH incrHV shade))"

definition drawLineHMaxUnclipped :: "byte list \<Rightarrow> int \<Rightarrow> int \<Rightarrow> int \<Rightarrow> int \<Rightarrow> byte \<Rightarrow> byte list result" where
  "drawLineHMaxUnclipped buffer x0 y0 dx dy shade =
     (let addV = (if dy > 0 then 64 else - 64); dy = (if dy > 0 then dy else - dy);
          pixelPos = x0 mod 2 in
      hmax_unclipped (nat dx) buffer (y0 * 64 + x0 div 2) pixelPos (pixelPos = 0) (pixelPos \<noteq> 0) (2 * dy - dx) addV
        (2 * dy) (2 * (dy - dx)) shade)"

fun vmax_unclipped :: "nat \<Rightarrow> byte list \<Rightarrow> int \<Rightarrow> int \<Rightarrow> int \<Rightarrow> int \<Rightarrow> int \<Rightarrow> int \<Rightarrow> byte \<Rightarrow> byte list result" where
  "vmax_unclipped 0 buffer i pixelPos d addV incrV incrHV shade = Inr buffer"
| "vmax_unclipped (Suc n) buffer i pixelPos d addV incrV incrHV shade =
     (if d \<le> 0
      then and_then (put_at buffer (i + addV) pixelPos shade) (\<lambda>buffer.
        vmax_unclipped n buffer (i + addV) pixelPos (d + incrV) addV incrV incrHV shade)
      else
        (let i = (if pixelPos + 1 > 1 then i + 1 else i);
             pixelPos = (if pixelPos + 1 > 1 then 0 else pixelPos + 1) in
         and_then (put_at buffer (i + addV) pixelPos shade) (\<lambda>buffer.
           vmax_unclipped n buffer (i + addV) pixelPos (d + incrHV) addV incrV incrHV shade)))"

definition drawLineVMaxUnclipped :: "byte list \<Rightarrow> int \<Rightarrow> int \<Rightarrow> int \<Rightarrow> int \<Rightarrow> byte \<Rightarrow> byte list result" where
  "drawLineVMaxUnclipped buffer x0 y0 dx dy shade =
     (let addV = (if dy > 0 then 64 else - 64); dy = (if dy > 0 then dy else - dy);
          pixelPos = x0 mod 2 in
      and_then (put_at buffer (y0 * 64 + x0 div 2) pixelPos shade) (\<lambda>buffer.
        vmax_unclipped (nat dy) buffer (y0 * 64 + x0 div 2) pixelPos (2 * dx - dy) addV (2 * dx) (2 * (dx - dy)) shade))"

definition drawLineUnclipped :: "byte list \<Rightarrow> int \<Rightarrow> int \<Rightarrow> int \<Rightarrow> int \<Rightarrow> byte \<Rightarrow> byte list result" where
  "drawLineUnclipped buffer x0 y0 x1 y1 shade =
     (let dx = x1 - x0; dy = y1 - y0 in
      if dx = 0
      then if dy \<ge> 0 then drawLineVertUnclipped buffer x0 y0 (dy + 1) shade
        else drawLineVertUnclipped buffer x0 y1 (- dy + 1) shade
      else if dy = 0
      then if dx \<ge> 0 then drawLineHorizUnclipped buffer y0 x0 (dx + 1) shade
        else drawLineHorizUnclipped buffer y0 x1 (- dx + 1) shade
      else
        (let (x0, y0, dy, dx) = (if dx < 0 then (x1, y1, - dy, - dx) else (x0, y0, dy, dx)) in
         if dy < 0
         then if dx > - dy then drawLineHMaxUnclipped buffer x0 y0 dx dy shade
           else drawLineVMaxUnclipped buffer x0 y0 dx dy shade
         else if dx > dy then drawLineHMaxUnclipped buffer x0 y0 dx dy shade
         else drawLineVMaxUnclipped buffer x0 y0 dx dy shade))"

section \<open>Clipping\<close>

text \<open>
  Where a line enters the clip area: \<open>p\<close> counts steps along its longer side \<open>D\<close>, \<open>q\<close> steps along
  the shorter one \<open>m\<close>.  The area begins \<open>pEntry\<close> and \<open>qEntry\<close> steps away and ends after
  \<open>pExit\<close> and \<open>qExit\<close> steps.  The code has this twice, with the axes exchanged.
\<close>

definition line_entry :: "int \<Rightarrow> int \<Rightarrow> int \<Rightarrow> int \<Rightarrow> int \<Rightarrow> int \<Rightarrow> (int \<times> int) option" where
  "line_entry D m pEntry pExit qEntry qExit =
     (let start =
        (if pEntry > 0
         then
           (let temp = pEntry * m;
                q = (if temp mod D > D div 2 then temp div D + 1 else temp div D) in
            if qExit - q < 0 then None else Some (pEntry, q))
         else Some (0, 0)) in
      case start of
        None \<Rightarrow> None
      | Some (p, q) \<Rightarrow>
        if qEntry - q > 0
        then
          (let p = (2 * qEntry - 1) * D div (2 * m) + 1 in
           if p > pExit then None else Some (p, qEntry))
        else Some (p, q))"

text \<open>From the left end of the line on.\<close>

definition clipped_line_from :: "clip_area \<Rightarrow> byte list \<Rightarrow> int \<Rightarrow> int \<Rightarrow> int \<Rightarrow> int \<Rightarrow> byte \<Rightarrow> byte list result" where
  "clipped_line_from g buffer x0 y0 dx dy shade =
     (let distToHEntry = clipXLeft g - x0;
          dyAbs = (if dy > 0 then dy else - dy);
          distToVEntry = (if dy > 0 then clipYTop g - y0 else y0 - clipYBottom g + 1);
          distToVExit = (if dy > 0 then clipYBottom g - y0 - 1 else y0 - clipYTop g);
          distToHExit = clipXRight g - x0 - 1 in
      if dx < distToHEntry \<or> dyAbs < distToVEntry \<or> distToVExit < 0 \<or> distToHExit < 0 then Inr buffer
      else if dx > dyAbs
      then
        (case line_entry dx dyAbs distToHEntry distToHExit distToVEntry distToVExit of
           None \<Rightarrow> Inr buffer
         | Some (xDelta, yDelta) \<Rightarrow>
             drawLineHMaxClipped buffer (x0 + xDelta) (if dy > 0 then y0 + yDelta else y0 - yDelta) dx dy
               ((2 + 2 * xDelta) * dyAbs - (1 + 2 * yDelta) * dx)
               (min (distToHExit - xDelta) (dx - xDelta)) (min (distToVExit - yDelta) (dyAbs - yDelta)) shade)
      else
        (case line_entry dyAbs dx distToVEntry distToVExit distToHEntry distToHExit of
           None \<Rightarrow> Inr buffer
         | Some (yDelta, xDelta) \<Rightarrow>
             drawLineVMaxClipped buffer (x0 + xDelta) (if dy > 0 then y0 + yDelta else y0 - yDelta) dx dy
               ((2 + 2 * yDelta) * dx - (1 + 2 * xDelta) * dyAbs)
               (min (distToHExit - xDelta) (dx - xDelta)) (min (distToVExit - yDelta) (dyAbs - yDelta)) shade))"

definition drawLineClipped :: "clip_area \<Rightarrow> byte list \<Rightarrow> int \<Rightarrow> int \<Rightarrow> int \<Rightarrow> int \<Rightarrow> byte \<Rightarrow> byte list result" where
  "drawLineClipped g buffer x0 y0 x1 y1 shade =
     (let dx = x1 - x0; dy = y1 - y0 in
      if dx < 0 then clipped_line_from g buffer x1 y1 (- dx) (- dy) shade
      else clipped_line_from g buffer x0 y0 dx dy shade)"

section \<open>Outlines of polygons\<close>

text \<open>The first corner is joined to the last one; without corners the place in front of the array is read.\<close>

fun polygon_lines :: "(int \<Rightarrow> int \<Rightarrow> int \<Rightarrow> int \<Rightarrow> byte list \<Rightarrow> byte list result) \<Rightarrow> int \<times> int \<Rightarrow> (int \<times> int) list \<Rightarrow> byte list \<Rightarrow> byte list result" where
  "polygon_lines line prev [] buffer = Inr buffer"
| "polygon_lines line prev (c # cs) buffer =
     and_then (line (fst prev) (snd prev) (fst c) (snd c) buffer) (polygon_lines line c cs)"

definition drawOutlinePolygonClipped :: "clip_area \<Rightarrow> byte list \<Rightarrow> (int \<times> int) list \<Rightarrow> byte \<Rightarrow> byte list result" where
  "drawOutlinePolygonClipped g buffer coords shade =
     (if coords = [] then Inl Out_Of_Bounds
      else polygon_lines (\<lambda>x0 y0 x1 y1 buffer. drawLineClipped g buffer x0 y0 x1 y1 shade) (List.last coords) coords buffer)"

definition drawOutlinePolygonUnclipped :: "byte list \<Rightarrow> (int \<times> int) list \<Rightarrow> byte \<Rightarrow> byte list result" where
  "drawOutlinePolygonUnclipped buffer coords shade =
     (if coords = [] then Inl Out_Of_Bounds
      else polygon_lines (\<lambda>x0 y0 x1 y1 buffer. drawLineUnclipped buffer x0 y0 x1 y1 shade) (List.last coords) coords buffer)"

section \<open>Lines are made of points\<close>

text \<open>
  The steps of a line: \<open>j\<close> along the longer side, \<open>v\<close> along the shorter one, \<open>d\<close> the decision.  A line
  of \<open>n\<close> steps ends early when the shorter side has gone \<open>rest\<close> steps; a negative \<open>rest\<close> is no limit.
\<close>

fun line_steps :: "nat \<Rightarrow> int \<Rightarrow> int \<Rightarrow> int \<Rightarrow> int \<Rightarrow> int \<Rightarrow> int \<Rightarrow> (int \<times> int) list" where
  "line_steps 0 j v d rest a b = [(j, v)]"
| "line_steps (Suc n) j v d rest a b =
     (j, v) # (if d \<le> 0 then line_steps n (j + 1) v (d + a) rest a b
               else if rest = 0 then []
               else line_steps n (j + 1) (v + 1) (d + b) (rest - 1) a b)"

lemma draw_cons: "draw_points (p # ps) s = (\<lambda>buffer. and_then (drawPointUnclipped buffer (fst p) (snd p) s) (draw_points ps s))"
  by (simp add: fun_eq_iff)

lemma outstanding_points:
  assumes "shade_ok s" and "hi \<longleftrightarrow> x mod 2 = 1" and "x mod 2 = 0 \<longrightarrow> lo"
  shows "outstanding buffer (y * 64 + x div 2) lo hi s =
    draw_points ((if lo \<and> hi then [(x - 1, y)] else []) @ [(x, y)]) s buffer"
proof (cases "lo \<and> hi")
  case True
  then have e: "(x - 1) mod 2 = 0" "(x - 1) div 2 = x div 2" using assms(2) by presburger+
  from two_points [OF assms(1) e(1), of buffer y] show ?thesis
    using True e(2) by (simp add: outstanding_def draw_cons)
next
  case False
  moreover have "x mod 2 = 0 \<or> x mod 2 = 1" by presburger
  ultimately have "x mod 2 = 1 \<and> \<not> lo \<or> x mod 2 \<noteq> 1 \<and> lo" using assms(2,3) by auto
  then show ?thesis using False by (auto simp: outstanding_def drawPointUnclipped_def)
qed

lemma hmax_points:
  assumes "shade_ok s" and "addV = 64 * sg"
  shows "hi = (x mod 2 = 1) \<Longrightarrow> (x mod 2 = 0 \<longrightarrow> lo) \<Longrightarrow> x = X + j \<Longrightarrow> y = Y + sg * v \<Longrightarrow>
    hmax_clipped n buffer (y * 64 + x div 2) (x mod 2) lo hi d rest addV a b s =
    draw_points ((if lo \<and> hi then [(x - 1, y)] else []) @ map (\<lambda>(j, v). (X + j, Y + sg * v)) (line_steps n j v d rest a b)) s buffer"
proof (induction n arbitrary: buffer x y lo hi j v d rest)
  case 0
  have here: "(case (j, v) of (j, v) \<Rightarrow> (X + j, Y + sg * v)) = (x, y)" using 0 by simp
  show ?case unfolding hmax_clipped.simps line_steps.simps list.map here by (rule outstanding_points [OF assms(1) 0(1,2)])
next
  case (Suc n)
  let ?f = "\<lambda>(j, v). (X + j, Y + sg * v)"
  note out = outstanding_points [OF assms(1) Suc.prems(1,2)]
  have here: "?f (j, v) = (x, y)" using Suc.prems(3,4) by simp
  have next_y: "y + sg = Y + sg * (v + 1)" using Suc.prems(4) by (simp add: distrib_left)
  have next_x: "x + 1 = X + (j + 1)" using Suc.prems(3) by simp
  note IH = Suc.IH [OF _ _ next_x]
  show ?case
  proof (cases "x mod 2 = 1")
    case True
    then have e: "x mod 2 + 1 = 2" "(x + 1) mod 2 = 0" "y * 64 + x div 2 + 1 = y * 64 + (x + 1) div 2"
      "y * 64 + (x + 1) div 2 + addV = (y + sg) * 64 + (x + 1) div 2" using assms(2) by presburger+
    have hi: hi using True Suc.prems(1) by simp
    have flat: "hmax_clipped n b0 (y * 64 + (x + 1) div 2) 0 True False d' r addV a b s =
        draw_points (map ?f (line_steps n (j + 1) v d' r a b)) s b0" for b0 d' r
      using IH [of False True y v b0 d' r] Suc.prems(4) e(2) by simp
    have up: "hmax_clipped n b0 ((y + sg) * 64 + (x + 1) div 2) 0 True False d' r addV a b s =
        draw_points (map ?f (line_steps n (j + 1) (v + 1) d' r a b)) s b0" for b0 d' r
      using IH [of False True "y + sg" "v + 1" b0 d' r] next_y e(2) by simp
    show ?thesis
      unfolding hmax_clipped.simps line_steps.simps if_P [OF e(1)] e(3,4) flat up out list.map here
      using hi by (simp add: draw_cons)
  next
    case False
    then have e: "\<not> x mod 2 + 1 = 2" "(x + 1) mod 2 = 1" "x mod 2 + 1 = 1" "y * 64 + x div 2 = y * 64 + (x + 1) div 2"
      "y * 64 + x div 2 + addV = (y + sg) * 64 + (x + 1) div 2" using assms(2) by presburger+
    have lo: lo "\<not> hi" using False Suc.prems(1,2) by presburger+
    have flat: "hmax_clipped n b0 (y * 64 + x div 2) 1 lo True d' r addV a b s =
        draw_points ((x, y) # map ?f (line_steps n (j + 1) v d' r a b)) s b0" for b0 d' r
      unfolding e(4) using IH [of True lo y v b0 d' r] Suc.prems(4) e(2) lo(1) by simp
    have up: "hmax_clipped n b0 ((y + sg) * 64 + (x + 1) div 2) 1 False True d' r addV a b s =
        draw_points (map ?f (line_steps n (j + 1) (v + 1) d' r a b)) s b0" for b0 d' r
      using IH [of True False "y + sg" "v + 1" b0 d' r] next_y e(2) by simp
    show ?thesis
      unfolding hmax_clipped.simps line_steps.simps if_not_P [OF e(1)] e(3,5) flat up out list.map here
      using lo by (simp add: draw_cons)
  qed
qed

lemma put_at_point: "put_at buffer (y * 64 + x div 2) (x mod 2) s = drawPointUnclipped buffer x y s"
proof -
  have "x mod 2 = 0 \<or> x mod 2 = 1" by presburger
  then show ?thesis by (auto simp: put_at_def drawPointUnclipped_def)
qed

lemma vmax_points:
  assumes "addV = 64 * sg"
  shows "x = X + v \<Longrightarrow> y = Y + sg * j \<Longrightarrow>
    and_then (put_at buffer (y * 64 + x div 2) (x mod 2) s)
      (\<lambda>buffer. vmax_clipped n buffer (y * 64 + x div 2) (x mod 2) d rest addV a b s) =
    draw_points (map (\<lambda>(j, v). (X + v, Y + sg * j)) (line_steps n j v d rest a b)) s buffer"
proof (induction n arbitrary: buffer x y j v d rest)
  case 0
  then show ?case using put_at_point [of buffer y x s] by simp
next
  case (Suc n)
  let ?f = "\<lambda>(j, v). (X + v, Y + sg * j)"
  have here: "?f (j, v) = (x, y)" using Suc.prems by simp
  have next_y: "y + sg = Y + sg * (j + 1)" using Suc.prems(2) by (simp add: distrib_left)
  have next_x: "x + 1 = X + (v + 1)" using Suc.prems(1) by simp
  have up: "y * 64 + k + addV = (y + sg) * 64 + k" for k using assms by simp
  have right: "(if x mod 2 + 1 > 1 then y * 64 + x div 2 + 1 else y * 64 + x div 2) = y * 64 + (x + 1) div 2"
      "(if x mod 2 + 1 > 1 then 0 else x mod 2 + 1) = (x + 1) mod 2" by presburger+
  note IH = Suc.IH [OF _ next_y]
  show ?case
    unfolding vmax_clipped.simps line_steps.simps Let_def right up IH [OF Suc.prems(1)] IH [OF next_x]
      put_at_point [of buffer] list.map here
    by simp
qed

lemma hmax_unlimited:
  "rest < 0 \<Longrightarrow> hmax_clipped n buffer i pos lo hi d rest addV a b s = hmax_unclipped n buffer i pos lo hi d addV a b s"
  by (induction n arbitrary: buffer i pos lo hi d rest) simp_all

lemma vmax_unlimited:
  "rest < 0 \<Longrightarrow> vmax_clipped n buffer i pos d rest addV a b s = vmax_unclipped n buffer i pos d addV a b s"
  by (induction n arbitrary: buffer i pos d rest) (simp_all add: Let_def)

section \<open>The steps of a line\<close>

text \<open>After \<open>k\<close> of \<open>D\<close> steps along the longer side: \<open>k m / D\<close>, rounded to the nearest, halves down.\<close>

definition rise :: "int \<Rightarrow> int \<Rightarrow> int \<Rightarrow> int" where
  "rise D m k = (2 * k * m + D - 1) div (2 * D)"

lemma rise_eq:
  assumes "0 < D"
  shows "rise D m k = v \<longleftrightarrow> D * (2 * v - 1) < 2 * k * m \<and> 2 * k * m \<le> D * (2 * v + 1)"
proof -
  have "(n div (2 * D) = v) = (2 * D * v \<le> n \<and> n < 2 * D * (v + 1))" for n
  proof
    assume "n div (2 * D) = v"
    then have "2 * D * v + n mod (2 * D) = n" using mult_div_mod_eq [of "2 * D" n] by simp
    moreover have "0 \<le> n mod (2 * D)" "n mod (2 * D) < 2 * D" using assms by simp_all
    moreover have "2 * D * (v + 1) = 2 * D * v + 2 * D" by (simp add: distrib_left)
    ultimately show "2 * D * v \<le> n \<and> n < 2 * D * (v + 1)" by linarith
  next
    assume n: "2 * D * v \<le> n \<and> n < 2 * D * (v + 1)"
    show "n div (2 * D) = v"
      by (rule int_div_pos_eq [of _ _ _ "n - 2 * D * v"]) (use n in \<open>simp_all add: algebra_simps\<close>)
  qed
  moreover have "2 * D * v = D * (2 * v)" "2 * D * (v + 1) = D * (2 * v) + 2 * D" "D * (2 * v - 1) = D * (2 * v) - D"
      "D * (2 * v + 1) = D * (2 * v) + D"
    by (simp_all add: algebra_simps)
  moreover have "(a \<le> n + D - 1 \<and> n + D - 1 < a + 2 * D) = (a - D < n \<and> n \<le> a + D)" for a n :: int by auto
  ultimately show ?thesis unfolding rise_def by simp
qed

lemmas rise_bounds = rise_eq [THEN iffD1, OF _ refl]

text \<open>No point of the column is nearer.\<close>

lemma rise_nearest: "0 < D \<Longrightarrow> \<bar>2 * D * rise D m k - 2 * k * m\<bar> \<le> D"
  using rise_bounds [of D m k] by (simp add: algebra_simps abs_le_iff)

lemma rise_start: "0 < D \<Longrightarrow> rise D m 0 = 0"
  by (simp add: rise_eq)

lemma rise_end: "0 < D \<Longrightarrow> rise D m D = m"
  by (simp add: rise_eq algebra_simps)

lemma rise_step:
  assumes "0 < D" and "0 \<le> m" and "m \<le> D"
  shows "rise D m (k + 1) = (if 2 * m * (k + 1) - D * (2 * rise D m k + 1) \<le> 0 then rise D m k else rise D m k + 1)"
  using rise_bounds [OF assms(1), of m k] assms(2,3) by (auto simp: rise_eq [OF assms(1)] algebra_simps)

lemma rise_mono:
  assumes "0 < D" and "0 \<le> m" and "k \<le> k'"
  shows "rise D m k \<le> rise D m k'"
  unfolding rise_def using assms by (intro zdiv_mono1 diff_right_mono add_right_mono mult_right_mono) simp_all

lemma line_steps_set:
  assumes "0 < D" and "0 \<le> m" and "m \<le> D"
  shows "v = rise D m j \<Longrightarrow> d = 2 * m * (j + 1) - D * (2 * v + 1) \<Longrightarrow>
    set (line_steps n j v d rest (2 * m) (2 * (m - D))) =
      (\<lambda>k. (k, rise D m k)) ` {k. j \<le> k \<and> k \<le> j + int n \<and> (0 \<le> rest \<longrightarrow> rise D m k \<le> v + rest)}"
proof (induction n arbitrary: j v d rest)
  case 0
  then have "{k. j \<le> k \<and> k \<le> j + int 0 \<and> (0 \<le> rest \<longrightarrow> rise D m k \<le> v + rest)} = {j}" by auto
  then show ?case using 0 by simp
next
  case (Suc n)
  let ?K = "\<lambda>j n v rest. {k. j \<le> k \<and> k \<le> j + int n \<and> (0 \<le> rest \<longrightarrow> rise D m k \<le> v + rest)}"
  have step: "rise D m (j + 1) = (if d \<le> 0 then v else v + 1)"
    unfolding rise_step [OF assms] using Suc.prems by simp
  have split: "?K j (Suc n) v rest = insert j {k. j + 1 \<le> k \<and> k \<le> j + 1 + int n \<and> (0 \<le> rest \<longrightarrow> rise D m k \<le> v + rest)}"
    using Suc.prems(1) by auto
  show ?case
  proof (cases "d \<le> 0")
    case True
    have "set (line_steps n (j + 1) v (d + 2 * m) rest (2 * m) (2 * (m - D))) = (\<lambda>k. (k, rise D m k)) ` ?K (j + 1) n v rest"
      by (rule Suc.IH) (use True step Suc.prems(2) in \<open>simp_all add: algebra_simps\<close>)
    then show ?thesis unfolding split using True Suc.prems(1) by simp
  next
    case False
    then have next_rise: "rise D m (j + 1) = v + 1" using step by simp
    have later: "v + 1 \<le> rise D m k" if "j + 1 \<le> k" for k
      using rise_mono [OF assms(1,2) that] next_rise by simp
    show ?thesis
    proof (cases "rest = 0")
      case True
      then have e: "{k. j + 1 \<le> k \<and> k \<le> j + 1 + int n \<and> (0 \<le> rest \<longrightarrow> rise D m k \<le> v + rest)} = {}" using later by force
      show ?thesis unfolding split e using False True Suc.prems(1) by simp
    next
      case nonzero: False
      have "set (line_steps n (j + 1) (v + 1) (d + 2 * (m - D)) (rest - 1) (2 * m) (2 * (m - D))) =
          (\<lambda>k. (k, rise D m k)) ` ?K (j + 1) n (v + 1) (rest - 1)"
        by (rule Suc.IH) (use next_rise Suc.prems(2) in \<open>simp_all add: algebra_simps\<close>)
      moreover have "(0 \<le> rest - 1 \<longrightarrow> r \<le> v + 1 + (rest - 1)) = (0 \<le> rest \<longrightarrow> r \<le> v + rest)" for r
        using nonzero by auto
      ultimately show ?thesis unfolding split using False nonzero Suc.prems(1) by simp
    qed
  qed
qed

section \<open>Where a line enters the clip area\<close>

text \<open>
  The steps inside of the area are those from the entry on, up to one of the two exits.
\<close>

definition steps_inside :: "int \<Rightarrow> int \<Rightarrow> int \<Rightarrow> int \<Rightarrow> int \<Rightarrow> int \<Rightarrow> int \<Rightarrow> bool" where
  "steps_inside D m pEntry pExit qEntry qExit k \<longleftrightarrow>
     0 \<le> k \<and> k \<le> D \<and> pEntry \<le> k \<and> k \<le> pExit \<and> qEntry \<le> rise D m k \<and> rise D m k \<le> qExit"

lemma entry_rounding:
  fixes D t :: int
  assumes "0 < D" and "0 \<le> t"
  shows "(if t mod D > D div 2 then t div D + 1 else t div D) = (2 * t + D - 1) div (2 * D)"
proof -
  obtain Q R where t: "t = D * Q + R" "0 \<le> R" "R < D" "t div D = Q" "t mod D = R"
    using assms mult_div_mod_eq [of D t] by (metis pos_mod_bound pos_mod_sign)
  have half: "D div 2 < R \<longleftrightarrow> D < 2 * R" by presburger
  have "rise D t 1 = (if R > D div 2 then Q + 1 else Q)"
    unfolding rise_eq [OF assms(1)] using t(1-3) half assms(1) by (auto simp: algebra_simps)
  then show ?thesis unfolding t(4,5) by (simp add: rise_def)
qed

lemma zdiv_less_iff: "0 < c \<Longrightarrow> n div c < k \<longleftrightarrow> n < k * (c :: int)"
proof -
  assume c: "0 < c"
  then have "(n + (- k) * c) div c = - k + n div c" by (intro div_mult_self1) simp
  with pos_imp_zdiv_neg_iff [OF c, of "n + (- k) * c"] have "(- k + n div c < 0) = (n + (- k) * c < 0)" by presburger
  then show ?thesis by auto
qed

lemma line_entry_inside:
  assumes D: "0 < D" "0 \<le> m" "m \<le> D" and e: "pEntry \<le> D" "qEntry \<le> m" "0 \<le> pExit" "0 \<le> qExit" "pEntry \<le> pExit" "qEntry \<le> qExit"
  shows "case line_entry D m pEntry pExit qEntry qExit of
      None \<Rightarrow> \<forall>k. \<not> steps_inside D m pEntry pExit qEntry qExit k
    | Some (p, q) \<Rightarrow> 0 \<le> p \<and> p \<le> D \<and> p \<le> pExit \<and> q = rise D m p \<and> q \<le> qExit \<and>
        (\<forall>k. steps_inside D m pEntry pExit qEntry qExit k \<longleftrightarrow> p \<le> k \<and> k \<le> D \<and> k \<le> pExit \<and> rise D m k \<le> qExit)"
proof -
  define p0 where "p0 = max 0 pEntry"
  define q0 where "q0 = rise D m p0"
  have p0: "0 \<le> p0" "p0 \<le> D" "p0 \<le> pExit" "pEntry \<le> p0" using e D by (auto simp: p0_def)
  have q0: "0 \<le> q0" using rise_mono [OF D(1,2) p0(1)] rise_start [OF D(1)] by (simp add: q0_def)
  have round: "(if pEntry * m mod D > D div 2 then pEntry * m div D + 1 else pEntry * m div D) = q0" if "0 < pEntry"
  proof -
    have "0 \<le> pEntry * m" using that D(2) by simp
    moreover have "p0 = pEntry" using that by (simp add: p0_def)
    ultimately show ?thesis using entry_rounding [OF D(1)] by (simp add: q0_def rise_def mult.assoc)
  qed
  let ?start = "if qExit - q0 < 0 then None else Some (p0, q0)"
  have start: "(if pEntry > 0 then let temp = pEntry * m; q = (if temp mod D > D div 2 then temp div D + 1 else temp div D)
      in if qExit - q < 0 then None else Some (pEntry, q) else Some (0, 0)) = ?start"
  proof (cases "0 < pEntry")
    case True
    then show ?thesis unfolding Let_def round [OF True] by (simp add: p0_def)
  next
    case False
    then have "p0 = 0" "q0 = 0" using rise_start [OF D(1)] by (simp_all add: p0_def q0_def)
    then show ?thesis using False e(4) by simp
  qed
  have inside: "steps_inside D m pEntry pExit qEntry qExit k \<longleftrightarrow>
      p0 \<le> k \<and> k \<le> D \<and> k \<le> pExit \<and> qEntry \<le> rise D m k \<and> rise D m k \<le> qExit" for k
    by (auto simp: steps_inside_def p0_def)
  show ?thesis
  proof (cases "qExit - q0 < 0")
    case True
    then have "\<not> steps_inside D m pEntry pExit qEntry qExit k" for k
      using rise_mono [OF D(1,2), of p0 k] by (auto simp: inside q0_def)
    then show ?thesis unfolding line_entry_def start using True by simp
  next
    case in_reach: False
    show ?thesis
    proof (cases "qEntry - q0 > 0")
      case False
      then have "qEntry \<le> rise D m k" if "p0 \<le> k" for k using rise_mono [OF D(1,2) that] by (simp add: q0_def)
      then show ?thesis unfolding line_entry_def start using False in_reach p0 by (auto simp: inside q0_def)
    next
      case True
      then have q: "0 < qEntry" "0 < m" using q0 e(2) by linarith+
      define p where "p = (2 * qEntry - 1) * D div (2 * m) + 1"
      have reach: "qEntry \<le> rise D m k \<longleftrightarrow> p \<le> k" for k
      proof -
        have "qEntry \<le> rise D m k \<longleftrightarrow> D * (2 * qEntry - 1) < 2 * k * m"
        proof
          assume "qEntry \<le> rise D m k"
          then have "D * (2 * qEntry - 1) \<le> D * (2 * rise D m k - 1)" using D(1) by simp
          then show "D * (2 * qEntry - 1) < 2 * k * m" using rise_bounds [OF D(1), of m k] by linarith
        next
          assume k: "D * (2 * qEntry - 1) < 2 * k * m"
          show "qEntry \<le> rise D m k"
          proof (rule ccontr)
            assume "\<not> qEntry \<le> rise D m k"
            then have "D * (2 * rise D m k + 1) \<le> D * (2 * qEntry - 1)" using D(1) by simp
            then show False using k rise_bounds [OF D(1), of m k] by linarith
          qed
        qed
        also have "\<dots> \<longleftrightarrow> (2 * qEntry - 1) * D < k * (2 * m)" by (simp add: algebra_simps)
        also have "\<dots> \<longleftrightarrow> (2 * qEntry - 1) * D div (2 * m) < k" using q(2) by (simp add: zdiv_less_iff)
        finally show ?thesis by (simp add: p_def add1_zle_eq)
      qed
      have p: "p0 < p" using reach [of p0] True by (simp add: q0_def)
      have pD: "p \<le> D" using reach [of D] rise_end [OF D(1), of m] e(2) by simp
      have at_p: "rise D m p = qEntry"
      proof -
        have "rise D m (p - 1) < qEntry" "qEntry \<le> rise D m p" using reach [of "p - 1"] reach [of p] by simp_all
        then show ?thesis using rise_step [OF D, of "p - 1"] by (simp split: if_splits)
      qed
      show ?thesis
      proof (cases "p > pExit")
        case beyond: True
        then have "\<not> steps_inside D m pEntry pExit qEntry qExit k" for k using reach [of k] by (simp add: inside)
        then show ?thesis unfolding line_entry_def start using True in_reach beyond by (simp add: p_def)
      next
        case False
        have "line_entry D m pEntry pExit qEntry qExit = Some (p, qEntry)"
          unfolding line_entry_def start using True in_reach False by (simp add: p_def Let_def)
        then show ?thesis using False p p0(1) pD at_p e(6) by (auto simp: inside reach)
      qed
    qed
  qed
qed

lemma rise_range:
  assumes "0 \<le> m" and "m \<le> D" and "0 \<le> k" and "k \<le> D"
  shows "0 \<le> rise D m k \<and> rise D m k \<le> m"
proof (cases "D = 0")
  case True
  then show ?thesis using assms by (simp add: rise_def)
next
  case False
  then have "0 < D" using assms(1,2) by simp
  with rise_mono [OF this assms(1,3)] rise_mono [OF this assms(1,4)] show ?thesis
    by (simp add: rise_start rise_end)
qed

lemma steps_rejected:
  assumes "0 \<le> m" and "m \<le> D" and "D < pEntry \<or> m < qEntry \<or> pExit < 0 \<or> qExit < 0"
  shows "\<not> steps_inside D m pEntry pExit qEntry qExit k"
  using rise_range [OF assms(1,2), of k] assms(3) by (auto simp: steps_inside_def)

lemma no_entry:
  assumes "0 \<le> m" and "m \<le> D" and "pEntry \<le> D" and "qEntry \<le> m" and "0 \<le> pExit" and "0 \<le> qExit"
    and "pEntry \<le> pExit" and "qEntry \<le> qExit" and "line_entry D m pEntry pExit qEntry qExit = None"
  shows "\<not> steps_inside D m pEntry pExit qEntry qExit k"
proof (cases "D = 0")
  case True
  then show ?thesis using assms by (simp add: line_entry_def)
next
  case False
  then have "0 < D" using assms(1,2) by simp
  from line_entry_inside [OF this assms(1-8)] assms(9) show ?thesis by simp
qed

text \<open>From the entry on, exactly the steps inside of the area are drawn.\<close>

lemma steps_from_entry:
  assumes "0 \<le> m" and "m \<le> D" and "pEntry \<le> D" and "qEntry \<le> m" and "0 \<le> pExit" and "0 \<le> qExit"
    and "pEntry \<le> pExit" and "qEntry \<le> qExit" and "line_entry D m pEntry pExit qEntry qExit = Some (p, q)"
  shows "set (line_steps (nat (min (pExit - p) (D - p))) p q ((2 + 2 * p) * m - (1 + 2 * q) * D) (min (qExit - q) (m - q)) (2 * m) (2 * (m - D))) =
    (\<lambda>k. (k, rise D m k)) ` {k. steps_inside D m pEntry pExit qEntry qExit k}"
proof (cases "D = 0")
  case True
  then have z: "m = 0" "p = 0" "q = 0" "rise D m 0 = 0" using assms by (auto simp: line_entry_def rise_def)
  then have "{k. steps_inside D m pEntry pExit qEntry qExit k} = {0}" using True assms by (auto simp: steps_inside_def)
  then show ?thesis using z True assms(5) by simp
next
  case False
  then have D: "0 < D" using assms(1,2) by simp
  from line_entry_inside [OF D assms(1-8)] assms(9)
  have e: "0 \<le> p" "p \<le> D" "p \<le> pExit" "q = rise D m p" "q \<le> qExit"
    "\<And>k. steps_inside D m pEntry pExit qEntry qExit k \<longleftrightarrow> p \<le> k \<and> k \<le> D \<and> k \<le> pExit \<and> rise D m k \<le> qExit" by auto
  have "q \<le> m" using rise_range [OF assms(1,2) e(1,2)] e(4) by simp
  then have rest: "0 \<le> min (qExit - q) (m - q)" using e(5) by simp
  have r: "rise D m k \<le> m" if "p \<le> k" "k \<le> D" for k using rise_range [OF assms(1,2)] that e(1) by simp
  have r2: "rise D m k \<le> qExit" if "p \<le> k" "k \<le> D" "m < qExit" for k using r [OF that(1,2)] that(3) by simp
  have "(2 + 2 * p) * m - (1 + 2 * q) * D = 2 * m * (p + 1) - D * (2 * q + 1)" by (simp add: algebra_simps)
  from line_steps_set [OF D assms(1,2) e(4) this, of "nat (min (pExit - p) (D - p))" "min (qExit - q) (m - q)"]
  have "set (line_steps (nat (min (pExit - p) (D - p))) p q ((2 + 2 * p) * m - (1 + 2 * q) * D) (min (qExit - q) (m - q)) (2 * m) (2 * (m - D))) =
    (\<lambda>k. (k, rise D m k)) ` {k. p \<le> k \<and> k \<le> p + int (nat (min (pExit - p) (D - p))) \<and> (0 \<le> min (qExit - q) (m - q) \<longrightarrow> rise D m k \<le> q + min (qExit - q) (m - q))}" .
  also have "{k. p \<le> k \<and> k \<le> p + int (nat (min (pExit - p) (D - p))) \<and> (0 \<le> min (qExit - q) (m - q) \<longrightarrow> rise D m k \<le> q + min (qExit - q) (m - q))} =
      {k. steps_inside D m pEntry pExit qEntry qExit k}"
    using rest e(1-3) r r2 by (auto simp: e(6) min_def)
  finally show ?thesis .
qed

section \<open>Clipped lines are exact\<close>

text \<open>
  The pixels of a line, from its left end on: one in each column of a flat line and in each row of
  a steep one, the nearest.
\<close>

definition on_line_from :: "int \<Rightarrow> int \<Rightarrow> int \<Rightarrow> int \<Rightarrow> int \<Rightarrow> int \<Rightarrow> bool" where
  "on_line_from x0 y0 dx dy u v \<longleftrightarrow>
     (let sg = (if dy > 0 then 1 else - 1) in
      if dx > \<bar>dy\<bar> then 0 \<le> u - x0 \<and> u - x0 \<le> dx \<and> v = y0 + sg * rise dx \<bar>dy\<bar> (u - x0)
      else 0 \<le> sg * (v - y0) \<and> sg * (v - y0) \<le> \<bar>dy\<bar> \<and> u = x0 + rise \<bar>dy\<bar> dx (sg * (v - y0)))"

definition on_line :: "int \<Rightarrow> int \<Rightarrow> int \<Rightarrow> int \<Rightarrow> int \<Rightarrow> int \<Rightarrow> bool" where
  "on_line x0 y0 x1 y1 =
     (if x1 < x0 then on_line_from x1 y1 (x0 - x1) (y0 - y1) else on_line_from x0 y0 (x1 - x0) (y1 - y0))"

lemma hmax_clipped_points:
  assumes "shade_ok s" and "sg = (if dy > 0 then 1 else - 1)"
  shows "drawLineHMaxClipped buffer (x0 + p) (if dy > 0 then y0 + q else y0 - q) dx dy d xMax yMax s =
    draw_points (map (\<lambda>(j, v). (x0 + j, y0 + sg * v)) (line_steps (nat xMax) p q d yMax (2 * \<bar>dy\<bar>) (2 * (\<bar>dy\<bar> - dx)))) s buffer"
proof -
  have y: "(if dy > 0 then y0 + q else y0 - q) = y0 + sg * q" and m: "(if dy > 0 then dy else - dy) = \<bar>dy\<bar>"
    and addV: "(if dy > 0 then 64 else - 64) = 64 * sg" using assms(2) by auto
  let ?x = "x0 + p"
  have lo: "(?x mod 2 \<noteq> 0) = (?x mod 2 = 1)" "?x mod 2 = 0 \<longrightarrow> ?x mod 2 = 0" by presburger+
  have none: "\<not> (?x mod 2 = 0 \<and> ?x mod 2 \<noteq> 0)" by presburger
  show ?thesis
    unfolding drawLineHMaxClipped_def Let_def y m addV hmax_points [OF assms(1) refl lo refl refl] if_not_P [OF none]
    by auto
qed

lemma vmax_clipped_points:
  assumes "sg = (if dy > 0 then 1 else - 1)"
  shows "drawLineVMaxClipped buffer (x0 + q) (if dy > 0 then y0 + p else y0 - p) dx dy d xMax yMax s =
    draw_points (map (\<lambda>(j, v). (x0 + v, y0 + sg * j)) (line_steps (nat yMax) p q d xMax (2 * dx) (2 * (dx - \<bar>dy\<bar>)))) s buffer"
proof -
  have y: "(if dy > 0 then y0 + p else y0 - p) = y0 + sg * p" and m: "(if dy > 0 then dy else - dy) = \<bar>dy\<bar>"
    and addV: "(if dy > 0 then 64 else - 64) = 64 * sg" using assms by auto
  show ?thesis unfolding drawLineVMaxClipped_def Let_def y m addV vmax_points [OF refl refl refl] ..
qed

lemma hmax_inside:
  assumes "0 \<le> dx" and "\<bar>dy\<bar> < dx"
  shows "in_clip g u v \<and> on_line_from x0 y0 dx dy u v \<longleftrightarrow>
    (\<exists>k. steps_inside dx \<bar>dy\<bar> (clipXLeft g - x0) (clipXRight g - x0 - 1)
        (if dy > 0 then clipYTop g - y0 else y0 - clipYBottom g + 1) (if dy > 0 then clipYBottom g - y0 - 1 else y0 - clipYTop g) k \<and>
      u = x0 + k \<and> v = y0 + (if dy > 0 then 1 else - 1) * rise dx \<bar>dy\<bar> k)"
  using assms unfolding in_clip_def on_line_from_def steps_inside_def Let_def
  by (auto simp: algebra_simps intro!: exI [of _ "u - x0"])

lemma vmax_inside:
  assumes "0 \<le> dx" and "dx \<le> \<bar>dy\<bar>"
  shows "in_clip g u v \<and> on_line_from x0 y0 dx dy u v \<longleftrightarrow>
    (\<exists>k. steps_inside \<bar>dy\<bar> dx (if dy > 0 then clipYTop g - y0 else y0 - clipYBottom g + 1)
        (if dy > 0 then clipYBottom g - y0 - 1 else y0 - clipYTop g) (clipXLeft g - x0) (clipXRight g - x0 - 1) k \<and>
      u = x0 + rise \<bar>dy\<bar> dx k \<and> v = y0 + (if dy > 0 then 1 else - 1) * k)"
  using assms unfolding in_clip_def on_line_from_def steps_inside_def Let_def
  by (auto simp: algebra_simps intro!: exI [of _ "(if dy > 0 then 1 else - 1) * (v - y0)"])

lemma clipped_line_fills:
  assumes "clip_ok g" and "length buffer = 2048" and "shade_ok s"
    and "clipXLeft g < clipXRight g" and "clipYTop g < clipYBottom g" and "0 \<le> dx"
  shows "fills g buffer s (on_line_from x0 y0 dx dy) (clipped_line_from g buffer x0 y0 dx dy s)"
proof -
  define sg :: int where "sg = (if dy > 0 then 1 else - 1)"
  define HE HX where "HE = clipXLeft g - x0" and "HX = clipXRight g - x0 - 1"
  define VE VX where "VE = (if dy > 0 then clipYTop g - y0 else y0 - clipYBottom g + 1)"
    and "VX = (if dy > 0 then clipYBottom g - y0 - 1 else y0 - clipYTop g)"
  note names = sg_def [symmetric] HE_def [symmetric] HX_def [symmetric] VE_def [symmetric] VX_def [symmetric]
  have m: "(if dy > 0 then dy else - dy) = \<bar>dy\<bar>" by simp
  have order: "HE \<le> HX" "VE \<le> VX" using assms(4,5) by (auto simp: HE_def HX_def VE_def VX_def)
  let ?r = "clipped_line_from g buffer x0 y0 dx dy s"
  have run: "?r = (if dx < HE \<or> \<bar>dy\<bar> < VE \<or> VX < 0 \<or> HX < 0 then Inr buffer
      else if dx > \<bar>dy\<bar>
      then (case line_entry dx \<bar>dy\<bar> HE HX VE VX of
           None \<Rightarrow> Inr buffer
         | Some (p, q) \<Rightarrow> draw_points (map (\<lambda>(j, v). (x0 + j, y0 + sg * v)) (line_steps (nat (min (HX - p) (dx - p))) p q
             ((2 + 2 * p) * \<bar>dy\<bar> - (1 + 2 * q) * dx) (min (VX - q) (\<bar>dy\<bar> - q)) (2 * \<bar>dy\<bar>) (2 * (\<bar>dy\<bar> - dx)))) s buffer)
      else (case line_entry \<bar>dy\<bar> dx VE VX HE HX of
           None \<Rightarrow> Inr buffer
         | Some (p, q) \<Rightarrow> draw_points (map (\<lambda>(j, v). (x0 + v, y0 + sg * j)) (line_steps (nat (min (VX - p) (\<bar>dy\<bar> - p))) p q
             ((2 + 2 * p) * dx - (1 + 2 * q) * \<bar>dy\<bar>) (min (HX - q) (dx - q)) (2 * dx) (2 * (dx - \<bar>dy\<bar>)))) s buffer))"
    unfolding clipped_line_from_def Let_def names m hmax_clipped_points [OF assms(3) sg_def] vmax_clipped_points [OF sg_def] ..
  show ?thesis
  proof (cases "dx > \<bar>dy\<bar>")
    case True
    note inside = hmax_inside [OF assms(6) True, of g _ _ x0 y0, unfolded names]
    have range: "0 \<le> \<bar>dy\<bar>" "\<bar>dy\<bar> \<le> dx" using True by simp_all
    show ?thesis
    proof (cases "dx < HE \<or> \<bar>dy\<bar> < VE \<or> VX < 0 \<or> HX < 0")
      case out: True
      then have "\<not> steps_inside dx \<bar>dy\<bar> HE HX VE VX k" for k by (intro steps_rejected range) auto
      then show ?thesis unfolding run if_P [OF out] by (intro fills_nothing) (simp add: inside)
    next
      case False
      then have e: "HE \<le> dx" "VE \<le> \<bar>dy\<bar>" "0 \<le> HX" "0 \<le> VX" by auto
      show ?thesis
      proof (cases "line_entry dx \<bar>dy\<bar> HE HX VE VX")
        case None
        from no_entry [OF range e order None] show ?thesis
          unfolding run if_not_P [OF False] if_P [OF True] None option.case by (intro fills_nothing) (simp add: inside)
      next
        case (Some pq)
        obtain p q where pq: "pq = (p, q)" by fastforce
        note steps = steps_from_entry [OF range e order Some [unfolded pq]]
        show ?thesis
          unfolding run if_not_P [OF False] if_P [OF True] Some pq option.case prod.case
          by (intro fills_points assms(1-3)) (unfold set_map steps inside, auto)
      qed
    qed
  next
    case steep: False
    then have range: "0 \<le> dx" "dx \<le> \<bar>dy\<bar>" using assms(6) by simp_all
    note inside = vmax_inside [OF range, of g _ _ x0 y0, unfolded names]
    show ?thesis
    proof (cases "dx < HE \<or> \<bar>dy\<bar> < VE \<or> VX < 0 \<or> HX < 0")
      case out: True
      then have "\<not> steps_inside \<bar>dy\<bar> dx VE VX HE HX k" for k by (intro steps_rejected range) auto
      then show ?thesis unfolding run if_P [OF out] by (intro fills_nothing) (simp add: inside)
    next
      case False
      then have e: "VE \<le> \<bar>dy\<bar>" "HE \<le> dx" "0 \<le> VX" "0 \<le> HX" by auto
      show ?thesis
      proof (cases "line_entry \<bar>dy\<bar> dx VE VX HE HX")
        case None
        from no_entry [OF range e order(2,1) None] show ?thesis
          unfolding run if_not_P [OF False] if_not_P [OF steep] None option.case by (intro fills_nothing) (simp add: inside)
      next
        case (Some pq)
        obtain p q where pq: "pq = (p, q)" by fastforce
        note steps = steps_from_entry [OF range e order(2,1) Some [unfolded pq]]
        show ?thesis
          unfolding run if_not_P [OF False] if_not_P [OF steep] Some pq option.case prod.case
          by (intro fills_points assms(1-3)) (unfold set_map steps inside, auto)
      qed
    qed
  qed
qed

lemma drawLineClipped_fills:
  assumes "clip_ok g" and "length buffer = 2048" and "shade_ok s"
    and "clipXLeft g < clipXRight g" and "clipYTop g < clipYBottom g"
  shows "fills g buffer s (on_line x0 y0 x1 y1) (drawLineClipped g buffer x0 y0 x1 y1 s)"
  using clipped_line_fills [OF assms, of "x0 - x1" x1 y1 "y0 - y1"] clipped_line_fills [OF assms, of "x1 - x0" x0 y0 "y1 - y0"]
  by (auto simp: drawLineClipped_def on_line_def Let_def)

section \<open>Lines without clipping\<close>

lemma rise_flat: "0 \<le> D \<Longrightarrow> rise D 0 k = 0"
  by (cases "D = 0") (simp_all add: rise_def rise_eq div_pos_pos_trivial)

lemma all_steps:
  assumes "0 \<le> m" and "m \<le> D" and "0 < D"
  shows "set (line_steps (nat D) 0 0 (2 * m - D) (- 1) (2 * m) (2 * (m - D))) = (\<lambda>k. (k, rise D m k)) ` {0..D}"
proof -
  have "set (line_steps (nat D) 0 0 (2 * m - D) (- 1) (2 * m) (2 * (m - D))) =
      (\<lambda>k. (k, rise D m k)) ` {k. 0 \<le> k \<and> k \<le> 0 + int (nat D) \<and> (0 \<le> (- 1 :: int) \<longrightarrow> rise D m k \<le> 0 + - 1)}"
    by (rule line_steps_set [OF assms(3,1,2)]) (use assms in \<open>simp_all add: rise_start\<close>)
  also have "{k. 0 \<le> k \<and> k \<le> 0 + int (nat D) \<and> (0 \<le> (- 1 :: int) \<longrightarrow> rise D m k \<le> 0 + - 1)} = {0..D}" using assms(3) by auto
  finally show ?thesis .
qed

lemma hmax_unclipped_points:
  assumes "shade_ok s" and "0 < dx" and "\<bar>dy\<bar> < dx"
  shows "\<exists>ps. drawLineHMaxUnclipped buffer x0 y0 dx dy s = draw_points ps s buffer \<and> (\<forall>u v. (u, v) \<in> set ps \<longleftrightarrow> on_line_from x0 y0 dx dy u v)"
proof -
  let ?sg = "if dy > 0 then 1 else - 1 :: int"
  have m: "(if dy > 0 then dy else - dy) = \<bar>dy\<bar>" by simp
  have "drawLineHMaxUnclipped buffer x0 y0 dx dy s = drawLineHMaxClipped buffer (x0 + 0) (if dy > 0 then y0 + 0 else y0 - 0) dx dy (2 * \<bar>dy\<bar> - dx) dx (- 1) s"
    unfolding drawLineHMaxUnclipped_def drawLineHMaxClipped_def Let_def m by (simp add: hmax_unlimited)
  also have "\<dots> = draw_points (map (\<lambda>(j, v). (x0 + j, y0 + ?sg * v)) (line_steps (nat dx) 0 0 (2 * \<bar>dy\<bar> - dx) (- 1) (2 * \<bar>dy\<bar>) (2 * (\<bar>dy\<bar> - dx)))) s buffer"
    by (rule hmax_clipped_points [OF assms(1) refl])
  finally have run: "drawLineHMaxUnclipped buffer x0 y0 dx dy s =
    draw_points (map (\<lambda>(j, v). (x0 + j, y0 + ?sg * v)) (line_steps (nat dx) 0 0 (2 * \<bar>dy\<bar> - dx) (- 1) (2 * \<bar>dy\<bar>) (2 * (\<bar>dy\<bar> - dx)))) s buffer" .
  have steps: "set (line_steps (nat dx) 0 0 (2 * \<bar>dy\<bar> - dx) (- 1) (2 * \<bar>dy\<bar>) (2 * (\<bar>dy\<bar> - dx))) = (\<lambda>k. (k, rise dx \<bar>dy\<bar> k)) ` {0..dx}"
    using assms(2,3) by (intro all_steps) simp_all
  have "(u, v) \<in> set (map (\<lambda>(j, v). (x0 + j, y0 + ?sg * v)) (line_steps (nat dx) 0 0 (2 * \<bar>dy\<bar> - dx) (- 1) (2 * \<bar>dy\<bar>) (2 * (\<bar>dy\<bar> - dx)))) \<longleftrightarrow>
      on_line_from x0 y0 dx dy u v" for u v
    unfolding set_map steps on_line_from_def Let_def if_P [OF assms(3)] image_image
    by (auto simp: image_iff intro!: bexI [of _ "u - x0"])
  then show ?thesis using run by blast
qed

lemma vmax_unclipped_points:
  assumes "0 \<le> dx" and "dx \<le> \<bar>dy\<bar>" and "dy \<noteq> 0"
  shows "\<exists>ps. drawLineVMaxUnclipped buffer x0 y0 dx dy s = draw_points ps s buffer \<and> (\<forall>u v. (u, v) \<in> set ps \<longleftrightarrow> on_line_from x0 y0 dx dy u v)"
proof -
  let ?sg = "if dy > 0 then 1 else - 1 :: int"
  have m: "(if dy > 0 then dy else - dy) = \<bar>dy\<bar>" by simp
  have "drawLineVMaxUnclipped buffer x0 y0 dx dy s = drawLineVMaxClipped buffer (x0 + 0) (if dy > 0 then y0 + 0 else y0 - 0) dx dy (2 * dx - \<bar>dy\<bar>) (- 1) \<bar>dy\<bar> s"
    unfolding drawLineVMaxUnclipped_def drawLineVMaxClipped_def Let_def m by (simp add: vmax_unlimited)
  also have "\<dots> = draw_points (map (\<lambda>(j, v). (x0 + v, y0 + ?sg * j)) (line_steps (nat \<bar>dy\<bar>) 0 0 (2 * dx - \<bar>dy\<bar>) (- 1) (2 * dx) (2 * (dx - \<bar>dy\<bar>)))) s buffer"
    by (rule vmax_clipped_points [OF refl])
  finally have run: "drawLineVMaxUnclipped buffer x0 y0 dx dy s =
    draw_points (map (\<lambda>(j, v). (x0 + v, y0 + ?sg * j)) (line_steps (nat \<bar>dy\<bar>) 0 0 (2 * dx - \<bar>dy\<bar>) (- 1) (2 * dx) (2 * (dx - \<bar>dy\<bar>)))) s buffer" .
  have steps: "set (line_steps (nat \<bar>dy\<bar>) 0 0 (2 * dx - \<bar>dy\<bar>) (- 1) (2 * dx) (2 * (dx - \<bar>dy\<bar>))) = (\<lambda>k. (k, rise \<bar>dy\<bar> dx k)) ` {0..\<bar>dy\<bar>}"
    using assms by (intro all_steps) simp_all
  have n: "\<not> \<bar>dy\<bar> < dx" using assms(2) by simp
  have "(u, v) \<in> set (map (\<lambda>(j, v). (x0 + v, y0 + ?sg * j)) (line_steps (nat \<bar>dy\<bar>) 0 0 (2 * dx - \<bar>dy\<bar>) (- 1) (2 * dx) (2 * (dx - \<bar>dy\<bar>)))) \<longleftrightarrow>
      on_line_from x0 y0 dx dy u v" for u v
    unfolding set_map steps on_line_from_def Let_def if_not_P [OF n] image_image
    by (auto simp: image_iff intro!: bexI [of _ "?sg * (v - y0)"])
  then show ?thesis using run by blast
qed

lemma unclipped_points:
  assumes "shade_ok s"
  shows "\<exists>ps. drawLineUnclipped buffer x0 y0 x1 y1 s = draw_points ps s buffer \<and> (\<forall>u v. (u, v) \<in> set ps \<longleftrightarrow> on_line x0 y0 x1 y1 u v)"
proof (cases "x1 = x0 \<or> y1 = y0")
  case True
  have flat: "rise D 0 k = 0" if "0 \<le> D" for D k using that by (rule rise_flat)
  show ?thesis
  proof (cases "x1 = x0")
    case True
    then have "drawLineUnclipped buffer x0 y0 x1 y1 s = draw_points (map (\<lambda>v. (x0, v)) [min y0 y1..max y0 y1]) s buffer"
      by (auto simp: drawLineUnclipped_def Let_def vertical_points min_def max_def)
    moreover have "(u, v) \<in> set (map (\<lambda>v. (x0, v)) [min y0 y1..max y0 y1]) \<longleftrightarrow> on_line x0 y0 x1 y1 u v" for u v
      using True by (auto simp: on_line_def on_line_from_def Let_def flat)
    ultimately show ?thesis by blast
  next
    case False
    then have "drawLineUnclipped buffer x0 y0 x1 y1 s = draw_points (map (\<lambda>u. (u, y0)) [min x0 x1..max x0 x1]) s buffer"
      using True by (auto simp: drawLineUnclipped_def Let_def horizontal_points [OF assms] min_def max_def)
    moreover have "(u, v) \<in> set (map (\<lambda>u. (u, y0)) [min x0 x1..max x0 x1]) \<longleftrightarrow> on_line x0 y0 x1 y1 u v" for u v
      using True False by (auto simp: on_line_def on_line_from_def Let_def flat)
    ultimately show ?thesis by blast
  qed
next
  case False
  have sloped: "\<exists>ps. (if dx > \<bar>dy\<bar> then drawLineHMaxUnclipped buffer x y dx dy s else drawLineVMaxUnclipped buffer x y dx dy s) = draw_points ps s buffer \<and>
      (\<forall>u v. (u, v) \<in> set ps \<longleftrightarrow> on_line_from x y dx dy u v)" if "0 < dx" "dy \<noteq> 0" for x y dx dy
    using hmax_unclipped_points [OF assms that(1), of dy buffer x y] vmax_unclipped_points [of dx dy buffer x y s] that by auto
  have "drawLineUnclipped buffer x0 y0 x1 y1 s =
      (let (x, y, dx, dy) = (if x1 < x0 then (x1, y1, x0 - x1, y0 - y1) else (x0, y0, x1 - x0, y1 - y0)) in
       if dx > \<bar>dy\<bar> then drawLineHMaxUnclipped buffer x y dx dy s else drawLineVMaxUnclipped buffer x y dx dy s)"
    using False by (auto simp: drawLineUnclipped_def Let_def)
  then show ?thesis using False sloped [of "x0 - x1" "y0 - y1" x1 y1] sloped [of "x1 - x0" "y1 - y0" x0 y0]
    by (auto simp: on_line_def split: if_splits)
qed

lemma on_line_on_screen:
  assumes "on_screen x0 y0" and "on_screen x1 y1" and "on_line x0 y0 x1 y1 u v"
  shows "on_screen u v"
proof -
  have "on_screen u v" if e: "on_screen x y" "on_screen (x + dx) (y + dy)" "0 \<le> dx" "on_line_from x y dx dy u v" for x y dx dy
  proof (cases "dx > \<bar>dy\<bar>")
    case True
    then have "0 \<le> rise dx \<bar>dy\<bar> (u - x) \<and> rise dx \<bar>dy\<bar> (u - x) \<le> \<bar>dy\<bar>"
      using e(4) by (intro rise_range) (simp_all add: on_line_from_def Let_def)
    then show ?thesis using True e by (auto simp: on_line_from_def on_screen_def Let_def split: if_splits)
  next
    case False
    let ?k = "(if dy > 0 then 1 else - 1) * (v - y)"
    have "0 \<le> rise \<bar>dy\<bar> dx ?k \<and> rise \<bar>dy\<bar> dx ?k \<le> dx"
      using False e(3,4) by (intro rise_range) (simp_all add: on_line_from_def Let_def)
    then show ?thesis using False e by (auto simp: on_line_from_def on_screen_def Let_def split: if_splits)
  qed
  from this [of x1 y1 "x0 - x1" "y0 - y1"] this [of x0 y0 "x1 - x0" "y1 - y0"] assms show ?thesis
    by (auto simp: on_line_def split: if_splits)
qed

lemma drawLineUnclipped_fills:
  assumes "length buffer = 2048" and "shade_ok s" and "on_screen x0 y0" and "on_screen x1 y1"
  shows "fills full_clip_area buffer s (on_line x0 y0 x1 y1) (drawLineUnclipped buffer x0 y0 x1 y1 s)"
proof -
  obtain ps where ps: "drawLineUnclipped buffer x0 y0 x1 y1 s = draw_points ps s buffer" "\<And>u v. (u, v) \<in> set ps \<longleftrightarrow> on_line x0 y0 x1 y1 u v"
    using unclipped_points [OF assms(2)] by blast
  have "in_clip full_clip_area u v" if "on_screen u v" for u v
    using that by (simp add: in_clip_def full_clip_area_def on_screen_def)
  then show ?thesis unfolding ps(1)
    using on_line_on_screen [OF assms(3,4)] by (intro fills_points [OF clip_ok_simps(1) assms(1,2)]) (auto simp: ps(2))
qed



text \<open>
  \<open>setClipArea()\<close> also makes clip areas without pixels.  A line that crosses the edge of such an
  area leaves a pixel.
\<close>

theorem empty_clip_area_draws:
  "\<exists>g. g = setClipArea 5 0 5 32 full_clip_area \<and> (\<forall>u v. \<not> in_clip g u v) \<and>
    drawLineClipped g (replicate 2048 0) 0 0 10 0 3 = drawPointUnclipped (replicate 2048 0) 5 0 3"
  by (simp add: setClipArea_def in_clip_def drawLineClipped_def clipped_line_from_def line_entry_def
    drawLineHMaxClipped_def outstanding_def drawPointUnclipped_def)

section \<open>Outlines are made of lines\<close>

lemma fills_seq:
  assumes "fills g buffer s P (Inr b)" and "fills g b s Q r"
  shows "fills g buffer s (\<lambda>u v. P u v \<or> Q u v) r"
proof -
  obtain b' where b': "r = Inr b'" "paints b b' (\<lambda>u v. if in_clip g u v \<and> Q u v then Some s else None)"
    using assms(2) by (auto simp: fills_def)
  moreover have "paints buffer b (\<lambda>u v. if in_clip g u v \<and> P u v then Some s else None)" using assms(1) by (simp add: fills_def)
  from paints_trans [OF this b'(2)] have "paints buffer b' (\<lambda>u v. if in_clip g u v \<and> (P u v \<or> Q u v) then Some s else None)"
    by (rule paints_cong) auto
  ultimately show ?thesis by (auto simp: fills_def)
qed

fun on_outline :: "int \<times> int \<Rightarrow> (int \<times> int) list \<Rightarrow> int \<Rightarrow> int \<Rightarrow> bool" where
  "on_outline prev [] u v \<longleftrightarrow> False"
| "on_outline prev (c # cs) u v \<longleftrightarrow> on_line (fst prev) (snd prev) (fst c) (snd c) u v \<or> on_outline c cs u v"

lemma polygon_fills:
  assumes "\<And>buffer x0 y0 x1 y1. length buffer = 2048 \<Longrightarrow> (x0, y0) \<in> P \<Longrightarrow> (x1, y1) \<in> P \<Longrightarrow>
      fills g buffer s (on_line x0 y0 x1 y1) (line x0 y0 x1 y1 buffer)"
    and "length buffer = 2048" and "set (prev # cs) \<subseteq> P"
  shows "fills g buffer s (on_outline prev cs) (polygon_lines line prev cs buffer)"
  using assms(2,3)
proof (induction cs arbitrary: prev buffer)
  case Nil
  then show ?case by (simp add: fills_nothing)
next
  case (Cons c cs)
  have first: "fills g buffer s (on_line (fst prev) (snd prev) (fst c) (snd c)) (line (fst prev) (snd prev) (fst c) (snd c) buffer)"
    using Cons.prems by (intro assms(1)) auto
  then obtain b where b: "line (fst prev) (snd prev) (fst c) (snd c) buffer = Inr b" "length b = 2048"
    using Cons.prems(1) by (auto simp: fills_def paints_def)
  have "fills g b s (on_outline c cs) (polygon_lines line c cs b)" using b(2) Cons.prems(2) by (intro Cons.IH) auto
  from fills_seq [OF first [unfolded b(1)] this] show ?case using b(1) by simp
qed

text \<open>The outline of a polygon is that of its sides, from each corner to the next and from the last to the first.\<close>

theorem outlines_are_exact:
  assumes "clip_ok g" and "clipXLeft g < clipXRight g" and "clipYTop g < clipYBottom g"
    and "length buffer = 2048" and "shade_ok s" and "coords \<noteq> []"
  shows "fills g buffer s (on_outline (List.last coords) coords) (drawOutlinePolygonClipped g buffer coords s)"
    and "\<forall>(x, y) \<in> set coords. on_screen x y \<Longrightarrow>
      fills full_clip_area buffer s (on_outline (List.last coords) coords) (drawOutlinePolygonUnclipped buffer coords s)"
proof -
  show "fills g buffer s (on_outline (List.last coords) coords) (drawOutlinePolygonClipped g buffer coords s)"
    unfolding drawOutlinePolygonClipped_def if_not_P [OF assms(6)]
    by (rule polygon_fills [where P = UNIV]) (use assms drawLineClipped_fills in auto)
  assume "\<forall>(x, y) \<in> set coords. on_screen x y"
  then show "fills full_clip_area buffer s (on_outline (List.last coords) coords) (drawOutlinePolygonUnclipped buffer coords s)"
    unfolding drawOutlinePolygonUnclipped_def if_not_P [OF assms(6)]
    by (intro polygon_fills [where P = "{(x, y). on_screen x y}"]) (use assms drawLineUnclipped_fills in auto)
qed

end
