(* ===== verification/Vfd_Ellipses.thy ===== *)
theory Vfd_Ellipses
  imports Vfd_Lines
begin

text \<open>
  Ellipses on the display of the empeg (\<open>src/empeg/vfdlib.c\<close>): the midpoint algorithm of
  \<open>vfdlib_drawOutlineEllipseClipped()\<close>, \<open>vfdlib_drawSolidEllipseClipped()\<close> and their unclipped
  variants.  The decisions are kept up to date by additions; numbers are not bounded here, in C
  they overflow for radii from about 150 on.
\<close>

section \<open>The algorithm\<close>

text \<open>
  The four functions have the same two loops.  \<open>before\<close> is what they draw before \<open>y\<close> is lowered, \<open>after\<close>
  what they draw after a step.  \<open>None\<close>: the first loop does not end.
\<close>

type_synonym plot = "int \<Rightarrow> int \<Rightarrow> byte list \<Rightarrow> byte list result"

partial_function (option) ellipse_region1 ::
  "plot \<Rightarrow> plot \<Rightarrow> int \<Rightarrow> int \<Rightarrow> int \<Rightarrow> int \<Rightarrow> int \<Rightarrow> int \<Rightarrow> int \<Rightarrow> byte list \<Rightarrow> (int \<times> int \<times> byte list) result option" where
  "ellipse_region1 before after a_2 b_2 d1 deltaE deltaSE x y buffer =
     (if 2 * a_2 * y - a_2 > 2 * b_2 * (x + 1)
      then
        if d1 < 0
        then
          (case after (x + 1) y buffer of
             Inl e \<Rightarrow> Some (Inl e)
           | Inr buffer \<Rightarrow> ellipse_region1 before after a_2 b_2 (d1 + deltaE) (deltaE + 8 * b_2) (deltaSE + 8 * b_2) (x + 1) y buffer)
        else
          (case and_then (before x y buffer) (after (x + 1) (y - 1)) of
             Inl e \<Rightarrow> Some (Inl e)
           | Inr buffer \<Rightarrow>
               ellipse_region1 before after a_2 b_2 (d1 + deltaSE) (deltaE + 8 * b_2) (deltaSE + (8 * a_2 + 8 * b_2)) (x + 1) (y - 1) buffer)
      else Some (Inr (x, y, buffer)))"

function ellipse_region2 ::
  "plot \<Rightarrow> plot \<Rightarrow> int \<Rightarrow> int \<Rightarrow> int \<Rightarrow> int \<Rightarrow> int \<Rightarrow> int \<Rightarrow> int \<Rightarrow> byte list \<Rightarrow> (int \<times> byte list) result" where
  "ellipse_region2 before after a_2 b_2 d2 deltaS deltaSE x y buffer =
     (if y > 0
      then
        (let (d2', deltaSE', x') =
               (if d2 < 0 then (d2 + deltaSE, deltaSE + (8 * a_2 + 8 * b_2), x + 1) else (d2 + deltaS, deltaSE + 8 * a_2, x)) in
         and_then (before x' y buffer) (\<lambda>buffer.
         and_then (after x' (y - 1) buffer) (\<lambda>buffer.
           ellipse_region2 before after a_2 b_2 d2' (deltaS + 8 * a_2) deltaSE' x' (y - 1) buffer)))
      else Inr (x, buffer))"
  by pat_completeness auto
termination by (relation "measure (\<lambda>(_, _, _, _, _, _, _, _, y, _). nat y)") auto

declare ellipse_region2.simps [simp del]

definition draw_ellipse :: "plot \<Rightarrow> plot \<Rightarrow> int \<Rightarrow> int \<Rightarrow> byte list \<Rightarrow> (int \<times> byte list) result option" where
  "draw_ellipse before after a b buffer =
     (let a_2 = a * a; b_2 = b * b;
          d1 = 4 * b_2 - 4 * a_2 * b + a_2;
          deltaE = 12 * b_2;
          deltaSE = deltaE - 8 * a_2 * b + 8 * a_2 in
      map_option (\<lambda>r. and_then r (\<lambda>(x, y, buffer).
          let d2 = (4 * b_2 * (x * x + x) + b_2) + (4 * a_2 * (y - 1) * (y - 1)) - (4 * a_2 * b_2);
              deltaS = 4 * a_2 * (- 2 * y + 3);
              deltaSE = 4 * b_2 * (2 * x + 2) + deltaS in
          ellipse_region2 before after a_2 b_2 d2 deltaS deltaSE x y buffer))
        (ellipse_region1 before after a_2 b_2 d1 deltaE deltaSE 0 b buffer))"

section \<open>Outlines\<close>

definition no_plot :: plot where
  "no_plot x y = Inr"

definition drawPixel4WaySymmetricClipped :: "clip_area \<Rightarrow> int \<Rightarrow> int \<Rightarrow> byte \<Rightarrow> plot" where
  "drawPixel4WaySymmetricClipped g cX cY shade x y buffer =
     and_then (drawPointClipped g buffer (cX + x) (cY + y) shade) (\<lambda>buffer.
     and_then (drawPointClipped g buffer (cX + x) (cY - y) shade) (\<lambda>buffer.
     and_then (drawPointClipped g buffer (cX - x) (cY + y) shade) (\<lambda>buffer.
       drawPointClipped g buffer (cX - x) (cY - y) shade)))"

definition drawPixel4WaySymmetricUnclipped :: "int \<Rightarrow> int \<Rightarrow> byte \<Rightarrow> plot" where
  "drawPixel4WaySymmetricUnclipped cX cY shade x y buffer =
     and_then (drawPointUnclipped buffer (cX + x) (cY + y) shade) (\<lambda>buffer.
     and_then (drawPointUnclipped buffer (cX + x) (cY - y) shade) (\<lambda>buffer.
     and_then (drawPointUnclipped buffer (cX - x) (cY + y) shade) (\<lambda>buffer.
       drawPointUnclipped buffer (cX - x) (cY - y) shade)))"

definition ellipse_outline :: "plot \<Rightarrow> int \<Rightarrow> int \<Rightarrow> byte list \<Rightarrow> byte list result option" where
  "ellipse_outline plot4 a b buffer =
     (case plot4 0 b buffer of
        Inl e \<Rightarrow> Some (Inl e)
      | Inr buffer \<Rightarrow> map_option (map_result snd) (draw_ellipse no_plot plot4 a b buffer))"

definition drawOutlineEllipseUnclipped :: "byte list \<Rightarrow> int \<Rightarrow> int \<Rightarrow> int \<Rightarrow> int \<Rightarrow> byte \<Rightarrow> byte list result option" where
  "drawOutlineEllipseUnclipped buffer cX cY a b shade =
     ellipse_outline (drawPixel4WaySymmetricUnclipped cX cY shade) a b buffer"

definition within_clip :: "clip_area \<Rightarrow> int \<Rightarrow> int \<Rightarrow> int \<Rightarrow> int \<Rightarrow> bool" where
  "within_clip g cX cY a b \<longleftrightarrow>
     cX - a > clipXLeft g \<and> cX + a < clipXRight g \<and> cY - b > clipYTop g \<and> cY + b < clipYBottom g"

definition drawOutlineEllipseClipped :: "clip_area \<Rightarrow> byte list \<Rightarrow> int \<Rightarrow> int \<Rightarrow> int \<Rightarrow> int \<Rightarrow> byte \<Rightarrow> byte list result option" where
  "drawOutlineEllipseClipped g buffer cX cY a b shade =
     (if within_clip g cX cY a b then drawOutlineEllipseUnclipped buffer cX cY a b shade
      else ellipse_outline (drawPixel4WaySymmetricClipped g cX cY shade) a b buffer)"

section \<open>Solid ellipses\<close>

definition rows_clipped :: "clip_area \<Rightarrow> int \<Rightarrow> int \<Rightarrow> byte \<Rightarrow> plot" where
  "rows_clipped g cX cY shade x y buffer =
     and_then (drawLineHorizClipped g buffer (cY + y) (cX - x) (cX + x) shade) (\<lambda>buffer.
       drawLineHorizClipped g buffer (cY - y) (cX - x) (cX + x) shade)"

definition rows_unclipped :: "int \<Rightarrow> int \<Rightarrow> byte \<Rightarrow> plot" where
  "rows_unclipped cX cY shade x y buffer =
     and_then (drawLineHorizUnclipped buffer (cY + y) (cX - x) (2 * x) shade) (\<lambda>buffer.
       drawLineHorizUnclipped buffer (cY - y) (cX - x) (2 * x) shade)"

definition drawSolidEllipseUnclipped :: "byte list \<Rightarrow> int \<Rightarrow> int \<Rightarrow> int \<Rightarrow> int \<Rightarrow> byte \<Rightarrow> byte list result option" where
  "drawSolidEllipseUnclipped buffer cX cY a b shade =
     map_option (\<lambda>r. and_then r (\<lambda>(x, buffer). drawLineHorizUnclipped buffer cY (cX - x) (2 * x) shade))
       (draw_ellipse (rows_unclipped cX cY shade) no_plot a b buffer)"

definition drawSolidEllipseClipped :: "clip_area \<Rightarrow> byte list \<Rightarrow> int \<Rightarrow> int \<Rightarrow> int \<Rightarrow> int \<Rightarrow> byte \<Rightarrow> byte list result option" where
  "drawSolidEllipseClipped g buffer cX cY a b shade =
     (if within_clip g cX cY a b then drawSolidEllipseUnclipped buffer cX cY a b shade
      else
        map_option (\<lambda>r. and_then r (\<lambda>(x, buffer). drawLineHorizClipped g buffer cY (cX - x) (cX + x) shade))
          (draw_ellipse (rows_clipped g cX cY shade) no_plot a b buffer))"

section \<open>The path\<close>

text \<open>
  The way around a quarter of the ellipse, by the sign of
  \<open>4 (b\<^sup>2 x\<^sup>2 + a\<^sup>2 y\<^sup>2 - a\<^sup>2 b\<^sup>2)\<close> in the middle between the two next points.  The bound on \<open>x\<close> in the
  flat part makes the function total; it does not shorten the path.
\<close>

definition side :: "int \<Rightarrow> int \<Rightarrow> int \<Rightarrow> int \<Rightarrow> int" where
  "side a b x2 y2 = b * b * (x2 * x2) + a * a * (y2 * y2) - 4 * (a * a) * (b * b)"

definition is_flat :: "int \<Rightarrow> int \<Rightarrow> int \<Rightarrow> int \<Rightarrow> bool" where
  "is_flat a b x y \<longleftrightarrow> a * a * (2 * y - 1) > 2 * (b * b) * (x + 1)"

text \<open>The steps with the \<open>x\<close> and \<open>y\<close> before \<open>y\<close> is lowered, and the last \<open>x\<close>.\<close>

function steep_part :: "int \<Rightarrow> int \<Rightarrow> int \<Rightarrow> int \<Rightarrow> (int \<times> int) list \<times> int" where
  "steep_part a b x y =
     (if y > 0
      then
        (let x' = (if side a b (2 * x + 1) (2 * (y - 1)) < 0 then x + 1 else x);
             (ps, z) = steep_part a b x' (y - 1) in
         ((x', y) # ps, z))
      else ([], x))"
  by pat_completeness auto
termination by (relation "measure (\<lambda>(_, _, _, y). nat y)") auto

text \<open>The steps with the point they start from and whether they lower \<open>y\<close>, and where the flat part ends.\<close>

function flat_part :: "int \<Rightarrow> int \<Rightarrow> int \<Rightarrow> int \<Rightarrow> (int \<times> int \<times> bool) list \<times> int \<times> int" where
  "flat_part a b x y =
     (if is_flat a b x y \<and> x < \<bar>a\<bar>
      then
        (let down = (\<not> side a b (2 * (x + 1)) (2 * y - 1) < 0);
             (ps, q) = flat_part a b (x + 1) (if down then y - 1 else y) in
         ((x, y, down) # ps, q))
      else ([], x, y))"
  by pat_completeness auto
termination by (relation "measure (\<lambda>(a, _, x, _). nat (\<bar>a\<bar> - x))") auto

declare steep_part.simps [simp del] flat_part.simps [simp del]

section \<open>The path stays inside of its box\<close>

text \<open>While the ellipse is flat, the point between \<open>y\<close> and \<open>y - 1\<close> lies inside of it.\<close>

definition below_ellipse :: "int \<Rightarrow> int \<Rightarrow> int \<Rightarrow> int \<Rightarrow> bool" where
  "below_ellipse a b x y \<longleftrightarrow> 0 \<le> x \<and> (is_flat a b x y \<longrightarrow> side a b (2 * x) (2 * y - 1) < 0)"

lemma flat_y: "is_flat a b x y \<Longrightarrow> 0 \<le> x \<Longrightarrow> 1 \<le> y"
proof (rule ccontr)
  assume f: "is_flat a b x y" "0 \<le> x" "\<not> 1 \<le> y"
  then have "a * a * (2 * y - 1) \<le> 0" by (intro mult_nonneg_nonpos) simp_all
  moreover have "0 \<le> 2 * (b * b) * (x + 1)" using f(2) by simp
  ultimately show False using f(1) by (simp add: is_flat_def)
qed

lemma inside_x:
  assumes "side a b x2 y2 < 0" and "0 \<le> x2"
  shows "x2 < 2 * \<bar>a\<bar>"
proof (rule ccontr)
  assume "\<not> x2 < 2 * \<bar>a\<bar>"
  then have "2 * \<bar>a\<bar> * (2 * \<bar>a\<bar>) \<le> x2 * x2" using assms(2) by (intro mult_mono) simp_all
  then have "4 * (a * a) \<le> x2 * x2" by (simp add: abs_mult_self_eq)
  then have "b * b * (4 * (a * a)) \<le> b * b * (x2 * x2)" by (intro mult_left_mono) simp_all
  moreover have "0 \<le> a * a * (y2 * y2)" by simp
  ultimately show False using assms(1) by (simp add: side_def algebra_simps)
qed

lemma below_start: "below_ellipse a b 0 b"
proof -
  have "side a b 0 (2 * b - 1) < 0" if f: "is_flat a b 0 b"
  proof -
    have b: "1 \<le> b" using flat_y [OF f] by simp
    have "a \<noteq> 0"
    proof
      assume "a = 0"
      then show False using f zero_le_square [of b] by (simp add: is_flat_def)
    qed
    then have "0 < a * a" by (auto simp: zero_less_mult_iff)
    moreover have "side a b 0 (2 * b - 1) = a * a * (1 - 4 * b)" by (simp add: side_def algebra_simps)
    ultimately show ?thesis using b by (simp add: mult_less_0_iff)
  qed
  then show ?thesis by (simp add: below_ellipse_def)
qed

lemma below_step:
  assumes "below_ellipse a b x y" and "is_flat a b x y"
  shows "x < \<bar>a\<bar> \<and> below_ellipse a b (x + 1) (if side a b (2 * (x + 1)) (2 * y - 1) < 0 then y else y - 1)"
proof -
  have x: "0 \<le> x" "side a b (2 * x) (2 * y - 1) < 0" using assms by (simp_all add: below_ellipse_def)
  have "2 * x < 2 * \<bar>a\<bar>" by (rule inside_x [OF x(2)]) (use x(1) in simp)
  moreover have "side a b (2 * (x + 1)) (2 * (y - 1) - 1) < 0" if f: "is_flat a b (x + 1) (y - 1)"
  proof -
    have e: "side a b (2 * (x + 1)) (2 * (y - 1) - 1) = side a b (2 * x) (2 * y - 1) + 4 * (2 * (b * b) * (x + 1) - b * b - a * a * (2 * y - 2))"
      by (simp add: side_def algebra_simps)
    have "2 * (b * b) * (x + 1) < a * a * (2 * y - 3)"
    proof -
      have "2 * (b * b) * (x + 1) \<le> 2 * (b * b) * (x + 1 + 1)" by (intro mult_left_mono) simp_all
      also have "\<dots> < a * a * (2 * (y - 1) - 1)" using f by (simp add: is_flat_def)
      finally show ?thesis by simp
    qed
    also have "a * a * (2 * y - 3) \<le> a * a * (2 * y - 2)" by (intro mult_left_mono) simp_all
    finally have less: "2 * (b * b) * (x + 1) < a * a * (2 * y - 2)" .
    have "p - q - r < 0" if "p < r" "0 \<le> q" for p q r :: int using that by simp
    from this [OF less zero_le_square] have "2 * (b * b) * (x + 1) - b * b - a * a * (2 * y - 2) < 0" .
    then have "4 * (2 * (b * b) * (x + 1) - b * b - a * a * (2 * y - 2)) < 0" by (rule mult_pos_neg [rotated]) simp
    then show ?thesis unfolding e using x(2) by (rule add_neg_neg [rotated])
  qed
  ultimately show ?thesis using x(1) by (simp add: below_ellipse_def)
qed

lemma flat_bounds:
  assumes "below_ellipse a b x y" and "0 \<le> y" and "flat_part a b x y = (ps, x', y')"
  shows "(\<forall>(px, py, down) \<in> set ps. 0 \<le> px \<and> px + 1 \<le> \<bar>a\<bar> \<and> 1 \<le> py \<and> py \<le> y) \<and> 0 \<le> x' \<and> (x \<le> \<bar>a\<bar> \<longrightarrow> x' \<le> \<bar>a\<bar>) \<and> 0 \<le> y' \<and> y' \<le> y"
  using assms
proof (induction a b x y arbitrary: ps rule: flat_part.induct)
  case (1 a b x y)
  show ?case
  proof (cases "is_flat a b x y \<and> x < \<bar>a\<bar>")
    case True
    let ?down = "\<not> side a b (2 * (x + 1)) (2 * y - 1) < 0"
    obtain qs where qs: "flat_part a b (x + 1) (if ?down then y - 1 else y) = (qs, x', y')" "ps = (x, y, ?down) # qs"
      using "1.prems"(3) True by (subst (asm) flat_part.simps) (auto simp: Let_def split: prod.splits)
    have y: "1 \<le> y" using flat_y True "1.prems"(1) by (auto simp: below_ellipse_def)
    have "below_ellipse a b (x + 1) (if ?down then y - 1 else y)"
      using below_step [OF "1.prems"(1)] True by (simp split: if_splits)
    from "1.IH" [OF True refl this _ qs(1)] show ?thesis
      using y True "1.prems"(1) by (fastforce simp: qs(2) below_ellipse_def split: if_splits)
  next
    case False
    then show ?thesis using "1.prems" by (subst (asm) flat_part.simps) (auto simp: below_ellipse_def)
  qed
qed

lemma steep_bounds:
  assumes "0 \<le> x" and "x \<le> \<bar>a\<bar>" and "steep_part a b x y = (ps, z)"
  shows "(\<forall>(px, py) \<in> set ps. 0 \<le> px \<and> px \<le> \<bar>a\<bar> \<and> 1 \<le> py \<and> py \<le> y) \<and> 0 \<le> z \<and> z \<le> \<bar>a\<bar>"
  using assms
proof (induction a b x y arbitrary: ps rule: steep_part.induct)
  case (1 a b x y)
  show ?case
  proof (cases "y > 0")
    case True
    let ?x = "if side a b (2 * x + 1) (2 * (y - 1)) < 0 then x + 1 else x"
    obtain qs where qs: "steep_part a b ?x (y - 1) = (qs, z)" "ps = (?x, y) # qs"
      using "1.prems"(3) True by (subst (asm) steep_part.simps) (auto simp: Let_def split: prod.splits)
    have "2 * x + 1 < 2 * \<bar>a\<bar>" if "side a b (2 * x + 1) (2 * (y - 1)) < 0"
      by (rule inside_x [OF that]) (use "1.prems"(1) in simp)
    then have x: "0 \<le> ?x" "?x \<le> \<bar>a\<bar>" using "1.prems"(1,2) by (simp, presburger)
    from "1.IH" [OF True refl x qs(1)] show ?thesis using True x by (fastforce simp: qs(2))
  next
    case False
    then show ?thesis using "1.prems" by (subst (asm) steep_part.simps) auto
  qed
qed

section \<open>The loops follow the path\<close>

lemma fills_buffer: "fills g buffer s P r \<Longrightarrow> length buffer = 2048 \<Longrightarrow> \<exists>b. r = Inr b \<and> length b = 2048"
  by (auto simp: fills_def paints_def)

lemma fills_cong: "fills g buffer s P r \<Longrightarrow> (\<And>u v. P u v = Q u v) \<Longrightarrow> fills g buffer s Q r"
  by (simp add: fills_def)

lemma fills_twice:
  assumes "fills g buffer s P (f buffer)" and "\<And>b. length b = 2048 \<Longrightarrow> fills g b s Q (h b)" and "length buffer = 2048"
  shows "fills g buffer s (\<lambda>u v. P u v \<or> Q u v) (and_then (f buffer) h)"
proof -
  obtain b where b: "f buffer = Inr b" "length b = 2048" using fills_buffer [OF assms(1,3)] by blast
  from fills_seq [OF assms(1) [unfolded b(1)] assms(2) [OF b(2)]] show ?thesis by (simp add: b(1))
qed

definition plot_fills :: "clip_area \<Rightarrow> byte \<Rightarrow> plot \<Rightarrow> (int \<Rightarrow> int \<Rightarrow> int \<Rightarrow> int \<Rightarrow> bool) \<Rightarrow> int \<Rightarrow> int \<Rightarrow> bool" where
  "plot_fills g s plot Q x y \<longleftrightarrow> (\<forall>b. length b = 2048 \<longrightarrow> fills g b s (Q x y) (plot x y b))"

lemma no_plot_fills: "plot_fills g s no_plot (\<lambda>x y u v. False) x y"
  by (simp add: plot_fills_def no_plot_def fills_nothing)

text \<open>What a step of the flat part draws.\<close>

definition step_paints :: "(int \<Rightarrow> int \<Rightarrow> int \<Rightarrow> int \<Rightarrow> bool) \<Rightarrow> (int \<Rightarrow> int \<Rightarrow> int \<Rightarrow> int \<Rightarrow> bool) \<Rightarrow> int \<times> int \<times> bool \<Rightarrow> int \<Rightarrow> int \<Rightarrow> bool" where
  "step_paints Qb Qa p u v \<longleftrightarrow>
     (case p of (x, y, down) \<Rightarrow> down \<and> Qb x y u v \<or> Qa (x + 1) (if down then y - 1 else y) u v)"

lemma region1_fills:
  assumes "below_ellipse a b x y" and "flat_part a b x y = (ps, x', y')" and "length buffer = 2048"
    and "d1 = side a b (2 * (x + 1)) (2 * y - 1)" and "deltaE = 4 * (b * b) * (2 * x + 3)"
    and "deltaSE = 4 * (b * b) * (2 * x + 3) + 8 * (a * a) * (1 - y)"
    and "\<And>px py down. (px, py, down) \<in> set ps \<Longrightarrow> plot_fills g s after Qa (px + 1) (if down then py - 1 else py)"
    and "\<And>px py. (px, py, True) \<in> set ps \<Longrightarrow> plot_fills g s before Qb px py"
  shows "\<exists>buffer'. ellipse_region1 before after (a * a) (b * b) d1 deltaE deltaSE x y buffer = Some (Inr (x', y', buffer')) \<and>
    length buffer' = 2048 \<and> fills g buffer s (\<lambda>u v. \<exists>p \<in> set ps. step_paints Qb Qa p u v) (Inr buffer')"
  using assms
proof (induction a b x y arbitrary: ps buffer d1 deltaE deltaSE rule: flat_part.induct)
  case (1 a b x y)
  note d = "1.prems"(4-6)
  have cond: "2 * (a * a) * y - a * a > 2 * (b * b) * (x + 1) \<longleftrightarrow> is_flat a b x y"
    by (simp add: is_flat_def algebra_simps)
  show ?case
  proof (cases "is_flat a b x y")
    case False
    then have "ps = []" "x' = x" "y' = y" using "1.prems"(2) by (subst (asm) flat_part.simps, simp)+
    then show ?thesis using False cond "1.prems"(3) by (subst ellipse_region1.simps) (simp add: fills_nothing)
  next
    case True
    define down where "down = (\<not> d1 < 0)"
    note below = below_step [OF "1.prems"(1) True]
    then have guard: "is_flat a b x y \<and> x < \<bar>a\<bar>" using True by simp
    let ?y = "if down then y - 1 else y"
    have down: "down = (\<not> side a b (2 * (x + 1)) (2 * y - 1) < 0)" by (simp add: down_def d)
    obtain qs where qs: "flat_part a b (x + 1) ?y = (qs, x', y')" "ps = (x, y, down) # qs"
      using "1.prems"(2) guard by (subst (asm) flat_part.simps) (auto simp: Let_def down split: prod.splits)
    have "below_ellipse a b (x + 1) ?y" using below by (simp add: down split: if_splits)
    have after: "plot_fills g s after Qa (x + 1) ?y" using "1.prems"(7) [of x y down] by (simp add: qs(2))
    define draws where "draws = and_then (if down then before x y buffer else Inr buffer) (after (x + 1) ?y)"
    have fills: "fills g buffer s (step_paints Qb Qa (x, y, down)) draws"
    proof (cases down)
      case True
      then have "plot_fills g s before Qb x y" using "1.prems"(8) by (simp add: qs(2))
      then have "fills g buffer s (\<lambda>u v. Qb x y u v \<or> Qa (x + 1) ?y u v) (and_then (before x y buffer) (after (x + 1) ?y))"
        using after "1.prems"(3) by (intro fills_twice) (simp_all add: plot_fills_def)
      from fills_cong [OF this, of "step_paints Qb Qa (x, y, down)"] True show ?thesis by (simp add: draws_def step_paints_def)
    next
      case False
      then have "fills g buffer s (Qa (x + 1) ?y) draws" using after "1.prems"(3) by (simp add: draws_def plot_fills_def)
      from fills_cong [OF this, of "step_paints Qb Qa (x, y, down)"] False show ?thesis by (simp add: step_paints_def)
    qed
    then obtain b1 where b1: "draws = Inr b1" "length b1 = 2048" using fills_buffer "1.prems"(3) by blast
    let ?d1 = "if down then d1 + deltaSE else d1 + deltaE"
    let ?dSE = "if down then deltaSE + (8 * (a * a) + 8 * (b * b)) else deltaSE + 8 * (b * b)"
    have run: "ellipse_region1 before after (a * a) (b * b) d1 deltaE deltaSE x y buffer =
        ellipse_region1 before after (a * a) (b * b) ?d1 (deltaE + 8 * (b * b)) ?dSE (x + 1) ?y b1"
      using b1(1) True cond
      by (subst ellipse_region1.simps) (auto simp: draws_def down_def split: sum.splits)
    have "\<exists>b2. ellipse_region1 before after (a * a) (b * b) ?d1 (deltaE + 8 * (b * b)) ?dSE (x + 1) ?y b1 = Some (Inr (x', y', b2)) \<and>
        length b2 = 2048 \<and> fills g b1 s (\<lambda>u v. \<exists>p \<in> set qs. step_paints Qb Qa p u v) (Inr b2)"
    proof (rule "1.IH" [OF guard down \<open>below_ellipse a b (x + 1) ?y\<close> qs(1) b1(2)])
      show "?d1 = side a b (2 * (x + 1 + 1)) (2 * ?y - 1)" by (simp add: d side_def algebra_simps)
      show "deltaE + 8 * (b * b) = 4 * (b * b) * (2 * (x + 1) + 3)" by (simp add: d algebra_simps)
      show "?dSE = 4 * (b * b) * (2 * (x + 1) + 3) + 8 * (a * a) * (1 - ?y)" by (simp add: d algebra_simps)
    qed (use "1.prems"(7,8) in \<open>auto simp: qs(2)\<close>)
    then obtain b2 where b2: "ellipse_region1 before after (a * a) (b * b) ?d1 (deltaE + 8 * (b * b)) ?dSE (x + 1) ?y b1 = Some (Inr (x', y', b2))"
        "length b2 = 2048" "fills g b1 s (\<lambda>u v. \<exists>p \<in> set qs. step_paints Qb Qa p u v) (Inr b2)" by blast
    from fills_seq [OF fills [unfolded b1(1)] b2(3)]
    have "fills g buffer s (\<lambda>u v. \<exists>p \<in> set ps. step_paints Qb Qa p u v) (Inr b2)" by (rule fills_cong) (simp add: qs(2))
    then show ?thesis using run b2(1,2) by auto
  qed
qed

lemma region2_fills:
  assumes "steep_part a b x y = (ps, z)" and "length buffer = 2048" and "d2 = side a b (2 * x + 1) (2 * (y - 1))"
    and "deltaS = 4 * (a * a) * (- 2 * y + 3)" and "deltaSE = 4 * (b * b) * (2 * x + 2) + 4 * (a * a) * (- 2 * y + 3)"
    and "\<And>px py. (px, py) \<in> set ps \<Longrightarrow> plot_fills g s before Qb px py \<and> plot_fills g s after Qa px (py - 1)"
  shows "\<exists>buffer'. ellipse_region2 before after (a * a) (b * b) d2 deltaS deltaSE x y buffer = Inr (z, buffer') \<and>
    length buffer' = 2048 \<and> fills g buffer s (\<lambda>u v. \<exists>(px, py) \<in> set ps. Qb px py u v \<or> Qa px (py - 1) u v) (Inr buffer')"
  using assms
proof (induction a b x y arbitrary: ps buffer d2 deltaS deltaSE rule: steep_part.induct)
  case (1 a b x y)
  note d = "1.prems"(3-5)
  show ?case
  proof (cases "y > 0")
    case False
    then have "ps = []" "z = x" using "1.prems"(1) by (subst (asm) steep_part.simps, simp)+
    then show ?thesis using False "1.prems"(2) by (subst ellipse_region2.simps) (simp add: fills_nothing)
  next
    case True
    let ?x = "if d2 < 0 then x + 1 else x"
    have x: "?x = (if side a b (2 * x + 1) (2 * (y - 1)) < 0 then x + 1 else x)" by (simp add: d)
    obtain qs where qs: "steep_part a b ?x (y - 1) = (qs, z)" "ps = (?x, y) # qs"
      using "1.prems"(1) True by (subst (asm) steep_part.simps) (auto simp: Let_def x split: prod.splits)
    have plots: "plot_fills g s before Qb ?x y" "plot_fills g s after Qa ?x (y - 1)" using "1.prems"(6) by (auto simp: qs(2))
    have fills: "fills g buffer s (\<lambda>u v. Qb ?x y u v \<or> Qa ?x (y - 1) u v) (and_then (before ?x y buffer) (after ?x (y - 1)))"
      using plots "1.prems"(2) by (intro fills_twice) (simp_all add: plot_fills_def)
    then obtain b1 where b1: "and_then (before ?x y buffer) (after ?x (y - 1)) = Inr b1" "length b1 = 2048"
      using fills_buffer "1.prems"(2) by blast
    let ?d2 = "if d2 < 0 then d2 + deltaSE else d2 + deltaS"
    let ?dSE = "if d2 < 0 then deltaSE + (8 * (a * a) + 8 * (b * b)) else deltaSE + 8 * (a * a)"
    have run: "ellipse_region2 before after (a * a) (b * b) d2 deltaS deltaSE x y buffer =
        and_then (and_then (before ?x y buffer) (after ?x (y - 1)))
          (ellipse_region2 before after (a * a) (b * b) ?d2 (deltaS + 8 * (a * a)) ?dSE ?x (y - 1))"
      using True by (subst ellipse_region2.simps) (simp add: Let_def)
    have "\<exists>b2. ellipse_region2 before after (a * a) (b * b) ?d2 (deltaS + 8 * (a * a)) ?dSE ?x (y - 1) b1 = Inr (z, b2) \<and>
        length b2 = 2048 \<and> fills g b1 s (\<lambda>u v. \<exists>(px, py) \<in> set qs. Qb px py u v \<or> Qa px (py - 1) u v) (Inr b2)"
    proof (rule "1.IH" [OF True x qs(1) b1(2)])
      show "?d2 = side a b (2 * ?x + 1) (2 * (y - 1 - 1))" by (simp add: d side_def algebra_simps)
      show "deltaS + 8 * (a * a) = 4 * (a * a) * (- 2 * (y - 1) + 3)" by (simp add: d algebra_simps)
      show "?dSE = 4 * (b * b) * (2 * ?x + 2) + 4 * (a * a) * (- 2 * (y - 1) + 3)" by (simp add: d algebra_simps)
    qed (use "1.prems"(6) in \<open>auto simp: qs(2)\<close>)
    then obtain b2 where b2: "ellipse_region2 before after (a * a) (b * b) ?d2 (deltaS + 8 * (a * a)) ?dSE ?x (y - 1) b1 = Inr (z, b2)"
        "length b2 = 2048" "fills g b1 s (\<lambda>u v. \<exists>(px, py) \<in> set qs. Qb px py u v \<or> Qa px (py - 1) u v) (Inr b2)" by blast
    from fills_seq [OF fills [unfolded b1(1)] b2(3)]
    have "fills g buffer s (\<lambda>u v. \<exists>(px, py) \<in> set ps. Qb px py u v \<or> Qa px (py - 1) u v) (Inr b2)" by (rule fills_cong) (simp add: qs(2))
    then show ?thesis using run b1(1) b2(1,2) by auto
  qed
qed

section \<open>Ellipses are exact\<close>

text \<open>The points of the outline in one quarter, and the rows of the solid ellipse: half their length and their distance from the centre.\<close>

definition ellipse_points :: "int \<Rightarrow> int \<Rightarrow> (int \<times> int) list" where
  "ellipse_points a b =
     (case flat_part a b 0 b of (ps, x, y) \<Rightarrow>
       (0, b) # map (\<lambda>(x, y, down). (x + 1, if down then y - 1 else y)) ps @ map (\<lambda>(x, y). (x, y - 1)) (fst (steep_part a b x y)))"

definition ellipse_rows :: "int \<Rightarrow> int \<Rightarrow> (int \<times> int) list" where
  "ellipse_rows a b =
     (case flat_part a b 0 b of (ps, x, y) \<Rightarrow>
      case steep_part a b x y of (qs, z) \<Rightarrow>
       map (\<lambda>(x, y, down). (x, y)) (filter (\<lambda>(x, y, down). down) ps) @ qs @ [(z, 0)])"

definition four_points :: "int \<Rightarrow> int \<Rightarrow> int \<Rightarrow> int \<Rightarrow> int \<Rightarrow> int \<Rightarrow> bool" where
  "four_points cX cY x y u v \<longleftrightarrow> (u = cX + x \<or> u = cX - x) \<and> (v = cY + y \<or> v = cY - y)"

definition two_rows :: "int \<Rightarrow> int \<Rightarrow> int \<Rightarrow> int \<Rightarrow> int \<Rightarrow> int \<Rightarrow> bool" where
  "two_rows cX cY x y u v \<longleftrightarrow> (v = cY + y \<or> v = cY - y) \<and> cX - x \<le> u \<and> u < cX + x"

definition on_ellipse :: "int \<Rightarrow> int \<Rightarrow> int \<Rightarrow> int \<Rightarrow> int \<Rightarrow> int \<Rightarrow> bool" where
  "on_ellipse cX cY a b u v \<longleftrightarrow> (\<exists>(x, y) \<in> set (ellipse_points a b). four_points cX cY x y u v)"

definition in_ellipse :: "int \<Rightarrow> int \<Rightarrow> int \<Rightarrow> int \<Rightarrow> int \<Rightarrow> int \<Rightarrow> bool" where
  "in_ellipse cX cY a b u v \<longleftrightarrow> (\<exists>(x, y) \<in> set (ellipse_rows a b). two_rows cX cY x y u v)"

lemma ellipse_in_box:
  assumes "0 \<le> b"
  shows "\<forall>(x, y) \<in> set (ellipse_points a b). 0 \<le> x \<and> x \<le> \<bar>a\<bar> \<and> 0 \<le> y \<and> y \<le> b"
    and "\<forall>(x, y) \<in> set (ellipse_rows a b). 0 \<le> x \<and> x \<le> \<bar>a\<bar> \<and> 0 \<le> y \<and> y \<le> b"
proof -
  obtain ps x y where flat: "flat_part a b 0 b = (ps, x, y)" by (metis prod_cases3)
  obtain qs z where steep: "steep_part a b x y = (qs, z)" by fastforce
  note fb = flat_bounds [OF below_start assms flat]
  then have "0 \<le> x" "x \<le> \<bar>a\<bar>" "0 \<le> y" "y \<le> b" by simp_all
  note sb = steep_bounds [OF this(1,2) steep]
  show "\<forall>(x, y) \<in> set (ellipse_points a b). 0 \<le> x \<and> x \<le> \<bar>a\<bar> \<and> 0 \<le> y \<and> y \<le> b"
    using fb sb assms \<open>y \<le> b\<close> by (fastforce simp: ellipse_points_def flat steep)
  show "\<forall>(x, y) \<in> set (ellipse_rows a b). 0 \<le> x \<and> x \<le> \<bar>a\<bar> \<and> 0 \<le> y \<and> y \<le> b"
    using fb sb assms \<open>y \<le> b\<close> by (fastforce simp: ellipse_rows_def flat steep)
qed

lemma draw_ellipse_fills:
  assumes "flat_part a b 0 b = (ps, x, y)" and "steep_part a b x y = (qs, z)" and "length buffer = 2048"
    and "\<And>px py down. (px, py, down) \<in> set ps \<Longrightarrow> plot_fills g s after Qa (px + 1) (if down then py - 1 else py)"
    and "\<And>px py. (px, py, True) \<in> set ps \<Longrightarrow> plot_fills g s before Qb px py"
    and "\<And>px py. (px, py) \<in> set qs \<Longrightarrow> plot_fills g s before Qb px py \<and> plot_fills g s after Qa px (py - 1)"
  shows "\<exists>buffer'. draw_ellipse before after a b buffer = Some (Inr (z, buffer')) \<and> length buffer' = 2048 \<and>
    fills g buffer s (\<lambda>u v. (\<exists>p \<in> set ps. step_paints Qb Qa p u v) \<or> (\<exists>(px, py) \<in> set qs. Qb px py u v \<or> Qa px (py - 1) u v)) (Inr buffer')"
proof -
  have "\<exists>b1. ellipse_region1 before after (a * a) (b * b) (4 * (b * b) - 4 * (a * a) * b + a * a) (12 * (b * b))
      (12 * (b * b) - 8 * (a * a) * b + 8 * (a * a)) 0 b buffer = Some (Inr (x, y, b1)) \<and>
    length b1 = 2048 \<and> fills g buffer s (\<lambda>u v. \<exists>p \<in> set ps. step_paints Qb Qa p u v) (Inr b1)"
    by (rule region1_fills [OF below_start assms(1,3)]) (use assms(4,5) in \<open>auto simp: side_def algebra_simps\<close>)
  then obtain b1 where b1: "ellipse_region1 before after (a * a) (b * b) (4 * (b * b) - 4 * (a * a) * b + a * a) (12 * (b * b))
      (12 * (b * b) - 8 * (a * a) * b + 8 * (a * a)) 0 b buffer = Some (Inr (x, y, b1))"
      "length b1 = 2048" "fills g buffer s (\<lambda>u v. \<exists>p \<in> set ps. step_paints Qb Qa p u v) (Inr b1)" by blast
  have "\<exists>b2. ellipse_region2 before after (a * a) (b * b)
      (4 * (b * b) * (x * x + x) + b * b + 4 * (a * a) * (y - 1) * (y - 1) - 4 * (a * a) * (b * b))
      (4 * (a * a) * (- 2 * y + 3)) (4 * (b * b) * (2 * x + 2) + 4 * (a * a) * (- 2 * y + 3)) x y b1 = Inr (z, b2) \<and>
    length b2 = 2048 \<and> fills g b1 s (\<lambda>u v. \<exists>(px, py) \<in> set qs. Qb px py u v \<or> Qa px (py - 1) u v) (Inr b2)"
    by (rule region2_fills [OF assms(2) b1(2)]) (use assms(6) in \<open>auto simp: side_def algebra_simps\<close>)
  then obtain b2 where b2: "ellipse_region2 before after (a * a) (b * b)
      (4 * (b * b) * (x * x + x) + b * b + 4 * (a * a) * (y - 1) * (y - 1) - 4 * (a * a) * (b * b))
      (4 * (a * a) * (- 2 * y + 3)) (4 * (b * b) * (2 * x + 2) + 4 * (a * a) * (- 2 * y + 3)) x y b1 = Inr (z, b2)"
      "length b2 = 2048" "fills g b1 s (\<lambda>u v. \<exists>(px, py) \<in> set qs. Qb px py u v \<or> Qa px (py - 1) u v) (Inr b2)" by blast
  have "draw_ellipse before after a b buffer = Some (Inr (z, b2))"
    unfolding draw_ellipse_def Let_def b1(1) using b2(1) by simp
  then show ?thesis using b2(2) fills_seq [OF b1(3) b2(3)] by blast
qed

lemma outline_fills:
  assumes "length buffer = 2048" and "\<And>x y. (x, y) \<in> set (ellipse_points a b) \<Longrightarrow> plot_fills g s plot4 (four_points cX cY) x y"
  shows "\<exists>r. ellipse_outline plot4 a b buffer = Some r \<and> fills g buffer s (on_ellipse cX cY a b) r"
proof -
  obtain ps x y where flat: "flat_part a b 0 b = (ps, x, y)" by (metis prod_cases3)
  obtain qs z where steep: "steep_part a b x y = (qs, z)" by fastforce
  have points: "set (ellipse_points a b) = insert (0, b) ((\<lambda>(x, y, down). (x + 1, if down then y - 1 else y)) ` set ps \<union> (\<lambda>(x, y). (x, y - 1)) ` set qs)"
    by (simp add: ellipse_points_def flat steep)
  have a1: "(px + 1, if down then py - 1 else py) \<in> set (ellipse_points a b)" if "(px, py, down) \<in> set ps" for px py down
    unfolding points by (intro insertI2 UnI1 image_eqI [OF _ that]) simp
  have a2: "(px, py - 1) \<in> set (ellipse_points a b)" if "(px, py) \<in> set qs" for px py
    unfolding points by (intro insertI2 UnI2 image_eqI [OF _ that]) simp
  have first: "fills g buffer s (four_points cX cY 0 b) (plot4 0 b buffer)"
    using assms(2) [of 0 b] assms(1) by (simp add: points plot_fills_def)
  then obtain b1 where b1: "plot4 0 b buffer = Inr b1" "length b1 = 2048" using fills_buffer assms(1) by blast
  have "\<exists>b2. draw_ellipse no_plot plot4 a b b1 = Some (Inr (z, b2)) \<and> length b2 = 2048 \<and>
    fills g b1 s (\<lambda>u v. (\<exists>p \<in> set ps. step_paints (\<lambda>x y u v. False) (four_points cX cY) p u v) \<or>
      (\<exists>(px, py) \<in> set qs. False \<or> four_points cX cY px (py - 1) u v)) (Inr b2)"
    by (rule draw_ellipse_fills [OF flat steep b1(2)]) (blast intro: assms(2) a1 a2 no_plot_fills)+
  then obtain b2 where b2: "draw_ellipse no_plot plot4 a b b1 = Some (Inr (z, b2))"
      "fills g b1 s (\<lambda>u v. (\<exists>p \<in> set ps. step_paints (\<lambda>x y u v. False) (four_points cX cY) p u v) \<or>
      (\<exists>(px, py) \<in> set qs. False \<or> four_points cX cY px (py - 1) u v)) (Inr b2)" by blast
  from fills_seq [OF first [unfolded b1(1)] b2(2)] have "fills g buffer s (on_ellipse cX cY a b) (Inr b2)"
    by (rule fills_cong) (simp add: on_ellipse_def points step_paints_def bex_Un case_prod_beta)
  then show ?thesis using b1(1) b2(1) by (simp add: ellipse_outline_def)
qed

lemma solid_fills:
  assumes "length buffer = 2048" and "\<And>x y. (x, y) \<in> set (ellipse_rows a b) \<Longrightarrow> plot_fills g s rows (two_rows cX cY) x y"
    and "\<And>x b'. (x, 0) \<in> set (ellipse_rows a b) \<Longrightarrow> length b' = 2048 \<Longrightarrow> fills g b' s (two_rows cX cY x 0) (row x b')"
  shows "\<exists>r. map_option (\<lambda>r. and_then r (\<lambda>(x, b). row x b)) (draw_ellipse rows no_plot a b buffer) = Some r \<and>
    fills g buffer s (in_ellipse cX cY a b) r"
proof -
  obtain ps x y where flat: "flat_part a b 0 b = (ps, x, y)" by (metis prod_cases3)
  obtain qs z where steep: "steep_part a b x y = (qs, z)" by fastforce
  have points: "set (ellipse_rows a b) = insert (z, 0) ((\<lambda>(x, y, down). (x, y)) ` {p \<in> set ps. snd (snd p)} \<union> set qs)"
    by (auto simp: ellipse_rows_def flat steep image_iff case_prod_beta)
  have a1: "(px, py) \<in> set (ellipse_rows a b)" if "(px, py, True) \<in> set ps" for px py
    unfolding points by (intro insertI2 UnI1 image_eqI [of _ _ "(px, py, True)"]) (simp_all add: that)
  have a2: "(px, py) \<in> set (ellipse_rows a b)" if "(px, py) \<in> set qs" for px py
    unfolding points using that by simp
  have "\<exists>b1. draw_ellipse rows no_plot a b buffer = Some (Inr (z, b1)) \<and> length b1 = 2048 \<and>
    fills g buffer s (\<lambda>u v. (\<exists>p \<in> set ps. step_paints (two_rows cX cY) (\<lambda>x y u v. False) p u v) \<or>
      (\<exists>(px, py) \<in> set qs. two_rows cX cY px py u v \<or> False)) (Inr b1)"
    by (rule draw_ellipse_fills [OF flat steep assms(1)]) (blast intro: assms(2) a1 a2 no_plot_fills)+
  then obtain b1 where b1: "draw_ellipse rows no_plot a b buffer = Some (Inr (z, b1))" "length b1 = 2048"
      "fills g buffer s (\<lambda>u v. (\<exists>p \<in> set ps. step_paints (two_rows cX cY) (\<lambda>x y u v. False) p u v) \<or>
      (\<exists>(px, py) \<in> set qs. two_rows cX cY px py u v \<or> False)) (Inr b1)" by blast
  have "fills g b1 s (two_rows cX cY z 0) (row z b1)" using assms(3) b1(2) by (simp add: points)
  from fills_seq [OF b1(3) this] have "fills g buffer s (in_ellipse cX cY a b) (row z b1)"
  proof (rule fills_cong)
    fix u v
    let ?Q = "\<lambda>p. two_rows cX cY (fst p) (snd p) u v"
    have "(\<exists>p \<in> set ps. step_paints (two_rows cX cY) (\<lambda>x y u v. False) p u v) \<longleftrightarrow>
        (\<exists>p \<in> {p \<in> set ps. snd (snd p)}. ?Q (fst p, fst (snd p)))"
      by (simp add: step_paints_def case_prod_beta Bex_def conj_ac)
    also have "\<dots> \<longleftrightarrow> (\<exists>p \<in> (\<lambda>p. (fst p, fst (snd p))) ` {p \<in> set ps. snd (snd p)}. ?Q p)" unfolding bex_simps(7) ..
    finally show "((\<exists>p \<in> set ps. step_paints (two_rows cX cY) (\<lambda>x y u v. False) p u v) \<or>
        (\<exists>(px, py) \<in> set qs. two_rows cX cY px py u v \<or> False)) \<or> two_rows cX cY z 0 u v \<longleftrightarrow> in_ellipse cX cY a b u v"
      unfolding in_ellipse_def points case_prod_beta bex_simps bex_Un simp_thms fst_conv snd_conv by argo
  qed
  then show ?thesis using b1(1) by simp
qed

lemma fills_pair:
  assumes "\<And>b. length b = 2048 \<Longrightarrow> fills g b s P (f b)" and "\<And>b. length b = 2048 \<Longrightarrow> fills g b s Q (h b)" and "length b = 2048"
  shows "fills g b s (\<lambda>u v. P u v \<or> Q u v) (and_then (f b) h)"
  by (rule fills_twice) (use assms in auto)

lemma four_fill:
  assumes "\<And>b x y. length b = 2048 \<Longrightarrow> (x = cX + px \<or> x = cX - px) \<Longrightarrow> (y = cY + py \<or> y = cY - py) \<Longrightarrow>
      fills g b s (\<lambda>u v. u = x \<and> v = y) (point b x y)"
  shows "plot_fills g s (\<lambda>x y b. and_then (point b (cX + x) (cY + y)) (\<lambda>b. and_then (point b (cX + x) (cY - y)) (\<lambda>b.
    and_then (point b (cX - x) (cY + y)) (\<lambda>b. point b (cX - x) (cY - y))))) (four_points cX cY) px py"
  unfolding plot_fills_def
proof (intro allI impI)
  fix b :: "byte list" assume b: "length b = 2048"
  have "fills g b s (\<lambda>u v. u = cX + px \<and> v = cY + py \<or> u = cX + px \<and> v = cY - py \<or> u = cX - px \<and> v = cY + py \<or> u = cX - px \<and> v = cY - py)
      (and_then (point b (cX + px) (cY + py)) (\<lambda>b. and_then (point b (cX + px) (cY - py)) (\<lambda>b.
      and_then (point b (cX - px) (cY + py)) (\<lambda>b. point b (cX - px) (cY - py)))))"
    by (rule fills_pair [OF assms fills_pair [OF assms fills_pair [OF assms assms]] b]) simp_all
  then show "fills g b s (four_points cX cY px py) (and_then (point b (cX + px) (cY + py)) (\<lambda>b. and_then (point b (cX + px) (cY - py)) (\<lambda>b.
      and_then (point b (cX - px) (cY + py)) (\<lambda>b. point b (cX - px) (cY - py)))))"
    by (rule fills_cong) (auto simp: four_points_def)
qed

lemma rows_fill:
  assumes "\<And>b y. length b = 2048 \<Longrightarrow> (y = cY + py \<or> y = cY - py) \<Longrightarrow>
      fills g b s (\<lambda>u v. v = y \<and> cX - px \<le> u \<and> u < cX + px) (row b y (cX - px) px)"
  shows "plot_fills g s (\<lambda>x y b. and_then (row b (cY + y) (cX - x) x) (\<lambda>b. row b (cY - y) (cX - x) x)) (two_rows cX cY) px py"
  unfolding plot_fills_def
proof (intro allI impI)
  fix b :: "byte list" assume b: "length b = 2048"
  have "fills g b s (\<lambda>u v. (v = cY + py \<and> cX - px \<le> u \<and> u < cX + px) \<or> (v = cY - py \<and> cX - px \<le> u \<and> u < cX + px))
      (and_then (row b (cY + py) (cX - px) px) (\<lambda>b. row b (cY - py) (cX - px) px))"
    by (rule fills_pair [OF assms assms b]) auto
  then show "fills g b s (two_rows cX cY px py) (and_then (row b (cY + py) (cX - px) px) (\<lambda>b. row b (cY - py) (cX - px) px))"
    by (rule fills_cong) (auto simp: two_rows_def)
qed

lemma unclipped_point_fills:
  assumes "clip_ok g" and "length b = 2048" and "shade_ok s" and "in_clip g x y"
  shows "fills g b s (\<lambda>u v. u = x \<and> v = y) (drawPointUnclipped b x y s)"
  using point_fills [OF assms(1-3), of x y] assms(4) by (simp add: drawPointClipped_def in_clip_def)

lemma unclipped_row_fills:
  assumes "clip_ok g" and "length b = 2048" and "shade_ok s" and "\<And>u. x \<le> u \<Longrightarrow> u < x + len \<Longrightarrow> in_clip g u y"
  shows "fills g b s (\<lambda>u v. v = y \<and> x \<le> u \<and> u < x + len) (drawLineHorizUnclipped b y x len s)"
  unfolding horizontal_points [OF assms(3)] by (intro fills_points [OF assms(1-3)]) (use assms(4) in auto)

lemma outline_clipped:
  assumes "clip_ok g" and "length buffer = 2048" and "shade_ok s" and "0 \<le> a" and "0 \<le> b"
  shows "\<exists>r. drawOutlineEllipseClipped g buffer cX cY a b s = Some r \<and> fills g buffer s (on_ellipse cX cY a b) r"
proof (cases "within_clip g cX cY a b")
  case True
  have "plot_fills g s (drawPixel4WaySymmetricUnclipped cX cY s) (four_points cX cY) x y" if "(x, y) \<in> set (ellipse_points a b)" for x y
  proof -
    have "0 \<le> x" "x \<le> a" "0 \<le> y" "y \<le> b" using ellipse_in_box(1) [OF assms(5), of a] that assms(4) by auto
    then have "in_clip g u v" if "u = cX + x \<or> u = cX - x" "v = cY + y \<or> v = cY - y" for u v
      using that True by (auto simp: within_clip_def in_clip_def)
    then show ?thesis
      unfolding drawPixel4WaySymmetricUnclipped_def [abs_def] using assms by (intro four_fill unclipped_point_fills) auto
  qed
  from outline_fills [OF assms(2) this] show ?thesis
    using True by (simp add: drawOutlineEllipseClipped_def drawOutlineEllipseUnclipped_def)
next
  case False
  have "plot_fills g s (drawPixel4WaySymmetricClipped g cX cY s) (four_points cX cY) x y" for x y
    unfolding drawPixel4WaySymmetricClipped_def [abs_def] using assms by (intro four_fill point_fills)
  from outline_fills [OF assms(2) this] show ?thesis using False by (simp add: drawOutlineEllipseClipped_def)
qed

lemma solid_clipped:
  assumes "clip_ok g" and "length buffer = 2048" and "shade_ok s" and "0 \<le> a" and "0 \<le> b"
  shows "\<exists>r. drawSolidEllipseClipped g buffer cX cY a b s = Some r \<and> fills g buffer s (in_ellipse cX cY a b) r"
proof (cases "within_clip g cX cY a b")
  case True
  have rows: "fills g b' s (\<lambda>u v. v = w \<and> cX - x \<le> u \<and> u < cX + x) (drawLineHorizUnclipped b' w (cX - x) (2 * x) s)"
    if "(x, y) \<in> set (ellipse_rows a b)" "length b' = 2048" "w = cY + y \<or> w = cY - y" for x y w b'
  proof -
    have "0 \<le> x" "x \<le> a" "0 \<le> y" "y \<le> b" using ellipse_in_box(2) [OF assms(5), of a] that(1) assms(4) by auto
    then have "in_clip g u w" if "cX - x \<le> u" "u < cX - x + 2 * x" for u
      using that \<open>w = cY + y \<or> w = cY - y\<close> True by (auto simp: within_clip_def in_clip_def)
    from unclipped_row_fills [OF assms(1) that(2) assms(3) this] show ?thesis by (rule fills_cong) auto
  qed
  have "plot_fills g s (rows_unclipped cX cY s) (two_rows cX cY) x y" if "(x, y) \<in> set (ellipse_rows a b)" for x y
    unfolding rows_unclipped_def [abs_def] by (rule rows_fill [where row = "\<lambda>b y x0 px. drawLineHorizUnclipped b y x0 (2 * px) s"]) (use rows that in auto)
  moreover have "fills g b' s (two_rows cX cY x 0) (drawLineHorizUnclipped b' cY (cX - x) (2 * x) s)"
    if "(x, 0) \<in> set (ellipse_rows a b)" "length b' = 2048" for x b'
  proof -
    have "fills g b' s (\<lambda>u v. v = cY \<and> cX - x \<le> u \<and> u < cX + x) (drawLineHorizUnclipped b' cY (cX - x) (2 * x) s)"
      by (rule rows [OF that]) simp
    then show ?thesis by (rule fills_cong) (auto simp: two_rows_def)
  qed
  ultimately show ?thesis
    using solid_fills [OF assms(2), of a b g s "rows_unclipped cX cY s" cX cY "\<lambda>x b. drawLineHorizUnclipped b cY (cX - x) (2 * x) s"] True
    by (simp add: drawSolidEllipseClipped_def drawSolidEllipseUnclipped_def)
next
  case False
  have row: "fills g b' s (\<lambda>u v. v = w \<and> cX - x \<le> u \<and> u < cX + x) (drawLineHorizClipped g b' w (cX - x) (cX + x) s)"
    if "length b' = 2048" for x w b'
    by (rule horizontal_fills [OF assms(1) that assms(3)])
  have "plot_fills g s (rows_clipped g cX cY s) (two_rows cX cY) x y" for x y
    unfolding rows_clipped_def [abs_def] by (rule rows_fill [where row = "\<lambda>b y x0 px. drawLineHorizClipped g b y x0 (cX + px) s"]) (rule row)
  moreover have "fills g b' s (two_rows cX cY x 0) (drawLineHorizClipped g b' cY (cX - x) (cX + x) s)" if "length b' = 2048" for x b'
    using row [OF that, of cY x] by (rule fills_cong) (auto simp: two_rows_def)
  ultimately show ?thesis
    using solid_fills [OF assms(2), of a b g s "rows_clipped g cX cY s" cX cY "\<lambda>x b. drawLineHorizClipped g b cY (cX - x) (cX + x) s"] False
    by (simp add: drawSolidEllipseClipped_def)
qed



text \<open>A small ellipse, all around: \<open>a = 5\<close>, \<open>b = 3\<close>.\<close>

lemma small_ellipse:
  "ellipse_points 5 3 = [(0, 3), (1, 3), (2, 3), (3, 2), (4, 2), (5, 1), (5, 0)]"
  "ellipse_rows 5 3 = [(2, 3), (5, 2), (5, 1), (5, 0)]"
  by code_simp+

end
