(* ===== verification/Vfd_Polygons.thy ===== *)
theory Vfd_Polygons
  imports Vfd_Ellipses "HOL-Library.Multiset"
begin

text \<open>
  Solid polygons on the display of the empeg: the scan conversion of \<open>vfdlib_drawSolidPolygon()\<close> in
  \<open>src/empeg/vfdlib.c\<close>, with its table of edges and its list of active edges, which is kept sorted by a
  bubble sort.  The linked lists are lists here; every entry is in one of them at a time.
\<close>

section \<open>The edge table\<close>

record edge =
  e_ymax :: int
  e_x :: int
  e_num :: int
  e_den :: int
  e_inc :: int

type_synonym side_line = "(int \<times> int) \<times> (int \<times> int)"

text \<open>The sides of a polygon, from the one that ends in the first corner on.\<close>

fun sides :: "int \<times> int \<Rightarrow> (int \<times> int) list \<Rightarrow> side_line list" where
  "sides prev [] = []"
| "sides prev (c # cs) = (prev, c) # sides c cs"

text \<open>A new entry, with the row it belongs to.\<close>

definition new_edge :: "clip_area \<Rightarrow> int \<Rightarrow> int \<Rightarrow> int \<Rightarrow> int \<Rightarrow> int \<times> edge" where
  "new_edge g x0 y0 x1 y1 =
     (let num = x1 - x0; den = y1 - y0 in
      if y0 < clipYTop g
      then
        (let ty = clipYTop g - y0 in
         (clipYTop g,
          if num < 0
          then \<lparr>e_ymax = y1, e_x = x0 - (ty * - num) div den, e_num = num, e_den = den, e_inc = (ty * - num) mod den\<rparr>
          else \<lparr>e_ymax = y1, e_x = x0 + (ty * num) div den, e_num = num, e_den = den, e_inc = (ty * num) mod den\<rparr>))
      else (y0, \<lparr>e_ymax = y1, e_x = x0, e_num = num, e_den = den, e_inc = 0\<rparr>))"

definition add_edge :: "clip_area \<Rightarrow> side_line \<Rightarrow> edge list list \<times> int \<times> int \<Rightarrow> (edge list list \<times> int \<times> int) result" where
  "add_edge g s st =
     (case s of ((x0, y0), (x1, y1)) \<Rightarrow> case st of (table, polyMinY, polyMaxY) \<Rightarrow>
      if y0 = y1 then Inr st
      else
        (let (x0, y0, x1, y1) = (if y0 > y1 then (x1, y1, x0, y0) else (x0, y0, x1, y1)) in
         if y1 < clipYTop g \<or> y0 \<ge> clipYBottom g then Inr st
         else
           (let (row, e) = new_edge g x0 y0 x1 y1 in
            map_result (\<lambda>table. (table, if row < polyMinY then row else polyMinY, if y1 > polyMaxY then y1 else polyMaxY))
              (modify_at table row ((#) e)))))"

section \<open>The active edges\<close>

fun insert_edge :: "edge \<Rightarrow> edge list \<Rightarrow> edge list" where
  "insert_edge e [] = [e]"
| "insert_edge e (c # cs) = (if e_x c < e_x e then c # insert_edge e cs else e # c # cs)"

fun draw_spans :: "clip_area \<Rightarrow> int \<Rightarrow> byte \<Rightarrow> edge list \<Rightarrow> byte list \<Rightarrow> byte list result" where
  "draw_spans g y shade (c # n # es) buffer =
     (let tx = (if e_x c > clipXLeft g then e_x c else clipXLeft g) in
      and_then (drawLineHorizUnclipped buffer y tx ((if e_x n < clipXRight g - 1 then e_x n else clipXRight g - 1) - tx + 1) shade)
        (draw_spans g y shade es))"
| "draw_spans g y shade _ buffer = Inr buffer"

definition advance :: "edge \<Rightarrow> edge" where
  "advance e =
     (if e_num e = 0 then e
      else if e_num e > 0
      then
        (let inc = e_inc e + e_num e in
         if e_num e < e_den e
         then if inc \<ge> e_den e then e\<lparr>e_x := e_x e + 1, e_inc := inc - e_den e\<rparr> else e\<lparr>e_inc := inc\<rparr>
         else (let tx = inc div e_den e in e\<lparr>e_x := e_x e + tx, e_inc := inc - e_den e * tx\<rparr>))
      else
        (let inc = e_inc e - e_num e in
         if - e_num e < e_den e
         then if inc \<ge> e_den e then e\<lparr>e_x := e_x e - 1, e_inc := inc - e_den e\<rparr> else e\<lparr>e_inc := inc\<rparr>
         else (let tx = inc div e_den e in e\<lparr>e_x := e_x e - tx, e_inc := inc - e_den e * tx\<rparr>)))"

text \<open>A pass of the bubble sort, and whether it found the list sorted.\<close>

fun bubble :: "edge list \<Rightarrow> edge list" where
  "bubble (c # n # es) = (if e_x c > e_x n then n # bubble (c # es) else c # bubble (n # es))"
| "bubble es = es"

fun in_order :: "edge list \<Rightarrow> bool" where
  "in_order (c # n # es) \<longleftrightarrow> \<not> e_x c > e_x n \<and> in_order (n # es)"
| "in_order es \<longleftrightarrow> True"

text \<open>Pairs in the wrong order.\<close>

fun inversions :: "edge list \<Rightarrow> nat" where
  "inversions [] = 0"
| "inversions (e # es) = length (filter (\<lambda>d. e_x d < e_x e) es) + inversions es"

lemma bubble_mset [simp]: "mset (bubble es) = mset es"
  by (induction es rule: bubble.induct) auto

lemma smaller_count: "length (filter P (bubble es)) = length (filter P es)"
  by (metis bubble_mset mset_filter size_mset)

lemma bubble_inversions: "inversions (bubble es) \<le> inversions es \<and> (\<not> in_order es \<longrightarrow> inversions (bubble es) < inversions es)"
proof (induction es rule: bubble.induct)
  case (1 c n es)
  show ?case
  proof (cases "e_x c > e_x n")
    case True
    have "inversions (n # bubble (c # es)) = length (filter (\<lambda>d. e_x d < e_x n) (c # es)) + inversions (bubble (c # es))"
      by (simp only: inversions.simps smaller_count)
    then show ?thesis using True 1(1) by simp
  next
    case False
    have "inversions (c # bubble (n # es)) = length (filter (\<lambda>d. e_x d < e_x c) (n # es)) + inversions (bubble (n # es))"
      by (simp only: inversions.simps smaller_count)
    then show ?thesis using False 1(2) by auto
  qed
qed simp_all

text \<open>The last pass is the one that finds the list sorted.\<close>

function bubble_sort :: "edge list \<Rightarrow> edge list" where
  "bubble_sort es = (if in_order es then bubble es else bubble_sort (bubble es))"
  by pat_completeness auto
termination by (relation "measure inversions") (auto simp: bubble_inversions)

declare bubble_sort.simps [simp del]

definition scan_row :: "clip_area \<Rightarrow> edge list list \<Rightarrow> byte \<Rightarrow> int \<Rightarrow> edge list \<times> byte list \<Rightarrow> (edge list \<times> byte list) result" where
  "scan_row g table shade y st =
     (case st of (active, buffer) \<Rightarrow>
      and_then (read_at table y) (\<lambda>new.
      let active = filter (\<lambda>e. e_ymax e \<noteq> y) (fold insert_edge new active) in
      map_result (\<lambda>buffer. (bubble_sort (map advance active), buffer)) (draw_spans g y shade active buffer)))"

text \<open>The last corner is read before the number of corners is looked at.\<close>

definition drawSolidPolygon :: "clip_area \<Rightarrow> byte list \<Rightarrow> (int \<times> int) list \<Rightarrow> byte \<Rightarrow> byte list result" where
  "drawSolidPolygon g buffer coords shade =
     (if coords = [] then Inl Out_Of_Bounds
      else if length coords < 3 then Inr buffer
      else
        and_then (fold_result (add_edge g) (sides (List.last coords) coords) (replicate 32 [], clipYBottom g, clipYTop g))
          (\<lambda>(table, polyMinY, polyMaxY).
            let polyMaxY = (if polyMaxY > clipYBottom g - 1 then clipYBottom g - 1 else polyMaxY) in
            map_result snd (fold_result (scan_row g table shade) [polyMinY..polyMaxY] ([], buffer))))"

section \<open>Sorting\<close>

lemma in_order_sorted: "in_order es \<longleftrightarrow> sorted (map e_x es)"
  by (induction es rule: in_order.induct) (auto simp: not_less, force)

lemma bubble_in_order: "in_order es \<Longrightarrow> bubble es = es"
  by (induction es rule: bubble.induct) auto

lemma bubble_sort_sorts: "sorted (map e_x (bubble_sort es)) \<and> mset (bubble_sort es) = mset es"
proof (induction es rule: bubble_sort.induct)
  case (1 es)
  then show ?case by (subst (1 2) bubble_sort.simps) (auto simp: bubble_in_order in_order_sorted)
qed

lemma insert_edge_mset [simp]: "mset (insert_edge e es) = add_mset e (mset es)"
  by (induction es) auto

lemma insert_edge_set [simp]: "set (insert_edge e es) = insert e (set es)"
  by (induction es) auto

lemma insert_edge_sorted: "sorted (map e_x es) \<Longrightarrow> sorted (map e_x (insert_edge e es))"
  by (induction es) (auto simp: not_less intro: order_trans)

lemma insert_all:
  "sorted (map e_x es) \<Longrightarrow> sorted (map e_x (fold insert_edge new es)) \<and> mset (fold insert_edge new es) = mset new + mset es"
  by (induction new arbitrary: es) (simp_all add: insert_edge_sorted)

section \<open>Sides and their entries\<close>

text \<open>A side with its upper end first; the rows in which it is crossed, from the upper end to above the lower one.\<close>

definition upright :: "side_line \<Rightarrow> side_line" where
  "upright s = (if snd (fst s) > snd (snd s) then (snd s, fst s) else s)"

abbreviation "top_x s \<equiv> fst (fst (upright s))"
abbreviation "top_y s \<equiv> snd (fst (upright s))"
abbreviation "bottom_x s \<equiv> fst (snd (upright s))"
abbreviation "bottom_y s \<equiv> snd (snd (upright s))"

definition crosses :: "int \<Rightarrow> side_line \<Rightarrow> bool" where
  "crosses v s \<longleftrightarrow> top_y s \<le> v \<and> v < bottom_y s"

definition run_of :: "int \<Rightarrow> side_line \<Rightarrow> int" where
  "run_of v s = (v - top_y s) * \<bar>bottom_x s - top_x s\<bar>"

text \<open>Where a side is in a row: the exact position, rounded towards the upper end.\<close>

definition cross :: "int \<Rightarrow> side_line \<Rightarrow> int" where
  "cross v s =
     (if bottom_x s < top_x s then top_x s - run_of v s div (bottom_y s - top_y s)
      else top_x s + run_of v s div (bottom_y s - top_y s))"

definition entry :: "int \<Rightarrow> side_line \<Rightarrow> edge" where
  "entry v s = \<lparr>e_ymax = bottom_y s, e_x = cross v s, e_num = bottom_x s - top_x s, e_den = bottom_y s - top_y s,
     e_inc = run_of v s mod (bottom_y s - top_y s)\<rparr>"

definition first_row :: "clip_area \<Rightarrow> side_line \<Rightarrow> int" where
  "first_row g s = max (top_y s) (clipYTop g)"

definition in_table :: "clip_area \<Rightarrow> side_line \<Rightarrow> bool" where
  "in_table g s \<longleftrightarrow> top_y s \<noteq> bottom_y s \<and> clipYTop g \<le> bottom_y s \<and> top_y s < clipYBottom g"

lemma upright_order: "top_y s \<le> bottom_y s"
  by (simp add: upright_def)

lemma new_edge_entry:
  "new_edge g (top_x s) (top_y s) (bottom_x s) (bottom_y s) = (first_row g s, entry (first_row g s) s)"
  by (auto simp: new_edge_def entry_def first_row_def cross_def run_of_def Let_def max_def)

lemma carry:
  assumes "0 \<le> r" and "r < D" and "0 \<le> n" and "n < (D :: int)"
  shows "(r + n) div D = (if r + n \<ge> D then 1 else 0) \<and> (r + n) mod D = (if r + n \<ge> D then r + n - D else r + n)"
proof (cases "r + n \<ge> D")
  case True
  have "(r + n) div D = 1" "(r + n) mod D = r + n - D"
    by (rule int_div_pos_eq [of _ _ _ "r + n - D"], use assms True in linarith, use assms True in linarith, use assms in linarith)
      (rule int_mod_pos_eq [of _ _ 1], use assms True in linarith, use assms True in linarith, use assms in linarith)
  then show ?thesis using True by simp
qed (use assms in simp)

lemma advance_entry:
  assumes "top_y s < bottom_y s" and "top_y s \<le> v"
  shows "advance (entry v s) = entry (v + 1) s"
proof -
  define D where "D = bottom_y s - top_y s"
  define n where "n = \<bar>bottom_x s - top_x s\<bar>"
  define k where "k = run_of v s"
  have D: "0 < D" using assms(1) by (simp add: D_def)
  have n0: "0 \<le> n" by (simp add: n_def)
  have next_run: "run_of (v + 1) s = k + n" by (simp add: run_of_def k_def n_def algebra_simps)
  have m: "0 \<le> k mod D" "k mod D < D" using D by simp_all
  have "k + n = D * (k div D) + (k mod D + n)" by (simp add: algebra_simps)
  then have "(k + n) div D = (D * (k div D) + (k mod D + n)) div D" by simp
  also have "\<dots> = k div D + (k mod D + n) div D" using D by (subst div_mult_self4) simp_all
  finally have split: "(k + n) div D = k div D + (k mod D + n) div D" "(k + n) mod D = (k mod D + n) mod D"
    by (simp_all only: mod_add_left_eq)
  have steep: "(k mod D + n) div D = (if k mod D + n \<ge> D then 1 else 0)"
    "(k mod D + n) mod D = (if k mod D + n \<ge> D then k mod D + n - D else k mod D + n)"
    if "n < D"
    using carry [OF m n0 that] by auto
  have flat: "(k mod D + n) mod D = k mod D + n - D * ((k mod D + n) div D)" by (simp add: minus_mult_div_eq_mod)
  note e = entry_def cross_def next_run k_def [symmetric] D_def [symmetric]
  consider "bottom_x s = top_x s" | "bottom_x s > top_x s" "n = bottom_x s - top_x s" | "bottom_x s < top_x s" "n = - (bottom_x s - top_x s)"
    unfolding n_def by linarith
  then show ?thesis
  proof cases
    case 1
    then have "n = 0" by (simp add: n_def)
    then show ?thesis using 1 next_run by (simp add: advance_def entry_def cross_def k_def)
  next
    case 2
    then have d: "bottom_x s - top_x s = n" and neg: "\<not> bottom_x s < top_x s" "n \<noteq> 0" "0 < n" by simp_all
    show ?thesis
    proof (cases "n < D")
      case True
      show ?thesis unfolding advance_def e edge.select_convs d if_not_P [OF neg(1)] if_not_P [OF neg(2)] if_P [OF neg(3)] if_P [OF True] Let_def split
          steep [OF True] by simp
    next
      case False
      show ?thesis unfolding advance_def e edge.select_convs d if_not_P [OF neg(1)] if_not_P [OF neg(2)] if_P [OF neg(3)] if_not_P [OF False] Let_def split
          flat by simp
    qed
  next
    case 3
    then have minus: "e - (bottom_x s - top_x s) = e + n" "- (bottom_x s - top_x s) = n" for e by simp_all
    have neg: "bottom_x s - top_x s \<noteq> 0" "\<not> bottom_x s - top_x s > 0" using 3 by simp_all
    show ?thesis
    proof (cases "n < D")
      case True
      show ?thesis unfolding advance_def e edge.select_convs minus if_P [OF 3(1)] if_not_P [OF neg(1)] if_not_P [OF neg(2)] if_P [OF True] Let_def split
          steep [OF True] by simp
    next
      case False
      show ?thesis unfolding advance_def e edge.select_convs minus if_P [OF 3(1)] if_not_P [OF neg(1)] if_not_P [OF neg(2)] if_not_P [OF False] Let_def split
          flat by simp
    qed
  qed
qed

section \<open>The table\<close>

lemma add_edge_entry:
  "add_edge g s (table, lo, hi) =
     (if in_table g s
      then map_result (\<lambda>table. (table, if first_row g s < lo then first_row g s else lo, if bottom_y s > hi then bottom_y s else hi))
        (modify_at table (first_row g s) ((#) (entry (first_row g s) s)))
      else Inr (table, lo, hi))"
proof -
  obtain x0 y0 x1 y1 where s: "s = ((x0, y0), (x1, y1))" by (metis surj_pair)
  consider "y0 = y1" | "y0 < y1" | "y0 > y1" by linarith
  then show ?thesis
  proof cases
    case 1
    then show ?thesis by (simp add: add_edge_def in_table_def upright_def s)
  next
    case 2
    have "new_edge g x0 y0 x1 y1 = (first_row g s, entry (first_row g s) s)"
      using new_edge_entry [of g s] 2 by (simp add: s upright_def)
    then show ?thesis using 2 by (auto simp: add_edge_def in_table_def upright_def s)
  next
    case 3
    have "new_edge g x1 y1 x0 y0 = (first_row g s, entry (first_row g s) s)"
      using new_edge_entry [of g s] 3 by (simp add: s upright_def)
    then show ?thesis using 3 by (auto simp: add_edge_def in_table_def upright_def s)
  qed
qed

definition table_ok :: "clip_area \<Rightarrow> edge list list \<Rightarrow> side_line multiset \<Rightarrow> bool" where
  "table_ok g table M \<longleftrightarrow> length table = 32 \<and>
     (\<forall>r < 32. mset (table ! r) = image_mset (entry (int r)) (filter_mset (\<lambda>s. first_row g s = int r) M))"

lemma first_row_range: "clip_ok g \<Longrightarrow> clipYTop g < clipYBottom g \<Longrightarrow> in_table g s \<Longrightarrow> 0 \<le> first_row g s \<and> first_row g s < 32"
  by (auto simp: clip_ok_def in_table_def first_row_def)

lemma add_edges:
  assumes "clip_ok g" and "clipYTop g < clipYBottom g" and "table_ok g table M"
  shows "\<exists>table' lo' hi'. fold_result (add_edge g) ss (table, lo, hi) = Inr (table', lo', hi') \<and>
    table_ok g table' (filter_mset (in_table g) (mset ss) + M) \<and> lo' \<le> lo \<and> hi \<le> hi' \<and> (clipYTop g \<le> lo \<longrightarrow> clipYTop g \<le> lo') \<and>
    (\<forall>s \<in> set ss. in_table g s \<longrightarrow> lo' \<le> first_row g s \<and> bottom_y s \<le> hi')"
  using assms(3)
proof (induction ss arbitrary: table M lo hi)
  case Nil
  then show ?case by simp
next
  case (Cons s ss)
  show ?case
  proof (cases "in_table g s")
    case False
    from Cons.IH [OF Cons.prems] show ?thesis using False by (simp add: add_edge_entry)
  next
    case True
    let ?r = "first_row g s"
    have r: "0 \<le> ?r" "?r < 32" using first_row_range [OF assms(1,2) True] by simp_all
    define table1 where "table1 = table[nat ?r := entry ?r s # table ! nat ?r]"
    have len: "length table = 32" using Cons.prems by (simp add: table_ok_def)
    have ok: "table_ok g table1 (add_mset s M)"
      using Cons.prems r by (auto simp: table_ok_def table1_def nth_list_update)
    have step: "modify_at table ?r ((#) (entry ?r s)) = Inr table1"
      using r len by (simp add: modify_at_def table1_def read_at_def write_at_def)
    let ?lo = "if ?r < lo then ?r else lo" and ?hi = "if bottom_y s > hi then bottom_y s else hi"
    obtain table' lo' hi' where t: "fold_result (add_edge g) ss (table1, ?lo, ?hi) = Inr (table', lo', hi')"
      "table_ok g table' (filter_mset (in_table g) (mset ss) + add_mset s M)" "lo' \<le> ?lo" "?hi \<le> hi'" "clipYTop g \<le> ?lo \<longrightarrow> clipYTop g \<le> lo'"
      "\<forall>s \<in> set ss. in_table g s \<longrightarrow> lo' \<le> first_row g s \<and> bottom_y s \<le> hi'"
      using Cons.IH [OF ok, of ?lo ?hi] by blast
    have "lo' \<le> lo" "lo' \<le> ?r" "hi \<le> hi'" "bottom_y s \<le> hi'" "clipYTop g \<le> lo \<longrightarrow> clipYTop g \<le> lo'"
      using t(3-5) by (auto simp: first_row_def split: if_splits)
    then show ?thesis using t(1,2,6) True by (simp add: add_edge_entry step)
  qed
qed

section \<open>The rows\<close>

text \<open>What is filled in a row: from the first place to the second, from the third to the fourth, and so on.\<close>

fun in_spans :: "int list \<Rightarrow> int \<Rightarrow> bool" where
  "in_spans (a # b # xs) u \<longleftrightarrow> a \<le> u \<and> u \<le> b \<or> in_spans xs u"
| "in_spans _ u \<longleftrightarrow> False"

lemma draw_spans_fills:
  assumes "clip_ok g" and "shade_ok s" and "clipYTop g \<le> y" and "y < clipYBottom g" and "length buffer = 2048"
  shows "fills g buffer s (\<lambda>u v. v = y \<and> in_spans (map e_x es) u) (draw_spans g y s es buffer)"
  using assms(5)
proof (induction es arbitrary: buffer rule: induct_list012)
  case (3 c n es)
  let ?l = "if e_x c > clipXLeft g then e_x c else clipXLeft g"
  let ?n = "(if e_x n < clipXRight g - 1 then e_x n else clipXRight g - 1) - ?l + 1"
  have "fills g buffer s (\<lambda>u v. v = y \<and> e_x c \<le> u \<and> u \<le> e_x n) (drawLineHorizUnclipped buffer y ?l ?n s)"
    unfolding horizontal_points [OF assms(2)]
    by (intro fills_points [OF assms(1) 3(3) assms(2)]) (use assms(3,4) in \<open>auto simp: in_clip_def\<close>)
  from fills_twice [where f = "\<lambda>b. drawLineHorizUnclipped b y ?l ?n s", OF this 3(1) 3(3)] show ?case
    by (auto simp: Let_def elim: fills_cong)
qed (simp_all add: fills_nothing)

text \<open>The list of active edges at the start of a row.\<close>

definition active_ok :: "clip_area \<Rightarrow> side_line multiset \<Rightarrow> int \<Rightarrow> edge list \<Rightarrow> bool" where
  "active_ok g M y es \<longleftrightarrow> sorted (map e_x es) \<and>
     mset es = image_mset (entry y) (filter_mset (\<lambda>s. first_row g s < y \<and> y \<le> bottom_y s) M)"

lemma two_filters:
  "(\<And>x. x \<in># M \<Longrightarrow> (R x \<longleftrightarrow> P x \<or> Q x) \<and> \<not> (P x \<and> Q x)) \<Longrightarrow>
     image_mset f (filter_mset P M) + image_mset f (filter_mset Q M) = image_mset f (filter_mset R M)"
  by (induction M) auto

lemma scan_row_step:
  assumes "clip_ok g" and "table_ok g table M" and "\<forall>s \<in># M. in_table g s"
    and "clipYTop g \<le> y" and "y < clipYBottom g" and "active_ok g M y es"
  shows "\<exists>drawn es'. scan_row g table shade y (es, buffer) = map_result (\<lambda>buffer. (es', buffer)) (draw_spans g y shade drawn buffer) \<and>
    sorted (map e_x drawn) \<and> mset (map e_x drawn) = image_mset (cross y) (filter_mset (crosses y) M) \<and> active_ok g M (y + 1) es'"
proof -
  have y: "0 \<le> y" "y < 32" using assms(1,4,5) by (auto simp: clip_ok_def)
  define new where "new = table ! nat y"
  have new: "read_at table y = Inr new" "mset new = image_mset (entry y) (filter_mset (\<lambda>s. first_row g s = y) M)"
    using assms(2) y by (auto simp: table_ok_def read_at_def new_def)
  define all_of where "all_of = fold insert_edge new es"
  define drawn where "drawn = filter (\<lambda>e. e_ymax e \<noteq> y) all_of"
  define es' where "es' = bubble_sort (map advance drawn)"
  have starts: "top_y s < bottom_y s" "first_row g s \<le> bottom_y s" if "s \<in># M" for s
    using assms(3) that upright_order [of s] by (auto simp: in_table_def first_row_def)
  have all_of: "sorted (map e_x all_of)" "mset all_of = mset new + mset es"
    unfolding all_of_def using insert_all [of es new] assms(6) by (simp_all add: active_ok_def)
  have "mset all_of = image_mset (entry y) (filter_mset (\<lambda>s. first_row g s \<le> y \<and> y \<le> bottom_y s) M)"
    unfolding all_of(2) new(2) assms(6) [unfolded active_ok_def, THEN conjunct2]
    by (rule two_filters) (use starts in force)
  then have "mset drawn = image_mset (entry y) (filter_mset (\<lambda>s. bottom_y s \<noteq> y) (filter_mset (\<lambda>s. first_row g s \<le> y \<and> y \<le> bottom_y s) M))"
    by (simp add: drawn_def image_mset_filter_mset_swap [symmetric] entry_def)
  also have "filter_mset (\<lambda>s. bottom_y s \<noteq> y) (filter_mset (\<lambda>s. first_row g s \<le> y \<and> y \<le> bottom_y s) M) = filter_mset (crosses y) M"
    unfolding filter_filter_mset by (rule filter_mset_cong) (use assms(4) in \<open>auto simp: crosses_def first_row_def\<close>)
  finally have drawn: "mset drawn = image_mset (entry y) (filter_mset (crosses y) M)" .
  have "mset (map advance drawn) = image_mset (\<lambda>s. advance (entry y s)) (filter_mset (crosses y) M)"
    by (simp add: drawn multiset.map_comp o_def)
  also have "\<dots> = image_mset (entry (y + 1)) (filter_mset (crosses y) M)"
    by (rule image_mset_cong) (use advance_entry in \<open>auto simp: crosses_def\<close>)
  also have "filter_mset (crosses y) M = filter_mset (\<lambda>s. first_row g s < y + 1 \<and> y + 1 \<le> bottom_y s) M"
    by (rule filter_mset_cong) (use assms(4) in \<open>auto simp: crosses_def first_row_def\<close>)
  finally have "active_ok g M (y + 1) es'" using bubble_sort_sorts [of "map advance drawn"] by (simp add: active_ok_def es'_def)
  moreover have "sorted (map e_x drawn)" unfolding drawn_def by (rule sorted_filter) (rule all_of(1))
  moreover have "mset (map e_x drawn) = image_mset (cross y) (filter_mset (crosses y) M)"
    by (simp add: drawn multiset.map_comp o_def entry_def)
  moreover have "scan_row g table shade y (es, buffer) = map_result (\<lambda>buffer. (es', buffer)) (draw_spans g y shade drawn buffer)"
    by (simp add: scan_row_def new(1) Let_def drawn_def es'_def all_of_def)
  ultimately show ?thesis by blast
qed

text \<open>Where the sides of a polygon cross a row, from left to right.\<close>

definition polygon_row :: "(int \<times> int) list \<Rightarrow> int \<Rightarrow> int list" where
  "polygon_row coords v = sort (map (cross v) (filter (crosses v) (sides (List.last coords) coords)))"

lemma rows_fill_polygon:
  assumes "clip_ok g" and "shade_ok s" and "table_ok g table (filter_mset (in_table g) (mset ss))"
    and "clipYTop g \<le> y" and "hi < clipYBottom g" and "length buffer = 2048"
    and "active_ok g (filter_mset (in_table g) (mset ss)) y es"
  shows "fills g buffer s (\<lambda>u v. y \<le> v \<and> v \<le> hi \<and> in_spans (sort (map (cross v) (filter (crosses v) ss))) u)
    (map_result snd (fold_result (scan_row g table s) [y..hi] (es, buffer)))"
  using assms(4,6,7)
proof (induction "nat (hi + 1 - y)" arbitrary: y es buffer)
  case 0
  then show ?case by (auto intro: fills_nothing)
next
  case (Suc n)
  let ?M = "filter_mset (in_table g) (mset ss)"
  have y: "y \<le> hi" "y < clipYBottom g" using Suc.hyps(2) assms(5) by linarith+
  obtain drawn es' where d: "scan_row g table s y (es, buffer) = map_result (\<lambda>buffer. (es', buffer)) (draw_spans g y s drawn buffer)"
    "sorted (map e_x drawn)" "mset (map e_x drawn) = image_mset (cross y) (filter_mset (crosses y) ?M)" "active_ok g ?M (y + 1) es'"
    using scan_row_step [OF assms(1,3) _ Suc.prems(1) y(2) Suc.prems(3), of s buffer] by auto
  have "filter_mset (crosses y) ?M = filter_mset (crosses y) (mset ss)"
    unfolding filter_filter_mset by (rule filter_mset_cong) (use Suc.prems(1) y in \<open>auto simp: crosses_def in_table_def\<close>)
  then have row: "sort (map (cross y) (filter (crosses y) ss)) = map e_x drawn"
    using d(2,3) by (intro properties_for_sort) simp_all
  let ?row = "\<lambda>u v. v = y \<and> in_spans (map e_x drawn) u"
  let ?rest = "\<lambda>u v. y + 1 \<le> v \<and> v \<le> hi \<and> in_spans (sort (map (cross v) (filter (crosses v) ss))) u"
  have first: "fills g buffer s ?row (draw_spans g y s drawn buffer)"
    by (rule draw_spans_fills [OF assms(1,2) Suc.prems(1) y(2) Suc.prems(2)])
  have rest: "fills g b s ?rest (map_result snd (fold_result (scan_row g table s) [y + 1..hi] (es', b)))" if "length b = 2048" for b
    by (rule Suc.hyps(1)) (use Suc.hyps(2) Suc.prems(1) that d(4) in auto)
  have "map_result snd (fold_result (scan_row g table s) [y..hi] (es, buffer)) =
      and_then (draw_spans g y s drawn buffer) (\<lambda>b. map_result snd (fold_result (scan_row g table s) [y + 1..hi] (es', b)))"
    unfolding upto_rec1 [OF y(1)] fold_result.simps d(1) by (simp add: map_result_def)
  moreover have "fills g buffer s (\<lambda>u v. ?row u v \<or> ?rest u v)
      (and_then (draw_spans g y s drawn buffer) (\<lambda>b. map_result snd (fold_result (scan_row g table s) [y + 1..hi] (es', b))))"
    by (rule fills_twice [where f = "draw_spans g y s drawn", OF first rest Suc.prems(2)])
  moreover have "?row u v \<or> ?rest u v \<longleftrightarrow> y \<le> v \<and> v \<le> hi \<and> in_spans (sort (map (cross v) (filter (crosses v) ss))) u" for u v
    using y(1) by (cases "v = y") (auto simp: row)
  ultimately show ?case by simp
qed

lemma nothing_active: "active_ok g M lo []" if "\<forall>s \<in># M. lo \<le> first_row g s"
  using that by (simp add: active_ok_def) (metis (mono_tags, lifting) filter_mset_False filter_mset_cong leD)

lemma solid_polygon_fills:
  assumes "clip_ok g" and "clipYTop g < clipYBottom g" and "length buffer = 2048" and "shade_ok s" and "3 \<le> length coords"
  shows "fills g buffer s (\<lambda>u v. in_spans (polygon_row coords v) u) (drawSolidPolygon g buffer coords s)"
proof -
  let ?ss = "sides (List.last coords) coords"
  have empty: "table_ok g (replicate 32 []) {#}" by (simp add: table_ok_def)
  obtain table lo hi where t: "fold_result (add_edge g) ?ss (replicate 32 [], clipYBottom g, clipYTop g) = Inr (table, lo, hi)"
    "table_ok g table (filter_mset (in_table g) (mset ?ss))" "clipYTop g \<le> lo"
    "\<forall>s \<in> set ?ss. in_table g s \<longrightarrow> lo \<le> first_row g s \<and> bottom_y s \<le> hi"
    using add_edges [OF assms(1,2) empty, of ?ss "clipYBottom g" "clipYTop g"] assms(2) by auto
  let ?hi = "if hi > clipYBottom g - 1 then clipYBottom g - 1 else hi"
  have "active_ok g (filter_mset (in_table g) (mset ?ss)) lo []" by (rule nothing_active) (use t(4) in auto)
  from rows_fill_polygon [OF assms(1,4) t(2,3) _ assms(3) this, of ?hi]
  have rows: "fills g buffer s (\<lambda>u v. lo \<le> v \<and> v \<le> ?hi \<and> in_spans (polygon_row coords v) u)
      (map_result snd (fold_result (scan_row g table s) [lo..?hi] ([], buffer)))"
    by (simp add: polygon_row_def)
  have none: "polygon_row coords v = []" if "in_clip g u v" "\<not> (lo \<le> v \<and> v \<le> ?hi)" for u v
  proof -
    have "\<not> crosses v s" if "s \<in> set ?ss" for s
      using t(4) that \<open>in_clip g u v\<close> \<open>\<not> (lo \<le> v \<and> v \<le> ?hi)\<close>
      by (force simp: crosses_def in_clip_def in_table_def first_row_def split: if_splits)
    then show ?thesis by (simp add: polygon_row_def filter_empty_conv)
  qed
  have "coords \<noteq> []" "\<not> length coords < 3" using assms(5) by auto
  then have "drawSolidPolygon g buffer coords s = map_result snd (fold_result (scan_row g table s) [lo..?hi] ([], buffer))"
    by (simp add: drawSolidPolygon_def t(1) Let_def)
  moreover have "in_clip g u v \<and> lo \<le> v \<and> v \<le> ?hi \<and> in_spans (polygon_row coords v) u \<longleftrightarrow>
      in_clip g u v \<and> in_spans (polygon_row coords v) u" for u v
    using none [of u v] by (cases "lo \<le> v \<and> v \<le> ?hi") auto
  ultimately show ?thesis using rows unfolding fills_def by simp
qed

section \<open>No crossing is left over\<close>

lemma crosses_ends: "crosses v s \<longleftrightarrow> (snd (fst s) \<le> v) \<noteq> (snd (snd s) \<le> v)"
  by (auto simp: crosses_def upright_def)

lemma crossings_parity:
  "even (length (filter (crosses v) (sides prev cs))) \<longleftrightarrow> (snd prev \<le> v \<longleftrightarrow> snd (List.last (prev # cs)) \<le> v)"
  by (induction cs arbitrary: prev) (auto simp: crosses_ends)

lemma even_crossings: "coords \<noteq> [] \<Longrightarrow> even (length (polygon_row coords v))"
  by (simp add: polygon_row_def crossings_parity)


text \<open>A five-pointed star: four crossings in the rows of its feet.\<close>

abbreviation "star \<equiv> [(64, 0), (80, 31), (50, 11), (78, 11), (48, 31)]"

lemma star_row: "polygon_row star 25 = [52, 57, 71, 76]"
  by code_simp


section \<open>Where the function goes wrong\<close>

text \<open>
  With fewer than three corners nothing is drawn, but with none the two numbers before the first have been read.
\<close>

lemma no_corners: "drawSolidPolygon g buffer [] s = Inl Out_Of_Bounds"
  by (simp add: drawSolidPolygon_def)

text \<open>A clip area below the screen is cut to an empty one whose top is past the table of edges, where the sides that begin above are entered.\<close>

theorem clip_area_below_screen:
  assumes "g = setClipArea 0 40 128 50 g0"
  shows "drawSolidPolygon g buffer [(0, 0), (20, 60), (40, 0)] s = Inl Out_Of_Bounds"
  using assms by (simp add: setClipArea_def drawSolidPolygon_def add_edge_def new_edge_def modify_at_def write_at_def read_at_def)

end
