(* ===== verification/Startup.thy ===== *)
theory Startup
  imports Config State_File Playback_Correct
begin

text \<open>
  How the components are put to work: \<open>setup_database()\<close> of \<open>src/src/squash.c\<close>, the thread
  that loads the database and then starts the others, and the stand-alone program of
  \<open>src/src/generate_songlist.c\<close>.
\<close>

section \<open>Setting up the database\<close>

datatype system_state = SYSTEM_LOADING | SYSTEM_RUNNING

record system =
  sy_player :: player
  sy_state :: system_state
  sy_spectrum_active :: bool
  sy_state_info :: "state_info option"

text \<open>
  The stages between which the thread holds no lock.  The redrawing of the screen is
  left out.  \<open>None\<close>: the state file has not been read to its end.
\<close>

definition on_world :: "(world \<Rightarrow> world result) \<Rightarrow> system \<Rightarrow> system result" where
  "on_world f s = map_result (\<lambda>w. s\<lparr>sy_player := (sy_player s)\<lparr>p_world := w\<rparr>\<rparr>) (f (p_world (sy_player s)))"

definition setup_filenames :: "build \<Rightarrow> config \<Rightarrow> string \<Rightarrow> node \<Rightarrow> system \<Rightarrow> system result" where
  "setup_filenames b cfg ctime root_dir s =
     map_result (\<lambda>s. s\<lparr>sy_state := SYSTEM_RUNNING\<rparr>)
       (on_world (\<lambda>w. map_result (\<lambda>(db, fs). w\<lparr>w_db := db, w_fs := fs\<rparr>)
          (load_db_filenames b cfg ctime root_dir (w_db w) (w_fs w))) s)"

definition setup_play :: "system \<Rightarrow> system result" where
  "setup_play s =
     map_result (\<lambda>q. s\<lparr>sy_player := (sy_player s)\<lparr>p_commands := q\<rparr>\<rparr>)
       (player_queue_command CMD_PLAY (p_commands (sy_player s)))"

definition setup_state :: "build \<Rightarrow> config \<Rightarrow> tags \<Rightarrow> durations \<Rightarrow> system \<Rightarrow> system option result" where
  "setup_state b cfg tags dur s =
     map_result (map_option (\<lambda>(si, w). s\<lparr>sy_player := (sy_player s)\<lparr>p_world := w\<rparr>, sy_state_info := Some si\<rparr>))
       (load_state b cfg tags dur (p_world (sy_player s)))"

definition want_songs :: "config \<Rightarrow> world \<Rightarrow> world" where
  "want_songs cfg w =
     (let qs = w_queues w in
      w\<lparr>w_queues := qs\<lparr>song_queue := (song_queue qs)\<lparr>q_wanted_size := playlist_manager_playlist_size cfg\<rparr>\<rparr>\<rparr>)"

definition setup_statistics :: "build \<Rightarrow> config \<Rightarrow> tags \<Rightarrow> world \<Rightarrow> world result" where
  "setup_statistics b cfg tags w =
     map_result (\<lambda>(db, fs). w\<lparr>w_db := start_song_picker cfg db, w_fs := fs\<rparr>)
       (load_all_meta_data b cfg tags TYPE_STAT (w_db w) (w_fs w))"

definition setup_database ::
  "build \<Rightarrow> config \<Rightarrow> tags \<Rightarrow> durations \<Rightarrow> string \<Rightarrow> node \<Rightarrow> system \<Rightarrow> system option result" where
  "setup_database b cfg tags dur ctime root_dir s =
     and_then (setup_filenames b cfg ctime root_dir s) (\<lambda>s.
     and_then (setup_play (s\<lparr>sy_spectrum_active := True\<rparr>)) (\<lambda>s.
     and_then (setup_state b cfg tags dur s) (\<lambda>loaded.
     case loaded of
       None \<Rightarrow> Inr None
     | Some s \<Rightarrow>
       map_result Some
         (on_world (\<lambda>w. setup_statistics b cfg tags (want_songs cfg w)) s))))"

section \<open>A list of songs\<close>

text \<open>
  The last loop of \<open>main()\<close>: each song is chosen with random numbers of its own.  \<open>None\<close>:
  the numbers given do not make a choice come to an end.
\<close>

fun generate_songs :: "config \<Rightarrow> nat list list \<Rightarrow> database_info \<Rightarrow> (string list \<times> database_info) option result" where
  "generate_songs cfg [] db = Inr (Some ([], db))"
| "generate_songs cfg (rands # later) db =
     and_then (pick_song cfg db rands) (\<lambda>picked.
     case picked of
       None \<Rightarrow> Inr None
     | Some (c, db) \<Rightarrow>
       and_then (read_at (songs db) (int c)) (\<lambda>song.
       map_result (map_option (\<lambda>(lines, db). ((basename song BASENAME_SONG @ ''/'' @ filename song) # lines, db)))
         (generate_songs cfg later db)))"

definition clear_counters :: "database_info \<Rightarrow> database_info" where
  "clear_counters db = db\<lparr>songs := map (\<lambda>s. s\<lparr>stat := (stat s)\<lparr>repeat_counter := 0\<rparr>\<rparr>) (songs db)\<rparr>"

text \<open>
  \<open>main()\<close> of \<open>generate_songlist.c\<close>, from its arguments: the exit status and the lines
  printed.  The second argument is read and not used.
\<close>

definition generate_songlist ::
  "build \<Rightarrow> expansion \<Rightarrow> (string \<Rightarrow> string option) \<Rightarrow> tags \<Rightarrow> string \<Rightarrow> node \<Rightarrow> (nat \<Rightarrow> nat list) \<Rightarrow>
     string list \<Rightarrow> database_info \<Rightarrow> filesys \<Rightarrow> (int \<times> string list) option result" where
  "generate_songlist b wordexp getenv tags ctime root_dir rands args db fs =
     (if args = [] \<or> atoi (hd args) = 0 then Inr (Some (1, []))
      else
        and_then (init_config b wordexp getenv fs) (\<lambda>cfg.
        and_then (load_db_filenames b cfg ctime root_dir db fs) (\<lambda>(db, fs).
        and_then (load_all_meta_data b cfg tags TYPE_STAT db fs) (\<lambda>(db, fs).
        map_result (map_option (\<lambda>(lines, db). (0, lines)))
          (generate_songs cfg (map rands [0..<nat (atoi (hd args))])
            (start_song_picker cfg (clear_counters db)))))))"

section \<open>The songs that are loaded\<close>

lemma load_file_adds:
  "load_file b cfg fs n trust db = Inr db' \<Longrightarrow> songs db' = songs db \<or> (\<exists>m. songs db' = songs db @ [new_song cfg m])"
  by (auto simp: load_file_def Let_def split: option.splits if_splits)

lemma walk_keeps:
  assumes "\<And>n db db'. loader n db = Inr db' \<Longrightarrow> P db \<Longrightarrow> P db'"
  shows "walk_filesystem loader base node db = Inr db' \<Longrightarrow> P db \<Longrightarrow> P db'"
    and "walk_entries loader base es db = Inr db' \<Longrightarrow> P db \<Longrightarrow> P db'"
  using assms
proof (induction loader base node db and loader base es db arbitrary: db' and db'
    rule: walk_filesystem_walk_entries.induct)
  case (6 loader base name e es db)
  show ?case
  proof (cases "name = ''.'' \<or> name = ''..''")
    case True
    then show ?thesis using 6 by simp
  next
    case False
    then obtain db1 where one: "(case e of Unstatable \<Rightarrow> Inr db
         | Directory d \<Rightarrow> walk_filesystem loader (Some (join_path base name)) (Directory d) db
         | Regular \<Rightarrow> loader (join_path base name) db) = Inr db1"
        and rest: "walk_entries loader base es db1 = Inr db'" and short: "\<not> 257 < 1 + length name + 1"
      using 6(4) by (auto split: if_splits)
    have "P db1"
    proof (cases e)
      case (Directory d)
      then show ?thesis using 6(2) [OF False short Directory] one 6(5,6) by simp
    next
      case Regular
      then show ?thesis using one 6(5,6) by simp
    qed (use one 6(5) in simp)
    then show ?thesis using 6(3) [OF False short] rest 6(6) by blast
  qed
qed auto

lemma load_masterlist_cases:
  assumes "load_masterlist b cfg fs db = Inr db'"
  shows "db' = db \<or> (\<exists>mem. fold_result (\<lambda>l. load_file b cfg fs (Some l) True)
    (filter masterlist_line_used (split_lines (c_str mem))) db = Inr db')"
proof (cases "case db_masterlist_path cfg of None \<Rightarrow> None | Some p \<Rightarrow> files fs p")
  case None
  then show ?thesis using assms by (simp add: load_masterlist_def split: option.splits)
next
  case (Some mem)
  then obtain path where "db_masterlist_path cfg = Some path" "files fs path = Some mem"
    by (cases "db_masterlist_path cfg") simp_all
  then show ?thesis using assms unfolding load_masterlist_def by (simp split: if_splits) blast
qed

lemma load_db_filenames_songs:
  assumes "load_db_filenames b cfg ctime root_dir db fs = Inr (db', fs')" and "\<forall>s \<in> set (songs db). song_sound s"
  shows "songs db' \<noteq> [] \<and> (\<forall>s \<in> set (songs db'). song_sound s)"
proof -
  let ?P = "\<lambda>db. \<forall>s \<in> set (songs db). song_sound s"
  have step: "load_file b cfg fs1 n trust db1 = Inr db2 \<Longrightarrow> ?P db1 \<Longrightarrow> ?P db2" for fs1 n trust db1 db2
    using load_file_adds [of b cfg fs1 n trust db1 db2] by auto
  have list: "load_masterlist b cfg fs1 db1 = Inr db2 \<Longrightarrow> ?P db1 \<Longrightarrow> ?P db2" for fs1 db1 db2
  proof -
    assume l: "load_masterlist b cfg fs1 db1 = Inr db2" and P: "?P db1"
    then consider "db2 = db1"
      | mem where "fold_result (\<lambda>l. load_file b cfg fs1 (Some l) True) (filter masterlist_line_used (split_lines (c_str mem))) db1 = Inr db2"
      using load_masterlist_cases [OF l] by blast
    then show "?P db2"
    proof cases
      case 2
      show ?thesis by (rule fold_result_invariant [where P = ?P, OF P 2]) (rule step)
    qed (use P in simp)
  qed
  have walk: "walk_filesystem (\<lambda>n. load_file b cfg fs1 (Some n) False) None root_dir db1 = Inr db2 \<Longrightarrow> ?P db1 \<Longrightarrow> ?P db2" for fs1 db1 db2
    by (rule walk_keeps(1) [where P = ?P]) (use step in auto)
  define start where "start = (if song_count_allocated db \<noteq> 0
      then db\<lparr>songs := [], song_count_allocated := 0, stats_loaded := False\<rparr> else db)"
  have start: "?P start" using assms(2) by (simp add: start_def)
  let ?loaded = "if (case db_masterlist_path cfg of None \<Rightarrow> False | Some p \<Rightarrow> path_exists fs p)
         then load_masterlist b cfg fs start
         else if (case db_paths cfg BASENAME_SONG of None \<Rightarrow> False | Some p \<Rightarrow> path_exists fs p)
         then walk_filesystem (\<lambda>n. load_file b cfg fs (Some n) False) None root_dir start
         else Inl Squash_Error"
  obtain db1 where db1: "?loaded = Inr db1"
      and rest: "(if song_count db1 = 0 then Inl Squash_Error
         else (let db = db1\<lparr>song_count_allocated := song_count db1\<rparr> in
           map_result (\<lambda>fs. (db, fs)) (if db_masterlist_path cfg \<noteq> None then save_masterlist cfg ctime db fs else Inr fs))) = Inr (db', fs')"
    using assms(1) unfolding load_db_filenames_def start_def [symmetric] Let_def and_then_eq_Inr by blast
  have count: "song_count db1 \<noteq> 0" and songs: "songs db' = songs db1"
    using rest by (auto simp: Let_def split: if_splits)
  have "?P db1" using db1 start list walk by (auto split: if_splits)
  with count show ?thesis by (simp add: songs song_count_def)
qed

lemma Some_eq_map_option: "Some y = map_option f x \<longleftrightarrow> (\<exists>z. x = Some z \<and> y = f z)"
  by (cases x) auto

text \<open>Songs whose meta data is sound, and at least one.\<close>

definition songs_sound :: "database_info \<Rightarrow> bool" where
  "songs_sound db \<longleftrightarrow> songs db \<noteq> [] \<and> (\<forall>s \<in> set (songs db). song_sound s)"

lemma queue_song_sound:
  assumes "playlist_queue_song b cfg tags dur (Some i) start w = Inr w'" and "songs_sound (w_db w)"
  shows "songs_sound (w_db w')"
proof -
  obtain s' fs' q where i: "i < length (songs (w_db w))"
    and e: "ensure_song_fully_loaded b cfg tags dur (songs (w_db w) ! i) (w_fs w) = Inr (s', fs')"
    and w': "w' = w\<lparr>w_db := (w_db w)\<lparr>songs := (songs (w_db w))[i := s']\<rparr>, w_fs := fs', w_queues := q\<rparr>"
    using assms(1) by (auto simp: playlist_queue_song_def read_at_Inr)
  have "song_sound s'" using ensure_steps [OF e] assms(2) i by (simp add: songs_sound_def)
  then show ?thesis
    using assms(2) set_update_subset_insert [of "songs (w_db w)" i s'] by (auto simp: w' songs_sound_def)
qed

lemma load_state_turn_sound:
  assumes "load_state_turn b cfg tags dur (si, w) = Inr (si', w')" and "songs_sound (w_db w)"
  shows "songs_sound (w_db w')"
proof -
  consider "w' = w" | i start where "playlist_queue_song b cfg tags dur (Some i) start w = Inr w'"
    using assms(1) by (auto simp: load_state_turn_def split: option.splits)
  then show ?thesis by cases (use queue_song_sound assms(2) in auto)
qed

lemma load_state_loop_sound:
  "load_state_loop n b cfg tags dur (si, w) = Inr (Some (si', w')) \<Longrightarrow> songs_sound (w_db w) \<Longrightarrow> songs_sound (w_db w')"
proof (induction n arbitrary: si w)
  case 0
  then show ?case by (auto split: if_splits)
next
  case (Suc n)
  show ?case
  proof (cases "current_song si < raw_song_count si")
    case True
    then obtain si1 w1 where "load_state_turn b cfg tags dur (si, w) = Inr (si1, w1)"
        "load_state_loop n b cfg tags dur (si1, w1) = Inr (Some (si', w'))"
      using Suc.prems(1) by auto
    then show ?thesis using Suc.IH load_state_turn_sound Suc.prems(2) by blast
  next
    case False
    then show ?thesis using Suc.prems by simp
  qed
qed

lemma load_state_sound:
  assumes "load_state b cfg tags dur w = Inr (Some (si, w'))" and "songs_sound (w_db w)"
  shows "songs_sound (w_db w')"
proof -
  obtain si0 r where r: "load_state_loop (nat (raw_song_count si0 - current_song si0)) b cfg tags dur (si0, w) = Inr r"
      and m: "map_option (\<lambda>(si, w). (si\<lparr>raw_songs := [], current_song := 0, raw_song_count := 0, raw_song_alloc := 0\<rparr>, w)) r = Some (si, w')"
    using assms(1) unfolding load_state_def and_then_eq_Inr map_result_eq_Inr by metis
  then obtain si1 where "r = Some (si1, w')" by (cases r) auto
  with r load_state_loop_sound assms(2) show ?thesis by blast
qed

interpretation stat_sound: data_invariant song_sound set_stat_data
  by unfold_locales (auto simp: set_stat_data_def Let_def split: option.splits)

lemma load_stat_sound:
  "load_meta_data b cfg tags TYPE_STAT s fs = Inr (s', fs') \<Longrightarrow> song_sound s \<Longrightarrow> song_sound s'"
  by (auto simp: load_meta_data_def db_extension_for_def Let_def dest: stat_sound.parse_file_kept split: if_splits)

lemma save_song_sound: "save_song cfg loaded s fs = Inr (s', fs') \<Longrightarrow> song_sound s \<Longrightarrow> song_sound s'"
  using save_song_same [of cfg loaded s fs s' fs'] by (auto simp: song_sound_def song_meta_ok_def)

lemma for_songs_keeps:
  assumes "for_songs f ss fs = Inr (ss', fs')" and "\<And>s fs s' fs'. f s fs = Inr (s', fs') \<Longrightarrow> P s \<Longrightarrow> P s'"
    and "\<forall>s \<in> set ss. P s"
  shows "length ss' = length ss \<and> (\<forall>s \<in> set ss'. P s)"
  using assms(1,3)
proof (induction ss arbitrary: fs ss')
  case (Cons s ss)
  then obtain s1 fs1 ss1 where s1: "f s fs = Inr (s1, fs1)" "for_songs f ss fs1 = Inr (ss1, fs')" "ss' = s1 # ss1"
    by auto
  from Cons.IH [OF s1(2)] Cons.prems(2) assms(2) [OF s1(1)] s1(3) show ?case by auto
qed simp

lemma load_stats_sound:
  assumes "load_all_meta_data b cfg tags TYPE_STAT db fs = Inr (db', fs')" and "songs_sound db"
  shows "songs_sound db'"
proof -
  obtain ss fs1 ss' where l: "for_songs (\<lambda>song fs. load_meta_data b cfg tags TYPE_STAT song fs) (songs db) fs = Inr (ss, fs1)"
      and s: "for_songs (save_song cfg (stats_loaded db)) ss fs1 = Inr (ss', fs')" and db': "db' = db\<lparr>songs := ss'\<rparr>"
    using assms(1) by (auto simp: load_all_meta_data_def save_all_songs_def)
  from for_songs_keeps [OF l, of song_sound] load_stat_sound assms(2)
  have one: "length ss = length (songs db) \<and> (\<forall>s \<in> set ss. song_sound s)" by (auto simp: songs_sound_def)
  from for_songs_keeps [OF s, of song_sound] save_song_sound one
  have "length ss' = length ss \<and> (\<forall>s \<in> set ss'. song_sound s)" by blast
  with one assms(2) show ?thesis by (auto simp: db' songs_sound_def)
qed

text \<open>When the database thread is done, everything the other threads wait for is there: the library is not
  empty, its meta data sound and its sums right, the statistics are marked as loaded, the
  playlist has its size, the player has been told to play and the display to show.
  With counters that are not negative the playlist manager can choose songs.\<close>
theorem setup_prepares_library:
  assumes "setup_database b cfg tags dur ctime root_dir s = Inr (Some s')"
    and "songs (w_db (p_world (sy_player s))) = []"
  shows "sy_state s' = SYSTEM_RUNNING \<and> sy_spectrum_active s' \<and>
    player_queue_command CMD_PLAY (p_commands (sy_player s)) = Inr (p_commands (sy_player s')) \<and>
    (let w = p_world (sy_player s'); db = w_db w in
      q_wanted_size (song_queue (w_queues w)) = playlist_manager_playlist_size cfg \<and>
      songs db \<noteq> [] \<and> (\<forall>song \<in> set (songs db). song_sound song) \<and>
      stats_loaded db \<and> sums_ok (db_manual_rating_bias cfg) db \<and>
      (length (songs db) < 2 ^ 31 \<and> (\<forall>song \<in> set (songs db). 0 \<le> repeat_counter (stat song)) \<longrightarrow> library_ok cfg db))"
proof -
  let ?w = "p_world (sy_player s)"
  obtain db fs q si w db' fs' where
      names: "load_db_filenames b cfg ctime root_dir (w_db ?w) (w_fs ?w) = Inr (db, fs)"
    and play: "player_queue_command CMD_PLAY (p_commands (sy_player s)) = Inr q"
    and state: "load_state b cfg tags dur (?w\<lparr>w_db := db, w_fs := fs\<rparr>) = Inr (Some (si, w))"
    and stats: "load_all_meta_data b cfg tags TYPE_STAT (w_db w) (w_fs w) = Inr (db', fs')"
    and s': "sy_state s' = SYSTEM_RUNNING" "sy_spectrum_active s'" "p_commands (sy_player s') = q"
      "p_world (sy_player s') = (want_songs cfg w)\<lparr>w_db := start_song_picker cfg db', w_fs := fs'\<rparr>"
    using assms(1)
    by (auto simp: setup_database_def setup_filenames_def on_world_def setup_play_def setup_state_def setup_statistics_def
        want_songs_def Let_def Some_eq_map_option split: option.splits)
  have "songs_sound db" using load_db_filenames_songs [OF names] assms(2) by (simp add: songs_sound_def)
  then have "songs_sound (w_db w)" using load_state_sound [OF state] by simp
  then have "songs_sound db'" by (rule load_stats_sound [OF stats])
  then show ?thesis
    using s' play start_song_picker_facts [of cfg db']
    by (auto simp: Let_def songs_sound_def library_ok_def pickable_def want_songs_def)
qed

definition ex_music :: filesys where
  "ex_music = ex_fs\<lparr>is_dir := (\<lambda>d. d = ''/m'' \<or> d = ''/s'')\<rparr>"

definition ex_system :: system where
  "ex_system =
     \<lparr>sy_player = (start_player (ex_play_world\<lparr>w_db := ex_db, w_fs := ex_music, w_queues := empty_queues 0 2\<rparr>)),
      sy_state = SYSTEM_LOADING, sy_spectrum_active = False, sy_state_info = None\<rparr>"

lemma ex_system_test:
  "case setup_database ex_build ex_config (\<lambda>_ _. []) (\<lambda>_ _. None) ''now'' ex_tree ex_system of
     Inr (Some s) \<Rightarrow> map filename (songs (w_db (p_world (sy_player s)))) = [''a.mp3'', ''d/b.ogg''] \<and>
       list_all (\<lambda>song. 0 \<le> repeat_counter (stat song)) (songs (w_db (p_world (sy_player s))))
   | _ \<Rightarrow> False"
  by code_simp

theorem setup_prepares_library_witness:
  "\<exists>s. setup_database ex_build ex_config (\<lambda>_ _. []) (\<lambda>_ _. None) ''now'' ex_tree ex_system = Inr (Some s) \<and>
     library_ok ex_config (w_db (p_world (sy_player s)))"
proof -
  obtain s where s: "setup_database ex_build ex_config (\<lambda>_ _. []) (\<lambda>_ _. None) ''now'' ex_tree ex_system = Inr (Some s)"
      "map filename (songs (w_db (p_world (sy_player s)))) = [''a.mp3'', ''d/b.ogg'']"
      "\<forall>song \<in> set (songs (w_db (p_world (sy_player s)))). 0 \<le> repeat_counter (stat song)"
    using ex_system_test by (auto simp: list_all_iff split: sum.splits option.splits)
  have "length (songs (w_db (p_world (sy_player s)))) = 2" using arg_cong [OF s(2), of length] by simp
  moreover have "songs (w_db (p_world (sy_player ex_system))) = []"
    by (simp add: ex_system_def start_player_def ex_db_def)
  ultimately show ?thesis using setup_prepares_library [OF s(1)] s(1,3) by (auto simp: Let_def)
qed

section \<open>The songs on the list\<close>

lemma counters_only_names:
  assumes "counters_only db db'"
  shows "map (\<lambda>s. (basename s, filename s)) (songs db') = map (\<lambda>s. (basename s, filename s)) (songs db)"
proof (rule nth_equalityI)
  show len: "length (map (\<lambda>s. (basename s, filename s)) (songs db')) = length (map (\<lambda>s. (basename s, filename s)) (songs db))"
    using counters_only_length [OF assms] by simp
  fix i
  assume "i < length (map (\<lambda>s. (basename s, filename s)) (songs db'))"
  then have i: "i < length (songs db)" "i < length (songs db')" using len by simp_all
  then have "same_stats (songs db ! i) (songs db' ! i)"
    using assms list_all2_nthD by (auto simp: counters_only_def)
  then show "map (\<lambda>s. (basename s, filename s)) (songs db') ! i = map (\<lambda>s. (basename s, filename s)) (songs db) ! i"
    using i same_stats_fields by simp
qed

definition song_names :: "database_info \<Rightarrow> string set" where
  "song_names db = (\<lambda>(b, f). b BASENAME_SONG @ ''/'' @ f) ` set (map (\<lambda>s. (basename s, filename s)) (songs db))"

lemma song_names_alt: "song_names db = (\<lambda>s. basename s BASENAME_SONG @ ''/'' @ filename s) ` set (songs db)"
  by (simp add: song_names_def image_image)

lemma generate_songs_ok:
  assumes "pickable (db_manual_rating_bias cfg) db" and "\<forall>rands \<in> set rs. \<forall>r \<in> set rands. r \<le> RAND_MAX"
  shows "\<exists>res. generate_songs cfg rs db = Inr res \<and>
    (\<forall>lines db'. res = Some (lines, db') \<longrightarrow> length lines = length rs \<and> set lines \<subseteq> song_names db)"
  using assms
proof (induction rs arbitrary: db)
  case (Cons rands rs)
  obtain res where res: "pick_song cfg db rands = Inr res"
      "\<forall>c db'. res = Some (c, db') \<longrightarrow> c < length (songs db) \<and> counters_only db db' \<and>
         pickable (db_manual_rating_bias cfg) db'"
    using pick_song_result [OF Cons.prems(1), of rands] Cons.prems(2) by auto
  show ?case
  proof (cases res)
    case None
    then show ?thesis using res(1) by simp
  next
    case (Some cd)
    obtain c db1 where cd: "res = Some (c, db1)" using Some by (cases cd) auto
    have "c < length (songs db)" and co: "counters_only db db1" and ok: "pickable (db_manual_rating_bias cfg) db1"
      using res(2) cd by auto
    then have c: "c < length (songs db1)" using counters_only_length by simp
    have names: "song_names db1 = song_names db"
      unfolding song_names_def counters_only_names [OF co] ..
    obtain r1 where r1: "generate_songs cfg rs db1 = Inr r1"
        "\<forall>lines db'. r1 = Some (lines, db') \<longrightarrow> length lines = length rs \<and> set lines \<subseteq> song_names db1"
      using Cons.IH [OF ok] Cons.prems(2) by auto
    have "basename (songs db1 ! c) BASENAME_SONG @ ''/'' @ filename (songs db1 ! c) \<in> song_names db1"
      unfolding song_names_alt by (rule imageI [OF nth_mem [OF c]])
    then have "basename (songs db1 ! c) BASENAME_SONG @ ''/'' @ filename (songs db1 ! c) \<in> song_names db"
      by (simp only: names)
    then show ?thesis using res(1) cd c r1 by (auto simp: names)
  qed
qed simp

text \<open>Once the configuration, the file names and the statistics are loaded, \<open>generate_songlist\<close> does not
  fail: it chooses as many songs as asked for, and each line it prints is the full name of
  a song of the database, whatever the statistics and the random numbers.\<close>
theorem songlist_from_database:
  assumes "init_config b wordexp getenv fs = Inr cfg"
    and "load_db_filenames b cfg ctime root_dir db fs = Inr (db1, fs1)" and "songs db = []"
    and "load_all_meta_data b cfg tags TYPE_STAT db1 fs1 = Inr (db2, fs2)"
    and "length (songs db2) < 2 ^ 31" and "\<forall>x. \<forall>r \<in> set (rands x). r \<le> RAND_MAX"
    and "atoi arg \<noteq> 0"
  shows "\<exists>res. generate_songlist b wordexp getenv tags ctime root_dir rands (arg # args) db fs = Inr res \<and>
    (\<forall>status lines. res = Some (status, lines) \<longrightarrow> status = 0 \<and> length lines = nat (atoi arg) \<and>
       (\<forall>l \<in> set lines. \<exists>song \<in> set (songs db2). l = basename song BASENAME_SONG @ ''/'' @ filename song))"
proof -
  let ?db = "start_song_picker cfg (clear_counters db2)"
  have sound: "songs_sound db2"
    using load_stats_sound [OF assms(4)] load_db_filenames_songs [OF assms(2)] assms(3) by (simp add: songs_sound_def)
  have songs: "songs ?db = map (\<lambda>s. s\<lparr>stat := (stat s)\<lparr>repeat_counter := 0\<rparr>\<rparr>) (songs db2)"
    using start_song_picker_facts(3) [of cfg "clear_counters db2"] by (simp add: clear_counters_def)
  have "pickable (db_manual_rating_bias cfg) ?db"
    using sound assms(5) start_song_picker_facts(1) [of cfg "clear_counters db2"]
    by (auto simp: pickable_def songs songs_sound_def)
  from generate_songs_ok [OF this, of "map rands [0..<nat (atoi arg)]"] assms(6)
  obtain res where res: "generate_songs cfg (map rands [0..<nat (atoi arg)]) ?db = Inr res"
      "\<forall>lines db'. res = Some (lines, db') \<longrightarrow> length lines = nat (atoi arg) \<and> set lines \<subseteq> song_names ?db" by auto
  have "song_names ?db = (\<lambda>song. basename song BASENAME_SONG @ ''/'' @ filename song) ` set (songs db2)"
    unfolding song_names_alt songs set_map image_image by simp
  then have lines: "\<forall>l \<in> song_names ?db. \<exists>song \<in> set (songs db2). l = basename song BASENAME_SONG @ ''/'' @ filename song"
    by blast
  have run: "generate_songlist b wordexp getenv tags ctime root_dir rands (arg # args) db fs =
      Inr (map_option (\<lambda>(lines, db). (0, lines)) res)"
    using res(1) assms(1,2,4,7) by (simp add: generate_songlist_def)
  show ?thesis
  proof (cases res)
    case None
    then show ?thesis using run by simp
  next
    case (Some r)
    then obtain ls db' where "res = Some (ls, db')" by (cases r) auto
    with res(2) lines run show ?thesis by auto
  qed
qed

definition ex_here :: filesys where
  "ex_here = \<lparr>files = (\<lambda>_. None), is_dir = (\<lambda>d. d = ''.''), can_write = (\<lambda>_. True)\<rparr>"

lemma ex_here_test:
  "case init_config ex_desktop ex_wordexp (\<lambda>_. None) ex_here of
     Inl _ \<Rightarrow> False
   | Inr cfg \<Rightarrow>
     (case load_db_filenames ex_desktop cfg ''now'' ex_tree ex_db ex_here of
        Inl _ \<Rightarrow> False
      | Inr (db, fs) \<Rightarrow>
        (case load_all_meta_data ex_desktop cfg (\<lambda>_ _. []) TYPE_STAT db fs of
           Inl _ \<Rightarrow> False
         | Inr (db, fs) \<Rightarrow> length (songs db) = 2)) \<and> atoi ''3'' = 3 \<and> songs ex_db = []"
  by code_simp

theorem songlist_from_database_witness:
  "\<exists>res. generate_songlist ex_desktop ex_wordexp (\<lambda>_. None) (\<lambda>_ _. []) ''now'' ex_tree (\<lambda>x. [min x 9, 5, 7]) [''3''] ex_db ex_here = Inr res \<and>
     (\<forall>status lines. res = Some (status, lines) \<longrightarrow> length lines = 3)"
proof -
  let ?load = "\<lambda>cfg db fs. load_all_meta_data ex_desktop cfg (\<lambda>_ _. []) TYPE_STAT db fs"
  obtain cfg where cfg: "init_config ex_desktop ex_wordexp (\<lambda>_. None) ex_here = Inr cfg"
    using ex_here_test by (cases "init_config ex_desktop ex_wordexp (\<lambda>_. None) ex_here") simp_all
  obtain db1 fs1 where db1: "load_db_filenames ex_desktop cfg ''now'' ex_tree ex_db ex_here = Inr (db1, fs1)"
    using ex_here_test cfg by (cases "load_db_filenames ex_desktop cfg ''now'' ex_tree ex_db ex_here") auto
  obtain db2 fs2 where db2: "?load cfg db1 fs1 = Inr (db2, fs2)"
    using ex_here_test cfg db1 by (cases "?load cfg db1 fs1") auto
  have rest: "length (songs db2) = 2" "atoi ''3'' = 3" "songs ex_db = []"
    using ex_here_test cfg db1 db2 by simp_all
  have rands: "\<forall>x. \<forall>r \<in> set [min x 9, 5, 7]. r \<le> RAND_MAX"
  proof
    fix x :: nat
    have "min x 9 \<le> 9" by simp
    then show "\<forall>r \<in> set [min x 9, 5, 7]. r \<le> RAND_MAX" by (simp add: RAND_MAX_def)
  qed
  show ?thesis
    using songlist_from_database [OF cfg db1 rest(3) db2 _ rands, of "''3''" "[]"] rest(1,2) by auto
qed

end
