(* ===== verification/Main_Program.thy ===== *)
theory Main_Program
  imports Startup Windows Vfd_Text
begin

text \<open>
  \<open>main()\<close> of \<open>src/src/squash.c\<close>: the fifo, the values all shared records begin with, and the end of the
  program, where the state is saved.  Together with \<open>Startup\<close> this is the way from a start to the state the
  other components rely on.  Priorities of threads are left out.
\<close>

section \<open>The beginning\<close>

text \<open>What \<open>stat()\<close> finds under the name of the fifo.\<close>

datatype fifo_there = Nothing_There | Fifo_There | Other_There

text \<open>The exit status, if \<open>main()\<close> gives up; \<open>unlinks\<close> and \<open>makes\<close> are the answers of \<open>unlink()\<close> and \<open>mkfifo()\<close>.\<close>

definition prepare_fifo :: "fifo_there \<Rightarrow> bool \<Rightarrow> bool \<Rightarrow> int option" where
  "prepare_fifo there unlinks makes =
     (if there = Other_There then Some 1
      else if there = Fifo_There \<and> \<not> unlinks then Some 1
      else if \<not> makes then Some 1
      else None)"

text \<open>The sums are not set: static memory is zero.\<close>

definition main_database :: database_info where
  "main_database = \<lparr>songs = [], song_count_allocated = 0, stats_loaded = False, db_sum = 0, db_sqr_sum = 0,
     play_sum = 0, play_sqr_sum = 0, skip_sum = 0, skip_sqr_sum = 0\<rparr>"

definition main_queues :: "config \<Rightarrow> queues" where
  "main_queues cfg =
     \<lparr>q_heap = \<lparr>cells = (\<lambda>_. None), next_address = 0\<rparr>,
      song_queue = \<lparr>q_head = None, q_tail = None, q_size = 0, q_wanted_size = 0, q_selected = 0\<rparr>,
      past_queue = \<lparr>q_head = None, q_tail = None, q_size = 0,
        q_wanted_size = playlist_manager_pastlist_size cfg, q_selected = 0\<rparr>\<rparr>"

definition main_state_info :: state_info where
  "main_state_info =
     \<lparr>raw_songs = [], raw_song_count = 0, raw_song_alloc = 0, current_song = 0, window_states = replicate WIN_COUNT 0,
      cur_window_number = 0, si_volume = 100, si_brightness = 100\<rparr>"

definition main_player :: "config \<Rightarrow> filesys \<Rightarrow> player" where
  "main_player cfg fs =
     \<lparr>p_world = \<lparr>w_db = main_database, w_fs = fs, w_queues = main_queues cfg\<rparr>, p_commands = no_commands,
      p_state = STATE_BIG_STOP, p_song = None, p_position = 0, p_play_state = STATE_BEFORE_SONG, p_cur_song = None,
      p_silence = 0, p_device_open = False, p_sound = [],
      p_buffer = \<lparr>fb_frames = [], fb_pcm_size = 0, fb_song_eof = False, fb_new_file = False, fb_decoder = None\<rparr>,
      p_decoder = \<lparr>dt_decoder = None, dt_new_frame = None, dt_phase = Decoding\<rparr>,
      p_decoders = [], p_next_decoder = 0, p_keeps_locks = False, p_checked = False, p_waits_data = False\<rparr>"

definition main_system :: "config \<Rightarrow> filesys \<Rightarrow> system" where
  "main_system cfg fs =
     \<lparr>sy_player = main_player cfg fs, sy_state = SYSTEM_LOADING, sy_spectrum_active = False,
      sy_state_info = Some main_state_info\<rparr>"

text \<open>\<open>sq_display\<close> is there in a build with curses; the size of the terminal is given.\<close>

record squash_program =
  sq_config :: config
  sq_system :: system
  sq_display :: "display option"
  sq_exit_status :: int
  sq_message :: "string option"

definition main_start ::
  "build \<Rightarrow> expansion \<Rightarrow> (string \<Rightarrow> string option) \<Rightarrow> int \<times> int \<Rightarrow> fifo_there \<Rightarrow> bool \<Rightarrow> bool \<Rightarrow> filesys \<Rightarrow>
     (int + squash_program) result" where
  "main_start b wordexp getenv terminal there unlinks makes fs =
     map_result (\<lambda>cfg.
         case prepare_fifo there unlinks makes of
           Some status \<Rightarrow> Inl status
         | None \<Rightarrow>
           Inr \<lparr>sq_config = cfg, sq_system = main_system cfg fs,
             sq_display = (if NO_NCURSES b then None
               else Some (draw_screen (fst terminal) (snd terminal)
                 \<lparr>d_windows = window_init, d_focus = WIN_NOW_PLAYING, d_too_small = False\<rparr>)),
             sq_exit_status = - 1, sq_message = None\<rparr>)
       (init_config b wordexp getenv fs)"

section \<open>The end\<close>

definition state_code :: "window_state \<Rightarrow> int" where
  "state_code st = (case st of WIN_STATE_NORMAL \<Rightarrow> 0 | WIN_STATE_HIDDEN \<Rightarrow> 1 | WIN_STATE_MAXIMIZED \<Rightarrow> 2)"

text \<open>What \<open>save_state()\<close> finds in the shared records; the volume and the brightness are those of the empeg.\<close>

definition main_status :: "int option \<Rightarrow> int \<Rightarrow> squash_program \<Rightarrow> status" where
  "main_status volume brightness s =
     \<lparr>st_song = p_song (sy_player (sq_system s)), st_position = p_position (sy_player (sq_system s)),
      st_volume = volume, st_brightness = brightness,
      st_windows = (case sq_display s of None \<Rightarrow> replicate WIN_COUNT 0 | Some d \<Rightarrow> map (\<lambda>w. state_code (w_state w)) (d_windows d))\<rparr>"

text \<open>
  What happens once \<open>status_info.exit_status\<close> is not -1 any more: the exit status, what is printed, and the
  files.
\<close>

definition main_end :: "build \<Rightarrow> string \<Rightarrow> int option \<Rightarrow> int \<Rightarrow> squash_program \<Rightarrow> (int \<times> string \<times> filesys) result" where
  "main_end b ctime volume brightness s =
     map_result (\<lambda>(si, fs). (sq_exit_status s, (case sq_message s of None \<Rightarrow> [] | Some m \<Rightarrow> m @ [LF]), fs))
       (save_state b (sq_config s) ctime (main_status volume brightness s) (p_world (sy_player (sq_system s)))
         (case sy_state_info (sq_system s) of None \<Rightarrow> main_state_info | Some si \<Rightarrow> si))"

definition goodbye :: "string option \<Rightarrow> byte list \<Rightarrow> byte list result" where
  "goodbye message buffer =
     and_then (vfd_clear full_clip_area buffer 0) (\<lambda>buffer.
       drawText full_clip_area buffer (case message of None \<Rightarrow> ''Squash Ended'' | Some m \<Rightarrow> m) 0 0 2 3)"

section \<open>From the start to the work\<close>

lemma main_player_start: "main_player cfg fs = start_player \<lparr>w_db = main_database, w_fs = fs, w_queues = main_queues cfg\<rparr>"
  by (simp add: main_player_def start_player_def)

lemma main_queues_hold: "queues_hold (main_queues cfg) [] []"
  using empty_queues_hold [of 0 "playlist_manager_pastlist_size cfg"]
  by (simp add: main_queues_def empty_queues_def empty_queue_def)

lemma queue_song_holds:
  assumes "playlist_queue_song b cfg tags dur song start w = Inr w'" and "queues_hold (w_queues w) xs ys"
  shows "\<exists>xs. queues_hold (w_queues w') xs ys"
proof -
  obtain q where "enqueue_song song start (w_queues w) = Inr q" "w_queues w' = q"
    using assms(1) by (auto simp: playlist_queue_song_def split: option.splits)
  then show ?thesis using enqueue_hold [OF assms(2), of song start] by auto
qed

lemma load_state_turn_holds:
  assumes "load_state_turn b cfg tags dur (si, w) = Inr (si', w')" and "queues_hold (w_queues w) xs ys"
  shows "\<exists>xs. queues_hold (w_queues w') xs ys"
proof -
  consider "w' = w" | i start where "playlist_queue_song b cfg tags dur (Some i) start w = Inr w'"
    using assms(1) by (auto simp: load_state_turn_def split: option.splits)
  then show ?thesis by cases (use queue_song_holds assms(2) in blast)+
qed

lemma load_state_loop_holds:
  "load_state_loop n b cfg tags dur (si, w) = Inr (Some (si', w')) \<Longrightarrow> queues_hold (w_queues w) xs ys \<Longrightarrow>
     \<exists>xs. queues_hold (w_queues w') xs ys"
proof (induction n arbitrary: si w xs)
  case 0
  then show ?case by (auto split: if_splits)
next
  case (Suc n)
  show ?case
  proof (cases "current_song si < raw_song_count si")
    case True
    then obtain si1 w1 where "load_state_turn b cfg tags dur (si, w) = Inr (si1, w1)"
        "load_state_loop n b cfg tags dur (si1, w1) = Inr (Some (si', w'))"
      using Suc.prems(1) by auto
    then show ?thesis using Suc.IH load_state_turn_holds [OF _ Suc.prems(2)] by blast
  next
    case False
    then show ?thesis using Suc.prems by auto
  qed
qed

lemma load_state_holds:
  assumes "load_state b cfg tags dur w = Inr (Some (si, w'))" and "queues_hold (w_queues w) xs ys"
  shows "\<exists>xs. queues_hold (w_queues w') xs ys"
proof -
  obtain si0 r where r: "load_state_loop (nat (raw_song_count si0 - current_song si0)) b cfg tags dur (si0, w) = Inr r"
      and m: "map_option (\<lambda>(si, w). (si\<lparr>raw_songs := [], current_song := 0, raw_song_count := 0, raw_song_alloc := 0\<rparr>, w)) r = Some (si, w')"
    using assms(1) unfolding load_state_def and_then_eq_Inr map_result_eq_Inr by metis
  then obtain si1 where "r = Some (si1, w')" by (cases r) auto
  with r load_state_loop_holds assms(2) show ?thesis by blast
qed

lemma wanted_size_holds:
  "queues_hold (qs\<lparr>song_queue := (song_queue qs)\<lparr>q_wanted_size := n\<rparr>\<rparr>) xs ys \<longleftrightarrow> queues_hold qs xs ys"
  by (simp add: queues_hold_def queues_at_def queue_of_def)

lemma setup_holds:
  assumes "setup_database b cfg tags dur ctime root_dir s = Inr (Some s')" and "queues_hold (w_queues (p_world (sy_player s))) xs ys"
  shows "(\<exists>xs. queues_hold (w_queues (p_world (sy_player s'))) xs ys) \<and> p_state (sy_player s') = p_state (sy_player s) \<and>
    p_song (sy_player s') = p_song (sy_player s) \<and> (buffer_ok (sy_player s) \<longrightarrow> buffer_ok (sy_player s'))"
proof -
  obtain db fs si w where
      state: "load_state b cfg tags dur ((p_world (sy_player s))\<lparr>w_db := db, w_fs := fs\<rparr>) = Inr (Some (si, w))"
    and s': "w_queues (p_world (sy_player s')) = w_queues (want_songs cfg w)"
    and fields: "p_state (sy_player s') = p_state (sy_player s)" "p_song (sy_player s') = p_song (sy_player s)"
    "p_buffer (sy_player s') = p_buffer (sy_player s)" "p_decoder (sy_player s') = p_decoder (sy_player s)"
    "p_decoders (sy_player s') = p_decoders (sy_player s)" "p_next_decoder (sy_player s') = p_next_decoder (sy_player s)"
    using assms(1)
    by (auto simp: setup_database_def setup_filenames_def on_world_def setup_play_def setup_state_def setup_statistics_def
        want_songs_def Let_def Some_eq_map_option split: option.splits)
  obtain zs where "queues_hold (w_queues w) zs ys" using load_state_holds [OF state] assms(2) by auto
  then have "queues_hold (w_queues (p_world (sy_player s'))) zs ys" by (simp add: s' want_songs_def Let_def wanted_size_holds)
  then show ?thesis using fields by (auto simp: buffer_ok_def)
qed


lemma main_prepares_test:
  "case main_start ex_desktop ex_wordexp (\<lambda>_. None) (40, 80) Fifo_There True True ex_here of
     Inr (Inr s) \<Rightarrow>
       (case setup_database ex_desktop (sq_config s) (\<lambda>_ _. []) (\<lambda>_ _. None) ''now'' ex_tree (sq_system s) of
          Inr (Some sys) \<Rightarrow> length (songs (w_db (p_world (sy_player sys)))) = 2
        | _ \<Rightarrow> False)
   | _ \<Rightarrow> False"
  by code_simp


section \<open>Quitting early\<close>

lemma length_find_maximized: "find_maximized i m ws = (ws', m') \<Longrightarrow> length ws' = length ws"
  by (induction ws arbitrary: i m ws' m') (auto split: prod.splits if_splits)

lemma length_count_rows: "count_rows m i rows weights ws = (ws', r) \<Longrightarrow> length ws' = length ws"
  by (induction ws arbitrary: i rows weights ws' r) (auto split: prod.splits if_splits)

lemma length_draw_screen: "length (d_windows (draw_screen h w d)) = length (d_windows d)"
  by (auto simp: draw_screen_def Let_def split: prod.splits option.splits dest!: length_find_maximized length_count_rows)

text \<open>C23. Quitting before the saved state has been read forgets the playlist: \<open>main()\<close> saves the state as it finds it, with an
  empty playlist, over the one that was there, whatever it held.  A line in the fifo or, on the empeg, a power
  failure while the database is being loaded is enough.\<close>
theorem early_quit_forgets_playlist:
  assumes "main_start b wordexp getenv terminal there unlinks makes fs = Inr (Inr s)"
    and "main_end b (t @ [LF]) volume brightness (s\<lparr>sq_exit_status := 0\<rparr>) = Inr (status, lines, fs')"
    and "db_readonly (sq_config s) = 0" and "LF \<notin> set t" and "int32 brightness" and "\<forall>v. volume = Some v \<longrightarrow> int32 v"
    and "int32 (min_save_volume (sq_config s))" and "int32 (max_save_volume (sq_config s))"
  shows "status = 0 \<and> (\<exists>path si. global_state_path (sq_config s) = Some path \<and> files fs' path \<noteq> None \<and>
    read_state b (sq_config s) fs' = Inr si \<and> raw_song_count si = 0)"
proof -
  let ?cfg = "sq_config s" and ?st = "main_status volume brightness (s\<lparr>sq_exit_status := 0\<rparr>)"
  let ?w = "p_world (main_player ?cfg fs)"
  obtain cfg where s: "s = \<lparr>sq_config = cfg, sq_system = main_system cfg fs, sq_display = sq_display s, sq_exit_status = - 1, sq_message = None\<rparr>"
    and windows: "sq_display s = None \<or> (\<exists>d. sq_display s = Some d \<and> length (d_windows d) = 6)"
    using assms(1) by (auto simp: main_start_def length_draw_screen window_init_def split: option.splits)
  have sys: "sq_system s = main_system ?cfg fs" by (subst (1 2) s) simp
  obtain si' where save: "save_state b ?cfg (t @ [LF]) ?st ?w main_state_info = Inr (si', fs')" and status: "status = 0"
    using assms(2) by (auto simp: main_end_def sys main_system_def)
  have code: "int32 (state_code x)" for x by (cases x) (simp_all add: state_code_def int32_def)
  have savable: "state_savable ?cfg t ?st ?w []"
    using assms(3-8) windows code
    by (auto simp: state_savable_def entries_ok_def main_status_def sys main_system_def main_player_def main_database_def
        clamped_volume_def WIN_COUNT_def int32_def split: option.splits)
  have hold: "queues_hold (w_queues ?w) [] []" using main_queues_hold by (simp add: main_player_def)
  have none: "raw_song_count main_state_info \<le> current_song main_state_info" by (simp add: main_state_info_def)
  obtain path where "global_state_path ?cfg = Some path" "files fs' path \<noteq> None"
    using save_state_text [OF save savable hold none] by auto
  moreover obtain si where "read_state b ?cfg fs' = Inr si" "raws_are si (playing_entries (w_db ?w) ?st @ map (saved_entry (w_db ?w)) [])"
    using read_saved_state [OF save savable hold none] by blast
  then have "read_state b ?cfg fs' = Inr si \<and> raw_song_count si = 0"
    by (simp add: raws_are_def playing_entries_def main_status_def sys main_system_def main_player_def)
  ultimately show ?thesis using status by blast
qed

definition ex_home :: filesys where
  "ex_home = ex_here\<lparr>is_dir := (\<lambda>d. d = ''/home/u'')\<rparr>"

lemma early_quit_test:
  "case main_start ex_desktop ex_wordexp (\<lambda>_. None) (40, 80) Fifo_There True True ex_home of
     Inr (Inr s) \<Rightarrow> db_readonly (sq_config s) = 0 \<and> int32 (min_save_volume (sq_config s)) \<and> int32 (max_save_volume (sq_config s)) \<and>
       (case main_end ex_desktop (''now'' @ [LF]) None 100 (s\<lparr>sq_exit_status := 0\<rparr>) of Inr _ \<Rightarrow> True | _ \<Rightarrow> False)
   | _ \<Rightarrow> False"
  by code_simp

theorem early_quit_forgets_playlist_witness:
  "\<exists>s lines fs' si. main_start ex_desktop ex_wordexp (\<lambda>_. None) (40, 80) Fifo_There True True ex_home = Inr (Inr s) \<and>
     main_end ex_desktop (''now'' @ [LF]) None 100 (s\<lparr>sq_exit_status := 0\<rparr>) = Inr (0, lines, fs') \<and>
     read_state ex_desktop (sq_config s) fs' = Inr si \<and> raw_song_count si = 0"
proof -
  obtain s where s: "main_start ex_desktop ex_wordexp (\<lambda>_. None) (40, 80) Fifo_There True True ex_home = Inr (Inr s)"
    using early_quit_test by (fastforce split: sum.splits)
  then obtain status lines fs' where e: "main_end ex_desktop (''now'' @ [LF]) None 100 (s\<lparr>sq_exit_status := 0\<rparr>) = Inr (status, lines, fs')"
    and cfg: "db_readonly (sq_config s) = 0" "int32 (min_save_volume (sq_config s))" "int32 (max_save_volume (sq_config s))"
    using early_quit_test by (auto split: sum.splits)
  have "LF \<notin> set ''now''" "int32 100" by (simp_all add: int32_def)
  with early_quit_forgets_playlist [OF s e cfg(1)] cfg e s show ?thesis by fastforce
qed

section \<open>The last screen\<close>

text \<open>The message at the end stays within the memory of the display of the empeg, however long it is.\<close>

theorem goodbye_stays_on_screen:
  assumes "length buffer = 2048"
  shows "\<exists>buffer'. goodbye message buffer = Inr buffer' \<and> length buffer' = 2048"
proof -
  obtain b where b: "vfd_clear full_clip_area buffer 0 = Inr b" "length b = 2048"
  proof -
    have "fills full_clip_area buffer 0 (\<lambda>u v. True) (vfd_clear full_clip_area buffer 0)"
      by (rule clear_fills [OF clip_ok_simps(1) _ assms]) (simp_all add: full_clip_area_def shade_ok_def)
    then show thesis using that assms by (auto simp: fills_def paints_def)
  qed
  have "shade_ok (word_of_int 3)" by (simp add: shade_ok_def)
  from text_paints [OF clip_ok_simps(1) b(2) _ this, of _ 0 0 2] obtain b' where
    "drawText full_clip_area b (case message of None \<Rightarrow> ''Squash Ended'' | Some m \<Rightarrow> m) 0 0 2 3 = Inr b'" "length b' = length b"
    by (fastforce simp: paints_def)
  then show ?thesis using b by (simp add: goodbye_def)
qed

end
