(* ===== verification/Locks.thy ===== *)
theory Locks
  imports Songs
begin

text \<open>
  Threads that take and release locks: a thread is a script of the calls of
  \<open>squash_lock()\<close>, \<open>squash_unlock()\<close>, their variants for the lock of the database and
  \<open>squash_wait()\<close> (\<open>src/include/global.h\<close>), with the branches and loops of the code between
  them.  A script is checked against an order of the locks, and threads that pass the
  check never come to a deadlock.  The scripts of squash itself are in \<open>Lock_Order\<close>.
\<close>

section \<open>Locks and scripts\<close>

datatype lock =
  STATE_INFO | DISPLAY_INFO | DATABASE_INFO | SONG_QUEUE | PAST_QUEUE | PLAYER_INFO
  | PLAYER_COMMAND | FRAME_BUFFER | SPECTRUM_INFO | SPECTRUM_RING | STATUS_INFO

text \<open>A mutex is only taken exclusively; the lock of the database can be shared by readers.\<close>

datatype mode = Shared | Exclusive

datatype script =
  Return
  | Acquire lock mode
  | Release lock
  | Asleep
  | Then script script
  | Either script script
  | Repeat script

text \<open>
  \<open>Either\<close> leaves the choice of a branch open and \<open>Repeat\<close> the number of rounds, none
  included; \<open>Asleep\<close> lasts until a signal arrives (or a spurious wake-up).
\<close>

fun in_turn :: "script list \<Rightarrow> script" where
  "in_turn [] = Return"
| "in_turn [p] = p"
| "in_turn (p # q # ps) = Then p (in_turn (q # ps))"

fun one_of :: "script list \<Rightarrow> script" where
  "one_of [] = Return"
| "one_of [p] = p"
| "one_of (p # q # ps) = Either p (one_of (q # ps))"

abbreviation squash_lock :: "lock \<Rightarrow> script" where "squash_lock l \<equiv> Acquire l Exclusive"
abbreviation squash_rlock :: "lock \<Rightarrow> script" where "squash_rlock l \<equiv> Acquire l Shared"
abbreviation squash_wlock :: "lock \<Rightarrow> script" where "squash_wlock l \<equiv> Acquire l Exclusive"
abbreviation squash_unlock :: "lock \<Rightarrow> script" where "squash_unlock l \<equiv> Release l"

text \<open>\<open>pthread_cond_wait()\<close> releases the mutex, sleeps and takes the mutex again.\<close>

definition squash_wait :: "lock \<Rightarrow> script" where
  "squash_wait l = in_turn [squash_unlock l, Asleep, squash_lock l]"

section \<open>Running\<close>

datatype label = Silent | Wake | Take lock mode | Drop lock

fun moves :: "script \<Rightarrow> (label \<times> script) list" where
  "moves Return = []"
| "moves (Acquire l m) = [(Take l m, Return)]"
| "moves (Release l) = [(Drop l, Return)]"
| "moves Asleep = [(Wake, Return)]"
| "moves (Then p q) = (if p = Return then [(Silent, q)] else map (\<lambda>(a, p'). (a, Then p' q)) (moves p))"
| "moves (Either p q) = [(Silent, p), (Silent, q)]"
| "moves (Repeat p) = [(Silent, Return), (Silent, Then p (Repeat p))]"

record thread =
  th_code :: script
  th_held :: "(lock \<times> mode) list"

definition new_thread :: "script \<Rightarrow> thread" where
  "new_thread p = \<lparr>th_code = p, th_held = []\<rparr>"

definition perform :: "label \<Rightarrow> (lock \<times> mode) list \<Rightarrow> (lock \<times> mode) list" where
  "perform a h =
     (case a of
        Take l m \<Rightarrow> (l, m) # h
      | Drop l \<Rightarrow> filter (\<lambda>x. fst x \<noteq> l) h
      | _ \<Rightarrow> h)"

definition wants :: "thread \<Rightarrow> lock \<Rightarrow> mode \<Rightarrow> bool" where
  "wants t l m \<longleftrightarrow> list_ex (\<lambda>(a, p). a = Take l m) (moves (th_code t))"

definition compatible :: "lock \<Rightarrow> mode \<Rightarrow> thread \<Rightarrow> bool" where
  "compatible l m t \<longleftrightarrow> list_all (\<lambda>(l', m'). l' = l \<longrightarrow> m = Shared \<and> m' = Shared) (th_held t)"

text \<open>
  A thread that holds a lock waits for itself when it takes it again.  POSIX leaves open
  whether a reader must wait for writers that wait: \<open>writers_first\<close>.
\<close>

definition can_take :: "bool \<Rightarrow> thread list \<Rightarrow> lock \<Rightarrow> mode \<Rightarrow> bool" where
  "can_take writers_first ts l m \<longleftrightarrow>
     list_all (compatible l m) ts \<and>
     \<not> (writers_first \<and> m = Shared \<and> list_ex (\<lambda>t. wants t l Exclusive) ts)"

definition allowed :: "bool \<Rightarrow> thread list \<Rightarrow> label \<Rightarrow> bool" where
  "allowed wr ts a = (case a of Take l m \<Rightarrow> can_take wr ts l m | _ \<Rightarrow> True)"

text \<open>Thread \<open>i\<close> makes its move \<open>k\<close>.\<close>

definition take_turn :: "bool \<Rightarrow> thread list \<Rightarrow> nat \<times> nat \<Rightarrow> thread list option" where
  "take_turn wr ts = (\<lambda>(i, k).
     if i < length ts \<and> k < length (moves (th_code (ts ! i))) \<and> allowed wr ts (fst (moves (th_code (ts ! i)) ! k))
     then Some (ts[i := \<lparr>th_code = snd (moves (th_code (ts ! i)) ! k),
                         th_held = perform (fst (moves (th_code (ts ! i)) ! k)) (th_held (ts ! i))\<rparr>])
     else None)"

text \<open>The same, with each part computed once.\<close>

fun turn :: "bool \<Rightarrow> thread list \<Rightarrow> nat \<Rightarrow> (lock \<times> mode) list \<Rightarrow> (label \<times> script) list \<Rightarrow> thread list option" where
  "turn wr ts i h [] = None"
| "turn wr ts i h ((a, p) # ms) =
     (if allowed wr ts a then Some (ts[i := \<lparr>th_code = p, th_held = perform a h\<rparr>]) else None)"

lemma take_turn_code [code]:
  "take_turn wr ts (i, k) =
     (if i < length ts then turn wr ts i (th_held (ts ! i)) (drop k (moves (th_code (ts ! i)))) else None)"
proof (cases "i < length ts \<and> k < length (moves (th_code (ts ! i)))")
  case True
  then show ?thesis
    by (cases "moves (th_code (ts ! i)) ! k") (simp add: take_turn_def Cons_nth_drop_Suc [symmetric])
qed (auto simp: take_turn_def)

inductive running :: "bool \<Rightarrow> thread list \<Rightarrow> thread list \<Rightarrow> bool" for wr :: bool and start :: "thread list" where
  running_start: "running wr start start"
| running_turn: "running wr start ts \<Longrightarrow> take_turn wr ts ik = Some ts' \<Longrightarrow> running wr start ts'"

text \<open>
  A thread that is stopped at a lock, and one that can go on by itself: it does not wait for
  a signal.
\<close>

definition stopped :: "bool \<Rightarrow> thread list \<Rightarrow> nat \<Rightarrow> lock \<Rightarrow> mode \<Rightarrow> bool" where
  "stopped wr ts i l m \<longleftrightarrow> i < length ts \<and> wants (ts ! i) l m \<and> \<not> can_take wr ts l m"

definition can_go_on :: "bool \<Rightarrow> thread list \<Rightarrow> nat \<Rightarrow> bool" where
  "can_go_on wr ts i \<longleftrightarrow> i < length ts \<and> list_ex (\<lambda>(a, p). a \<noteq> Wake \<and> allowed wr ts a) (moves (th_code (ts ! i)))"

section \<open>The check\<close>

text \<open>
  The place of a lock in an order; the locks a script holds at its end, if it keeps the
  order: a lock is taken only above all locks held, only a lock that is held is
  released, and nothing is held while the thread sleeps.
\<close>

fun place :: "lock list \<Rightarrow> lock \<Rightarrow> nat" where
  "place [] l = 0"
| "place (k # ks) l = (if k = l then 0 else Suc (place ks l))"

fun flow :: "lock list \<Rightarrow> script \<Rightarrow> (lock \<times> mode) list \<Rightarrow> (lock \<times> mode) list option" where
  "flow order Return h = Some h"
| "flow order (Acquire l m) h =
     (if list_all (\<lambda>(k, _). place order k < place order l) h then Some ((l, m) # h) else None)"
| "flow order (Release l) h =
     (if list_ex (\<lambda>(k, _). k = l) h then Some (filter (\<lambda>x. fst x \<noteq> l) h) else None)"
| "flow order Asleep h = (if h = [] then Some [] else None)"
| "flow order (Then p q) h = Option.bind (flow order p h) (flow order q)"
| "flow order (Either p q) h =
     (case flow order p h of
        None \<Rightarrow> None
      | Some h' \<Rightarrow> if flow order q h = Some h' then Some h' else None)"
| "flow order (Repeat p) h = (if flow order p h = Some h then Some h else None)"

definition orderly :: "lock list \<Rightarrow> thread \<Rightarrow> bool" where
  "orderly order t \<longleftrightarrow> flow order (th_code t) (th_held t) = Some []"

lemma place_le: "place order l \<le> length order"
  by (induction order) simp_all

lemma moves_Nil [simp]: "moves p = [] \<longleftrightarrow> p = Return"
  by (induction p) auto

text \<open>What a move may do to the locks held.\<close>

fun may :: "lock list \<Rightarrow> label \<Rightarrow> (lock \<times> mode) list \<Rightarrow> bool" where
  "may order Silent h = True"
| "may order Wake h = (h = [])"
| "may order (Take l m) h = (\<forall>(k, n) \<in> set h. place order k < place order l)"
| "may order (Drop l) h = (\<exists>n. (l, n) \<in> set h)"

lemma flow_moves:
  "flow order p h = Some h' \<Longrightarrow> (a, p') \<in> set (moves p) \<Longrightarrow>
     may order a h \<and> flow order p' (perform a h) = Some h'"
proof (induction p arbitrary: h h' p')
  case (Acquire l m)
  then show ?case by (auto simp: perform_def list_all_iff split: if_splits)
next
  case (Release l)
  then show ?case by (auto simp: perform_def list_ex_iff split: if_splits)
next
  case Asleep
  then show ?case by (auto simp: perform_def split: if_splits)
next
  case (Then p q)
  obtain h1 where h1: "flow order p h = Some h1" "flow order q h1 = Some h'"
    using Then.prems(1) by (cases "flow order p h") auto
  show ?case
  proof (cases "p = Return")
    case True
    then show ?thesis using Then.prems(2) h1 by (simp add: perform_def)
  next
    case False
    then obtain p1 where p1: "(a, p1) \<in> set (moves p)" "p' = Then p1 q"
      using Then.prems(2) by auto
    show ?thesis using Then.IH(1) [OF h1(1) p1(1)] h1(2) by (simp add: p1(2))
  qed
next
  case (Either p q)
  then have "a = Silent" "p' = p \<or> p' = q" "flow order p h = Some h'" "flow order q h = Some h'"
    by (auto split: option.splits if_splits)
  then show ?case by (auto simp: perform_def)
next
  case (Repeat p)
  then have "a = Silent" "p' = Return \<or> p' = Then p (Repeat p)" "flow order p h = Some h" "h' = h"
    by (auto split: if_splits)
  then show ?case by (auto simp: perform_def)
qed simp

lemma take_turn_cases:
  assumes "take_turn wr ts (i, k) = Some ts'"
  obtains a p where "i < length ts" "(a, p) \<in> set (moves (th_code (ts ! i)))" "allowed wr ts a"
    "ts' = ts[i := \<lparr>th_code = p, th_held = perform a (th_held (ts ! i))\<rparr>]"
  using assms that [of "fst (moves (th_code (ts ! i)) ! k)" "snd (moves (th_code (ts ! i)) ! k)"]
  by (auto simp: take_turn_def split: if_splits)

lemma take_turn_orderly:
  assumes "take_turn wr ts ik = Some ts'" and "list_all (orderly order) ts"
  shows "list_all (orderly order) ts'"
proof -
  obtain i k where ik: "ik = (i, k)" by (cases ik)
  obtain a p where m: "i < length ts" "(a, p) \<in> set (moves (th_code (ts ! i)))"
      "ts' = ts[i := \<lparr>th_code = p, th_held = perform a (th_held (ts ! i))\<rparr>]"
    using assms(1) unfolding ik by (rule take_turn_cases)
  have "flow order (th_code (ts ! i)) (th_held (ts ! i)) = Some []"
    using assms(2) m(1) by (simp add: list_all_length orderly_def)
  from flow_moves [OF this m(2)] show ?thesis
    using assms(2) m(1) by (auto simp: m(3) list_all_length orderly_def nth_list_update)
qed

lemma running_orderly:
  "running wr start ts \<Longrightarrow> list_all (orderly order) start \<Longrightarrow> list_all (orderly order) ts"
  by (induction rule: running.induct) (auto intro: take_turn_orderly)

section \<open>No deadlock\<close>

lemma wants_iff: "wants t l m \<longleftrightarrow> (\<exists>p. (Take l m, p) \<in> set (moves (th_code t)))"
  by (auto simp: wants_def list_ex_iff)

text \<open>A thread that holds a lock can go on, or is stopped at a lock further up.\<close>

lemma holder_goes_on:
  assumes "list_all (orderly order) ts" and j: "j < length ts" and held: "(l, m) \<in> set (th_held (ts ! j))"
  shows "can_go_on wr ts j \<or> (\<exists>l' m'. stopped wr ts j l' m' \<and> place order l < place order l')"
proof -
  have fl: "flow order (th_code (ts ! j)) (th_held (ts ! j)) = Some []"
    using assms(1) j by (simp add: list_all_length orderly_def)
  have "th_code (ts ! j) \<noteq> Return" using fl held by auto
  then obtain a p where m: "(a, p) \<in> set (moves (th_code (ts ! j)))"
    by (cases "moves (th_code (ts ! j))") auto
  have may: "may order a (th_held (ts ! j))" using flow_moves [OF fl m] by simp
  show ?thesis
  proof (cases a)
    case (Take l' m')
    then have "wants (ts ! j) l' m'" and "place order l < place order l'"
      using m may held by (auto simp: wants_iff)
    moreover have "can_take wr ts l' m' \<Longrightarrow> can_go_on wr ts j"
      using m Take j by (auto simp: can_go_on_def list_ex_iff allowed_def)
    ultimately show ?thesis using j by (auto simp: stopped_def)
  next
    case Wake
    then show ?thesis using may held by simp
  qed (use m j in \<open>auto simp: can_go_on_def list_ex_iff allowed_def\<close>)
qed

lemma orderly_sleeps:
  assumes "list_all (orderly order) ts" and "i < length ts" and "list_ex (\<lambda>(a, p). a = Wake) (moves (th_code (ts ! i)))"
  shows "th_held (ts ! i) = []"
proof -
  have fl: "flow order (th_code (ts ! i)) (th_held (ts ! i)) = Some []"
    using assms(1,2) by (simp add: list_all_length orderly_def)
  obtain p where "(Wake, p) \<in> set (moves (th_code (ts ! i)))" using assms(3) by (auto simp: list_ex_iff)
  from flow_moves [OF fl this] show ?thesis by simp
qed

text \<open>The one a stopped thread waits for: a holder of its lock, or a writer that goes first.\<close>

lemma stopped_because:
  assumes "stopped wr ts i l m"
  obtains j m' where "j < length ts" "(l, m') \<in> set (th_held (ts ! j))"
    | j where "j < length ts" "wants (ts ! j) l Exclusive" "can_take wr ts l Exclusive"
proof -
  show ?thesis
  proof (cases "list_all (compatible l Exclusive) ts")
    case True
    moreover have "list_all (compatible l m) ts"
      using True by (auto simp: list_all_iff compatible_def)
    ultimately show ?thesis
      using assms that(2) by (auto simp: stopped_def can_take_def list_ex_length)
  next
    case False
    then obtain t where t: "t \<in> set ts" "\<not> compatible l Exclusive t" by (auto simp: list_all_iff)
    then obtain m' where m': "(l, m') \<in> set (th_held t)" by (auto simp: compatible_def list_all_iff)
    obtain n where "n < length ts" "t = ts ! n" using t(1) by (auto simp: in_set_conv_nth)
    then show ?thesis using that(1) m' by blast
  qed
qed

theorem orderly_threads_progress:
  assumes "list_all (orderly order) ts" and "stopped wr ts i l m"
  shows "\<exists>j. can_go_on wr ts j \<and>
    ((\<exists>l' m'. (l', m') \<in> set (th_held (ts ! j)) \<and> place order l \<le> place order l') \<or>
     (\<exists>l'. wants (ts ! j) l' Exclusive \<and> place order l \<le> place order l'))"
  using assms(2)
proof (induction "length order - place order l" arbitrary: i l m rule: less_induct)
  case less
  from stopped_because [OF less.prems] show ?case
  proof cases
    case (1 j m')
    from holder_goes_on [OF assms(1) 1, of wr] show ?thesis
    proof
      assume "can_go_on wr ts j"
      then show ?thesis using 1 by blast
    next
      assume "\<exists>l' m'. stopped wr ts j l' m' \<and> place order l < place order l'"
      then obtain l' m' where up: "stopped wr ts j l' m'" "place order l < place order l'" by blast
      have "length order - place order l' < length order - place order l"
        using up(2) place_le [of order l'] by simp
      from less.hyps [OF this up(1)] obtain k where k: "can_go_on wr ts k \<and>
          ((\<exists>l1 m1. (l1, m1) \<in> set (th_held (ts ! k)) \<and> place order l' \<le> place order l1) \<or>
           (\<exists>l1. wants (ts ! k) l1 Exclusive \<and> place order l' \<le> place order l1))" ..
      show ?thesis by (rule exI [of _ k]) (use k up(2) in \<open>meson le_trans less_imp_le\<close>)
    qed
  next
    case (2 j)
    then have "can_go_on wr ts j" by (auto simp: can_go_on_def wants_iff list_ex_iff allowed_def)
    then show ?thesis using 2 by blast
  qed
qed

section \<open>Deadlock\<close>

text \<open>
  Two threads that hold what the other wants, in modes that exclude each other, stay where
  they are for ever.
\<close>

definition embrace :: "thread list \<Rightarrow> nat \<Rightarrow> lock \<Rightarrow> mode \<Rightarrow> nat \<Rightarrow> lock \<Rightarrow> mode \<Rightarrow> bool" where
  "embrace ts i l m j l' m' \<longleftrightarrow>
     i < length ts \<and> j < length ts \<and> i \<noteq> j \<and>
     moves (th_code (ts ! i)) \<noteq> [] \<and> list_all (\<lambda>(a, p). a = Take l m) (moves (th_code (ts ! i))) \<and>
     moves (th_code (ts ! j)) \<noteq> [] \<and> list_all (\<lambda>(a, p). a = Take l' m') (moves (th_code (ts ! j))) \<and>
     \<not> compatible l m (ts ! j) \<and> \<not> compatible l' m' (ts ! i)"

lemma only_move:
  assumes "moves c \<noteq> []" and "list_all (\<lambda>(a, p). a = x) (moves c)"
  shows "\<exists>p. (x, p) \<in> set (moves c)"
  using assms by (cases "moves c") auto

lemma embrace_stopped:
  assumes "embrace ts i l m j l' m'"
  shows "stopped wr ts i l m \<and> stopped wr ts j l' m' \<and> \<not> can_go_on wr ts i \<and> \<not> can_go_on wr ts j"
proof -
  note e = assms [unfolded embrace_def]
  have want: "wants (ts ! i) l m" "wants (ts ! j) l' m'"
    using only_move e unfolding wants_iff by blast+
  have no: "\<not> can_take wr ts l m" "\<not> can_take wr ts l' m'"
    using e by (auto simp: can_take_def list_all_length)
  have "\<not> can_go_on wr ts i" "\<not> can_go_on wr ts j"
    using e no by (auto simp: can_go_on_def list_ex_iff list_all_iff allowed_def split: label.splits)
  with want no e show ?thesis by (simp add: stopped_def)
qed

lemma embrace_stays:
  assumes "embrace ts i l m j l' m'" and "take_turn wr ts ik = Some ts'"
  shows "embrace ts' i l m j l' m' \<and> ts' ! i = ts ! i \<and> ts' ! j = ts ! j"
proof -
  obtain n k where ik: "ik = (n, k)" by (cases ik)
  obtain a p where m: "n < length ts" "(a, p) \<in> set (moves (th_code (ts ! n)))" "allowed wr ts a"
      "ts' = ts[n := \<lparr>th_code = p, th_held = perform a (th_held (ts ! n))\<rparr>]"
    using assms(2) unfolding ik by (rule take_turn_cases)
  have "n \<noteq> i" "n \<noteq> j"
    using m(1-3) assms(1)
    by (auto simp: embrace_def allowed_def can_take_def list_all_iff list_all_length)
  then show ?thesis using assms(1) by (simp add: embrace_def m(4))
qed

lemma embrace_for_ever:
  assumes "running wr ts ts'" and "embrace ts i l m j l' m'"
  shows "embrace ts' i l m j l' m' \<and> ts' ! i = ts ! i \<and> ts' ! j = ts ! j"
  using assms by (induction rule: running.induct) (auto dest: embrace_stays)

lemma held_for_ever:
  assumes "running wr ts ts'" and "embrace ts i l m j l' m'" and "(k, n) \<in> set (th_held (ts ! i)) \<union> set (th_held (ts ! j))"
  shows "\<not> can_take wr ts' k Exclusive"
proof -
  have e: "embrace ts' i l m j l' m'" "ts' ! i = ts ! i" "ts' ! j = ts ! j"
    using embrace_for_ever [OF assms(1,2)] by simp_all
  have len: "i < length ts'" "j < length ts'" using e(1) unfolding embrace_def by blast+
  have "\<not> compatible k Exclusive (ts' ! i) \<or> \<not> compatible k Exclusive (ts' ! j)"
    using assms(3) unfolding e(2,3) compatible_def list_all_iff by blast
  then show ?thesis using len unfolding can_take_def list_all_length by blast
qed

text \<open>
  Thread \<open>i\<close> runs \<open>n\<close> moves far, or until it is stopped; where it has a choice it takes the
  numbers given.
\<close>

fun drive :: "bool \<Rightarrow> nat \<Rightarrow> nat \<Rightarrow> nat list \<Rightarrow> thread list \<Rightarrow> thread list" where
  "drive wr i 0 choices ts = ts"
| "drive wr i (Suc n) choices ts =
     (case moves (th_code (ts ! i)) of
        [] \<Rightarrow> ts
      | [_] \<Rightarrow> (case take_turn wr ts (i, 0) of None \<Rightarrow> ts | Some ts' \<Rightarrow> drive wr i n choices ts')
      | _ \<Rightarrow>
        (case choices of
           [] \<Rightarrow> ts
         | c # later \<Rightarrow> (case take_turn wr ts (i, c) of None \<Rightarrow> ts | Some ts' \<Rightarrow> drive wr i n later ts')))"

lemma drive_running: "running wr start ts \<Longrightarrow> running wr start (drive wr i n choices ts)"
  by (induction n arbitrary: choices ts) (auto intro: running.intros split: list.split option.split)

end
