(* ===== verification/Lock_Order.thy ===== *)
theory Lock_Order
  imports Locks
begin

text \<open>
  The locking of squash: the script of every thread that \<open>main()\<close> starts, function by
  function, the order of \<open>doc/LOCKS\<close>, and which threads keep it.  Locks that only the
  debugging log uses are left out, and so are signals: a thread that sleeps may wake up at
  any time.
\<close>

section \<open>Drawing\<close>

definition draw_screen_locks :: "build \<Rightarrow> script" where
  "draw_screen_locks b =
     (if NO_NCURSES b then Return
      else one_of [Return, in_turn
        [squash_rlock DATABASE_INFO, squash_lock SONG_QUEUE, squash_lock PAST_QUEUE, squash_lock PLAYER_INFO,
         squash_lock SPECTRUM_INFO,
         squash_unlock SPECTRUM_INFO, squash_unlock PLAYER_INFO, squash_unlock PAST_QUEUE, squash_unlock SONG_QUEUE,
         squash_unlock DATABASE_INFO]])"

definition display_monitor_locks :: script where
  "display_monitor_locks = Repeat (in_turn
     [squash_lock DISPLAY_INFO, squash_wait DISPLAY_INFO,
      squash_rlock DATABASE_INFO, squash_lock SONG_QUEUE, squash_lock PAST_QUEUE, squash_lock PLAYER_INFO,
      squash_unlock PLAYER_INFO, squash_unlock SONG_QUEUE, squash_unlock PAST_QUEUE, squash_unlock DATABASE_INFO,
      squash_unlock DISPLAY_INFO])"

definition screen_redraw_locks :: "build \<Rightarrow> script" where
  "screen_redraw_locks b = Repeat (in_turn
     [squash_lock DISPLAY_INFO, one_of [Return, draw_screen_locks b], squash_unlock DISPLAY_INFO])"

section \<open>The database and the state\<close>

definition load_all_meta_data_locks :: "build \<Rightarrow> meta_type \<Rightarrow> script" where
  "load_all_meta_data_locks b which =
     in_turn
      [if EMPEG b then squash_rlock DATABASE_INFO else squash_wlock DATABASE_INFO,
       Repeat
        (let load = if EMPEG b then in_turn [squash_unlock DATABASE_INFO, squash_rlock DATABASE_INFO] else Return in
         in_turn
          [if EMPEG b then in_turn [squash_unlock DATABASE_INFO, squash_wlock DATABASE_INFO] else Return,
           if which = TYPE_META then one_of [squash_unlock DATABASE_INFO, load] else load]),
       squash_unlock DATABASE_INFO]"

definition start_song_picker_locks :: "build \<Rightarrow> script" where
  "start_song_picker_locks b =
     in_turn
      [squash_wlock DATABASE_INFO,
       if EMPEG b then Repeat (in_turn [squash_unlock DATABASE_INFO, squash_wlock DATABASE_INFO]) else Return,
       squash_unlock DATABASE_INFO]"

definition load_state_locks :: "build \<Rightarrow> script" where
  "load_state_locks b =
     in_turn
      [squash_lock STATE_INFO,
       if EMPEG b then in_turn [squash_lock DISPLAY_INFO, squash_unlock DISPLAY_INFO] else Return,
       squash_unlock STATE_INFO,
       if NO_NCURSES b then Return
       else in_turn [squash_lock STATE_INFO, squash_lock DISPLAY_INFO, squash_unlock DISPLAY_INFO, squash_unlock STATE_INFO],
       squash_lock STATE_INFO,
       Repeat (in_turn
         [squash_wlock DATABASE_INFO, squash_lock SONG_QUEUE, squash_unlock DATABASE_INFO, squash_unlock SONG_QUEUE,
          squash_unlock STATE_INFO, squash_lock STATE_INFO]),
       squash_unlock STATE_INFO]"

definition state_saver_locks :: script where
  "state_saver_locks = Repeat (in_turn
     [squash_lock STATE_INFO, squash_lock DISPLAY_INFO, squash_rlock DATABASE_INFO, squash_lock SONG_QUEUE, squash_lock PLAYER_INFO,
      squash_unlock PLAYER_INFO, squash_unlock SONG_QUEUE, squash_unlock DATABASE_INFO, squash_unlock DISPLAY_INFO,
      squash_unlock STATE_INFO])"

definition setup_database_locks :: "build \<Rightarrow> script" where
  "setup_database_locks b =
     in_turn
      [squash_lock DISPLAY_INFO, squash_wlock DATABASE_INFO, squash_unlock DATABASE_INFO, squash_unlock DISPLAY_INFO,
       squash_lock SPECTRUM_RING, squash_unlock SPECTRUM_RING,
       squash_lock PLAYER_COMMAND, squash_unlock PLAYER_COMMAND,
       load_state_locks b,
       draw_screen_locks b,
       squash_lock SONG_QUEUE, squash_unlock SONG_QUEUE,
       load_all_meta_data_locks b TYPE_STAT,
       start_song_picker_locks b]"

definition playlist_manager_locks :: script where
  "playlist_manager_locks =
     (let again = in_turn
            [squash_unlock DATABASE_INFO, squash_wait SONG_QUEUE, squash_unlock SONG_QUEUE,
             squash_wlock DATABASE_INFO, squash_lock SONG_QUEUE] in
      in_turn
       [squash_lock SONG_QUEUE, Repeat (squash_wait SONG_QUEUE), squash_unlock SONG_QUEUE,
        Repeat (in_turn
          [squash_wlock DATABASE_INFO, squash_lock SONG_QUEUE, Repeat again, Repeat again,
           squash_unlock SONG_QUEUE, squash_unlock DATABASE_INFO])])"

section \<open>The spectrum analyser\<close>

definition spectrum_monitor_locks :: script where
  "spectrum_monitor_locks = Repeat (in_turn
     [squash_lock DISPLAY_INFO, squash_lock SPECTRUM_INFO, squash_lock SPECTRUM_RING,
      Repeat (in_turn
        [squash_unlock SPECTRUM_INFO, squash_unlock SPECTRUM_RING, squash_wait DISPLAY_INFO,
         squash_lock SPECTRUM_INFO, squash_lock SPECTRUM_RING]),
      squash_unlock SPECTRUM_RING, squash_unlock SPECTRUM_INFO, squash_unlock DISPLAY_INFO])"

definition spectrum_reset_locks :: script where
  "spectrum_reset_locks =
     in_turn [squash_lock SPECTRUM_RING, squash_lock SPECTRUM_INFO, squash_unlock SPECTRUM_INFO, squash_unlock SPECTRUM_RING]"

definition spectrum_update_locks :: script where
  "spectrum_update_locks = in_turn [squash_lock SPECTRUM_RING, squash_unlock SPECTRUM_RING]"

section \<open>The player\<close>

definition frame_decoder_locks :: script where
  "frame_decoder_locks = Repeat (in_turn
     [squash_lock FRAME_BUFFER, Repeat (squash_wait FRAME_BUFFER), squash_unlock FRAME_BUFFER])"

text \<open>
  \<open>reset\<close> stands for \<open>spectrum_reset()\<close>.  The commands: only \<open>CMD_STOP\<close> calls it.
\<close>

definition commands_locks :: "script \<Rightarrow> script" where
  "commands_locks reset = in_turn
     [squash_unlock PLAYER_COMMAND,
      squash_wlock DATABASE_INFO, squash_lock PLAYER_INFO, squash_lock PLAYER_COMMAND, squash_lock FRAME_BUFFER,
      Repeat (one_of [Return, reset]),
      squash_unlock PLAYER_INFO, squash_unlock FRAME_BUFFER, squash_unlock DATABASE_INFO]"

text \<open>
  A song of known type; for one of unknown type the loop continues with three locks held,
  which ends the thread in a lock it holds itself (see \<open>Playback_Correct\<close>).
\<close>

definition begin_song_locks :: "script \<Rightarrow> script" where
  "begin_song_locks reset = in_turn
     [squash_rlock DATABASE_INFO, squash_lock SONG_QUEUE, squash_lock PLAYER_INFO, squash_lock FRAME_BUFFER,
      Repeat (in_turn
        [squash_unlock FRAME_BUFFER, squash_unlock PLAYER_INFO, squash_unlock DATABASE_INFO,
         squash_wait SONG_QUEUE, squash_unlock SONG_QUEUE,
         squash_rlock DATABASE_INFO, squash_lock SONG_QUEUE, squash_lock PLAYER_INFO, squash_lock FRAME_BUFFER]),
      squash_unlock SONG_QUEUE, squash_unlock FRAME_BUFFER, squash_unlock DATABASE_INFO, squash_unlock PLAYER_INFO,
      reset]"

definition play_frame_locks :: script where
  "play_frame_locks = in_turn
     [squash_lock FRAME_BUFFER,
      one_of
       [in_turn [squash_unlock FRAME_BUFFER,
          one_of
           [in_turn [squash_wlock DATABASE_INFO, squash_unlock DATABASE_INFO],
            Return,
            in_turn [spectrum_update_locks, squash_lock PLAYER_INFO, squash_unlock PLAYER_INFO]]],
        in_turn [squash_wait FRAME_BUFFER, squash_unlock FRAME_BUFFER]]]"

definition end_song_locks :: script where
  "end_song_locks = in_turn
     [squash_rlock DATABASE_INFO, squash_lock PAST_QUEUE, squash_unlock PAST_QUEUE, squash_unlock DATABASE_INFO,
      squash_lock PLAYER_INFO, squash_unlock PLAYER_INFO]"

definition player_locks :: "script \<Rightarrow> script" where
  "player_locks reset = Repeat (in_turn
     [squash_lock PLAYER_COMMAND,
      one_of [Return, commands_locks reset],
      one_of
       [in_turn [squash_wait PLAYER_COMMAND, squash_unlock PLAYER_COMMAND],
        in_turn [squash_unlock PLAYER_COMMAND, one_of [begin_song_locks reset, play_frame_locks, end_song_locks]]]])"

section \<open>Input\<close>

definition do_remove_playlist_entry_locks :: "build \<Rightarrow> script" where
  "do_remove_playlist_entry_locks b =
     (if EMPEG b
      then in_turn [squash_wlock DATABASE_INFO, squash_lock SONG_QUEUE, squash_unlock SONG_QUEUE, squash_unlock DATABASE_INFO]
      else Return)"

definition do_song_rating_adjust_locks :: "build \<Rightarrow> script" where
  "do_song_rating_adjust_locks b = in_turn
     [if EMPEG b then Return
      else one_of
       [Return,
        in_turn [squash_lock SONG_QUEUE, squash_unlock SONG_QUEUE],
        in_turn [squash_lock PAST_QUEUE, squash_unlock PAST_QUEUE]],
      one_of [Return, in_turn [squash_wlock DATABASE_INFO, squash_unlock DATABASE_INFO]]]"

definition do_clear_locks :: script where
  "do_clear_locks = in_turn [squash_lock DISPLAY_INFO, squash_unlock DISPLAY_INFO]"

definition do_resize_locks :: "build \<Rightarrow> script" where
  "do_resize_locks b = in_turn [squash_lock DISPLAY_INFO, draw_screen_locks b, squash_unlock DISPLAY_INFO]"

definition do_quit_locks :: script where
  "do_quit_locks = in_turn [squash_lock STATUS_INFO, squash_unlock STATUS_INFO]"

definition do_set_player_command_locks :: script where
  "do_set_player_command_locks = in_turn [squash_lock PLAYER_COMMAND, squash_unlock PLAYER_COMMAND]"

definition do_toggle_player_command_locks :: script where
  "do_toggle_player_command_locks = in_turn
     [squash_lock PLAYER_INFO, squash_lock PLAYER_COMMAND, squash_unlock PLAYER_COMMAND, squash_unlock PLAYER_INFO]"

definition do_toggle_spectrum_state_locks :: "build \<Rightarrow> script" where
  "do_toggle_spectrum_state_locks b = in_turn
     [squash_lock DISPLAY_INFO, squash_lock SPECTRUM_RING, squash_unlock SPECTRUM_RING,
      draw_screen_locks b, squash_unlock DISPLAY_INFO]"

definition do_toggle_info_command_locks :: "build \<Rightarrow> script" where
  "do_toggle_info_command_locks b = in_turn [squash_lock DISPLAY_INFO, draw_screen_locks b, squash_unlock DISPLAY_INFO]"

definition do_arrow_locks :: script where
  "do_arrow_locks = in_turn
     [squash_lock DISPLAY_INFO,
      one_of
       [Return,
        in_turn [squash_lock SONG_QUEUE, squash_unlock SONG_QUEUE],
        in_turn [squash_lock PAST_QUEUE, squash_unlock PAST_QUEUE]],
      squash_unlock DISPLAY_INFO]"

definition do_delete_locks :: script where
  "do_delete_locks = in_turn
     [squash_lock DISPLAY_INFO, squash_wlock DATABASE_INFO,
      one_of
       [in_turn [squash_unlock DATABASE_INFO, squash_unlock DISPLAY_INFO],
        in_turn [squash_lock SONG_QUEUE, squash_unlock SONG_QUEUE, squash_unlock DATABASE_INFO, squash_unlock DISPLAY_INFO]]]"

definition do_tab_locks :: "build \<Rightarrow> script" where
  "do_tab_locks b = in_turn [squash_lock DISPLAY_INFO, draw_screen_locks b, squash_unlock DISPLAY_INFO]"

text \<open>\<open>both\<close> stands for the two calls at the start of \<open>do_edit_command()\<close>.  That the editor can be started is assumed.\<close>

definition do_edit_command_locks :: "build \<Rightarrow> script \<Rightarrow> script" where
  "do_edit_command_locks b both = in_turn
     [both,
      one_of
       [in_turn [squash_lock PLAYER_INFO, squash_unlock PLAYER_INFO],
        in_turn [squash_lock SONG_QUEUE, squash_unlock SONG_QUEUE],
        in_turn [squash_lock PAST_QUEUE, squash_unlock PAST_QUEUE],
        Return],
      squash_unlock DATABASE_INFO,
      one_of
       [squash_unlock DISPLAY_INFO,
        in_turn [squash_wlock DATABASE_INFO, squash_unlock DATABASE_INFO, draw_screen_locks b, squash_unlock DISPLAY_INFO]]]"

definition edit_locks :: script where
  "edit_locks = in_turn [squash_rlock DATABASE_INFO, squash_lock DISPLAY_INFO]"

definition keyboard_monitor_locks :: "build \<Rightarrow> script \<Rightarrow> script" where
  "keyboard_monitor_locks b both = Repeat (in_turn
     [squash_lock DISPLAY_INFO, squash_unlock DISPLAY_INFO,
      one_of
       [Return, do_edit_command_locks b both, in_turn [do_clear_locks, do_resize_locks b], do_resize_locks b, do_quit_locks,
        do_toggle_spectrum_state_locks b, do_toggle_player_command_locks, do_set_player_command_locks,
        do_toggle_info_command_locks b, do_tab_locks b, do_song_rating_adjust_locks b, do_delete_locks, do_arrow_locks]])"

definition fifo_monitor_locks :: "build \<Rightarrow> script \<Rightarrow> script" where
  "fifo_monitor_locks b both = Repeat (one_of
     ((if NO_NCURSES b then []
       else [do_delete_locks, do_edit_command_locks b both, in_turn [do_clear_locks, do_resize_locks b],
         do_toggle_spectrum_state_locks b, do_toggle_info_command_locks b, do_tab_locks b, do_arrow_locks]) @
      [do_song_rating_adjust_locks b, do_quit_locks, do_set_player_command_locks, do_toggle_player_command_locks]))"

definition process_ir_event_locks :: "build \<Rightarrow> script" where
  "process_ir_event_locks b = in_turn
     [squash_lock DISPLAY_INFO,
      one_of
       [Return, start_song_picker_locks b, do_remove_playlist_entry_locks b,
        in_turn [squash_lock PLAYER_INFO, squash_unlock PLAYER_INFO],
        do_toggle_player_command_locks, do_set_player_command_locks, do_quit_locks, do_song_rating_adjust_locks b,
        in_turn [squash_lock SONG_QUEUE, squash_unlock SONG_QUEUE]],
      squash_unlock DISPLAY_INFO]"

definition power_locks :: script where
  "power_locks = one_of [Return, in_turn [squash_lock STATUS_INFO, squash_unlock STATUS_INFO]]"

section \<open>The threads\<close>

definition threads :: "build \<Rightarrow> script \<Rightarrow> script \<Rightarrow> thread list" where
  "threads b reset both = map new_thread
     ([display_monitor_locks, setup_database_locks b, playlist_manager_locks] @
      (if EMPEG b then [] else [spectrum_monitor_locks]) @
      [frame_decoder_locks, player_locks reset, fifo_monitor_locks b both] @
      (if EMPEG b then [Repeat (process_ir_event_locks b), power_locks] else []) @
      [state_saver_locks] @
      (if NO_NCURSES b then [] else [keyboard_monitor_locks b both, screen_redraw_locks b]))"

definition squash_threads :: "build \<Rightarrow> thread list" where
  "squash_threads b = threads b spectrum_reset_locks edit_locks"

text \<open>The order of \<open>doc/LOCKS\<close>, and the one the empeg keeps.\<close>

definition doc_order :: "lock list" where
  "doc_order =
     [STATE_INFO, DISPLAY_INFO, DATABASE_INFO, SONG_QUEUE, PAST_QUEUE, PLAYER_INFO, PLAYER_COMMAND, FRAME_BUFFER,
      SPECTRUM_INFO, SPECTRUM_RING, STATUS_INFO]"

definition empeg_order :: "lock list" where
  "empeg_order =
     [STATE_INFO, DISPLAY_INFO, DATABASE_INFO, SONG_QUEUE, PAST_QUEUE, PLAYER_INFO, PLAYER_COMMAND, FRAME_BUFFER,
      SPECTRUM_RING, SPECTRUM_INFO, STATUS_INFO]"

text \<open>Threads of which none is stopped without another that can go on and stands in its way.\<close>

definition deadlock_free :: "lock list \<Rightarrow> thread list \<Rightarrow> bool" where
  "deadlock_free order start \<longleftrightarrow>
     (\<forall>wr ts i l m. running wr start ts \<and> stopped wr ts i l m \<longrightarrow>
       (\<exists>j. can_go_on wr ts j \<and>
         ((\<exists>l' m'. (l', m') \<in> set (th_held (ts ! j)) \<and> place order l \<le> place order l') \<or>
          (\<exists>l'. wants (ts ! j) l' Exclusive \<and> place order l \<le> place order l'))))"

lemma orderly_deadlock_free:
  assumes "list_all (orderly order) start"
  shows "deadlock_free order start"
  using orderly_threads_progress running_orderly [OF _ assms] unfolding deadlock_free_def by blast

section \<open>Which threads keep the order\<close>

lemmas build_locks =
  threads_def setup_database_locks_def screen_redraw_locks_def draw_screen_locks_def load_all_meta_data_locks_def
  start_song_picker_locks_def load_state_locks_def do_remove_playlist_entry_locks_def do_song_rating_adjust_locks_def
  do_resize_locks_def do_toggle_spectrum_state_locks_def do_toggle_info_command_locks_def do_tab_locks_def
  do_edit_command_locks_def keyboard_monitor_locks_def fifo_monitor_locks_def process_ir_event_locks_def

definition empeg_build :: build where
  "empeg_build = \<lparr>EMPEG = True, EMPEG_DSP = True, NO_NCURSES = True, USE_MAGIC = False, NO_VORBIS_COMMENT = True, NO_ID3LIB = True\<rparr>"

definition desktop_build :: build where
  "desktop_build = \<lparr>EMPEG = False, EMPEG_DSP = False, NO_NCURSES = False, USE_MAGIC = False, NO_VORBIS_COMMENT = False, NO_ID3LIB = False\<rparr>"

lemma threads_empeg: "EMPEG b \<Longrightarrow> NO_NCURSES b \<Longrightarrow> threads b reset both = threads empeg_build reset both"
  by (simp add: build_locks empeg_build_def)

lemma threads_desktop: "\<not> EMPEG b \<Longrightarrow> \<not> NO_NCURSES b \<Longrightarrow> threads b reset both = threads desktop_build reset both"
  by (simp add: build_locks desktop_build_def)

lemma empeg_orderly: "list_all (orderly empeg_order) (squash_threads empeg_build)"
  by code_simp

definition reset_in_order :: script where
  "reset_in_order =
     in_turn [squash_lock SPECTRUM_INFO, squash_lock SPECTRUM_RING, squash_unlock SPECTRUM_RING, squash_unlock SPECTRUM_INFO]"

definition edit_in_order :: script where
  "edit_in_order = in_turn [squash_lock DISPLAY_INFO, squash_rlock DATABASE_INFO]"

lemma repaired_orderly: "list_all (orderly doc_order) (threads desktop_build reset_in_order edit_in_order)"
  by code_simp

lemma desktop_offenders:
  "map (orderly doc_order) (squash_threads desktop_build) = [True, True, True, True, True, False, False, True, False, True]"
  by code_simp





section \<open>The desktop build as it is\<close>

text \<open>The database thread runs to its end, with one saved song and a screen that is large enough.\<close>

definition after_setup :: "bool \<Rightarrow> thread list" where
  "after_setup wr = drive wr 1 200 [1, 0, 1, 1, 0] (squash_threads desktop_build)"

lemma after_setup_running: "running wr (squash_threads desktop_build) (after_setup wr)"
  unfolding after_setup_def by (intro drive_running running_start)

text \<open>The analyser stops between two locks; the player reads \<open>CMD_PLAY\<close> and begins a song.\<close>

definition analyser_meets_player :: "bool \<Rightarrow> thread list" where
  "analyser_meets_player wr = drive wr 5 100 [1, 1, 1, 0, 0, 1, 0, 0] (drive wr 3 5 [1] (after_setup wr))"

definition analyser_stuck :: "thread list \<Rightarrow> bool" where
  "analyser_stuck ts \<longleftrightarrow>
     th_code (ts ! 1) = Return \<and> list_ex (\<lambda>x. x = (DISPLAY_INFO, Exclusive)) (th_held (ts ! 3)) \<and>
     embrace ts 3 SPECTRUM_RING Exclusive 5 SPECTRUM_INFO Exclusive"

lemma analyser_stuck_test: "analyser_stuck (analyser_meets_player True)" "analyser_stuck (analyser_meets_player False)"
  by code_simp+

lemma analyser_embrace:
  "(DISPLAY_INFO, Exclusive) \<in> set (th_held (analyser_meets_player wr ! 3)) \<and>
   embrace (analyser_meets_player wr) 3 SPECTRUM_RING Exclusive 5 SPECTRUM_INFO Exclusive"
  using analyser_stuck_test by (cases wr) (simp_all add: analyser_stuck_def list_ex_iff)

text \<open>The key \<open>e\<close> is pressed while the line \<open>delete\<close> is read from the fifo.\<close>

definition edit_meets_delete :: "bool \<Rightarrow> thread list" where
  "edit_meets_delete wr = drive wr 6 50 [1, 0] (drive wr 8 9 [1, 1, 0] (after_setup wr))"

definition edit_stuck :: "thread list \<Rightarrow> bool" where
  "edit_stuck ts \<longleftrightarrow>
     th_code (ts ! 1) = Return \<and> list_ex (\<lambda>x. x = (DISPLAY_INFO, Exclusive)) (th_held (ts ! 6)) \<and>
     embrace ts 8 DISPLAY_INFO Exclusive 6 DATABASE_INFO Exclusive"

lemma edit_stuck_test: "edit_stuck (edit_meets_delete True)" "edit_stuck (edit_meets_delete False)"
  by code_simp+

lemma edit_embrace:
  "(DISPLAY_INFO, Exclusive) \<in> set (th_held (edit_meets_delete wr ! 6)) \<and>
   embrace (edit_meets_delete wr) 8 DISPLAY_INFO Exclusive 6 DATABASE_INFO Exclusive"
  using edit_stuck_test by (cases wr) (simp_all add: edit_stuck_def list_ex_iff)

lemma embrace_deadlock:
  assumes "running wr (squash_threads desktop_build) ts" and "embrace ts i l m j l' m'"
    and "(DISPLAY_INFO, n) \<in> set (th_held (ts ! i)) \<union> set (th_held (ts ! j))"
    and "\<not> EMPEG b" and "\<not> NO_NCURSES b"
  shows "\<exists>ts. running wr (squash_threads b) ts \<and>
    (\<forall>ts'. running wr ts ts' \<longrightarrow>
       stopped wr ts' i l m \<and> stopped wr ts' j l' m' \<and> \<not> can_go_on wr ts' i \<and> \<not> can_go_on wr ts' j \<and>
       \<not> can_take wr ts' DISPLAY_INFO Exclusive)"
  using assms(1) threads_desktop [OF assms(4,5)] embrace_stopped embrace_for_ever [OF _ assms(2)]
    held_for_ever [OF _ assms(2,3)]
  unfolding squash_threads_def by metis

text \<open>C22. The desktop build can lock itself up when a song begins: the player is in \<open>spectrum_reset()\<close> with the ring and
  wants the analyser, \<open>spectrum_monitor()\<close> has the analyser and wants the ring.  Neither ever
  goes on, and since the latter has the display, no key is read any more.\<close>
theorem analyser_can_deadlock:
  assumes "\<not> EMPEG b" and "\<not> NO_NCURSES b"
  shows "\<exists>ts. running wr (squash_threads b) ts \<and>
    (\<forall>ts'. running wr ts ts' \<longrightarrow>
       stopped wr ts' 3 SPECTRUM_RING Exclusive \<and> stopped wr ts' 5 SPECTRUM_INFO Exclusive \<and>
       \<not> can_go_on wr ts' 3 \<and> \<not> can_go_on wr ts' 5 \<and> \<not> can_take wr ts' DISPLAY_INFO Exclusive)"
proof (rule embrace_deadlock [OF _ _ _ assms])
  show "running wr (squash_threads desktop_build) (analyser_meets_player wr)"
    unfolding analyser_meets_player_def by (intro drive_running after_setup_running)
qed (use analyser_embrace in blast)+

theorem analyser_can_deadlock_witness:
  "\<exists>ts. running True (squash_threads desktop_build) ts \<and> \<not> can_go_on True ts 5"
proof -
  obtain ts where "running True (squash_threads desktop_build) ts"
      "\<forall>ts'. running True ts ts' \<longrightarrow> \<not> can_go_on True ts' 5"
    using analyser_can_deadlock [of desktop_build True] by (auto simp: desktop_build_def)
  then show ?thesis using running_start by blast
qed

text \<open>It can also lock itself up when a song is edited: \<open>do_edit_command()\<close> has the database and wants the display,
  \<open>do_delete()\<close>, called by the other input thread, has the display and wants to write to the
  database.\<close>
theorem editor_can_deadlock:
  assumes "\<not> EMPEG b" and "\<not> NO_NCURSES b"
  shows "\<exists>ts. running wr (squash_threads b) ts \<and>
    (\<forall>ts'. running wr ts ts' \<longrightarrow>
       stopped wr ts' 8 DISPLAY_INFO Exclusive \<and> stopped wr ts' 6 DATABASE_INFO Exclusive \<and>
       \<not> can_go_on wr ts' 8 \<and> \<not> can_go_on wr ts' 6 \<and> \<not> can_take wr ts' DISPLAY_INFO Exclusive)"
proof (rule embrace_deadlock [OF _ _ _ assms])
  show "running wr (squash_threads desktop_build) (edit_meets_delete wr)"
    unfolding edit_meets_delete_def by (intro drive_running after_setup_running)
qed (use edit_embrace in blast)+

theorem editor_can_deadlock_witness:
  "\<exists>ts. running False (squash_threads desktop_build) ts \<and> \<not> can_go_on False ts 8"
proof -
  obtain ts where "running False (squash_threads desktop_build) ts"
      "\<forall>ts'. running False ts ts' \<longrightarrow> \<not> can_go_on False ts' 8"
    using editor_can_deadlock [of desktop_build False] by (auto simp: desktop_build_def)
  then show ?thesis using running_start by blast
qed

section \<open>Shutting down\<close>

text \<open>
  The end of \<open>main()\<close>: it holds the status, cancels all threads but the one of the database
  and takes the state to save it.  A thread that is cancelled keeps the locks it holds: no
  thread of squash has a cleanup handler.
\<close>

definition cancel :: "thread \<Rightarrow> thread" where
  "cancel t = t\<lparr>th_code := Return\<rparr>"

definition shut_down :: "thread list \<Rightarrow> thread list" where
  "shut_down ts =
     map cancel (take 1 ts) @ [ts ! 1] @ map cancel (drop 2 ts) @
     [\<lparr>th_code = in_turn [squash_lock STATE_INFO, squash_unlock STATE_INFO], th_held = [(STATUS_INFO, Exclusive)]\<rparr>]"

lemma cancelled_stay:
  assumes "running wr start ts" and "i < length start" and "th_code (start ! i) = Return"
  shows "i < length ts \<and> ts ! i = start ! i"
  using assms(1)
proof (induction rule: running.induct)
  case (running_turn ts ik ts')
  obtain n k where ik: "ik = (n, k)" by (cases ik)
  obtain a p where m: "n < length ts" "(a, p) \<in> set (moves (th_code (ts ! n)))"
      "ts' = ts[n := \<lparr>th_code = p, th_held = perform a (th_held (ts ! n))\<rparr>]"
    using running_turn.hyps(2) unfolding ik by (rule take_turn_cases)
  have "n \<noteq> i" using m(2) running_turn.IH assms(3) by auto
  then show ?case using running_turn.IH by (simp add: m(3))
qed (use assms(2) in simp)

definition saver_saves :: "thread list" where
  "saver_saves = drive True 7 10 [1] (after_setup True)"

text \<open>Quitting while the state is saved can hang: the cancelled thread has the lock that \<open>main()\<close> waits for.\<close>

theorem quit_can_hang:
  "running True (squash_threads desktop_build) saver_saves \<and>
   (\<forall>wr ts. running wr (shut_down saver_saves) ts \<longrightarrow> \<not> can_take wr ts STATE_INFO Exclusive)"
proof
  show "running True (squash_threads desktop_build) saver_saves"
    unfolding saver_saves_def by (intro drive_running after_setup_running)
  have held: "7 < length (shut_down saver_saves) \<and> th_code (shut_down saver_saves ! 7) = Return \<and>
      (STATE_INFO, Exclusive) \<in> set (th_held (shut_down saver_saves ! 7))"
    by code_simp
  show "\<forall>wr ts. running wr (shut_down saver_saves) ts \<longrightarrow> \<not> can_take wr ts STATE_INFO Exclusive"
  proof (intro allI impI)
    fix wr ts
    assume "running wr (shut_down saver_saves) ts"
    with held cancelled_stay have "7 < length ts" "(STATE_INFO, Exclusive) \<in> set (th_held (ts ! 7))" by auto
    then have "\<not> compatible STATE_INFO Exclusive (ts ! 7)" "7 < length ts"
      unfolding compatible_def list_all_iff by blast+
    then show "\<not> can_take wr ts STATE_INFO Exclusive" unfolding can_take_def list_all_length by blast
  qed
qed

end
