(* ===== verification/Spec2Isabelle.thy ===== *)
theory Spec2Isabelle
  imports Database_Correct Stat_Correct State_File Playback_Correct
    Input_Correct Sound Spectrum Empeg_Menu Config Decoders Adventure Spectrum_Bars Vfd_Polygons Main_Program Lock_Order
begin

text \<open>
  Squash, a music player for the desktop and for the empeg car player: a model of its logic and the
  properties of that model.

  \<^bold>\<open>The program.\<close>  Squash keeps a database of songs (files with tags and statistics), chooses songs by
  their ratings, queues them, decodes and plays them, and shows what it does, on a terminal or on the small
  display of the empeg.  It is a set of threads around shared records, each with its lock:
  \<open>setup_database()\<close> loads the database and the state of the last run and then lets the others
  go; \<open>playlist_manager()\<close> fills the queue of songs with the help of \<open>pick_song()\<close>;
  \<open>frame_decoder()\<close> decodes into a buffer of frames, \<open>player()\<close> plays them and moves songs
  to the list of past songs, with feedback to the statistics; the monitors of keyboard, fifo and infrared
  turn input into commands for the player, changes of the queues and of the display; the state saver
  writes the state file; the spectrum analyser looks at what is played.

  \<^bold>\<open>How code is modelled.\<close>  A C routine is a function that returns a value or a fault
  (\<open>Squash_Base\<close>): null pointers, accesses outside of an object, use of freed memory,
  undefined conversions, missing arguments of \<open>printf()\<close>, and the end by
  \<open>squash_error()\<close>.  Structures are records, enumerations datatypes, and the
  global variables a routine uses are its arguments and results.  Linked lists are on a heap of
  numbered cells, with allocation and freeing (\<open>Song_Queue\<close>, \<open>Player_Commands\<close>).
  A routine that may wait or run for ever has an option as its result, \<open>None\<close> for not
  returning.  Threads are step relations: what happens between taking a lock and giving it back is one step.
  The options of the build (\<open>EMPEG\<close>, \<open>NO_NCURSES\<close> and so on) are the record
  \<open>build\<close>.  What the code gets from outside (random numbers, file contents, decoded frames,
  tags, the answers of system calls) are arguments.

  \<^bold>\<open>Theories and sources\<close> (all paths are under \<open>src/src\<close> if not said otherwise).

  \<^item> \<open>Squash_Base\<close>: results and faults, bounded access to arrays, decimal numbers, case folding, the
    locale \<open>refinement\<close>.  \<open>Memory\<close>: \<open>memcpy()\<close> and
    \<open>memset()\<close> with bounds.  \<open>Floating\<close>: binary floating point with rounding to nearest,
    where the program depends on it.  \<open>Printf\<close>, \<open>Meta_Text\<close>: what both displays share.
  \<^item> \<open>Songs\<close>: configuration, songs, database, the file system (\<open>src/include/global.h\<close>).
  \<^item> \<open>Parse_File\<close>: \<open>parse_file()\<close> of \<open>global.c\<close>, the parser of all files squash
    reads, an automaton over the characters with pointers into the file.  Its callback is the locale
    \<open>data_callback\<close>: a callback that keeps an invariant makes the whole parser free of faults.
  \<^item> \<open>Database\<close>, \<open>Database_Correct\<close>: \<open>database.c\<close> and the lookups of \<open>global.c\<close>:
    the directory walk, the list of songs, meta data and statistics, loading and saving.  The
    locale \<open>multimap_store\<close> is the contract of the meta data: what a lookup gives after an insertion.
  \<^item> \<open>Stat\<close>, \<open>Stat_Correct\<close>: \<open>stat.c\<close>: ratings, feedback with its running sums, the
    normal test, and the loop of \<open>pick_song()\<close>.
  \<^item> \<open>Song_Queue\<close>: the queues of songs to play and played (\<open>player.c\<close>, \<open>playlist_manager.c\<close>,
    \<open>input.c\<close>), shown to refine two lists.  \<open>Playlist\<close>: \<open>playlist_manager.c\<close>.
  \<^item> \<open>Config\<close>: the configuration (\<open>global.c\<close>).  \<open>State_File\<close>: \<open>save_state()\<close>, \<open>load_state()\<close>
    (\<open>global.c\<close>, \<open>global_squash.c\<close>).
  \<^item> \<open>Player_Commands\<close>, \<open>Playback\<close>, \<open>Playback_Correct\<close>: \<open>player.c\<close>: the queue of
    commands, the player and the decoder thread with the buffer between them.
  \<^item> \<open>Decoders\<close>: what \<open>play_mp3.c\<close>, \<open>play_flac.c\<close> and \<open>play_ogg.c\<close> do with the
    tags, samples and positions of their libraries.  \<open>Sound\<close>: \<open>sound.c\<close> for the DSP of the
    empeg.  \<open>Spectrum\<close>, \<open>Spectrum_Bars\<close>: the ring between the
    player and the analyser, and the bars the analyser draws (\<open>spectrum.c\<close>).
  \<^item> \<open>Windows\<close>, \<open>Song_List\<close>, \<open>Meta_String\<close>, \<open>Text_Display\<close>: the text display of
    \<open>display.c\<close>: which windows there are and where, which entries a list shows, and what is
    printed into each window.
  \<^item> \<open>Input\<close>, \<open>Input_Dispatch\<close>, \<open>Input_Correct\<close>: the handlers of \<open>input.c\<close> and the
    monitors of keyboard and fifo that call them.
  \<^item> \<open>Empeg_Menu\<close>: the buttons and menus of the empeg (\<open>input.c\<close>, the table in \<open>global.c\<close>).
    \<open>Vfdlib\<close>, \<open>Vfd_Text\<close>, \<open>Vfd_Shades\<close>, \<open>Vfd_Lines\<close>, \<open>Vfd_Ellipses\<close>,
    \<open>Vfd_Polygons\<close>: the display library (\<open>src/empeg/vfdlib.c\<close>), down to the bytes of the display, also
    the shapes squash itself never draws.  \<open>Empeg_Text\<close>,
    \<open>Empeg_Display\<close>: the screens of the empeg (\<open>display.c\<close>).  \<open>Adventure\<close>: the other
    interface of the empeg, which is chosen with \<open>ADVENTURE\<close> when squash is built (\<open>input.c\<close>, \<open>display.c\<close>); two
    names that other files use are missing from its enumeration of screens.
  \<^item> \<open>Startup\<close>: \<open>setup_database()\<close> of \<open>squash.c\<close> and \<open>generate_songlist.c\<close>.  \<open>Main_Program\<close>: \<open>main()\<close> of
    \<open>squash.c\<close>, its beginning and its end.
  \<^item> \<open>Locks\<close>, \<open>Lock_Order\<close>: which locks the threads that \<open>main()\<close> starts
    take, function by function, against the order in \<open>src/doc/LOCKS\<close>.

  \<^bold>\<open>What is shown.\<close>  Files: the parser never faults, on any bytes; info, statistics, masterlist and
  state files are read back as they were written; the walk loads the song files of a tree.  Songs: the running
  sums are the sums over the songs after any feedback, and the picker returns a song of the database.
  Queues: under any operations the linked lists are the lists they stand for.  Playing: in every
  interleaving of the two threads the frames reach the sound device in order and once, the buffer stays
  in bounds, no decoder is used after it was closed, and a player that waits is served; the bytes
  written by \<open>sound_play()\<close> are those of the frame.  Settings: the last setting of a key wins, and
  after \<open>init_config()\<close> no path is missing.  Start: from the first values that
  \<open>main()\<close> sets, when the database thread is done, the invariants hold that the other components need.  Screens: the windows tile the terminal; what is
  drawn stays in its window, and on the empeg in the memory of the display, and texts are
  cut as they should; library routines paint exactly the pixels of the shape inside the
  clip area: text and bitmaps, lines nearest to the straight ones, ellipses by the midpoint rule, polygons
  by the even-odd rule; the bars of the analyser fill every cell of its bitmap.  Input: selections stay in their lists and menus, and lines of the fifo are carried out in order.
  Locks: the empeg build cannot deadlock, whatever the interleaving; the desktop build can, in two
  ways, and would not with two calls exchanged.  Where the code does not do what it should, a theorem
  shows the case (commands that are lost, a player that hangs, overlong titles, an empty playlist, a quit while the database is loaded).

  \<^bold>\<open>Loops, bounds and fuel.\<close>  Loops over data are structural recursions.  The loops that follow linked lists
  take a number of turns as their argument; it is the number of addresses handed out so far, and no
  list without a cycle is longer.  \<open>pick_song()\<close> has a measure on the counters
  it lowers; \<open>sound_play()\<close> is a partial function with a proof that it returns for every frame, and so is the first loop of an ellipse; the bubble sort
  of a polygon has the number of its inversions as a measure.
  Numbers are integers where the code cannot come near the limits of its types or where faults are shown by explicit
  bounds, and words or rounded rationals where width and rounding matter: bytes of the
  display, volumes, silence in frames, samples, seek positions, the progress bar.  Lines, ellipses and
  polygons are drawn with unbounded integers: radii above 150 or so overflow in C.  Ratings and their
  sums are exact reals.

  \<^bold>\<open>Not modelled.\<close>  Curses itself, colours and borders; the Fourier transform, whose result is an
  argument; opening and closing
  of decoders, which only call their libraries; \<open>play_oggflac.c\<close>, which is unfinished and does not compile; the
  builds with \<open>DEBUG\<close>; priorities of threads and the power button; logging;
  failing allocation; the scripts in \<open>src/extra\<close>.  That a path through the locks is possible
  for some data is not asked in \<open>Lock_Order\<close>: it allows every branch.
\<close>

end
